(* ===== verification/Prelude.thy ===== *)
theory Prelude
  imports Main "HOL-Library.Sublist"
begin

text \<open>
  Shared vocabulary of the development. A Rust string is the list of its UTF-8 bytes
  (\<open>str\<close>, a char list), a Rust \<open>char\<close> is the group of bytes that encodes it, and a
  \<open>Result\<close> is a sum with the error on the left. This theory models the parts of the Rust
  standard library that the components use: splitting, trimming and comparing strings, decimal
  parsing with its range check, saturating arithmetic, and ordered association lists for
  \<open>HashMap\<close>, \<open>BTreeMap\<close> and \<open>Vec\<close>-backed registries. The lemmas here are the ones that
  more than one component rests on.
\<close>


type_synonym str = string
type_synonym instant = int
type_synonym bytes64 = nat

section \<open>Machine integers\<close>

definition u64_max :: nat where
  "u64_max = 18446744073709551615"

definition u32_max :: nat where
  "u32_max = 4294967295"

definition saturating_add :: "nat \<Rightarrow> nat \<Rightarrow> nat" where
  "saturating_add a b = min u64_max (a + b)"

definition checked_add :: "nat \<Rightarrow> nat \<Rightarrow> nat option" where
  "checked_add a b = (if a + b \<le> u64_max then Some (a + b) else None)"

definition saturating_mul :: "nat \<Rightarrow> nat \<Rightarrow> nat" where
  "saturating_mul a b = min u64_max (a * b)"

definition clamp :: "'a :: linorder \<Rightarrow> 'a \<Rightarrow> 'a \<Rightarrow> 'a" where
  "clamp v lo hi = (if v < lo then lo else if hi < v then hi else v)"

lemma saturating_add_le [simp]: "saturating_add a b \<le> u64_max"
  by (simp add: saturating_add_def)

lemma saturating_add_ge: "a \<le> u64_max \<Longrightarrow> a \<le> saturating_add a b"
  by (simp add: saturating_add_def)

lemma saturating_add_exact: "a + b \<le> u64_max \<Longrightarrow> saturating_add a b = a + b"
  by (simp add: saturating_add_def)

lemma checked_add_Some_iff [simp]:
  "checked_add a b = Some c \<longleftrightarrow> c = a + b \<and> a + b \<le> u64_max"
  by (auto simp: checked_add_def)

lemma checked_add_None_iff [simp]: "checked_add a b = None \<longleftrightarrow> u64_max < a + b"
  by (auto simp: checked_add_def)

lemma clamp_bounds: "lo \<le> hi \<Longrightarrow> lo \<le> clamp v lo hi \<and> clamp v lo hi \<le> hi"
  by (auto simp: clamp_def)

section \<open>Results\<close>

type_synonym ('e, 'a) result = "'e + 'a"

fun is_ok :: "('e, 'a) result \<Rightarrow> bool" where
  "is_ok (Inl _) = False"
| "is_ok (Inr _) = True"

definition rbind :: "('e, 'a) result \<Rightarrow> ('a \<Rightarrow> ('e, 'b) result) \<Rightarrow> ('e, 'b) result" where
  "rbind m f = (case m of Inl e \<Rightarrow> Inl e | Inr a \<Rightarrow> f a)"

lemma rbind_simps [simp]: "rbind (Inl e) f = Inl e" "rbind (Inr a) f = f a"
  by (simp_all add: rbind_def)

lemma rbind_Inr_iff: "rbind m f = Inr b \<longleftrightarrow> (\<exists>a. m = Inr a \<and> f a = Inr b)"
  by (cases m) auto

lemma rbind_Inl_iff: "rbind m f = Inl e \<longleftrightarrow> m = Inl e \<or> (\<exists>a. m = Inr a \<and> f a = Inl e)"
  by (cases m) auto

lemma is_ok_iff: "is_ok r \<longleftrightarrow> (\<exists>a. r = Inr a)"
  by (cases r) auto

definition ensure :: "bool \<Rightarrow> 'e \<Rightarrow> ('e, unit) result" where
  "ensure b e = (if b then Inr () else Inl e)"

lemma ensure_Inr [simp]: "ensure b e = Inr u \<longleftrightarrow> b"
  by (cases u) (simp add: ensure_def)

lemma ensure_Inl [simp]: "ensure b e = Inl e' \<longleftrightarrow> \<not> b \<and> e' = e"
  by (auto simp: ensure_def)

definition ok_or :: "'a option \<Rightarrow> 'e \<Rightarrow> ('e, 'a) result" where
  "ok_or x e = (case x of None \<Rightarrow> Inl e | Some a \<Rightarrow> Inr a)"

lemma ok_or_Inr [simp]: "ok_or x e = Inr a \<longleftrightarrow> x = Some a"
  by (cases x) (auto simp: ok_or_def)


section \<open>Bytes and strings\<close>

definition byte :: "char \<Rightarrow> nat" where
  "byte c = of_char c"

lemma byte_less [simp]: "byte c < 256"
  using of_char_mod_256 [of c, where ?'a = nat] unfolding byte_def
  by (metis mod_less_divisor zero_less_numeral)

lemma byte_inject [simp]: "byte c = byte d \<longleftrightarrow> c = d"
  by (simp add: byte_def)

lemma char_of_byte [simp]: "char_of (byte c) = c"
  by (simp add: byte_def)

lemma byte_char_of [simp]: "n < 256 \<Longrightarrow> byte (char_of n) = n"
  by (simp add: byte_def)

definition is_ascii_digit :: "char \<Rightarrow> bool" where
  "is_ascii_digit c \<longleftrightarrow> 48 \<le> byte c \<and> byte c \<le> 57"

definition is_ascii_upper :: "char \<Rightarrow> bool" where
  "is_ascii_upper c \<longleftrightarrow> 65 \<le> byte c \<and> byte c \<le> 90"

definition is_ascii_lower :: "char \<Rightarrow> bool" where
  "is_ascii_lower c \<longleftrightarrow> 97 \<le> byte c \<and> byte c \<le> 122"

definition is_ascii_alphanumeric :: "char \<Rightarrow> bool" where
  "is_ascii_alphanumeric c \<longleftrightarrow> is_ascii_digit c \<or> is_ascii_upper c \<or> is_ascii_lower c"

definition ascii_lower :: "char \<Rightarrow> char" where
  "ascii_lower c = (if is_ascii_upper c then char_of (byte c + 32) else c)"

definition to_ascii_lowercase :: "str \<Rightarrow> str" where
  "to_ascii_lowercase s = map ascii_lower s"

definition eq_ignore_ascii_case :: "str \<Rightarrow> str \<Rightarrow> bool" where
  "eq_ignore_ascii_case s t \<longleftrightarrow> to_ascii_lowercase s = to_ascii_lowercase t"

lemma byte_ascii_lower: "byte (ascii_lower c) = (if is_ascii_upper c then byte c + 32 else byte c)"
  by (auto simp: ascii_lower_def is_ascii_upper_def)

lemma ascii_lower_idem [simp]: "ascii_lower (ascii_lower c) = ascii_lower c"
proof (cases "is_ascii_upper c")
  case True
  then have "\<not> is_ascii_upper (ascii_lower c)"
    by (simp add: is_ascii_upper_def byte_ascii_lower)
  then show ?thesis by (simp add: ascii_lower_def [of "ascii_lower c"])
next
  case False
  then show ?thesis by (simp add: ascii_lower_def)
qed

lemma to_ascii_lowercase_idem [simp]:
  "to_ascii_lowercase (to_ascii_lowercase s) = to_ascii_lowercase s"
  by (simp add: to_ascii_lowercase_def)

lemma length_to_ascii_lowercase [simp]: "length (to_ascii_lowercase s) = length s"
  by (simp add: to_ascii_lowercase_def)

lemma eq_ignore_ascii_case_refl [simp]: "eq_ignore_ascii_case s s"
  by (simp add: eq_ignore_ascii_case_def)

text \<open>
  \<open>str::chars\<close>: an ASCII byte alone, any other leading byte (\<open>0xC0\<close> and above) with the
  continuation bytes (\<open>0x80..0xBF\<close>) after it.
\<close>

definition is_continuation :: "char \<Rightarrow> bool" where
  "is_continuation c \<longleftrightarrow> 128 \<le> byte c \<and> byte c < 192"

text \<open>\<open>String::from_utf8\<close> and \<open>read_to_string\<close> accept the byte sequences of Unicode scalar values.\<close>

fun valid_utf8 :: "str \<Rightarrow> bool" where
  "valid_utf8 [] = True"
| "valid_utf8 (a # s) =
     (if byte a < 128 then valid_utf8 s
      else if 194 \<le> byte a \<and> byte a \<le> 223
      then (case s of b # t \<Rightarrow> is_continuation b \<and> valid_utf8 t | [] \<Rightarrow> False)
      else if 224 \<le> byte a \<and> byte a \<le> 239
      then (case s of
              b # c # t \<Rightarrow>
                is_continuation b \<and> is_continuation c \<and> (byte a = 224 \<longrightarrow> 160 \<le> byte b)
                \<and> (byte a = 237 \<longrightarrow> byte b < 160) \<and> valid_utf8 t
            | _ \<Rightarrow> False)
      else if 240 \<le> byte a \<and> byte a \<le> 244
      then (case s of
              b # c # d # t \<Rightarrow>
                is_continuation b \<and> is_continuation c \<and> is_continuation d \<and> (byte a = 240 \<longrightarrow> 144 \<le> byte b)
                \<and> (byte a = 244 \<longrightarrow> byte b < 144) \<and> valid_utf8 t
            | _ \<Rightarrow> False)
      else False)"

lemma valid_utf8_append: "valid_utf8 a \<Longrightarrow> valid_utf8 (a @ b) = valid_utf8 b"
proof (induction a rule: valid_utf8.induct)
  case (2 x s)
  have "valid_utf8 (x # s @ b) = valid_utf8 b"
    using 2 unfolding valid_utf8.simps(2) [of x s] valid_utf8.simps(2) [of x "s @ b"]
    by (auto simp del: valid_utf8.simps(2) split: list.splits if_splits)
  then show ?case by simp
qed simp

definition char_tail :: "char \<Rightarrow> str \<Rightarrow> str" where
  "char_tail b bs = (if byte b < 192 then [] else takeWhile is_continuation bs)"

definition after_char :: "char \<Rightarrow> str \<Rightarrow> str" where
  "after_char b bs = (if byte b < 192 then bs else dropWhile is_continuation bs)"

lemma length_after_char: "length (after_char b bs) \<le> length bs"
  by (simp add: after_char_def length_dropWhile_le)

function chars :: "str \<Rightarrow> str list" where
  "chars [] = []"
| "chars (b # bs) = (b # char_tail b bs) # chars (after_char b bs)"
  by pat_completeness auto
termination
  by (relation "measure length") (auto simp: le_imp_less_Suc length_after_char)

lemma char_tail_append [simp]: "char_tail b bs @ after_char b bs = bs"
  by (simp add: char_tail_def after_char_def)

lemma concat_chars [simp]: "concat (chars s) = s"
  by (induction s rule: chars.induct) simp_all

lemma chars_ascii_singleton: "c \<in> set s \<Longrightarrow> byte c < 128 \<Longrightarrow> [c] \<in> set (chars s)"
proof (induction s rule: chars.induct)
  case (2 b bs)
  have tail: "c \<notin> set (char_tail b bs)"
    using 2(3) by (auto simp: char_tail_def is_continuation_def dest: set_takeWhileD)
  show ?case
  proof (cases "c = b")
    case True
    with 2(3) show ?thesis by (simp add: char_tail_def)
  next
    case False
    with 2(2) tail have "c \<in> set (after_char b bs)"
      by (metis Un_iff char_tail_append set_ConsD set_append)
    with 2 show ?thesis by simp
  qed
qed simp

lemma chars_Nil_iff [simp]: "chars s = [] \<longleftrightarrow> s = []"
  by (cases s) simp_all

text \<open>\<open>char::is_control\<close> (general category Cc) and \<open>char::is_whitespace\<close> (White_Space).\<close>

fun is_control :: "str \<Rightarrow> bool" where
  "is_control [b] = (byte b < 32 \<or> byte b = 127)"
| "is_control [b, c] = (byte b = 194 \<and> 128 \<le> byte c \<and> byte c < 160)"
| "is_control _ = False"

fun is_whitespace :: "str \<Rightarrow> bool" where
  "is_whitespace [b] = (9 \<le> byte b \<and> byte b \<le> 13 \<or> byte b = 32)"
| "is_whitespace [b, c] = (byte b = 194 \<and> (byte c = 133 \<or> byte c = 160))"
| "is_whitespace [b, c, d] =
     (byte b = 225 \<and> byte c = 154 \<and> byte d = 128
      \<or> byte b = 226 \<and> byte c = 128 \<and>
          (128 \<le> byte d \<and> byte d \<le> 138 \<or> byte d = 168 \<or> byte d = 169 \<or> byte d = 175)
      \<or> byte b = 226 \<and> byte c = 129 \<and> byte d = 159
      \<or> byte b = 227 \<and> byte c = 128 \<and> byte d = 128)"
| "is_whitespace _ = False"

definition trim_start :: "str \<Rightarrow> str" where
  "trim_start s = concat (dropWhile is_whitespace (chars s))"

definition trim_end :: "str \<Rightarrow> str" where
  "trim_end s = concat (rev (dropWhile is_whitespace (rev (chars s))))"

definition trim :: "str \<Rightarrow> str" where
  "trim s = trim_end (trim_start s)"

definition trim_start_matches :: "char \<Rightarrow> str \<Rightarrow> str" where
  "trim_start_matches c s = dropWhile (\<lambda>x. x = c) s"

definition trim_end_matches :: "char \<Rightarrow> str \<Rightarrow> str" where
  "trim_end_matches c s = rev (dropWhile (\<lambda>x. x = c) (rev s))"

definition trim_matches :: "char \<Rightarrow> str \<Rightarrow> str" where
  "trim_matches c s = trim_end_matches c (trim_start_matches c s)"

lemma chars_ascii_Cons: "byte c < 128 \<Longrightarrow> chars (c # s) = [c] # chars s"
  by (simp add: char_tail_def after_char_def)

lemma chars_ascii_snoc: "byte c < 128 \<Longrightarrow> chars (s @ [c]) = chars s @ [[c]]"
proof (induction s rule: chars.induct)
  case (2 b bs)
  have "\<not> is_continuation c" using 2(2) by (simp add: is_continuation_def)
  then have "char_tail b (bs @ [c]) = char_tail b bs" "after_char b (bs @ [c]) = after_char b bs @ [c]"
    by (simp_all add: char_tail_def after_char_def takeWhile_tail dropWhile_append3)
  with 2 show ?case by simp
qed (simp add: char_tail_def after_char_def)

lemma trim_start_ascii:
  "byte c < 128 \<Longrightarrow> trim_start (c # s) = (if is_whitespace [c] then trim_start s else c # s)"
  by (simp add: trim_start_def chars_ascii_Cons del: is_whitespace.simps chars.simps)

lemma trim_start_Nil [simp]: "trim_start [] = []"
  by (simp add: trim_start_def)

lemma trim_end_ascii:
  "byte c < 128 \<Longrightarrow> \<not> is_whitespace [c] \<Longrightarrow> trim_end (s @ [c]) = s @ [c]"
  by (simp add: trim_end_def chars_ascii_snoc del: is_whitespace.simps)

lemma trim_ascii_ends:
  assumes "s \<noteq> []" and "byte (hd s) < 128" "\<not> is_whitespace [hd s]"
    and "byte (last s) < 128" "\<not> is_whitespace [last s]"
  shows "trim s = s"
proof -
  have "trim_start s = s"
    using assms(1-3) trim_start_ascii [of "hd s" "tl s"] by (simp del: is_whitespace.simps)
  moreover have "trim_end s = s"
    using assms(1,4,5) trim_end_ascii [of "last s" "butlast s"] by (simp del: is_whitespace.simps)
  ultimately show ?thesis by (simp add: trim_def)
qed

text \<open>\<open>str::split\<close> on one character, \<open>[T]::join\<close>, \<open>split_once\<close>, \<open>rsplit_once\<close> and prefixes.\<close>

fun split_on :: "char \<Rightarrow> str \<Rightarrow> str list" where
  "split_on c [] = [[]]"
| "split_on c (x # xs) =
     (if x = c then [] # split_on c xs
      else (case split_on c xs of [] \<Rightarrow> [[x]] | p # ps \<Rightarrow> (x # p) # ps))"

fun join_with :: "str \<Rightarrow> str list \<Rightarrow> str" where
  "join_with sep [] = []"
| "join_with sep [p] = p"
| "join_with sep (p # q # ps) = p @ sep @ join_with sep (q # ps)"

definition strip_prefix :: "str \<Rightarrow> str \<Rightarrow> str option" where
  "strip_prefix p s = (if take (length p) s = p then Some (drop (length p) s) else None)"

definition starts_with :: "str \<Rightarrow> str \<Rightarrow> bool" where
  "starts_with s p \<longleftrightarrow> take (length p) s = p"

definition ends_with :: "str \<Rightarrow> str \<Rightarrow> bool" where
  "ends_with s p \<longleftrightarrow> take (length p) (rev s) = rev p"

definition split_once :: "char \<Rightarrow> str \<Rightarrow> (str \<times> str) option" where
  "split_once c s =
     (if c \<in> set s
      then Some (takeWhile (\<lambda>x. x \<noteq> c) s, tl (dropWhile (\<lambda>x. x \<noteq> c) s)) else None)"

definition rsplit_once :: "char \<Rightarrow> str \<Rightarrow> (str \<times> str) option" where
  "rsplit_once c s =
     map_option (\<lambda>(a, b). (rev b, rev a)) (split_once c (rev s))"

fun str_contains :: "str \<Rightarrow> str \<Rightarrow> bool" where
  "str_contains [] p = (p = [])"
| "str_contains (x # xs) p = (starts_with (x # xs) p \<or> str_contains xs p)"

lemma strip_prefix_Some_iff [simp]: "strip_prefix p s = Some r \<longleftrightarrow> s = p @ r"
  by (auto simp: strip_prefix_def) (metis append_take_drop_id)

lemma starts_with_iff: "starts_with s p \<longleftrightarrow> (\<exists>r. s = p @ r)"
  by (auto simp: starts_with_def) (metis append_take_drop_id)

lemma starts_with_append [simp]: "starts_with (p @ r) p"
  by (simp add: starts_with_def)

lemma split_once_append: "c \<notin> set a \<Longrightarrow> split_once c (a @ c # b) = Some (a, b)"
  by (simp add: split_once_def takeWhile_append dropWhile_append)

lemma split_once_Some: "split_once c s = Some (a, b) \<Longrightarrow> s = a @ c # b \<and> c \<notin> set a"
proof -
  assume "split_once c s = Some (a, b)"
  then have c: "c \<in> set s" and ab: "a = takeWhile (\<lambda>x. x \<noteq> c) s" "b = tl (dropWhile (\<lambda>x. x \<noteq> c) s)"
    by (auto simp: split_once_def split: if_splits)
  then have ne: "dropWhile (\<lambda>x. x \<noteq> c) s \<noteq> []" by (auto simp: dropWhile_eq_Nil_conv)
  then have "dropWhile (\<lambda>x. x \<noteq> c) s = c # b"
    using ab hd_dropWhile [OF ne] by (metis list.collapse)
  then show ?thesis
    using ab takeWhile_dropWhile_id [of "\<lambda>x. x \<noteq> c" s] set_takeWhileD [of c "\<lambda>x. x \<noteq> c" s] by auto
qed

lemma split_on_not_Nil [simp]: "split_on c s \<noteq> []"
  by (cases s) (simp_all split: list.splits)

lemma split_on_no_sep: "c \<notin> set s \<Longrightarrow> split_on c s = [s]"
  by (induction s) auto

lemma split_on_sep_free: "p \<in> set (split_on c s) \<Longrightarrow> c \<notin> set p"
  by (induction s arbitrary: p) (auto split: if_splits list.splits)

lemma split_on_subset: "p \<in> set (split_on c s) \<Longrightarrow> set p \<subseteq> set s"
  by (induction s arbitrary: p) (fastforce split: if_splits list.splits)+

lemma split_on_append:
  "c \<notin> set a \<Longrightarrow> split_on c (a @ c # b) = a # split_on c b"
  by (induction a) auto

lemma split_on_snoc: "split_on c (s @ [c]) = split_on c s @ [[]]"
  by (induction s) (auto split: list.splits)

lemma join_with_split_on [simp]: "join_with [c] (split_on c s) = s"
proof (induction s)
  case Nil
  show ?case by simp
next
  case (Cons x xs)
  then show ?case by (cases "split_on c xs"; cases "tl (split_on c xs)") auto
qed

lemma split_on_join_with:
  "ps \<noteq> [] \<Longrightarrow> \<forall>p \<in> set ps. c \<notin> set p \<Longrightarrow> split_on c (join_with [c] ps) = ps"
proof (induction "[c]" ps rule: join_with.induct)
  case (2 p)
  then show ?case by (simp add: split_on_no_sep)
next
  case (3 p q ps)
  then show ?case by (simp add: split_on_append)
qed simp

lemma set_join_with: "set (join_with sep ps) \<subseteq> set sep \<union> (\<Union>p \<in> set ps. set p)"
  by (induction sep ps rule: join_with.induct) auto

lemma join_with_hd: "ps \<noteq> [] \<Longrightarrow> hd ps \<noteq> [] \<Longrightarrow> hd (join_with sep ps) = hd (hd ps)"
  by (induction sep ps rule: join_with.induct) auto

lemma join_with_Nil_iff:
  "\<forall>p \<in> set ps. p \<noteq> [] \<Longrightarrow> join_with sep ps = [] \<longleftrightarrow> ps = []"
  by (induction sep ps rule: join_with.induct) auto

lemma join_with_last:
  "ps \<noteq> [] \<Longrightarrow> \<forall>p \<in> set ps. p \<noteq> [] \<Longrightarrow> last (join_with sep ps) = last (last ps)"
proof (induction sep ps rule: join_with.induct)
  case (3 sep p q ps)
  then show ?case using join_with_Nil_iff [of "q # ps" sep] by simp
qed simp_all

lemma trim_start_matches_id: "s = [] \<or> hd s \<noteq> c \<Longrightarrow> trim_start_matches c s = s"
  by (cases s) (auto simp: trim_start_matches_def)

lemma trim_end_matches_id: "s = [] \<or> last s \<noteq> c \<Longrightarrow> trim_end_matches c s = s"
  by (cases s rule: rev_cases) (auto simp: trim_end_matches_def)

lemma trim_matches_id: "s = [] \<or> hd s \<noteq> c \<and> last s \<noteq> c \<Longrightarrow> trim_matches c s = s"
  by (auto simp: trim_matches_def trim_start_matches_id trim_end_matches_id)

lemma set_trim_matches: "set (trim_matches c s) \<subseteq> set s"
proof -
  have "set (rev (dropWhile P (rev t))) \<subseteq> set t" for P and t :: str
    using set_dropWhileD [of _ P "rev t"] by auto
  then show ?thesis
    unfolding trim_matches_def trim_end_matches_def trim_start_matches_def
    by (meson set_dropWhileD subset_code(1))
qed

section \<open>Decimal parsing\<close>

text \<open>
  \<open>str::parse::<u64>\<close>: an optional plus sign and at least one ASCII digit; a value above
  \<open>u64::MAX\<close> is an error.
\<close>

definition digit_value :: "char \<Rightarrow> nat" where
  "digit_value c = byte c - 48"

definition decimal_value :: "str \<Rightarrow> nat" where
  "decimal_value s = foldl (\<lambda>acc c. acc * 10 + digit_value c) 0 s"

definition parse_unsigned :: "nat \<Rightarrow> str \<Rightarrow> nat option" where
  "parse_unsigned bound s =
     (let digits = (case s of [] \<Rightarrow> [] | c # cs \<Rightarrow> if byte c = 43 then cs else s)
      in if digits = [] \<or> \<not> list_all is_ascii_digit digits then None
         else let v = decimal_value digits in if v \<le> bound then Some v else None)"

definition parse_u64 :: "str \<Rightarrow> nat option" where
  "parse_u64 s = parse_unsigned u64_max s"

lemma parse_u64_bound: "parse_u64 s = Some v \<Longrightarrow> v \<le> u64_max"
  by (auto simp: parse_u64_def parse_unsigned_def Let_def split: if_splits)

text \<open>The decimal text \<open>Display\<close> prints for an unsigned integer, and its round trip.\<close>

fun show_nat :: "nat \<Rightarrow> str" where
  "show_nat n = (if n < 10 then [char_of (48 + n)] else show_nat (n div 10) @ [char_of (48 + n mod 10)])"

declare show_nat.simps [simp del]

lemma digit_char: "n < 10 \<Longrightarrow> is_ascii_digit (char_of (48 + n)) \<and> digit_value (char_of (48 + n)) = n"
  by (simp add: is_ascii_digit_def digit_value_def)

lemma show_nat_digits: "list_all is_ascii_digit (show_nat n) \<and> show_nat n \<noteq> []"
proof (induction n rule: show_nat.induct)
  case (1 n)
  show ?case
  proof (cases "n < 10")
    case True
    then show ?thesis by (subst (1 2) show_nat.simps) (simp add: digit_char)
  next
    case False
    with 1 digit_char [of "n mod 10"] show ?thesis
      by (subst (1 2) show_nat.simps) simp
  qed
qed

lemma decimal_value_show_nat: "decimal_value (show_nat n) = n"
proof (induction n rule: show_nat.induct)
  case (1 n)
  show ?case
  proof (cases "n < 10")
    case True
    then show ?thesis by (subst show_nat.simps) (simp add: digit_char decimal_value_def)
  next
    case False
    with 1 digit_char [of "n mod 10"] show ?thesis
      by (subst show_nat.simps) (simp add: decimal_value_def)
  qed
qed

lemma parse_unsigned_show_nat: "n \<le> bound \<Longrightarrow> parse_unsigned bound (show_nat n) = Some n"
proof -
  assume n: "n \<le> bound"
  obtain c cs where s: "show_nat n = c # cs" using show_nat_digits [of n] by (cases "show_nat n") auto
  have "is_ascii_digit c" using show_nat_digits [of n] s by simp
  then have "byte c \<noteq> 43" by (simp add: is_ascii_digit_def)
  then show ?thesis
    using n show_nat_digits [of n] decimal_value_show_nat [of n]
    by (simp add: parse_unsigned_def Let_def s)
qed

lemma parse_u64_show_nat: "n \<le> u64_max \<Longrightarrow> parse_u64 (show_nat n) = Some n"
  by (simp add: parse_u64_def parse_unsigned_show_nat)

lemma show_nat_free: "\<not> is_ascii_digit c \<Longrightarrow> c \<notin> set (show_nat n)"
  using show_nat_digits [of n] by (auto simp: list_all_iff)

section \<open>Lists\<close>

text \<open>\<open>Iterator::min_by_key\<close>: the first of the least elements.\<close>

fun min_by_key :: "('a \<Rightarrow> 'b :: linorder) \<Rightarrow> 'a list \<Rightarrow> 'a option" where
  "min_by_key f [] = None"
| "min_by_key f (x # xs) =
     (case min_by_key f xs of None \<Rightarrow> Some x | Some y \<Rightarrow> if f x \<le> f y then Some x else Some y)"

text \<open>A mutable reference to the first match, and \<open>Vec::remove\<close>.\<close>

fun modify_first :: "('a \<Rightarrow> bool) \<Rightarrow> ('a \<Rightarrow> 'a) \<Rightarrow> 'a list \<Rightarrow> 'a list" where
  "modify_first P f [] = []"
| "modify_first P f (x # xs) = (if P x then f x # xs else x # modify_first P f xs)"

definition remove_nth :: "nat \<Rightarrow> 'a list \<Rightarrow> 'a list" where
  "remove_nth i xs = take i xs @ drop (Suc i) xs"

lemma min_by_key_None [simp]: "min_by_key f xs = None \<longleftrightarrow> xs = []"
  by (cases xs) (auto split: option.splits)

lemma min_by_key_Some:
  "min_by_key f xs = Some x \<Longrightarrow> x \<in> set xs \<and> (\<forall>y \<in> set xs. f x \<le> f y)"
proof (induction xs arbitrary: x)
  case (Cons a xs)
  then show ?case
    by (cases "min_by_key f xs") (fastforce split: if_splits)+
qed simp

lemma length_modify_first [simp]: "length (modify_first P f xs) = length xs"
  by (induction xs) auto

lemma map_modify_first: "(\<And>x. P x \<Longrightarrow> g (f x) = g x) \<Longrightarrow> map g (modify_first P f xs) = map g xs"
  by (induction xs) auto

lemma find_modify_first:
  "(\<And>x. P x \<Longrightarrow> P (f x)) \<Longrightarrow> List.find P (modify_first P f xs) = map_option f (List.find P xs)"
  by (induction xs) auto

lemma find_modify_first_other:
  "(\<And>x. P x \<Longrightarrow> \<not> Q x) \<Longrightarrow> (\<And>x. P x \<Longrightarrow> \<not> Q (f x)) \<Longrightarrow>
   List.find Q (modify_first P f xs) = List.find Q xs"
  by (induction xs) auto

lemma find_append: "List.find P (xs @ ys) = (case List.find P xs of None \<Rightarrow> List.find P ys | Some x \<Rightarrow> Some x)"
  by (induction xs) auto

lemma set_remove_nth: "set (remove_nth i xs) \<subseteq> set xs"
  by (auto simp: remove_nth_def dest: in_set_takeD in_set_dropD)

lemma length_remove_nth: "i < length xs \<Longrightarrow> length (remove_nth i xs) = length xs - 1"
  by (simp add: remove_nth_def)

lemma distinct_map_remove_nth: "distinct (map f xs) \<Longrightarrow> distinct (map f (remove_nth i xs))"
proof -
  assume d: "distinct (map f xs)"
  have "xs = take i xs @ drop i xs" by simp
  with d have "distinct (map f (take i xs) @ map f (drop i xs))" by (metis map_append)
  moreover have "set (map f (drop (Suc i) xs)) \<subseteq> set (map f (drop i xs))"
    using set_drop_subset_set_drop [of i "Suc i" xs] by auto
  moreover have "distinct (map f (drop (Suc i) xs))" using d by (simp add: drop_map [symmetric])
  ultimately show ?thesis by (auto simp: remove_nth_def)
qed

section \<open>Association lists\<close>

text \<open>
  A map is an association list with distinct keys. For a \<open>HashMap\<close> the order of the list stands
  for the (unspecified) iteration order; for a \<open>BTreeMap\<close> it is irrelevant to lookups.
\<close>

definition al_get :: "('k \<times> 'v) list \<Rightarrow> 'k \<Rightarrow> 'v option" where
  "al_get m k = map_of m k"

definition al_remove :: "'k \<Rightarrow> ('k \<times> 'v) list \<Rightarrow> ('k \<times> 'v) list" where
  "al_remove k m = filter (\<lambda>(k', _). k' \<noteq> k) m"

definition al_insert :: "'k \<Rightarrow> 'v \<Rightarrow> ('k \<times> 'v) list \<Rightarrow> ('k \<times> 'v) list" where
  "al_insert k v m = (k, v) # al_remove k m"

definition al_retain :: "('k \<Rightarrow> 'v \<Rightarrow> bool) \<Rightarrow> ('k \<times> 'v) list \<Rightarrow> ('k \<times> 'v) list" where
  "al_retain P m = filter (\<lambda>(k, v). P k v) m"

abbreviation al_keys :: "('k \<times> 'v) list \<Rightarrow> 'k list" where
  "al_keys m \<equiv> map fst m"

lemma al_get_remove [simp]: "al_get (al_remove k m) k' = (if k' = k then None else al_get m k')"
  by (induction m) (auto simp: al_get_def al_remove_def)

lemma al_get_insert [simp]:
  "al_get (al_insert k v m) k' = (if k' = k then Some v else al_get m k')"
  using al_get_remove [of k m k'] by (simp add: al_insert_def al_get_def)

lemma distinct_al_remove [intro]: "distinct (al_keys m) \<Longrightarrow> distinct (al_keys (al_remove k m))"
  by (auto simp: al_remove_def intro: distinct_map_filter)

lemma distinct_al_insert [intro]: "distinct (al_keys m) \<Longrightarrow> distinct (al_keys (al_insert k v m))"
  by (auto simp: al_insert_def al_remove_def intro: distinct_map_filter)

lemma distinct_al_retain [intro]: "distinct (al_keys m) \<Longrightarrow> distinct (al_keys (al_retain P m))"
  by (auto simp: al_retain_def intro: distinct_map_filter)

lemma set_al_retain [simp]: "set (al_retain P m) = {(k, v) \<in> set m. P k v}"
  by (auto simp: al_retain_def)

lemma set_al_remove [simp]: "set (al_remove k m) = {(k', v) \<in> set m. k' \<noteq> k}"
  by (auto simp: al_remove_def)

lemma al_get_Some_iff: "distinct (al_keys m) \<Longrightarrow> al_get m k = Some v \<longleftrightarrow> (k, v) \<in> set m"
  by (simp add: al_get_def)

lemma al_get_retain:
  "distinct (al_keys m) \<Longrightarrow>
   al_get (al_retain P m) k = (case al_get m k of Some v \<Rightarrow> if P k v then Some v else None | None \<Rightarrow> None)"
  by (induction m) (auto simp: al_get_def al_retain_def map_of_eq_None_iff
      split: option.splits dest: map_of_SomeD)

lemma length_al_retain [simp]: "length (al_retain P m) \<le> length m"
  by (simp add: al_retain_def)

lemma length_al_remove [simp]: "length (al_remove k m) \<le> length m"
  by (simp add: al_remove_def)

end
