(* ===== verification/AppError.thy ===== *)
theory AppError
  imports Prelude
begin

text \<open>
  The error type every request handler returns (src/src/error.rs): the enum of failures, the
  commit and cleanup outcome attached to a write, the HTTP status, the public code and the public
  message of each. A message written in Chinese in the source is represented by an English
  rendering of it, one literal per source literal. The source of an internal error (an
  \<open>anyhow::Error\<close>) is the text it displays.
\<close>

section \<open>Data\<close>

datatype commit_state = NotCommitted | Committed | CommitUnknown

datatype cleanup_state = CleanupComplete | CleanupPending | CleanupUnknown

record operation_outcome =
  oo_commit :: commit_state
  oo_cleanup :: cleanup_state
  oo_retry :: str

definition operation_outcome_new :: "commit_state \<Rightarrow> cleanup_state \<Rightarrow> operation_outcome" where
  "operation_outcome_new commit cleanup =
     \<lparr>oo_commit = commit, oo_cleanup = cleanup,
      oo_retry = (case commit of
          NotCommitted \<Rightarrow> ''after_correction''
        | Committed \<Rightarrow> ''do_not_repeat''
        | CommitUnknown \<Rightarrow> ''verify_first'')\<rparr>"

datatype app_error =
    Operation operation_outcome app_error
  | BadRequest str
  | UploadBatchExpired
  | Unauthorized
  | Forbidden
  | NotFound
  | Conflict str
  | DestinationExists
  | ParentDirectoryMissing
  | PreconditionFailed
  | PayloadTooLarge
  | ArchiveEntryLimit
  | InsufficientStorage
  | ClientClosedRequest
  | RequestTimeout
  | TooManyRequests
  | TrafficExhausted str
  | StorageCapability str str
  | ServiceUnavailable str
  | Internal str "str option"

type_synonym 'a app_result = "app_error + 'a"

section \<open>Operations\<close>

definition with_operation :: "app_error \<Rightarrow> commit_state \<Rightarrow> cleanup_state \<Rightarrow> app_error" where
  "with_operation e commit cleanup =
     (case e of Operation _ _ \<Rightarrow> e | _ \<Rightarrow> Operation (operation_outcome_new commit cleanup) e)"

definition operation :: "app_error \<Rightarrow> operation_outcome option" where
  "operation e = (case e of Operation outcome _ \<Rightarrow> Some outcome | _ \<Rightarrow> None)"

definition blocks_retry :: "app_error \<Rightarrow> bool" where
  "blocks_retry e =
     (case operation e of Some outcome \<Rightarrow> oo_commit outcome \<noteq> NotCommitted | None \<Rightarrow> False)"

fun capability :: "app_error \<Rightarrow> str option" where
  "capability (Operation _ cause) = capability cause"
| "capability (StorageCapability cap _) = Some cap"
| "capability _ = None"

fun code :: "app_error \<Rightarrow> str" where
  "code (Operation outcome cause) =
     (case oo_commit outcome of
        NotCommitted \<Rightarrow> code cause
      | Committed \<Rightarrow> ''operation_committed_pending''
      | CommitUnknown \<Rightarrow> ''operation_result_unknown'')"
| "code (BadRequest _) = ''bad_request''"
| "code ParentDirectoryMissing = ''bad_request''"
| "code UploadBatchExpired = ''upload_batch_expired''"
| "code Unauthorized = ''unauthorized''"
| "code Forbidden = ''forbidden''"
| "code NotFound = ''not_found''"
| "code (Conflict _) = ''conflict''"
| "code DestinationExists = ''conflict''"
| "code PreconditionFailed = ''precondition_failed''"
| "code PayloadTooLarge = ''payload_too_large''"
| "code ArchiveEntryLimit = ''archive_entry_limit''"
| "code InsufficientStorage = ''insufficient_storage''"
| "code ClientClosedRequest = ''client_closed_request''"
| "code RequestTimeout = ''request_timeout''"
| "code TooManyRequests = ''too_many_requests''"
| "code (TrafficExhausted _) = ''traffic_exhausted''"
| "code (StorageCapability _ _) = ''storage_capability_unavailable''"
| "code (ServiceUnavailable _) = ''service_unavailable''"
| "code (Internal _ _) = ''internal_error''"

definition internal_error :: "str \<Rightarrow> app_error" where
  "internal_error context = Internal context None"

definition with_source :: "str \<Rightarrow> str \<Rightarrow> app_error" where
  "with_source context source = Internal context (Some source)"

fun status :: "app_error \<Rightarrow> nat" where
  "status (Operation outcome cause) =
     (if oo_commit outcome = NotCommitted then status cause else 409)"
| "status (BadRequest _) = 400"
| "status ParentDirectoryMissing = 400"
| "status UploadBatchExpired = 410"
| "status Unauthorized = 401"
| "status Forbidden = 403"
| "status NotFound = 404"
| "status (Conflict _) = 409"
| "status DestinationExists = 409"
| "status PreconditionFailed = 412"
| "status PayloadTooLarge = 413"
| "status ArchiveEntryLimit = 400"
| "status InsufficientStorage = 507"
| "status ClientClosedRequest = 499"
| "status RequestTimeout = 408"
| "status TooManyRequests = 429"
| "status (TrafficExhausted _) = 429"
| "status (StorageCapability _ _) = 503"
| "status (ServiceUnavailable _) = 503"
| "status (Internal _ _) = 500"

fun public_message :: "app_error \<Rightarrow> str" where
  "public_message (Operation outcome cause) =
     (case oo_commit outcome of
        NotCommitted \<Rightarrow> public_message cause
      | Committed \<Rightarrow> ''The file change was committed but follow-up work is unfinished. Verify the result, do not repeat it.''
      | CommitUnknown \<Rightarrow> ''The result is not confirmed. Verify the files and storage state first, do not retry directly.'')"
| "public_message (BadRequest message) = message"
| "public_message (TrafficExhausted message) = message"
| "public_message (Conflict message) = message"
| "public_message (StorageCapability _ message) = message"
| "public_message (ServiceUnavailable message) = message"
| "public_message Unauthorized = ''Authentication required''"
| "public_message UploadBatchExpired = ''The upload batch expired, prepare the files not yet started again''"
| "public_message Forbidden = ''Access denied''"
| "public_message NotFound = ''Resource not found''"
| "public_message DestinationExists = ''Destination already exists''"
| "public_message ParentDirectoryMissing = ''Destination directory does not exist''"
| "public_message PreconditionFailed = ''The write condition does not hold, the target file was not modified by this operation''"
| "public_message PayloadTooLarge = ''Payload exceeds the configured limit''"
| "public_message ArchiveEntryLimit = ''Archive exceeds the configured entry limit''"
| "public_message InsufficientStorage = ''Storage does not have enough free space for this upload''"
| "public_message ClientClosedRequest = ''Upload connection was closed by the client''"
| "public_message RequestTimeout = ''Request exceeded the configured timeout''"
| "public_message TooManyRequests = ''Too many requests''"
| "public_message (Internal _ _) = ''Internal server error''"

record error_details =
  ed_code :: str
  ed_message :: str
  ed_capability :: "str option"
  ed_operation :: "operation_outcome option"

definition into_response :: "app_error \<Rightarrow> nat \<times> error_details" where
  "into_response e =
     (status e, \<lparr>ed_code = code e, ed_message = public_message e,
                 ed_capability = capability e, ed_operation = operation e\<rparr>)"

definition from_status :: "nat \<Rightarrow> app_error" where
  "from_status s =
     (if s = 400 then BadRequest ''Invalid request''
      else if s = 401 then Unauthorized
      else if s = 403 then Forbidden
      else if s = 404 then NotFound
      else if s = 409 then Conflict ''Resource already exists''
      else if s = 412 then PreconditionFailed
      else if s = 413 then PayloadTooLarge
      else if s = 507 then InsufficientStorage
      else if s = 408 then RequestTimeout
      else if s = 429 then TooManyRequests
      else if s = 503 then ServiceUnavailable ''Service temporarily unavailable''
      else internal_error ''request failed'')"

section \<open>Lemmas\<close>

lemma with_operation_absorbs [simp]:
  "with_operation (with_operation e c k) c' k' = with_operation e c k"
  by (cases e) (simp_all add: with_operation_def)

lemma with_operation_not_committed_transparent:
  "operation e = None \<Longrightarrow>
   status (with_operation e NotCommitted k) = status e \<and>
   code (with_operation e NotCommitted k) = code e \<and>
   public_message (with_operation e NotCommitted k) = public_message e"
  by (cases e) (simp_all add: operation_def with_operation_def operation_outcome_new_def)

text \<open>
  The data a client sees hides what an internal error carries: replacing the context and the
  source of every internal error inside an error leaves the whole response unchanged.
\<close>

fun redact :: "str \<Rightarrow> str option \<Rightarrow> app_error \<Rightarrow> app_error" where
  "redact ctx src (Operation outcome cause) = Operation outcome (redact ctx src cause)"
| "redact ctx src (Internal _ _) = Internal ctx src"
| "redact ctx src e = e"

lemma redact_fields [simp]:
  "status (redact ctx src e) = status e"
  "code (redact ctx src e) = code e"
  "public_message (redact ctx src e) = public_message e"
  "capability (redact ctx src e) = capability e"
  by (induction e) (auto split: commit_state.splits)

lemma operation_redact [simp]: "operation (redact ctx src e) = operation e"
  by (cases e) (simp_all add: operation_def)

lemma into_response_redact: "into_response (redact ctx src e) = into_response e"
  by (simp add: into_response_def)

lemma blocks_retry_response:
  assumes "blocks_retry e"
  shows "status e = 409 \<and> code e \<in> {''operation_committed_pending'', ''operation_result_unknown''}"
  using assms
  by (cases e) (auto simp: blocks_retry_def operation_def split: commit_state.splits)

lemma status_from_status:
  "status (from_status s) =
     (if s \<in> {400, 401, 403, 404, 409, 412, 413, 507, 408, 429, 503} then s else 500)"
  by (auto simp: from_status_def internal_error_def)

end
