(* ===== verification/Traffic.thy ===== *)
theory Traffic
  imports AppError "HOL-Library.Monad_Syntax" "HOL-Library.List_Lexorder" "HOL-Library.Char_ord"
begin

text \<open>
  Traffic accounting (src/src/traffic.rs, src/src/traffic/commit.rs, src/src/traffic/stream.rs):
  quotas and reset cycles, the usage ledger, the journal of charges with its snapshot, replay at
  start-up, the group commit of the single writer and the batches of a metered body.

  A point in time is its Unix timestamp in seconds, a calendar day its number of days since the
  epoch. The calendar of the chrono crate and the JSON codecs are parameters. The option type
  stands for a call that may panic or not return (\<open>None\<close>): the calendar is partial and the month
  loop has no bound of its own. What the file system does to one commit is an argument. A
  \<open>BTreeMap\<close> is an association list; nothing modelled depends on the order of its keys. Result
  texts written in Chinese in the source are rendered in English.
\<close>

section \<open>The calendar\<close>

text \<open>
  What the source uses of chrono. A \<open>DateTime<Utc>\<close> is always built from a whole number of
  seconds and is represented by it.
\<close>

record chrono =
  in_range :: "int \<Rightarrow> bool"
  year :: "int \<Rightarrow> int"
  month :: "int \<Rightarrow> int"
  checked_add_months :: "int \<Rightarrow> nat \<Rightarrow> int option"
  format_day :: "int \<Rightarrow> str"
  parse_day :: "str \<Rightarrow> int option"
  first_of_month :: "int \<Rightarrow> int"

definition from_timestamp :: "chrono \<Rightarrow> int \<Rightarrow> int option" where
  "from_timestamp chr t = (if in_range chr t then Some t else None)"

definition date_naive :: "int \<Rightarrow> int" where
  "date_naive t = t div 86400"

section \<open>Quotas\<close>

datatype direction = Upload | Download

record quota =
  quota_enabled :: bool
  quota_upload :: nat
  quota_download :: nat

definition default_quota :: quota where
  "default_quota = \<lparr>quota_enabled = False, quota_upload = 0, quota_download = 0\<rparr>"

definition quota_validate :: "quota \<Rightarrow> unit app_result" where
  "quota_validate q =
     (if 9007199254740991 < quota_upload q \<or> 9007199254740991 < quota_download q
      then Inl (BadRequest ''Traffic quota is out of the supported range'')
      else Inr ())"

definition quota_limit :: "quota \<Rightarrow> direction \<Rightarrow> nat" where
  "quota_limit q d =
     (if \<not> quota_enabled q then 0
      else case d of Upload \<Rightarrow> quota_upload q | Download \<Rightarrow> quota_download q)"

section \<open>Reset cycles\<close>

datatype cycle_unit = Hours | Days | Months

record reset_cycle =
  cycle_unit :: cycle_unit
  every :: nat
  anchor :: int
  offset_minutes :: int

definition default_cycle :: reset_cycle where
  "default_cycle = \<lparr>cycle_unit = Months, every = 1, anchor = 1704067200, offset_minutes = 0\<rparr>"

partial_function (option) month_loop ::
  "chrono \<Rightarrow> int \<Rightarrow> int \<Rightarrow> nat \<Rightarrow> int \<Rightarrow> nat \<Rightarrow> int option" where
  "month_loop chr start offset step now count =
     do {
       date \<leftarrow> checked_add_months chr start (count * step);
       let next = date - offset;
       if next > now then Some next
       else month_loop chr start offset step now (count + 1)
     }"

definition cycle_next :: "chrono \<Rightarrow> reset_cycle \<Rightarrow> int \<Rightarrow> int option" where
  "cycle_next chr c now =
     (if now < anchor c then Some (anchor c)
      else case cycle_unit c of
        Months \<Rightarrow>
          do {
            let offset = offset_minutes c * 60;
            start \<leftarrow> from_timestamp chr (anchor c + offset);
            date \<leftarrow> from_timestamp chr (now + offset);
            let months = nat (max 0 ((year chr date - year chr start) * 12
                                     + month chr date - month chr start));
            month_loop chr start offset (every c) now (months div every c)
          }
      | unit \<Rightarrow>
          let seconds = int (every c) * (if unit = Hours then 3600 else 86400)
          in Some (anchor c + ((now - anchor c) div seconds + 1) * seconds))"

record traffic_settings =
  set_total :: quota
  set_guest :: quota
  set_users_total :: quota
  set_users :: "(str \<times> quota) list"
  set_cycle :: reset_cycle

definition default_settings :: traffic_settings where
  "default_settings =
     \<lparr>set_total = default_quota, set_guest = default_quota, set_users_total = default_quota,
      set_users = [], set_cycle = default_cycle\<rparr>"

fun validate_quotas :: "quota list \<Rightarrow> unit app_result" where
  "validate_quotas [] = Inr ()"
| "validate_quotas (q # qs) = rbind (quota_validate q) (\<lambda>_. validate_quotas qs)"

definition settings_validate :: "traffic_settings \<Rightarrow> unit app_result" where
  "settings_validate s =
     rbind (quota_validate (set_total s)) (\<lambda>_.
     rbind (quota_validate (set_guest s)) (\<lambda>_.
     rbind (quota_validate (set_users_total s)) (\<lambda>_.
     rbind (ensure (\<not> (1000 < length (set_users s) \<or> list_ex (\<lambda>id. 128 < length id) (al_keys (set_users s))))
              (BadRequest ''User traffic settings are out of the supported range'')) (\<lambda>_.
     rbind (validate_quotas (map snd (set_users s))) (\<lambda>_.
       let c = set_cycle s
       in if every c = 0 \<or> 120 < every c
             \<or> \<not> (- 840 \<le> offset_minutes c \<and> offset_minutes c \<le> 840)
             \<or> \<not> (946684800 \<le> anchor c \<and> anchor c \<le> 4102444800)
          then Inl (BadRequest ''The traffic reset cycle or its start is invalid'')
          else Inr ())))))"

definition cycle_validate :: "reset_cycle \<Rightarrow> unit app_result" where
  "cycle_validate c = settings_validate (default_settings\<lparr>set_cycle := c\<rparr>)"

section \<open>The ledger\<close>

record usage =
  used_upload :: nat
  used_download :: nat

definition ZERO_USAGE :: usage where
  "ZERO_USAGE = \<lparr>used_upload = 0, used_download = 0\<rparr>"

definition amount :: "usage \<Rightarrow> direction \<Rightarrow> nat" where
  "amount u d = (case d of Upload \<Rightarrow> used_upload u | Download \<Rightarrow> used_download u)"

definition usage_add :: "usage \<Rightarrow> direction \<Rightarrow> nat \<Rightarrow> usage" where
  "usage_add u d n =
     (case d of
        Upload \<Rightarrow> u\<lparr>used_upload := saturating_add (used_upload u) n\<rparr>
      | Download \<Rightarrow> u\<lparr>used_download := saturating_add (used_download u) n\<rparr>)"

record ledger =
  version :: nat
  seqno :: nat
  next_reset :: int
  led_cycle :: reset_cycle
  last_time :: int
  led_total :: usage
  led_guest :: usage
  led_users_total :: usage
  led_users :: "(str \<times> usage) list"
  led_days :: "(str \<times> usage) list"

record traffic_record =
  rec_seq :: nat
  rec_time :: int
  rec_subject :: str
  rec_direction :: direction
  rec_bytes :: nat
  rec_cycle :: reset_cycle

definition ledger_new :: "chrono \<Rightarrow> int \<Rightarrow> reset_cycle \<Rightarrow> ledger option" where
  "ledger_new chr now c =
     do {
       next \<leftarrow> cycle_next chr c now;
       Some \<lparr>version = 1, seqno = 0, next_reset = next, led_cycle = c, last_time = now,
             led_total = ZERO_USAGE, led_guest = ZERO_USAGE, led_users_total = ZERO_USAGE,
             led_users = [], led_days = []\<rparr>
     }"

definition reset_usage :: "ledger \<Rightarrow> ledger" where
  "reset_usage l = l\<lparr>led_total := ZERO_USAGE, led_guest := ZERO_USAGE,
                      led_users_total := ZERO_USAGE, led_users := []\<rparr>"

definition advance :: "chrono \<Rightarrow> ledger \<Rightarrow> int \<Rightarrow> reset_cycle \<Rightarrow> ledger option" where
  "advance chr l now c =
     do {
       let now = max now (last_time l);
       l \<leftarrow> (if next_reset l \<le> now
             then do { next \<leftarrow> cycle_next chr c now; Some ((reset_usage l)\<lparr>next_reset := next\<rparr>) }
             else Some l);
       l \<leftarrow> (if led_cycle l \<noteq> c
             then do { next \<leftarrow> cycle_next chr c now; Some (l\<lparr>next_reset := next, led_cycle := c\<rparr>) }
             else Some l);
       Some (l\<lparr>last_time := now\<rparr>)
     }"

text \<open>\<open>map.entry(key).or_default().add(direction, bytes)\<close>.\<close>

definition entry_add :: "str \<Rightarrow> direction \<Rightarrow> nat \<Rightarrow> (str \<times> usage) list \<Rightarrow> (str \<times> usage) list" where
  "entry_add k d n m = al_insert k (usage_add (case al_get m k of Some u \<Rightarrow> u | None \<Rightarrow> ZERO_USAGE) d n) m"

definition charge_subject :: "ledger \<Rightarrow> str \<Rightarrow> direction \<Rightarrow> nat \<Rightarrow> ledger" where
  "charge_subject l subject d n =
     (if subject = ''guest'' then l\<lparr>led_guest := usage_add (led_guest l) d n\<rparr>
      else case strip_prefix ''user:'' subject of
             Some uid \<Rightarrow> l\<lparr>led_users_total := usage_add (led_users_total l) d n,
                          led_users := entry_add uid d n (led_users l)\<rparr>
           | None \<Rightarrow> l)"

definition charge_day :: "chrono \<Rightarrow> ledger \<Rightarrow> int \<Rightarrow> direction \<Rightarrow> nat \<Rightarrow> ledger" where
  "charge_day chr l date d n =
     (let days = entry_add (format_day chr (date_naive date)) d n (led_days l);
          cutoff = format_day chr (date_naive (date - 62 * 86400))
      in l\<lparr>led_days := al_retain (\<lambda>day _. cutoff \<le> day) days\<rparr>)"

definition ledger_apply :: "chrono \<Rightarrow> ledger \<Rightarrow> traffic_record \<Rightarrow> ledger option" where
  "ledger_apply chr l r =
     do {
       l \<leftarrow> advance chr l (rec_time r) (rec_cycle r);
       let l = l\<lparr>led_total := usage_add (led_total l) (rec_direction r) (rec_bytes r)\<rparr>;
       let l = charge_subject l (rec_subject r) (rec_direction r) (rec_bytes r);
       date \<leftarrow> from_timestamp chr (rec_time r + offset_minutes (rec_cycle r) * 60);
       let l = charge_day chr l date (rec_direction r) (rec_bytes r);
       Some (l\<lparr>seqno := rec_seq r\<rparr>)
     }"

section \<open>Journal and snapshot\<close>

definition MAX_TRAFFIC_SNAPSHOT_BYTES :: nat where "MAX_TRAFFIC_SNAPSHOT_BYTES = 4 * 1024 * 1024"
definition MAX_TRAFFIC_JOURNAL_BYTES :: nat where "MAX_TRAFFIC_JOURNAL_BYTES = 16 * 1024 * 1024"
definition MIN_TRAFFIC_RECORD_TIME :: int where "MIN_TRAFFIC_RECORD_TIME = 946684800"
definition MAX_TRAFFIC_RECORD_TIME :: int where "MAX_TRAFFIC_RECORD_TIME = 7258118400"

text \<open>The JSON codecs. Encoding may fail.\<close>

record codec =
  enc_record :: "traffic_record \<Rightarrow> str option"
  dec_record :: "str \<Rightarrow> traffic_record option"
  enc_ledger :: "ledger \<Rightarrow> str option"
  dec_ledger :: "str \<Rightarrow> ledger option"

definition nl :: char where "nl = CHR 0x0A"

definition complete_len :: "str \<Rightarrow> nat" where
  "complete_len bytes = length (dropWhile (\<lambda>b. b \<noteq> nl) (rev bytes))"

text \<open>\<open>split_inclusive\<close> at line feeds: every piece keeps its line feed.\<close>

function split_inclusive :: "str \<Rightarrow> str list" where
  "split_inclusive bytes =
     (if bytes = [] then []
      else if nl \<in> set bytes
      then (takeWhile (\<lambda>b. b \<noteq> nl) bytes @ [nl])
           # split_inclusive (tl (dropWhile (\<lambda>b. b \<noteq> nl) bytes))
      else [bytes])"
  by pat_completeness auto
termination
proof (relation "measure length", goal_cases)
  case (2 bytes)
  have "length (dropWhile (\<lambda>b. b \<noteq> nl) bytes) \<le> length bytes" by (rule length_dropWhile_le)
  moreover have "0 < length bytes" using 2(1) by simp
  ultimately have "length (dropWhile (\<lambda>b. b \<noteq> nl) bytes) - 1 < length bytes" by linarith
  then show ?case by simp
qed simp

declare split_inclusive.simps [simp del]

fun replay_lines ::
  "chrono \<Rightarrow> codec \<Rightarrow> ledger \<Rightarrow> nat \<Rightarrow> nat \<Rightarrow> str list \<Rightarrow> (str + ledger \<times> nat) option" where
  "replay_lines chr cd l index applied [] = Some (Inr (l, applied))"
| "replay_lines chr cd l index applied (line # lines) =
     (case dec_record cd line of
        None \<Rightarrow> Some (Inl (''Traffic journal: damaged record '' @ show_nat (index + 1)))
      | Some r \<Rightarrow>
          if rec_seq r \<le> seqno l then replay_lines chr cd l (index + 1) applied lines
          else if rec_seq r \<noteq> seqno l + 1
          then Some (Inl (''Traffic journal: sequence gap at record '' @ show_nat (index + 1)))
          else if \<not> is_ok (cycle_validate (rec_cycle r))
          then Some (Inl (''Traffic journal: invalid cycle at record '' @ show_nat (index + 1)))
          else if \<not> (MIN_TRAFFIC_RECORD_TIME \<le> rec_time r \<and> rec_time r \<le> MAX_TRAFFIC_RECORD_TIME)
          then Some (Inl (''Traffic journal: invalid time at record '' @ show_nat (index + 1)))
          else do {
            l \<leftarrow> ledger_apply chr l r;
            replay_lines chr cd l (index + 1) (applied + 1) lines
          })"

record journal_replay =
  jr_complete_len :: nat
  jr_applied :: nat

definition replay_complete_records ::
  "chrono \<Rightarrow> codec \<Rightarrow> ledger \<Rightarrow> str \<Rightarrow> (str + ledger \<times> journal_replay) option" where
  "replay_complete_records chr cd l bytes =
     do {
       let n = complete_len bytes;
       out \<leftarrow> replay_lines chr cd l 0 0 (split_inclusive (take n bytes));
       Some (rbind out (\<lambda>(l, applied). Inr (l, \<lparr>jr_complete_len = n, jr_applied = applied\<rparr>)))
     }"

definition read_bounded :: "str \<Rightarrow> nat \<Rightarrow> str + str" where
  "read_bounded bytes limit =
     (if length bytes \<le> limit then Inr bytes else Inl ''Traffic record is too large'')"

text \<open>
  The two files beside the configuration. \<open>None\<close> is a missing file.
\<close>

record disk =
  disk_snapshot :: "str option"
  disk_journal :: "str option"

definition read_snapshot :: "codec \<Rightarrow> str \<Rightarrow> str + ledger" where
  "read_snapshot cd bytes =
     rbind (read_bounded bytes MAX_TRAFFIC_SNAPSHOT_BYTES) (\<lambda>bytes.
     rbind (ok_or (dec_ledger cd bytes) ''Traffic snapshot is damaged'') (\<lambda>l.
     rbind (ensure (version l = 1) ''Unknown traffic ledger version'') (\<lambda>_.
     rbind (ensure (is_ok (cycle_validate (led_cycle l))) ''Traffic snapshot has an invalid cycle'') (\<lambda>_.
       Inr l))))"

definition diagnose_ledger :: "chrono \<Rightarrow> codec \<Rightarrow> disk \<Rightarrow> (str + nat \<times> nat \<times> nat) option" where
  "diagnose_ledger chr cd d =
     (case disk_snapshot d of
        None \<Rightarrow> Some (if disk_journal d = None then Inr (0, 0, 0)
                       else Inl ''Traffic snapshot is missing but the journal exists'')
      | Some bytes \<Rightarrow>
          (case read_snapshot cd bytes of
             Inl e \<Rightarrow> Some (Inl e)
           | Inr l \<Rightarrow>
               (case read_bounded (case disk_journal d of Some j \<Rightarrow> j | None \<Rightarrow> []) MAX_TRAFFIC_JOURNAL_BYTES of
                  Inl e \<Rightarrow> Some (Inl e)
                | Inr journal \<Rightarrow>
                    do {
                      out \<leftarrow> replay_complete_records chr cd l journal;
                      Some (rbind out (\<lambda>(l, replay).
                        Inr (seqno l, jr_applied replay, length journal - jr_complete_len replay)))
                    })))"

record runtime =
  rt_ledger :: ledger
  rt_records :: nat
  rt_failed :: bool

text \<open>
  How far the start-up gets with its own writes: it may fail to drop a torn tail, to publish the
  new snapshot or to empty the journal. The flag says whether the visible file changed before the
  failure, for instance because only the final synchronisation failed.
\<close>

datatype load_io = LoadWrites | TailFailed bool | LoadPublishFailed bool | EmptyFailed bool

definition active_users :: "str list \<Rightarrow> traffic_settings \<Rightarrow> str list" where
  "active_users accounts s = accounts @ al_keys (set_users s)"

definition retain_users :: "str list \<Rightarrow> ledger \<Rightarrow> ledger" where
  "retain_users active l = l\<lparr>led_users := al_retain (\<lambda>uid _. uid \<in> set active) (led_users l)\<rparr>"

definition load_writes ::
  "codec \<Rightarrow> load_io \<Rightarrow> disk \<Rightarrow> str \<Rightarrow> nat \<Rightarrow> ledger \<Rightarrow> (str + runtime) \<times> disk" where
  "load_writes cd io d bytes n l =
     (let d' = d\<lparr>disk_journal := Some (take n bytes)\<rparr>
      in if n \<noteq> length bytes \<and> (io = TailFailed True \<or> io = TailFailed False)
         then (Inl ''Journal tail could not be dropped'', if io = TailFailed True then d' else d)
         else case enc_ledger cd l of
                None \<Rightarrow> (Inl ''Ledger could not be encoded'', d')
              | Some snapshot \<Rightarrow>
                  (let done = d'\<lparr>disk_snapshot := Some snapshot, disk_journal := Some []\<rparr>
                   in case io of
                     LoadPublishFailed replaced \<Rightarrow>
                       (Inl ''Snapshot could not be published'',
                        if replaced then d'\<lparr>disk_snapshot := Some snapshot\<rparr> else d')
                   | EmptyFailed emptied \<Rightarrow>
                       (Inl ''Journal could not be emptied'',
                        if emptied then done else d'\<lparr>disk_snapshot := Some snapshot\<rparr>)
                   | _ \<Rightarrow> (Inr \<lparr>rt_ledger = l, rt_records = 0, rt_failed = False\<rparr>, done)))"

definition load_traffic ::
  "chrono \<Rightarrow> codec \<Rightarrow> load_io \<Rightarrow> int \<Rightarrow> str list \<Rightarrow> traffic_settings \<Rightarrow> disk
    \<Rightarrow> ((str + runtime) \<times> disk) option" where
  "load_traffic chr cd io now accounts s d =
     do {
       start \<leftarrow> (case disk_snapshot d of
                    Some bytes \<Rightarrow> Some (read_snapshot cd bytes)
                  | None \<Rightarrow>
                      if disk_journal d \<noteq> None
                      then Some (Inl ''Missing traffic snapshot; preserve journal for recovery'')
                      else do { l \<leftarrow> ledger_new chr now (set_cycle s); Some (Inr l) });
       case start of
         Inl e \<Rightarrow> Some (Inl e, d)
       | Inr l \<Rightarrow>
           (let bytes = (case disk_journal d of Some j \<Rightarrow> j | None \<Rightarrow> []);
                d = d\<lparr>disk_journal := Some bytes\<rparr>
            in case read_bounded bytes MAX_TRAFFIC_JOURNAL_BYTES of
                 Inl e \<Rightarrow> Some (Inl e, d)
               | Inr bytes \<Rightarrow>
                   do {
                     out \<leftarrow> replay_complete_records chr cd l bytes;
                     case out of
                       Inl e \<Rightarrow> Some (Inl e, d)
                     | Inr (l, replay) \<Rightarrow>
                         Some (load_writes cd io d bytes (jr_complete_len replay)
                                 (retain_users (active_users accounts s) l))
                   })
     }"


section \<open>Checking and charging\<close>

definition failure_error :: "str \<Rightarrow> app_error" where
  "failure_error source =
     with_source ''The traffic ledger is unavailable and the transfer was stopped; keep the files, back them up and run ycloud doctor traffic'' source"

definition exhausted :: "direction \<Rightarrow> app_error" where
  "exhausted d = TrafficExhausted (case d of
     Upload \<Rightarrow> ''Upload traffic is used up or not enough; wait for the reset or contact the administrator''
   | Download \<Rightarrow> ''Download traffic is used up or not enough; wait for the reset or contact the administrator'')"

definition quotas_of :: "ledger \<Rightarrow> traffic_settings \<Rightarrow> str \<Rightarrow> (quota \<times> usage) list" where
  "quotas_of l s subject =
     (set_total s, led_total l) #
     (if subject = ''guest'' then [(set_guest s, led_guest l)]
      else case strip_prefix ''user:'' subject of
             None \<Rightarrow> []
           | Some uid \<Rightarrow>
               (set_users_total s, led_users_total l) #
               (case al_get (set_users s) uid of
                  None \<Rightarrow> []
                | Some q \<Rightarrow> [(q, case al_get (led_users l) uid of Some u \<Rightarrow> u | None \<Rightarrow> ZERO_USAGE)]))"

fun check_quotas :: "direction \<Rightarrow> nat \<Rightarrow> (quota \<times> usage) list \<Rightarrow> unit app_result" where
  "check_quotas d n [] = Inr ()"
| "check_quotas d n ((q, u) # rest) =
     (let limit = quota_limit q d
      in if 0 < limit \<and> limit - amount u d < n then Inl (exhausted d) else check_quotas d n rest)"

definition check_traffic ::
  "ledger \<Rightarrow> traffic_settings \<Rightarrow> str \<Rightarrow> direction \<Rightarrow> nat \<Rightarrow> unit app_result" where
  "check_traffic l s subject d n =
     (if subject = ''admin'' then Inr () else check_quotas d n (quotas_of l s subject))"

definition unavailable :: app_error where
  "unavailable = ServiceUnavailable ''Traffic accounting is temporarily unavailable''"

definition preflight ::
  "chrono \<Rightarrow> int \<Rightarrow> traffic_settings \<Rightarrow> runtime \<Rightarrow> str \<Rightarrow> direction \<Rightarrow> nat \<Rightarrow> unit app_result option" where
  "preflight chr now s rt subject d n =
     (if rt_failed rt then Some (Inl unavailable)
      else do {
        l \<leftarrow> advance chr (rt_ledger rt) now (set_cycle s);
        Some (check_traffic l s subject d n)
      })"

section \<open>The group commit\<close>

definition MAX_COMMIT_RECORDS :: nat where "MAX_COMMIT_RECORDS = 64"
definition COMPACTION_RECORDS :: nat where "COMPACTION_RECORDS = 4096"

record charge_request =
  req_subject :: str
  req_direction :: direction
  req_bytes :: nat

text \<open>The requests of one group from those that are waiting, and the rest.\<close>

definition take_group :: "'a list \<Rightarrow> 'a list \<times> 'a list" where
  "take_group waiting = (take MAX_COMMIT_RECORDS waiting, drop MAX_COMMIT_RECORDS waiting)"

definition record_of :: "ledger \<Rightarrow> reset_cycle \<Rightarrow> charge_request \<Rightarrow> traffic_record" where
  "record_of l c q =
     \<lparr>rec_seq = seqno l + 1, rec_time = last_time l, rec_subject = req_subject q,
      rec_direction = req_direction q, rec_bytes = req_bytes q, rec_cycle = c\<rparr>"

text \<open>
  The loop over the requests of a group, each with the clock reading of its turn: the ledger
  afterwards, the bytes to append, the number of accepted charges and the answer to each request,
  sent at once or after the write.
\<close>

datatype reply = Sent "unit app_result" | Pending "unit app_result"

fun settle ::
  "chrono \<Rightarrow> codec \<Rightarrow> traffic_settings \<Rightarrow> ledger \<Rightarrow> (int \<times> charge_request) list
    \<Rightarrow> (ledger \<times> str \<times> nat \<times> reply list) option" where
  "settle chr cd s l [] = Some (l, [], 0, [])"
| "settle chr cd s l ((now, q) # qs) =
     do {
       l \<leftarrow> advance chr l now (set_cycle s);
       let r = record_of l (set_cycle s) q;
       case check_traffic l s (req_subject q) (req_direction q) (req_bytes q) of
         Inl e \<Rightarrow>
           do { (l', out, n, rs) \<leftarrow> settle chr cd s l qs; Some (l', out, n, Pending (Inl e) # rs) }
       | Inr _ \<Rightarrow>
           (case enc_record cd r of
              None \<Rightarrow>
                do { (l', out, n, rs) \<leftarrow> settle chr cd s l qs;
                     Some (l', out, n, Sent (Inl (failure_error ''record could not be encoded'')) # rs) }
            | Some bytes \<Rightarrow>
                do { l1 \<leftarrow> ledger_apply chr l r;
                     (l', out, n, rs) \<leftarrow> settle chr cd s l1 qs;
                     Some (l', bytes @ [nl] @ out, n + 1, Pending (Inr ()) # rs) })
     }"

text \<open>
  What happens to the writes of a commit. A failed append may have written a part of the bytes; a
  failed publication or truncation may or may not have changed the visible file. A crash during
  the commit leaves one of the same states behind.
\<close>

datatype commit_io =
    CommitWrites
  | SeekFailed
  | WriteFailed nat
  | SyncFailed
  | PublishFailed bool
  | TruncateFailed bool

definition journal_of :: "disk \<Rightarrow> str" where
  "journal_of d = (case disk_journal d of Some j \<Rightarrow> j | None \<Rightarrow> [])"

definition write_group ::
  "commit_io \<Rightarrow> disk \<Rightarrow> str \<Rightarrow> str app_result option \<Rightarrow> disk \<times> unit app_result" where
  "write_group io d encoded compacted =
     (let appended = d\<lparr>disk_journal := Some (journal_of d @ encoded)\<rparr>
      in case io of
           SeekFailed \<Rightarrow> (d, Inl (failure_error ''seek''))
         | WriteFailed n \<Rightarrow> (d\<lparr>disk_journal := Some (journal_of d @ take n encoded)\<rparr>, Inl (failure_error ''write''))
         | SyncFailed \<Rightarrow> (appended, Inl (failure_error ''sync''))
         | _ \<Rightarrow>
             (case compacted of
                None \<Rightarrow> (appended, Inr ())
              | Some (Inl e) \<Rightarrow> (appended, Inl (failure_error ''encode''))
              | Some (Inr bytes) \<Rightarrow>
                  (let published = appended\<lparr>disk_snapshot := Some bytes\<rparr>;
                       emptied = published\<lparr>disk_journal := Some []\<rparr>
                   in case io of
                        PublishFailed replaced \<Rightarrow>
                          (if replaced then published else appended, Inl (failure_error ''publish''))
                      | TruncateFailed done \<Rightarrow>
                          (if done then emptied else published, Inl (failure_error ''truncate''))
                      | _ \<Rightarrow> (emptied, Inr ()))))"

record writer =
  wr_runtime :: runtime
  wr_disk :: disk
  wr_open :: bool

fun final_reply :: "unit app_result \<Rightarrow> reply \<Rightarrow> unit app_result" where
  "final_reply written (Sent r) = r"
| "final_reply written (Pending r) =
     (case (written, r) of
        (Inl _, Inr _) \<Rightarrow> Inl (failure_error ''write failed'')
      | _ \<Rightarrow> r)"

fun lost_reply :: "reply \<Rightarrow> unit app_result" where
  "lost_reply (Sent r) = r"
| "lost_reply (Pending r) = Inl (failure_error ''worker lost'')"

text \<open>
  One round of the writer's loop. \<open>lost\<close> says that the blocking task did not come back: the
  writer then stops for good.
\<close>

definition commit_group ::
  "chrono \<Rightarrow> codec \<Rightarrow> str list \<Rightarrow> traffic_settings \<Rightarrow> commit_io \<Rightarrow> bool \<Rightarrow> writer
    \<Rightarrow> (int \<times> charge_request) list \<Rightarrow> (writer \<times> unit app_result list) option" where
  "commit_group chr cd accounts s io lost w requests =
     (let state = wr_runtime w
      in if rt_failed state then Some (w, map (\<lambda>_. Inl unavailable) requests)
         else do {
           (l, encoded, accepted, replies) \<leftarrow> settle chr cd s (rt_ledger state) requests;
           let compact = COMPACTION_RECORDS \<le> rt_records state + accepted;
           let l = (if compact then retain_users (active_users accounts s) l else l);
           let compacted = (if compact then Some (ok_or (enc_ledger cd l) (failure_error ''encode'')) else None);
           if accepted = 0 then Some (w, map (final_reply (Inr ())) replies)
           else do {
             let (d, written) = write_group io (wr_disk w) encoded compacted;
             if lost then
               Some (w\<lparr>wr_runtime := state\<lparr>rt_failed := True\<rparr>, wr_disk := d, wr_open := False\<rparr>,
                     map lost_reply replies)
             else if is_ok written then
               Some (w\<lparr>wr_runtime := state\<lparr>rt_ledger := l,
                                          rt_records := (if compact then 0 else rt_records state + accepted)\<rparr>,
                       wr_disk := d\<rparr>,
                     map (final_reply written) replies)
             else
               Some (w\<lparr>wr_runtime := state\<lparr>rt_failed := True\<rparr>, wr_disk := d\<rparr>,
                     map (final_reply written) replies)
           }
         })"


text \<open>
  How a charge enters: an empty one is granted at once, a stopped writer refuses, and otherwise
  the request is queued (\<open>None\<close>) and answered by the commit of its group.
\<close>

definition charge_admission :: "writer \<Rightarrow> charge_request \<Rightarrow> unit app_result option" where
  "charge_admission w q =
     (if req_bytes q = 0 then Some (Inr ())
      else if \<not> wr_open w then Some (Inl (failure_error ''traffic writer stopped''))
      else None)"

section \<open>Metered bodies\<close>

definition BATCH_TARGET_BYTES :: nat where "BATCH_TARGET_BYTES = 256 * 1024"
definition BATCH_FRAMES :: nat where "BATCH_FRAMES = 64"

text \<open>
  A body is the list of its frames; the flag of a frame says whether it is there already when it
  is polled without waiting. An exhausted list is the end of the body.
\<close>

datatype frame = Chunk str | Fault str

record ready_batch =
  rb_input :: "(bool \<times> frame) list"
  rb_pending :: "str option"
  rb_ready :: "str list"

definition ready_batch_new :: "(bool \<times> frame) list \<Rightarrow> ready_batch" where
  "ready_batch_new body = \<lparr>rb_input = body, rb_pending = None, rb_ready = []\<rparr>"

definition batch_pop :: "ready_batch \<Rightarrow> str option \<times> ready_batch" where
  "batch_pop b = (case rb_ready b of [] \<Rightarrow> (None, b) | c # cs \<Rightarrow> (Some c, b\<lparr>rb_ready := cs\<rparr>))"

fun first_chunk :: "(bool \<times> frame) list \<Rightarrow> (str + str option) \<times> (bool \<times> frame) list" where
  "first_chunk [] = (Inr None, [])"
| "first_chunk ((_, Fault e) # rest) = (Inl e, rest)"
| "first_chunk ((_, Chunk c) # rest) = (if c = [] then first_chunk rest else (Inr (Some c), rest))"

fun batch_loop ::
  "nat \<Rightarrow> str \<Rightarrow> nat \<Rightarrow> ready_batch \<Rightarrow> nat \<times> ready_batch" where
  "batch_loop 0 chunk n b = (n, b)"
| "batch_loop (Suc frames) chunk n b =
     (let n' = (if chunk = [] then n else n + length chunk);
          b' = (if chunk = [] then b else b\<lparr>rb_ready := rb_ready b @ [chunk]\<rparr>)
      in if BATCH_TARGET_BYTES \<le> n' \<or> frames = 0 then (n', b')
         else case rb_input b' of
                (True, Chunk next) # rest \<Rightarrow> batch_loop frames next n' (b'\<lparr>rb_input := rest\<rparr>)
              | (True, Fault e) # rest \<Rightarrow> (n', b'\<lparr>rb_input := rest, rb_pending := Some e\<rparr>)
              | _ \<Rightarrow> (n', b'))"

definition collect_batch :: "ready_batch \<Rightarrow> (str + nat) \<times> ready_batch" where
  "collect_batch b =
     (case rb_pending b of
        Some e \<Rightarrow> (Inl e, b\<lparr>rb_pending := None\<rparr>)
      | None \<Rightarrow>
          (case first_chunk (rb_input b) of
             (Inl e, rest) \<Rightarrow> (Inl e, b\<lparr>rb_input := rest\<rparr>)
           | (Inr None, rest) \<Rightarrow> (Inr 0, b\<lparr>rb_input := rest\<rparr>)
           | (Inr (Some c), rest) \<Rightarrow>
               (let (n, b) = batch_loop BATCH_FRAMES c 0 (b\<lparr>rb_input := rest\<rparr>)
                in (Inr n, b))))"

text \<open>
  One step of the metered stream. The answer to a charge comes from the writer; the last
  component is the number of bytes charged by the step. A stream that has ended or failed is not
  polled again.
\<close>

datatype meter_out = Emit str | End | Stop str

definition meter_step ::
  "(nat \<Rightarrow> unit app_result) \<Rightarrow> ready_batch \<Rightarrow> (meter_out \<times> app_error option \<times> nat) \<times> ready_batch" where
  "meter_step charge b =
     (case batch_pop b of
        (Some c, b) \<Rightarrow> ((Emit c, None, 0), b)
      | (None, b) \<Rightarrow>
          (case collect_batch b of
             (Inl e, b) \<Rightarrow> ((Stop e, None, 0), b)
           | (Inr n, b) \<Rightarrow>
               if n = 0 then ((End, None, 0), b)
               else case charge n of
                      Inl e \<Rightarrow> ((Stop ''Traffic accounting stopped this transfer'', Some e, 0), b)
                    | Inr _ \<Rightarrow>
                        (case batch_pop b of
                           (Some c, b) \<Rightarrow> ((Emit c, None, n), b)
                         | (None, b) \<Rightarrow> ((End, None, n), b))))"

text \<open>\<open>StreamStatus::finish\<close>: the quota error replaces the backend's, with its outcome.\<close>

definition stream_finish :: "app_error option \<Rightarrow> 'a app_result \<Rightarrow> 'a app_result" where
  "stream_finish failure result =
     (case result of
        Inr a \<Rightarrow> Inr a
      | Inl backend \<Rightarrow>
          (case failure of
             None \<Rightarrow> Inl backend
           | Some e \<Rightarrow>
               (case operation backend of
                  Some out \<Rightarrow> Inl (with_operation e (oo_commit out) (oo_cleanup out))
                | None \<Rightarrow> Inl e)))"

section \<open>Views\<close>

record traffic_query =
  tq_start :: "str option"
  tq_end :: "str option"
  tq_days :: "nat option"

definition parse_date :: "chrono \<Rightarrow> str option \<Rightarrow> int \<Rightarrow> int app_result" where
  "parse_date chr txt fallback =
     (case txt of
        None \<Rightarrow> Inr fallback
      | Some t \<Rightarrow> ok_or (parse_day chr t) (BadRequest ''Invalid date format''))"

definition date_range :: "chrono \<Rightarrow> traffic_query \<Rightarrow> int \<Rightarrow> (int \<times> int) app_result" where
  "date_range chr q today =
     (case tq_days q of
        Some days \<Rightarrow>
          if \<not> (1 \<le> days \<and> days \<le> 31) \<or> tq_start q \<noteq> None \<or> tq_end q \<noteq> None
          then Inl (BadRequest ''Choose 1 to 31 days, or a date range'')
          else Inr (today - (int days - 1), today)
      | None \<Rightarrow>
          rbind (parse_date chr (tq_start q) (first_of_month chr today)) (\<lambda>start.
          rbind (parse_date chr (tq_end q) today) (\<lambda>stop.
            if stop < start \<or> today < stop \<or> 30 < stop - start \<or> 62 < today - start
            then Inl (BadRequest ''Choose a date range of at most 31 days within the retention'')
            else Inr (start, stop))))"

function day_rows :: "chrono \<Rightarrow> ledger \<Rightarrow> int \<Rightarrow> int \<Rightarrow> (str \<times> usage) list \<Rightarrow> (str \<times> usage) list" where
  "day_rows chr l day stop rows =
     (if day \<le> stop
      then let key = format_day chr day
           in day_rows chr l (day + 1) stop
                (al_insert key (case al_get (led_days l) key of Some u \<Rightarrow> u | None \<Rightarrow> ZERO_USAGE) rows)
      else rows)"
  by pat_completeness auto
termination
  by (relation "measure (\<lambda>(_, _, day, stop, _). nat (stop + 1 - day))") auto

declare day_rows.simps [simp del]

record user_traffic_view =
  utv_usage :: usage
  utv_quota :: quota
  utv_next_reset :: int

text \<open>\<open>user_info\<close> for the principal of the request: \<open>Some id\<close> is an ordinary account.\<close>

definition user_info ::
  "chrono \<Rightarrow> int \<Rightarrow> traffic_settings \<Rightarrow> runtime \<Rightarrow> str option \<Rightarrow> user_traffic_view app_result option" where
  "user_info chr now s rt account =
     (case account of
        None \<Rightarrow> Some (Inl Forbidden)
      | Some uid \<Rightarrow>
          if rt_failed rt then Some (Inl unavailable)
          else do {
            l \<leftarrow> advance chr (rt_ledger rt) now (set_cycle s);
            Some (Inr \<lparr>utv_usage = (case al_get (led_users l) uid of Some u \<Rightarrow> u | None \<Rightarrow> ZERO_USAGE),
                       utv_quota = (case al_get (set_users s) uid of Some q \<Rightarrow> q | None \<Rightarrow> default_quota),
                       utv_next_reset = next_reset l\<rparr>)
          })"

record traffic_view =
  tv_settings :: traffic_settings
  tv_total :: usage
  tv_guest :: usage
  tv_users_total :: usage
  tv_users :: "(str \<times> usage) list"
  tv_next_reset :: int
  tv_today :: str
  tv_days :: "(str \<times> usage) list"

definition traffic_info ::
  "chrono \<Rightarrow> int \<Rightarrow> traffic_settings \<Rightarrow> runtime \<Rightarrow> traffic_query \<Rightarrow> traffic_view app_result option" where
  "traffic_info chr now s rt q =
     do {
       l \<leftarrow> advance chr (rt_ledger rt) now (set_cycle s);
       date \<leftarrow> from_timestamp chr (now + offset_minutes (set_cycle s) * 60);
       let today = date_naive date;
       Some (rbind (date_range chr q today) (\<lambda>(start, stop).
         Inr \<lparr>tv_settings = s, tv_total = led_total l, tv_guest = led_guest l,
              tv_users_total = led_users_total l, tv_users = led_users l,
              tv_next_reset = next_reset l, tv_today = format_day chr today,
              tv_days = day_rows chr l start stop []\<rparr>))
     }"

record update_settings =
  up_total :: "quota option"
  up_guest :: "quota option"
  up_users_total :: "quota option"
  up_cycle :: "reset_cycle option"

definition update_traffic :: "update_settings \<Rightarrow> traffic_settings \<Rightarrow> traffic_settings" where
  "update_traffic u s =
     (let s = (case up_total u of Some q \<Rightarrow> s\<lparr>set_total := q\<rparr> | None \<Rightarrow> s);
          s = (case up_guest u of Some q \<Rightarrow> s\<lparr>set_guest := q\<rparr> | None \<Rightarrow> s);
          s = (case up_users_total u of Some q \<Rightarrow> s\<lparr>set_users_total := q\<rparr> | None \<Rightarrow> s)
      in case up_cycle u of Some c \<Rightarrow> s\<lparr>set_cycle := c\<rparr> | None \<Rightarrow> s)"


end
