(* ===== verification/TrafficRecovery.thy ===== *)
theory TrafficRecovery
  imports Traffic "HOL-Library.Sublist"
begin

text \<open>
  What traffic accounting promises: reset boundaries are found, time only moves forward, quotas
  are respected, no byte leaves a metered body before it is charged, and the journal and snapshot
  on disk always replay to the ledger in memory, whatever write of a commit is interrupted.
\<close>

section \<open>The calendar and reset boundaries\<close>

definition month_index :: "chrono \<Rightarrow> int \<Rightarrow> int" where
  "month_index chr t = year chr t * 12 + month chr t"

text \<open>
  The documented behaviour of chrono that the code relies on: dates of about a quarter of a
  million years either way are representable; months advance with time, at least twelve of them
  in 366 days; adding \<open>n\<close> months gives a date \<open>n\<close> months later when that month is
  representable, and adding none changes nothing.
\<close>

definition chrono_ok :: "chrono \<Rightarrow> bool" where
  "chrono_ok chr \<longleftrightarrow>
     (\<forall>t. \<bar>t\<bar> \<le> 8000000000000 \<longrightarrow> in_range chr t) \<and>
     (\<forall>t u. t \<le> u \<and> in_range chr t \<and> in_range chr u \<longrightarrow> month_index chr t \<le> month_index chr u) \<and>
     (\<forall>t. in_range chr t \<and> in_range chr (t + 366 * 86400) \<longrightarrow>
        month_index chr t + 12 \<le> month_index chr (t + 366 * 86400)) \<and>
     (\<forall>t n u. in_range chr t \<and> in_range chr u \<and> month_index chr t + int n < month_index chr u \<longrightarrow>
        (\<exists>t'. checked_add_months chr t n = Some t' \<and> in_range chr t'
              \<and> month_index chr t' = month_index chr t + int n)) \<and>
     (\<forall>t. in_range chr t \<longrightarrow> checked_add_months chr t 0 = Some t)"

definition valid_cycle :: "reset_cycle \<Rightarrow> bool" where
  "valid_cycle c \<longleftrightarrow>
     0 < every c \<and> every c \<le> 120 \<and> - 840 \<le> offset_minutes c \<and> offset_minutes c \<le> 840
     \<and> 946684800 \<le> anchor c \<and> anchor c \<le> 4102444800"

definition valid_time :: "int \<Rightarrow> bool" where
  "valid_time t \<longleftrightarrow> \<bar>t\<bar> \<le> 7000000000000"

lemma cycle_validate_iff: "is_ok (cycle_validate c) \<longleftrightarrow> valid_cycle c"
  by (auto simp: cycle_validate_def settings_validate_def default_settings_def default_quota_def
      quota_validate_def valid_cycle_def Let_def ensure_def split: if_splits)

lemma settings_validate_cycle: "is_ok (settings_validate s) \<Longrightarrow> valid_cycle (set_cycle s)"
  by (auto simp: settings_validate_def valid_cycle_def Let_def is_ok_iff rbind_Inr_iff split: if_splits)

lemma month_index_mono:
  "chrono_ok chr \<Longrightarrow> t \<le> u \<Longrightarrow> in_range chr t \<Longrightarrow> in_range chr u \<Longrightarrow> month_index chr t \<le> month_index chr u"
  unfolding chrono_ok_def by blast

lemma chrono_in_range: "chrono_ok chr \<Longrightarrow> \<bar>t\<bar> \<le> 8000000000000 \<Longrightarrow> in_range chr t"
  unfolding chrono_ok_def by blast

lemma chrono_year:
  "chrono_ok chr \<Longrightarrow> \<bar>t\<bar> \<le> 7900000000000 \<Longrightarrow>
   month_index chr t + 12 \<le> month_index chr (t + 366 * 86400)"
  using chrono_in_range [of chr t] chrono_in_range [of chr "t + 366 * 86400"]
  unfolding chrono_ok_def by auto

lemma chrono_years:
  "chrono_ok chr \<Longrightarrow> \<bar>t\<bar> \<le> 7500000000000 \<Longrightarrow> n \<le> 11 \<Longrightarrow>
   month_index chr t + 12 * int n \<le> month_index chr (t + int n * (366 * 86400))"
proof (induction n)
  case (Suc n)
  have "month_index chr (t + int n * (366 * 86400)) + 12
      \<le> month_index chr (t + int n * (366 * 86400) + 366 * 86400)"
    using Suc.prems by (intro chrono_year) auto
  moreover have "t + int n * (366 * 86400) + 366 * 86400 = t + int (Suc n) * (366 * 86400)"
    by (simp add: algebra_simps)
  ultimately show ?case using Suc by (simp only:) simp
qed simp

lemma checked_add_months_Some:
  assumes "chrono_ok chr" "in_range chr t" "\<bar>u\<bar> \<le> 7500000000000"
    "month_index chr t + int n \<le> month_index chr u + 120"
  shows "\<exists>t'. checked_add_months chr t n = Some t' \<and> in_range chr t'
              \<and> month_index chr t' = month_index chr t + int n"
proof -
  have "month_index chr t + int n < month_index chr (u + 11 * (366 * 86400))"
    using chrono_years [OF assms(1,3), of 11] assms(4) by simp
  moreover have "in_range chr (u + 11 * (366 * 86400))"
    using assms(3) by (intro chrono_in_range [OF assms(1)]) auto
  ultimately show ?thesis using assms(1,2) unfolding chrono_ok_def by blast
qed

text \<open>The boundaries of a cycle and the first one after a point in time.\<close>

definition boundary :: "chrono \<Rightarrow> reset_cycle \<Rightarrow> nat \<Rightarrow> int option" where
  "boundary chr c k =
     (case cycle_unit c of
        Hours \<Rightarrow> Some (anchor c + int k * (int (every c) * 3600))
      | Days \<Rightarrow> Some (anchor c + int k * (int (every c) * 86400))
      | Months \<Rightarrow> map_option (\<lambda>t. t - offset_minutes c * 60)
                    (checked_add_months chr (anchor c + offset_minutes c * 60) (k * every c)))"

definition is_next :: "chrono \<Rightarrow> reset_cycle \<Rightarrow> int \<Rightarrow> nat \<Rightarrow> int \<Rightarrow> bool" where
  "is_next chr c now k b \<longleftrightarrow>
     boundary chr c k = Some b \<and> now < b \<and> (\<forall>j < k. \<forall>b'. boundary chr c j = Some b' \<longrightarrow> b' \<le> now)"

lemma is_next_unique:
  "is_next chr c t k b \<Longrightarrow> is_next chr c u j b' \<Longrightarrow> t \<le> u \<Longrightarrow> u < b \<Longrightarrow> b' = b"
  unfolding is_next_def by (cases k j rule: linorder_cases) force+

lemma month_loop_first:
  assumes "\<And>j. count \<le> j \<Longrightarrow> j \<le> count + n \<Longrightarrow> checked_add_months chr start (j * step) = Some (f j)"
    and "now < f (count + n) - offset"
  shows "\<exists>k. count \<le> k \<and> k \<le> count + n \<and> month_loop chr start offset step now count = Some (f k - offset)
           \<and> now < f k - offset \<and> (\<forall>j. count \<le> j \<and> j < k \<longrightarrow> f j - offset \<le> now)"
  using assms
proof (induction n arbitrary: count)
  case 0
  then have "checked_add_months chr start (count * step) = Some (f count)" by simp
  then have "month_loop chr start offset step now count = Some (f count - offset)"
    using 0(2) by (subst month_loop.simps) simp
  then show ?case using 0(2) by (intro exI [of _ count]) simp
next
  case (Suc n)
  have first: "checked_add_months chr start (count * step) = Some (f count)" using Suc.prems(1) by simp
  show ?case
  proof (cases "now < f count - offset")
    case True
    then have "month_loop chr start offset step now count = Some (f count - offset)"
      using first by (subst month_loop.simps) simp
    then show ?thesis using True by (intro exI [of _ count]) simp
  next
    case False
    then have eq: "month_loop chr start offset step now count
        = month_loop chr start offset step now (count + 1)"
      using first by (subst month_loop.simps) simp
    have "\<exists>k. count + 1 \<le> k \<and> k \<le> count + 1 + n
        \<and> month_loop chr start offset step now (count + 1) = Some (f k - offset)
        \<and> now < f k - offset \<and> (\<forall>j. count + 1 \<le> j \<and> j < k \<longrightarrow> f j - offset \<le> now)"
      using Suc.prems by (intro Suc.IH) auto
    then obtain k where k: "count + 1 \<le> k" "k \<le> count + 1 + n"
        "month_loop chr start offset step now (count + 1) = Some (f k - offset)"
        "now < f k - offset" "\<forall>j. count + 1 \<le> j \<and> j < k \<longrightarrow> f j - offset \<le> now"
      by blast
    have "f j - offset \<le> now" if "count \<le> j" "j < k" for j
      using k(5) that False by (cases "j = count") auto
    then show ?thesis using k eq by (intro exI [of _ k]) auto
  qed
qed

lemma interval_next:
  fixes step :: int
  assumes "0 < step" "a \<le> now"
  shows "now < a + ((now - a) div step + 1) * step"
    and "int j < (now - a) div step + 1 \<Longrightarrow> a + int j * step \<le> now"
proof -
  have split: "now - a = (now - a) div step * step + (now - a) mod step" by simp
  have m: "0 \<le> (now - a) mod step" "(now - a) mod step < step" using assms(1) by simp_all
  show "now < a + ((now - a) div step + 1) * step"
    using split m unfolding distrib_right by linarith
  assume "int j < (now - a) div step + 1"
  then have "int j * step \<le> (now - a) div step * step"
    using assms(1) by (intro mult_right_mono) auto
  then show "a + int j * step \<le> now" using split m by linarith
qed

lemma cycle_next_interval:
  assumes "valid_cycle c" "cycle_unit c \<noteq> Months" "anchor c \<le> now"
  shows "\<exists>k b. cycle_next chr c now = Some b \<and> is_next chr c now k b"
proof -
  let ?step = "int (every c) * (if cycle_unit c = Hours then 3600 else 86400)"
  let ?k = "nat ((now - anchor c) div ?step + 1)"
  have step: "0 < ?step" using assms(1) by (auto simp: valid_cycle_def)
  have nonneg: "0 \<le> (now - anchor c) div ?step" using step assms(3) by (simp add: pos_imp_zdiv_nonneg_iff)
  have b: "boundary chr c j = Some (anchor c + int j * ?step)" for j
    using assms(2) by (cases "cycle_unit c") (auto simp: boundary_def)
  have "cycle_next chr c now = Some (anchor c + int ?k * ?step)"
    using assms(2,3) nonneg by (cases "cycle_unit c") (simp_all add: cycle_next_def Let_def)
  moreover have "is_next chr c now ?k (anchor c + int ?k * ?step)"
    unfolding is_next_def
    using interval_next(1) [OF step assms(3)] interval_next(2) [OF step assms(3)] nonneg
    by (auto simp: b zless_nat_eq_int_zless)
  ultimately show ?thesis by blast
qed


lemma cycle_next_months:
  assumes ok: "chrono_ok chr" and c: "valid_cycle c" "cycle_unit c = Months"
    and now: "anchor c \<le> now" "valid_time now"
  shows "\<exists>k b. cycle_next chr c now = Some b \<and> is_next chr c now k b"
proof -
  define off where "off = offset_minutes c * 60"
  define start where "start = anchor c + off"
  define M where "M = nat (month_index chr (now + off) - month_index chr start)"
  define count where "count = M div every c"
  have small: "\<bar>start\<bar> \<le> 5000000000" "\<bar>now + off\<bar> \<le> 7500000000000"
    using c(1) now(2) by (auto simp: start_def off_def valid_cycle_def valid_time_def)
  have ranges: "in_range chr start" "in_range chr (now + off)"
    using small by (auto intro!: chrono_in_range [OF ok])
  have M: "int M = month_index chr (now + off) - month_index chr start"
    using month_index_mono [OF ok _ ranges] now(1) by (simp add: M_def start_def)
  have pos: "0 < every c" "every c \<le> 120" using c(1) by (auto simp: valid_cycle_def)
  have count: "count * every c \<le> M" "M < (count + 1) * every c"
    using pos(1) dividend_less_div_times [of "every c" M] by (simp_all add: count_def)
  define f where "f j = the (checked_add_months chr start (j * every c))" for j
  have f: "checked_add_months chr start (j * every c) = Some (f j) \<and> in_range chr (f j)
         \<and> month_index chr (f j) = month_index chr start + int (j * every c)" if "j \<le> count + 1" for j
  proof -
    have "j * every c \<le> (count + 1) * every c" using that by (rule mult_right_mono) simp
    then have "j * every c \<le> M + 120" using count(1) pos by simp
    then have "month_index chr start + int (j * every c) \<le> month_index chr (now + off) + 120"
      using M by linarith
    from checked_add_months_Some [OF ok ranges(1) small(2) this]
    obtain t where "checked_add_months chr start (j * every c) = Some t" "in_range chr t"
      "month_index chr t = month_index chr start + int (j * every c)" by blast
    then show ?thesis by (simp only: f_def option.sel)
  qed
  have later: "now < f (count + 1) - off"
    using f [of "count + 1"] month_index_mono [OF ok, of "f (count + 1)" "now + off"] ranges(2) M count(2)
    by linarith
  have earlier: "f j - off \<le> now" if "j < count" for j
  proof -
    have "j * every c < count * every c" using that pos(1) by simp
    then have "int (j * every c) < int M" using count(1) by linarith
    then show ?thesis
      using f [of j] that month_index_mono [OF ok, of "now + off" "f j"] ranges(2) M by linarith
  qed
  obtain k where k: "count \<le> k" "k \<le> count + 1"
      "month_loop chr start off (every c) now count = Some (f k - off)"
      "now < f k - off" "\<forall>j. count \<le> j \<and> j < k \<longrightarrow> f j - off \<le> now"
    using month_loop_first [of count 1 chr start "every c" f now off] f later by auto
  have b: "boundary chr c j = Some (f j - off)" if "j \<le> count + 1" for j
    using f [OF that] c(2) by (simp add: boundary_def start_def off_def)
  have months: "nat (max 0 ((year chr (now + off) - year chr start) * 12 + month chr (now + off) - month chr start)) = M"
    using M unfolding M_def month_index_def by (simp add: left_diff_distrib)
  have "cycle_next chr c now = Some (f k - off)"
    using k(3) c(2) now(1) ranges months
    by (simp add: cycle_next_def from_timestamp_def off_def [symmetric] start_def [symmetric] count_def Let_def)
  moreover have "is_next chr c now k (f k - off)"
    unfolding is_next_def using b k(2,4,5) earlier by (auto simp: not_le) (metis le_less_linear)
  ultimately show ?thesis by blast
qed

lemma cycle_next_spec:
  assumes "chrono_ok chr" "valid_cycle c" "valid_time now"
  shows "\<exists>k b. cycle_next chr c now = Some b \<and> is_next chr c now k b"
proof (cases "now < anchor c")
  case True
  have "in_range chr (anchor c + offset_minutes c * 60)"
    using assms(2) by (auto intro!: chrono_in_range [OF assms(1)] simp: valid_cycle_def)
  then have "boundary chr c 0 = Some (anchor c)"
    using assms(1) by (auto simp: boundary_def chrono_ok_def split: cycle_unit.split)
  then show ?thesis using True by (auto simp: cycle_next_def is_next_def)
next
  case False
  then show ?thesis
    using assms cycle_next_interval [of c now chr] cycle_next_months [of chr c now] by fastforce
qed

lemma cycle_next_later:
  "chrono_ok chr \<Longrightarrow> valid_cycle c \<Longrightarrow> valid_time now \<Longrightarrow> \<exists>b. cycle_next chr c now = Some b \<and> now < b"
  using cycle_next_spec [of chr c now] by (auto simp: is_next_def)

lemma cycle_next_stable:
  assumes "chrono_ok chr" "valid_cycle c" "valid_time t" "valid_time u" "t \<le> u"
    "cycle_next chr c t = Some b" "u < b"
  shows "cycle_next chr c u = Some b"
  using cycle_next_spec [OF assms(1,2,3)] cycle_next_spec [OF assms(1,2,4)] assms(5-7)
  by (metis is_next_unique option.inject)


section \<open>Advancing the ledger\<close>

definition ledger_ok :: "chrono \<Rightarrow> ledger \<Rightarrow> bool" where
  "ledger_ok chr l \<longleftrightarrow>
     version l = 1 \<and> valid_cycle (led_cycle l) \<and> valid_time (last_time l)
     \<and> cycle_next chr (led_cycle l) (last_time l) = Some (next_reset l)"

definition advanced :: "chrono \<Rightarrow> ledger \<Rightarrow> int \<Rightarrow> reset_cycle \<Rightarrow> ledger" where
  "advanced chr l now c =
     (let now = max now (last_time l)
      in (if next_reset l \<le> now then reset_usage l else l)
           \<lparr>next_reset := the (cycle_next chr c now), led_cycle := c, last_time := now\<rparr>)"

lemma reset_usage_simps [simp]:
  "version (reset_usage l) = version l" "seqno (reset_usage l) = seqno l"
  "next_reset (reset_usage l) = next_reset l" "led_cycle (reset_usage l) = led_cycle l"
  "last_time (reset_usage l) = last_time l" "led_days (reset_usage l) = led_days l"
  "led_total (reset_usage l) = ZERO_USAGE" "led_guest (reset_usage l) = ZERO_USAGE"
  "led_users_total (reset_usage l) = ZERO_USAGE" "led_users (reset_usage l) = []"
  by (simp_all add: reset_usage_def)

lemma advanced_simps [simp]:
  "version (advanced chr l now c) = version l" "seqno (advanced chr l now c) = seqno l"
  "led_cycle (advanced chr l now c) = c" "last_time (advanced chr l now c) = max now (last_time l)"
  "led_days (advanced chr l now c) = led_days l"
  "next_reset (advanced chr l now c) = the (cycle_next chr c (max now (last_time l)))"
  by (simp_all add: advanced_def Let_def)

lemma valid_time_max [simp]: "valid_time t \<Longrightarrow> valid_time u \<Longrightarrow> valid_time (max t u)"
  by (simp add: max_def)

lemma ledger_ok_ahead: "chrono_ok chr \<Longrightarrow> ledger_ok chr l \<Longrightarrow> last_time l < next_reset l"
  using cycle_next_later [of chr "led_cycle l" "last_time l"] by (auto simp: ledger_ok_def)

lemma advance_Some:
  assumes "chrono_ok chr" "ledger_ok chr l" "valid_cycle c" "valid_time now"
  shows "advance chr l now c = Some (advanced chr l now c) \<and> ledger_ok chr (advanced chr l now c)"
proof -
  let ?T = "max now (last_time l)"
  have T: "valid_time ?T" using assms(2,4) by (simp add: ledger_ok_def)
  obtain b where b: "cycle_next chr c ?T = Some b" "?T < b"
    using cycle_next_later [OF assms(1,3) T] by blast
  have kept: "next_reset l = b" if "\<not> next_reset l \<le> ?T" "led_cycle l = c"
    using cycle_next_stable [OF assms(1), of c "last_time l" ?T "next_reset l"] assms(2) T b(1) that
    by (simp add: ledger_ok_def not_le)
  have "advance chr l now c = Some (advanced chr l now c)"
    using b(1) kept by (auto simp: advance_def advanced_def Let_def)
  moreover have "ledger_ok chr (advanced chr l now c)"
    using assms(2,3) T b(1) by (simp add: ledger_ok_def)
  ultimately show ?thesis ..
qed

text \<open>Catching up in two steps under the schedule of the ledger is catching up in one.\<close>

lemma advanced_advanced:
  assumes "chrono_ok chr" "ledger_ok chr l" "valid_time t" "valid_time u" "t \<le> max u (last_time l)"
  shows "advanced chr (advanced chr l t (led_cycle l)) u c = advanced chr l u c"
proof -
  let ?T = "max t (last_time l)"
  let ?m = "advanced chr l t (led_cycle l)"
  have U: "max u (last_time ?m) = max u (last_time l)" using assms(5) by auto
  have T: "valid_time ?T" using assms(2,3) by (simp add: ledger_ok_def)
  show ?thesis
  proof (cases "next_reset l \<le> ?T")
    case True
    then have "next_reset l \<le> max u (last_time l)" using assms(5) by auto
    then show ?thesis using True U unfolding advanced_def [of chr "?m"] advanced_def [of chr l u]
      by (auto simp: advanced_def Let_def reset_usage_def)
  next
    case False
    then have "next_reset ?m = next_reset l"
      using cycle_next_stable [OF assms(1), of "led_cycle l" "last_time l" ?T "next_reset l"] assms(2) T
      by (simp add: ledger_ok_def not_le)
    then show ?thesis using False U unfolding advanced_def [of chr "?m"] advanced_def [of chr l u]
      by (auto simp: advanced_def Let_def reset_usage_def)
  qed
qed

lemma advanced_self:
  assumes "chrono_ok chr" "ledger_ok chr l" "t \<le> last_time l"
  shows "advanced chr l t (led_cycle l) = l"
proof -
  have "max t (last_time l) = last_time l" using assms(3) by simp
  then show ?thesis
    using ledger_ok_ahead [OF assms(1,2)] assms(2) by (simp add: advanced_def ledger_ok_def Let_def)
qed

lemma advanced_max: "advanced chr l (max now (last_time l)) c = advanced chr l now c"
  by (simp add: advanced_def)


section \<open>Applying records\<close>

definition charged :: "chrono \<Rightarrow> ledger \<Rightarrow> traffic_record \<Rightarrow> ledger" where
  "charged chr l r =
     (charge_day chr
        (charge_subject (l\<lparr>led_total := usage_add (led_total l) (rec_direction r) (rec_bytes r)\<rparr>)
           (rec_subject r) (rec_direction r) (rec_bytes r))
        (rec_time r + offset_minutes (rec_cycle r) * 60) (rec_direction r) (rec_bytes r))
       \<lparr>seqno := rec_seq r\<rparr>"

definition record_ok :: "traffic_record \<Rightarrow> bool" where
  "record_ok r \<longleftrightarrow> valid_cycle (rec_cycle r)
     \<and> MIN_TRAFFIC_RECORD_TIME \<le> rec_time r \<and> rec_time r \<le> MAX_TRAFFIC_RECORD_TIME"

lemma record_ok_time: "record_ok r \<Longrightarrow> valid_time (rec_time r)"
  by (auto simp: record_ok_def valid_time_def MIN_TRAFFIC_RECORD_TIME_def MAX_TRAFFIC_RECORD_TIME_def)

lemma charge_subject_simps [simp]:
  "version (charge_subject l s d n) = version l" "seqno (charge_subject l s d n) = seqno l"
  "led_cycle (charge_subject l s d n) = led_cycle l" "last_time (charge_subject l s d n) = last_time l"
  "next_reset (charge_subject l s d n) = next_reset l" "led_total (charge_subject l s d n) = led_total l"
  by (simp_all add: charge_subject_def split: option.split)

lemma charge_day_simps [simp]:
  "version (charge_day chr l t d n) = version l" "seqno (charge_day chr l t d n) = seqno l"
  "led_cycle (charge_day chr l t d n) = led_cycle l" "last_time (charge_day chr l t d n) = last_time l"
  "next_reset (charge_day chr l t d n) = next_reset l" "led_total (charge_day chr l t d n) = led_total l"
  "led_guest (charge_day chr l t d n) = led_guest l" "led_users (charge_day chr l t d n) = led_users l"
  "led_users_total (charge_day chr l t d n) = led_users_total l"
  by (simp_all add: charge_day_def Let_def)

lemma charged_simps [simp]:
  "version (charged chr l r) = version l" "seqno (charged chr l r) = rec_seq r"
  "led_cycle (charged chr l r) = led_cycle l" "last_time (charged chr l r) = last_time l"
  "next_reset (charged chr l r) = next_reset l"
  "led_total (charged chr l r) = usage_add (led_total l) (rec_direction r) (rec_bytes r)"
  by (simp_all add: charged_def)

lemma ledger_ok_charged [simp]: "ledger_ok chr (charged chr l r) \<longleftrightarrow> ledger_ok chr l"
  by (simp add: ledger_ok_def)

lemma ledger_ok_retain [simp]: "ledger_ok chr (retain_users us l) \<longleftrightarrow> ledger_ok chr l"
  by (simp add: ledger_ok_def retain_users_def)

lemma retain_users_simps [simp]:
  "seqno (retain_users us l) = seqno l" "led_cycle (retain_users us l) = led_cycle l"
  "last_time (retain_users us l) = last_time l" "version (retain_users us l) = version l"
  by (simp_all add: retain_users_def)

lemma ledger_apply_Some:
  assumes "chrono_ok chr" "ledger_ok chr l" "record_ok r"
  shows "ledger_apply chr l r = Some (charged chr (advanced chr l (rec_time r) (rec_cycle r)) r)
       \<and> ledger_ok chr (charged chr (advanced chr l (rec_time r) (rec_cycle r)) r)"
proof -
  have c: "valid_cycle (rec_cycle r)" using assms(3) by (simp add: record_ok_def)
  have "\<bar>rec_time r + offset_minutes (rec_cycle r) * 60\<bar> \<le> 8000000000000"
    using c record_ok_time [OF assms(3)] by (auto simp: valid_cycle_def valid_time_def)
  then have "in_range chr (rec_time r + offset_minutes (rec_cycle r) * 60)"
    by (rule chrono_in_range [OF assms(1)])
  then show ?thesis
    using advance_Some [OF assms(1,2) c record_ok_time [OF assms(3)]]
    by (simp add: ledger_apply_def from_timestamp_def charged_def [symmetric] Let_def)
qed

section \<open>Sequenced logs\<close>

text \<open>
  A log of numbered records over a snapshot: records the snapshot has already seen are skipped, a
  gap or an invalid record stops the replay.
\<close>

fun replay_log ::
  "('l \<Rightarrow> 'r \<Rightarrow> 'l option) \<Rightarrow> ('l \<Rightarrow> nat) \<Rightarrow> ('r \<Rightarrow> nat) \<Rightarrow> ('r \<Rightarrow> bool) \<Rightarrow> 'l \<Rightarrow> 'r list \<Rightarrow> 'l option" where
  "replay_log app sq no valid l [] = Some l"
| "replay_log app sq no valid l (r # rs) =
     (if no r \<le> sq l then replay_log app sq no valid l rs
      else if no r = sq l + 1 \<and> valid r
      then Option.bind (app l r) (\<lambda>l. replay_log app sq no valid l rs)
      else None)"

text \<open>Each record of a list is new and is applied: none is skipped.\<close>

fun apply_log ::
  "('l \<Rightarrow> 'r \<Rightarrow> 'l option) \<Rightarrow> ('l \<Rightarrow> nat) \<Rightarrow> ('r \<Rightarrow> nat) \<Rightarrow> ('r \<Rightarrow> bool) \<Rightarrow> 'l \<Rightarrow> 'r list \<Rightarrow> 'l option" where
  "apply_log app sq no valid l [] = Some l"
| "apply_log app sq no valid l (r # rs) =
     (if no r = sq l + 1 \<and> valid r then Option.bind (app l r) (\<lambda>l. apply_log app sq no valid l rs) else None)"

text \<open>
  The interface of a state that carries the number of the last record applied to it.
\<close>

locale sequenced_log =
  fixes app :: "'l \<Rightarrow> 'r \<Rightarrow> 'l option" and sq :: "'l \<Rightarrow> nat" and no :: "'r \<Rightarrow> nat" and valid :: "'r \<Rightarrow> bool"
  assumes apply_number: "app l r = Some l' \<Longrightarrow> sq l' = no r"
begin

lemma replay_append:
  "replay_log app sq no valid l (rs @ qs)
     = Option.bind (replay_log app sq no valid l rs) (\<lambda>m. replay_log app sq no valid m qs)"
  by (induction rs arbitrary: l) (auto split: Option.bind_split)

lemma replay_covers:
  "replay_log app sq no valid l rs = Some m \<Longrightarrow> sq l \<le> sq m \<and> (\<forall>r \<in> set rs. no r \<le> sq m)"
proof (induction rs arbitrary: l)
  case (Cons r rs)
  show ?case
  proof (cases "no r \<le> sq l")
    case True
    then show ?thesis using Cons by force
  next
    case False
    then obtain l' where l': "app l r = Some l'" "replay_log app sq no valid l' rs = Some m" "no r = sq l + 1"
      using Cons.prems by (auto split: if_splits bind_splits)
    then show ?thesis using Cons.IH [of l'] apply_number [OF l'(1)] by auto
  qed
qed simp

lemma replay_skip: "(\<And>r. r \<in> set rs \<Longrightarrow> no r \<le> sq x) \<Longrightarrow> replay_log app sq no valid x rs = Some x"
  by (induction rs) auto

text \<open>A newer snapshot makes an old log harmless.\<close>

lemma replay_again:
  "replay_log app sq no valid l rs = Some m \<Longrightarrow> sq m \<le> sq x \<Longrightarrow> replay_log app sq no valid x rs = Some x"
  using replay_covers [of l rs m] by (intro replay_skip) force

lemma replay_snoc:
  assumes "replay_log app sq no valid l rs = Some m" "no r = sq m + 1" "valid r"
  shows "replay_log app sq no valid l (rs @ [r]) = app m r"
  using assms by (auto simp: replay_append split: Option.bind_split)

lemma apply_replays: "apply_log app sq no valid l rs = Some m \<Longrightarrow> replay_log app sq no valid l rs = Some m"
  by (induction rs arbitrary: l) (auto split: if_splits bind_splits)

lemma apply_counts: "apply_log app sq no valid l rs = Some m \<Longrightarrow> sq m = sq l + length rs"
  by (induction rs arbitrary: l) (auto dest: apply_number split: if_splits bind_splits)

lemma apply_prefix: "apply_log app sq no valid l rs = Some m \<Longrightarrow> \<exists>x. apply_log app sq no valid l (take k rs) = Some x"
  by (induction rs arbitrary: l k) (auto simp: take_Cons' split: if_splits bind_splits)

end

interpretation traffic_log: sequenced_log "ledger_apply chr" seqno rec_seq record_ok for chr
  by unfold_locales (auto simp: ledger_apply_def Let_def split: bind_splits)

abbreviation replay_records :: "chrono \<Rightarrow> ledger \<Rightarrow> traffic_record list \<Rightarrow> ledger option" where
  "replay_records chr \<equiv> replay_log (ledger_apply chr) seqno rec_seq record_ok"

abbreviation apply_records :: "chrono \<Rightarrow> ledger \<Rightarrow> traffic_record list \<Rightarrow> ledger option" where
  "apply_records chr \<equiv> apply_log (ledger_apply chr) seqno rec_seq record_ok"

lemma replay_records_ok:
  "chrono_ok chr \<Longrightarrow> ledger_ok chr l \<Longrightarrow> replay_records chr l rs = Some m \<Longrightarrow> ledger_ok chr m"
proof (induction rs arbitrary: l)
  case (Cons r rs)
  then show ?case
    using ledger_apply_Some [of chr l r] Cons.IH [of "charged chr (advanced chr l (rec_time r) (rec_cycle r)) r"]
    by (auto split: if_splits bind_splits)
qed simp


section \<open>Bytes on disk\<close>

text \<open>
  What the code relies on of the JSON codec: an encoded record is one line, and decoding undoes
  encoding.
\<close>

definition codec_ok :: "codec \<Rightarrow> bool" where
  "codec_ok cd \<longleftrightarrow>
     (\<forall>r b. enc_record cd r = Some b \<longrightarrow> nl \<notin> set b \<and> dec_record cd (b @ [nl]) = Some r) \<and>
     (\<forall>l b. enc_ledger cd l = Some b \<longrightarrow> dec_ledger cd b = Some l)"

definition journal_text :: "str list \<Rightarrow> str" where
  "journal_text bs = concat (map (\<lambda>b. b @ [nl]) bs)"

lemma journal_text_simps [simp]:
  "journal_text [] = []" "journal_text (b # bs) = b @ nl # journal_text bs"
  "journal_text (bs @ cs) = journal_text bs @ journal_text cs"
  by (simp_all add: journal_text_def)

lemma split_inclusive_text:
  "(\<And>b. b \<in> set bs \<Longrightarrow> nl \<notin> set b) \<Longrightarrow> split_inclusive (journal_text bs) = map (\<lambda>b. b @ [nl]) bs"
proof (induction bs)
  case Nil
  then show ?case by (simp add: split_inclusive.simps)
next
  case (Cons b bs)
  then have b: "nl \<notin> set b" by simp
  have "takeWhile (\<lambda>c. c \<noteq> nl) (b @ nl # journal_text bs) = b"
    and "dropWhile (\<lambda>c. c \<noteq> nl) (b @ nl # journal_text bs) = nl # journal_text bs"
    using b by (auto simp: takeWhile_append dropWhile_append)
  then show ?case using Cons by (subst split_inclusive.simps) simp
qed

lemma complete_len_text:
  assumes "nl \<notin> set tail"
  shows "complete_len (journal_text bs @ tail) = length (journal_text bs)"
proof -
  have "dropWhile (\<lambda>b. b \<noteq> nl) (rev tail @ rev (journal_text bs)) = rev (journal_text bs)"
  proof (cases bs rule: rev_cases)
    case Nil
    then show ?thesis using assms by auto
  next
    case (snoc cs c)
    then show ?thesis using assms by (auto simp: dropWhile_append)
  qed
  then show ?thesis by (simp add: complete_len_def)
qed

text \<open>A torn append leaves complete lines and a tail.\<close>

lemma take_journal_text:
  "(\<And>b. b \<in> set bs \<Longrightarrow> nl \<notin> set b) \<Longrightarrow>
   \<exists>k tail. take n (journal_text bs) = journal_text (take k bs) @ tail \<and> nl \<notin> set tail"
proof (induction bs arbitrary: n)
  case Nil
  then show ?case by simp
next
  case (Cons b bs)
  show ?case
  proof (cases "n \<le> length b")
    case True
    have "nl \<notin> set (take n b)" using Cons.prems [of b] in_set_takeD [of nl n b] by auto
    then show ?thesis using True by (intro exI [of _ 0] exI [of _ "take n b"]) simp
  next
    case False
    define j where "j = n - length b - 1"
    have n: "n = length b + Suc j" using False by (simp add: j_def)
    obtain k tail where "take j (journal_text bs) = journal_text (take k bs) @ tail" "nl \<notin> set tail"
      using Cons.IH [of j] Cons.prems by (meson list.set_intros(2))
    then show ?thesis unfolding n by (intro exI [of _ "Suc k"] exI [of _ tail]) simp
  qed
qed

definition encodes :: "codec \<Rightarrow> traffic_record \<Rightarrow> str \<Rightarrow> bool" where
  "encodes cd r b \<longleftrightarrow> enc_record cd r = Some b"

lemma replay_lines_records:
  assumes "codec_ok cd"
  shows "list_all2 (encodes cd) rs bs \<Longrightarrow> replay_records chr l rs = Some m \<Longrightarrow>
    \<exists>n. replay_lines chr cd l i a (map (\<lambda>b. b @ [nl]) bs) = Some (Inr (m, n))"
proof (induction rs arbitrary: bs l i a)
  case (Cons r rs)
  from Cons.prems(1) obtain b bs' where bs: "bs = b # bs'" "encodes cd r b" "list_all2 (encodes cd) rs bs'"
    by (auto simp: list_all2_Cons1)
  have dec: "dec_record cd (b @ [nl]) = Some r"
    using assms bs(2) by (auto simp: codec_ok_def encodes_def)
  show ?case
  proof (cases "rec_seq r \<le> seqno l")
    case True
    then show ?thesis using Cons.IH [OF bs(3)] Cons.prems(2) by (simp add: bs(1) dec)
  next
    case False
    then obtain l' where l': "rec_seq r = seqno l + 1" "record_ok r" "ledger_apply chr l r = Some l'"
        "replay_records chr l' rs = Some m"
      using Cons.prems(2) by (auto split: if_splits bind_splits)
    then have "is_ok (cycle_validate (rec_cycle r))"
        "MIN_TRAFFIC_RECORD_TIME \<le> rec_time r" "rec_time r \<le> MAX_TRAFFIC_RECORD_TIME"
      by (simp_all add: record_ok_def cycle_validate_iff)
    then show ?thesis using Cons.IH [OF bs(3) l'(4)] l' by (simp add: bs(1) dec)
  qed
qed simp

lemma replay_lines_append:
  "replay_lines chr cd l i a xs = Some (Inr (m, n)) \<Longrightarrow>
   replay_lines chr cd l i a (xs @ ys) = replay_lines chr cd m (i + length xs) n ys"
  by (induction xs arbitrary: l i a) (auto split: option.splits if_splits bind_splits)

text \<open>
  The state a disk stands for: a readable snapshot, complete records that replay over it, and
  perhaps a torn tail.
\<close>

definition disk_is :: "chrono \<Rightarrow> codec \<Rightarrow> disk \<Rightarrow> ledger \<Rightarrow> str \<Rightarrow> bool" where
  "disk_is chr cd d r tail \<longleftrightarrow>
     (\<exists>snap l rs bs. disk_snapshot d = Some snap \<and> dec_ledger cd snap = Some l \<and> ledger_ok chr l
        \<and> disk_journal d = Some (journal_text bs @ tail)
        \<and> list_all2 (encodes cd) rs bs \<and> replay_records chr l rs = Some r)"

definition stands_for :: "chrono \<Rightarrow> codec \<Rightarrow> disk \<Rightarrow> ledger \<Rightarrow> bool" where
  "stands_for chr cd d r \<longleftrightarrow> (\<exists>tail. nl \<notin> set tail \<and> disk_is chr cd d r tail)"

definition fits :: "disk \<Rightarrow> bool" where
  "fits d \<longleftrightarrow>
     (case disk_snapshot d of Some s \<Rightarrow> length s \<le> MAX_TRAFFIC_SNAPSHOT_BYTES | None \<Rightarrow> True)
     \<and> length (journal_of d) \<le> MAX_TRAFFIC_JOURNAL_BYTES"

lemma encodes_lines:
  "codec_ok cd \<Longrightarrow> list_all2 (encodes cd) rs bs \<Longrightarrow> b \<in> set bs \<Longrightarrow> nl \<notin> set b"
  by (auto simp: list_all2_conv_all_nth in_set_conv_nth encodes_def codec_ok_def)

lemma replay_disk:
  assumes "codec_ok cd" "list_all2 (encodes cd) rs bs" "nl \<notin> set tail" "replay_records chr l rs = Some r"
  shows "\<exists>n. replay_complete_records chr cd l (journal_text bs @ tail)
              = Some (Inr (r, \<lparr>jr_complete_len = length (journal_text bs), jr_applied = n\<rparr>))"
proof -
  obtain n where "replay_lines chr cd l 0 0 (map (\<lambda>b. b @ [nl]) bs) = Some (Inr (r, n))"
    using replay_lines_records [OF assms(1,2,4)] by blast
  moreover have "split_inclusive (journal_text bs) = map (\<lambda>b. b @ [nl]) bs"
    using encodes_lines [OF assms(1,2)] by (rule split_inclusive_text)
  ultimately show ?thesis
    using complete_len_text [OF assms(3)] by (simp add: replay_complete_records_def Let_def)
qed


section \<open>The ledger in memory follows the disk\<close>

text \<open>
  The ledger in memory may have caught up with the clock since the last record on disk, because
  rejected requests advance it without leaving a record.
\<close>

definition tracks :: "chrono \<Rightarrow> ledger \<Rightarrow> ledger \<Rightarrow> bool" where
  "tracks chr r m \<longleftrightarrow> ledger_ok chr r \<and> (\<exists>t. valid_time t \<and> m = advanced chr r t (led_cycle r))"

fun follows :: "chrono \<Rightarrow> reset_cycle \<Rightarrow> ledger \<Rightarrow> ledger \<Rightarrow> int list \<Rightarrow> bool" where
  "follows chr c r m [] = True"
| "follows chr c r m (now # nows) =
     (advanced chr m now c = advanced chr r (max now (last_time m)) c
      \<and> follows chr c r (advanced chr m now c) nows)"

lemma tracks_refl: "chrono_ok chr \<Longrightarrow> ledger_ok chr r \<Longrightarrow> tracks chr r r"
  unfolding tracks_def using advanced_self [of chr r "last_time r"] by (auto simp: ledger_ok_def)

lemma tracks_ok: "chrono_ok chr \<Longrightarrow> tracks chr r m \<Longrightarrow> ledger_ok chr m"
  unfolding tracks_def using advance_Some by (auto simp: ledger_ok_def)

lemma tracks_same [simp]: "tracks chr r m \<Longrightarrow> led_cycle m = led_cycle r" "tracks chr r m \<Longrightarrow> seqno m = seqno r"
  by (auto simp: tracks_def)

lemma tracks_advanced:
  assumes "chrono_ok chr" "tracks chr r m" "valid_time now"
  shows "advanced chr m now c = advanced chr r (max now (last_time m)) c"
proof -
  obtain t where t: "ledger_ok chr r" "valid_time t" "m = advanced chr r t (led_cycle r)"
    using assms(2) unfolding tracks_def by blast
  let ?u = "max now (last_time m)"
  have "valid_time ?u" "t \<le> max ?u (last_time r)"
    using t assms(3) by (auto simp: ledger_ok_def le_max_iff_disj)
  then have "advanced chr m ?u c = advanced chr r ?u c"
    unfolding t(3) using advanced_advanced [OF assms(1) t(1,2)] by blast
  then show ?thesis by (simp only: advanced_max)
qed

lemma tracks_step:
  assumes "chrono_ok chr" "tracks chr r m" "valid_time now"
  shows "tracks chr r (advanced chr m now (led_cycle r))"
proof -
  have "valid_time (last_time m)" using tracks_ok [OF assms(1,2)] by (simp add: ledger_ok_def)
  then show ?thesis
    using tracks_advanced [OF assms, of "led_cycle r"] assms(2,3) unfolding tracks_def
    by (metis valid_time_max)
qed

lemma follows_same_schedule:
  assumes "chrono_ok chr" "tracks chr r m" "\<And>now. now \<in> set nows \<Longrightarrow> valid_time now"
  shows "follows chr (led_cycle r) r m nows"
  using assms(2,3)
proof (induction nows arbitrary: m)
  case (Cons now nows)
  then show ?case
    using tracks_advanced [OF assms(1) Cons.prems(1)] tracks_step [OF assms(1) Cons.prems(1)] by simp
qed simp

lemma follows_settled:
  assumes "chrono_ok chr" "ledger_ok chr r" "valid_cycle c" "valid_time u" "last_time r \<le> u"
    "\<And>now. now \<in> set nows \<Longrightarrow> now \<le> u"
  shows "follows chr c r (advanced chr r u c) nows"
  using assms(6)
proof (induction nows)
  case (Cons now nows)
  have ok: "ledger_ok chr (advanced chr r u c)" using advance_Some [OF assms(1-4)] by simp
  have "advanced chr (advanced chr r u c) now c = advanced chr r u c"
    using advanced_self [OF assms(1) ok, of now] Cons.prems assms(5) by simp
  then show ?case using Cons assms(5) by (auto simp: max_def)
qed simp

lemma follows_one_second:
  assumes "chrono_ok chr" "tracks chr r m" "valid_cycle c" "valid_time t"
    "\<And>now. now \<in> set nows \<Longrightarrow> now = t"
  shows "follows chr c r m nows"
proof (cases nows)
  case (Cons now rest)
  have r: "ledger_ok chr r" "last_time r \<le> last_time m"
    using assms(2) unfolding tracks_def by auto
  have r3: "valid_time (last_time m)"
    using tracks_ok [OF assms(1,2)] by (simp add: ledger_ok_def)
  have "follows chr c r (advanced chr r (max t (last_time m)) c) rest"
  proof (rule follows_settled [OF assms(1) r(1) assms(3)])
    show "valid_time (max t (last_time m))" using assms(4) r3 by simp
    show "last_time r \<le> max t (last_time m)" using r(2) by simp
    show "now' \<le> max t (last_time m)" if "now' \<in> set rest" for now'
      using assms(5) [of now'] that Cons by simp
  qed
  moreover have "now = t" using assms(5) [of now] Cons by simp
  ultimately show ?thesis using tracks_advanced [OF assms(1,2,4), of c] by (simp add: Cons)
qed simp

text \<open>The requests that are granted, in order, and what their records say.\<close>

definition granted :: "(int \<times> charge_request) list \<Rightarrow> reply list \<Rightarrow> charge_request list" where
  "granted qs rs = map fst (filter (\<lambda>(q, r). r = Pending (Inr ())) (zip (map snd qs) rs))"

definition record_for :: "charge_request \<Rightarrow> traffic_record \<Rightarrow> bool" where
  "record_for q r \<longleftrightarrow>
     rec_subject r = req_subject q \<and> rec_direction r = req_direction q \<and> rec_bytes r = req_bytes q"

definition clock_ok :: "int \<Rightarrow> bool" where
  "clock_ok now \<longleftrightarrow> MIN_TRAFFIC_RECORD_TIME \<le> now \<and> now \<le> MAX_TRAFFIC_RECORD_TIME"

lemma clock_ok_valid: "clock_ok t \<Longrightarrow> valid_time t"
  by (auto simp: clock_ok_def valid_time_def MIN_TRAFFIC_RECORD_TIME_def MAX_TRAFFIC_RECORD_TIME_def)

lemma granted_Cons [simp]:
  "granted ((now, q) # qs) (r # rs) = (if r = Pending (Inr ()) then [q] else []) @ granted qs rs"
  by (simp add: granted_def)


definition settled ::
  "chrono \<Rightarrow> codec \<Rightarrow> reset_cycle \<Rightarrow> ledger \<Rightarrow> ledger \<Rightarrow> (int \<times> charge_request) list
    \<Rightarrow> ledger \<times> str \<times> nat \<times> reply list \<Rightarrow> bool" where
  "settled chr cd c r m qs = (\<lambda>(m', out, n, rs).
     \<exists>recs bs r'. list_all2 (encodes cd) recs bs \<and> out = journal_text bs \<and> n = length recs
       \<and> apply_records chr r recs = Some r' \<and> ledger_ok chr r'
       \<and> list_all2 record_for (granted qs rs) recs \<and> length rs = length qs
       \<and> (recs \<noteq> [] \<or> led_cycle r = c \<and> tracks chr r m \<longrightarrow> tracks chr r' m' \<and> last_time m' \<le> MAX_TRAFFIC_RECORD_TIME))"

lemma settled_reject:
  assumes "settled chr cd c r (advanced chr m now c) qs (m', out, n, rs)"
    "chrono_ok chr" "valid_time now" "reply \<noteq> Pending (Inr ())"
  shows "settled chr cd c r m ((now, q) # qs) (m', out, n, reply # rs)"
proof -
  have "tracks chr r (advanced chr m now c)" if "led_cycle r = c" "tracks chr r m"
    using tracks_step [OF assms(2) that(2) assms(3)] that(1) by simp
  then show ?thesis using assms(1,4) unfolding settled_def by auto
qed

lemma settled_accept:
  assumes "settled chr cd c l1 l1 qs (m', out, n, rs)"
    "chrono_ok chr" "ledger_ok chr l1" "led_cycle l1 = c"
    "ledger_apply chr r rec = Some l1" "rec_seq rec = seqno r + 1" "record_ok rec"
    "encodes cd rec b" "record_for q rec"
  shows "settled chr cd c r m ((now, q) # qs) (m', b @ [nl] @ out, n + 1, Pending (Inr ()) # rs)"
proof -
  obtain recs bs r' where h: "list_all2 (encodes cd) recs bs" "out = journal_text bs" "n = length recs"
      "apply_records chr l1 recs = Some r'" "ledger_ok chr r'"
      "list_all2 record_for (granted qs rs) recs" "length rs = length qs"
      "tracks chr r' m'" "last_time m' \<le> MAX_TRAFFIC_RECORD_TIME"
    using assms(1) tracks_refl [OF assms(2,3)] assms(4) unfolding settled_def split by blast
  have "apply_records chr r (rec # recs) = Some r'" using assms(5,6,7) h(4) by simp
  moreover have "list_all2 (encodes cd) (rec # recs) (b # bs)" using h(1) assms(8) by simp
  moreover have "list_all2 record_for (granted ((now, q) # qs) (Pending (Inr ()) # rs)) (rec # recs)"
    using h(6) assms(9) by simp
  ultimately show ?thesis
    unfolding settled_def split
    by (intro exI [of _ "rec # recs"] exI [of _ "b # bs"] exI [of _ r']) (simp add: h(2,3,5,7,8,9))
qed

lemma settle_settled:
  assumes env: "chrono_ok chr" "codec_ok cd" "valid_cycle (set_cycle s)"
  shows "ledger_ok chr r \<Longrightarrow> ledger_ok chr m \<Longrightarrow> seqno m = seqno r \<Longrightarrow> last_time r \<le> last_time m \<Longrightarrow>
    last_time m \<le> MAX_TRAFFIC_RECORD_TIME \<Longrightarrow> (\<And>now. now \<in> fst ` set qs \<Longrightarrow> clock_ok now) \<Longrightarrow>
    follows chr (set_cycle s) r m (map fst qs) \<Longrightarrow>
    \<exists>res. settle chr cd s m qs = Some res \<and> settled chr cd (set_cycle s) r m qs res"
proof (induction qs arbitrary: r m)
  case Nil
  then show ?case by (auto simp: settled_def granted_def)
next
  case (Cons nq qs)
  obtain now q where nq: "nq = (now, q)" by (cases nq)
  let ?c = "set_cycle s"
  define m1 where "m1 = advanced chr m now ?c"
  have now: "clock_ok now" "valid_time now" using Cons.prems(6) clock_ok_valid by (auto simp: nq)
  have m1: "advance chr m now ?c = Some m1" "ledger_ok chr m1" "led_cycle m1 = ?c" "seqno m1 = seqno r"
    "clock_ok (last_time m1)" "last_time r \<le> last_time m1"
    using advance_Some [OF env(1) Cons.prems(2) env(3) now(2)] Cons.prems(3-5) now(1)
    by (auto simp: m1_def clock_ok_def)
  have lt: "last_time m1 = max now (last_time m)" by (simp add: m1_def)
  have m1r: "m1 = advanced chr r (last_time m1) ?c" and rest: "follows chr ?c r m1 (map fst qs)"
    using Cons.prems(7) unfolding nq lt list.map fst_conv follows.simps m1_def [symmetric] by blast+
  have "last_time m1 \<le> MAX_TRAFFIC_RECORD_TIME" using m1(5) by (simp add: clock_ok_def)
  then have "\<exists>res. settle chr cd s m1 qs = Some res \<and> settled chr cd ?c r m1 qs res"
    using Cons.prems(6) by (intro Cons.IH [OF Cons.prems(1) m1(2,4,6) _ _ rest]) auto
  then obtain m' out n rs where rej:
    "settle chr cd s m1 qs = Some (m', out, n, rs)" "settled chr cd ?c r m1 qs (m', out, n, rs)" by auto
  let ?rec = "record_of m1 ?c q"
  show ?case
  proof (cases "check_traffic m1 s (req_subject q) (req_direction q) (req_bytes q)")
    case (Inl e)
    then show ?thesis
      using m1(1) rej settled_reject [OF rej(2) [unfolded m1_def] env(1) now(2), of "Pending (Inl e)" q]
      by (simp add: nq Let_def)
  next
    case (Inr u)
    show ?thesis
    proof (cases "enc_record cd ?rec")
      case None
      then show ?thesis
        using m1(1) Inr rej settled_reject [OF rej(2) [unfolded m1_def] env(1) now(2),
            of "Sent (Inl (failure_error ''record could not be encoded''))" q]
        by (simp add: nq Let_def)
    next
      case (Some b)
      have rec: "record_ok ?rec" "rec_seq ?rec = seqno r + 1" "encodes cd ?rec b" "record_for q ?rec"
        using env(3) m1(4,5) Some
        by (simp_all add: record_ok_def record_of_def clock_ok_def encodes_def record_for_def)
      define l1 where "l1 = charged chr m1 ?rec"
      have self: "advanced chr m1 (last_time m1) ?c = m1"
        using advanced_self [OF env(1) m1(2), of "last_time m1"] m1(3) by simp
      have l1: "ledger_apply chr m1 ?rec = Some l1" "ledger_ok chr l1"
        using ledger_apply_Some [OF env(1) m1(2) rec(1)] self by (simp_all add: l1_def record_of_def)
      have r1: "ledger_apply chr r ?rec = Some l1"
        using ledger_apply_Some [OF env(1) Cons.prems(1) rec(1)] m1r by (simp add: l1_def record_of_def)
      have cyc: "led_cycle l1 = ?c" "last_time l1 = last_time m1"
        using m1(3) by (simp_all add: l1_def)
      have "follows chr ?c l1 l1 (map fst qs)"
        using follows_same_schedule [OF env(1) tracks_refl [OF env(1) l1(2)], of "map fst qs"]
          Cons.prems(6) clock_ok_valid cyc(1) by auto
      then have "\<exists>res. settle chr cd s l1 qs = Some res \<and> settled chr cd ?c l1 l1 qs res"
        using Cons.prems(6) m1(5) cyc(2) by (intro Cons.IH [OF l1(2) l1(2)]) (auto simp: clock_ok_def)
      then obtain m' out n rs where acc:
        "settle chr cd s l1 qs = Some (m', out, n, rs)" "settled chr cd ?c l1 l1 qs (m', out, n, rs)" by auto
      show ?thesis
        using m1(1) Inr Some l1(1) acc(1)
          settled_accept [OF acc(2) env(1) l1(2) cyc(1) r1 rec(2,1,3,4), of m now]
        by (simp add: nq Let_def)
    qed
  qed
qed


section \<open>Commits\<close>

lemma disk_is_ok: "chrono_ok chr \<Longrightarrow> disk_is chr cd d r tail \<Longrightarrow> ledger_ok chr r"
  unfolding disk_is_def using replay_records_ok by blast

lemma disk_is_append:
  assumes "disk_is chr cd d r []" "list_all2 (encodes cd) recs bs" "replay_records chr r recs = Some x"
  shows "disk_is chr cd (d\<lparr>disk_journal := Some (journal_of d @ journal_text bs @ tail)\<rparr>) x tail"
proof -
  obtain snap l rs cs where h: "disk_snapshot d = Some snap" "dec_ledger cd snap = Some l" "ledger_ok chr l"
      "disk_journal d = Some (journal_text cs)" "list_all2 (encodes cd) rs cs" "replay_records chr l rs = Some r"
    using assms(1) unfolding disk_is_def by auto
  have "replay_records chr l (rs @ recs) = Some x"
    using h(6) assms(3) by (simp add: traffic_log.replay_append)
  moreover have "list_all2 (encodes cd) (rs @ recs) (cs @ bs)"
    using h(5) assms(2) by (rule list_all2_appendI)
  ultimately show ?thesis
    unfolding disk_is_def using h(1-4)
    by (intro exI [of _ snap] exI [of _ l] exI [of _ "rs @ recs"] exI [of _ "cs @ bs"])
      (simp add: journal_of_def)
qed

lemma disk_is_torn:
  assumes "codec_ok cd" "disk_is chr cd d r []" "list_all2 (encodes cd) recs bs" "apply_records chr r recs = Some x"
  shows "\<exists>k y. apply_records chr r (take k recs) = Some y
           \<and> stands_for chr cd (d\<lparr>disk_journal := Some (journal_of d @ take n (journal_text bs))\<rparr>) y"
proof -
  obtain k tail where k: "take n (journal_text bs) = journal_text (take k bs) @ tail" "nl \<notin> set tail"
    using take_journal_text [of bs n] encodes_lines [OF assms(1,3)] by blast
  obtain y where y: "apply_records chr r (take k recs) = Some y"
    using traffic_log.apply_prefix [OF assms(4)] by blast
  have "disk_is chr cd (d\<lparr>disk_journal := Some (journal_of d @ journal_text (take k bs) @ tail)\<rparr>) y tail"
    using disk_is_append [OF assms(2) list_all2_takeI [OF assms(3)] traffic_log.apply_replays [OF y]] .
  then show ?thesis using k y unfolding stands_for_def by auto
qed

text \<open>A published snapshot makes whatever is left of the journal harmless.\<close>

lemma disk_is_published:
  assumes "codec_ok cd" "disk_is chr cd d r []" "enc_ledger cd x = Some b" "ledger_ok chr x" "seqno r \<le> seqno x"
  shows "disk_is chr cd (d\<lparr>disk_snapshot := Some b\<rparr>) x []"
    and "disk_is chr cd (d\<lparr>disk_snapshot := Some b, disk_journal := Some []\<rparr>) x []"
proof -
  have dec: "dec_ledger cd b = Some x" using assms(1,3) by (simp add: codec_ok_def)
  obtain snap l rs cs where h: "disk_journal d = Some (journal_text cs)" "list_all2 (encodes cd) rs cs"
      "replay_records chr l rs = Some r"
    using assms(2) unfolding disk_is_def by auto
  have "replay_records chr x rs = Some x" using traffic_log.replay_again [OF h(3) assms(5)] .
  then show "disk_is chr cd (d\<lparr>disk_snapshot := Some b\<rparr>) x []"
    unfolding disk_is_def using h(1,2) dec assms(4) by auto
  show "disk_is chr cd (d\<lparr>disk_snapshot := Some b, disk_journal := Some []\<rparr>) x []"
    unfolding disk_is_def using dec assms(4)
    by (auto intro!: exI [of _ "[]"])
qed

definition healthy :: "chrono \<Rightarrow> codec \<Rightarrow> writer \<Rightarrow> ledger \<Rightarrow> bool" where
  "healthy chr cd w r \<longleftrightarrow>
     \<not> rt_failed (wr_runtime w) \<and> disk_is chr cd (wr_disk w) r [] \<and> tracks chr r (rt_ledger (wr_runtime w))
     \<and> last_time (rt_ledger (wr_runtime w)) \<le> MAX_TRAFFIC_RECORD_TIME"

text \<open>
  A ledger that contains exactly the given records on top of another one: each of them has the next
  number and is applied. A compaction may in addition have caught up with the clock, but not beyond
  the given time, and dropped the rows of accounts that are gone.
\<close>

definition contains :: "chrono \<Rightarrow> str list \<Rightarrow> int \<Rightarrow> ledger \<Rightarrow> traffic_record list \<Rightarrow> ledger \<Rightarrow> bool" where
  "contains chr active horizon r recs x \<longleftrightarrow>
     (\<exists>r'. apply_records chr r recs = Some r'
        \<and> (x = r' \<or> (\<exists>m. tracks chr r' m \<and> last_time m \<le> horizon \<and> x = retain_users active m)))"

text \<open>The latest time that a group has seen: the clock of its requests, or what the ledger had reached.\<close>

definition latest :: "ledger \<Rightarrow> (int \<times> charge_request) list \<Rightarrow> int" where
  "latest l qs = foldl (\<lambda>t (now, _). max now t) (last_time l) qs"

lemma latest_simps [simp]: "latest l [] = last_time l"
  by (simp add: latest_def)

lemma latest_Cons: "last_time l' = max now (last_time l) \<Longrightarrow> latest l ((now, q) # qs) = latest l' qs"
  by (simp add: latest_def)

lemma latest_bound: "last_time l \<le> t \<Longrightarrow> (\<And>now. now \<in> fst ` set qs \<Longrightarrow> now \<le> t) \<Longrightarrow> latest l qs \<le> t"
  by (induction qs arbitrary: l rule: rev_induct) (auto simp: latest_def)

lemma advance_time: "advance chr l now c = Some l' \<Longrightarrow> last_time l' = max now (last_time l)"
  by (auto simp: advance_def Let_def split: if_splits bind_splits option.splits)

lemma ledger_apply_time: "ledger_apply chr l rec = Some l' \<Longrightarrow> last_time l' = max (rec_time rec) (last_time l)"
  by (auto simp: ledger_apply_def Let_def dest: advance_time split: bind_splits)

lemma settle_time: "settle chr cd s l qs = Some (m, out, n, rs) \<Longrightarrow> last_time m = latest l qs"
proof (induction qs arbitrary: l m out n rs)
  case (Cons nq qs)
  obtain now q where nq: "nq = (now, q)" by (cases nq)
  obtain l1 where l1: "advance chr l now (set_cycle s) = Some l1"
    using Cons.prems by (auto simp: nq split: bind_splits)
  have eq: "latest l (nq # qs) = latest l1 qs" unfolding nq by (rule latest_Cons [OF advance_time [OF l1]])
  let ?rec = "record_of l1 (set_cycle s) q"
  consider m' out' n' rs' where "settle chr cd s l1 qs = Some (m', out', n', rs')" "m = m'"
    | l2 m' out' n' rs' where "ledger_apply chr l1 ?rec = Some l2" "settle chr cd s l2 qs = Some (m', out', n', rs')" "m = m'"
    using Cons.prems l1 by (auto simp: nq Let_def split: bind_splits sum.splits option.splits)
  then show ?case
  proof cases
    case 1
    then show ?thesis using Cons.IH eq by simp
  next
    case 2
    have "last_time l2 = last_time l1" using ledger_apply_time [OF 2(1)] by (simp add: record_of_def)
    then show ?thesis using Cons.IH [OF 2(2)] 2(3) eq by (simp add: latest_def)
  qed
qed simp

lemma write_group_cases:
  assumes "write_group io d encoded compacted = (d', written)"
  shows "(\<not> is_ok written \<and> (d' = d \<or> (\<exists>n. d' = d\<lparr>disk_journal := Some (journal_of d @ take n encoded)\<rparr>)))
    \<or> (d' = d\<lparr>disk_journal := Some (journal_of d @ encoded)\<rparr> \<and> (compacted = None \<or> \<not> is_ok written))
    \<or> (\<exists>b. compacted = Some (Inr b) \<and>
         (d' = d\<lparr>disk_journal := Some (journal_of d @ encoded)\<rparr>\<lparr>disk_snapshot := Some b\<rparr> \<and> \<not> is_ok written
          \<or> d' = d\<lparr>disk_journal := Some (journal_of d @ encoded)\<rparr>\<lparr>disk_snapshot := Some b, disk_journal := Some []\<rparr>))"
  using assms
  by (auto simp: write_group_def Let_def split: commit_io.splits option.splits sum.splits if_splits)

lemma disk_is_stands: "disk_is chr cd d r [] \<Longrightarrow> stands_for chr cd d r"
  unfolding stands_for_def by (intro exI [of _ "[]"]) simp

lemma write_group_disk:
  assumes "chrono_ok chr" "codec_ok cd" "disk_is chr cd d r []" "list_all2 (encodes cd) recs bs"
    "apply_records chr r recs = Some r'" "tracks chr r' m \<and> last_time m \<le> horizon"
    "write_group io d (journal_text bs) compacted = (d', written)"
    "compacted = Some (ok_or (enc_ledger cd (retain_users active m)) e) \<or> compacted = None"
  shows "\<exists>k x. stands_for chr cd d' x \<and> contains chr active horizon r (take k recs) x"
    and "is_ok written \<Longrightarrow> compacted = None \<Longrightarrow> disk_is chr cd d' r' []"
    and "is_ok written \<Longrightarrow> compacted \<noteq> None \<Longrightarrow> disk_is chr cd d' (retain_users active m) []"
proof -
  let ?appended = "d\<lparr>disk_journal := Some (journal_of d @ journal_text bs)\<rparr>"
  let ?x = "retain_users active m"
  have full: "disk_is chr cd ?appended r' []" using disk_is_append [OF assms(3,4) traffic_log.apply_replays [OF assms(5)], of "[]"] by simp
  have m: "tracks chr r' m" using assms(6) by simp
  have x: "ledger_ok chr ?x" "seqno r' \<le> seqno ?x" using tracks_ok [OF assms(1) m] m by simp_all
  have pub: "disk_is chr cd (?appended\<lparr>disk_snapshot := Some b\<rparr>) ?x []"
      "disk_is chr cd (?appended\<lparr>disk_snapshot := Some b, disk_journal := Some []\<rparr>) ?x []"
    if "enc_ledger cd ?x = Some b" for b
    using disk_is_published [OF assms(2) full that x] by auto
  have torn: "\<exists>k y. apply_records chr r (take k recs) = Some y
      \<and> stands_for chr cd (d\<lparr>disk_journal := Some (journal_of d @ take n (journal_text bs))\<rparr>) y" for n
    using disk_is_torn [OF assms(2-5)] .
  have base: "stands_for chr cd d r" using disk_is_stands [OF assms(3)] .
  have all: "stands_for chr cd e' y \<Longrightarrow> y = r' \<or> y = ?x
      \<Longrightarrow> \<exists>k x. stands_for chr cd e' x \<and> contains chr active horizon r (take k recs) x" for e' y
    using assms(5,6) unfolding contains_def by (intro exI [of _ "length recs"] exI [of _ y]) auto
  have none: "contains chr active horizon r (take 0 recs) r" by (simp add: contains_def)
  have some: "contains chr active horizon r (take k recs) y" if "apply_records chr r (take k recs) = Some y" for k y
    using that by (auto simp: contains_def)

  have enc: "enc_ledger cd ?x = Some b" if "compacted = Some (Inr b)" for b
    using assms(8) that by (auto simp: ok_or_def split: option.splits)
  note cases = write_group_cases [OF assms(7)]
  show "\<exists>k x. stands_for chr cd d' x \<and> contains chr active horizon r (take k recs) x"
    using cases
  proof (elim disjE conjE exE)
    show ?thesis if "d' = d" using that base none by blast
    show ?thesis if "d' = d\<lparr>disk_journal := Some (journal_of d @ take n (journal_text bs))\<rparr>" for n
      using torn [of n] some that by blast
    show ?thesis if "d' = ?appended"
      using all [OF disk_is_stands [OF full]] that by simp
    show ?thesis if "d' = ?appended"
      using all [OF disk_is_stands [OF full]] that by simp
    show ?thesis if "compacted = Some (Inr b)" "d' = ?appended\<lparr>disk_snapshot := Some b\<rparr>" for b
      using all [OF disk_is_stands [OF pub(1) [OF enc [OF that(1)]]]] that(2) by simp
    show ?thesis if "compacted = Some (Inr b)"
      "d' = ?appended\<lparr>disk_snapshot := Some b, disk_journal := Some []\<rparr>" for b
      using all [OF disk_is_stands [OF pub(2) [OF enc [OF that(1)]]]] that(2) by simp
  qed
  show "is_ok written \<Longrightarrow> compacted = None \<Longrightarrow> disk_is chr cd d' r' []"
    using cases full by auto
  show "is_ok written \<Longrightarrow> compacted \<noteq> None \<Longrightarrow> disk_is chr cd d' ?x []"
    using cases pub(2) enc by auto
qed


definition acknowledged :: "(int \<times> charge_request) list \<Rightarrow> unit app_result list \<Rightarrow> charge_request list" where
  "acknowledged qs replies = map fst (filter (\<lambda>(q, r). r = Inr ()) (zip (map snd qs) replies))"

lemma acknowledged_none: "Inr () \<notin> set replies \<Longrightarrow> acknowledged qs replies = []"
  by (auto simp: acknowledged_def filter_empty_conv dest: set_zip_rightD)

lemma acknowledged_granted:
  "Sent (Inr ()) \<notin> set rs \<Longrightarrow> acknowledged qs (map (final_reply (Inr ())) rs) = granted qs rs"
proof (induction qs arbitrary: rs)
  case (Cons q qs)
  show ?case
  proof (cases rs)
    case (Cons r rs')
    have "Sent (Inr ()) \<noteq> r" "Sent (Inr ()) \<notin> set rs'" using Cons.prems \<open>rs = r # rs'\<close> by auto
    then have "final_reply (Inr ()) r = Inr () \<longleftrightarrow> r = Pending (Inr ())"
      by (cases r) (auto split: sum.splits)
    then show ?thesis using Cons.IH [OF \<open>Sent (Inr ()) \<notin> set rs'\<close>] \<open>rs = r # rs'\<close>
      by (simp add: acknowledged_def granted_def)
  qed (simp add: acknowledged_def granted_def)
qed (simp add: acknowledged_def granted_def)

lemma settle_sent: "settle chr cd s m qs = Some (m', out, n, rs) \<Longrightarrow> Sent (Inr ()) \<notin> set rs"
  by (induction chr cd s m qs arbitrary: m' out n rs rule: settle.induct)
    (auto simp: Let_def split: bind_splits sum.splits option.splits)

lemma refused_reply:
  assumes "r \<noteq> Sent (Inr ())"
  shows "final_reply (Inl e) r \<noteq> Inr () \<and> lost_reply r \<noteq> Inr ()"
proof (cases r)
  case (Sent x)
  then show ?thesis using assms by simp
next
  case (Pending x)
  then show ?thesis by (cases x) simp_all
qed

lemma refused_replies:
  assumes "Sent (Inr ()) \<notin> set rs"
  shows "Inr () \<notin> set (map (final_reply (Inl e)) rs)" "Inr () \<notin> set (map lost_reply rs)"
proof -
  have "r \<noteq> Sent (Inr ())" if "r \<in> set rs" for r using assms that by blast
  then show "Inr () \<notin> set (map (final_reply (Inl e)) rs)" "Inr () \<notin> set (map lost_reply rs)"
    using refused_reply by (metis (no_types, lifting) image_iff list.set_map)+
qed

lemma granted_subseq: "subseq (granted qs rs) (map snd qs)"
proof (induction qs arbitrary: rs)
  case (Cons q qs)
  then show ?case by (cases rs; cases q) (auto simp: granted_def)
qed (simp add: granted_def)

definition schedule_kept :: "chrono \<Rightarrow> traffic_settings \<Rightarrow> writer \<Rightarrow> (int \<times> charge_request) list \<Rightarrow> bool" where
  "schedule_kept chr s w qs \<longleftrightarrow>
     set_cycle s = led_cycle (rt_ledger (wr_runtime w)) \<or> (\<exists>t. \<forall>(now, _) \<in> set qs. now = t)"

definition group_outcome ::
  "chrono \<Rightarrow> codec \<Rightarrow> str list \<Rightarrow> int \<Rightarrow> ledger \<Rightarrow> (int \<times> charge_request) list \<Rightarrow> writer \<Rightarrow> unit app_result list \<Rightarrow> bool" where
  "group_outcome chr cd active horizon r qs w' replies \<longleftrightarrow> length replies = length qs \<and>
     (\<exists>recs x gs. stands_for chr cd (wr_disk w') x \<and> contains chr active horizon r recs x
        \<and> subseq gs (map snd qs) \<and> list_all2 record_for gs recs
        \<and> (if rt_failed (wr_runtime w') then acknowledged qs replies = []
           else gs = acknowledged qs replies \<and> healthy chr cd w' x))"

lemma commit_group_settles:
  assumes env: "chrono_ok chr" "codec_ok cd" "valid_cycle (set_cycle s)"
    and w: "healthy chr cd w r" and clock: "\<And>now. now \<in> fst ` set qs \<Longrightarrow> clock_ok now"
    and sched: "schedule_kept chr s w qs"
  shows "\<exists>res. settle chr cd s (rt_ledger (wr_runtime w)) qs = Some res
           \<and> settled chr cd (set_cycle s) r (rt_ledger (wr_runtime w)) qs res"
proof -
  let ?m = "rt_ledger (wr_runtime w)"
  have tr: "tracks chr r ?m" and late: "last_time ?m \<le> MAX_TRAFFIC_RECORD_TIME"
    using w unfolding healthy_def by blast+
  have r: "ledger_ok chr r" "last_time r \<le> last_time ?m" using tr unfolding tracks_def by auto
  have valid: "valid_time now" if "now \<in> set (map fst qs)" for now
    using clock [of now] clock_ok_valid that by simp
  have "follows chr (set_cycle s) r ?m (map fst qs)"
  proof (cases "set_cycle s = led_cycle ?m")
    case True
    then show ?thesis using follows_same_schedule [OF env(1) tr valid, of "map fst qs"] tr by simp
  next
    case False
    then obtain t where t: "\<forall>(now, _) \<in> set qs. now = t" using sched by (auto simp: schedule_kept_def)
    show ?thesis
    proof (cases qs)
      case (Cons q qs')
      then have "valid_time t" using t valid [of t] by force
      then show ?thesis using t by (intro follows_one_second [OF env(1) tr env(3)]) auto
    qed simp
  qed
  then show ?thesis
    using settle_settled [OF env r(1) tracks_ok [OF env(1) tr] _ r(2) late clock] tr by simp
qed


lemma written_group_outcome:
  assumes env: "chrono_ok chr" "codec_ok cd" and d: "disk_is chr cd (wr_disk w) r []"
    and recs: "list_all2 (encodes cd) recs bs" "apply_records chr r recs = Some r'" "tracks chr r' m"
      "last_time m \<le> MAX_TRAFFIC_RECORD_TIME" "last_time m \<le> horizon"
    and gs: "list_all2 record_for (granted qs rs) recs" "length rs = length qs" "Sent (Inr ()) \<notin> set rs"
    and wrote: "write_group io (wr_disk w) (journal_text bs) compacted = (d', written)"
    and compacted: "compacted = (if compact then Some (ok_or (enc_ledger cd l) e) else None)"
    and l: "l = (if compact then retain_users active m else m)"
  shows "\<not> is_ok written \<or> lost \<Longrightarrow> rt_failed (wr_runtime w') \<Longrightarrow> wr_disk w' = d' \<Longrightarrow>
      replies = map lost_reply rs \<or> replies = map (final_reply written) rs \<and> \<not> is_ok written \<Longrightarrow>
      group_outcome chr cd active horizon r qs w' replies"
    and "is_ok written \<Longrightarrow> \<not> rt_failed (wr_runtime w') \<Longrightarrow> wr_disk w' = d' \<Longrightarrow>
      rt_ledger (wr_runtime w') = l \<Longrightarrow>
      group_outcome chr cd active horizon r qs w' (map (final_reply written) rs)"
proof -
  have comp: "compacted = Some (ok_or (enc_ledger cd (retain_users active m)) e) \<or> compacted = None"
    using compacted l by simp
  note disk = write_group_disk [OF env d recs(1,2) conjI [OF recs(3,5)] wrote comp]
  {
    assume w': "rt_failed (wr_runtime w')" "wr_disk w' = d'"
      and replies: "replies = map lost_reply rs \<or> replies = map (final_reply written) rs \<and> \<not> is_ok written"
    obtain k x where kx: "stands_for chr cd d' x" "contains chr active horizon r (take k recs) x" using disk(1) by blast
    have "Inr () \<notin> set replies" using replies refused_replies [OF gs(3)] by (cases written) auto
    then have "acknowledged qs replies = []" by (rule acknowledged_none)
    moreover have "subseq (take k (granted qs rs)) (map snd qs)"
      using granted_subseq [of qs rs] by (metis prefix_imp_subseq subseq_order.trans take_is_prefix)
    moreover have "list_all2 record_for (take k (granted qs rs)) (take k recs)"
      using gs(1) by (rule list_all2_takeI)
    moreover have "length replies = length qs" using replies gs(2) by auto
    ultimately show "group_outcome chr cd active horizon r qs w' replies"
      unfolding group_outcome_def using w' kx
      by (intro conjI exI [of _ "take k recs"] exI [of _ x] exI [of _ "take k (granted qs rs)"]) simp_all
  }
  {
    assume ok: "is_ok written" and w': "\<not> rt_failed (wr_runtime w')" "wr_disk w' = d'" "rt_ledger (wr_runtime w') = l"
    let ?x = "if compact then retain_users active m else r'"
    have x: "disk_is chr cd d' ?x []" using disk(2,3) ok compacted by (cases compact) simp_all
    have m: "ledger_ok chr m" using tracks_ok [OF env(1) recs(3)] .
    have tr: "tracks chr ?x l" using l recs(3) tracks_refl [OF env(1)] m by (cases compact) simp_all
    have late: "last_time l \<le> MAX_TRAFFIC_RECORD_TIME" using l recs(4) by simp
    have written: "written = Inr ()" using ok by (cases written) auto
    have "contains chr active horizon r recs ?x" using recs(2-5) by (auto simp: contains_def)
    moreover have "healthy chr cd w' ?x" using w' x tr late unfolding healthy_def by simp
    ultimately show "group_outcome chr cd active horizon r qs w' (map (final_reply written) rs)"
      unfolding group_outcome_def
      using disk_is_stands [OF x] w' gs(1,2) granted_subseq [of qs rs] acknowledged_granted [OF gs(3), of qs] written
      by (intro conjI exI [of _ recs] exI [of _ ?x] exI [of _ "granted qs rs"]) simp_all
  }
qed

lemma commit_group_outcome:
  assumes env: "chrono_ok chr" "codec_ok cd" "valid_cycle (set_cycle s)"
    and w: "healthy chr cd w r" and clock: "\<And>now. now \<in> fst ` set qs \<Longrightarrow> clock_ok now"
    and sched: "schedule_kept chr s w qs"
  shows "\<exists>w' replies. commit_group chr cd accounts s io lost w qs = Some (w', replies)
           \<and> group_outcome chr cd (active_users accounts s) (latest (rt_ledger (wr_runtime w)) qs) r qs w' replies"
proof -
  let ?active = "active_users accounts s"
  have state: "\<not> rt_failed (wr_runtime w)" "disk_is chr cd (wr_disk w) r []"
    using w unfolding healthy_def by blast+
  obtain m out n rs where settle: "settle chr cd s (rt_ledger (wr_runtime w)) qs = Some (m, out, n, rs)"
      and st: "settled chr cd (set_cycle s) r (rt_ledger (wr_runtime w)) qs (m, out, n, rs)"
    using commit_group_settles [OF env w clock sched] by auto
  obtain recs bs r' where h: "list_all2 (encodes cd) recs bs" "out = journal_text bs" "n = length recs"
      "apply_records chr r recs = Some r'" "list_all2 record_for (granted qs rs) recs" "length rs = length qs"
      "recs \<noteq> [] \<longrightarrow> tracks chr r' m \<and> last_time m \<le> MAX_TRAFFIC_RECORD_TIME"
    using st unfolding settled_def split by blast
  have sent: "Sent (Inr ()) \<notin> set rs" using settle_sent [OF settle] .
  show ?thesis
  proof (cases "n = 0")
    case True
    then have "recs = []" "granted qs rs = []" using h(3,5) by auto
    then have "group_outcome chr cd ?active (latest (rt_ledger (wr_runtime w)) qs) r qs w (map (final_reply (Inr ())) rs)"
      unfolding group_outcome_def
      using acknowledged_granted [OF sent, of qs] h(6) w state(1) disk_is_stands [OF state(2)]
      by (intro conjI exI [of _ "[]"] exI [of _ r]) (simp_all add: contains_def)
    then show ?thesis using True settle state(1) by (simp add: commit_group_def Let_def)
  next
    case False
    then have m: "tracks chr r' m" "last_time m \<le> MAX_TRAFFIC_RECORD_TIME" using h(3,7) by auto
    define compact where "compact \<longleftrightarrow> COMPACTION_RECORDS \<le> rt_records (wr_runtime w) + n"
    define l where "l = (if compact then retain_users ?active m else m)"
    define compacted where
      "compacted = (if compact then Some (ok_or (enc_ledger cd l) (failure_error ''encode'')) else None)"
    obtain d' written where wrote: "write_group io (wr_disk w) (journal_text bs) compacted = (d', written)"
      by fastforce
    note out = written_group_outcome [OF env(1,2) state(2) h(1,4) m eq_refl [OF settle_time [OF settle]] h(5,6) sent wrote compacted_def l_def]
    have body: "commit_group chr cd accounts s io lost w qs =
      (if lost then
         Some (w\<lparr>wr_runtime := (wr_runtime w)\<lparr>rt_failed := True\<rparr>, wr_disk := d', wr_open := False\<rparr>, map lost_reply rs)
       else if is_ok written then
         Some (w\<lparr>wr_runtime := (wr_runtime w)\<lparr>rt_ledger := l,
                   rt_records := (if compact then 0 else rt_records (wr_runtime w) + n)\<rparr>, wr_disk := d'\<rparr>,
               map (final_reply written) rs)
       else Some (w\<lparr>wr_runtime := (wr_runtime w)\<lparr>rt_failed := True\<rparr>, wr_disk := d'\<rparr>, map (final_reply written) rs))"
    proof (cases compact)
      case True
      then show ?thesis
        using False state(1) settle wrote unfolding compact_def
        by (simp add: commit_group_def Let_def h(2) l_def compacted_def compact_def)
    next
      case compact: False
      then show ?thesis
        using False state(1) settle wrote unfolding compact_def
        by (simp add: commit_group_def Let_def h(2) l_def compacted_def compact_def)
    qed
    consider "lost \<or> \<not> is_ok written" | "\<not> lost" "is_ok written" by blast
    then show ?thesis
    proof cases
      case 1
      then show ?thesis unfolding body by (auto intro!: out(1))
    next
      case 2
      then show ?thesis unfolding body using state(1) by (auto intro!: out(2))
    qed
  qed
qed


section \<open>Start-up\<close>

lemma replay_last_time:
  "chrono_ok chr \<Longrightarrow> ledger_ok chr l \<Longrightarrow> last_time l \<le> MAX_TRAFFIC_RECORD_TIME \<Longrightarrow>
   replay_records chr l rs = Some m \<Longrightarrow> last_time m \<le> MAX_TRAFFIC_RECORD_TIME"
proof (induction rs arbitrary: l)
  case (Cons r rs)
  show ?case
  proof (cases "rec_seq r \<le> seqno l")
    case True
    then show ?thesis using Cons by simp
  next
    case False
    then have r: "record_ok r" using Cons.prems(4) by (auto split: if_splits)
    let ?l = "charged chr (advanced chr l (rec_time r) (rec_cycle r)) r"
    have l: "ledger_apply chr l r = Some ?l" "ledger_ok chr ?l"
      using ledger_apply_Some [OF Cons.prems(1,2) r] by auto
    have "last_time ?l \<le> MAX_TRAFFIC_RECORD_TIME"
      using Cons.prems(3) r by (auto simp: record_ok_def)
    then show ?thesis
      using Cons.IH [OF Cons.prems(1) l(2)] Cons.prems(4) l(1) False by (auto split: if_splits)
  qed
qed simp

lemma contains_last_time:
  assumes "chrono_ok chr" "ledger_ok chr r" "last_time r \<le> MAX_TRAFFIC_RECORD_TIME" "contains chr active horizon r recs x"
    "horizon \<le> MAX_TRAFFIC_RECORD_TIME"
  shows "last_time x \<le> MAX_TRAFFIC_RECORD_TIME"
  using assms(4,5) replay_last_time [OF assms(1-3) traffic_log.apply_replays] unfolding contains_def by fastforce

lemma load_reads:
  assumes "codec_ok cd" "stands_for chr cd d r" "fits d"
  shows "\<exists>bs tail. disk_journal d = Some (journal_text bs @ tail) \<and> nl \<notin> set tail
    \<and> load_traffic chr cd io now accounts s d
        = Some (load_writes cd io d (journal_text bs @ tail) (length (journal_text bs))
                  (retain_users (active_users accounts s) r))"
proof -
  obtain snap l rs bs tail where h: "disk_snapshot d = Some snap" "dec_ledger cd snap = Some l" "ledger_ok chr l"
      "disk_journal d = Some (journal_text bs @ tail)" "nl \<notin> set tail"
      "list_all2 (encodes cd) rs bs" "replay_records chr l rs = Some r"
    using assms(2) unfolding stands_for_def disk_is_def by blast
  have size: "length snap \<le> MAX_TRAFFIC_SNAPSHOT_BYTES"
      "length (journal_text bs @ tail) \<le> MAX_TRAFFIC_JOURNAL_BYTES"
    using assms(3) h(1,4) by (simp_all add: fits_def journal_of_def)
  have "read_snapshot cd snap = Inr l"
    using size(1) h(2,3)
    by (simp add: read_snapshot_def read_bounded_def cycle_validate_iff ledger_ok_def ok_or_def ensure_def)
  moreover have "read_bounded (journal_text bs @ tail) MAX_TRAFFIC_JOURNAL_BYTES = Inr (journal_text bs @ tail)"
    using size(2) by (simp add: read_bounded_def)
  moreover have same: "d\<lparr>disk_journal := Some (journal_text bs @ tail)\<rparr> = d" using h(4) by simp
  moreover obtain n where "replay_complete_records chr cd l (journal_text bs @ tail)
      = Some (Inr (r, \<lparr>jr_complete_len = length (journal_text bs), jr_applied = n\<rparr>))"
    using replay_disk [OF assms(1) h(6,5,7)] by blast
  ultimately show ?thesis
    using h(1,4,5) by (intro exI [of _ bs] exI [of _ tail]) (simp add: load_traffic_def Let_def same)
qed

lemma load_succeeds:
  assumes "codec_ok cd" "stands_for chr cd d r" "fits d"
    "enc_ledger cd (retain_users (active_users accounts s) r) = Some b"
  shows "load_traffic chr cd LoadWrites now accounts s d
    = Some (Inr \<lparr>rt_ledger = retain_users (active_users accounts s) r, rt_records = 0, rt_failed = False\<rparr>,
            \<lparr>disk_snapshot = Some b, disk_journal = Some []\<rparr>)"
  using load_reads [OF assms(1-3), of LoadWrites now accounts s] assms(4)
  by (auto simp: load_writes_def Let_def)

lemma disk_is_drop_tail:
  assumes "disk_is chr cd d r tail" "disk_journal d = Some (journal_text bs @ tail')"
    "nl \<notin> set tail" "nl \<notin> set tail'"
  shows "disk_is chr cd (d\<lparr>disk_journal := Some (journal_text bs)\<rparr>) r []"
proof -
  obtain snap l rs cs where h: "disk_snapshot d = Some snap" "dec_ledger cd snap = Some l" "ledger_ok chr l"
      "disk_journal d = Some (journal_text cs @ tail)" "list_all2 (encodes cd) rs cs" "replay_records chr l rs = Some r"
    using assms(1) unfolding disk_is_def by blast
  have "journal_text bs @ tail' = journal_text cs @ tail" using assms(2) h(4) by simp
  moreover from this have "length (journal_text bs) = length (journal_text cs)"
    using complete_len_text [OF assms(3)] complete_len_text [OF assms(4)] by metis
  ultimately have "journal_text bs = journal_text cs" by (simp add: append_eq_append_conv)
  then show ?thesis unfolding disk_is_def using h by auto
qed

text \<open>Whatever write of the start-up fails, the disk still stands for the same charges.\<close>

lemma load_restartable:
  assumes env: "chrono_ok chr" "codec_ok cd" and d: "stands_for chr cd d r" "fits d"
    and load: "load_traffic chr cd io now accounts s d = Some (res, d')"
  shows "(\<exists>e. res = Inl e) \<and> (stands_for chr cd d' r \<or> stands_for chr cd d' (retain_users (active_users accounts s) r))
    \<or> res = Inr \<lparr>rt_ledger = retain_users (active_users accounts s) r, rt_records = 0, rt_failed = False\<rparr>
      \<and> disk_is chr cd d' (retain_users (active_users accounts s) r) []"
proof -
  let ?x = "retain_users (active_users accounts s) r"
  obtain bs tail where h: "disk_journal d = Some (journal_text bs @ tail)" "nl \<notin> set tail"
      "load_writes cd io d (journal_text bs @ tail) (length (journal_text bs)) ?x = (res, d')"
    using load_reads [OF env(2) d, of io now accounts s] load by auto
  let ?d = "d\<lparr>disk_journal := Some (journal_text bs)\<rparr>"
  have cut: "disk_is chr cd ?d r []"
    using d(1) disk_is_drop_tail [OF _ h(1)] h(2) unfolding stands_for_def by blast
  have x: "ledger_ok chr ?x" using disk_is_ok [OF env(1) cut] by simp
  have pub: "disk_is chr cd (?d\<lparr>disk_snapshot := Some b\<rparr>) ?x []"
      "disk_is chr cd (?d\<lparr>disk_snapshot := Some b, disk_journal := Some []\<rparr>) ?x []" if "enc_ledger cd ?x = Some b" for b
    using disk_is_published [OF env(2) cut that x] by simp_all
  from h(3) consider "\<exists>e. res = Inl e" "d' = d \<or> d' = ?d"
    | b where "enc_ledger cd ?x = Some b" "\<exists>e. res = Inl e" "d' = ?d\<lparr>disk_snapshot := Some b\<rparr> \<or>
        d' = ?d\<lparr>disk_snapshot := Some b, disk_journal := Some []\<rparr>"
    | b where "enc_ledger cd ?x = Some b" "res = Inr \<lparr>rt_ledger = ?x, rt_records = 0, rt_failed = False\<rparr>"
        "d' = ?d\<lparr>disk_snapshot := Some b, disk_journal := Some []\<rparr>"
    by (auto simp: load_writes_def Let_def split: if_splits option.splits load_io.splits)
  then show ?thesis
  proof cases
    case 1
    then show ?thesis using d(1) disk_is_stands [OF cut] by auto
  next
    case (2 b)
    then show ?thesis using pub [OF 2(1), THEN disk_is_stands] by auto
  next
    case (3 b)
    then show ?thesis using pub(2) by auto
  qed
qed


section \<open>Reachable states\<close>

text \<open>
  The life of the accounting: a first start on an empty disk, commits with any outcome of their
  writes, and restarts, which read what the last process left behind. A start-up that fails
  leaves a stopped process. The clock stays within the range that records may carry, and an
  edited reset schedule takes effect on a group whose clock readings fall into one second.
\<close>

inductive traffic_reachable :: "chrono \<Rightarrow> codec \<Rightarrow> writer \<Rightarrow> bool" for chr cd where
  boot: "load_traffic chr cd io now accounts s \<lparr>disk_snapshot = None, disk_journal = None\<rparr> = Some (Inr rt, d) \<Longrightarrow>
    is_ok (settings_validate s) \<Longrightarrow> clock_ok now \<Longrightarrow>
    traffic_reachable chr cd \<lparr>wr_runtime = rt, wr_disk = d, wr_open = True\<rparr>"
| commit: "traffic_reachable chr cd w \<Longrightarrow> is_ok (settings_validate s) \<Longrightarrow>
    (\<And>now. now \<in> fst ` set qs \<Longrightarrow> clock_ok now) \<Longrightarrow> schedule_kept chr s w qs \<Longrightarrow>
    commit_group chr cd accounts s io lost w qs = Some (w', replies) \<Longrightarrow>
    traffic_reachable chr cd w'"
| restart: "traffic_reachable chr cd w \<Longrightarrow> fits (wr_disk w) \<Longrightarrow> is_ok (settings_validate s) \<Longrightarrow>
    load_traffic chr cd io now accounts s (wr_disk w) = Some (Inr rt, d) \<Longrightarrow>
    traffic_reachable chr cd \<lparr>wr_runtime = rt, wr_disk = d, wr_open = True\<rparr>"
| failed_start: "traffic_reachable chr cd w \<Longrightarrow> fits (wr_disk w) \<Longrightarrow> is_ok (settings_validate s) \<Longrightarrow>
    load_traffic chr cd io now accounts s (wr_disk w) = Some (Inl e, d) \<Longrightarrow>
    traffic_reachable chr cd
      \<lparr>wr_runtime = (wr_runtime w)\<lparr>rt_failed := True\<rparr>, wr_disk = d, wr_open = False\<rparr>"

definition recoverable :: "chrono \<Rightarrow> codec \<Rightarrow> writer \<Rightarrow> ledger \<Rightarrow> bool" where
  "recoverable chr cd w r \<longleftrightarrow>
     stands_for chr cd (wr_disk w) r \<and> last_time r \<le> MAX_TRAFFIC_RECORD_TIME
     \<and> (\<not> rt_failed (wr_runtime w) \<longrightarrow> healthy chr cd w r)"

lemma stands_for_ok: "chrono_ok chr \<Longrightarrow> stands_for chr cd d r \<Longrightarrow> ledger_ok chr r"
  unfolding stands_for_def using disk_is_ok by blast

lemma fresh_load:
  assumes env: "chrono_ok chr" "codec_ok cd"
    and load: "load_traffic chr cd io now accounts s \<lparr>disk_snapshot = None, disk_journal = None\<rparr> = Some (Inr rt, d)"
    and s: "valid_cycle (set_cycle s)" "clock_ok now"
  shows "recoverable chr cd \<lparr>wr_runtime = rt, wr_disk = d, wr_open = True\<rparr> (rt_ledger rt)"
proof -
  have now: "valid_time now" using clock_ok_valid [OF s(2)] .
  obtain b where upcoming: "cycle_next chr (set_cycle s) now = Some b"
    using cycle_next_later [OF env(1) s(1) now] by blast
  define l where "l = \<lparr>version = 1, seqno = 0, next_reset = b, led_cycle = set_cycle s, last_time = now,
             led_total = ZERO_USAGE, led_guest = ZERO_USAGE, led_users_total = ZERO_USAGE,
             led_users = [], led_days = []\<rparr>"
  have new: "ledger_new chr now (set_cycle s) = Some l" by (simp add: ledger_new_def upcoming l_def)
  have ok: "ledger_ok chr l" using s(1) now upcoming by (simp add: ledger_ok_def l_def)
  let ?x = "retain_users (active_users accounts s) l"
  have rt: "rt = \<lparr>rt_ledger = ?x, rt_records = 0, rt_failed = False\<rparr>"
    and d: "\<exists>snap. enc_ledger cd ?x = Some snap \<and> d = \<lparr>disk_snapshot = Some snap, disk_journal = Some []\<rparr>"
    using load new
    by (auto simp: load_traffic_def Let_def read_bounded_def replay_complete_records_def complete_len_def
        split_inclusive.simps load_writes_def split: option.splits load_io.splits if_splits)
  obtain snap where "enc_ledger cd ?x = Some snap" "d = \<lparr>disk_snapshot = Some snap, disk_journal = Some []\<rparr>"
    using d by blast
  then have "disk_is chr cd d ?x []"
    using env(2) ok unfolding disk_is_def codec_ok_def
    by (intro exI [of _ snap] exI [of _ ?x] exI [of _ "[]"]) simp
  then show ?thesis
    using s(2) disk_is_stands tracks_refl [OF env(1), of ?x] ok
    by (simp add: recoverable_def healthy_def rt clock_ok_def l_def)
qed

lemma reachable_recoverable:
  assumes env: "chrono_ok chr" "codec_ok cd"
  shows "traffic_reachable chr cd w \<Longrightarrow> \<exists>r. recoverable chr cd w r"
proof (induction rule: traffic_reachable.induct)
  case (boot io now accounts s rt d)
  then show ?case using fresh_load [OF env boot(1) settings_validate_cycle [OF boot(2)] boot(3)] by blast
next
  case (commit w s qs accounts io lost w' replies)
  then obtain r where r: "recoverable chr cd w r" by blast
  show ?case
  proof (cases "rt_failed (wr_runtime w)")
    case True
    then have "w' = w" using commit(5) by (simp add: commit_group_def Let_def)
    then show ?thesis using r by blast
  next
    case False
    then have w: "healthy chr cd w r" using r by (simp add: recoverable_def)
    let ?t = "latest (rt_ledger (wr_runtime w)) qs"
    have late: "?t \<le> MAX_TRAFFIC_RECORD_TIME"
      using w commit(3) by (intro latest_bound) (auto simp: healthy_def clock_ok_def)
    have out: "group_outcome chr cd (active_users accounts s) ?t r qs w' replies"
      using commit_group_outcome [OF env settings_validate_cycle [OF commit(2)] w commit(3,4),
          of accounts io lost] commit(5) by auto
    then obtain recs x where x: "stands_for chr cd (wr_disk w') x"
        "contains chr (active_users accounts s) ?t r recs x" "\<not> rt_failed (wr_runtime w') \<longrightarrow> healthy chr cd w' x"
      unfolding group_outcome_def by (auto split: if_splits)
    have "ledger_ok chr r" "last_time r \<le> MAX_TRAFFIC_RECORD_TIME"
      using r stands_for_ok [OF env(1)] unfolding recoverable_def by auto
    then have "last_time x \<le> MAX_TRAFFIC_RECORD_TIME"
      using contains_last_time [OF env(1) _ _ x(2) late] by simp
    then show ?thesis using x unfolding recoverable_def by blast
  qed
next
  case (restart w s io now accounts rt d)
  then obtain r where r: "stands_for chr cd (wr_disk w) r" "last_time r \<le> MAX_TRAFFIC_RECORD_TIME"
    by (auto simp: recoverable_def)
  let ?x = "retain_users (active_users accounts s) r"
  have h: "rt = \<lparr>rt_ledger = ?x, rt_records = 0, rt_failed = False\<rparr>" "disk_is chr cd d ?x []"
    using load_restartable [OF env r(1) restart(2,4)] by auto
  have "tracks chr ?x ?x" using tracks_refl [OF env(1)] stands_for_ok [OF env(1) r(1)] by simp
  then show ?case using h r(2) disk_is_stands [OF h(2)]
    by (intro exI [of _ ?x]) (simp add: recoverable_def healthy_def)
next
  case (failed_start w s io now accounts e d)
  then obtain r where r: "stands_for chr cd (wr_disk w) r" "last_time r \<le> MAX_TRAFFIC_RECORD_TIME"
    by (auto simp: recoverable_def)
  then have "stands_for chr cd d r \<or> stands_for chr cd d (retain_users (active_users accounts s) r)"
    using load_restartable [OF env r(1) failed_start(2,4)] by auto
  then show ?case using r(2) by (auto simp: recoverable_def)
qed


end
