(* ===== verification/TrafficGuarantees.thy ===== *)
theory TrafficGuarantees
  imports TrafficRecovery
begin

text \<open>
  The properties of traffic accounting, each over the definitions of the model: the reset
  schedule, quotas, the metered body, the group commit and its recovery.
\<close>

section \<open>Quotas and counters\<close>

lemma amount_usage_add [simp]:
  "amount (usage_add u d n) d' = (if d' = d then saturating_add (amount u d) n else amount u d')"
  by (cases d; cases d') (simp_all add: amount_def usage_add_def)

lemma amount_ZERO [simp]: "amount ZERO_USAGE d = 0"
  by (cases d) (simp_all add: amount_def ZERO_USAGE_def)

lemma check_quotas_Inr:
  "check_quotas d n qs = Inr () \<longleftrightarrow>
     (\<forall>(q, u) \<in> set qs. 0 < quota_limit q d \<longrightarrow> n \<le> quota_limit q d - amount u d)"
  by (induction d n qs rule: check_quotas.induct) (auto simp: Let_def not_less)

text \<open>The usage rows that a charge of a subject is checked against, after the charge.\<close>

lemma quotas_of_charged:
  "quotas_of (charged chr l r) s (rec_subject r)
     = map (\<lambda>(q, u). (q, usage_add u (rec_direction r) (rec_bytes r))) (quotas_of l s (rec_subject r))"
proof (cases "strip_prefix ''user:'' (rec_subject r)")
  case None
  then show ?thesis
    by (simp add: quotas_of_def charged_def charge_subject_def del: strip_prefix_Some_iff)
next
  case (Some uid)
  then have "rec_subject r \<noteq> ''guest''" by auto
  then show ?thesis using Some
    by (simp add: quotas_of_def charged_def charge_subject_def entry_add_def
        del: strip_prefix_Some_iff split: option.split)
qed

definition usage_le :: "usage \<Rightarrow> usage \<Rightarrow> bool" where
  "usage_le u v \<longleftrightarrow> used_upload u \<le> used_upload v \<and> used_download u \<le> used_download v"

text \<open>
  The counters are ordered: the users' total covers every user, and the overall total covers the
  guest and the users' total; they are 64-bit values.
\<close>

definition counters_ok :: "ledger \<Rightarrow> bool" where
  "counters_ok l \<longleftrightarrow>
     used_upload (led_total l) \<le> u64_max \<and> used_download (led_total l) \<le> u64_max
     \<and> usage_le (led_guest l) (led_total l) \<and> usage_le (led_users_total l) (led_total l)
     \<and> (\<forall>uid u. al_get (led_users l) uid = Some u \<longrightarrow> usage_le u (led_users_total l))"

lemma saturating_add_mono: "a \<le> b \<Longrightarrow> saturating_add a n \<le> saturating_add b n"
  by (auto simp: saturating_add_def)

lemma usage_le_add: "usage_le u v \<Longrightarrow> usage_le (usage_add u d n) (usage_add v d n)"
  by (cases d) (auto simp: usage_le_def usage_add_def saturating_add_mono)

lemma usage_le_grow:
  "usage_le u v \<Longrightarrow> used_upload v \<le> u64_max \<Longrightarrow> used_download v \<le> u64_max \<Longrightarrow> usage_le u (usage_add v d n)"
  using saturating_add_ge [of "used_upload v" n] saturating_add_ge [of "used_download v" n]
  by (cases d) (auto simp: usage_le_def usage_add_def)

lemma usage_le_refl [simp]: "usage_le u u"
  by (simp add: usage_le_def)

lemma usage_le_ZERO [simp]: "usage_le ZERO_USAGE u"
  by (simp add: usage_le_def ZERO_USAGE_def)

lemma usage_le_bound:
  "usage_le u v \<Longrightarrow> used_upload v \<le> u64_max \<and> used_download v \<le> u64_max \<Longrightarrow>
   used_upload u \<le> u64_max \<and> used_download u \<le> u64_max"
  by (auto simp: usage_le_def)

lemma usage_add_bound:
  "used_upload u \<le> u64_max \<and> used_download u \<le> u64_max \<Longrightarrow>
   used_upload (usage_add u d n) \<le> u64_max \<and> used_download (usage_add u d n) \<le> u64_max"
  by (cases d) (simp_all add: usage_add_def)

lemma counters_ok_reset: "counters_ok (reset_usage l)"
  by (simp add: counters_ok_def reset_usage_def al_get_def ZERO_USAGE_def usage_le_def)

lemma counters_ok_cong [simp]:
  "counters_ok (l\<lparr>next_reset := n\<rparr>) = counters_ok l" "counters_ok (l\<lparr>led_cycle := c\<rparr>) = counters_ok l"
  "counters_ok (l\<lparr>last_time := t\<rparr>) = counters_ok l" "counters_ok (l\<lparr>led_days := ds\<rparr>) = counters_ok l"
  "counters_ok (l\<lparr>seqno := i\<rparr>) = counters_ok l"
  by (simp_all add: counters_ok_def)

lemma counters_ok_advance: "advance chr l now c = Some l' \<Longrightarrow> counters_ok l \<Longrightarrow> counters_ok l'"
  using counters_ok_reset [of l]
  by (auto simp: advance_def Let_def split: if_splits bind_splits)

lemma al_get_retain_key: "al_get (al_retain (\<lambda>k _. P k) m) k = (if P k then al_get m k else None)"
  by (induction m) (auto simp: al_get_def al_retain_def)

lemma counters_ok_retain: "counters_ok l \<Longrightarrow> counters_ok (retain_users us l)"
  by (auto simp: counters_ok_def retain_users_def al_get_retain_key split: if_splits)

lemma counters_ok_charged:
  assumes "counters_ok l"
  shows "counters_ok (charged chr l r)"
proof -
  let ?add = "\<lambda>u. usage_add u (rec_direction r) (rec_bytes r)"
  have tot: "used_upload (led_total l) \<le> u64_max \<and> used_download (led_total l) \<le> u64_max"
    and guest: "usage_le (led_guest l) (led_total l)" and users: "usage_le (led_users_total l) (led_total l)"
    and each: "\<And>uid u. al_get (led_users l) uid = Some u \<Longrightarrow> usage_le u (led_users_total l)"
    using assms by (auto simp: counters_ok_def)
  have ut: "used_upload (led_users_total l) \<le> u64_max \<and> used_download (led_users_total l) \<le> u64_max"
    using usage_le_bound [OF users tot] .
  have "usage_le u (?add (led_users_total l))"
    if "al_get (entry_add uid' (rec_direction r) (rec_bytes r) (led_users l)) uid = Some u" for uid uid' u
  proof (cases "uid = uid'")
    case True
    then show ?thesis using that each [of uid'] usage_le_add
      by (auto simp: entry_add_def split: option.splits)
  next
    case False
    then show ?thesis using that each [of uid u] usage_le_grow ut by (simp add: entry_add_def)
  qed
  then show ?thesis
    using tot guest users each usage_add_bound [OF tot] usage_le_add usage_le_grow
    unfolding counters_ok_def charged_def charge_subject_def
    by (auto split: option.splits)
qed

lemma ledger_apply_charged:
  "ledger_apply chr l r = Some l' \<Longrightarrow> \<exists>a. advance chr l (rec_time r) (rec_cycle r) = Some a \<and> l' = charged chr a r"
  by (auto simp: ledger_apply_def charged_def from_timestamp_def Let_def split: if_splits bind_splits)

text \<open>What can happen to a ledger.\<close>

datatype ledger_op = Advance int reset_cycle | Apply traffic_record | Retain "str list"

fun run_ledger :: "chrono \<Rightarrow> ledger \<Rightarrow> ledger_op list \<Rightarrow> ledger option" where
  "run_ledger chr l [] = Some l"
| "run_ledger chr l (Advance now c # ops) = Option.bind (advance chr l now c) (\<lambda>l. run_ledger chr l ops)"
| "run_ledger chr l (Apply r # ops) = Option.bind (ledger_apply chr l r) (\<lambda>l. run_ledger chr l ops)"
| "run_ledger chr l (Retain us # ops) = run_ledger chr (retain_users us l) ops"

lemma run_ledger_counters: "run_ledger chr l ops = Some l' \<Longrightarrow> counters_ok l \<Longrightarrow> counters_ok l'"
proof (induction chr l ops rule: run_ledger.induct)
  case (3 chr l r ops)
  then obtain m where m: "ledger_apply chr l r = Some m" "run_ledger chr m ops = Some l'"
    by (auto split: bind_splits)
  then show ?case
    using 3 ledger_apply_charged [OF m(1)] counters_ok_advance counters_ok_charged by blast
qed (auto split: bind_splits dest: counters_ok_advance counters_ok_retain)


section \<open>Metered bodies\<close>

text \<open>The bytes a body delivers before it ends or fails.\<close>

fun body_data :: "(bool \<times> frame) list \<Rightarrow> str" where
  "body_data [] = []"
| "body_data ((_, Chunk c) # rest) = c @ body_data rest"
| "body_data ((_, Fault e) # rest) = []"

definition unread :: "ready_batch \<Rightarrow> str" where
  "unread b = (if rb_pending b = None then body_data (rb_input b) else [])"

lemma batch_loop_data:
  assumes "rb_pending b = None" "0 < k" "batch_loop k chunk n b = (n', b')"
  shows "concat (rb_ready b) @ chunk @ body_data (rb_input b) = concat (rb_ready b') @ unread b'
    \<and> n' + length (concat (rb_ready b)) = n + length (concat (rb_ready b'))
    \<and> length (concat (rb_ready b)) + length chunk \<le> length (concat (rb_ready b'))"
  using assms
proof (induction k chunk n b arbitrary: n' b' rule: batch_loop.induct)
  case (2 frames chunk n b)
  define m where "m = (if chunk = [] then n else n + length chunk)"
  define c where "c = (if chunk = [] then b else b\<lparr>rb_ready := rb_ready b @ [chunk]\<rparr>)"
  have c: "rb_pending c = None" "rb_input c = rb_input b" "concat (rb_ready c) = concat (rb_ready b) @ chunk"
      "m + length (concat (rb_ready b)) = n + length (concat (rb_ready c))"
    using 2(2) by (auto simp: c_def m_def)
  have eq: "batch_loop (Suc frames) chunk n b =
      (if BATCH_TARGET_BYTES \<le> m \<or> frames = 0 then (m, c)
       else case rb_input c of
              (True, Chunk next) # rest \<Rightarrow> batch_loop frames next m (c\<lparr>rb_input := rest\<rparr>)
            | (True, Fault e) # rest \<Rightarrow> (m, c\<lparr>rb_input := rest, rb_pending := Some e\<rparr>)
            | _ \<Rightarrow> (m, c))"
    unfolding c_def m_def by (simp only: batch_loop.simps Let_def)
  show ?case
  proof (cases "\<exists>next rest. rb_input c = (True, Chunk next) # rest \<and> \<not> (BATCH_TARGET_BYTES \<le> m \<or> frames = 0)")
    case True
    then obtain nxt rest where inp: "rb_input c = (True, Chunk nxt) # rest" "\<not> (BATCH_TARGET_BYTES \<le> m \<or> frames = 0)"
      by blast
    let ?c = "c\<lparr>rb_input := rest\<rparr>"
    have run: "batch_loop frames nxt m ?c = (n', b')" using 2(4) eq inp by simp
    have ih: "concat (rb_ready ?c) @ nxt @ body_data (rb_input ?c) = concat (rb_ready b') @ unread b'
      \<and> n' + length (concat (rb_ready ?c)) = m + length (concat (rb_ready b'))
      \<and> length (concat (rb_ready ?c)) + length nxt \<le> length (concat (rb_ready b'))"
      using inp(2) c(1) run by (intro 2(1) [OF m_def c_def _ inp(1) refl refl refl]) simp_all
    have "body_data (rb_input b) = nxt @ body_data rest" using inp(1) c(2) by (metis body_data.simps(2))
    then show ?thesis using ih c(3,4) by simp
  next
    case False
    then have "(n', b') = (m, c) \<or> (\<exists>e rest. rb_input c = (True, Fault e) # rest \<and>
        (n', b') = (m, c\<lparr>rb_input := rest, rb_pending := Some e\<rparr>))"
      using 2(4) eq by (auto split: list.splits bool.splits frame.splits if_splits)
    then show ?thesis
    proof
      assume "(n', b') = (m, c)"
      then show ?thesis using c by (simp add: unread_def)
    next
      assume "\<exists>e rest. rb_input c = (True, Fault e) # rest \<and>
        (n', b') = (m, c\<lparr>rb_input := rest, rb_pending := Some e\<rparr>)"
      then obtain e rest where "rb_input c = (True, Fault e) # rest" "n' = m"
          "b' = c\<lparr>rb_input := rest, rb_pending := Some e\<rparr>" by blast
      moreover from this have "body_data (rb_input b) = []" using c(2) by (metis body_data.simps(3))
      ultimately show ?thesis using c by (simp add: unread_def)
    qed
  qed
qed simp

lemma first_chunk_data:
  "first_chunk inp = (res, rest) \<Longrightarrow>
   case res of
     Inr (Some c) \<Rightarrow> c \<noteq> [] \<and> body_data inp = c @ body_data rest
   | Inr None \<Rightarrow> body_data inp = [] \<and> rest = []
   | Inl e \<Rightarrow> body_data inp = []"
  by (induction inp rule: first_chunk.induct) (auto split: if_splits sum.splits option.splits)

lemma collect_batch_data:
  assumes "collect_batch b = (res, b')" "rb_ready b = []"
  shows "case res of
      Inr n \<Rightarrow> unread b = concat (rb_ready b') @ unread b' \<and> n = length (concat (rb_ready b'))
                \<and> (n = 0 \<longrightarrow> unread b = []) \<and> (0 < n \<longrightarrow> rb_ready b' \<noteq> [])
    | Inl e \<Rightarrow> unread b = []"
proof (cases "rb_pending b")
  case (Some e)
  then show ?thesis using assms by (auto simp: collect_batch_def unread_def)
next
  case None
  obtain r rest where fc: "first_chunk (rb_input b) = (r, rest)" by fastforce
  note data = first_chunk_data [OF fc]
  show ?thesis
  proof (cases "\<exists>c. r = Inr (Some c)")
    case True
    then obtain c where c: "r = Inr (Some c)" by blast
    obtain n d where loop: "batch_loop BATCH_FRAMES c 0 (b\<lparr>rb_input := rest\<rparr>) = (n, d)" by fastforce
    have res: "res = Inr n" "b' = d" using assms(1) None fc c loop by (auto simp: collect_batch_def)
    have "0 < BATCH_FRAMES" by (simp add: BATCH_FRAMES_def)
    from batch_loop_data [OF _ this loop] None data c assms(2)
    have d: "body_data (rb_input b) = concat (rb_ready d) @ unread d" "n = length (concat (rb_ready d))"
        "length c \<le> n" "c \<noteq> []"
      by auto
    moreover have "0 < n" using d(3,4) by (cases c) auto
    moreover from this d(2) have "rb_ready d \<noteq> []" by auto
    ultimately show ?thesis using None by (auto simp: res unread_def [of b])
  next
    case False
    then show ?thesis using assms None fc data
      by (auto simp: collect_batch_def unread_def split: sum.splits option.splits)
  qed
qed

text \<open>A run of the stream: the answers of the writer to the charges of its steps, the chunks it
  releases and the bytes it charged.\<close>

fun meter_run :: "(nat \<Rightarrow> unit app_result) list \<Rightarrow> ready_batch \<Rightarrow> str list \<times> nat \<times> meter_out" where
  "meter_run [] b = ([], 0, End)"
| "meter_run (charge # charges) b =
     (let ((out, _, n), b') = meter_step charge b
      in case out of
           Emit c \<Rightarrow> let (cs, k, final) = meter_run charges b' in (c # cs, n + k, final)
         | _ \<Rightarrow> ([], n, out))"

lemma meter_step_data:
  assumes "meter_step charge b = ((out, err, n), b')"
  shows "case out of
      Emit c \<Rightarrow> concat (rb_ready b) @ unread b = c @ concat (rb_ready b') @ unread b'
                \<and> n + length (concat (rb_ready b)) = length c + length (concat (rb_ready b'))
    | End \<Rightarrow> rb_ready b = [] \<and> unread b = []
    | Stop _ \<Rightarrow> True"
proof (cases "rb_ready b")
  case (Cons c cs)
  then show ?thesis using assms by (auto simp: meter_step_def batch_pop_def unread_def)
next
  case Nil
  obtain res d where collect: "collect_batch b = (res, d)" by fastforce
  note data = collect_batch_data [OF collect Nil]
  show ?thesis using assms Nil collect data
    by (auto simp: meter_step_def batch_pop_def unread_def split: sum.splits list.splits if_splits)
qed

lemma meter_run_bounds:
  "meter_run charges b = (cs, k, final) \<Longrightarrow>
   prefix (concat cs) (concat (rb_ready b) @ unread b) \<and> length (concat cs) \<le> length (concat (rb_ready b)) + k"
proof (induction charges b arbitrary: cs k final rule: meter_run.induct)
  case (2 charge charges b)
  obtain out err n b' where step: "meter_step charge b = ((out, err, n), b')"
    by (metis prod_cases3 surj_pair)
  note data = meter_step_data [OF step]
  show ?case
  proof (cases out)
    case (Emit c)
    obtain cs' k' final' where run: "meter_run charges b' = (cs', k', final')" by (metis prod_cases3)
    have eq: "cs = c # cs'" "k = n + k'" using 2(2) step Emit run by auto
    have ih: "prefix (concat cs') (concat (rb_ready b') @ unread b')"
        "length (concat cs') \<le> length (concat (rb_ready b')) + k'"
      using 2(1) [OF step [symmetric] refl refl refl Emit run] by auto
    then show ?thesis using data Emit eq by auto
  qed (use 2(2) step in auto)
qed simp


section \<open>Sample parameters\<close>

text \<open>A calendar whose months all have 28 days, and a codec that knows a few values.\<close>

definition sample_chrono :: chrono where
  "sample_chrono =
     \<lparr>in_range = (\<lambda>_. True), year = (\<lambda>t. t div 2419200 div 12), month = (\<lambda>t. t div 2419200 mod 12),
      checked_add_months = (\<lambda>t n. Some (t + int n * 2419200)),
      format_day = (\<lambda>d. show_nat (nat d)), parse_day = (\<lambda>s. map_option int (parse_u64 s)),
      first_of_month = (\<lambda>d. d - d mod 28)\<rparr>"

lemma month_index_sample: "month_index sample_chrono t = t div 2419200"
  by (simp add: month_index_def sample_chrono_def mult.commute)

lemma sample_chrono_ok: "chrono_ok sample_chrono"
proof -
  have "t div 2419200 + 12 \<le> (t + 31622400) div 2419200" for t :: int
  proof -
    have "(t + 12 * 2419200) div 2419200 \<le> (t + 31622400) div 2419200"
      by (intro zdiv_mono1) simp_all
    then show ?thesis by simp
  qed
  moreover have "(t + int n * 2419200) div 2419200 = t div 2419200 + int n" for t :: int and n
    by simp
  moreover have "t div 2419200 \<le> u div 2419200" if "t \<le> u" for t u :: int
    using that by (intro zdiv_mono1) simp_all
  ultimately show ?thesis
    unfolding chrono_ok_def month_index_sample by (simp add: sample_chrono_def)
qed

definition sample_settings :: traffic_settings where
  "sample_settings = default_settings\<lparr>set_guest := \<lparr>quota_enabled = True, quota_upload = 100, quota_download = 50\<rparr>\<rparr>"

definition sample_ledger :: ledger where
  "sample_ledger =
     \<lparr>version = 1, seqno = 0, next_reset = the (cycle_next sample_chrono default_cycle 1750000000),
      led_cycle = default_cycle, last_time = 1750000000, led_total = ZERO_USAGE, led_guest = ZERO_USAGE,
      led_users_total = ZERO_USAGE, led_users = [], led_days = []\<rparr>"

definition sample_request :: charge_request where
  "sample_request = \<lparr>req_subject = ''guest'', req_direction = Upload, req_bytes = 40\<rparr>"

definition sample_record :: traffic_record where
  "sample_record = \<lparr>rec_seq = 1, rec_time = 1750000001, rec_subject = ''guest'', rec_direction = Upload,
     rec_bytes = 40, rec_cycle = default_cycle\<rparr>"

definition early_record :: traffic_record where
  "early_record = sample_record\<lparr>rec_time := 1000, rec_subject := ''admin''\<rparr>"

definition early_ledger :: ledger where
  "early_ledger = sample_ledger\<lparr>last_time := 0, next_reset := the (cycle_next sample_chrono default_cycle 0)\<rparr>"

definition sample_codec :: codec where
  "sample_codec =
     \<lparr>enc_record = (\<lambda>r. if r = sample_record then Some ''r'' else if r = early_record then Some ''e'' else None),
      dec_record = (\<lambda>s. if s = ''r'' @ [nl] then Some sample_record
                         else if s = ''e'' @ [nl] then Some early_record else None),
      enc_ledger = (\<lambda>l. if l = sample_ledger then Some ''a'' else if l = early_ledger then Some ''b'' else None),
      dec_ledger = (\<lambda>s. if s = ''a'' then Some sample_ledger else if s = ''b'' then Some early_ledger else None)\<rparr>"

lemma early_record_differs: "early_record \<noteq> sample_record" "early_ledger \<noteq> sample_ledger"
  using ledger.select_convs(5) [of 1 0]
  by (auto simp: early_record_def sample_record_def early_ledger_def sample_ledger_def)

lemma sample_codec_ok: "codec_ok sample_codec"
  using early_record_differs by (auto simp: codec_ok_def sample_codec_def nl_def)

lemma default_cycle_valid: "valid_cycle default_cycle"
  by (simp add: valid_cycle_def default_cycle_def)

lemma sample_settings_valid: "is_ok (settings_validate sample_settings)"
  by (simp add: sample_settings_def settings_validate_def default_settings_def default_quota_def
      quota_validate_def default_cycle_def ensure_def)

lemma sample_time: "valid_time 1750000000" "clock_ok 1750000000" "valid_time 1750000001" "clock_ok 1750000001"
  by (simp_all add: valid_time_def clock_ok_def MIN_TRAFFIC_RECORD_TIME_def MAX_TRAFFIC_RECORD_TIME_def)

lemma sample_ledger_ok: "ledger_ok sample_chrono sample_ledger"
  using cycle_next_later [OF sample_chrono_ok default_cycle_valid sample_time(1)] sample_time(1)
  by (auto simp: ledger_ok_def sample_ledger_def default_cycle_valid)

section \<open>Properties\<close>

text \<open>
  C33: With a validated schedule and a clock within some two hundred thousand years, the next
  reset is always found, the month loop included: it is the first boundary of the schedule after
  the given time, strictly later than it, and every earlier boundary has passed.
\<close>

theorem next_reset_first_boundary:
  assumes "chrono_ok chr" "is_ok (settings_validate s)" "valid_time now"
  shows "\<exists>k b. cycle_next chr (set_cycle s) now = Some b \<and> now < b \<and> boundary chr (set_cycle s) k = Some b
      \<and> (\<forall>j < k. \<forall>b'. boundary chr (set_cycle s) j = Some b' \<longrightarrow> b' \<le> now)"
  using cycle_next_spec [OF assms(1) settings_validate_cycle [OF assms(2)] assms(3)]
  unfolding is_next_def by blast

theorem next_reset_first_boundary_witness:
  "\<exists>b. cycle_next sample_chrono default_cycle 1750000000 = Some b \<and> 1750000000 < b"
  using next_reset_first_boundary [OF sample_chrono_ok sample_settings_valid sample_time(1)]
  by (auto simp: sample_settings_def default_settings_def)

text \<open>
  C6: A charge that is granted keeps every quota it was checked against: afterwards no counter
  of the subject, of its group or of the whole service exceeds a limit that is set. A charge that
  is refused leaves no record and only moves the ledger to the current time.
\<close>

theorem charge_within_quota:
  assumes "chrono_ok chr" "ledger_ok chr m" "is_ok (settings_validate s)" "clock_ok now"
    "last_time m \<le> MAX_TRAFFIC_RECORD_TIME" "req_subject q \<noteq> ''admin''" "0 < req_bytes q"
    "settle chr cd s m [(now, q)] = Some (m', out, n, [reply])"
  shows "if reply = Pending (Inr ())
    then n = 1 \<and> (\<forall>(quota, u) \<in> set (quotas_of m' s (req_subject q)).
           0 < quota_limit quota (req_direction q) \<longrightarrow> amount u (req_direction q) \<le> quota_limit quota (req_direction q))
    else n = 0 \<and> out = [] \<and> m' = advanced chr m now (set_cycle s)"
proof -
  define m1 where "m1 = advanced chr m now (set_cycle s)"
  let ?rec = "record_of m1 (set_cycle s) q" and ?d = "req_direction q"
  have c: "valid_cycle (set_cycle s)" using settings_validate_cycle [OF assms(3)] .
  have m1: "advance chr m now (set_cycle s) = Some m1" "ledger_ok chr m1"
    using advance_Some [OF assms(1,2) c clock_ok_valid [OF assms(4)]] by (simp_all add: m1_def)
  have lt: "last_time m1 = max now (last_time m)" by (simp add: m1_def)
  have rec: "record_ok ?rec"
    using c assms(4,5) lt by (auto simp: record_ok_def record_of_def clock_ok_def)
  have "advanced chr m1 (last_time m1) (set_cycle s) = m1"
    using advanced_self [OF assms(1) m1(2), of "last_time m1"] by (simp add: m1_def)
  then have applied: "ledger_apply chr m1 ?rec = Some (charged chr m1 ?rec)"
    using ledger_apply_Some [OF assms(1) m1(2) rec] by (simp add: record_of_def)
  show ?thesis
  proof (cases "reply = Pending (Inr ())")
    case True
    then have grant: "check_traffic m1 s (req_subject q) ?d (req_bytes q) = Inr ()"
        "m' = charged chr m1 ?rec" "n = 1"
      using assms(8) m1(1) applied
      by (auto simp: Let_def m1_def [symmetric] split: sum.splits option.splits bind_splits)
    have checked: "\<forall>(quota, u) \<in> set (quotas_of m1 s (req_subject q)).
        0 < quota_limit quota ?d \<longrightarrow> req_bytes q \<le> quota_limit quota ?d - amount u ?d"
      using grant(1) assms(6) by (simp add: check_traffic_def check_quotas_Inr)
    have "quotas_of m' s (req_subject q)
        = map (\<lambda>(quota, u). (quota, usage_add u ?d (req_bytes q))) (quotas_of m1 s (req_subject q))"
      using quotas_of_charged [of chr m1 ?rec s] grant(2) by (simp add: record_of_def)
    then show ?thesis
      using checked assms(7) True grant(3) by (fastforce simp: saturating_add_def)
  next
    case False
    then show ?thesis using assms(8) m1(1) applied
      by (auto simp: Let_def m1_def split: sum.splits option.splits bind_splits)
  qed
qed


lemma sample_granted:
  "\<exists>m'. settle sample_chrono sample_codec sample_settings sample_ledger [(1750000001, sample_request)]
     = Some (m', ''r'' @ [nl], 1, [Pending (Inr ())])"
proof -
  define m1 where "m1 = advanced sample_chrono sample_ledger 1750000001 default_cycle"
  have m1: "advance sample_chrono sample_ledger 1750000001 default_cycle = Some m1" "ledger_ok sample_chrono m1"
    using advance_Some [OF sample_chrono_ok sample_ledger_ok default_cycle_valid sample_time(3)]
    by (simp_all add: m1_def)
  have rec: "record_of m1 default_cycle sample_request = sample_record"
    by (simp add: record_of_def m1_def sample_record_def sample_request_def sample_ledger_def)
  have "check_traffic m1 sample_settings ''guest'' Upload 40 = Inr ()"
    by (simp add: check_traffic_def check_quotas_Inr quotas_of_def sample_settings_def default_settings_def
        default_quota_def quota_limit_def m1_def advanced_def reset_usage_def Let_def sample_ledger_def)
  moreover have "record_ok sample_record"
    by (simp add: record_ok_def sample_record_def default_cycle_valid MIN_TRAFFIC_RECORD_TIME_def
        MAX_TRAFFIC_RECORD_TIME_def)
  then have "\<exists>l. ledger_apply sample_chrono m1 sample_record = Some l"
    using ledger_apply_Some [OF sample_chrono_ok m1(2)] by blast
  moreover have "set_cycle sample_settings = default_cycle"
    by (simp add: sample_settings_def default_settings_def)
  moreover have "enc_record sample_codec sample_record = Some ''r''" by (simp add: sample_codec_def)
  ultimately show ?thesis
    using m1(1) rec by (auto simp: Let_def sample_request_def)
qed

theorem charge_within_quota_witness:
  "\<exists>m' out n. settle sample_chrono sample_codec sample_settings sample_ledger [(1750000001, sample_request)]
       = Some (m', out, n, [Pending (Inr ())])
     \<and> n = 1 \<and> (\<forall>(quota, u) \<in> set (quotas_of m' sample_settings ''guest'').
           0 < quota_limit quota Upload \<longrightarrow> amount u Upload \<le> quota_limit quota Upload)"
proof -
  obtain m' where m': "settle sample_chrono sample_codec sample_settings sample_ledger
      [(1750000001, sample_request)] = Some (m', ''r'' @ [nl], 1, [Pending (Inr ())])"
    using sample_granted by blast
  have "last_time sample_ledger \<le> MAX_TRAFFIC_RECORD_TIME"
    by (simp add: sample_ledger_def MAX_TRAFFIC_RECORD_TIME_def)
  then show ?thesis
    using charge_within_quota [OF sample_chrono_ok sample_ledger_ok sample_settings_valid sample_time(4) _ _ _ m'] m'
    by (simp add: sample_request_def)
qed

text \<open>
  Whatever sequence of clock advances, charges and clean-ups a new ledger goes through, its
  counters stay 64-bit values and stay ordered: no user exceeds the users' total, and neither the
  guest nor the users' total exceeds the overall total.
\<close>

lemma ledger_counters_ordered:
  assumes "ledger_new chr now c = Some l" "run_ledger chr l ops = Some l'"
  shows "counters_ok l'"
proof -
  have "counters_ok l"
    using assms(1) by (auto simp: ledger_new_def counters_ok_def ZERO_USAGE_def usage_le_def al_get_def
        split: bind_splits)
  then show ?thesis using run_ledger_counters [OF assms(2)] by blast
qed

lemma ledger_counters_ordered_witness:
  "\<exists>l. ledger_new sample_chrono 0 default_cycle = Some l \<and> counters_ok (retain_users [''ann''] l)"
proof -
  have "ledger_new sample_chrono 0 default_cycle
      = Some \<lparr>version = 1, seqno = 0, next_reset = 1704067200, led_cycle = default_cycle, last_time = 0,
             led_total = ZERO_USAGE, led_guest = ZERO_USAGE, led_users_total = ZERO_USAGE,
             led_users = [], led_days = []\<rparr>" (is "_ = Some ?l")
    by (simp add: ledger_new_def cycle_next_def default_cycle_def)
  then show ?thesis using ledger_counters_ordered [of sample_chrono 0 default_cycle ?l "[Retain [''ann'']]"] by auto
qed

text \<open>
  C34: A metered body releases the bytes of its source unchanged and in order, and never more
  bytes than it has charged, whatever frames are ready and whatever charges are granted.
\<close>

theorem metered_body_charged_first:
  assumes "meter_run charges (ready_batch_new body) = (chunks, charged_bytes, final)"
  shows "prefix (concat chunks) (body_data body) \<and> length (concat chunks) \<le> charged_bytes"
  using meter_run_bounds [OF assms] by (simp add: ready_batch_new_def unread_def)

theorem metered_body_charged_first_witness:
  "meter_run [\<lambda>_. Inr (), \<lambda>_. Inr (), \<lambda>_. Inl unavailable]
      (ready_batch_new [(False, Chunk ''ab''), (True, Chunk ''c''), (False, Chunk ''d'')])
     = ([''ab'', ''c''], 3, Stop ''Traffic accounting stopped this transfer'')
   \<and> prefix (concat [''ab'', ''c'']) ''abcd'' \<and> length (concat [''ab'', ''c'']) \<le> 3"
proof -
  note batch_loop_numeral = batch_loop.simps(2) [of "pred_numeral v" for v, folded numeral_eq_Suc]
  have run: "meter_run [\<lambda>_. Inr (), \<lambda>_. Inr (), \<lambda>_. Inl unavailable]
      (ready_batch_new [(False, Chunk ''ab''), (True, Chunk ''c''), (False, Chunk ''d'')])
     = ([''ab'', ''c''], 3, Stop ''Traffic accounting stopped this transfer'')"
    by (simp add: meter_step_def batch_pop_def collect_batch_def ready_batch_new_def BATCH_FRAMES_def
        BATCH_TARGET_BYTES_def batch_loop_numeral)
  show ?thesis using run metered_body_charged_first [OF run] by simp
qed


text \<open>
  C2: A commit whose writes are interrupted or fail at any point loses no acknowledged charge
  and invents none. The commit returns; the ledger that the disk stands for afterwards is the one
  before with new records applied to it one after the other, records of some of the requests in
  order. If the writer is still in service, these are exactly the acknowledged requests and the
  memory agrees with the disk; if it is not, nothing was acknowledged. A compaction may in addition
  catch up with the latest clock reading of the group and drop the rows of removed accounts. A
  restart on that disk reads exactly this ledger, if the files are within their size limits. This
  is for clock readings between 2000 and 2200, and for a group that finds the reset schedule it is
  charged under unchanged, or whose clock readings fall into one second.
\<close>

theorem commit_group_durable:
  assumes "chrono_ok chr" "codec_ok cd" "is_ok (settings_validate s)" "healthy chr cd w r"
    "\<forall>(now, _) \<in> set qs. clock_ok now" "schedule_kept chr s w qs"
  shows "\<exists>w' replies. commit_group chr cd accounts s io lost w qs = Some (w', replies)
    \<and> length replies = length qs
    \<and> (\<exists>recs x gs. contains chr (active_users accounts s) (latest (rt_ledger (wr_runtime w)) qs) r recs x
        \<and> subseq gs (map snd qs) \<and> list_all2 record_for gs recs
        \<and> (if rt_failed (wr_runtime w') then acknowledged qs replies = []
           else gs = acknowledged qs replies \<and> healthy chr cd w' x)
        \<and> (\<forall>b. fits (wr_disk w') \<and> enc_ledger cd (retain_users (active_users accounts s) x) = Some b \<longrightarrow>
             load_traffic chr cd LoadWrites restart_time accounts s (wr_disk w')
             = Some (Inr \<lparr>rt_ledger = retain_users (active_users accounts s) x, rt_records = 0, rt_failed = False\<rparr>,
                     \<lparr>disk_snapshot = Some b, disk_journal = Some []\<rparr>)))"
proof -
  have clock: "clock_ok now" if "now \<in> fst ` set qs" for now using assms(5) that by auto
  obtain w' replies where run: "commit_group chr cd accounts s io lost w qs = Some (w', replies)"
      and out: "group_outcome chr cd (active_users accounts s) (latest (rt_ledger (wr_runtime w)) qs) r qs w' replies"
    using commit_group_outcome [OF assms(1,2) settings_validate_cycle [OF assms(3)] assms(4) clock assms(6)] by blast
  then obtain recs x gs where x: "stands_for chr cd (wr_disk w') x" "contains chr (active_users accounts s) (latest (rt_ledger (wr_runtime w)) qs) r recs x"
      "subseq gs (map snd qs)" "list_all2 record_for gs recs"
      "if rt_failed (wr_runtime w') then acknowledged qs replies = []
       else gs = acknowledged qs replies \<and> healthy chr cd w' x"
    unfolding group_outcome_def by blast
  have "length replies = length qs" using out by (simp add: group_outcome_def)
  then show ?thesis
    using run x load_succeeds [OF assms(2) x(1)]
    by (intro exI [of _ w'] exI [of _ replies] conjI exI [of _ recs] exI [of _ x] exI [of _ gs]) simp_all
qed

definition sample_writer :: writer where
  "sample_writer =
     \<lparr>wr_runtime = \<lparr>rt_ledger = sample_ledger, rt_records = 0, rt_failed = False\<rparr>,
      wr_disk = \<lparr>disk_snapshot = Some ''a'', disk_journal = Some []\<rparr>, wr_open = True\<rparr>"

lemma sample_writer_healthy: "healthy sample_chrono sample_codec sample_writer sample_ledger"
proof -
  have "disk_is sample_chrono sample_codec (wr_disk sample_writer) sample_ledger []"
    unfolding disk_is_def using sample_ledger_ok
    by (intro exI [of _ "''a''"] exI [of _ sample_ledger] exI [of _ "[]"])
      (simp add: sample_writer_def sample_codec_def)
  then show ?thesis
    using tracks_refl [OF sample_chrono_ok sample_ledger_ok]
    by (simp add: healthy_def sample_writer_def sample_ledger_def MAX_TRAFFIC_RECORD_TIME_def)
qed

theorem commit_group_durable_witness:
  "\<exists>w' replies. commit_group sample_chrono sample_codec [] sample_settings (WriteFailed 1) False sample_writer
      [(1750000001, sample_request)] = Some (w', replies) \<and> length replies = 1"
proof -
  let ?qs = "[(1750000001 :: int, sample_request)]"
  have "\<forall>(now, _) \<in> set ?qs. clock_ok now" "schedule_kept sample_chrono sample_settings sample_writer ?qs"
    using sample_time(4) by (simp_all add: schedule_kept_def)
  from commit_group_durable [OF sample_chrono_ok sample_codec_ok sample_settings_valid sample_writer_healthy this,
      of "[]" "WriteFailed 1" False 0]
  obtain w' replies where "commit_group sample_chrono sample_codec [] sample_settings (WriteFailed 1) False
      sample_writer ?qs = Some (w', replies)" "length replies = length ?qs" by blast
  then show ?thesis by (intro exI [of _ w'] exI [of _ replies]) simp
qed



lemma retain_sample [simp]: "retain_users us sample_ledger = sample_ledger"
  by (simp add: retain_users_def sample_ledger_def al_retain_def)



text \<open>A record outside the range that a start-up accepts stops the start-up, whatever is before it.\<close>

lemma odd_record_refused:
  assumes "codec_ok cd" "disk_is chr cd d r []" "enc_record cd rec = Some b"
    "rec_seq rec = seqno r + 1" "valid_cycle (rec_cycle rec)" "\<not> clock_ok (rec_time rec)"
    and d': "d' = d\<lparr>disk_journal := Some (journal_of d @ b @ [nl])\<rparr>" and "fits d'"
  shows "\<exists>n. load_traffic chr cd io now accounts s d' = Some (Inl (''Traffic journal: invalid time at record '' @ show_nat n), d')"
proof -
  obtain snap l rs bs where h: "disk_snapshot d = Some snap" "dec_ledger cd snap = Some l" "ledger_ok chr l"
      "disk_journal d = Some (journal_text bs)" "list_all2 (encodes cd) rs bs" "replay_records chr l rs = Some r"
    using assms(2) unfolding disk_is_def by auto
  have line: "dec_record cd (b @ [nl]) = Some rec" "nl \<notin> set b" using assms(1,3) by (auto simp: codec_ok_def)
  have whole: "journal_of d @ b @ [nl] = journal_text (bs @ [b])" using h(4) by (simp add: journal_of_def journal_text_def)
  obtain n where "replay_lines chr cd l 0 0 (map (\<lambda>b. b @ [nl]) bs) = Some (Inr (r, n))"
    using replay_lines_records [OF assms(1) h(5,6)] by blast
  then have "replay_lines chr cd l 0 0 (map (\<lambda>b. b @ [nl]) (bs @ [b])) = replay_lines chr cd r (length bs) n [b @ [nl]]"
    using replay_lines_append [of chr cd l 0 0 "map (\<lambda>b. b @ [nl]) bs" r n] by simp
  also have "\<dots> = Some (Inl (''Traffic journal: invalid time at record '' @ show_nat (length bs + 1)))" (is "_ = Some (Inl ?e)")
    using line(1) assms(4-6) by (simp add: cycle_validate_iff clock_ok_def del: show_nat.simps)
  finally have stop: "replay_lines chr cd l 0 0 (map (\<lambda>b. b @ [nl]) (bs @ [b])) = Some (Inl ?e)" .
  have lines: "split_inclusive (journal_text (bs @ [b])) = map (\<lambda>b. b @ [nl]) (bs @ [b])"
    using encodes_lines [OF assms(1) h(5)] line(2) by (intro split_inclusive_text) auto
  have complete: "complete_len (journal_text (bs @ [b])) = length (journal_text (bs @ [b]))"
    using complete_len_text [of "[]" "bs @ [b]"] by simp
  have "replay_complete_records chr cd l (journal_text (bs @ [b])) = Some (Inl ?e)"
    unfolding replay_complete_records_def Let_def complete take_all [OF order_refl] lines stop by simp
  moreover have "read_snapshot cd snap = Inr l"
    using h(1-3) assms(8)
    by (simp add: d' fits_def read_snapshot_def read_bounded_def cycle_validate_iff ledger_ok_def ok_or_def ensure_def)
  ultimately show ?thesis
    using h(1) whole assms(8)
    by (auto simp: d' fits_def journal_of_def load_traffic_def read_bounded_def Let_def simp del: show_nat.simps)
qed

text \<open>
  C35: The writer does not check its clock against the range that a start-up accepts. When the
  later of the clock and the time the ledger has reached is before the year 2000 or after 2200, a
  granted charge that is appended without a compaction is written and acknowledged, and every later
  start-up refuses the whole journal because of it.
\<close>

theorem odd_clock_blocks_restart:
  assumes "chrono_ok chr" "codec_ok cd" "is_ok (settings_validate s)"
    "\<not> rt_failed (wr_runtime w)" "rt_ledger (wr_runtime w) = l" "tracks chr r l" "disk_is chr cd (wr_disk w) r []"
    "valid_time now" "\<not> clock_ok (max now (last_time l))"
    "check_traffic (advanced chr l now (set_cycle s)) s (req_subject q) (req_direction q) (req_bytes q) = Inr ()"
    "enc_record cd (record_of (advanced chr l now (set_cycle s)) (set_cycle s) q) = Some b"
    "rt_records (wr_runtime w) + 1 < COMPACTION_RECORDS"
    "fits ((wr_disk w)\<lparr>disk_journal := Some (journal_of (wr_disk w) @ b @ [nl])\<rparr>)"
  shows "\<exists>w' n. commit_group chr cd accounts s CommitWrites False w [(now, q)] = Some (w', [Inr ()])
    \<and> load_traffic chr cd io restart_time accounts' s' (wr_disk w')
        = Some (Inl (''Traffic journal: invalid time at record '' @ show_nat n), wr_disk w')"
proof -
  define m where "m = advanced chr l now (set_cycle s)"
  let ?rec = "record_of m (set_cycle s) q"
  have c: "valid_cycle (set_cycle s)" using settings_validate_cycle [OF assms(3)] .
  have m: "advance chr l now (set_cycle s) = Some m" "ledger_ok chr m"
    using advance_Some [OF assms(1) tracks_ok [OF assms(1,6)] c assms(8)] by (simp_all add: m_def)
  have self: "advance chr m (last_time m) (set_cycle s) = Some m"
    using advance_Some [OF assms(1) m(2) c, of "last_time m"] m(2)
      advanced_self [OF assms(1) m(2), of "last_time m"] by (simp add: m_def ledger_ok_def)
  have "\<bar>last_time m + offset_minutes (set_cycle s) * 60\<bar> \<le> 8000000000000"
    using c m(2) by (auto simp: valid_cycle_def ledger_ok_def valid_time_def)
  then have "in_range chr (last_time m + offset_minutes (set_cycle s) * 60)"
    by (rule chrono_in_range [OF assms(1)])
  then obtain x where x: "ledger_apply chr m ?rec = Some x"
    using self by (simp add: ledger_apply_def from_timestamp_def record_of_def Let_def)
  have enc: "enc_record cd ?rec = Some b" using assms(11) by (simp add: m_def)
  have settle: "settle chr cd s l [(now, q)] = Some (x, b @ [nl], 1, [Pending (Inr ())])"
    using m(1) x enc assms(10) [folded m_def] by (simp add: Let_def)
  define d where "d = (wr_disk w)\<lparr>disk_journal := Some (journal_of (wr_disk w) @ b @ [nl])\<rparr>"
  have "\<exists>w'. commit_group chr cd accounts s CommitWrites False w [(now, q)] = Some (w', [Inr ()]) \<and> wr_disk w' = d"
    using assms(4,5,12) settle by (simp add: commit_group_def Let_def write_group_def d_def)
  moreover have "rec_seq ?rec = seqno r + 1" "rec_time ?rec = max now (last_time l)" "rec_cycle ?rec = set_cycle s"
    using assms(6) by (simp_all add: record_of_def m_def)
  then have "\<exists>n. load_traffic chr cd io restart_time accounts' s' d
      = Some (Inl (''Traffic journal: invalid time at record '' @ show_nat n), d)"
    using c assms(9,13) by (intro odd_record_refused [OF assms(2,7) enc _ _ _ d_def]) (simp_all add: d_def)
  ultimately show ?thesis by blast
qed

theorem odd_clock_blocks_restart_witness:
  "\<exists>w' n. commit_group sample_chrono sample_codec
        [] sample_settings CommitWrites False
        \<lparr>wr_runtime = \<lparr>rt_ledger = early_ledger, rt_records = 0, rt_failed = False\<rparr>,
         wr_disk = \<lparr>disk_snapshot = Some ''b'', disk_journal = Some []\<rparr>, wr_open = True\<rparr>
        [(1000, sample_request\<lparr>req_subject := ''admin''\<rparr>)] = Some (w', [Inr ()])
    \<and> load_traffic sample_chrono sample_codec
        LoadWrites 1750000000 [] sample_settings (wr_disk w')
        = Some (Inl (''Traffic journal: invalid time at record '' @ show_nat n), wr_disk w')"
proof -
  let ?d = "\<lparr>disk_snapshot = Some ''b'', disk_journal = Some []\<rparr>"
  have "\<exists>b. cycle_next sample_chrono default_cycle 0 = Some b"
    using cycle_next_later [OF sample_chrono_ok default_cycle_valid, of 0] by (auto simp: valid_time_def)
  then have ok: "ledger_ok sample_chrono early_ledger"
    using default_cycle_valid
    by (auto simp: ledger_ok_def early_ledger_def sample_ledger_def valid_time_def)
  then have disk: "disk_is sample_chrono sample_codec ?d early_ledger []"
    unfolding disk_is_def using early_record_differs
    by (intro exI [of _ "''b''"] exI [of _ early_ledger] exI [of _ "[]"]) (simp add: sample_codec_def)
  show ?thesis
    using odd_clock_blocks_restart [OF sample_chrono_ok sample_codec_ok sample_settings_valid _ _ tracks_refl [OF sample_chrono_ok ok],
        of "\<lparr>wr_runtime = \<lparr>rt_ledger = early_ledger, rt_records = 0, rt_failed = False\<rparr>, wr_disk = ?d, wr_open = True\<rparr>" 1000
        "sample_request\<lparr>req_subject := ''admin''\<rparr>" "''e''" "[]" LoadWrites 1750000000 "[]" sample_settings]
      early_record_differs disk
    by (simp add: valid_time_def clock_ok_def MIN_TRAFFIC_RECORD_TIME_def COMPACTION_RECORDS_def fits_def journal_of_def
        MAX_TRAFFIC_SNAPSHOT_BYTES_def MAX_TRAFFIC_JOURNAL_BYTES_def sample_codec_def record_of_def check_traffic_def
        early_record_def sample_record_def early_ledger_def sample_ledger_def sample_request_def
        sample_settings_def default_settings_def del: show_nat.simps)
qed


end
