(* ===== verification/Paths.thy ===== *)
theory Paths
  imports AppError
begin

text \<open>
  Storage paths (src/src/storage/path.rs and the path entry points of
  src/src/storage/linux_root.rs): the validation of one new name, the normalisation every request
  path goes through, the resolution of a path below the storage root and the guard that keeps a
  move or copy out of its own source. An absolute path is the list of its components. The
  \<open>openat2\<close> system call is a parameter: given the relative path and the flags, it returns the
  error number or succeeds.
\<close>

section \<open>Names and normalisation\<close>

definition SYSTEM_DIR :: str where
  "SYSTEM_DIR = ''.ycloud-system''"

definition backslash :: char where "backslash = CHR 0x5C"
definition nul :: char where "nul = CHR 0x00"

definition forbidden_name_chars :: "char list" where
  "forbidden_name_chars = [CHR ''/'', backslash, CHR ''<'', CHR ''>'', CHR '':'', CHR 0x22, CHR ''|'', CHR ''?'', CHR ''*'']"

definition validate_name :: "str \<Rightarrow> str app_result" where
  "validate_name name =
     (if name = [] \<or> trim name \<noteq> name \<or> name = ''.'' \<or> name = ''..''
         \<or> list_ex (\<lambda>c. is_control c \<or> c \<in> set (map (\<lambda>b. [b]) forbidden_name_chars)) (chars name)
      then Inl (BadRequest ''Invalid file or directory name'')
      else Inr name)"

fun normalize_components :: "str list \<Rightarrow> str list \<Rightarrow> str list app_result" where
  "normalize_components [] components = Inr components"
| "normalize_components (component # rest) components =
     (if component = [] \<or> component = ''.'' then normalize_components rest components
      else if component = ''..'' then Inl (BadRequest ''Path traversal is not allowed'')
      else if CHR '':'' \<in> set component \<or> eq_ignore_ascii_case component SYSTEM_DIR
      then Inl (BadRequest ''Invalid storage path'')
      else normalize_components rest (components @ [component]))"

definition normalize_relative :: "str \<Rightarrow> str app_result" where
  "normalize_relative path =
     (if backslash \<in> set path \<or> nul \<in> set path then Inl (BadRequest ''Invalid storage path'')
      else rbind (normalize_components (split_on CHR ''/'' (trim_matches CHR ''/'' path)) [])
             (\<lambda>components. Inr (join_with ''/'' components)))"

section \<open>Resolution below the storage root\<close>

record resolved_path =
  rp_relative :: str
  rp_absolute :: "str list"

definition rp_is_root :: "resolved_path \<Rightarrow> bool" where
  "rp_is_root p \<longleftrightarrow> rp_relative p = []"

datatype errno = NOENT | LOOP | XDEV | NOTDIR | ACCESS | PERM | NOSYS | EXIST | OTHER_ERRNO str

fun errno_text :: "errno \<Rightarrow> str" where
  "errno_text (OTHER_ERRNO text) = text"
| "errno_text NOENT = ''No such file or directory (os error 2)''"
| "errno_text LOOP = ''Too many levels of symbolic links (os error 40)''"
| "errno_text XDEV = ''Invalid cross-device link (os error 18)''"
| "errno_text NOTDIR = ''Not a directory (os error 20)''"
| "errno_text ACCESS = ''Permission denied (os error 13)''"
| "errno_text PERM = ''Operation not permitted (os error 1)''"
| "errno_text NOSYS = ''Function not implemented (os error 38)''"
| "errno_text EXIST = ''File exists (os error 17)''"

definition linux_error :: "str \<Rightarrow> errno \<Rightarrow> app_error" where
  "linux_error context error = with_source context (errno_text error)"

definition map_resolution_error :: "errno \<Rightarrow> app_error" where
  "map_resolution_error error =
     (case error of
        NOENT \<Rightarrow> NotFound
      | LOOP \<Rightarrow> Forbidden | XDEV \<Rightarrow> Forbidden | NOTDIR \<Rightarrow> Forbidden
      | ACCESS \<Rightarrow> Forbidden | PERM \<Rightarrow> Forbidden
      | NOSYS \<Rightarrow> ServiceUnavailable ''Local storage requires Linux openat2 path protection''
      | _ \<Rightarrow> linux_error ''failed to resolve path below local storage root'' error)"

definition map_mutation_error :: "str \<Rightarrow> errno \<Rightarrow> app_error" where
  "map_mutation_error context error =
     (case error of
        EXIST \<Rightarrow> Conflict ''Destination already exists''
      | NOENT \<Rightarrow> NotFound
      | LOOP \<Rightarrow> Forbidden | XDEV \<Rightarrow> Forbidden | NOTDIR \<Rightarrow> Forbidden
      | ACCESS \<Rightarrow> Forbidden | PERM \<Rightarrow> Forbidden
      | NOSYS \<Rightarrow> ServiceUnavailable ''Local storage requires Linux descriptor-relative operations''
      | _ \<Rightarrow> linux_error context error)"

text \<open>What one \<open>openat2\<close> call finds: the flag says whether a directory is required.\<close>

type_synonym 'fd opener = "str \<Rightarrow> bool \<Rightarrow> errno + 'fd"

definition open_path :: "'fd opener \<Rightarrow> str \<Rightarrow> bool \<Rightarrow> 'fd app_result" where
  "open_path openat2 relative directory =
     (case openat2 (if relative = [] then ''.'' else relative) directory of
        Inl e \<Rightarrow> Inl (map_resolution_error e)
      | Inr fd \<Rightarrow> Inr fd)"

definition validate_for_write :: "'fd opener \<Rightarrow> str \<Rightarrow> unit app_result" where
  "validate_for_write openat2 relative =
     (let parent = (case rsplit_once CHR ''/'' relative of
                      None \<Rightarrow> ''.''
                    | Some (p, _) \<Rightarrow> if p = [] then ''.'' else p)
      in case open_path openat2 parent True of
           Inl NotFound \<Rightarrow> Inl ParentDirectoryMissing
         | Inl e \<Rightarrow> Inl e
         | Inr _ \<Rightarrow>
             if relative = [] then Inr ()
             else (case open_path openat2 relative False of
                     Inr _ \<Rightarrow> Inr ()
                   | Inl NotFound \<Rightarrow> Inr ()
                   | Inl e \<Rightarrow> Inl e))"

definition resolve_for_write :: "'fd opener \<Rightarrow> str list \<Rightarrow> str \<Rightarrow> resolved_path app_result" where
  "resolve_for_write openat2 root path =
     rbind (normalize_relative path) (\<lambda>relative.
       let absolute = foldl (\<lambda>current component. current @ [component]) root
                        (filter (\<lambda>component. component \<noteq> []) (split_on CHR ''/'' relative))
       in rbind (validate_for_write openat2 relative) (\<lambda>_.
            Inr \<lparr>rp_relative = relative, rp_absolute = absolute\<rparr>))"

text \<open>
  \<open>metadata\<close> reads the file type of the opened descriptor; \<open>is_symlink\<close> is that reading, or the
  error it ends with.
\<close>

definition validate_existing :: "'fd opener \<Rightarrow> ('fd \<Rightarrow> str + bool) \<Rightarrow> str \<Rightarrow> unit app_result" where
  "validate_existing openat2 is_symlink relative =
     rbind (open_path openat2 relative False) (\<lambda>fd.
       case is_symlink fd of
         Inl e \<Rightarrow> Inl (with_source ''failed to read file metadata'' e)
       | Inr symlink \<Rightarrow> if symlink then Inl Forbidden else Inr ())"

definition resolve_existing ::
  "'fd opener \<Rightarrow> ('fd \<Rightarrow> str + bool) \<Rightarrow> str list \<Rightarrow> str \<Rightarrow> resolved_path app_result" where
  "resolve_existing openat2 is_symlink root path =
     rbind (resolve_for_write openat2 root path) (\<lambda>resolved.
       rbind (validate_existing openat2 is_symlink (rp_relative resolved)) (\<lambda>_. Inr resolved))"

definition open_parent :: "'fd opener \<Rightarrow> str \<Rightarrow> ('fd \<times> str) app_result" where
  "open_parent openat2 relative =
     rbind (case rsplit_once CHR ''/'' relative of
              Some (parent, name) \<Rightarrow>
                if name \<noteq> [] then Inr (if parent = [] then ''.'' else parent, name)
                else Inl (BadRequest ''Invalid local storage path'')
            | None \<Rightarrow>
                if relative \<noteq> [] then Inr (''.'', relative)
                else Inl (BadRequest ''Invalid local storage path''))
       (\<lambda>(parent, name).
          case openat2 parent True of
            Inl e \<Rightarrow> Inl (map_resolution_error e)
          | Inr fd \<Rightarrow> Inr (fd, name))"

definition replace_internal_journal_allowed :: "str \<Rightarrow> str \<Rightarrow> bool" where
  "replace_internal_journal_allowed source destination =
     list_ex (\<lambda>prefix. starts_with source prefix \<and> starts_with destination prefix)
       [''.ycloud-system/transactions/'', ''.ycloud-system/upload-receipts/'']"

definition reject_root_or_descendant :: "resolved_path \<Rightarrow> resolved_path \<Rightarrow> unit app_result" where
  "reject_root_or_descendant source destination =
     (if rp_is_root source then Inl (BadRequest ''The storage root cannot be moved or copied'')
      else if prefix (rp_absolute source) (rp_absolute destination)
      then Inl (Conflict ''Destination cannot be inside the source'')
      else Inr ())"

section \<open>What a normalised path looks like\<close>

definition safe_component :: "str \<Rightarrow> bool" where
  "safe_component c \<longleftrightarrow>
     c \<noteq> [] \<and> c \<noteq> ''.'' \<and> c \<noteq> ''..'' \<and> CHR ''/'' \<notin> set c \<and> CHR '':'' \<notin> set c
     \<and> backslash \<notin> set c \<and> nul \<notin> set c \<and> \<not> eq_ignore_ascii_case c SYSTEM_DIR"

definition path_components :: "str \<Rightarrow> str list" where
  "path_components r = (if r = [] then [] else split_on CHR ''/'' r)"

definition safe_relative :: "str \<Rightarrow> bool" where
  "safe_relative r \<longleftrightarrow> list_all safe_component (path_components r)"

definition skipped_component :: "str \<Rightarrow> bool" where
  "skipped_component c \<longleftrightarrow> c = [] \<or> c = ''.''"

lemma normalize_components_ok_iff:
  "normalize_components cs acc = Inr out \<longleftrightarrow>
     out = acc @ filter (\<lambda>c. \<not> skipped_component c) cs \<and>
     (\<forall>c \<in> set cs. skipped_component c \<or>
        c \<noteq> ''..'' \<and> CHR '':'' \<notin> set c \<and> \<not> eq_ignore_ascii_case c SYSTEM_DIR)"
  by (induction cs arbitrary: acc) (auto simp: skipped_component_def)

lemma path_components_join:
  assumes "\<forall>c \<in> set cs. c \<noteq> [] \<and> CHR ''/'' \<notin> set c"
  shows "path_components (join_with ''/'' cs) = cs"
  using assms
  by (cases "cs = []")
     (auto simp: path_components_def join_with_Nil_iff split_on_join_with)

lemma join_path_components [simp]: "join_with ''/'' (path_components r) = r"
  by (simp add: path_components_def)

lemma normalize_relative_components:
  assumes "normalize_relative path = Inr r"
  shows "path_components r =
      filter (\<lambda>c. \<not> skipped_component c) (split_on CHR ''/'' (trim_matches CHR ''/'' path))"
    and "safe_relative r"
proof -
  let ?cs = "split_on CHR ''/'' (trim_matches CHR ''/'' path)"
  let ?kept = "filter (\<lambda>c. \<not> skipped_component c) ?cs"
  from assms have clean: "backslash \<notin> set path" "nul \<notin> set path"
    and r: "r = join_with ''/'' ?kept"
    and ok: "\<forall>c \<in> set ?cs. skipped_component c \<or>
        c \<noteq> ''..'' \<and> CHR '':'' \<notin> set c \<and> \<not> eq_ignore_ascii_case c SYSTEM_DIR"
    by (auto simp: normalize_relative_def rbind_Inr_iff normalize_components_ok_iff split: if_splits)
  have sub: "set c \<subseteq> set path" if "c \<in> set ?cs" for c
    using split_on_subset [OF that] set_trim_matches by blast
  have safe: "\<forall>c \<in> set ?kept. safe_component c"
    using ok clean sub split_on_sep_free
    by (fastforce simp: safe_component_def skipped_component_def)
  then have "path_components r = ?kept"
    unfolding r by (intro path_components_join) (auto simp: safe_component_def)
  with safe show "path_components r = ?kept" and "safe_relative r"
    by (simp_all add: safe_relative_def list_all_iff)
qed

lemma safe_relative_ends:
  assumes "safe_relative r" and "r \<noteq> []"
  shows "hd r \<noteq> CHR ''/''" and "last r \<noteq> CHR ''/''"
proof -
  let ?cs = "split_on CHR ''/'' r"
  from assms have cs: "\<forall>c \<in> set ?cs. c \<noteq> [] \<and> CHR ''/'' \<notin> set c"
    by (auto simp: safe_relative_def path_components_def list_all_iff safe_component_def)
  have r: "r = join_with ''/'' ?cs" by simp
  have "hd r = hd (hd ?cs)"
    by (subst r, subst join_with_hd) (use cs hd_in_set in auto)
  with cs show "hd r \<noteq> CHR ''/''"
    by (metis hd_in_set split_on_not_Nil)
  have "last r = last (last ?cs)"
    by (subst r, subst join_with_last) (use cs in auto)
  with cs show "last r \<noteq> CHR ''/''"
    by (metis last_in_set split_on_not_Nil)
qed

lemma safe_relative_chars:
  assumes "safe_relative r"
  shows "backslash \<notin> set r \<and> nul \<notin> set r"
proof (cases "r = []")
  case False
  with assms have cs: "\<forall>c \<in> set (split_on CHR ''/'' r). backslash \<notin> set c \<and> nul \<notin> set c"
    by (auto simp: safe_relative_def path_components_def list_all_iff safe_component_def)
  moreover have "set r \<subseteq> set ''/'' \<union> (\<Union>c \<in> set (split_on CHR ''/'' r). set c)"
    using set_join_with [of "''/''" "split_on CHR ''/'' r"] by simp
  moreover have "backslash \<notin> set ''/''" "nul \<notin> set ''/''"
    by (simp_all add: backslash_def nul_def)
  ultimately show ?thesis by blast
qed simp

lemma normalize_relative_fixed:
  assumes "safe_relative r"
  shows "normalize_relative r = Inr r"
proof (cases "r = []")
  case True
  then show ?thesis
    by (simp add: normalize_relative_def trim_matches_def trim_start_matches_def trim_end_matches_def)
next
  case False
  then have cs: "\<forall>c \<in> set (split_on CHR ''/'' r). safe_component c"
    using assms by (simp add: safe_relative_def path_components_def list_all_iff)
  have t: "trim_matches CHR ''/'' r = r"
    using safe_relative_ends [OF assms False] by (simp add: trim_matches_id)
  have "normalize_components (split_on CHR ''/'' r) [] = Inr (split_on CHR ''/'' r)"
    using cs by (auto simp: normalize_components_ok_iff safe_component_def skipped_component_def
        filter_id_conv)
  with t safe_relative_chars [OF assms] show ?thesis
    by (simp add: normalize_relative_def)
qed

section \<open>Normalisers as an interface\<close>

text \<open>
  What the callers of a normaliser rely on: its results are safe, and a safe path is its own
  normal form.
\<close>

locale path_normalizer =
  fixes norm :: "str \<Rightarrow> 'e + str"
    and safe :: "str \<Rightarrow> bool"
  assumes norm_safe: "norm p = Inr r \<Longrightarrow> safe r"
    and norm_fixed: "safe r \<Longrightarrow> norm r = Inr r"
begin

lemma norm_idem: "norm p = Inr r \<Longrightarrow> norm r = Inr r"
  by (blast intro: norm_fixed norm_safe)

lemma norm_range: "(\<exists>p. norm p = Inr r) \<longleftrightarrow> safe r"
  by (blast intro: norm_fixed norm_safe)

lemma norm_twice: "rbind (norm p) norm = norm p"
  by (cases "norm p") (auto intro: norm_idem)

end

interpretation storage_path: path_normalizer normalize_relative safe_relative
  by unfold_locales (erule normalize_relative_components, erule normalize_relative_fixed)

section \<open>Resolution stays below the root\<close>

lemma foldl_snoc: "foldl (\<lambda>acc x. acc @ [x]) a xs = a @ xs"
  by (induction xs arbitrary: a) auto

lemma safe_relative_filter:
  assumes "safe_relative r"
  shows "filter (\<lambda>c. c \<noteq> []) (split_on CHR ''/'' r) = path_components r"
proof (cases "r = []")
  case False
  with assms have "\<forall>c \<in> set (split_on CHR ''/'' r). c \<noteq> []"
    by (simp add: safe_relative_def path_components_def list_all_iff safe_component_def)
  with False show ?thesis by (simp add: path_components_def)
qed (simp add: path_components_def)

lemma resolve_for_write_ok:
  assumes "resolve_for_write openat2 root path = Inr p"
  shows "normalize_relative path = Inr (rp_relative p)"
    and "rp_absolute p = root @ path_components (rp_relative p)"
    and "validate_for_write openat2 (rp_relative p) = Inr ()"
proof -
  from assms obtain r where r: "normalize_relative path = Inr r"
    and v: "validate_for_write openat2 r = Inr ()"
    and p: "p = \<lparr>rp_relative = r, rp_absolute = root @ filter (\<lambda>c. c \<noteq> []) (split_on CHR ''/'' r)\<rparr>"
    by (auto simp: resolve_for_write_def rbind_Inr_iff Let_def foldl_snoc)
  have "safe_relative r" using r by (rule normalize_relative_components)
  then have "filter (\<lambda>c. c \<noteq> []) (split_on CHR ''/'' r) = path_components r"
    by (rule safe_relative_filter)
  with r v p show "normalize_relative path = Inr (rp_relative p)"
    and "rp_absolute p = root @ path_components (rp_relative p)"
    and "validate_for_write openat2 (rp_relative p) = Inr ()"
    by simp_all
qed

lemma normalize_relative_result_parts:
  assumes "normalize_relative path = Inr r" and "c \<in> set (path_components r)"
  shows "safe_component c"
  using normalize_relative_components(2) [OF assms(1)] assms(2)
  by (simp add: safe_relative_def list_all_iff)

lemma validate_name_ok:
  assumes "validate_name name = Inr m"
  shows "m = name" and "name \<noteq> []" and "name \<noteq> ''.''" and "name \<noteq> ''..''" and "trim name = name"
    and "\<forall>c \<in> set forbidden_name_chars. c \<notin> set name" and "nul \<notin> set name"
proof -
  from assms have bad: "\<not> list_ex (\<lambda>c. is_control c \<or> c \<in> set (map (\<lambda>b. [b]) forbidden_name_chars)) (chars name)"
    by (simp add: validate_name_def split: if_splits)
  from assms show "m = name" "name \<noteq> []" "name \<noteq> ''.''" "name \<noteq> ''..''" "trim name = name"
    by (simp_all add: validate_name_def split: if_splits)
  have ascii: "byte c < 128" if "c \<in> set forbidden_name_chars" for c
    using that by (auto simp: forbidden_name_chars_def backslash_def byte_def)
  show "\<forall>c \<in> set forbidden_name_chars. c \<notin> set name"
    using bad ascii chars_ascii_singleton [of _ name] by (auto simp: list_ex_iff)
  have "is_control [nul]" "byte nul < 128"
    by (simp_all add: nul_def byte_def)
  moreover have "\<forall>c \<in> set (chars name). \<not> is_control c"
    using bad by (auto simp: list_ex_iff)
  ultimately show "nul \<notin> set name"
    using chars_ascii_singleton [of nul name] by blast
qed

lemma validate_name_normalizes:
  assumes "validate_name name = Inr m" and "\<not> eq_ignore_ascii_case name SYSTEM_DIR"
  shows "safe_relative name" and "path_components name = [name]"
proof -
  note ok = validate_name_ok [OF assms(1)]
  have free: "CHR ''/'' \<notin> set name" "CHR '':'' \<notin> set name" "backslash \<notin> set name"
    using ok(6) by (auto simp: forbidden_name_chars_def)
  show "path_components name = [name]"
    using ok(2) free(1) by (simp add: path_components_def split_on_no_sep)
  then show "safe_relative name"
    using ok free assms(2) by (simp add: safe_relative_def safe_component_def)
qed

section \<open>Properties\<close>

text \<open>
  C4: whatever path a client sends, a successful normalisation yields only harmless components:
  none is empty, a dot, a parent reference or the reserved system directory in any letter case, and
  none holds a slash, colon, backslash or NUL. The result keeps exactly the components of the
  request that are not empty or a dot, in order, and normalising it again changes nothing.
\<close>

theorem normalize_relative_sound:
  assumes "normalize_relative path = Inr r"
  shows "list_all safe_component (path_components r)
    \<and> path_components r =
        filter (\<lambda>c. \<not> skipped_component c) (split_on CHR ''/'' (trim_matches CHR ''/'' path))
    \<and> normalize_relative r = Inr r"
  using normalize_relative_components [OF assms] storage_path.norm_idem [OF assms]
  by (simp add: safe_relative_def)

theorem normalize_relative_sound_witness:
  "normalize_relative ''/a/./b//c.txt/'' = Inr ''a/b/c.txt''
   \<and> list_all safe_component (path_components ''a/b/c.txt'')"
proof -
  have h: "normalize_relative ''/a/./b//c.txt/'' = Inr ''a/b/c.txt''"
    by code_simp
  show ?thesis using h normalize_relative_sound [OF h] by blast
qed

text \<open>
  Resolution never leaves the storage root. For every behaviour of the kernel's path lookup, a
  resolved path is the root followed by harmless components, so the root is a prefix of it and no
  component after the root is a parent reference; two requests that resolve to the same relative
  path resolve to the same absolute path and conversely.
\<close>

lemma resolve_for_write_below_root:
  assumes "resolve_for_write openat2 root path = Inr p"
    and "resolve_for_write openat2 root path' = Inr p'"
  shows "prefix root (rp_absolute p)
    \<and> list_all safe_component (drop (length root) (rp_absolute p))
    \<and> (rp_absolute p = rp_absolute p' \<longleftrightarrow> rp_relative p = rp_relative p')"
proof -
  note ok = resolve_for_write_ok [OF assms(1)] and ok' = resolve_for_write_ok [OF assms(2)]
  have "list_all safe_component (path_components (rp_relative p))"
    using normalize_relative_components(2) [OF ok(1)] by (simp add: safe_relative_def)
  moreover have "path_components a = path_components b \<longleftrightarrow> a = b" for a b
    by (metis join_path_components)
  ultimately show ?thesis using ok(2) ok'(2) by simp
qed

lemma resolve_for_write_below_root_witness:
  "resolve_for_write (\<lambda>_ _. Inr ()) [''srv'', ''data''] ''/docs/./a.txt''
     = Inr \<lparr>rp_relative = ''docs/a.txt'', rp_absolute = [''srv'', ''data'', ''docs'', ''a.txt'']\<rparr>
   \<and> prefix [''srv'', ''data''] [''srv'', ''data'', ''docs'', ''a.txt'']"
proof -
  have h: "resolve_for_write (\<lambda>_ _. Inr ()) [''srv'', ''data''] ''/docs/./a.txt''
     = Inr \<lparr>rp_relative = ''docs/a.txt'', rp_absolute = [''srv'', ''data'', ''docs'', ''a.txt'']\<rparr>"
    by code_simp
  show ?thesis using h resolve_for_write_below_root [OF h h] by simp
qed

text \<open>
  A name accepted for a new file or directory is returned unchanged and is a single path
  component: used as a path it normalises to itself, except for the reserved system directory,
  which name validation accepts and normalisation then rejects.
\<close>

lemma validate_name_single_component:
  assumes "validate_name name = Inr m"
  shows "m = name \<and> split_on CHR ''/'' name = [name]
    \<and> normalize_relative name =
        (if eq_ignore_ascii_case name SYSTEM_DIR then Inl (BadRequest ''Invalid storage path'')
         else Inr name)"
proof (cases "eq_ignore_ascii_case name SYSTEM_DIR")
  case False
  with assms validate_name_normalizes [OF assms False] validate_name_ok [OF assms] show ?thesis
    by (simp add: normalize_relative_fixed path_components_def split: if_splits)
next
  case True
  note ok = validate_name_ok [OF assms]
  have free: "CHR ''/'' \<notin> set name" "CHR '':'' \<notin> set name" "backslash \<notin> set name"
    using ok(6) by (auto simp: forbidden_name_chars_def)
  have "trim_matches CHR ''/'' name = name"
    using free(1) ok(2) by (intro trim_matches_id) (metis hd_in_set last_in_set)
  with True ok free show ?thesis
    by (simp add: normalize_relative_def split_on_no_sep)
qed

lemma validate_name_single_component_witness:
  "validate_name ''report v2.pdf'' = Inr ''report v2.pdf''
   \<and> normalize_relative ''report v2.pdf'' = Inr ''report v2.pdf''
   \<and> validate_name ''.YCLOUD-System'' = Inr ''.YCLOUD-System''
   \<and> normalize_relative ''.YCLOUD-System'' = Inl (BadRequest ''Invalid storage path'')"
proof -
  have a: "validate_name ''report v2.pdf'' = Inr ''report v2.pdf''" by code_simp
  have b: "validate_name ''.YCLOUD-System'' = Inr ''.YCLOUD-System''" by code_simp
  have e: "\<not> eq_ignore_ascii_case ''report v2.pdf'' SYSTEM_DIR"
    "eq_ignore_ascii_case ''.YCLOUD-System'' SYSTEM_DIR" by code_simp+
  show ?thesis
    using a b e validate_name_single_component [OF a] validate_name_single_component [OF b] by simp
qed

end
