(* ===== verification/Sessions.thy ===== *)
theory Sessions
  imports Prelude
begin

text \<open>
  Bounded browser sessions and scoped access tokens (src/src/auth/session.rs). A store is the
  association list of its hash map; the order of the list stands for the hash map's iteration
  order. Every operation holds the store's lock for its whole effect, so it is one function of the
  state. The clock reading and the random token of a call are arguments. The eviction loops are
  partial functions: \<open>None\<close> is a loop that does not end, and the lemmas show that it cannot
  happen for a store made by its constructor.
\<close>

section \<open>Data\<close>

definition nanoseconds :: "int \<Rightarrow> int" where
  "nanoseconds s = s * 1000000000"

definition SESSION_TTL :: int where
  "SESSION_TTL = nanoseconds (24 * 60 * 60)"

definition ACCESS_TOKEN_TTL :: int where
  "ACCESS_TOKEN_TTL = nanoseconds (7 * 24 * 60 * 60)"

definition MAX_SESSIONS :: nat where "MAX_SESSIONS = 4096"
definition MAX_ACCESS_TOKENS :: nat where "MAX_ACCESS_TOKENS = 4096"
definition MAX_ACCESS_TOKENS_PER_SCOPE :: nat where "MAX_ACCESS_TOKENS_PER_SCOPE = 16"

datatype session_principal = Administrator | User str

record session =
  created_at :: instant
  principal :: session_principal

record session_store =
  sessions :: "(str \<times> session) list"
  ss_max_total :: nat

record access_grant =
  scope :: str
  ag_created_at :: instant

record access_token_store =
  accesses :: "(str \<times> access_grant) list"
  at_max_total :: nat
  max_per_scope :: nat

section \<open>Eviction of the oldest entry\<close>

definition remove_oldest_where ::
  "('v \<Rightarrow> instant) \<Rightarrow> ('v \<Rightarrow> bool) \<Rightarrow> (str \<times> 'v) list \<Rightarrow> (str \<times> 'v) list" where
  "remove_oldest_where created matches entries =
     (case min_by_key (\<lambda>(_, v). created v) (filter (\<lambda>(_, v). matches v) entries) of
        None \<Rightarrow> entries
      | Some (token, _) \<Rightarrow> al_remove token entries)"

partial_function (option) evict_while ::
  "((str \<times> 'v) list \<Rightarrow> bool) \<Rightarrow> ((str \<times> 'v) list \<Rightarrow> (str \<times> 'v) list) \<Rightarrow> (str \<times> 'v) list
   \<Rightarrow> (str \<times> 'v) list option" where
  "evict_while over evict entries =
     (if over entries then evict_while over evict (evict entries) else Some entries)"

section \<open>The session store\<close>

definition session_store_with_limit :: "nat \<Rightarrow> session_store" where
  "session_store_with_limit limit = \<lparr>sessions = [], ss_max_total = max limit 1\<rparr>"

definition session_store_new :: session_store where
  "session_store_new = session_store_with_limit MAX_SESSIONS"

definition create_for ::
  "session_store \<Rightarrow> session_principal \<Rightarrow> str \<Rightarrow> instant \<Rightarrow> session_store option" where
  "create_for store who token now =
     (let kept = al_retain (\<lambda>_ s. now - created_at s \<le> SESSION_TTL \<and> principal s \<noteq> who)
                   (sessions store)
      in map_option
           (\<lambda>room. store\<lparr>sessions := al_insert token \<lparr>created_at = now, principal = who\<rparr> room\<rparr>)
           (evict_while (\<lambda>m. ss_max_total store \<le> length m)
              (remove_oldest_where created_at (\<lambda>_. True)) kept))"

definition create_session :: "session_store \<Rightarrow> str \<Rightarrow> instant \<Rightarrow> session_store option" where
  "create_session store token now = create_for store Administrator token now"

definition create_user :: "session_store \<Rightarrow> str \<Rightarrow> str \<Rightarrow> instant \<Rightarrow> session_store option" where
  "create_user store user_id token now = create_for store (User user_id) token now"

definition principal_of ::
  "session_store \<Rightarrow> str \<Rightarrow> instant \<Rightarrow> session_principal option \<times> session_store" where
  "principal_of store token now =
     (case al_get (sessions store) token of
        Some s \<Rightarrow>
          if now - created_at s \<le> SESSION_TTL then (Some (principal s), store)
          else (None, store\<lparr>sessions := al_remove token (sessions store)\<rparr>)
      | None \<Rightarrow> (None, store))"

definition clear_sessions :: "session_store \<Rightarrow> session_store" where
  "clear_sessions store = store\<lparr>sessions := []\<rparr>"

definition revoke_administrator :: "session_store \<Rightarrow> session_store" where
  "revoke_administrator store =
     store\<lparr>sessions := al_retain (\<lambda>_ s. principal s \<noteq> Administrator) (sessions store)\<rparr>"

definition revoke_user :: "session_store \<Rightarrow> str \<Rightarrow> session_store" where
  "revoke_user store user_id =
     store\<lparr>sessions := al_retain (\<lambda>_ s. principal s \<noteq> User user_id) (sessions store)\<rparr>"

definition cleanup_sessions :: "session_store \<Rightarrow> instant \<Rightarrow> session_store" where
  "cleanup_sessions store now =
     store\<lparr>sessions := al_retain (\<lambda>_ s. now - SESSION_TTL < created_at s) (sessions store)\<rparr>"

section \<open>The access token store\<close>

definition access_token_store_with_limits :: "nat \<Rightarrow> nat \<Rightarrow> access_token_store" where
  "access_token_store_with_limits max_total per_scope =
     \<lparr>accesses = [], at_max_total = max max_total 1, max_per_scope = max per_scope 1\<rparr>"

definition access_token_store_new :: access_token_store where
  "access_token_store_new =
     access_token_store_with_limits MAX_ACCESS_TOKENS MAX_ACCESS_TOKENS_PER_SCOPE"

definition scope_count :: "str \<Rightarrow> (str \<times> access_grant) list \<Rightarrow> nat" where
  "scope_count sc m = length (filter (\<lambda>(_, a). scope a = sc) m)"

definition create_access ::
  "access_token_store \<Rightarrow> str \<Rightarrow> str \<Rightarrow> instant \<Rightarrow> access_token_store option" where
  "create_access store sc token now =
     (let kept = al_retain (\<lambda>_ a. now - ag_created_at a \<le> ACCESS_TOKEN_TTL) (accesses store)
      in Option.bind
           (evict_while (\<lambda>m. max_per_scope store \<le> scope_count sc m)
              (remove_oldest_where ag_created_at (\<lambda>a. scope a = sc)) kept)
           (\<lambda>scoped. map_option
              (\<lambda>room. store\<lparr>accesses :=
                   al_insert token \<lparr>scope = sc, ag_created_at = now\<rparr> room\<rparr>)
              (evict_while (\<lambda>m. at_max_total store \<le> length m)
                 (remove_oldest_where ag_created_at (\<lambda>_. True)) scoped)))"

definition get_scope ::
  "access_token_store \<Rightarrow> str \<Rightarrow> instant \<Rightarrow> str option \<times> access_token_store" where
  "get_scope store token now =
     (case al_get (accesses store) token of
        Some a \<Rightarrow>
          if ACCESS_TOKEN_TTL < now - ag_created_at a
          then (None, store\<lparr>accesses := al_remove token (accesses store)\<rparr>)
          else (Some (scope a), store)
      | None \<Rightarrow> (None, store))"

definition remove_scope :: "access_token_store \<Rightarrow> str \<Rightarrow> access_token_store" where
  "remove_scope store sc =
     store\<lparr>accesses := al_retain (\<lambda>_ a. scope a \<noteq> sc) (accesses store)\<rparr>"

definition clear_accesses :: "access_token_store \<Rightarrow> access_token_store" where
  "clear_accesses store = store\<lparr>accesses := []\<rparr>"

definition cleanup_accesses :: "access_token_store \<Rightarrow> instant \<Rightarrow> access_token_store" where
  "cleanup_accesses store now =
     store\<lparr>accesses := al_retain (\<lambda>_ a. now - ACCESS_TOKEN_TTL < ag_created_at a) (accesses store)\<rparr>"

definition revoke_browser_credentials ::
  "session_store \<Rightarrow> access_token_store \<Rightarrow> access_token_store \<Rightarrow> str option \<Rightarrow> str option
   \<Rightarrow> (str \<times> str) list \<Rightarrow> session_store \<times> access_token_store \<times> access_token_store" where
  "revoke_browser_credentials ss gate folder session_token gate_token folder_cookies =
     ((case session_token of
         Some token \<Rightarrow> ss\<lparr>sessions := al_remove token (sessions ss)\<rparr>
       | None \<Rightarrow> ss),
      (case gate_token of
         Some token \<Rightarrow> gate\<lparr>accesses := al_remove token (accesses gate)\<rparr>
       | None \<Rightarrow> gate),
      folder\<lparr>accesses := fold (\<lambda>(_, token) m. al_remove token m) folder_cookies (accesses folder)\<rparr>)"

section \<open>Eviction ends and removes only the oldest\<close>

lemma length_al_remove_less:
  "(k, v) \<in> set m \<Longrightarrow> length (al_remove k m) < length m"
  unfolding al_remove_def by (rule length_filter_less) auto

lemma remove_oldest_where_cases:
  assumes "filter (\<lambda>(_, v). matches v) m \<noteq> []"
  obtains k v where "(k, v) \<in> set m" "matches v" "remove_oldest_where created matches m = al_remove k m"
    "\<forall>(k', v') \<in> set m. matches v' \<longrightarrow> created v \<le> created v'"
proof -
  from assms obtain k v where kv: "min_by_key (\<lambda>(_, v). created v) (filter (\<lambda>(_, v). matches v) m) = Some (k, v)"
    by (cases "min_by_key (\<lambda>(_, v). created v) (filter (\<lambda>(_, v). matches v) m)") auto
  from min_by_key_Some [OF kv] kv that show thesis
    by (fastforce simp: remove_oldest_where_def)
qed

lemma evict_while_total:
  assumes shrink: "\<And>m. over m \<Longrightarrow> length (evict m) < length m"
    and step: "\<And>m. I m \<Longrightarrow> over m \<Longrightarrow> I (evict m)" and start: "I m"
  shows "\<exists>r. evict_while over evict m = Some r \<and> \<not> over r \<and> I r"
  using start
proof (induction m rule: length_induct)
  case (1 m)
  show ?case
  proof (cases "over m")
    case True
    with 1 shrink step show ?thesis
      by (subst evict_while.simps) simp
  next
    case False
    with 1 show ?thesis by (subst evict_while.simps) simp
  qed
qed

text \<open>
  What eviction down to a limit guarantees: it ends, the result fits, it is a part of the input,
  and, when the input already fits, nothing is removed. An entry it removed is at most as young as
  every entry of the evicted kind it keeps.
\<close>

definition evicts_oldest ::
  "('v \<Rightarrow> instant) \<Rightarrow> ('v \<Rightarrow> bool) \<Rightarrow> (str \<times> 'v) list \<Rightarrow> (str \<times> 'v) list \<Rightarrow> bool" where
  "evicts_oldest created matches m r \<longleftrightarrow>
     set r \<subseteq> set m \<and> distinct (al_keys r) \<and>
     (\<forall>k v. (k, v) \<in> set m \<longrightarrow> (k, v) \<notin> set r \<longrightarrow>
        matches v \<and> (\<forall>k' v'. (k', v') \<in> set r \<longrightarrow> matches v' \<longrightarrow> created v \<le> created v'))"

lemma evicts_oldest_refl: "distinct (al_keys m) \<Longrightarrow> evicts_oldest created matches m m"
  by (simp add: evicts_oldest_def)

lemma distinct_keys_unique:
  "distinct (al_keys m) \<Longrightarrow> (k, v) \<in> set m \<Longrightarrow> (k, v') \<in> set m \<Longrightarrow> v = v'"
  by (metis al_get_Some_iff option.inject)

lemma evicts_oldest_step:
  assumes e: "evicts_oldest created matches m r"
    and ne: "filter (\<lambda>(_, v). matches v) r \<noteq> []"
  shows "evicts_oldest created matches m (remove_oldest_where created matches r)"
proof -
  from ne obtain k v where kv: "(k, v) \<in> set r" "matches v"
    and rm: "remove_oldest_where created matches r = al_remove k r"
    and old: "\<forall>(k', v') \<in> set r. matches v' \<longrightarrow> created v \<le> created v'"
    by (rule remove_oldest_where_cases)
  have d: "distinct (al_keys r)" using e by (simp add: evicts_oldest_def)
  show ?thesis
    unfolding rm evicts_oldest_def
  proof (intro conjI allI impI)
    show "set (al_remove k r) \<subseteq> set m" "distinct (al_keys (al_remove k r))"
      using e d by (auto simp: evicts_oldest_def)
  next
    fix a b
    assume ab: "(a, b) \<in> set m" "(a, b) \<notin> set (al_remove k r)"
    have "matches b \<and> (\<forall>k' v'. (k', v') \<in> set r \<longrightarrow> matches v' \<longrightarrow> created b \<le> created v')"
    proof (cases "(a, b) \<in> set r")
      case True
      with ab have "a = k" by simp
      with True kv(1) have "b = v" using distinct_keys_unique [OF d] by blast
      with kv(2) old show ?thesis by blast
    next
      case False
      with e ab(1) show ?thesis unfolding evicts_oldest_def by blast
    qed
    then show "matches b"
      and "\<And>k' v'. (k', v') \<in> set (al_remove k r) \<Longrightarrow> matches v' \<Longrightarrow> created b \<le> created v'"
      by auto
  qed
qed

lemma evict_to_limit:
  assumes "distinct (al_keys m)" and "0 < limit"
  shows "\<exists>r. evict_while (\<lambda>m. limit \<le> length (filter (\<lambda>(_, v). matches v) m))
                (remove_oldest_where created matches) m = Some r
    \<and> length (filter (\<lambda>(_, v). matches v) r) < limit \<and> evicts_oldest created matches m r"
proof -
  have ne: "filter (\<lambda>(_, v). matches v) x \<noteq> []"
    if "limit \<le> length (filter (\<lambda>(_, v). matches v) x)" for x :: "(str \<times> 'a) list"
    using that assms(2) by auto
  have "\<exists>r. evict_while (\<lambda>m. limit \<le> length (filter (\<lambda>(_, v). matches v) m))
                (remove_oldest_where created matches) m = Some r
    \<and> \<not> limit \<le> length (filter (\<lambda>(_, v). matches v) r) \<and> evicts_oldest created matches m r"
  proof (rule evict_while_total)
    fix x :: "(str \<times> 'a) list"
    assume "limit \<le> length (filter (\<lambda>(_, v). matches v) x)"
    from ne [OF this] show "length (remove_oldest_where created matches x) < length x"
      by (elim remove_oldest_where_cases [where created = created])
         (simp add: length_al_remove_less)
  next
    fix x
    assume "evicts_oldest created matches m x" "limit \<le> length (filter (\<lambda>(_, v). matches v) x)"
    then show "evicts_oldest created matches m (remove_oldest_where created matches x)"
      using ne by (intro evicts_oldest_step)
  qed (simp add: evicts_oldest_refl assms(1))
  then show ?thesis by (simp add: not_le)
qed

lemma evict_to_total:
  assumes "distinct (al_keys m)" and "0 < limit"
  shows "\<exists>r. evict_while (\<lambda>m. limit \<le> length m) (remove_oldest_where created (\<lambda>_. True)) m = Some r
    \<and> length r < limit \<and> evicts_oldest created (\<lambda>_. True) m r"
  using evict_to_limit [OF assms, where matches = "\<lambda>_. True" and created = created]
  by (simp add: case_prod_unfold)

lemma evict_while_not_over: "\<not> over m \<Longrightarrow> evict_while over evict m = Some m"
  by (subst evict_while.simps) simp

section \<open>Invariants\<close>

definition one_per_principal :: "(str \<times> session) list \<Rightarrow> bool" where
  "one_per_principal m \<longleftrightarrow>
     (\<forall>t s t' s'. (t, s) \<in> set m \<longrightarrow> (t', s') \<in> set m \<longrightarrow> principal s = principal s' \<longrightarrow> t = t')"

lemma one_per_principal_subset: "one_per_principal m \<Longrightarrow> set r \<subseteq> set m \<Longrightarrow> one_per_principal r"
  unfolding one_per_principal_def by blast

lemma one_per_principal_Nil [simp]: "one_per_principal []"
  by (simp add: one_per_principal_def)

definition session_store_inv :: "session_store \<Rightarrow> bool" where
  "session_store_inv store \<longleftrightarrow>
     0 < ss_max_total store \<and> distinct (al_keys (sessions store))
     \<and> length (sessions store) \<le> ss_max_total store
     \<and> one_per_principal (sessions store)"

lemma session_store_inv_subset:
  assumes "session_store_inv store" and "set m \<subseteq> set (sessions store)"
    and "distinct (al_keys m)" and "length m \<le> length (sessions store)"
  shows "session_store_inv (store\<lparr>sessions := m\<rparr>)"
  using assms one_per_principal_subset [OF _ assms(2)] by (simp add: session_store_inv_def)

lemma session_store_inv_retain:
  "session_store_inv store \<Longrightarrow> session_store_inv (store\<lparr>sessions := al_retain P (sessions store)\<rparr>)"
  by (rule session_store_inv_subset) (auto simp: session_store_inv_def intro: distinct_al_retain)

lemma session_store_inv_remove:
  "session_store_inv store \<Longrightarrow> session_store_inv (store\<lparr>sessions := al_remove t (sessions store)\<rparr>)"
  by (rule session_store_inv_subset) (auto simp: session_store_inv_def intro: distinct_al_remove)

lemma set_al_insert [simp]: "set (al_insert k v m) = insert (k, v) {(k', v') \<in> set m. k' \<noteq> k}"
  by (auto simp: al_insert_def)

lemma length_al_insert: "length (al_insert k v m) \<le> Suc (length m)"
  by (simp add: al_insert_def)

lemma create_for_total:
  fixes store :: session_store and who :: session_principal and token :: str and now :: instant
  assumes inv: "session_store_inv store"
  defines "kept \<equiv> al_retain (\<lambda>_ s. now - created_at s \<le> SESSION_TTL \<and> principal s \<noteq> who) (sessions store)"
  shows "\<exists>room. create_for store who token now
      = Some (store\<lparr>sessions := al_insert token \<lparr>created_at = now, principal = who\<rparr> room\<rparr>)
    \<and> length room < ss_max_total store \<and> evicts_oldest created_at (\<lambda>_. True) kept room
    \<and> (length kept < ss_max_total store \<longrightarrow> room = kept)"
proof -
  have d: "distinct (al_keys kept)" and pos: "0 < ss_max_total store"
    using inv by (auto simp: kept_def session_store_inv_def intro: distinct_al_retain)
  from evict_to_total [OF d pos, where created = created_at] obtain room where room:
    "evict_while (\<lambda>m. ss_max_total store \<le> length m) (remove_oldest_where created_at (\<lambda>_. True)) kept = Some room"
    "length room < ss_max_total store" "evicts_oldest created_at (\<lambda>_. True) kept room"
    by blast
  have same: "room = kept" if "length kept < ss_max_total store"
    using room(1) that by (simp add: evict_while_not_over)
  have "create_for store who token now
      = Some (store\<lparr>sessions := al_insert token \<lparr>created_at = now, principal = who\<rparr> room\<rparr>)"
    using room(1) by (simp add: create_for_def Let_def flip: kept_def)
  with room same show ?thesis by blast
qed

lemma create_for_inv:
  assumes inv: "session_store_inv store" and res: "create_for store who token now = Some store'"
  shows "session_store_inv store'"
proof -
  obtain room where store': "store' = store\<lparr>sessions := al_insert token \<lparr>created_at = now, principal = who\<rparr> room\<rparr>"
    and len: "length room < ss_max_total store"
    and sub: "evicts_oldest created_at (\<lambda>_. True)
      (al_retain (\<lambda>_ s. now - created_at s \<le> SESSION_TTL \<and> principal s \<noteq> who) (sessions store)) room"
    using create_for_total [OF inv, of who token now] res by auto
  have old: "(t, s) \<in> set (sessions store) \<and> principal s \<noteq> who" if "(t, s) \<in> set room" for t s
    using sub that by (auto simp: evicts_oldest_def)
  have d: "distinct (al_keys (al_insert token \<lparr>created_at = now, principal = who\<rparr> room))"
    using sub by (auto simp: evicts_oldest_def)
  have "length (al_insert token \<lparr>created_at = now, principal = who\<rparr> room) \<le> ss_max_total store"
    using length_al_insert [of token "\<lparr>created_at = now, principal = who\<rparr>" room] len by linarith
  moreover have "one_per_principal (al_insert token \<lparr>created_at = now, principal = who\<rparr> room)"
    unfolding one_per_principal_def
  proof (intro allI impI)
    fix t s t' s'
    assume mem: "(t, s) \<in> set (al_insert token \<lparr>created_at = now, principal = who\<rparr> room)"
      "(t', s') \<in> set (al_insert token \<lparr>created_at = now, principal = who\<rparr> room)"
      and same: "principal s = principal s'"
    have uniq: "t = t'" if "(t, s) \<in> set room" "(t', s') \<in> set room"
      using old [OF that(1)] old [OF that(2)] same inv
      unfolding session_store_inv_def one_per_principal_def by blast
    show "t = t'"
      using mem same uniq by (auto dest: old)
  qed
  ultimately show ?thesis
    using d inv unfolding store' session_store_inv_def by auto
qed

text \<open>The calls that change a session store, as one step relation.\<close>

inductive session_step :: "session_store \<Rightarrow> session_store \<Rightarrow> bool" where
  step_create: "create_for store who token now = Some store' \<Longrightarrow> session_step store store'"
| step_lookup: "session_step store (snd (principal_of store token now))"
| step_clear: "session_step store (clear_sessions store)"
| step_revoke_administrator: "session_step store (revoke_administrator store)"
| step_revoke_user: "session_step store (revoke_user store user_id)"
| step_cleanup: "session_step store (cleanup_sessions store now)"
| step_logout: "session_step store
     (fst (revoke_browser_credentials store gate folder session_token gate_token cookies))"

inductive_cases session_stepE: "session_step store store'"

inductive session_reachable :: "nat \<Rightarrow> session_store \<Rightarrow> bool" for limit where
  reach_new: "session_reachable limit (session_store_with_limit limit)"
| reach_step: "session_reachable limit store \<Longrightarrow> session_step store store' \<Longrightarrow>
     session_reachable limit store'"

lemma session_step_inv:
  assumes "session_step store store'" and "session_store_inv store"
  shows "session_store_inv store'"
  using assms
proof (cases rule: session_step.cases)
  case (step_create who token now)
  with assms(2) show ?thesis by (blast intro: create_for_inv)
next
  case (step_lookup token now)
  with assms(2) show ?thesis
    by (auto simp: principal_of_def session_store_inv_remove split: option.splits)
next
  case step_clear
  with assms(2) show ?thesis by (auto simp: clear_sessions_def session_store_inv_def)
next
  case (step_logout gate folder session_token gate_token cookies)
  with assms(2) show ?thesis
    by (auto simp: revoke_browser_credentials_def session_store_inv_remove split: option.splits)
qed (simp_all add: revoke_administrator_def revoke_user_def cleanup_sessions_def session_store_inv_retain assms(2))

lemma session_reachable_inv: "session_reachable limit store \<Longrightarrow> session_store_inv store"
proof (induction rule: session_reachable.induct)
  case reach_new
  show ?case by (simp add: session_store_inv_def session_store_with_limit_def less_max_iff_disj)
next
  case (reach_step store store')
  then show ?case by (blast intro: session_step_inv)
qed

definition access_store_inv :: "access_token_store \<Rightarrow> bool" where
  "access_store_inv store \<longleftrightarrow>
     0 < at_max_total store \<and> 0 < max_per_scope store \<and> distinct (al_keys (accesses store))
     \<and> length (accesses store) \<le> at_max_total store
     \<and> (\<forall>sc. scope_count sc (accesses store) \<le> max_per_scope store)"

lemma access_store_inv_shrink:
  assumes "access_store_inv store" and "distinct (al_keys m)" and "length m \<le> length (accesses store)"
    and "\<And>sc. scope_count sc m \<le> scope_count sc (accesses store)"
  shows "access_store_inv (store\<lparr>accesses := m\<rparr>)"
  using assms by (auto simp: access_store_inv_def intro: order_trans)

lemma scope_count_filter: "scope_count sc (filter P m) \<le> scope_count sc m"
  by (induction m) (auto simp: scope_count_def)

lemma access_store_inv_filter:
  "access_store_inv store \<Longrightarrow> access_store_inv (store\<lparr>accesses := filter P (accesses store)\<rparr>)"
  by (rule access_store_inv_shrink)
     (auto simp: access_store_inv_def scope_count_filter intro: distinct_map_filter)

lemma scope_count_subset:
  assumes "distinct (al_keys r)" and "set r \<subseteq> set m"
  shows "scope_count sc r \<le> scope_count sc m"
proof -
  have d: "distinct r" using assms(1) by (simp add: distinct_map)
  have "set (filter (\<lambda>(_, a). scope a = sc) r) \<subseteq> set (filter (\<lambda>(_, a). scope a = sc) m)"
    using assms(2) by auto
  then have "card (set (filter (\<lambda>(_, a). scope a = sc) r)) \<le> card (set (filter (\<lambda>(_, a). scope a = sc) m))"
    by (intro card_mono) auto
  also have "\<dots> \<le> length (filter (\<lambda>(_, a). scope a = sc) m)"
    by (rule card_length)
  finally show ?thesis
    using distinct_card [OF distinct_filter [OF d]] unfolding scope_count_def by metis
qed

lemma scope_count_al_insert:
  "scope_count sc (al_insert k v m) \<le> (if scope v = sc then Suc (scope_count sc m) else scope_count sc m)"
  using scope_count_filter [of sc _ m]
  by (auto simp: al_insert_def al_remove_def scope_count_def)

lemma create_access_total:
  fixes store :: access_token_store and sc token :: str and now :: instant
  assumes inv: "access_store_inv store"
  shows "\<exists>room. create_access store sc token now
      = Some (store\<lparr>accesses := al_insert token \<lparr>scope = sc, ag_created_at = now\<rparr> room\<rparr>)
    \<and> length room < at_max_total store \<and> scope_count sc room < max_per_scope store
    \<and> distinct (al_keys room)
    \<and> set room \<subseteq> {(t, a) \<in> set (accesses store). now - ag_created_at a \<le> ACCESS_TOKEN_TTL}"
proof -
  let ?kept = "al_retain (\<lambda>_ a. now - ag_created_at a \<le> ACCESS_TOKEN_TTL) (accesses store)"
  have d: "distinct (al_keys ?kept)" and pos: "0 < at_max_total store" "0 < max_per_scope store"
    using inv by (auto simp: access_store_inv_def intro: distinct_al_retain)
  from evict_to_limit [OF d pos(2), where created = ag_created_at and matches = "\<lambda>a. scope a = sc"]
  obtain r where r: "evict_while (\<lambda>m. max_per_scope store \<le> scope_count sc m)
      (remove_oldest_where ag_created_at (\<lambda>a. scope a = sc)) ?kept = Some r"
    "scope_count sc r < max_per_scope store" "evicts_oldest ag_created_at (\<lambda>a. scope a = sc) ?kept r"
    unfolding scope_count_def by blast
  then have dr: "distinct (al_keys r)" by (simp add: evicts_oldest_def)
  from evict_to_total [OF dr pos(1), where created = ag_created_at] obtain room where room:
    "evict_while (\<lambda>m. at_max_total store \<le> length m) (remove_oldest_where ag_created_at (\<lambda>_. True)) r = Some room"
    "length room < at_max_total store" "evicts_oldest ag_created_at (\<lambda>_. True) r room"
    by blast
  have "scope_count sc room < max_per_scope store"
    using room(3) r(2) scope_count_subset [of room r sc] by (simp add: evicts_oldest_def)
  moreover have "set room \<subseteq> set ?kept"
    using room(3) r(3) by (auto simp: evicts_oldest_def)
  ultimately show ?thesis
    using r room by (auto simp: create_access_def Let_def evicts_oldest_def)
qed

lemma create_access_inv:
  assumes inv: "access_store_inv store" and res: "create_access store sc token now = Some store'"
  shows "access_store_inv store'"
proof -
  let ?new = "\<lparr>scope = sc, ag_created_at = now\<rparr>"
  obtain room where store': "store' = store\<lparr>accesses := al_insert token ?new room\<rparr>"
    and len: "length room < at_max_total store" and cnt: "scope_count sc room < max_per_scope store"
    and d: "distinct (al_keys room)" and sub: "set room \<subseteq> set (accesses store)"
    using create_access_total [OF inv, of sc token now] res by auto
  have total: "length (al_insert token ?new room) \<le> at_max_total store"
    using length_al_insert [of token ?new room] len by linarith
  have "scope_count sc' (al_insert token ?new room) \<le> max_per_scope store" for sc'
  proof (cases "sc' = sc")
    case True
    with cnt scope_count_al_insert [of sc token ?new room] show ?thesis by simp
  next
    case False
    then have "scope_count sc' (al_insert token ?new room) \<le> scope_count sc' room"
      using scope_count_al_insert [of sc' token ?new room] by simp
    also have "\<dots> \<le> scope_count sc' (accesses store)"
      using d sub by (rule scope_count_subset)
    also have "\<dots> \<le> max_per_scope store"
      using inv by (simp add: access_store_inv_def)
    finally show ?thesis .
  qed
  with total d inv show ?thesis
    unfolding store' access_store_inv_def by auto
qed

inductive access_step :: "access_token_store \<Rightarrow> access_token_store \<Rightarrow> bool" where
  acc_create: "create_access store sc token now = Some store' \<Longrightarrow> access_step store store'"
| acc_lookup: "access_step store (snd (get_scope store token now))"
| acc_remove_scope: "access_step store (remove_scope store sc)"
| acc_clear: "access_step store (clear_accesses store)"
| acc_cleanup: "access_step store (cleanup_accesses store now)"
| acc_logout_gate: "access_step store
     (fst (snd (revoke_browser_credentials ss store folder session_token gate_token cookies)))"
| acc_logout_folder: "access_step store
     (snd (snd (revoke_browser_credentials ss gate store session_token gate_token cookies)))"

inductive access_reachable :: "nat \<Rightarrow> nat \<Rightarrow> access_token_store \<Rightarrow> bool" for max_total per_scope where
  acc_new: "access_reachable max_total per_scope (access_token_store_with_limits max_total per_scope)"
| acc_step: "access_reachable max_total per_scope store \<Longrightarrow> access_step store store' \<Longrightarrow>
     access_reachable max_total per_scope store'"

lemma fold_al_remove:
  "fold (\<lambda>(_, token) m. al_remove token m) cookies m = filter (\<lambda>(t, _). t \<notin> snd ` set cookies) m"
  by (induction cookies arbitrary: m) (auto simp: al_remove_def intro: filter_cong)

lemma access_step_inv:
  assumes "access_step store store'" and "access_store_inv store"
  shows "access_store_inv store'"
  using assms
proof (cases rule: access_step.cases)
  case (acc_create sc token now)
  with assms(2) show ?thesis by (blast intro: create_access_inv)
next
  case (acc_lookup token now)
  with assms(2) show ?thesis
    by (auto simp: get_scope_def al_remove_def access_store_inv_filter split: option.splits)
next
  case acc_clear
  with assms(2) show ?thesis
    by (simp add: clear_accesses_def access_store_inv_def scope_count_def)
next
  case (acc_logout_gate ss folder session_token gate_token cookies)
  with assms(2) show ?thesis
    by (auto simp: revoke_browser_credentials_def al_remove_def access_store_inv_filter split: option.splits)
next
  case (acc_logout_folder ss gate session_token gate_token cookies)
  with assms(2) show ?thesis
    by (simp add: revoke_browser_credentials_def fold_al_remove access_store_inv_filter)
qed (simp_all add: remove_scope_def cleanup_accesses_def al_retain_def access_store_inv_filter assms(2))

lemma access_reachable_inv: "access_reachable max_total per_scope store \<Longrightarrow> access_store_inv store"
proof (induction rule: access_reachable.induct)
  case acc_new
  show ?case
    by (simp add: access_store_inv_def access_token_store_with_limits_def scope_count_def less_max_iff_disj)
next
  case (acc_step store store')
  then show ?case by (blast intro: access_step_inv)
qed

lemma session_step_limit: "session_step store store' \<Longrightarrow> ss_max_total store' = ss_max_total store"
  by (erule session_step.cases)
     (auto simp: create_for_def Let_def principal_of_def clear_sessions_def revoke_administrator_def
       revoke_user_def cleanup_sessions_def revoke_browser_credentials_def split: option.splits)

lemma session_reachable_limit: "session_reachable limit store \<Longrightarrow> ss_max_total store = max limit 1"
  by (induction rule: session_reachable.induct)
     (auto simp: session_store_with_limit_def session_step_limit)

lemma access_step_limits:
  "access_step store store' \<Longrightarrow>
   at_max_total store' = at_max_total store \<and> max_per_scope store' = max_per_scope store"
  by (erule access_step.cases)
     (auto simp: create_access_def Let_def get_scope_def remove_scope_def clear_accesses_def
       cleanup_accesses_def revoke_browser_credentials_def bind_eq_Some_conv split: option.splits)

lemma access_reachable_limits:
  "access_reachable max_total per_scope store \<Longrightarrow>
   at_max_total store = max max_total 1 \<and> max_per_scope store = max per_scope 1"
  by (induction rule: access_reachable.induct)
     (auto simp: access_token_store_with_limits_def access_step_limits)

section \<open>Properties\<close>

text \<open>
  C12: every account has at most one browser session. In every state a session store can reach
  through its operations, in any order and at any clock readings, tokens are distinct, no two
  tokens belong to the same principal, the store never holds more than its limit, and creating a
  session always returns.
\<close>

theorem session_store_single_session:
  assumes "session_reachable limit store"
  shows "distinct (al_keys (sessions store)) \<and> one_per_principal (sessions store)
    \<and> length (sessions store) \<le> max limit 1
    \<and> (\<exists>store'. create_for store who token now = Some store')"
  using session_reachable_inv [OF assms] session_reachable_limit [OF assms]
    create_for_total [OF session_reachable_inv [OF assms], of who token now]
  by (auto simp: session_store_inv_def)

theorem session_store_single_session_witness:
  "session_reachable 2 \<lparr>sessions = [(''t1'', \<lparr>created_at = 5, principal = User ''u''\<rparr>)], ss_max_total = 2\<rparr>
   \<and> one_per_principal [(''t1'', \<lparr>created_at = 5, principal = User ''u''\<rparr>)]"
proof -
  have c: "create_for (session_store_with_limit 2) (User ''u'') ''t1'' 5
      = Some \<lparr>sessions = [(''t1'', \<lparr>created_at = 5, principal = User ''u''\<rparr>)], ss_max_total = 2\<rparr>"
    by (simp add: create_for_def session_store_with_limit_def al_retain_def al_insert_def al_remove_def
        evict_while.simps)
  have h: "session_reachable 2 \<lparr>sessions = [(''t1'', \<lparr>created_at = 5, principal = User ''u''\<rparr>)], ss_max_total = 2\<rparr>"
    by (rule reach_step [OF reach_new]) (rule step_create [OF c])
  show ?thesis using h session_store_single_session [OF h] by simp
qed

text \<open>
  A login replaces the account's previous session and nothing else. After creating a session,
  the new token names the account for exactly the session lifetime; a token that is still accepted
  was accepted before with the same principal, and that principal is another account; and when the
  live sessions of the other accounts leave room, each of them is still accepted.
\<close>

lemma create_for_replaces:
  assumes "session_reachable limit store"
  shows "\<exists>store'. create_for store who token now = Some store'
    \<and> (\<forall>later. fst (principal_of store' token later) = (if later - now \<le> SESSION_TTL then Some who else None))
    \<and> (\<forall>t p. t \<noteq> token \<longrightarrow> fst (principal_of store' t now) = Some p \<longrightarrow>
          p \<noteq> who \<and> fst (principal_of store t now) = Some p)
    \<and> (length (al_retain (\<lambda>_ s. now - created_at s \<le> SESSION_TTL \<and> principal s \<noteq> who) (sessions store))
          < max limit 1 \<longrightarrow>
        (\<forall>t p. t \<noteq> token \<longrightarrow> p \<noteq> who \<longrightarrow> fst (principal_of store t now) = Some p \<longrightarrow>
          fst (principal_of store' t now) = Some p))"
proof -
  let ?kept = "al_retain (\<lambda>_ s. now - created_at s \<le> SESSION_TTL \<and> principal s \<noteq> who) (sessions store)"
  note inv = session_reachable_inv [OF assms]
  have d: "distinct (al_keys (sessions store))" using inv by (simp add: session_store_inv_def)
  obtain room where c: "create_for store who token now
      = Some (store\<lparr>sessions := al_insert token \<lparr>created_at = now, principal = who\<rparr> room\<rparr>)"
    and ev: "evicts_oldest created_at (\<lambda>_. True) ?kept room"
    and same: "length ?kept < ss_max_total store \<longrightarrow> room = ?kept"
    using create_for_total [OF inv, of who token now] by blast
  let ?store' = "store\<lparr>sessions := al_insert token \<lparr>created_at = now, principal = who\<rparr> room\<rparr>"
  have dr: "distinct (al_keys room)" using ev by (simp add: evicts_oldest_def)
  have new: "fst (principal_of ?store' token later) = (if later - now \<le> SESSION_TTL then Some who else None)" for later
    by (simp add: principal_of_def)
  have kept: "p \<noteq> who \<and> fst (principal_of store t now) = Some p"
    if "t \<noteq> token" "fst (principal_of ?store' t now) = Some p" for t p
  proof -
    from that obtain s where s: "al_get room t = Some s" "p = principal s"
      by (auto simp: principal_of_def split: option.splits if_splits)
    with dr have "(t, s) \<in> set room" by (simp add: al_get_Some_iff)
    with ev have "(t, s) \<in> set ?kept" unfolding evicts_oldest_def by blast
    then have "al_get (sessions store) t = Some s" "now - created_at s \<le> SESSION_TTL" "principal s \<noteq> who"
      by (simp_all add: al_get_Some_iff [OF d])
    then show ?thesis
      using s(2) by (simp add: principal_of_def)
  qed
  have still: "fst (principal_of ?store' t now) = Some p"
    if "room = ?kept" "t \<noteq> token" "p \<noteq> who" "fst (principal_of store t now) = Some p" for t p
    using that by (auto simp: principal_of_def al_get_retain [OF d] split: option.splits if_splits)
  show ?thesis
  proof (intro exI [of _ ?store'] conjI allI impI)
    fix t p
    assume "t \<noteq> token" "fst (principal_of ?store' t now) = Some p"
    then show "p \<noteq> who" "fst (principal_of store t now) = Some p" using kept by blast+
  next
    fix t p
    assume "length ?kept < max limit 1" "t \<noteq> token" "p \<noteq> who" "fst (principal_of store t now) = Some p"
    then show "fst (principal_of ?store' t now) = Some p"
      using still same session_reachable_limit [OF assms] by simp
  qed (rule c, rule new)
qed

lemma create_for_replaces_witness:
  "session_reachable 4 (session_store_with_limit 4)
   \<and> (\<exists>store'. create_for (session_store_with_limit 4) Administrator ''tok'' 7 = Some store'
        \<and> fst (principal_of store' ''tok'' 7) = Some Administrator)"
proof -
  have h: "session_reachable 4 (session_store_with_limit 4)" by (rule reach_new)
  obtain store' where c: "create_for (session_store_with_limit 4) Administrator ''tok'' 7 = Some store'"
    and later: "\<forall>later. fst (principal_of store' ''tok'' later)
        = (if later - 7 \<le> SESSION_TTL then Some Administrator else None)"
    using create_for_replaces [OF h, of Administrator "''tok''" 7] by blast
  from later [rule_format, of 7] have "fst (principal_of store' ''tok'' 7) = Some Administrator"
    by (simp add: SESSION_TTL_def nanoseconds_def)
  with h c show ?thesis by blast
qed

text \<open>
  Scoped access tokens are bounded twice. In every reachable state the store holds no more
  tokens than its total limit and no scope more than the per-scope limit, and creating a token
  always returns although two eviction loops run.
\<close>

lemma access_tokens_bounded:
  assumes "access_reachable max_total per_scope store"
  shows "length (accesses store) \<le> max max_total 1
    \<and> scope_count sc (accesses store) \<le> max per_scope 1
    \<and> (\<exists>store'. create_access store sc token now = Some store'
         \<and> fst (get_scope store' token now) = Some sc)"
proof -
  note inv = access_reachable_inv [OF assms] and lim = access_reachable_limits [OF assms]
  from create_access_total [OF inv, of sc token now] obtain room where
    "create_access store sc token now
      = Some (store\<lparr>accesses := al_insert token \<lparr>scope = sc, ag_created_at = now\<rparr> room\<rparr>)"
    by blast
  then show ?thesis
    using inv lim by (auto simp: access_store_inv_def get_scope_def ACCESS_TOKEN_TTL_def nanoseconds_def)
qed

lemma access_tokens_bounded_witness:
  "access_reachable 3 2 (access_token_store_with_limits 3 2)
   \<and> length (accesses (access_token_store_with_limits 3 2)) \<le> 3"
proof -
  have h: "access_reachable 3 2 (access_token_store_with_limits 3 2)" by (rule acc_new)
  show ?thesis using h access_tokens_bounded [OF h, of "''s''"] by simp
qed

text \<open>
  Logging out revokes exactly the credentials the browser sent. The three stores afterwards
  answer a lookup with nothing for a received token and with the same entry as before for every
  other token.
\<close>

lemma logout_revokes_exactly:
  assumes "revoke_browser_credentials ss gate folder session_token gate_token cookies = (ss', gate', folder')"
  shows "al_get (sessions ss') t = (if session_token = Some t then None else al_get (sessions ss) t)
    \<and> al_get (accesses gate') t = (if gate_token = Some t then None else al_get (accesses gate) t)
    \<and> al_get (accesses folder') t = (if t \<in> snd ` set cookies then None else al_get (accesses folder) t)"
proof -
  have f: "al_get (filter (\<lambda>(k, _). k \<notin> A) m) t = (if t \<in> A then None else al_get m t)"
    for A and m :: "(str \<times> access_grant) list"
    by (induction m) (auto simp: al_get_def)
  from assms have "accesses folder' = filter (\<lambda>(k, _). k \<notin> snd ` set cookies) (accesses folder)"
    by (auto simp: revoke_browser_credentials_def fold_al_remove)
  then have "al_get (accesses folder') t = (if t \<in> snd ` set cookies then None else al_get (accesses folder) t)"
    by (simp only: f)
  moreover have "al_get (sessions ss') t = (if session_token = Some t then None else al_get (sessions ss) t)"
    using assms by (cases session_token) (auto simp: revoke_browser_credentials_def)
  moreover have "al_get (accesses gate') t = (if gate_token = Some t then None else al_get (accesses gate) t)"
    using assms by (cases gate_token) (auto simp: revoke_browser_credentials_def)
  ultimately show ?thesis by blast
qed

lemma logout_revokes_exactly_witness:
  "revoke_browser_credentials
     \<lparr>sessions = [(''a'', \<lparr>created_at = 0, principal = Administrator\<rparr>)], ss_max_total = 9\<rparr>
     (access_token_store_with_limits 4 4) (access_token_store_with_limits 4 4) (Some ''a'') None []
   = (\<lparr>sessions = [], ss_max_total = 9\<rparr>, access_token_store_with_limits 4 4, access_token_store_with_limits 4 4)
   \<and> al_get (sessions \<lparr>sessions = [], ss_max_total = 9\<rparr>) ''a'' = None"
proof -
  have h: "revoke_browser_credentials
     \<lparr>sessions = [(''a'', \<lparr>created_at = 0, principal = Administrator\<rparr>)], ss_max_total = 9\<rparr>
     (access_token_store_with_limits 4 4) (access_token_store_with_limits 4 4) (Some ''a'') None []
   = (\<lparr>sessions = [], ss_max_total = 9\<rparr>, access_token_store_with_limits 4 4, access_token_store_with_limits 4 4)"
    by (simp add: revoke_browser_credentials_def access_token_store_with_limits_def al_remove_def)
  show ?thesis using h logout_revokes_exactly [OF h, of "''a''"] by simp
qed

end
