(* ===== verification/FileAccess.thy ===== *)
theory FileAccess
  imports Paths Sessions "HOL-Library.Sublist"
begin

text \<open>
  Who may do what with which path (src/src/file_access.rs, the path relations of
  src/src/config.rs) and the batch operations built on it (src/src/batch_operations.rs):
  permissions of administrators, accounts and guests, the storage a request addresses, folder
  locks, and delete, move and copy of a list of paths. The session, the gate token and the cookies
  of a request are given as the values the code looks up; a storage backend is a parameter.
\<close>

section \<open>Paths\<close>

definition logical_components :: "str \<Rightarrow> str list" where
  "logical_components path =
     filter (\<lambda>c. c \<noteq> [] \<and> c \<noteq> ''.'') (split_on CHR ''/'' (trim_matches CHR ''/'' path))"

definition path_is_same_or_descendant :: "str \<Rightarrow> str \<Rightarrow> bool" where
  "path_is_same_or_descendant path ancestor =
     (let ps = logical_components path; qs = logical_components ancestor
      in qs \<noteq> [] \<and> length qs \<le> length ps
         \<and> list_all (\<lambda>(a, b). a = b) (zip (take (length qs) ps) qs))"

definition paths_overlap :: "str \<Rightarrow> str \<Rightarrow> bool" where
  "paths_overlap left right =
     (let ps = logical_components left; qs = logical_components right; shared = min (length ps) (length qs)
      in list_all (\<lambda>(a, b). a = b) (zip (take shared ps) (take shared qs)))"

record share =
  share_id :: str
  share_storage_id :: str
  share_name :: str
  share_path :: str
  share_username :: "str option"
  share_webdav_enabled :: bool
  share_password_hash :: "str option"
  share_readonly :: bool

definition root_share :: "str \<Rightarrow> share" where
  "root_share storage_id =
     \<lparr>share_id = ''root'', share_storage_id = storage_id, share_name = ''__web__'', share_path = [],
      share_username = None, share_webdav_enabled = False, share_password_hash = None,
      share_readonly = False\<rparr>"

definition share_storage_path :: "share \<Rightarrow> str \<Rightarrow> str" where
  "share_storage_path sh request_path =
     (let base = trim_matches CHR ''/'' (share_path sh); path = trim_matches CHR ''/'' request_path
      in if base = [] then path else if path = [] then base else base @ ''/'' @ path)"

definition join_request_path :: "str \<Rightarrow> str \<Rightarrow> str" where
  "join_request_path parent name =
     (let p = trim_matches CHR ''/'' parent; n = trim_matches CHR ''/'' name
      in if p = [] then n else p @ ''/'' @ n)"

definition batch_destination_path :: "str \<Rightarrow> str \<Rightarrow> str app_result" where
  "batch_destination_path target source =
     (let name = last (split_on CHR ''/'' (trim_matches CHR ''/'' source))
      in if name = [] then Inl (BadRequest ''Source path is invalid'')
         else Inr (join_request_path target name))"

definition validate_batch_size :: "str list \<Rightarrow> unit app_result" where
  "validate_batch_size paths =
     (if paths = [] then Inl (BadRequest ''Batch cannot be empty'')
      else if 1000 < length paths then Inl (BadRequest ''Batch exceeds the 1000 item limit'')
      else Inr ())"

definition ensure_writable :: "share \<Rightarrow> unit app_result" where
  "ensure_writable sh = (if share_readonly sh then Inl Forbidden else Inr ())"

definition ensure_non_root :: "str \<Rightarrow> unit app_result" where
  "ensure_non_root path =
     (if trim_matches CHR ''/'' path = []
      then Inl (BadRequest ''The share root cannot be changed by this operation'') else Inr ())"

definition ensure_copy_target_outside_source :: "str \<Rightarrow> str \<Rightarrow> unit app_result" where
  "ensure_copy_target_outside_source source destination =
     (if path_is_same_or_descendant destination source
      then Inl (Conflict ''Destination cannot be the source or its descendant'') else Inr ())"

section \<open>Permissions\<close>

datatype storage_action = Browse | DoDownload | DoUpload | CreateDirectory | Rename | Move | Copy | Delete

record storage_permission =
  sp_storage_id :: str
  sp_browse :: bool
  sp_download :: bool
  sp_upload :: bool
  sp_create_directory :: bool
  sp_rename :: bool
  sp_move_items :: bool
  sp_copy :: bool
  sp_delete :: bool

fun action_allowed :: "storage_permission \<Rightarrow> storage_action \<Rightarrow> bool" where
  "action_allowed p Browse = sp_browse p"
| "action_allowed p DoDownload = sp_download p"
| "action_allowed p DoUpload = sp_upload p"
| "action_allowed p CreateDirectory = sp_create_directory p"
| "action_allowed p Rename = sp_rename p"
| "action_allowed p Move = sp_move_items p"
| "action_allowed p Copy = sp_copy p"
| "action_allowed p Delete = sp_delete p"

definition grants_any :: "storage_permission \<Rightarrow> bool" where
  "grants_any p \<longleftrightarrow> sp_browse p \<or> sp_download p \<or> sp_upload p \<or> sp_create_directory p \<or> sp_rename p
     \<or> sp_move_items p \<or> sp_copy p \<or> sp_delete p"

definition grants_write :: "storage_permission \<Rightarrow> bool" where
  "grants_write p \<longleftrightarrow> sp_upload p \<or> sp_create_directory p \<or> sp_rename p \<or> sp_move_items p
     \<or> sp_copy p \<or> sp_delete p"

record local_storage_config =
  lsc_mount_id :: str
  lsc_capacity_limit_bytes :: "nat option"

datatype s3_provider = AlibabaOss | TencentCos | Minio | S3Compatible

datatype s3_addressing_style = PathStyle | VirtualHosted

record s3_storage_config =
  s3_provider :: s3_provider
  s3_endpoint :: str
  s3_bucket :: str
  s3_region :: str
  s3_prefix :: str
  s3_addressing_style :: s3_addressing_style
  s3_access_key_id :: str
  s3_secret_access_key :: str
  s3_relay_upload :: bool
  s3_capacity_limit_bytes :: "nat option"

datatype storage_backend_config = LocalBackend local_storage_config | S3Backend s3_storage_config

record storage_instance =
  inst_id :: str
  inst_name :: str
  inst_enabled :: bool
  inst_allow_guest_access :: bool
  inst_allow_guest_download :: "bool option"
  inst_backend :: storage_backend_config

definition update_guest_access :: "bool \<Rightarrow> bool option \<Rightarrow> storage_instance \<Rightarrow> storage_instance" where
  "update_guest_access access download inst =
     inst\<lparr>inst_allow_guest_access := access,
          inst_allow_guest_download :=
            (if access then (case download of Some d \<Rightarrow> Some d | None \<Rightarrow> inst_allow_guest_download inst)
             else Some False)\<rparr>"

record user_account =
  ua_id :: str
  ua_username :: str
  ua_password_hash :: str
  ua_enabled :: bool
  ua_permissions :: "storage_permission list"

record folder_lock =
  lock_id :: str
  lock_storage_id :: str
  lock_path :: str
  lock_password_hash :: str

record access_config =
  storage_instances :: "storage_instance list"
  user_accounts :: "user_account list"
  folder_locks :: "folder_lock list"

text \<open>
  What a request carries, after lookup: its principal, its gate token and the scope that token
  opens, the folder cookies and their scopes.
\<close>

record request_info =
  rq_principal :: "session_principal option"
  rq_gate_token :: "str option"
  rq_gate_scope :: "str \<Rightarrow> str option"
  rq_cookie :: "str \<Rightarrow> str option"
  rq_folder_scope :: "str \<Rightarrow> str option"

definition full_permission :: "str \<Rightarrow> storage_permission" where
  "full_permission storage_id =
     \<lparr>sp_storage_id = storage_id, sp_browse = True, sp_download = True, sp_upload = True,
      sp_create_directory = True, sp_rename = True, sp_move_items = True, sp_copy = True, sp_delete = True\<rparr>"

definition guest_permission :: "storage_instance \<Rightarrow> str \<Rightarrow> storage_permission" where
  "guest_permission inst storage_id =
     \<lparr>sp_storage_id = storage_id, sp_browse = True,
      sp_download = (case inst_allow_guest_download inst of Some d \<Rightarrow> d | None \<Rightarrow> True),
      sp_upload = False, sp_create_directory = False, sp_rename = False, sp_move_items = False,
      sp_copy = False, sp_delete = False\<rparr>"

definition permission_for :: "access_config \<Rightarrow> request_info \<Rightarrow> str \<Rightarrow> storage_permission option" where
  "permission_for cfg rq storage_id =
     (case List.find (\<lambda>i. inst_id i = storage_id \<and> inst_enabled i) (storage_instances cfg) of
        None \<Rightarrow> None
      | Some inst \<Rightarrow>
          (case rq_principal rq of
             Some Administrator \<Rightarrow> Some (full_permission storage_id)
           | Some (User uid) \<Rightarrow>
               (case List.find (\<lambda>a. ua_id a = uid \<and> ua_enabled a) (user_accounts cfg) of
                  None \<Rightarrow> None
                | Some a \<Rightarrow> List.find (\<lambda>p. sp_storage_id p = storage_id) (ua_permissions a))
           | None \<Rightarrow>
               (case Option.bind (rq_gate_token rq) (rq_gate_scope rq) of
                  None \<Rightarrow> None
                | Some _ \<Rightarrow>
                    if inst_allow_guest_access inst then Some (guest_permission inst storage_id) else None)))"

definition ensure_storage_action ::
  "access_config \<Rightarrow> request_info \<Rightarrow> str \<Rightarrow> storage_action \<Rightarrow> unit app_result" where
  "ensure_storage_action cfg rq storage_id action =
     (case permission_for cfg rq storage_id of
        Some p \<Rightarrow> if action_allowed p action then Inr () else Inl Forbidden
      | None \<Rightarrow> Inl Forbidden)"

section \<open>The storage a request addresses\<close>

definition first_browsable ::
  "access_config \<Rightarrow> request_info \<Rightarrow> (str \<Rightarrow> bool) \<Rightarrow> str list \<Rightarrow> str option" where
  "first_browsable cfg rq ready candidates =
     List.find (\<lambda>sid. ready sid \<and> (case permission_for cfg rq sid of Some p \<Rightarrow> sp_browse p | None \<Rightarrow> False)) candidates"

text \<open>Errors are HTTP status codes.\<close>

definition resolve_share ::
  "access_config \<Rightarrow> request_info \<Rightarrow> (str \<Rightarrow> bool) \<Rightarrow> str option \<Rightarrow> nat + share" where
  "resolve_share cfg rq ready requested =
     (let enabled = map inst_id (filter inst_enabled (storage_instances cfg))
      in if (case requested of Some r \<Rightarrow> r \<notin> set enabled | None \<Rightarrow> False) then Inl 403
         else case first_browsable cfg rq ready (case requested of Some r \<Rightarrow> [r] | None \<Rightarrow> enabled) of
                Some sid \<Rightarrow> Inr (root_share sid)
              | None \<Rightarrow>
                  if rq_principal rq \<noteq> None \<or> rq_gate_token rq \<noteq> None then Inl 403 else Inl 401)"

definition resolve_write_share ::
  "access_config \<Rightarrow> request_info \<Rightarrow> (str \<Rightarrow> bool) \<Rightarrow> str option \<Rightarrow> share app_result" where
  "resolve_write_share cfg rq ready requested =
     (case resolve_share cfg rq ready requested of
        Inl st \<Rightarrow> Inl (from_status st)
      | Inr sh \<Rightarrow>
          if requested = None
             \<and> (length (storage_instances cfg) \<noteq> 1 \<or> inst_id (storage_instances cfg ! 0) \<noteq> share_storage_id sh)
          then Inl (BadRequest ''File writes must name a storage_id'')
          else Inr sh)"

section \<open>Folder locks\<close>

definition lock_matches :: "folder_lock \<Rightarrow> str \<Rightarrow> str \<Rightarrow> bool" where
  "lock_matches lock storage_id path \<longleftrightarrow>
     lock_storage_id lock = storage_id \<and> path_is_same_or_descendant path (lock_path lock)"

record lock_authorizer =
  au_storage_id :: str
  au_locks :: "folder_lock list"
  au_authorized :: "str list"

definition authorizer_new :: "access_config \<Rightarrow> request_info \<Rightarrow> str \<Rightarrow> lock_authorizer" where
  "authorizer_new cfg rq storage_id =
     (let locks = filter (\<lambda>l. lock_storage_id l = storage_id) (folder_locks cfg)
      in \<lparr>au_storage_id = storage_id, au_locks = locks,
          au_authorized =
            map lock_id (filter (\<lambda>l.
              case rq_cookie rq (''folder_key_'' @ lock_id l) of
                None \<Rightarrow> False
              | Some token \<Rightarrow> rq_folder_scope rq token = Some (lock_id l)) locks)\<rparr>)"

definition is_locked :: "lock_authorizer \<Rightarrow> str \<Rightarrow> bool" where
  "is_locked au path =
     list_ex (\<lambda>l. lock_id l \<notin> set (au_authorized au))
       (filter (\<lambda>l. lock_matches l (au_storage_id au) path) (au_locks au))"

definition is_tree_locked :: "lock_authorizer \<Rightarrow> str \<Rightarrow> bool" where
  "is_tree_locked au path =
     list_ex (\<lambda>l. lock_id l \<notin> set (au_authorized au))
       (filter (\<lambda>l. lock_storage_id l = au_storage_id au \<and> paths_overlap path (lock_path l)) (au_locks au))"

definition ensure_access :: "lock_authorizer \<Rightarrow> str \<Rightarrow> unit app_result" where
  "ensure_access au path = (if is_locked au path then Inl Forbidden else Inr ())"

definition ensure_tree_access :: "lock_authorizer \<Rightarrow> str \<Rightarrow> unit app_result" where
  "ensure_tree_access au path = (if is_tree_locked au path then Inl Forbidden else Inr ())"

definition check_folder_locks :: "access_config \<Rightarrow> request_info \<Rightarrow> str \<Rightarrow> str \<Rightarrow> unit app_result" where
  "check_folder_locks cfg rq storage_id path = ensure_access (authorizer_new cfg rq storage_id) path"

definition check_folder_lock_tree :: "access_config \<Rightarrow> request_info \<Rightarrow> str \<Rightarrow> str \<Rightarrow> unit app_result" where
  "check_folder_lock_tree cfg rq storage_id path = ensure_tree_access (authorizer_new cfg rq storage_id) path"

section \<open>Batch operations\<close>

datatype batch_operation = BatchDelete | BatchMove | BatchCopy

text \<open>A storage backend with its state: each operation answers and changes the state.\<close>

record 'b backend_ops =
  backend_remove :: "str \<Rightarrow> 'b \<Rightarrow> unit app_result \<times> 'b"
  backend_move :: "str \<Rightarrow> str \<Rightarrow> 'b \<Rightarrow> unit app_result \<times> 'b"
  backend_copy :: "str \<Rightarrow> str \<Rightarrow> 'b \<Rightarrow> unit app_result \<times> 'b"

record batch_item_result =
  br_path :: str
  br_status :: nat
  br_code :: str
  br_message :: str
  br_operation :: "operation_outcome option"

definition item_guards :: "lock_authorizer \<Rightarrow> share \<Rightarrow> batch_operation \<Rightarrow> str \<Rightarrow> str \<Rightarrow> (str \<times> str) app_result" where
  "item_guards au sh op target path =
     rbind (ensure_non_root path) (\<lambda>_.
     rbind (ensure_tree_access au (share_storage_path sh path)) (\<lambda>_.
       let source = share_storage_path sh path
       in if op = BatchDelete then Inr (source, [])
          else rbind (batch_destination_path target path) (\<lambda>destination_path.
               rbind (ensure_copy_target_outside_source path destination_path) (\<lambda>_.
               rbind (ensure_tree_access au (share_storage_path sh destination_path)) (\<lambda>_.
                 Inr (source, share_storage_path sh destination_path))))))"

definition execute_item ::
  "'b backend_ops \<Rightarrow> lock_authorizer \<Rightarrow> share \<Rightarrow> batch_operation \<Rightarrow> str \<Rightarrow> str \<Rightarrow> 'b \<Rightarrow> unit app_result \<times> 'b" where
  "execute_item ops au sh op target path st =
     (case item_guards au sh op target path of
        Inl e \<Rightarrow> (Inl e, st)
      | Inr (source, destination) \<Rightarrow>
          (case op of
             BatchDelete \<Rightarrow> backend_remove ops source st
           | BatchMove \<Rightarrow> backend_move ops source destination st
           | BatchCopy \<Rightarrow> backend_copy ops source destination st))"

definition item_result :: "str \<Rightarrow> unit app_result \<Rightarrow> batch_item_result" where
  "item_result path outcome =
     (case outcome of
        Inr _ \<Rightarrow> \<lparr>br_path = path, br_status = 200, br_code = ''ok'', br_message = ''Completed'', br_operation = None\<rparr>
      | Inl e \<Rightarrow> \<lparr>br_path = path, br_status = status e, br_code = code e, br_message = public_message e,
                  br_operation = operation e\<rparr>)"

fun execute_items ::
  "'b backend_ops \<Rightarrow> lock_authorizer \<Rightarrow> share \<Rightarrow> batch_operation \<Rightarrow> str \<Rightarrow> str list \<Rightarrow> 'b
    \<Rightarrow> batch_item_result list \<times> 'b" where
  "execute_items ops au sh op target [] st = ([], st)"
| "execute_items ops au sh op target (path # paths) st =
     (let (outcome, st) = execute_item ops au sh op target path st;
          (results, st) = execute_items ops au sh op target paths st
      in (item_result path outcome # results, st))"

record batch_response =
  bs_status :: nat
  bs_success :: nat
  bs_failed :: nat
  bs_pending :: nat
  bs_results :: "batch_item_result list"

definition batch_response_of :: "batch_item_result list \<Rightarrow> batch_response" where
  "batch_response_of results =
     (let success = length (filter (\<lambda>r. br_status r < 400
            \<or> (case br_operation r of Some out \<Rightarrow> oo_commit out = Committed | None \<Rightarrow> False)) results);
          pending = length (filter (\<lambda>r.
            case br_operation r of Some out \<Rightarrow> oo_commit out = CommitUnknown | None \<Rightarrow> False) results);
          failed = length results - (success + pending)
      in \<lparr>bs_status = (if failed = 0 \<and> pending = 0 then 200 else if success = 0 then 409 else 207),
          bs_success = success, bs_failed = failed, bs_pending = pending, bs_results = results\<rparr>)"

definition execute_batch ::
  "'b backend_ops \<Rightarrow> access_config \<Rightarrow> request_info \<Rightarrow> (str \<Rightarrow> bool) \<Rightarrow> (str \<Rightarrow> unit app_result) \<Rightarrow> str option
    \<Rightarrow> batch_operation \<Rightarrow> str list \<Rightarrow> str \<Rightarrow> 'b \<Rightarrow> batch_response app_result \<times> 'b" where
  "execute_batch ops cfg rq ready available requested op paths target st =
     (case rbind (resolve_write_share cfg rq ready requested) (\<lambda>sh.
           rbind (ensure_storage_action cfg rq (share_storage_id sh)
                    (case op of BatchDelete \<Rightarrow> Delete | BatchMove \<Rightarrow> Move | BatchCopy \<Rightarrow> Copy)) (\<lambda>_.
           rbind (available (share_storage_id sh)) (\<lambda>_.
           rbind (ensure_writable sh) (\<lambda>_.
           rbind (validate_batch_size paths) (\<lambda>_. Inr sh))))) of
        Inl e \<Rightarrow> (Inl e, st)
      | Inr sh \<Rightarrow>
          let (results, st) = execute_items ops (authorizer_new cfg rq (share_storage_id sh)) sh op target paths st
          in (Inr (batch_response_of results), st))"

section \<open>Locks and the paths that storage uses\<close>

lemma logical_components_normalized:
  assumes "normalize_relative p = Inr n"
  shows "logical_components p = path_components n"
  using normalize_relative_components(1) [OF assms]
  by (simp add: logical_components_def skipped_component_def)

lemma logical_components_safe: "normalize_relative p = Inr n \<Longrightarrow> logical_components n = path_components n"
  using logical_components_normalized storage_path.norm_idem by blast

lemma zip_prefix_iff:
  "length qs \<le> length ps \<and> list_all (\<lambda>(a, b). a = b) (zip (take (length qs) ps) qs) \<longleftrightarrow> prefix qs ps"
proof (induction qs arbitrary: ps)
  case (Cons q qs)
  then show ?case by (cases ps) auto
qed simp

lemma descendant_iff_prefix:
  "path_is_same_or_descendant p a \<longleftrightarrow>
     logical_components a \<noteq> [] \<and> prefix (logical_components a) (logical_components p)"
  using zip_prefix_iff [of "logical_components a" "logical_components p"]
  by (simp add: path_is_same_or_descendant_def Let_def)

lemma overlap_iff_prefix:
  "paths_overlap p q \<longleftrightarrow>
     prefix (logical_components p) (logical_components q) \<or> prefix (logical_components q) (logical_components p)"
proof -
  have "list_all (\<lambda>(a, b). a = b) (zip (take (min (length ps) (length qs)) ps) (take (min (length ps) (length qs)) qs))
      \<longleftrightarrow> prefix ps qs \<or> prefix qs ps" for ps qs :: "str list"
  proof (induction ps arbitrary: qs)
    case (Cons a ps)
    then show ?case by (cases qs) (simp_all, blast)
  qed simp
  then show ?thesis by (simp add: paths_overlap_def Let_def)
qed

lemma is_locked_iff:
  "is_locked au p \<longleftrightarrow>
     (\<exists>l \<in> set (au_locks au). lock_storage_id l = au_storage_id au \<and> lock_id l \<notin> set (au_authorized au)
        \<and> logical_components (lock_path l) \<noteq> [] \<and> prefix (logical_components (lock_path l)) (logical_components p))"
  by (auto simp: is_locked_def lock_matches_def list_ex_iff descendant_iff_prefix)

lemma is_tree_locked_iff:
  "is_tree_locked au p \<longleftrightarrow>
     (\<exists>l \<in> set (au_locks au). lock_storage_id l = au_storage_id au \<and> lock_id l \<notin> set (au_authorized au)
        \<and> (prefix (logical_components p) (logical_components (lock_path l))
           \<or> prefix (logical_components (lock_path l)) (logical_components p)))"
  by (auto simp: is_tree_locked_def list_ex_iff overlap_iff_prefix)

text \<open>A locked path inside a tree locks the tree.\<close>

lemma locked_below_tree_locked:
  assumes "is_locked au x" "prefix (logical_components p) (logical_components x)"
  shows "is_tree_locked au p"
  using assms prefix_same_cases unfolding is_locked_iff is_tree_locked_iff by blast

section \<open>Results of a batch\<close>

lemma status_error: "400 \<le> status e"
  by (induction e rule: status.induct) simp_all

lemma item_result_classes:
  "br_status (item_result p out) < 400 \<Longrightarrow> br_operation (item_result p out) = None"
proof (cases out)
  case (Inl e)
  assume "br_status (item_result p out) < 400"
  then show ?thesis using status_error [of e] Inl by (simp add: item_result_def)
qed (simp add: item_result_def)

lemma item_result_path [simp]: "br_path (item_result p out) = p"
  by (simp add: item_result_def split: sum.splits)

lemma execute_items_results:
  "\<exists>outs. fst (execute_items ops au sh op target paths st) = map2 item_result paths outs \<and> length outs = length paths"
proof (induction paths arbitrary: st)
  case (Cons p paths)
  obtain out st1 where item: "execute_item ops au sh op target p st = (out, st1)" by fastforce
  obtain outs where "fst (execute_items ops au sh op target paths st1) = map2 item_result paths outs"
      "length outs = length paths"
    using Cons by blast
  then show ?case using item
    by (intro exI [of _ "out # outs"]) (simp add: Let_def case_prod_beta)
qed simp

lemma batch_counts:
  assumes "\<And>r. r \<in> set results \<Longrightarrow> br_status r < 400 \<Longrightarrow> br_operation r = None"
  shows "bs_success (batch_response_of results) + bs_failed (batch_response_of results)
      + bs_pending (batch_response_of results) = length results"
proof -
  let ?s = "\<lambda>r. br_status r < 400 \<or> (case br_operation r of Some out \<Rightarrow> oo_commit out = Committed | None \<Rightarrow> False)"
  let ?p = "\<lambda>r. case br_operation r of Some out \<Rightarrow> oo_commit out = CommitUnknown | None \<Rightarrow> False"
  have "length (filter ?s results) + length (filter ?p results) \<le> length results"
    using assms
  proof (induction results)
    case (Cons r rs)
    have "\<not> (?s r \<and> ?p r)" using Cons.prems [of r] by (auto split: option.splits)
    then show ?case using Cons by auto
  qed simp
  then show ?thesis by (simp add: batch_response_of_def Let_def)
qed

section \<open>Properties\<close>

text \<open>
  C28: The folder lock tests, which look at the path of the request, decide by the path that
  storage will really use: for every request path that storage accepts, the answer is that of its
  normal form, and a path is locked exactly when an unauthorised lock of its storage is one of its
  ancestors or the path itself, component by component.
\<close>

theorem lock_test_follows_storage:
  assumes "normalize_relative p = Inr n"
  shows "is_locked au p = is_locked au n \<and> is_tree_locked au p = is_tree_locked au n
    \<and> (is_locked au p \<longleftrightarrow>
        (\<exists>l \<in> set (au_locks au). lock_storage_id l = au_storage_id au \<and> lock_id l \<notin> set (au_authorized au)
           \<and> logical_components (lock_path l) \<noteq> []
           \<and> prefix (logical_components (lock_path l)) (path_components n)))"
  using logical_components_normalized [OF assms] logical_components_safe [OF assms]
  by (simp add: is_locked_iff is_tree_locked_iff)

definition sample_authorizer :: lock_authorizer where
  "sample_authorizer =
     \<lparr>au_storage_id = ''s'', au_locks = [\<lparr>lock_id = ''k'', lock_storage_id = ''s'', lock_path = ''a/b'', lock_password_hash = ''h''\<rparr>],
      au_authorized = []\<rparr>"

theorem lock_test_follows_storage_witness:
  "normalize_relative ''/a//./b/c'' = Inr ''a/b/c''
   \<and> is_locked sample_authorizer ''/a//./b/c'' = is_locked sample_authorizer ''a/b/c''
   \<and> is_locked sample_authorizer ''a/b/c''"
proof -
  have n: "normalize_relative ''/a//./b/c'' = Inr ''a/b/c''" by code_simp
  have "is_locked sample_authorizer ''a/b/c''" by code_simp
  then show ?thesis using lock_test_follows_storage [OF n, of sample_authorizer] n by simp
qed

text \<open>
  C5: Delete, move and copy never touch a locked folder. If anything at or below the source, or
  at or below the destination, is locked for the request, the item is refused and the backend
  keeps its state.
\<close>

theorem batch_never_touches_locked_folder:
  assumes "is_locked au x"
    "prefix (logical_components (share_storage_path sh path)) (logical_components x)
     \<or> op \<noteq> BatchDelete \<and> batch_destination_path target path = Inr destination
       \<and> prefix (logical_components (share_storage_path sh destination)) (logical_components x)"
  shows "(\<exists>e. fst (execute_item ops au sh op target path st) = Inl e)
    \<and> snd (execute_item ops au sh op target path st) = st"
proof -
  have "is_tree_locked au (share_storage_path sh path)
      \<or> op \<noteq> BatchDelete \<and> batch_destination_path target path = Inr destination
        \<and> is_tree_locked au (share_storage_path sh destination)"
    using assms locked_below_tree_locked by blast
  then have "\<exists>e. item_guards au sh op target path = Inl e"
    by (cases "ensure_non_root path"; cases "ensure_copy_target_outside_source path destination")
      (auto simp: item_guards_def ensure_tree_access_def Let_def)
  then show ?thesis by (auto simp: execute_item_def)
qed

definition recording_backend :: "str list backend_ops" where
  "recording_backend =
     \<lparr>backend_remove = (\<lambda>p log. (Inr (), p # log)), backend_move = (\<lambda>p q log. (Inr (), p # q # log)),
      backend_copy = (\<lambda>p q log. (Inr (), p # q # log))\<rparr>"

theorem batch_never_touches_locked_folder_witness:
  "snd (execute_item recording_backend sample_authorizer (root_share ''s'') BatchDelete '''' ''a'' []) = []"
proof -
  have "is_locked sample_authorizer ''a/b''" by code_simp
  moreover have "prefix (logical_components (share_storage_path (root_share ''s'') ''a'')) (logical_components ''a/b'')"
    by code_simp
  ultimately show ?thesis
    using batch_never_touches_locked_folder [of sample_authorizer "''a/b''" "root_share ''s''" "''a''" BatchDelete
        "''''" "''''" recording_backend "[]"] by simp
qed

text \<open>
  C19: A permission is granted only on an enabled storage: the full one to the administrator, to
  an account one of its own entries for that storage while the account is enabled, and to a guest
  only behind an opened gate, on a storage that admits guests, and without any write.
\<close>

theorem permission_for_sound:
  assumes "permission_for cfg rq storage_id = Some p"
  shows "\<exists>inst \<in> set (storage_instances cfg). inst_id inst = storage_id \<and> inst_enabled inst \<and>
    (case rq_principal rq of
       Some Administrator \<Rightarrow> p = full_permission storage_id
     | Some (User uid) \<Rightarrow>
         \<exists>a \<in> set (user_accounts cfg). ua_id a = uid \<and> ua_enabled a \<and> p \<in> set (ua_permissions a)
           \<and> sp_storage_id p = storage_id
     | None \<Rightarrow>
         (\<exists>token scope. rq_gate_token rq = Some token \<and> rq_gate_scope rq token = Some scope)
         \<and> inst_allow_guest_access inst \<and> sp_browse p \<and> \<not> grants_write p
         \<and> (sp_download p \<longleftrightarrow> inst_allow_guest_download inst \<noteq> Some False))"
proof -
  obtain inst where inst: "List.find (\<lambda>i. inst_id i = storage_id \<and> inst_enabled i) (storage_instances cfg) = Some inst"
    using assms by (auto simp: permission_for_def split: option.splits)
  then have mem: "inst \<in> set (storage_instances cfg)" "inst_id inst = storage_id" "inst_enabled inst"
    by (auto simp: find_Some_iff)
  show ?thesis
  proof (cases "rq_principal rq")
    case None
    then have "\<exists>token scope. rq_gate_token rq = Some token \<and> rq_gate_scope rq token = Some scope"
        "inst_allow_guest_access inst" "p = guest_permission inst storage_id"
      using assms inst by (auto simp: permission_for_def split: option.splits if_splits bind_splits)
    then show ?thesis
      using None mem by (intro bexI [of _ inst]) (auto simp: guest_permission_def grants_write_def split: option.splits)
  next
    case (Some pr)
    show ?thesis
    proof (cases pr)
      case Administrator
      then show ?thesis using Some assms inst mem
        by (intro bexI [of _ inst]) (auto simp: permission_for_def)
    next
      case (User uid)
      then have "\<exists>a \<in> set (user_accounts cfg). ua_id a = uid \<and> ua_enabled a \<and> p \<in> set (ua_permissions a)
          \<and> sp_storage_id p = storage_id"
        using Some assms inst
        by (auto simp: permission_for_def find_Some_iff split: option.splits)
      then show ?thesis using Some User mem by (intro bexI [of _ inst]) auto
    qed
  qed
qed

definition sample_config :: access_config where
  "sample_config =
     \<lparr>storage_instances = [\<lparr>inst_id = ''s'', inst_name = ''s'', inst_enabled = True, inst_allow_guest_access = True,
        inst_allow_guest_download = Some False,
        inst_backend = LocalBackend \<lparr>lsc_mount_id = ''m'', lsc_capacity_limit_bytes = None\<rparr>\<rparr>],
      user_accounts = [], folder_locks = []\<rparr>"

definition sample_guest :: request_info where
  "sample_guest =
     \<lparr>rq_principal = None, rq_gate_token = Some ''t'', rq_gate_scope = (\<lambda>t. Some ''gate''),
      rq_cookie = (\<lambda>_. None), rq_folder_scope = (\<lambda>_. None)\<rparr>"

theorem permission_for_sound_witness:
  "\<exists>p. permission_for sample_config sample_guest ''s'' = Some p \<and> \<not> grants_write p \<and> \<not> sp_download p"
proof -
  have p: "permission_for sample_config sample_guest ''s''
      = Some (guest_permission (storage_instances sample_config ! 0) ''s'')"
    by (simp add: permission_for_def sample_config_def sample_guest_def)
  from permission_for_sound [OF p] have "\<not> grants_write (guest_permission (storage_instances sample_config ! 0) ''s'')"
    by (auto simp: sample_guest_def)
  then show ?thesis using p by (auto simp: guest_permission_def sample_config_def)
qed

text \<open>
  A batch answers for every path, in order, and its counts of completed, failed and
  unconfirmed items add up to the number of paths.
\<close>

lemma batch_counts_add_up:
  assumes "execute_batch ops cfg rq ready available requested op paths target st = (Inr response, st')"
  shows "map br_path (bs_results response) = paths
    \<and> bs_success response + bs_failed response + bs_pending response = length paths"
proof -
  obtain sh where "response = batch_response_of (fst (execute_items ops (authorizer_new cfg rq (share_storage_id sh)) sh op target paths st))"
    using assms by (auto simp: execute_batch_def Let_def case_prod_beta split: sum.splits)
  then obtain outs where r: "response = batch_response_of (map2 item_result paths outs)" "length outs = length paths"
    using execute_items_results [of ops "authorizer_new cfg rq (share_storage_id sh)" sh op target paths st] by auto
  have "map br_path (map2 item_result paths outs) = paths"
    using r(2) by (simp add: comp_def case_prod_beta map_fst_zip [unfolded case_prod_beta])
  moreover have "br_operation x = None" if "x \<in> set (map2 item_result paths outs)" "br_status x < 400" for x
    using that item_result_classes by (auto simp: set_map)
  then have "bs_success response + bs_failed response + bs_pending response = length (map2 item_result paths outs)"
    unfolding r(1) by (rule batch_counts)
  moreover have "bs_results response = map2 item_result paths outs"
    by (simp add: r(1) batch_response_of_def Let_def)
  ultimately show ?thesis using r(2) by simp
qed

lemma batch_counts_add_up_witness:
  "\<exists>response st'. execute_batch recording_backend sample_config (sample_guest\<lparr>rq_principal := Some Administrator\<rparr>)
      (\<lambda>_. True) (\<lambda>_. Inr ()) (Some ''s'') BatchDelete [''a'', ''/''] '''' [] = (Inr response, st')
     \<and> bs_success response + bs_failed response + bs_pending response = 2"
proof -
  let ?run = "execute_batch recording_backend sample_config (sample_guest\<lparr>rq_principal := Some Administrator\<rparr>)
      (\<lambda>_. True) (\<lambda>_. Inr ()) (Some ''s'') BatchDelete [''a'', ''/''] '''' []"
  have "is_ok (fst ?run)" by code_simp
  then obtain response where "?run = (Inr response, snd ?run)" by (cases ?run; cases "fst ?run") auto
  from this batch_counts_add_up [OF this] show ?thesis by (intro exI conjI) auto
qed


end
