(* ===== verification/UploadBatch.thy ===== *)
theory UploadBatch
  imports FileAccess "HOL-Library.List_Lexorder" "HOL-Library.Char_ord"
begin

text \<open>
  Upload batches (src/src/upload_batch.rs, src/src/upload_batch/item.rs,
  src/src/upload_batch/persistence.rs): tickets that reserve upload targets, the state of each
  target, admission limits, retirement of old batches, cancellation, settlement of results, the
  planning of collision-free names and the result index on disk.

  The registry of batches is an association list from tickets. A batch counts the other owners of
  its transition gate, since the code never retires a batch while one exists. An operation that
  writes to the index between two looks at the registry takes an argument \<open>env\<close> for what other
  requests do to the registry in the meantime. Points in time and durations are whole seconds;
  result texts written in Chinese are rendered in English. A storage backend is named by a text.
\<close>

section \<open>One target\<close>

datatype upload_status = StPending | InProgress | Complete | StFailed | StUnknown | Cancelled

definition is_terminal :: "upload_status \<Rightarrow> bool" where
  "is_terminal st \<longleftrightarrow> st = Complete \<or> st = StFailed \<or> st = Cancelled"

definition needs_recovery :: "upload_status \<Rightarrow> bool" where
  "needs_recovery st \<longleftrightarrow> st = InProgress \<or> st = StUnknown"

definition can_cancel :: "upload_status \<Rightarrow> bool" where
  "can_cancel st \<longleftrightarrow> st = StPending \<or> st = StFailed"

fun after_restart :: "upload_status \<Rightarrow> upload_status" where
  "after_restart StPending = Cancelled"
| "after_restart InProgress = StUnknown"
| "after_restart st = st"

record upload_item =
  ui_request_path :: str
  ui_size :: nat
  ui_status :: upload_status
  ui_operation :: "operation_outcome option"

datatype upload_begin = Start | AlreadyComplete "operation_outcome option"

definition begin_decision :: "upload_item \<Rightarrow> upload_begin app_result" where
  "begin_decision item =
     (case ui_status item of
        StPending \<Rightarrow> Inr Start
      | StFailed \<Rightarrow> Inr Start
      | Complete \<Rightarrow> Inr (AlreadyComplete (ui_operation item))
      | InProgress \<Rightarrow> Inl (Conflict ''The upload target is being executed'')
      | StUnknown \<Rightarrow>
          Inl (with_operation (Conflict ''The upload result is not confirmed; query the task first, do not retry'')
                 (case ui_operation item of Some v \<Rightarrow> oo_commit v | None \<Rightarrow> CommitUnknown)
                 (case ui_operation item of Some v \<Rightarrow> oo_cleanup v | None \<Rightarrow> CleanupUnknown))
      | Cancelled \<Rightarrow> Inl (Conflict ''The upload target is cancelled''))"

definition classify_upload_result :: "'a app_result \<Rightarrow> upload_status \<times> operation_outcome option" where
  "classify_upload_result result =
     (case result of
        Inr _ \<Rightarrow> (Complete, None)
      | Inl e \<Rightarrow>
          (case operation e of
             None \<Rightarrow> (StFailed, None)
           | Some out \<Rightarrow>
               (if oo_commit out = Committed then Complete
                else if oo_commit out = CommitUnknown \<or> oo_cleanup out \<noteq> CleanupComplete then StUnknown
                else StFailed, Some out)))"

section \<open>Batches and the registry\<close>

definition MAX_ACTIVE_BATCHES :: nat where "MAX_ACTIVE_BATCHES = 32"
definition MAX_ACTIVE_BATCHES_PER_ACCOUNT :: nat where "MAX_ACTIVE_BATCHES_PER_ACCOUNT = 4"
definition MAX_ACTIVE_BATCH_ITEMS :: nat where "MAX_ACTIVE_BATCH_ITEMS = 20000"
definition MAX_RETAINED_BATCHES :: nat where "MAX_RETAINED_BATCHES = 128"
definition MAX_RETAINED_BATCH_ITEMS :: nat where "MAX_RETAINED_BATCH_ITEMS = 40000"
definition PENDING_UPLOAD_TTL :: int where "PENDING_UPLOAD_TTL = 120"

datatype retirement = RetActive | RetPending | RetCleaning

datatype request_subject = SessionSubject str | GateSubject str

record upload_batch =
  ub_owners :: nat
  ub_retirement :: retirement
  ub_recovery_backend :: "str option"
  ub_subject :: "request_subject option"
  ub_account :: str
  ub_storage_id :: str
  ub_namespace_id :: "str option"
  ub_expires_at :: int
  ub_expires_unix :: int
  ub_items :: "(str \<times> upload_item) list"

type_synonym batches = "(str \<times> upload_batch) list"

text \<open>
  The result index on disk: a directory per ticket with a manifest and one small file per
  settled target. Files hold the decoded values; their JSON text enters only through its length.
\<close>

record manifest_item =
  mi_path :: str
  mi_request_path :: str
  mi_size :: nat

record manifest =
  mf_version :: nat
  mf_ticket :: str
  mf_account :: str
  mf_storage_id :: str
  mf_namespace_id :: "str option"
  mf_expires_unix :: int
  mf_items :: "manifest_item list"

record saved_item =
  si_version :: nat
  si_path :: str
  si_status :: upload_status
  si_operation :: "(commit_state \<times> cleanup_state) option"
  si_expires_unix :: int

record index_entry =
  ie_manifest :: "manifest option"
  ie_items :: "(str \<times> saved_item) list"

record upload_store =
  us_batches :: batches
  us_ttl :: int
  us_result_ttl :: int
  us_epoch :: nat
  us_persistent :: bool
  us_index :: "(str \<times> index_entry) list"
  us_reservations :: "(str \<times> nat) list"

definition item_statuses :: "upload_batch \<Rightarrow> upload_status list" where
  "item_statuses b = map (\<lambda>(_, item). ui_status item) (ub_items b)"

definition batch_has_recovery_work :: "upload_batch \<Rightarrow> bool" where
  "batch_has_recovery_work b = list_ex needs_recovery (item_statuses b)"

definition batch_is_terminal :: "upload_batch \<Rightarrow> bool" where
  "batch_is_terminal b = list_all is_terminal (item_statuses b)"

definition batch_is_retained :: "upload_batch \<Rightarrow> int \<Rightarrow> bool" where
  "batch_is_retained b now \<longleftrightarrow>
     ub_retirement b = RetActive \<and> (now < ub_expires_at b \<or> batch_has_recovery_work b)"

fun retention_loop :: "int \<Rightarrow> bool \<Rightarrow> upload_status list \<Rightarrow> bool option" where
  "retention_loop ttl terminal [] = Some terminal"
| "retention_loop ttl terminal (st # sts) =
     (if needs_recovery st then None else retention_loop ttl (terminal \<and> is_terminal st) sts)"

definition batch_retention :: "int \<Rightarrow> int \<Rightarrow> upload_status list \<Rightarrow> int" where
  "batch_retention upload_ttl result_ttl statuses =
     (case retention_loop upload_ttl True statuses of
        None \<Rightarrow> upload_ttl
      | Some terminal \<Rightarrow> if terminal then result_ttl else min upload_ttl PENDING_UPLOAD_TTL)"

definition i64_top :: int where "i64_top = 9223372036854775807"

definition batch_expires_unix :: "int \<Rightarrow> int \<Rightarrow> int" where
  "batch_expires_unix now_unix duration = min i64_top (now_unix + min i64_top duration)"

record batch_usage =
  retained_batches :: nat
  retained_items :: nat
  active_batches :: nat
  account_batches :: nat
  active_items :: nat

definition batch_active_items :: "upload_batch \<Rightarrow> nat" where
  "batch_active_items b =
     (if ub_retirement b = RetActive then length (filter (\<lambda>st. \<not> is_terminal st) (item_statuses b)) else 0)"

definition count_batch :: "str \<Rightarrow> batch_usage \<Rightarrow> upload_batch \<Rightarrow> batch_usage" where
  "count_batch account u b =
     (let n = batch_active_items b;
          u = u\<lparr>retained_items := saturating_add (retained_items u) (length (ub_items b)),
                active_items := saturating_add (active_items u) n\<rparr>
      in if 0 < n
         then u\<lparr>active_batches := active_batches u + 1,
                account_batches := account_batches u + (if ub_account b = account then 1 else 0)\<rparr>
         else u)"

definition from_batches :: "batches \<Rightarrow> str \<Rightarrow> batch_usage" where
  "from_batches bs account =
     foldl (count_batch account)
       \<lparr>retained_batches = length bs, retained_items = 0, active_batches = 0, account_batches = 0,
        active_items = 0\<rparr> (map snd bs)"

definition requires_retirement :: "batch_usage \<Rightarrow> nat \<Rightarrow> bool" where
  "requires_retirement u incoming \<longleftrightarrow>
     MAX_RETAINED_BATCHES \<le> retained_batches u
     \<or> MAX_RETAINED_BATCH_ITEMS < saturating_add (retained_items u) incoming"

definition can_admit :: "batch_usage \<Rightarrow> nat \<Rightarrow> bool" where
  "can_admit u incoming \<longleftrightarrow>
     \<not> requires_retirement u incoming
     \<and> active_batches u < MAX_ACTIVE_BATCHES
     \<and> account_batches u < MAX_ACTIVE_BATCHES_PER_ACCOUNT
     \<and> saturating_add (active_items u) incoming \<le> MAX_ACTIVE_BATCH_ITEMS"

section \<open>Retirement\<close>

definition modify_batch :: "str \<Rightarrow> (upload_batch \<Rightarrow> upload_batch) \<Rightarrow> batches \<Rightarrow> batches" where
  "modify_batch token f bs = map (\<lambda>(k, b). if k = token then (k, f b) else (k, b)) bs"

text \<open>
  Retiring removes a batch at once when there is no index, and otherwise starts a clean-up task.
  The task ends later: it removes the batch, or leaves it pending for another attempt.
\<close>

definition retire_batch :: "bool \<Rightarrow> str \<Rightarrow> batches \<Rightarrow> batches" where
  "retire_batch persistent token bs =
     (if persistent then modify_batch token (\<lambda>b. b\<lparr>ub_retirement := RetCleaning\<rparr>) bs
      else al_remove token bs)"

definition cleanup_ends :: "bool \<Rightarrow> str \<Rightarrow> batches \<Rightarrow> batches" where
  "cleanup_ends removed token bs =
     (if removed then al_remove token bs
      else modify_batch token (\<lambda>b. b\<lparr>ub_retirement := RetPending\<rparr>) bs)"

definition prunable :: "int \<Rightarrow> upload_batch \<Rightarrow> bool" where
  "prunable now b \<longleftrightarrow>
     ub_retirement b \<noteq> RetCleaning
     \<and> (ub_retirement b = RetPending \<or> \<not> batch_is_retained b now) \<and> ub_owners b = 0"

definition prune_expired :: "bool \<Rightarrow> int \<Rightarrow> batches \<Rightarrow> batches" where
  "prune_expired persistent now bs =
     foldl (\<lambda>bs token. retire_batch persistent token bs) bs
       (map fst (filter (\<lambda>(_, b). prunable now b) bs))"

definition sweep_expired :: "int \<Rightarrow> upload_store \<Rightarrow> upload_store" where
  "sweep_expired now s = s\<lparr>us_batches := prune_expired (us_persistent s) now (us_batches s)\<rparr>"

text \<open>Taking the transition gate of an active batch and giving it back.\<close>

type_synonym others = "upload_store \<Rightarrow> upload_store"

definition lock_transition :: "int \<Rightarrow> others \<Rightarrow> str \<Rightarrow> upload_store \<Rightarrow> bool \<times> upload_store" where
  "lock_transition now env token s =
     (let s = sweep_expired now s
      in case al_get (us_batches s) token of
           None \<Rightarrow> (False, s)
         | Some b \<Rightarrow>
             if ub_retirement b \<noteq> RetActive then (False, s)
             else (True, env (s\<lparr>us_batches := modify_batch token (\<lambda>b. b\<lparr>ub_owners := ub_owners b + 1\<rparr>) (us_batches s)\<rparr>)))"

definition unlock_transition :: "str \<Rightarrow> upload_store \<Rightarrow> upload_store" where
  "unlock_transition token s =
     s\<lparr>us_batches := modify_batch token (\<lambda>b. b\<lparr>ub_owners := ub_owners b - 1\<rparr>) (us_batches s)\<rparr>"

definition set_item :: "str \<Rightarrow> (upload_item \<Rightarrow> upload_item) \<Rightarrow> upload_batch \<Rightarrow> upload_batch" where
  "set_item path f b = b\<lparr>ub_items := map (\<lambda>(k, i). if k = path then (k, f i) else (k, i)) (ub_items b)\<rparr>"

definition set_result :: "upload_status \<Rightarrow> operation_outcome option \<Rightarrow> upload_item \<Rightarrow> upload_item" where
  "set_result st op item = item\<lparr>ui_status := st, ui_operation := op\<rparr>"

section \<open>The result index\<close>

definition VERSION :: nat where "VERSION = 1"
definition MAX_MANIFEST_BYTES :: nat where "MAX_MANIFEST_BYTES = 4 * 1024 * 1024"
definition MAX_ITEM_BYTES :: nat where "MAX_ITEM_BYTES = 16 * 1024"
definition MAX_RESERVED_BYTES :: nat where "MAX_RESERVED_BYTES = 64 * 1024 * 1024"

text \<open>
  What the index uses of other libraries: the digest that names a target's file, the test for a
  version 4 UUID in canonical form, and the lengths of the JSON texts (\<open>None\<close> when encoding
  fails).
\<close>

record index_lib =
  operation_id :: "str \<Rightarrow> str \<Rightarrow> str"
  valid_ticket :: "str \<Rightarrow> bool"
  manifest_bytes :: "manifest \<Rightarrow> nat option"
  item_bytes :: "saved_item \<Rightarrow> nat option"

definition index_error :: "str \<Rightarrow> app_error" where
  "index_error source = with_source ''upload result index is unavailable'' source"

definition validate_ticket :: "index_lib \<Rightarrow> str \<Rightarrow> unit app_result" where
  "validate_ticket lib ticket = (if valid_ticket lib ticket then Inr () else Inl Forbidden)"

definition is_lower_hex :: "char \<Rightarrow> bool" where
  "is_lower_hex c \<longleftrightarrow> is_ascii_digit c \<or> 97 \<le> byte c \<and> byte c \<le> 102"

definition valid_namespace :: "str \<Rightarrow> bool" where
  "valid_namespace v \<longleftrightarrow> length v = 64 \<and> list_all is_lower_hex v"

fun sidecar_bytes :: "nat \<Rightarrow> manifest_item list \<Rightarrow> nat app_result" where
  "sidecar_bytes total_bytes [] = Inr total_bytes"
| "sidecar_bytes total_bytes (item # items) =
     rbind (ok_or (checked_add total_bytes (length (mi_path item) + 512)) TooManyRequests)
       (\<lambda>n. sidecar_bytes n items)"

definition estimate :: "manifest \<Rightarrow> nat \<Rightarrow> nat app_result" where
  "estimate m bytes =
     rbind (sidecar_bytes 0 (mf_items m)) (\<lambda>sidecars. ok_or (checked_add bytes sidecars) TooManyRequests)"

definition saved_outcome :: "operation_outcome \<Rightarrow> commit_state \<times> cleanup_state" where
  "saved_outcome out = (oo_commit out, oo_cleanup out)"

definition restored_outcome :: "commit_state \<times> cleanup_state \<Rightarrow> operation_outcome" where
  "restored_outcome p = operation_outcome_new (fst p) (snd p)"

definition manifest_of :: "str \<Rightarrow> upload_batch \<Rightarrow> manifest" where
  "manifest_of ticket b =
     \<lparr>mf_version = VERSION, mf_ticket = ticket, mf_account = ub_account b, mf_storage_id = ub_storage_id b,
      mf_namespace_id = ub_namespace_id b, mf_expires_unix = ub_expires_unix b,
      mf_items = map (\<lambda>(path, item). \<lparr>mi_path = path, mi_request_path = ui_request_path item, mi_size = ui_size item\<rparr>)
                   (ub_items b)\<rparr>"

text \<open>A prepared batch: the manifest to write and the bytes it reserves.\<close>

definition prepare_index :: "index_lib \<Rightarrow> str \<Rightarrow> upload_batch \<Rightarrow> (manifest \<times> nat) app_result" where
  "prepare_index lib ticket b =
     rbind (validate_ticket lib ticket) (\<lambda>_.
       if (case ub_namespace_id b of Some v \<Rightarrow> \<not> valid_namespace v | None \<Rightarrow> False)
       then Inl (BadRequest ''invalid upload storage identity'')
       else let m = manifest_of ticket b in
            rbind (ok_or (manifest_bytes lib m) (index_error ''encode'')) (\<lambda>bytes.
              if MAX_MANIFEST_BYTES < bytes then Inl TooManyRequests
              else rbind (estimate m bytes) (\<lambda>reserved. Inr (m, reserved))))"

text \<open>
  What the disk does to one write: the directory is not made, the file is not published, or it
  is published, with or without confirmation that it is durable.
\<close>

datatype index_io = DirectoryFails | PublishFails | Published bool

definition create_index ::
  "index_lib \<Rightarrow> index_io \<Rightarrow> str \<Rightarrow> manifest \<times> nat \<Rightarrow> upload_store \<Rightarrow> unit app_result \<times> upload_store" where
  "create_index lib io ticket prepared s =
     (if \<not> valid_ticket lib ticket then (Inl Forbidden, s)
      else if al_get (us_reservations s) ticket \<noteq> None
      then (Inl (Conflict ''upload result ticket already reserved''), s)
      else if MAX_RESERVED_BYTES < saturating_add (sum_list (map snd (us_reservations s))) (snd prepared)
      then (Inl TooManyRequests, s)
      else let reserved = s\<lparr>us_reservations := al_insert ticket (snd prepared) (us_reservations s)\<rparr>;
               written = (\<lambda>m. reserved\<lparr>us_index := al_insert ticket \<lparr>ie_manifest = m, ie_items = []\<rparr> (us_index s)\<rparr>)
           in case io of
                DirectoryFails \<Rightarrow> (Inl (index_error ''directory''), s)
              | PublishFails \<Rightarrow> (Inl (index_error ''publish''), written None)
              | Published confirmed \<Rightarrow>
                  (if confirmed then Inr () else Inl (index_error ''durability''), written (Some (fst prepared))))"

text \<open>
  Updating one target. The answer says whether durability is confirmed. The index of the model is what
  is visible in the directory: a stop of the process loses nothing of it, and a publication whose
  directory could not be synchronised (\<open>Published False\<close>) is in it. What a power failure keeps of an
  unconfirmed publication is not modelled here.
\<close>

definition update_index ::
  "index_lib \<Rightarrow> index_io \<Rightarrow> str \<Rightarrow> str \<Rightarrow> upload_status \<Rightarrow> operation_outcome option \<Rightarrow> int \<Rightarrow> upload_store
    \<Rightarrow> bool app_result \<times> upload_store" where
  "update_index lib io ticket path st op expires s =
     (let item = \<lparr>si_version = VERSION, si_path = path, si_status = st,
                  si_operation = map_option saved_outcome op, si_expires_unix = expires\<rparr>
      in if \<not> valid_ticket lib ticket then (Inl Forbidden, s)
         else case item_bytes lib item of
                None \<Rightarrow> (Inl (index_error ''encode''), s)
              | Some n \<Rightarrow>
                  if MAX_ITEM_BYTES < n then (Inl TooManyRequests, s)
                  else (case (io, al_get (us_index s) ticket) of
                          (Published confirmed, Some entry) \<Rightarrow>
                            (Inr confirmed,
                             s\<lparr>us_index := al_insert ticket
                                 (entry\<lparr>ie_items := al_insert (operation_id lib ticket path) item (ie_items entry)\<rparr>)
                                 (us_index s)\<rparr>)
                        | _ \<Rightarrow> (Inl (index_error ''publish''), s)))"

text \<open>Removing a ticket's directory; on failure it may be gone or not.\<close>

datatype remove_io = Removed | RemoveFails bool

definition remove_index :: "index_lib \<Rightarrow> remove_io \<Rightarrow> str \<Rightarrow> upload_store \<Rightarrow> unit app_result \<times> upload_store" where
  "remove_index lib io ticket s =
     (if \<not> valid_ticket lib ticket then (Inl Forbidden, s)
      else if al_get (us_reservations s) ticket = None then (Inr (), s)
      else let gone = s\<lparr>us_index := al_remove ticket (us_index s)\<rparr>
           in case io of
                Removed \<Rightarrow> (Inr (), gone\<lparr>us_reservations := al_remove ticket (us_reservations s)\<rparr>)
              | RemoveFails deleted \<Rightarrow> (Inl (index_error ''remove''), if deleted then gone else s))"

text \<open>
  The clean-up task of a retired batch: the index entry goes first, then the receipts of its
  targets (\<open>receipts\<close> says whether the backend pruned them all).
\<close>

definition cleanup_task :: "index_lib \<Rightarrow> remove_io \<Rightarrow> bool \<Rightarrow> str \<Rightarrow> upload_store \<Rightarrow> upload_store" where
  "cleanup_task lib io receipts token s =
     (let (removed, s) = remove_index lib io token s
      in s\<lparr>us_batches := cleanup_ends (is_ok removed \<and> receipts) token (us_batches s)\<rparr>)"

section \<open>Creating a batch\<close>

definition upload_store_new :: "int \<Rightarrow> upload_store" where
  "upload_store_new ttl =
     \<lparr>us_batches = [], us_ttl = ttl, us_result_ttl = ttl, us_epoch = 0, us_persistent = False,
      us_index = [], us_reservations = []\<rparr>"

fun retire_completed ::
  "bool \<Rightarrow> nat \<Rightarrow> str list \<Rightarrow> batch_usage \<Rightarrow> batches \<Rightarrow> nat \<Rightarrow> batch_usage \<times> batches \<times> nat" where
  "retire_completed persistent incoming [] u bs retired = (u, bs, retired)"
| "retire_completed persistent incoming (token # tokens) u bs retired =
     (if \<not> requires_retirement u incoming then (u, bs, retired)
      else case al_get bs token of
             None \<Rightarrow> retire_completed persistent incoming tokens u bs retired
           | Some b \<Rightarrow>
               retire_completed persistent incoming tokens
                 (u\<lparr>retained_batches := retained_batches u - 1,
                    retained_items := retained_items u - length (ub_items b)\<rparr>)
                 (retire_batch persistent token bs)
                 (if persistent then retired + 1 else retired))"

definition completed_tokens :: "batches \<Rightarrow> str list" where
  "completed_tokens bs =
     map fst (sort_key (\<lambda>(_, b). ub_expires_at b)
       (filter (\<lambda>(_, b). batch_is_terminal b \<and> ub_owners b = 0 \<and> ub_retirement b = RetActive) bs))"

definition new_batch ::
  "upload_store \<Rightarrow> int \<Rightarrow> int \<Rightarrow> request_subject \<Rightarrow> str \<Rightarrow> str \<Rightarrow> (str \<times> str \<times> nat) list \<Rightarrow> str option \<Rightarrow> upload_batch" where
  "new_batch s now now_unix subject account storage_id items namespace_id =
     \<lparr>ub_owners = 0, ub_retirement = RetActive, ub_recovery_backend = None, ub_subject = Some subject,
      ub_account = account, ub_storage_id = storage_id, ub_namespace_id = namespace_id,
      ub_expires_at = now + min (us_ttl s) PENDING_UPLOAD_TTL,
      ub_expires_unix = batch_expires_unix now_unix (min (us_ttl s) PENDING_UPLOAD_TTL),
      ub_items = map (\<lambda>(path, request_path, size).
        (path, \<lparr>ui_request_path = request_path, ui_size = size, ui_status = StPending, ui_operation = None\<rparr>)) items\<rparr>"

definition changed_epoch :: app_error where
  "changed_epoch = Conflict ''The storage settings changed while the upload was prepared; choose the files again''"

text \<open>
  The admission: room is made by retiring completed batches, whose clean-up tasks are awaited
  (\<open>env_cleanup\<close> is what happens to the registry until they end), then the limits are checked.
\<close>

definition make_room :: "others \<Rightarrow> int \<Rightarrow> str \<Rightarrow> nat \<Rightarrow> upload_store \<Rightarrow> batch_usage \<times> upload_store" where
  "make_room env_cleanup now account incoming s =
     (let s = sweep_expired now s;
          u = from_batches (us_batches s) account
      in if \<not> requires_retirement u incoming then (u, s)
         else let (u, bs, retired) =
                    retire_completed (us_persistent s) incoming (completed_tokens (us_batches s)) u (us_batches s) 0;
                  s = s\<lparr>us_batches := bs\<rparr>
              in if retired = 0 then (u, s)
                 else let s = env_cleanup s in (from_batches (us_batches s) account, s))"

text \<open>
  The rest of a creation, with the batch registered and its gate held: the manifest is written,
  and the settings must not have changed in the meantime.
\<close>

definition register_batch ::
  "index_lib \<Rightarrow> index_io \<Rightarrow> others \<Rightarrow> str \<Rightarrow> nat \<Rightarrow> (manifest \<times> nat) option \<Rightarrow> upload_store
    \<Rightarrow> str app_result \<times> upload_store" where
  "register_batch lib io env token expected prepared s =
     (let (written, s) = (case prepared of None \<Rightarrow> (Inr (), s) | Some p \<Rightarrow> create_index lib io token p s);
          s = env s;
          dropped = unlock_transition token (s\<lparr>us_batches := retire_batch (us_persistent s) token (us_batches s)\<rparr>)
      in case written of
           Inl e \<Rightarrow> (Inl e, dropped)
         | Inr _ \<Rightarrow>
             if us_epoch s \<noteq> expected then (Inl changed_epoch, dropped)
             else (Inr token, unlock_transition token s))"

definition create_batch ::
  "index_lib \<Rightarrow> index_io \<Rightarrow> others \<Rightarrow> others \<Rightarrow> int \<Rightarrow> int \<Rightarrow> str \<Rightarrow> request_subject \<Rightarrow> str \<Rightarrow> str
    \<Rightarrow> (str \<times> str \<times> nat) list \<Rightarrow> str option \<Rightarrow> nat \<Rightarrow> upload_store \<Rightarrow> str app_result \<times> upload_store" where
  "create_batch lib io env_cleanup env now now_unix token subject account storage_id items namespace_id expected s =
     (if us_epoch s \<noteq> expected then (Inl changed_epoch, s)
      else let (u, s) = make_room env_cleanup now account (length items) s
           in if \<not> can_admit u (length items) then (Inl TooManyRequests, s)
              else let b = new_batch s now now_unix subject account storage_id items namespace_id
                   in case (if us_persistent s then rbind (prepare_index lib token b) (\<lambda>p. Inr (Some p)) else Inr None) of
                        Inl e \<Rightarrow> (Inl e, s)
                      | Inr prepared \<Rightarrow>
                          register_batch lib io env token expected prepared
                            (s\<lparr>us_batches := al_insert token (b\<lparr>ub_owners := 1\<rparr>) (us_batches s)\<rparr>))"


definition reserved_paths :: "int \<Rightarrow> str \<Rightarrow> upload_store \<Rightarrow> str list" where
  "reserved_paths now storage_id s =
     concat (map (\<lambda>(_, b). map fst (filter (\<lambda>(_, item). \<not> is_terminal (ui_status item)) (ub_items b)))
       (filter (\<lambda>(_, b). ub_storage_id b = storage_id \<and> batch_is_retained b now) (us_batches s)))"

section \<open>Settling a target\<close>

definition drop_recovery_backend :: "upload_batch \<Rightarrow> upload_batch" where
  "drop_recovery_backend b = (if batch_has_recovery_work b then b else b\<lparr>ub_recovery_backend := None\<rparr>)"

text \<open>An index write, where there is an index.\<close>

definition persist ::
  "index_lib \<Rightarrow> index_io \<Rightarrow> str \<Rightarrow> str \<Rightarrow> upload_status \<Rightarrow> operation_outcome option \<Rightarrow> int \<Rightarrow> upload_store
    \<Rightarrow> bool app_result \<times> upload_store" where
  "persist lib io token path st op expires s =
     (if us_persistent s then update_index lib io token path st op expires s else (Inr True, s))"

definition finish_with_status ::
  "index_lib \<Rightarrow> index_io \<Rightarrow> others \<Rightarrow> others \<Rightarrow> int \<Rightarrow> int \<Rightarrow> str \<Rightarrow> str \<Rightarrow> upload_status
    \<Rightarrow> operation_outcome option \<Rightarrow> upload_store \<Rightarrow> upload_store" where
  "finish_with_status lib io env_wait env now now_unix token path st op s =
     (case lock_transition now env_wait token s of
        (False, s) \<Rightarrow> s
      | (True, s) \<Rightarrow>
          (case al_get (us_batches s) token of
             None \<Rightarrow> unlock_transition token s
           | Some b \<Rightarrow>
               if al_get (ub_items b) path = None then unlock_transition token s
               else let retention = batch_retention (us_ttl s) (us_result_ttl s)
                          (map (\<lambda>(k, item). if k = path then st else ui_status item) (ub_items b));
                        expires = batch_expires_unix now_unix retention;
                        s = env (snd (persist lib io token path st op expires s))
                    in unlock_transition token
                         (s\<lparr>us_batches := modify_batch token (\<lambda>b.
                             if al_get (ub_items b) path = None then b
                             else drop_recovery_backend
                                    ((set_item path (set_result st op) b)
                                       \<lparr>ub_expires_at := now + retention, ub_expires_unix := expires\<rparr>))
                           (us_batches s)\<rparr>)))"

definition finish_result ::
  "index_lib \<Rightarrow> index_io \<Rightarrow> others \<Rightarrow> others \<Rightarrow> int \<Rightarrow> int \<Rightarrow> str \<Rightarrow> str \<Rightarrow> 'a app_result \<Rightarrow> upload_store \<Rightarrow> upload_store" where
  "finish_result lib io env_wait env now now_unix token path result s =
     (let (st, op) = classify_upload_result result
      in finish_with_status lib io env_wait env now now_unix token path st op s)"

text \<open>\<open>UploadExecutionGuard::drop\<close>: the owner of an execution went away without a result.\<close>

definition interrupted_outcome :: "operation_outcome option" where
  "interrupted_outcome =
     operation (with_operation (internal_error ''upload execution owner interrupted'') CommitUnknown CleanupUnknown)"

definition execution_dropped ::
  "index_lib \<Rightarrow> index_io \<Rightarrow> others \<Rightarrow> others \<Rightarrow> int \<Rightarrow> int \<Rightarrow> str \<Rightarrow> str \<Rightarrow> upload_store \<Rightarrow> upload_store" where
  "execution_dropped lib io env_wait env now now_unix token path s =
     (case lock_transition now env_wait token s of
        (False, s) \<Rightarrow> s
      | (True, s) \<Rightarrow>
          (case Option.bind (al_get (us_batches s) token) (\<lambda>b. al_get (ub_items b) path) of
             Some item \<Rightarrow>
               if ui_status item = InProgress
               then let s = env (snd (persist lib io token path StUnknown interrupted_outcome
                                        (batch_expires_unix now_unix (us_ttl s)) s))
                    in unlock_transition token
                         (s\<lparr>us_batches := modify_batch token
                             (set_item path (set_result StUnknown interrupted_outcome)) (us_batches s)\<rparr>)
               else unlock_transition token s
           | None \<Rightarrow> unlock_transition token s))"

section \<open>Starting a target\<close>

definition owned_by :: "upload_batch \<Rightarrow> request_subject \<Rightarrow> str \<Rightarrow> bool" where
  "owned_by b subject storage_id \<longleftrightarrow> ub_subject b = Some subject \<and> ub_storage_id b = storage_id"

definition check_begin ::
  "upload_store \<Rightarrow> str \<Rightarrow> request_subject \<Rightarrow> str \<Rightarrow> str \<Rightarrow> nat \<Rightarrow> upload_begin app_result" where
  "check_begin s token subject storage_id path bytes =
     rbind (ok_or (al_get (us_batches s) token) UploadBatchExpired) (\<lambda>b.
     rbind (ensure (owned_by b subject storage_id) Forbidden) (\<lambda>_.
     rbind (ok_or (al_get (ub_items b) path) (BadRequest ''The upload target does not belong to this batch'')) (\<lambda>item.
     rbind (ensure (ui_size item = bytes) (BadRequest ''The upload size differs from the batch'')) (\<lambda>_.
       begin_decision item))))"

text \<open>
  \<open>begin\<close>: the check, the durable admission, and the second look at the registry, where the
  reservation may have been cancelled meanwhile. When the admission is not confirmed durable, the
  target is settled at once (\<open>finish_result\<close>); nothing is taken to happen between the two looks of
  that last call.
\<close>

definition begin_upload ::
  "index_lib \<Rightarrow> index_io \<Rightarrow> index_io \<Rightarrow> others \<Rightarrow> others \<Rightarrow> int \<Rightarrow> int \<Rightarrow> str \<Rightarrow> request_subject \<Rightarrow> str \<Rightarrow> str \<Rightarrow> nat
    \<Rightarrow> upload_store \<Rightarrow> upload_begin app_result \<times> upload_store" where
  "begin_upload lib io io2 env_wait env now now_unix token subject storage_id path bytes s =
     (case lock_transition now env_wait token s of
        (False, s) \<Rightarrow> (Inl UploadBatchExpired, s)
      | (True, s) \<Rightarrow>
          let s = sweep_expired now s; expires = batch_expires_unix now_unix (us_ttl s)
          in case check_begin s token subject storage_id path bytes of
               Inl e \<Rightarrow> (Inl e, unlock_transition token s)
             | Inr (AlreadyComplete op) \<Rightarrow> (Inr (AlreadyComplete op), unlock_transition token s)
             | Inr Start \<Rightarrow>
                 (case persist lib io token path InProgress None expires s of
                    (Inl e, s) \<Rightarrow> (Inl e, unlock_transition token s)
                  | (Inr confirmed, s) \<Rightarrow>
                      let s = env s
                      in case al_get (us_batches s) token of
                           None \<Rightarrow> (Inl UploadBatchExpired, unlock_transition token s)
                         | Some b \<Rightarrow>
                             (case al_get (ub_items b) path of
                                None \<Rightarrow> (Inl NotFound, unlock_transition token s)
                              | Some item \<Rightarrow>
                                  if ui_status item = Cancelled
                                  then (case persist lib io2 token path Cancelled None expires s of
                                          (Inl e, s) \<Rightarrow> (Inl e, unlock_transition token s)
                                        | (Inr _, s) \<Rightarrow>
                                            (Inl (Conflict ''The storage settings changed; prepare the upload again''),
                                             unlock_transition token s))
                                  else let s = unlock_transition token
                                             (s\<lparr>us_batches := modify_batch token (\<lambda>b.
                                                 (set_item path (set_result InProgress None) b)
                                                   \<lparr>ub_expires_at := now + us_ttl s, ub_expires_unix := expires\<rparr>)
                                               (us_batches s)\<rparr>)
                                       in if us_persistent s \<and> \<not> confirmed
                                          then let e = with_operation (ServiceUnavailable
                                                     ''The admission record is not confirmed durable; the transfer was not started'')
                                                     NotCommitted CleanupComplete
                                               in (Inl e, finish_result lib io2 id id now now_unix token path
                                                            (Inl e :: unit app_result) s)
                                          else (Inr Start, s))))"

section \<open>Cancelling\<close>

fun cancel_paths ::
  "index_lib \<Rightarrow> (str \<Rightarrow> index_io) \<Rightarrow> others \<Rightarrow> str \<Rightarrow> int \<Rightarrow> str list \<Rightarrow> bool \<Rightarrow> upload_store
    \<Rightarrow> bool app_result \<times> upload_store" where
  "cancel_paths lib ios env token expires [] pending s = (Inr pending, s)"
| "cancel_paths lib ios env token expires (path # paths) pending s =
     (case persist lib (ios path) token path Cancelled None expires s of
        (Inl e, s) \<Rightarrow> (Inl e, s)
      | (Inr confirmed, s) \<Rightarrow>
          let s = env s
          in case al_get (us_batches s) token of
               None \<Rightarrow> (Inl UploadBatchExpired, s)
             | Some b \<Rightarrow>
                 if al_get (ub_items b) path = None then (Inl NotFound, s)
                 else cancel_paths lib ios env token expires paths (pending \<or> \<not> confirmed)
                        (s\<lparr>us_batches := modify_batch token (set_item path (set_result Cancelled None)) (us_batches s)\<rparr>))"

definition cancel_targets :: "upload_batch \<Rightarrow> str list option \<Rightarrow> str list" where
  "cancel_targets b paths =
     map fst (filter (\<lambda>(path, item). (case paths of None \<Rightarrow> True | Some ps \<Rightarrow> path \<in> set ps)
                                    \<and> can_cancel (ui_status item)) (ub_items b))"

definition cancel_batch ::
  "index_lib \<Rightarrow> (str \<Rightarrow> index_io) \<Rightarrow> others \<Rightarrow> others \<Rightarrow> int \<Rightarrow> int \<Rightarrow> str \<Rightarrow> request_subject \<Rightarrow> str \<Rightarrow> str list option
    \<Rightarrow> upload_store \<Rightarrow> unit app_result \<times> upload_store" where
  "cancel_batch lib ios env_wait env now now_unix token subject storage_id paths s =
     (case lock_transition now env_wait token s of
        (False, s) \<Rightarrow> (Inr (), s)
      | (True, s) \<Rightarrow>
          let s = sweep_expired now s
          in case al_get (us_batches s) token of
               None \<Rightarrow> (Inr (), s)
             | Some b \<Rightarrow>
                 if \<not> owned_by b subject storage_id then (Inl Forbidden, unlock_transition token s)
                 else if (case paths of None \<Rightarrow> False | Some ps \<Rightarrow> list_ex (\<lambda>p. al_get (ub_items b) p = None) ps)
                 then (Inl (BadRequest ''A cancelled target does not belong to this batch''), unlock_transition token s)
                 else let targets = cancel_targets b paths;
                          retention = batch_retention (us_ttl s) (us_result_ttl s)
                            (map (\<lambda>(k, item). if k \<in> set targets then Cancelled else ui_status item) (ub_items b));
                          expires = batch_expires_unix now_unix retention
                      in case cancel_paths lib ios env token expires targets False s of
                           (Inl e, s) \<Rightarrow> (Inl e, unlock_transition token s)
                         | (Inr pending, s) \<Rightarrow>
                             if al_get (us_batches s) token = None
                             then (Inl UploadBatchExpired, unlock_transition token s)
                             else let s = unlock_transition token
                                        (s\<lparr>us_batches := modify_batch token
                                            (\<lambda>b. b\<lparr>ub_expires_at := now + retention, ub_expires_unix := expires\<rparr>)
                                          (us_batches s)\<rparr>)
                                  in (if pending
                                      then Inl (Conflict ''The cancellation is stored but not confirmed durable; check the task'')
                                      else Inr (), s))"


section \<open>Recovery and the queries\<close>

record unknown_upload =
  uu_backend :: "str option"
  uu_ticket :: str
  uu_storage_id :: str
  uu_namespace_id :: "str option"
  uu_path :: str
  uu_size :: nat
  uu_operation :: "operation_outcome option"

definition unknown_items :: "upload_store \<Rightarrow> unknown_upload list" where
  "unknown_items s =
     concat (map (\<lambda>(ticket, b).
       map (\<lambda>(path, item). \<lparr>uu_backend = ub_recovery_backend b, uu_ticket = ticket,
              uu_storage_id = ub_storage_id b, uu_namespace_id = ub_namespace_id b, uu_path = path,
              uu_size = ui_size item, uu_operation = ui_operation item\<rparr>)
         (filter (\<lambda>(_, item). ui_status item = StUnknown) (ub_items b))) (us_batches s))"

definition has_unsettled_namespace :: "str \<Rightarrow> str \<Rightarrow> upload_store \<Rightarrow> bool" where
  "has_unsettled_namespace storage_id namespace s =
     list_ex (\<lambda>(_, b). ub_storage_id b = storage_id \<and> ub_namespace_id b = Some namespace
                       \<and> batch_has_recovery_work b) (us_batches s)"

text \<open>What a recovery task has proved about an unknown result becomes the result.\<close>

definition confirmed_status :: "operation_outcome \<Rightarrow> (upload_status \<times> operation_outcome option) app_result" where
  "confirmed_status out =
     (case oo_commit out of
        Committed \<Rightarrow> Inr (Complete, None)
      | NotCommitted \<Rightarrow> Inr (StFailed, Some out)
      | CommitUnknown \<Rightarrow> Inl (Conflict ''The operation is not proved yet''))"

definition check_review :: "upload_store \<Rightarrow> unknown_upload \<Rightarrow> unit app_result" where
  "check_review s review =
     rbind (ok_or (al_get (us_batches s) (uu_ticket review)) NotFound) (\<lambda>b.
     rbind (ensure (ub_storage_id b = uu_storage_id review) Forbidden) (\<lambda>_.
     rbind (ok_or (al_get (ub_items b) (uu_path review)) NotFound) (\<lambda>item.
       ensure (ui_status item = StUnknown) (Conflict ''The task changed, refresh''))))"

definition confirm_unknown_outcome ::
  "index_lib \<Rightarrow> index_io \<Rightarrow> others \<Rightarrow> others \<Rightarrow> int \<Rightarrow> int \<Rightarrow> unknown_upload \<Rightarrow> operation_outcome \<Rightarrow> upload_store
    \<Rightarrow> unit app_result \<times> upload_store" where
  "confirm_unknown_outcome lib io env_wait env now now_unix review out s =
     (let token = uu_ticket review; path = uu_path review
      in case confirmed_status out of
           Inl e \<Rightarrow> (Inl e, s)
         | Inr (st, op) \<Rightarrow>
             (case lock_transition now env_wait token s of
                (False, s) \<Rightarrow> (Inl NotFound, s)
              | (True, s) \<Rightarrow>
                  let expires = batch_expires_unix now_unix (us_result_ttl s)
                  in case check_review s review of
                       Inl e \<Rightarrow> (Inl e, unlock_transition token s)
                     | Inr _ \<Rightarrow>
                         (case persist lib io token path st op expires s of
                            (Inl e, s) \<Rightarrow> (Inl e, unlock_transition token s)
                          | (Inr _, s) \<Rightarrow>
                              let s = env s
                              in case Option.bind (al_get (us_batches s) token) (\<lambda>b. al_get (ub_items b) path) of
                                   None \<Rightarrow> (Inl NotFound, unlock_transition token s)
                                 | Some _ \<Rightarrow>
                                     (Inr (), unlock_transition token
                                        (s\<lparr>us_batches := modify_batch token (\<lambda>b.
                                            drop_recovery_backend
                                              ((set_item path (set_result st op) b)
                                                 \<lparr>ub_expires_at := now + us_result_ttl s, ub_expires_unix := expires\<rparr>))
                                          (us_batches s)\<rparr>)))))"

text \<open>A change of the storage settings withdraws what has not started.\<close>

definition invalidate_batch :: "str option \<Rightarrow> int \<Rightarrow> upload_batch \<Rightarrow> upload_batch" where
  "invalidate_batch backend expires b =
     (let b = b\<lparr>ub_items := map (\<lambda>(path, item).
                (path, if ui_status item = StPending then item\<lparr>ui_status := Cancelled\<rparr> else item)) (ub_items b)\<rparr>;
          b = (if batch_has_recovery_work b then b\<lparr>ub_recovery_backend := backend\<rparr> else b)
      in b\<lparr>ub_expires_at := expires\<rparr>)"

definition invalidate_storage :: "int \<Rightarrow> str \<Rightarrow> str option \<Rightarrow> upload_store \<Rightarrow> upload_store" where
  "invalidate_storage now storage_id backend s =
     s\<lparr>us_epoch := us_epoch s + 1,
       us_batches := map (\<lambda>(token, b).
         (token, if ub_storage_id b = storage_id \<and> ub_recovery_backend b = None
                 then invalidate_batch backend (now + us_ttl s) b else b)) (us_batches s)\<rparr>"

record upload_item_status =
  us_path :: str
  us_size :: nat
  us_status :: upload_status
  us_operation :: "operation_outcome option"

definition status_items :: "upload_batch \<Rightarrow> upload_item_status list" where
  "status_items b =
     sort_key us_path (map (\<lambda>(_, item). \<lparr>us_path = ui_request_path item, us_size = ui_size item,
       us_status = ui_status item, us_operation = ui_operation item\<rparr>) (ub_items b))"

definition status_with_account ::
  "int \<Rightarrow> str \<Rightarrow> request_subject \<Rightarrow> str option \<Rightarrow> str \<Rightarrow> upload_store
    \<Rightarrow> upload_item_status list app_result \<times> upload_store" where
  "status_with_account now token subject account storage_id s =
     (let s = sweep_expired now s
      in (rbind (ok_or (al_get (us_batches s) token) UploadBatchExpired) (\<lambda>b.
          rbind (ensure (ub_retirement b = RetActive) UploadBatchExpired) (\<lambda>_.
          rbind (ensure (ub_storage_id b = storage_id
                         \<and> (ub_subject b = Some subject \<or> account = Some (ub_account b))) Forbidden) (\<lambda>_.
            Inr (status_items b)))), s))"

section \<open>Reading the index at start\<close>

text \<open>
  What reading the index directory gives: the entries, the test of a ticket's directory, its
  manifest with the length of the text (\<open>None\<close> when there is no such file), the record of a
  target (\<open>None\<close> when there is none), and the removal of a directory.
\<close>

record index_reader =
  rd_entries :: "str list"
  rd_directory :: "str \<Rightarrow> unit app_result"
  rd_manifest :: "str \<Rightarrow> (manifest \<times> nat) option app_result"
  rd_item :: "str \<Rightarrow> str \<Rightarrow> saved_item option app_result"
  rd_remove :: "str \<Rightarrow> unit app_result"

definition valid_manifest :: "str \<Rightarrow> manifest \<Rightarrow> bool" where
  "valid_manifest ticket m \<longleftrightarrow>
     mf_version m = VERSION \<and> mf_ticket m = ticket \<and> length (mf_items m) \<le> MAX_RETAINED_BATCH_ITEMS
     \<and> mf_account m \<noteq> [] \<and> mf_storage_id m \<noteq> []
     \<and> (case mf_namespace_id m of Some v \<Rightarrow> valid_namespace v | None \<Rightarrow> True)"

definition loaded_item :: "manifest_item \<Rightarrow> saved_item option \<Rightarrow> upload_item" where
  "loaded_item rec saved =
     \<lparr>ui_request_path = mi_request_path rec, ui_size = mi_size rec,
      ui_status = after_restart (case saved of Some v \<Rightarrow> si_status v | None \<Rightarrow> StPending),
      ui_operation = Option.bind saved (\<lambda>v. map_option restored_outcome (si_operation v))\<rparr>"

definition load_saved :: "index_lib \<Rightarrow> index_reader \<Rightarrow> str \<Rightarrow> manifest_item \<Rightarrow> saved_item option app_result" where
  "load_saved lib rd ticket rec =
     rbind (rd_item rd ticket (operation_id lib ticket (mi_path rec))) (\<lambda>saved.
       if (case saved of Some v \<Rightarrow> si_version v \<noteq> VERSION \<or> si_path v \<noteq> mi_path rec | None \<Rightarrow> False)
       then Inl (Conflict ''upload result index item identity mismatch'') else Inr saved)"

fun load_items ::
  "index_lib \<Rightarrow> index_reader \<Rightarrow> str \<Rightarrow> manifest_item list \<Rightarrow> (str \<times> upload_item) list \<Rightarrow> int
    \<Rightarrow> ((str \<times> upload_item) list \<times> int) app_result" where
  "load_items lib rd ticket [] items expires = Inr (items, expires)"
| "load_items lib rd ticket (rec # recs) items expires =
     rbind (normalize_relative (mi_path rec)) (\<lambda>path.
       if path \<noteq> mi_path rec \<or> al_get items (mi_path rec) \<noteq> None
       then Inl (Conflict ''invalid upload result index path'')
       else rbind (load_saved lib rd ticket rec) (\<lambda>saved.
              load_items lib rd ticket recs (items @ [(mi_path rec, loaded_item rec saved)])
                (case saved of Some v \<Rightarrow> max expires (si_expires_unix v) | None \<Rightarrow> expires)))"

record load_state =
  ld_batches :: batches
  ld_reserved :: nat
  ld_reservations :: "(str \<times> nat) list"
  ld_items :: nat

definition DAY_SECONDS :: int where "DAY_SECONDS = 24 * 60 * 60"

definition remaining_seconds :: "int \<Rightarrow> int \<Rightarrow> int" where
  "remaining_seconds expires now_unix =
     (let left = min i64_top (max (- i64_top - 1) (expires - now_unix))
      in if left < 0 then int u64_max else left)"

definition loaded_batch :: "int \<Rightarrow> int \<Rightarrow> int \<Rightarrow> manifest \<Rightarrow> (str \<times> upload_item) list \<Rightarrow> int \<Rightarrow> upload_batch" where
  "loaded_batch ttl now now_unix m items expires =
     \<lparr>ub_owners = 0, ub_retirement = RetActive, ub_recovery_backend = None, ub_subject = None,
      ub_account = mf_account m, ub_storage_id = mf_storage_id m, ub_namespace_id = mf_namespace_id m,
      ub_expires_at = now + min (remaining_seconds expires now_unix) (max ttl DAY_SECONDS),
      ub_expires_unix = expires, ub_items = items\<rparr>"

definition admit_loaded ::
  "int \<Rightarrow> int \<Rightarrow> int \<Rightarrow> str \<Rightarrow> manifest \<times> nat \<Rightarrow> (str \<times> upload_item) list \<times> int \<Rightarrow> load_state \<Rightarrow> load_state app_result" where
  "admit_loaded ttl now now_unix ticket m loaded ld =
     rbind (ok_or (checked_add (ld_items ld) (length (mf_items (fst m)))) TooManyRequests) (\<lambda>total_items.
     rbind (ensure (total_items \<le> MAX_RETAINED_BATCH_ITEMS) TooManyRequests) (\<lambda>_.
     rbind (estimate (fst m) (snd m)) (\<lambda>charged.
     rbind (ok_or (checked_add (ld_reserved ld) charged) TooManyRequests) (\<lambda>reserved.
     rbind (ensure (reserved \<le> MAX_RESERVED_BYTES \<and> length (ld_batches ld) < MAX_RETAINED_BATCHES) TooManyRequests) (\<lambda>_.
       Inr \<lparr>ld_batches = al_insert ticket (loaded_batch ttl now now_unix (fst m) (fst loaded) (snd loaded)) (ld_batches ld),
            ld_reserved = reserved, ld_reservations = al_insert ticket charged (ld_reservations ld),
            ld_items = total_items\<rparr>)))))"

definition load_entry ::
  "index_lib \<Rightarrow> index_reader \<Rightarrow> int \<Rightarrow> int \<Rightarrow> int \<Rightarrow> str \<Rightarrow> load_state \<Rightarrow> load_state app_result" where
  "load_entry lib rd ttl now now_unix ticket ld =
     rbind (validate_ticket lib ticket) (\<lambda>_.
     rbind (rd_directory rd ticket) (\<lambda>_.
     rbind (rd_manifest rd ticket) (\<lambda>found.
       case found of
         None \<Rightarrow> rbind (rd_remove rd ticket) (\<lambda>_. Inr ld)
       | Some m \<Rightarrow>
           if \<not> valid_manifest ticket (fst m) then Inl (Conflict ''invalid upload result index manifest'')
           else rbind (load_items lib rd ticket (mf_items (fst m)) [] (mf_expires_unix (fst m))) (\<lambda>loaded.
                  if now_unix < snd loaded \<or> list_ex (\<lambda>(_, item). needs_recovery (ui_status item)) (fst loaded)
                  then admit_loaded ttl now now_unix ticket m loaded ld
                  else rbind (rd_remove rd ticket) (\<lambda>_. Inr ld)))))"

fun load_entries ::
  "index_lib \<Rightarrow> index_reader \<Rightarrow> int \<Rightarrow> int \<Rightarrow> int \<Rightarrow> str list \<Rightarrow> load_state \<Rightarrow> load_state app_result" where
  "load_entries lib rd ttl now now_unix [] ld = Inr ld"
| "load_entries lib rd ttl now now_unix (ticket # tickets) ld =
     rbind (load_entry lib rd ttl now now_unix ticket ld) (\<lambda>ld. load_entries lib rd ttl now now_unix tickets ld)"

text \<open>
  \<open>load_persistent\<close>; \<open>index\<close> is what is on disk when it starts. A directory that is not loaded
  has been removed when it ends.
\<close>

definition load_persistent ::
  "index_lib \<Rightarrow> index_reader \<Rightarrow> int \<Rightarrow> int \<Rightarrow> int \<Rightarrow> (str \<times> index_entry) list \<Rightarrow> upload_store app_result" where
  "load_persistent lib rd ttl now now_unix index =
     rbind (load_entries lib rd ttl now now_unix (rd_entries rd)
              \<lparr>ld_batches = [], ld_reserved = 0, ld_reservations = [], ld_items = 0\<rparr>) (\<lambda>ld.
       Inr \<lparr>us_batches = ld_batches ld, us_ttl = ttl, us_result_ttl = DAY_SECONDS, us_epoch = 0,
            us_persistent = True, us_index = al_retain (\<lambda>ticket _. al_get (ld_batches ld) ticket \<noteq> None) index,
            us_reservations = ld_reservations ld\<rparr>)"


end
