(* ===== verification/UploadDurability.thy ===== *)
theory UploadDurability
  imports UploadBatch
begin

text \<open>
  Uploads in flight survive a crash. The store of upload batches is a state machine with one
  step per operation; other requests may act where an operation waits. In every reachable state
  each target that is being executed, or whose result is unknown, has a record on disk that
  says so, and a restart brings it back as unknown.
\<close>

section \<open>What the disk knows\<close>

definition saved_recovering :: "index_lib \<Rightarrow> index_entry option \<Rightarrow> str \<Rightarrow> str \<Rightarrow> bool" where
  "saved_recovering lib e token path \<longleftrightarrow>
     (case e of None \<Rightarrow> False
      | Some e \<Rightarrow> (case al_get (ie_items e) (operation_id lib token path) of
                    None \<Rightarrow> False | Some v \<Rightarrow> needs_recovery (si_status v)))"

definition listed :: "index_entry option \<Rightarrow> str \<Rightarrow> bool" where
  "listed e path \<longleftrightarrow>
     (case e of None \<Rightarrow> False
      | Some e \<Rightarrow> (case ie_manifest e of None \<Rightarrow> False | Some m \<Rightarrow> path \<in> mi_path ` set (mf_items m)))"

text \<open>
  A batch is durable but for the targets in \<open>X\<close>: a retired batch has nothing to recover, the
  targets of an active one are in its manifest once that is written (\<open>w\<close>), and those to recover are on disk as such.
\<close>

definition batch_durable :: "index_lib \<Rightarrow> bool \<Rightarrow> str set \<Rightarrow> str \<Rightarrow> index_entry option \<Rightarrow> upload_batch \<Rightarrow> bool" where
  "batch_durable lib w X token e b \<longleftrightarrow>
     distinct (al_keys (ub_items b))
     \<and> (ub_retirement b \<noteq> RetActive \<longrightarrow> \<not> batch_has_recovery_work b)
     \<and> (w \<and> ub_retirement b = RetActive \<longrightarrow> (\<forall>(path, item) \<in> set (ub_items b). listed e path))
     \<and> (\<forall>(path, item) \<in> set (ub_items b).
          needs_recovery (ui_status item) \<and> path \<notin> X \<longrightarrow> saved_recovering lib e token path)"

definition durable :: "index_lib \<Rightarrow> bool \<Rightarrow> str set \<Rightarrow> str \<Rightarrow> upload_store \<Rightarrow> bool" where
  "durable lib w X token s \<longleftrightarrow>
     (\<forall>b. al_get (us_batches s) token = Some b \<longrightarrow> batch_durable lib w X token (al_get (us_index s) token) b)"

definition sound_but :: "index_lib \<Rightarrow> str \<Rightarrow> bool \<Rightarrow> str set \<Rightarrow> upload_store \<Rightarrow> bool" where
  "sound_but lib token w X s \<longleftrightarrow>
     us_persistent s \<and> distinct (al_keys (us_batches s))
     \<and> (\<forall>t. (if t = token then durable lib w X t s else durable lib True {} t s))"

definition store_sound :: "index_lib \<Rightarrow> upload_store \<Rightarrow> bool" where
  "store_sound lib s \<longleftrightarrow>
     us_persistent s \<and> distinct (al_keys (us_batches s)) \<and> (\<forall>t. durable lib True {} t s)"

definition recovering :: "upload_store \<Rightarrow> str \<Rightarrow> str \<Rightarrow> bool" where
  "recovering s token path \<longleftrightarrow>
     (\<exists>b item. al_get (us_batches s) token = Some b \<and> (path, item) \<in> set (ub_items b)
        \<and> needs_recovery (ui_status item))"

text \<open>
  A ticket whose transition gate has an owner, and what other requests do meanwhile. The requests of
  other tickets are taken one whole operation at a time: what they have done keeps the invariant of
  the store. A request that is itself suspended between its index write and its look at the registry
  (upload_batch.rs, \<open>finish\<close>) is at that moment in a state that this assumption leaves out; only the
  records of its own ticket are concerned, and it holds that ticket's transition gate.
\<close>

definition held :: "str \<Rightarrow> upload_store \<Rightarrow> bool" where
  "held token s \<longleftrightarrow>
     (\<forall>b. al_get (us_batches s) token = Some b \<longrightarrow> ub_retirement b = RetActive \<and> 0 < ub_owners b)"

definition rely :: "index_lib \<Rightarrow> str \<Rightarrow> others \<Rightarrow> bool" where
  "rely lib token env \<longleftrightarrow>
     (\<forall>w X s. sound_but lib token w X s \<and> held token s \<longrightarrow>
        sound_but lib token w X (env s) \<and> held token (env s)
        \<and> al_get (us_index (env s)) token = al_get (us_index s) token
        \<and> (\<forall>path. recovering (env s) token path \<longrightarrow> recovering s token path))"

definition rely_wait :: "index_lib \<Rightarrow> str \<Rightarrow> others \<Rightarrow> bool" where
  "rely_wait lib token env \<longleftrightarrow>
     (\<forall>s. store_sound lib s \<and> held token s \<longrightarrow> store_sound lib (env s) \<and> held token (env s))"

text \<open>The digest in a record's file name tells the targets of a ticket apart.\<close>

definition collision_free :: "index_lib \<Rightarrow> bool" where
  "collision_free lib \<longleftrightarrow> (\<forall>token. inj (operation_id lib token))"

section \<open>Updates of one batch\<close>

lemma sound_but_empty: "sound_but lib token True {} s \<longleftrightarrow> store_sound lib s"
  by (simp add: sound_but_def store_sound_def)

lemma batch_durable_mono: "batch_durable lib w X t e b \<Longrightarrow> X \<subseteq> Y \<Longrightarrow> batch_durable lib w Y t e b"
  by (auto simp: batch_durable_def)

lemma durable_mono: "durable lib w X t s \<Longrightarrow> X \<subseteq> Y \<Longrightarrow> durable lib w Y t s"
  by (auto simp: durable_def intro: batch_durable_mono)

lemma sound_but_mono: "sound_but lib token w X s \<Longrightarrow> X \<subseteq> Y \<Longrightarrow> sound_but lib token w Y s"
  by (auto simp: sound_but_def split: if_splits intro: durable_mono)

lemma al_get_modify_batch [simp]:
  "al_get (modify_batch token f bs) t = (if t = token then map_option f (al_get bs t) else al_get bs t)"
  by (induction bs) (auto simp: modify_batch_def al_get_def)

lemma keys_modify_batch [simp]: "al_keys (modify_batch token f bs) = al_keys bs"
  by (induction bs) (auto simp: modify_batch_def)

text \<open>Changing the ticket's batch only, on an unchanged disk.\<close>

lemma sound_modify:
  assumes "sound_but lib token w Y s"
    and "\<And>b. al_get (us_batches s) token = Some b \<Longrightarrow> batch_durable lib w Y token (al_get (us_index s) token) b \<Longrightarrow>
           batch_durable lib v X token (al_get (us_index s) token) (f b)"
  shows "sound_but lib token v X (s\<lparr>us_batches := modify_batch token f (us_batches s)\<rparr>)"
  using assms by (auto simp: sound_but_def durable_def split: if_splits)

lemma durable_fields [simp]:
  "batch_durable lib w X t e (b\<lparr>ub_owners := n\<rparr>) = batch_durable lib w X t e b"
  "batch_durable lib w X t e (b\<lparr>ub_expires_at := x\<rparr>) = batch_durable lib w X t e b"
  "batch_durable lib w X t e (b\<lparr>ub_expires_unix := x\<rparr>) = batch_durable lib w X t e b"
  "batch_durable lib w X t e (b\<lparr>ub_recovery_backend := r\<rparr>) = batch_durable lib w X t e b"
  by (simp_all add: batch_durable_def batch_has_recovery_work_def item_statuses_def)

lemma durable_drop_recovery_backend [simp]:
  "batch_durable lib w X t e (drop_recovery_backend b) = batch_durable lib w X t e b"
  by (simp add: drop_recovery_backend_def)

lemma recovery_work_iff: "batch_has_recovery_work b \<longleftrightarrow> (\<exists>(path, item) \<in> set (ub_items b). needs_recovery (ui_status item))"
  by (force simp: batch_has_recovery_work_def item_statuses_def list_ex_iff)

lemma set_set_item:
  "(p, i) \<in> set (ub_items (set_item path f b)) \<longleftrightarrow>
     (if p = path then (\<exists>i0. (path, i0) \<in> set (ub_items b) \<and> i = f i0) else (p, i) \<in> set (ub_items b))"
  by (auto simp: set_item_def split: if_splits) force+

text \<open>Settling the one exempted target restores the whole batch.\<close>

lemma keys_set_item [simp]: "al_keys (ub_items (set_item path f b)) = al_keys (ub_items b)"
  by (auto simp: set_item_def)

lemma durable_set_item:
  assumes "batch_durable lib True {path} t e b" "ub_retirement b = RetActive"
    and "needs_recovery st \<longrightarrow> saved_recovering lib e t path"
  shows "batch_durable lib True {} t e (set_item path (set_result st op) b)"
proof -
  have [simp]: "ub_retirement (set_item path (set_result st op) b) = RetActive"
    using assms(2) by (simp add: set_item_def)
  show ?thesis
    using assms unfolding batch_durable_def
    by (auto simp: set_set_item set_result_def split: if_splits)
qed

lemma sound_settle:
  assumes "sound_but lib token True {path} s" "held token s"
    and "needs_recovery st \<longrightarrow> saved_recovering lib (al_get (us_index s) token) token path"
    and "\<And>b e. batch_durable lib True {} token e (set_item path (set_result st op) b) \<Longrightarrow> batch_durable lib True {} token e (f b)"
  shows "store_sound lib (s\<lparr>us_batches := modify_batch token f (us_batches s)\<rparr>)"
proof -
  have "sound_but lib token True {} (s\<lparr>us_batches := modify_batch token f (us_batches s)\<rparr>)"
  proof (rule sound_modify [OF assms(1)])
    fix b assume b: "al_get (us_batches s) token = Some b" "batch_durable lib True {path} token (al_get (us_index s) token) b"
    with assms(2) have "ub_retirement b = RetActive" by (auto simp: held_def)
    from assms(4) [OF durable_set_item [OF b(2) this assms(3)]]
    show "batch_durable lib True {} token (al_get (us_index s) token) (f b)" .
  qed
  then show ?thesis by (simp add: sound_but_empty)
qed

lemma set_item_absent: "al_get (ub_items b) path = None \<Longrightarrow> set_item path f b = b"
proof -
  assume "al_get (ub_items b) path = None"
  then have "map (\<lambda>(k, i). if k = path then (k, f i) else (k, i)) (ub_items b) = ub_items b"
    by (intro map_idI) (force simp: al_get_def map_of_eq_None_iff)
  then show ?thesis by (simp add: set_item_def)
qed

lemma sound_unlock: "sound_but lib token w X s \<Longrightarrow> sound_but lib token w X (unlock_transition token s)"
  unfolding unlock_transition_def by (rule sound_modify) auto

lemma sound_unlock0: "store_sound lib s \<Longrightarrow> store_sound lib (unlock_transition token s)"
  using sound_unlock [of lib token True "{}"] by (simp add: sound_but_empty)

section \<open>Pruning\<close>

lemma retire_all_get:
  "al_get (foldl (\<lambda>bs token. retire_batch True token bs) bs tokens) t
     = (if t \<in> set tokens then map_option (\<lambda>b. b\<lparr>ub_retirement := RetCleaning\<rparr>) (al_get bs t) else al_get bs t)"
  by (induction tokens arbitrary: bs) (auto simp: retire_batch_def option.map_comp o_def)

lemma keys_retire_all: "al_keys (foldl (\<lambda>bs token. retire_batch True token bs) bs tokens) = al_keys bs"
  by (induction tokens arbitrary: bs) (auto simp: retire_batch_def)

lemma al_get_prune:
  assumes "distinct (al_keys bs)"
  shows "al_get (prune_expired True now bs) t =
     map_option (\<lambda>b. if prunable now b then b\<lparr>ub_retirement := RetCleaning\<rparr> else b) (al_get bs t)"
proof -
  have "t \<in> set (map fst (filter (\<lambda>(_, b). prunable now b) bs)) \<longleftrightarrow> (\<exists>b. al_get bs t = Some b \<and> prunable now b)"
    using assms by (force simp: al_get_Some_iff)
  then show ?thesis unfolding prune_expired_def retire_all_get by (cases "al_get bs t") auto
qed

lemma prunable_no_work:
  "prunable now b \<Longrightarrow> batch_durable lib w X t e b \<Longrightarrow>
   \<not> batch_has_recovery_work b \<and> distinct (al_keys (ub_items b))"
  by (auto simp: prunable_def batch_is_retained_def batch_durable_def)

lemma durable_retired:
  "\<not> batch_has_recovery_work b \<Longrightarrow> distinct (al_keys (ub_items b)) \<Longrightarrow> r \<noteq> RetActive \<Longrightarrow>
   batch_durable lib w X t e (b\<lparr>ub_retirement := r\<rparr>)"
  by (auto simp: batch_durable_def batch_has_recovery_work_def item_statuses_def list_ex_iff)

lemma sweep_fields [simp]:
  "us_index (sweep_expired now s) = us_index s" "us_persistent (sweep_expired now s) = us_persistent s"
  by (simp_all add: sweep_expired_def)

lemma sound_sweep:
  assumes "sound_but lib token w X s" shows "sound_but lib token w X (sweep_expired now s)"
proof -
  have p: "us_persistent s" and d: "distinct (al_keys (us_batches s))" using assms by (auto simp: sound_but_def)
  have "al_keys (us_batches (sweep_expired now s)) = al_keys (us_batches s)"
    using p by (simp add: sweep_expired_def prune_expired_def keys_retire_all)
  moreover have "durable lib v Y t (sweep_expired now s)" if "durable lib v Y t s" for v Y t
    using that p durable_retired prunable_no_work
    by (fastforce simp: durable_def sweep_expired_def al_get_prune [OF d] split: if_splits)
  ultimately show ?thesis using assms by (auto simp: sound_but_def split: if_splits)
qed

lemma held_sweep:
  assumes "sound_but lib token w X s" "held token s" shows "held token (sweep_expired now s)"
  using assms by (auto simp: held_def sweep_expired_def sound_but_def al_get_prune prunable_def)

section \<open>Index writes\<close>

lemma persist_effect:
  assumes "persist lib io token path st op expires s = (r, s')" "us_persistent s" "collision_free lib"
  shows "us_batches s' = us_batches s" "us_persistent s'" "us_ttl s' = us_ttl s" "us_result_ttl s' = us_result_ttl s"
    "t \<noteq> token \<Longrightarrow> al_get (us_index s') t = al_get (us_index s) t"
    "listed (al_get (us_index s') token) p \<longleftrightarrow> listed (al_get (us_index s) token) p"
    "p \<noteq> path \<Longrightarrow> saved_recovering lib (al_get (us_index s') token) token p
        \<longleftrightarrow> saved_recovering lib (al_get (us_index s) token) token p"
    "is_ok r \<Longrightarrow> saved_recovering lib (al_get (us_index s') token) token path \<longleftrightarrow> needs_recovery st"
    "\<not> is_ok r \<Longrightarrow> us_index s' = us_index s"
proof -
  have "p \<noteq> path \<Longrightarrow> operation_id lib token p \<noteq> operation_id lib token path"
    using assms(3) by (auto simp: collision_free_def inj_def)
  then show "us_batches s' = us_batches s" "us_persistent s'" "us_ttl s' = us_ttl s" "us_result_ttl s' = us_result_ttl s"
    "t \<noteq> token \<Longrightarrow> al_get (us_index s') t = al_get (us_index s) t"
    "listed (al_get (us_index s') token) p \<longleftrightarrow> listed (al_get (us_index s) token) p"
    "p \<noteq> path \<Longrightarrow> saved_recovering lib (al_get (us_index s') token) token p
        \<longleftrightarrow> saved_recovering lib (al_get (us_index s) token) token p"
    "is_ok r \<Longrightarrow> saved_recovering lib (al_get (us_index s') token) token path \<longleftrightarrow> needs_recovery st"
    "\<not> is_ok r \<Longrightarrow> us_index s' = us_index s"
    using assms(1,2)
    by (auto simp: persist_def update_index_def Let_def listed_def saved_recovering_def
        split: if_splits option.splits index_io.splits)
qed

text \<open>A write to one target's record exempts that target, or nothing when it marks it for recovery.\<close>

lemma sound_persist:
  assumes "persist lib io token path st op expires s = (r, s')" "collision_free lib" "store_sound lib s"
  shows "sound_but lib token True {path} s'" "needs_recovery st \<Longrightarrow> store_sound lib s'"
proof -
  have p: "us_persistent s" using assms(3) by (simp add: store_sound_def)
  note eff = persist_effect [OF assms(1) p assms(2)]
  have "(if t = token then durable lib True {path} t s' else durable lib True {} t s')" for t
    using assms(3) eff(1,5,6,7) by (fastforce simp: store_sound_def durable_def batch_durable_def)
  then show "sound_but lib token True {path} s'"
    using assms(3) eff(1,2) by (simp add: sound_but_def store_sound_def)
  have rec: "saved_recovering lib (al_get (us_index s) token) token q \<Longrightarrow>
      saved_recovering lib (al_get (us_index s') token) token q" if "needs_recovery st" for q
    using eff(7) [of q] eff(8,9) that by (cases "q = path"; cases "is_ok r") auto
  have "durable lib True {} t s'" if "needs_recovery st" for t
    using assms(3) eff(1,5,6) rec [OF that] by (cases "t = token") (fastforce simp: store_sound_def durable_def batch_durable_def)+
  then show "needs_recovery st \<Longrightarrow> store_sound lib s'"
    using assms(3) eff(1,2) by (simp add: store_sound_def)
qed

section \<open>The operations\<close>

lemma sound_lock:
  assumes "lock_transition now env token s = (ok, s')" "store_sound lib s" "rely_wait lib token env"
  shows "store_sound lib s'" "ok \<Longrightarrow> held token s'"
proof -
  let ?s = "sweep_expired now s"
  let ?h = "?s\<lparr>us_batches := modify_batch token (\<lambda>b. b\<lparr>ub_owners := ub_owners b + 1\<rparr>) (us_batches ?s)\<rparr>"
  have sw: "sound_but lib token True {} ?s" 
    using sound_sweep [of lib token True "{}" s now] assms(2) by (simp add: sound_but_empty)
  have h: "sound_but lib token True {} ?h" by (rule sound_modify [OF sw]) simp
  consider "\<not> ok" "s' = ?s" | b where "ok" "s' = env ?h" "al_get (us_batches ?s) token = Some b" "ub_retirement b = RetActive"
    using assms(1) by (auto simp: lock_transition_def Let_def split: option.splits if_splits)
  then have "store_sound lib s' \<and> (ok \<longrightarrow> held token s')"
  proof cases
    case 2
    then have "held token ?h" by (auto simp: held_def)
    then show ?thesis using 2 h assms(3) by (simp add: rely_wait_def sound_but_empty)
  qed (use sw in \<open>simp add: sound_but_empty\<close>)
  then show "store_sound lib s'" "ok \<Longrightarrow> held token s'" by auto
qed


lemma sound_exempt_settled:
  assumes "sound_but lib token True {path} s"
    and "\<And>b item. al_get (us_batches s) token = Some b \<Longrightarrow> al_get (ub_items b) path = Some item \<Longrightarrow> \<not> needs_recovery (ui_status item)"
  shows "store_sound lib s"
proof -
  have "batch_durable lib True {} token e b"
    if "batch_durable lib True {path} token e b" "al_get (us_batches s) token = Some b" for e b
  proof -
    have "distinct (al_keys (ub_items b))" using that by (simp add: batch_durable_def)
    then have "(path, item) \<in> set (ub_items b) \<Longrightarrow> \<not> needs_recovery (ui_status item)" for item
      using assms(2) [OF that(2)] by (simp add: al_get_Some_iff)
    then show ?thesis using that(1) by (auto simp: batch_durable_def)
  qed
  then show ?thesis using assms(1) by (auto simp: sound_but_def store_sound_def durable_def split: if_splits)
qed

lemma rely_id: "rely lib token id" "rely_wait lib token id"
  by (simp_all add: rely_def rely_wait_def)

lemma rely_wait_sound: "rely_wait lib token env \<Longrightarrow> store_sound lib s \<Longrightarrow> held token s \<Longrightarrow> store_sound lib (env s)"
  by (simp add: rely_wait_def)

lemma rely_sound:
  assumes "rely lib token env" "sound_but lib token w X s" "held token s"
  shows "sound_but lib token w X (env s)" "held token (env s)" "al_get (us_index (env s)) token = al_get (us_index s) token"
    "recovering (env s) token path \<Longrightarrow> recovering s token path"
  using assms by (auto simp: rely_def)

lemma held_batches: "us_batches s' = us_batches s \<Longrightarrow> held token s' = held token s"
  by (simp add: held_def)

lemmas store_sound_but = iffD1 [OF sound_but_empty] iffD2 [OF sound_but_empty]

text \<open>A record is written, others act, the target is settled in memory.\<close>

lemma sound_write_settle:
  assumes "persist lib io token path st op expires s = (r, s1)" "collision_free lib" "store_sound lib s" "held token s"
    "rely lib token env"
    and "needs_recovery st \<longrightarrow> is_ok r \<or> saved_recovering lib (al_get (us_index s) token) token path"
    and "\<And>b e. batch_durable lib True {} token e (set_item path (set_result st op) b) \<Longrightarrow> batch_durable lib True {} token e (f b)"
  shows "store_sound lib ((env s1)\<lparr>us_batches := modify_batch token f (us_batches (env s1))\<rparr>)"
proof (rule sound_settle)
  have p: "us_persistent s" using assms(3) by (simp add: store_sound_def)
  note eff = persist_effect [OF assms(1) p assms(2)]
  note r = rely_sound [OF assms(5) sound_persist(1) [OF assms(1-3)] iffD2 [OF held_batches [OF eff(1)] assms(4)]]
  show "sound_but lib token True {path} (env s1)" "held token (env s1)" by (rule r)+
  show "needs_recovery st \<longrightarrow> saved_recovering lib (al_get (us_index (env s1)) token) token path"
    using assms(6) eff(8,9) unfolding r(3) by metis
qed (rule assms(7))

text \<open>The execution of a target keeps its record marked while others act.\<close>

definition keeps_executing :: "index_lib \<Rightarrow> str \<Rightarrow> str \<Rightarrow> others \<Rightarrow> bool" where
  "keeps_executing lib token path env \<longleftrightarrow>
     (\<forall>s. saved_recovering lib (al_get (us_index s) token) token path \<longrightarrow>
          saved_recovering lib (al_get (us_index (env s)) token) token path)"

lemma lock_executing:
  "lock_transition now env token s = (True, s') \<Longrightarrow> keeps_executing lib token path env \<Longrightarrow>
   saved_recovering lib (al_get (us_index s) token) token path \<Longrightarrow>
   saved_recovering lib (al_get (us_index s') token) token path"
  by (auto simp: lock_transition_def keeps_executing_def Let_def split: option.splits if_splits)

lemma sound_finish:
  assumes "store_sound lib s" "collision_free lib" "rely_wait lib token env_wait" "rely lib token env"
    and "needs_recovery st \<longrightarrow> keeps_executing lib token path env_wait
           \<and> saved_recovering lib (al_get (us_index s) token) token path"
  shows "store_sound lib (finish_with_status lib io env_wait env now now_unix token path st op s)"
proof -
  obtain ok s1 where l: "lock_transition now env_wait token s = (ok, s1)" by force
  note s1 = sound_lock [OF l assms(1,3)]
  show ?thesis
  proof (cases ok)
    case True
    show ?thesis
    proof (cases "\<exists>b. al_get (us_batches s1) token = Some b \<and> al_get (ub_items b) path \<noteq> None")
      case False
      then show ?thesis using s1 l True
        by (auto simp: finish_with_status_def intro!: sound_unlock0 split: option.splits)
    next
      case exists: True
      let ?st = "\<lambda>b. batch_expires_unix now_unix (batch_retention (us_ttl s1) (us_result_ttl s1)
          (map (\<lambda>(k, item). if k = path then st else ui_status item) (ub_items b)))"
      obtain b where b: "al_get (us_batches s1) token = Some b" "al_get (ub_items b) path \<noteq> None" using exists by auto
      obtain r s2 where w: "persist lib io token path st op (?st b) s1 = (r, s2)" by force
      have "needs_recovery st \<longrightarrow> is_ok r \<or> saved_recovering lib (al_get (us_index s1) token) token path"
        using lock_executing [of now env_wait token s s1 lib path] l True assms(5) by auto
      note settle = sound_write_settle [OF w assms(2) s1(1) s1(2) [OF True] assms(4) this]
      show ?thesis
        using l True b w
        by (auto simp: finish_with_status_def Let_def set_item_absent intro!: sound_unlock0 settle)
    qed
  qed (use s1 l in \<open>auto simp: finish_with_status_def\<close>)
qed

lemma sound_dropped:
  assumes "store_sound lib s" "collision_free lib" "rely_wait lib token env_wait" "rely lib token env"
  shows "store_sound lib (execution_dropped lib io env_wait env now now_unix token path s)"
proof -
  obtain ok s1 where l: "lock_transition now env_wait token s = (ok, s1)" by force
  note s1 = sound_lock [OF l assms(1,3)]
  let ?item = "Option.bind (al_get (us_batches s1) token) (\<lambda>b. al_get (ub_items b) path)"
  show ?thesis
  proof (cases "ok \<and> (\<exists>item. ?item = Some item \<and> ui_status item = InProgress)")
    case True
    then obtain b item where b: "al_get (us_batches s1) token = Some b" "al_get (ub_items b) path = Some item"
      "ui_status item = InProgress" by (auto simp: bind_eq_Some_conv)
    then have "saved_recovering lib (al_get (us_index s1) token) token path"
      using s1(1) map_of_SomeD [of "ub_items b" path item]
      by (fastforce simp: store_sound_def durable_def batch_durable_def needs_recovery_def al_get_def)
    obtain r s2 where w: "persist lib io token path StUnknown interrupted_outcome
        (batch_expires_unix now_unix (us_ttl s1)) s1 = (r, s2)" by force
    have "store_sound lib ((env s2)\<lparr>us_batches := modify_batch token
        (set_item path (set_result StUnknown interrupted_outcome)) (us_batches (env s2))\<rparr>)"
      using \<open>saved_recovering _ _ _ _\<close> True
      by (intro sound_write_settle [OF w assms(2) s1(1) _ assms(4)]) (auto intro: s1(2))
    then show ?thesis using l True b w by (auto simp: execution_dropped_def Let_def intro!: sound_unlock0)
  next
    case False
    then show ?thesis using l s1 by (auto simp: execution_dropped_def Let_def intro!: sound_unlock0 split: bool.splits option.splits)
  qed
qed

text \<open>The last part of \<open>begin\<close>: the second look at the registry after the admission was written.\<close>

lemma sound_cancelled_write:
  assumes "persist lib io token path Cancelled op expires s = (r, s')" "store_sound lib s" "collision_free lib"
    "al_get (us_batches s) token = Some b" "al_get (ub_items b) path = Some item" "ui_status item = Cancelled"
  shows "store_sound lib s'"
proof -
  have p: "us_persistent s" using assms(2) by (simp add: store_sound_def)
  show ?thesis
    using persist_effect(1) [OF assms(1) p assms(3)] assms(4-6)
    by (intro sound_exempt_settled [OF sound_persist(1) [OF assms(1,3,2)]]) (auto simp: needs_recovery_def)
qed

lemma sound_start:
  assumes "store_sound lib s" "held token s" "saved_recovering lib (al_get (us_index s) token) token path"
  shows "store_sound lib (s\<lparr>us_batches := modify_batch token (\<lambda>b.
         (set_item path (set_result InProgress None) b)\<lparr>ub_expires_at := x, ub_expires_unix := y\<rparr>) (us_batches s)\<rparr>)"
proof (rule sound_settle [where path = path and st = InProgress and op = None])
  show "sound_but lib token True {path} s"
    by (rule sound_but_mono [OF store_sound_but(2) [OF assms(1)]]) simp
qed (use assms in simp_all)

lemma not_started_settles:
  "classify_upload_result (Inl (with_operation (ServiceUnavailable m) NotCommitted CleanupComplete) :: 'a app_result)
     = (StFailed, operation (with_operation (ServiceUnavailable m) NotCommitted CleanupComplete))"
  by (simp add: classify_upload_result_def with_operation_def operation_def operation_outcome_new_def)

lemma sound_begin:
  assumes "store_sound lib s" "collision_free lib" "rely_wait lib token env_wait" "rely lib token env"
  shows "store_sound lib (snd (begin_upload lib io io2 env_wait env now now_unix token subject storage_id path bytes s))"
proof -
  obtain ok s1 where l: "lock_transition now env_wait token s = (ok, s1)" by force
  note s1 = sound_lock [OF l assms(1,3)]
  let ?s2 = "sweep_expired now s1"
  let ?ex = "batch_expires_unix now_unix (us_ttl ?s2)"
  obtain r s3 where w: "persist lib io token path InProgress None ?ex ?s2 = (r, s3)" by force
  show ?thesis
  proof (cases ok)
    case False
    then show ?thesis using l s1 by (simp add: begin_upload_def)
  next
    case True
    have s2: "store_sound lib ?s2" "held token ?s2"
      using sound_sweep [of lib token True "{}" s1 now] held_sweep [of lib token True "{}" s1 now] s1 True
      by (simp_all add: sound_but_empty)
    then have p2: "us_persistent ?s2" by (simp add: store_sound_def)
    note eff = persist_effect [OF w p2 assms(2)]
    have s3: "store_sound lib s3" by (rule sound_persist(2) [OF w assms(2) s2(1)]) (simp add: needs_recovery_def)
    note s4 = rely_sound [OF assms(4) store_sound_but(2) [OF s3] iffD2 [OF held_batches [OF eff(1)] s2(2)]]
    have snd4: "store_sound lib (env s3)" using s4(1) by (simp add: sound_but_empty)
    have rec: "saved_recovering lib (al_get (us_index (env s3)) token) token path" if "is_ok r"
      using eff(8) [OF that] s4(3) by (simp add: needs_recovery_def)
    note start = sound_start [OF snd4 s4(2) rec]
    note finish = sound_finish [OF _ assms(2) rely_id(2,1) impI]
    show ?thesis
      using True l w s2(1) s3 snd4
      by (auto simp: begin_upload_def Let_def not_started_settles finish_result_def needs_recovery_def
          split: sum.splits upload_begin.splits option.splits prod.splits if_splits
          intro!: sound_unlock0 start finish intro: sound_cancelled_write assms(2))
  qed
qed

lemma sound_failed_write:
  assumes "persist lib io token path st op expires s = (Inl e, s')" "store_sound lib s" "collision_free lib"
  shows "store_sound lib s'"
proof -
  have p: "us_persistent s" using assms(2) by (simp add: store_sound_def)
  note eff = persist_effect [OF assms(1) p assms(3)]
  show ?thesis using assms(2) eff(1,2,9) by (simp add: store_sound_def durable_def)
qed

lemma sound_absent_target:
  assumes "sound_but lib token True {path} s"
    and "Option.bind (al_get (us_batches s) token) (\<lambda>b. al_get (ub_items b) path) = None"
  shows "store_sound lib s"
  using assms(2) by (intro sound_exempt_settled [OF assms(1)]) (auto simp: bind_eq_None_conv)

lemma held_modify:
  "held token s \<Longrightarrow> (\<And>b. ub_retirement (f b) = ub_retirement b \<and> ub_owners (f b) = ub_owners b) \<Longrightarrow>
   held token (s\<lparr>us_batches := modify_batch token f (us_batches s)\<rparr>)"
  by (auto simp: held_def)

lemma sound_cancel_paths:
  assumes "cancel_paths lib ios env token expires paths pending s = (r, s')" "store_sound lib s" "held token s"
    "collision_free lib" "rely lib token env"
  shows "store_sound lib s'" "held token s'"
proof -
  have "store_sound lib s' \<and> held token s'"
    using assms(1-3)
  proof (induction paths arbitrary: pending s)
    case (Cons path paths)
    obtain r1 s1 where w: "persist lib (ios path) token path Cancelled None expires s = (r1, s1)" by force
    have p: "us_persistent s" using Cons.prems(2) by (simp add: store_sound_def)
    note eff = persist_effect [OF w p assms(4)]
    let ?s2 = "(env s1)\<lparr>us_batches := modify_batch token (set_item path (set_result Cancelled None)) (us_batches (env s1))\<rparr>"
    have s2: "store_sound lib ?s2"
      by (rule sound_write_settle [OF w assms(4) Cons.prems(2,3) assms(5)]) (simp_all add: needs_recovery_def)
    note s1 = rely_sound [OF assms(5) sound_persist(1) [OF w assms(4) Cons.prems(2)] iffD2 [OF held_batches [OF eff(1)] Cons.prems(3)]]
    have h2: "held token ?s2" using s1(2) by (rule held_modify) (simp add: set_item_def)
    consider (fails) e where "r1 = Inl e" "s' = s1"
      | (gone) "Option.bind (al_get (us_batches (env s1)) token) (\<lambda>b. al_get (ub_items b) path) = None" "s' = env s1"
      | (goes_on) pending' where "cancel_paths lib ios env token expires paths pending' ?s2 = (r, s')"
    proof (cases r1)
      case (Inr confirmed)
      let ?item = "Option.bind (al_get (us_batches (env s1)) token) (\<lambda>b. al_get (ub_items b) path)"
      show thesis
      proof (cases ?item)
        case None
        with Cons.prems(1) w Inr have "s' = env s1" by (auto simp: Let_def split: option.splits if_splits)
        with None show thesis by (rule gone)
      next
        case (Some item)
        with Cons.prems(1) w Inr have "cancel_paths lib ios env token expires paths (pending \<or> \<not> confirmed) ?s2 = (r, s')"
          by (auto simp: Let_def bind_eq_Some_conv)
        then show thesis by (rule goes_on)
      qed
    next
      case (Inl e)
      with Cons.prems(1) w have "s' = s1" by simp
      with Inl show thesis by (rule fails)
    qed
    then show ?case
    proof cases
      case fails
      then show ?thesis
        using sound_failed_write [OF w [unfolded fails(1)] Cons.prems(2) assms(4)] Cons.prems(3) held_batches [OF eff(1)] by simp
    next
      case gone
      then show ?thesis using sound_absent_target [OF s1(1)] s1(2) by simp
    next
      case goes_on
      then show ?thesis by (rule Cons.IH [OF _ s2 h2])
    qed
  qed simp
  then show "store_sound lib s'" "held token s'" by auto
qed

lemma sound_cancel:
  assumes "store_sound lib s" "collision_free lib" "rely_wait lib token env_wait" "rely lib token env"
  shows "store_sound lib (snd (cancel_batch lib ios env_wait env now now_unix token subject storage_id paths s))"
proof -
  obtain ok s1 where l: "lock_transition now env_wait token s = (ok, s1)" by force
  note s1 = sound_lock [OF l assms(1,3)]
  let ?s2 = "sweep_expired now s1"
  show ?thesis
  proof (cases ok)
    case False
    then show ?thesis using l s1 by (simp add: cancel_batch_def)
  next
    case True
    have s2: "store_sound lib ?s2" "held token ?s2"
      using sound_sweep [of lib token True "{}" s1 now] held_sweep [of lib token True "{}" s1 now] s1 True
      by (simp_all add: sound_but_empty)
    have expiry: "store_sound lib (s3\<lparr>us_batches := modify_batch token
        (\<lambda>b. b\<lparr>ub_expires_at := x, ub_expires_unix := y\<rparr>) (us_batches s3)\<rparr>)" if "store_sound lib s3" for s3 x y
      by (rule store_sound_but(1) [OF sound_modify [OF store_sound_but(2) [OF that]]]) simp
    show ?thesis
      using True l s2(1)
      by (auto simp: cancel_batch_def Let_def split: sum.splits option.splits prod.splits if_splits
          intro!: sound_unlock0 expiry dest: sound_cancel_paths(1) [OF _ s2 assms(2,4)])
  qed
qed

lemma confirmed_status_settled: "confirmed_status out = Inr (st, op) \<Longrightarrow> \<not> needs_recovery st"
  by (auto simp: confirmed_status_def needs_recovery_def split: commit_state.splits)

lemma sound_confirm:
  assumes "store_sound lib s" "collision_free lib" "rely_wait lib (uu_ticket review) env_wait" "rely lib (uu_ticket review) env"
  shows "store_sound lib (snd (confirm_unknown_outcome lib io env_wait env now now_unix review out s))"
proof (cases "confirmed_status out")
  case (Inl e)
  then show ?thesis using assms(1) by (simp add: confirm_unknown_outcome_def)
next
  case (Inr x)
  obtain st op where x: "x = (st, op)" by force
  let ?token = "uu_ticket review" and ?path = "uu_path review"
  have settled: "\<not> needs_recovery st" using confirmed_status_settled Inr x by simp
  obtain ok s1 where l: "lock_transition now env_wait ?token s = (ok, s1)" by force
  note s1 = sound_lock [OF l assms(1,3)]
  obtain r s2 where w: "persist lib io ?token ?path st op (batch_expires_unix now_unix (us_result_ttl s1)) s1 = (r, s2)" by force
  have p: "us_persistent s1" using s1(1) by (simp add: store_sound_def)
  show ?thesis
  proof (cases ok)
    case True
    note s3 = rely_sound [OF assms(4) sound_persist(1) [OF w assms(2) s1(1)]
        iffD2 [OF held_batches [OF persist_effect(1) [OF w p assms(2)]] s1(2) [OF True]]]
    note settle = sound_write_settle [OF w assms(2) s1(1) s1(2) [OF True] assms(4)]
    show ?thesis
      using True l w s1(1) Inr settled
      by (auto simp: confirm_unknown_outcome_def x Let_def split: sum.splits option.splits
          intro!: sound_unlock0 settle intro: sound_failed_write assms(2) sound_absent_target s3(1))
  qed (use Inr l s1 in \<open>auto simp: confirm_unknown_outcome_def x Let_def\<close>)
qed

text \<open>Operations that do not wait.\<close>

lemma al_get_map_values: "al_get (map (\<lambda>(k, v). (k, f v)) m) k = map_option f (al_get m k)"
  by (simp add: al_get_def map_of_map)

lemma durable_invalidate: "batch_durable lib w X t e b \<Longrightarrow> batch_durable lib w X t e (invalidate_batch backend x b)"
proof -
  assume d: "batch_durable lib w X t e b"
  let ?b = "b\<lparr>ub_items := map (\<lambda>(path, item).
      (path, if ui_status item = StPending then item\<lparr>ui_status := Cancelled\<rparr> else item)) (ub_items b)\<rparr>"
  have keys: "al_keys (ub_items ?b) = al_keys (ub_items b)" by (auto simp: case_prod_unfold)
  have items: "\<exists>item0. (path, item0) \<in> set (ub_items b) \<and> (needs_recovery (ui_status item) \<longrightarrow> needs_recovery (ui_status item0))"
    if "(path, item) \<in> set (ub_items ?b)" for path item
    using that by (force simp: needs_recovery_def split: if_splits)
  have "batch_durable lib w X t e ?b"
    using d items unfolding batch_durable_def recovery_work_iff keys by simp (fast)
  then show ?thesis by (auto simp: invalidate_batch_def Let_def)
qed

lemma sound_invalidate: "store_sound lib s \<Longrightarrow> store_sound lib (invalidate_storage now storage_id backend s)"
proof -
  assume s: "store_sound lib s"
  let ?f = "\<lambda>b. if ub_storage_id b = storage_id \<and> ub_recovery_backend b = None
                then invalidate_batch backend (now + us_ttl s) b else b"
  have bs: "us_batches (invalidate_storage now storage_id backend s) = map (\<lambda>(t, b). (t, ?f b)) (us_batches s)"
    "us_persistent (invalidate_storage now storage_id backend s) = us_persistent s"
    "us_index (invalidate_storage now storage_id backend s) = us_index s"
    by (simp_all add: invalidate_storage_def)
  have keys: "al_keys (map (\<lambda>(t, b). (t, ?f b)) (us_batches s)) = al_keys (us_batches s)"
    by (simp add: case_prod_unfold)
  have "durable lib True {} t (invalidate_storage now storage_id backend s)" for t
    using s unfolding durable_def bs al_get_map_values
    by (auto simp: store_sound_def durable_def intro: durable_invalidate)
  then show ?thesis using s unfolding store_sound_def bs keys by simp
qed

lemma sound_cleanup:
  assumes "store_sound lib s" "\<And>b. al_get (us_batches s) token = Some b \<Longrightarrow> ub_retirement b \<noteq> RetActive"
  shows "store_sound lib (cleanup_task lib io receipts token s)"
proof -
  obtain r s1 where w: "remove_index lib io token s = (r, s1)" by force
  have s1: "us_batches s1 = us_batches s" "us_persistent s1 = us_persistent s"
    "\<And>t. t \<noteq> token \<Longrightarrow> al_get (us_index s1) t = al_get (us_index s) t"
    using w by (auto simp: remove_index_def Let_def split: if_splits remove_io.splits)
  have "batch_durable lib True {} token e (b\<lparr>ub_retirement := RetPending\<rparr>)" if "al_get (us_batches s) token = Some b" for e b
    using assms(1) assms(2) [OF that] that
    by (intro durable_retired) (auto simp: store_sound_def durable_def batch_durable_def)
  then have "durable lib True {} t (cleanup_task lib io receipts token s)" for t
    using assms(1) s1 by (auto simp: cleanup_task_def w cleanup_ends_def store_sound_def durable_def)
  moreover have "us_persistent (cleanup_task lib io receipts token s)"
    "distinct (al_keys (us_batches (cleanup_task lib io receipts token s)))"
    using assms(1) s1(1,2) by (auto simp: cleanup_task_def w cleanup_ends_def store_sound_def)
  ultimately show ?thesis by (simp add: store_sound_def)
qed

text \<open>Creating a batch.\<close>

lemma terminal_no_work: "batch_is_terminal b \<Longrightarrow> \<not> batch_has_recovery_work b"
  by (auto simp: batch_is_terminal_def batch_has_recovery_work_def list_all_iff list_ex_iff is_terminal_def needs_recovery_def)

lemma sound_retire:
  assumes "store_sound lib s" "\<And>b. al_get (us_batches s) token = Some b \<Longrightarrow> \<not> batch_has_recovery_work b"
  shows "store_sound lib (s\<lparr>us_batches := retire_batch True token (us_batches s)\<rparr>)"
  unfolding retire_batch_def if_True
proof (rule store_sound_but(1) [OF sound_modify [OF store_sound_but(2) [OF assms(1)]]])
  fix b assume "al_get (us_batches s) token = Some b" "batch_durable lib True {} token (al_get (us_index s) token) b"
  then show "batch_durable lib True {} token (al_get (us_index s) token) (b\<lparr>ub_retirement := RetCleaning\<rparr>)"
    using assms(2) by (intro durable_retired) (auto simp: batch_durable_def)
qed

lemma sound_retire_completed:
  "retire_completed True incoming tokens u (us_batches s) n = (u', bs', n') \<Longrightarrow> store_sound lib s \<Longrightarrow>
   (\<And>t b. t \<in> set tokens \<Longrightarrow> al_get (us_batches s) t = Some b \<Longrightarrow> \<not> batch_has_recovery_work b) \<Longrightarrow>
   store_sound lib (s\<lparr>us_batches := bs'\<rparr>)"
proof (induction tokens arbitrary: u n s)
  case (Cons token tokens)
  consider "\<not> requires_retirement u incoming" | "requires_retirement u incoming" "al_get (us_batches s) token = None"
    | "requires_retirement u incoming" "al_get (us_batches s) token \<noteq> None" by blast
  then show ?case
  proof cases
    case 1
    then show ?thesis using Cons.prems(1,2) by auto
  next
    case 2
    then have "retire_completed True incoming tokens u (us_batches s) n = (u', bs', n')" using Cons.prems(1) by simp
    then show ?thesis by (rule Cons.IH [OF _ Cons.prems(2)]) (use Cons.prems(3) in auto)
  next
    case 3
    let ?s = "s\<lparr>us_batches := retire_batch True token (us_batches s)\<rparr>"
    have "store_sound lib ?s" using Cons.prems(2,3) by (intro sound_retire) auto
    moreover have "\<not> batch_has_recovery_work b" if t: "t \<in> set tokens" and g: "al_get (us_batches ?s) t = Some b" for t b
    proof -
      obtain b0 where "al_get (us_batches s) t = Some b0" "ub_items b = ub_items b0"
        using g by (auto simp: retire_batch_def split: if_splits)
      then show ?thesis using Cons.prems(3) [of t b0] t by (simp add: recovery_work_iff)
    qed
    ultimately show ?thesis using Cons.IH [of _ ?s] Cons.prems(1) 3 by (auto split: option.splits)
  qed
qed auto

lemma completed_tokens_work:
  "distinct (al_keys bs) \<Longrightarrow> t \<in> set (completed_tokens bs) \<Longrightarrow> al_get bs t = Some b \<Longrightarrow> \<not> batch_has_recovery_work b"
  by (auto simp: completed_tokens_def al_get_Some_iff dest: terminal_no_work eq_key_imp_eq_value)

lemma sound_make_room:
  assumes "store_sound lib s" "\<And>s. store_sound lib s \<Longrightarrow> store_sound lib (env s)"
  shows "store_sound lib (snd (make_room env now account incoming s))"
proof -
  let ?s = "sweep_expired now s" and ?u = "from_batches (us_batches (sweep_expired now s)) account"
  obtain u bs n where r: "retire_completed (us_persistent ?s) incoming (completed_tokens (us_batches ?s)) ?u (us_batches ?s) 0 = (u, bs, n)"
    by (metis prod_cases3)
  have s: "store_sound lib ?s"
    using sound_sweep [of lib _ True "{}" s now] assms(1) by (simp add: sound_but_empty)
  then have "store_sound lib (?s\<lparr>us_batches := bs\<rparr>)"
    using r completed_tokens_work by (intro sound_retire_completed) (auto simp: store_sound_def)
  then show ?thesis using s assms(2) r by (auto simp: make_room_def Let_def)
qed

lemma create_index_effect:
  assumes "create_index lib io token prepared s = (r, s')"
  shows "us_batches s' = us_batches s" "us_persistent s' = us_persistent s"
    "t \<noteq> token \<Longrightarrow> al_get (us_index s') t = al_get (us_index s) t"
    "is_ok r \<Longrightarrow> al_get (us_index s') token = Some \<lparr>ie_manifest = Some (fst prepared), ie_items = []\<rparr>"
  using assms by (auto simp: create_index_def Let_def split: if_splits index_io.splits)

lemma prepare_index_manifest: "prepare_index lib token b = Inr p \<Longrightarrow> fst p = manifest_of token b"
  by (auto simp: prepare_index_def rbind_Inr_iff Let_def split: if_splits)

lemma manifest_paths: "mi_path ` set (mf_items (manifest_of token b)) = fst ` set (ub_items b)"
  by (force simp: manifest_of_def)

lemma new_batch_fields:
  "ub_retirement (new_batch s now now_unix subject account storage_id items namespace_id) = RetActive"
  "al_keys (ub_items (new_batch s now now_unix subject account storage_id items namespace_id)) = map fst items"
  "\<not> batch_has_recovery_work (new_batch s now now_unix subject account storage_id items namespace_id)"
  by (auto simp: new_batch_def batch_has_recovery_work_def item_statuses_def list_ex_iff needs_recovery_def)

lemma recovering_work: "al_get (us_batches s) token = Some b \<Longrightarrow> batch_has_recovery_work b \<longleftrightarrow> (\<exists>path. recovering s token path)"
  by (auto simp: recovering_def recovery_work_iff)

lemma sound_retire_but:
  assumes "sound_but lib token w X s" "\<And>path. \<not> recovering s token path"
  shows "store_sound lib (s\<lparr>us_batches := retire_batch True token (us_batches s)\<rparr>)"
  unfolding retire_batch_def if_True
proof (rule store_sound_but(1) [OF sound_modify [OF assms(1)]])
  fix b assume "al_get (us_batches s) token = Some b" "batch_durable lib w X token (al_get (us_index s) token) b"
  then show "batch_durable lib True {} token (al_get (us_index s) token) (b\<lparr>ub_retirement := RetCleaning\<rparr>)"
    using assms(2) by (intro durable_retired) (auto simp: batch_durable_def recovering_work)
qed

text \<open>The state after the manifest write: the new batch is whole when the write succeeded.\<close>

lemma sound_registered:
  assumes "store_sound lib s" "\<not> batch_has_recovery_work b" "distinct (al_keys (ub_items b))" "ub_retirement b = RetActive"
    "0 < ub_owners b" "create_index lib io token p (s\<lparr>us_batches := al_insert token b (us_batches s)\<rparr>) = (r, s')"
    "fst p = manifest_of token b'" "ub_items b' = ub_items b"
  shows "sound_but lib token (is_ok r) {} s'" "held token s'" "\<not> recovering s' token path"
proof -
  note eff = create_index_effect [OF assms(6)]
  have own: "batch_durable lib (is_ok r) {} token (al_get (us_index s') token) b"
  proof (cases "is_ok r")
    case True
    then show ?thesis
      using eff(4) assms(2-4,7,8) manifest_paths [of token b']
      by (force simp: batch_durable_def listed_def recovery_work_iff)
  next
    case False
    then show ?thesis using assms(2-4) by (auto simp: batch_durable_def recovery_work_iff)
  qed
  show "sound_but lib token (is_ok r) {} s'"
    using assms(1) own eff(1-3) by (auto simp: sound_but_def store_sound_def durable_def)
  show "held token s'" using assms(4,5) eff(1) by (simp add: held_def)
  show "\<not> recovering s' token path" using assms(2) eff(1) by (auto simp: recovering_def recovery_work_iff)
qed

lemma sound_register:
  assumes "store_sound lib s" "\<not> batch_has_recovery_work b" "distinct (al_keys (ub_items b))" "ub_retirement b = RetActive"
    "0 < ub_owners b" "fst p = manifest_of token b'" "ub_items b' = ub_items b" "rely lib token env"
  shows "store_sound lib (snd (register_batch lib io env token expected (Some p)
           (s\<lparr>us_batches := al_insert token b (us_batches s)\<rparr>)))"
proof -
  let ?s = "s\<lparr>us_batches := al_insert token b (us_batches s)\<rparr>"
  obtain r s1 where w: "create_index lib io token p ?s = (r, s1)" by force
  note reg = sound_registered [OF assms(1-5) w assms(6,7)]
  note s2 = rely_sound [OF assms(8) reg(1,2)]
  have per: "us_persistent (env s1)" using s2(1) by (simp add: sound_but_def)
  have retired: "store_sound lib ((env s1)\<lparr>us_batches := retire_batch (us_persistent (env s1)) token (us_batches (env s1))\<rparr>)"
    using per by (simp, intro sound_retire_but [OF s2(1)]) (use s2(4) reg(3) in blast)
  have "is_ok r \<Longrightarrow> store_sound lib (env s1)" using s2(1) by (simp add: sound_but_empty)
  then show ?thesis
    using retired by (cases r) (auto simp: register_batch_def w Let_def intro!: sound_unlock0)
qed

lemma sound_create:
  assumes "store_sound lib s" "rely lib token env" "\<And>s. store_sound lib s \<Longrightarrow> store_sound lib (env_cleanup s)"
    "distinct (map fst items)"
  shows "store_sound lib (snd (create_batch lib io env_cleanup env now now_unix token subject account storage_id
           items namespace_id expected s))"
proof -
  obtain u s1 where room: "make_room env_cleanup now account (length items) s = (u, s1)" by force
  have s1: "store_sound lib s1" using sound_make_room [OF assms(1), where env = env_cleanup] assms(3) room by (metis snd_conv)
  then have per: "us_persistent s1" by (simp add: store_sound_def)
  let ?b = "new_batch s1 now now_unix subject account storage_id items namespace_id"
  have "store_sound lib (snd (register_batch lib io env token expected (Some p)
      (s1\<lparr>us_batches := al_insert token (?b\<lparr>ub_owners := 1\<rparr>) (us_batches s1)\<rparr>)))"
    if "prepare_index lib token ?b = Inr p" for p
    using prepare_index_manifest [OF that] s1 assms(2,4) new_batch_fields [of s1 now now_unix subject account storage_id items namespace_id]
    by (intro sound_register) (auto simp: batch_has_recovery_work_def item_statuses_def)
  then show ?thesis
    using s1 per assms(1) room
    by (cases "prepare_index lib token ?b") (auto simp: create_batch_def Let_def)
qed

section \<open>Starting again\<close>

text \<open>
  Reading a disk that holds \<open>index\<close>: any read may fail, but what is read is what was written.
\<close>

definition faithful_reader :: "index_reader \<Rightarrow> (str \<times> index_entry) list \<Rightarrow> bool" where
  "faithful_reader rd index \<longleftrightarrow>
     rd_entries rd = al_keys index
     \<and> (\<forall>t m. rd_manifest rd t = Inr m \<longrightarrow> map_option fst m = Option.bind (al_get index t) ie_manifest)
     \<and> (\<forall>t k v. rd_item rd t k = Inr v \<longrightarrow> v = Option.bind (al_get index t) (\<lambda>e. al_get (ie_items e) k))"

definition disk_record :: "index_lib \<Rightarrow> index_entry option \<Rightarrow> str \<Rightarrow> str \<Rightarrow> saved_item option" where
  "disk_record lib e t path = Option.bind e (\<lambda>e. al_get (ie_items e) (operation_id lib t path))"

lemma needs_recovery_after_restart: "needs_recovery (after_restart st) \<longleftrightarrow> needs_recovery st"
  by (cases st) (simp_all add: needs_recovery_def)

lemma after_restart_unknown: "needs_recovery st \<Longrightarrow> after_restart st = StUnknown"
  by (cases st) (simp_all add: needs_recovery_def)

lemma saved_recovering_iff:
  "saved_recovering lib e t path \<longleftrightarrow> (\<exists>v. disk_record lib e t path = Some v \<and> needs_recovery (si_status v))"
  by (auto simp: saved_recovering_def disk_record_def split: option.splits)

lemma load_items_result:
  assumes "load_items lib rd t recs items0 x0 = Inr (items, x)" "faithful_reader rd index" "distinct (al_keys items0)"
  shows "items = items0 @ map (\<lambda>rec. (mi_path rec, loaded_item rec (disk_record lib (al_get index t) t (mi_path rec)))) recs"
    "distinct (al_keys items)"
proof -
  have both: "items = items0 @ map (\<lambda>rec. (mi_path rec, loaded_item rec (disk_record lib (al_get index t) t (mi_path rec)))) recs
      \<and> distinct (al_keys items)"
    using assms(1,3)
  proof (induction recs arbitrary: items0 x0)
    case (Cons rec recs)
    from Cons.prems(1) obtain saved x1 where
      new: "al_get items0 (mi_path rec) = None" and saved: "load_saved lib rd t rec = Inr saved" and
      rest: "load_items lib rd t recs (items0 @ [(mi_path rec, loaded_item rec saved)]) x1 = Inr (items, x)"
      by (auto simp: rbind_Inr_iff split: if_splits)
    have sv: "saved = disk_record lib (al_get index t) t (mi_path rec)"
      using saved assms(2) by (auto simp: load_saved_def rbind_Inr_iff faithful_reader_def disk_record_def split: if_splits)
    have "distinct (al_keys (items0 @ [(mi_path rec, loaded_item rec saved)]))"
      using new Cons.prems(2) by (auto simp: al_get_def map_of_eq_None_iff)
    note ih = Cons.IH [OF rest this]
    show ?case
      by (intro conjI conjunct2 [OF ih]) (use conjunct1 [OF ih] sv in simp)
  qed simp
  show "items = items0 @ map (\<lambda>rec. (mi_path rec, loaded_item rec (disk_record lib (al_get index t) t (mi_path rec)))) recs"
    "distinct (al_keys items)" by (rule conjunct1 [OF both], rule conjunct2 [OF both])
qed

lemma loaded_item_recovering:
  "needs_recovery (ui_status (loaded_item rec saved)) \<longleftrightarrow> (\<exists>v. saved = Some v \<and> needs_recovery (si_status v))"
  by (auto simp: loaded_item_def needs_recovery_after_restart split: option.splits) (simp add: needs_recovery_def)

definition batch_restored :: "index_lib \<Rightarrow> str \<Rightarrow> index_entry option \<Rightarrow> upload_batch \<Rightarrow> bool" where
  "batch_restored lib t e b \<longleftrightarrow>
     batch_durable lib True {} t e b
     \<and> (\<forall>path. listed e path \<and> saved_recovering lib e t path \<longrightarrow>
          (\<exists>item. al_get (ub_items b) path = Some item \<and> ui_status item = StUnknown))"

lemma loaded_batch_restored:
  assumes "load_items lib rd t (mf_items m) [] x0 = Inr (items, x)" "faithful_reader rd index"
    "Option.bind (al_get index t) ie_manifest = Some m"
  shows "batch_restored lib t (al_get index t) (loaded_batch ttl now now_unix m items x)"
    and "listed (al_get index t) path \<Longrightarrow> saved_recovering lib (al_get index t) t path \<Longrightarrow>
       list_ex (\<lambda>(_, item). needs_recovery (ui_status item)) items"
proof -
  note items = load_items_result [OF assms(1,2)]
  have listed: "listed (al_get index t) path \<longleftrightarrow> path \<in> mi_path ` set (mf_items m)" for path
    using assms(3) by (auto simp: listed_def bind_eq_Some_conv)
  have found: "\<exists>item. (path, item) \<in> set items \<and> ui_status item = StUnknown"
    if "listed (al_get index t) path" "saved_recovering lib (al_get index t) t path" for path
    using that items(1)
    by (fastforce simp: listed saved_recovering_iff loaded_item_def after_restart_unknown)
  then show "listed (al_get index t) path \<Longrightarrow> saved_recovering lib (al_get index t) t path \<Longrightarrow>
       list_ex (\<lambda>(_, item). needs_recovery (ui_status item)) items"
    by (fastforce simp: list_ex_iff needs_recovery_def)
  have "batch_durable lib True {} t (al_get index t) (loaded_batch ttl now now_unix m items x)"
    using items by (auto simp: batch_durable_def loaded_batch_def listed saved_recovering_iff loaded_item_recovering)
  then show "batch_restored lib t (al_get index t) (loaded_batch ttl now now_unix m items x)"
    using found items(2) by (auto simp: batch_restored_def loaded_batch_def al_get_Some_iff)
qed

lemma load_entry_effect:
  assumes "load_entry lib rd ttl now now_unix t ld = Inr ld'" "faithful_reader rd index"
  shows "ld' = ld \<or> (\<exists>b. ld_batches ld' = al_insert t b (ld_batches ld) \<and> batch_restored lib t (al_get index t) b)"
    and "listed (al_get index t) path \<Longrightarrow> saved_recovering lib (al_get index t) t path \<Longrightarrow> al_get (ld_batches ld') t \<noteq> None"
proof -
  from assms(1) obtain found where f: "rd_manifest rd t = Inr found"
    by (auto simp: load_entry_def rbind_Inr_iff)
  then have m: "map_option fst found = Option.bind (al_get index t) ie_manifest"
    using assms(2) by (simp add: faithful_reader_def)
  have admit: "ld_batches ld' = al_insert t (loaded_batch ttl now now_unix (fst m) items x) (ld_batches ld)"
    if "admit_loaded ttl now now_unix t m (items, x) ld = Inr ld'" for m items x
    using that by (auto simp: admit_loaded_def rbind_Inr_iff)
  show "ld' = ld \<or> (\<exists>b. ld_batches ld' = al_insert t b (ld_batches ld) \<and> batch_restored lib t (al_get index t) b)"
    using assms(1) f m admit loaded_batch_restored(1) [OF _ assms(2)]
    by (fastforce simp: load_entry_def rbind_Inr_iff split: option.splits if_splits)
  assume l: "listed (al_get index t) path" "saved_recovering lib (al_get index t) t path"
  then obtain mb where mb: "found = Some mb" using m by (auto simp: listed_def split: option.splits)
  then obtain items x where i: "load_items lib rd t (mf_items (fst mb)) [] (mf_expires_unix (fst mb)) = Inr (items, x)"
    using assms(1) f by (auto simp: load_entry_def rbind_Inr_iff split: if_splits)
  have "list_ex (\<lambda>(_, item). needs_recovery (ui_status item)) items"
    using loaded_batch_restored(2) [OF i assms(2) _ l] m mb by simp
  then show "al_get (ld_batches ld') t \<noteq> None"
    using assms(1) f mb i admit [of mb items x] by (auto simp: load_entry_def rbind_Inr_iff split: if_splits)
qed

lemma load_entries_restored:
  assumes "load_entries lib rd ttl now now_unix ts ld = Inr ld'" "faithful_reader rd index" "distinct (al_keys (ld_batches ld))"
    "\<forall>t b. al_get (ld_batches ld) t = Some b \<longrightarrow> batch_restored lib t (al_get index t) b"
  shows "distinct (al_keys (ld_batches ld'))"
    "al_get (ld_batches ld') t = Some b \<Longrightarrow> batch_restored lib t (al_get index t) b"
    "al_get (ld_batches ld) t \<noteq> None \<Longrightarrow> al_get (ld_batches ld') t \<noteq> None"
    "t \<in> set ts \<Longrightarrow> listed (al_get index t) path \<Longrightarrow> saved_recovering lib (al_get index t) t path \<Longrightarrow>
       al_get (ld_batches ld') t \<noteq> None"
proof -
  have "distinct (al_keys (ld_batches ld')) \<and> (\<forall>t b. al_get (ld_batches ld') t = Some b \<longrightarrow> batch_restored lib t (al_get index t) b)
    \<and> (\<forall>t. al_get (ld_batches ld) t \<noteq> None \<longrightarrow> al_get (ld_batches ld') t \<noteq> None)
    \<and> (\<forall>t \<in> set ts. \<forall>path. listed (al_get index t) path \<and> saved_recovering lib (al_get index t) t path \<longrightarrow>
         al_get (ld_batches ld') t \<noteq> None)"
    using assms(1,3,4)
  proof (induction ts arbitrary: ld)
    case (Cons t ts)
    from Cons.prems(1) obtain ld1 where one: "load_entry lib rd ttl now now_unix t ld = Inr ld1"
      and rest: "load_entries lib rd ttl now now_unix ts ld1 = Inr ld'" by (auto simp: rbind_Inr_iff)
    note eff = load_entry_effect [OF one assms(2)]
    have d: "distinct (al_keys (ld_batches ld1))" using eff(1) Cons.prems(2) by auto
    have g: "\<forall>u b. al_get (ld_batches ld1) u = Some b \<longrightarrow> batch_restored lib u (al_get index u) b"
      using eff(1) Cons.prems(3) by (auto split: if_splits)
    have k: "al_get (ld_batches ld) u \<noteq> None \<Longrightarrow> al_get (ld_batches ld1) u \<noteq> None" for u
      using eff(1) by (auto split: if_splits)
    note ih = Cons.IH [OF rest d g]
    have "\<forall>u. al_get (ld_batches ld) u \<noteq> None \<longrightarrow> al_get (ld_batches ld') u \<noteq> None" using ih k by blast
    moreover have "\<forall>u \<in> set (t # ts). \<forall>path. listed (al_get index u) path \<and> saved_recovering lib (al_get index u) u path \<longrightarrow>
         al_get (ld_batches ld') u \<noteq> None" using ih eff(2) by (metis set_ConsD)
    ultimately show ?case using ih by blast
  qed simp
  then show "distinct (al_keys (ld_batches ld'))"
    "al_get (ld_batches ld') t = Some b \<Longrightarrow> batch_restored lib t (al_get index t) b"
    "al_get (ld_batches ld) t \<noteq> None \<Longrightarrow> al_get (ld_batches ld') t \<noteq> None"
    "t \<in> set ts \<Longrightarrow> listed (al_get index t) path \<Longrightarrow> saved_recovering lib (al_get index t) t path \<Longrightarrow>
       al_get (ld_batches ld') t \<noteq> None" by blast+
qed

lemma al_get_retain_keys: "al_get (al_retain (\<lambda>k _. P k) m) k = (if P k then al_get m k else None)"
  by (induction m) (auto simp: al_get_def al_retain_def)

lemma load_restored:
  assumes "load_persistent lib rd ttl now now_unix index = Inr s" "faithful_reader rd index"
  shows "store_sound lib s"
    "listed (al_get index t) path \<Longrightarrow> saved_recovering lib (al_get index t) t path \<Longrightarrow>
       \<exists>b item. al_get (us_batches s) t = Some b \<and> al_get (ub_items b) path = Some item \<and> ui_status item = StUnknown"
proof -
  let ?start = "\<lparr>ld_batches = [], ld_reserved = 0, ld_reservations = [], ld_items = 0\<rparr>"
  from assms(1) obtain ld where ld: "load_entries lib rd ttl now now_unix (rd_entries rd) ?start = Inr ld" and
    s: "us_batches s = ld_batches ld" "us_persistent s" "us_index s = al_retain (\<lambda>t _. al_get (ld_batches ld) t \<noteq> None) index"
    by (auto simp: load_persistent_def rbind_Inr_iff)
  have none: "distinct (al_keys (ld_batches ?start))" "\<forall>t b. al_get (ld_batches ?start) t = Some b \<longrightarrow> batch_restored lib t (al_get index t) b"
    by (simp_all add: al_get_def)
  note restored = load_entries_restored [OF ld assms(2) none]
  show "store_sound lib s"
    using restored(1,2) s by (auto simp: store_sound_def durable_def batch_restored_def al_get_retain_keys)
  assume l: "listed (al_get index t) path" "saved_recovering lib (al_get index t) t path"
  then have "t \<in> set (rd_entries rd)"
    using assms(2) by (auto simp: listed_def faithful_reader_def al_get_def split: option.splits dest!: map_of_SomeD)
       (metis fst_conv image_eqI)
  from restored(4) [OF this l] obtain b where b: "al_get (ld_batches ld) t = Some b" by auto
  with restored(2) [OF b] l show "\<exists>b item. al_get (us_batches s) t = Some b \<and> al_get (ub_items b) path = Some item \<and> ui_status item = StUnknown"
    by (auto simp: batch_restored_def s(1))
qed

section \<open>The state machine\<close>

text \<open>
  One rule per operation. What other requests do while an operation waits is bounded by
  \<open>rely\<close> and \<open>rely_wait\<close>; a result is reported by the execution of its target, whose record on
  disk is marked; a clean-up task runs for a retired batch; a restart loads what is on disk.
\<close>

inductive upload_step :: "index_lib \<Rightarrow> upload_store \<Rightarrow> upload_store \<Rightarrow> bool" for lib where
  step_sweep: "upload_step lib s (sweep_expired now s)"
| step_create: "rely lib token env \<Longrightarrow> (\<And>s. store_sound lib s \<Longrightarrow> store_sound lib (env_cleanup s)) \<Longrightarrow>
    distinct (map fst items) \<Longrightarrow>
    upload_step lib s (snd (create_batch lib io env_cleanup env now now_unix token subject account storage_id
      items namespace_id expected s))"
| step_begin: "rely_wait lib token env_wait \<Longrightarrow> rely lib token env \<Longrightarrow>
    upload_step lib s (snd (begin_upload lib io io2 env_wait env now now_unix token subject storage_id path bytes s))"
| step_finish: "rely_wait lib token env_wait \<Longrightarrow> rely lib token env \<Longrightarrow> keeps_executing lib token path env_wait \<Longrightarrow>
    saved_recovering lib (al_get (us_index s) token) token path \<Longrightarrow>
    upload_step lib s (finish_result lib io env_wait env now now_unix token path (result :: unit app_result) s)"
| step_dropped: "rely_wait lib token env_wait \<Longrightarrow> rely lib token env \<Longrightarrow>
    upload_step lib s (execution_dropped lib io env_wait env now now_unix token path s)"
| step_cancel: "rely_wait lib token env_wait \<Longrightarrow> rely lib token env \<Longrightarrow>
    upload_step lib s (snd (cancel_batch lib ios env_wait env now now_unix token subject storage_id paths s))"
| step_confirm: "rely_wait lib (uu_ticket review) env_wait \<Longrightarrow> rely lib (uu_ticket review) env \<Longrightarrow>
    upload_step lib s (snd (confirm_unknown_outcome lib io env_wait env now now_unix review out s))"
| step_invalidate: "upload_step lib s (invalidate_storage now storage_id backend s)"
| step_cleanup: "(\<And>b. al_get (us_batches s) token = Some b \<Longrightarrow> ub_retirement b = RetCleaning) \<Longrightarrow>
    upload_step lib s (cleanup_task lib rio receipts token s)"
| step_restart: "faithful_reader rd (us_index s) \<Longrightarrow>
    load_persistent lib rd ttl now now_unix (us_index s) = Inr s' \<Longrightarrow> upload_step lib s s'"

inductive upload_reachable :: "index_lib \<Rightarrow> upload_store \<Rightarrow> bool" for lib where
  reach_start: "faithful_reader rd [] \<Longrightarrow> load_persistent lib rd ttl now now_unix [] = Inr s \<Longrightarrow> upload_reachable lib s"
| reach_step: "upload_reachable lib s \<Longrightarrow> upload_step lib s s' \<Longrightarrow> upload_reachable lib s'"

lemma step_sound:
  assumes "upload_step lib s s'" "collision_free lib" "store_sound lib s"
  shows "store_sound lib s'"
  using assms(1)
proof cases
  case (step_sweep now)
  then show ?thesis using sound_sweep [of lib _ True "{}" s now] assms(3) by (simp add: sound_but_empty)
next
  case step_create
  then show ?thesis using sound_create assms(3) by metis
next
  case step_begin
  then show ?thesis using sound_begin assms(2,3) by metis
next
  case (step_finish token env_wait env path io now now_unix result)
  then show ?thesis using sound_finish assms(2,3) by (auto simp: finish_result_def split: prod.splits)
next
  case step_dropped
  then show ?thesis using sound_dropped assms(2,3) by metis
next
  case step_cancel
  then show ?thesis using sound_cancel assms(2,3) by metis
next
  case step_confirm
  then show ?thesis using sound_confirm assms(2,3) by metis
next
  case step_invalidate
  then show ?thesis using sound_invalidate assms(3) by metis
next
  case step_cleanup
  then show ?thesis using sound_cleanup [OF assms(3)] by (metis retirement.distinct(3))
next
  case step_restart
  then show ?thesis using load_restored(1) by metis
qed

lemma reachable_sound: "upload_reachable lib s \<Longrightarrow> collision_free lib \<Longrightarrow> store_sound lib s"
  by (induction rule: upload_reachable.induct) (blast intro: load_restored(1) step_sound)+

lemma sound_in_flight:
  assumes "store_sound lib s" "al_get (us_batches s) token = Some b" "(path, item) \<in> set (ub_items b)"
    "needs_recovery (ui_status item)"
  shows "ub_retirement b = RetActive" "listed (al_get (us_index s) token) path"
    "saved_recovering lib (al_get (us_index s) token) token path"
  using assms by (fastforce simp: store_sound_def durable_def batch_durable_def recovery_work_iff)+

section \<open>Properties\<close>

text \<open>
  C7: in every reachable state of the upload store, a target that is being executed or whose
  result is unknown belongs to a batch that is not being retired, is in the manifest on disk, and
  has a record on disk that marks it for recovery. Targets of a ticket have distinct digests.
\<close>

theorem in_flight_uploads_are_on_disk:
  assumes "upload_reachable lib s" "collision_free lib" "al_get (us_batches s) token = Some b"
    "(path, item) \<in> set (ub_items b)" "ui_status item = InProgress \<or> ui_status item = StUnknown"
  shows "ub_retirement b = RetActive \<and> listed (al_get (us_index s) token) path
       \<and> saved_recovering lib (al_get (us_index s) token) token path"
  using sound_in_flight [OF reachable_sound [OF assms(1,2)] assms(3,4)] assms(5) by (simp add: needs_recovery_def)

text \<open>
  C1: after a crash at any reachable state, a start that reads the disk restores every upload that
  was being executed or whose result was unknown, with its result unknown, so that it is recovered and
  neither repeated nor forgotten.
\<close>

theorem restart_restores_in_flight_uploads:
  assumes "upload_reachable lib s" "collision_free lib" "al_get (us_batches s) token = Some b"
    "(path, item) \<in> set (ub_items b)" "ui_status item = InProgress \<or> ui_status item = StUnknown"
    "faithful_reader rd (us_index s)" "load_persistent lib rd ttl now now_unix (us_index s) = Inr s'"
  shows "\<exists>b' item'. al_get (us_batches s') token = Some b' \<and> al_get (ub_items b') path = Some item'
           \<and> ui_status item' = StUnknown"
  using load_restored(2) [OF assms(7,6)] sound_in_flight [OF reachable_sound [OF assms(1,2)] assms(3,4)] assms(5)
  by (simp add: needs_recovery_def)

text \<open>A ticket with one target, created and begun.\<close>

definition sample_lib :: index_lib where
  "sample_lib = \<lparr>operation_id = (\<lambda>_ path. path), valid_ticket = (\<lambda>_. True), manifest_bytes = (\<lambda>_. Some 10),
                 item_bytes = (\<lambda>_. Some 10)\<rparr>"

definition sample_reader :: "(str \<times> index_entry) list \<Rightarrow> index_reader" where
  "sample_reader index =
     \<lparr>rd_entries = al_keys index, rd_directory = (\<lambda>_. Inr ()),
      rd_manifest = (\<lambda>t. Inr (map_option (\<lambda>m. (m, 10)) (Option.bind (al_get index t) ie_manifest))),
      rd_item = (\<lambda>t k. Inr (Option.bind (al_get index t) (\<lambda>e. al_get (ie_items e) k))), rd_remove = (\<lambda>_. Inr ())\<rparr>"

definition sample_created :: upload_store where
  "sample_created = snd (create_batch sample_lib (Published True) id id 0 0 ''t'' (SessionSubject ''u'') ''acc'' ''st''
     [(''a'', ''a'', 5)] None 0
     \<lparr>us_batches = [], us_ttl = 3600, us_result_ttl = 86400, us_epoch = 0, us_persistent = True, us_index = [],
      us_reservations = []\<rparr>)"

definition sample_begun :: upload_store where
  "sample_begun = snd (begin_upload sample_lib (Published True) (Published True) id id 0 0 ''t'' (SessionSubject ''u'') ''st'' ''a'' 5
     sample_created)"

lemma sample_lib_free: "collision_free sample_lib"
  by (simp add: collision_free_def sample_lib_def)

lemma sample_reader_faithful: "faithful_reader (sample_reader index) index"
  by (auto simp: faithful_reader_def sample_reader_def option.map_comp o_def option.map_ident)

lemma sample_reachable: "upload_reachable sample_lib sample_begun"
proof -
  have "load_persistent sample_lib (sample_reader []) 3600 0 0 []
      = Inr \<lparr>us_batches = [], us_ttl = 3600, us_result_ttl = 86400, us_epoch = 0, us_persistent = True, us_index = [],
      us_reservations = []\<rparr>"
    by (simp add: load_persistent_def sample_reader_def DAY_SECONDS_def al_retain_def)
  note start = reach_start [OF sample_reader_faithful this]
  have "upload_reachable sample_lib sample_created"
    unfolding sample_created_def by (rule reach_step [OF start step_create]) (simp_all add: rely_id)
  then show ?thesis
    unfolding sample_begun_def by (rule reach_step [OF _ step_begin]) (simp_all add: rely_id)
qed

lemmas upload_eval =
  create_batch_def make_room_def sweep_expired_def prune_expired_def from_batches_def requires_retirement_def
  can_admit_def new_batch_def prepare_index_def validate_ticket_def manifest_of_def estimate_def register_batch_def
  create_index_def unlock_transition_def modify_batch_def begin_upload_def lock_transition_def check_begin_def
  begin_decision_def owned_by_def persist_def update_index_def set_item_def set_result_def prunable_def
  batch_is_retained_def batch_expires_unix_def MAX_RETAINED_BATCHES_def MAX_RETAINED_BATCH_ITEMS_def
  MAX_ACTIVE_BATCHES_def MAX_ACTIVE_BATCHES_PER_ACCOUNT_def MAX_ACTIVE_BATCH_ITEMS_def PENDING_UPLOAD_TTL_def
  MAX_MANIFEST_BYTES_def MAX_RESERVED_BYTES_def MAX_ITEM_BYTES_def VERSION_def i64_top_def u64_max_def
  checked_add_def saturating_add_def ok_or_def ensure_def al_get_def al_insert_def al_remove_def sample_lib_def Let_def

lemmas load_eval =
  load_persistent_def load_entry_def load_saved_def valid_manifest_def admit_loaded_def loaded_item_def sample_reader_def
  needs_recovery_def al_retain_def

lemma sample_begun_item:
  "\<exists>b item. al_get (us_batches sample_begun) ''t'' = Some b \<and> (''a'', item) \<in> set (ub_items b) \<and> ui_status item = InProgress"
  by (simp add: sample_begun_def sample_created_def upload_eval cong: let_weak_cong)

definition sample_dropped :: upload_store where
  "sample_dropped = execution_dropped sample_lib (Published True) id id 0 0 ''t'' ''a'' sample_begun"

lemma sample_dropped_item:
  "\<exists>b item. al_get (us_batches sample_dropped) ''t'' = Some b \<and> al_get (ub_items b) ''a'' = Some item \<and> ui_status item = StUnknown
     \<and> ub_storage_id b = ''st''"
  by (simp add: sample_dropped_def sample_begun_def sample_created_def execution_dropped_def upload_eval cong: let_weak_cong)

lemma sample_begun_loads:
  "\<exists>s'. load_persistent sample_lib (sample_reader (us_index sample_begun)) 3600 0 0 (us_index sample_begun) = Inr s'"
proof -
  have "normalize_relative ''a'' = Inr ''a''" by code_simp
  then show ?thesis
    by (simp add: sample_begun_def sample_created_def upload_eval load_eval cong: let_weak_cong)
qed

theorem in_flight_uploads_are_on_disk_witness:
  "\<exists>b item. al_get (us_batches sample_begun) ''t'' = Some b \<and> (''a'', item) \<in> set (ub_items b) \<and> ui_status item = InProgress
     \<and> saved_recovering sample_lib (al_get (us_index sample_begun) ''t'') ''t'' ''a''"
proof -
  obtain b item where b: "al_get (us_batches sample_begun) ''t'' = Some b" "(''a'', item) \<in> set (ub_items b)"
    "ui_status item = InProgress" using sample_begun_item by blast
  from in_flight_uploads_are_on_disk [OF sample_reachable sample_lib_free b(1,2)] b show ?thesis by blast
qed

theorem restart_restores_in_flight_uploads_witness:
  "\<exists>s' b' item'. load_persistent sample_lib (sample_reader (us_index sample_begun)) 3600 0 0 (us_index sample_begun) = Inr s'
     \<and> al_get (us_batches s') ''t'' = Some b' \<and> al_get (ub_items b') ''a'' = Some item' \<and> ui_status item' = StUnknown"
proof -
  obtain b item where b: "al_get (us_batches sample_begun) ''t'' = Some b" "(''a'', item) \<in> set (ub_items b)"
    "ui_status item = InProgress" using sample_begun_item by blast
  obtain s' where s': "load_persistent sample_lib (sample_reader (us_index sample_begun)) 3600 0 0 (us_index sample_begun) = Inr s'"
    using sample_begun_loads by blast
  from restart_restores_in_flight_uploads [OF sample_reachable sample_lib_free b(1,2) disjI1 [OF b(3)] sample_reader_faithful s'] s'
  show ?thesis by blast
qed

lemma al_get_set_item: "al_get (ub_items (set_item path f b)) path = map_option f (al_get (ub_items b) path)"
proof -
  have "map_of (map (\<lambda>(k, i). if k = path then (k, f i) else (k, i)) m) path = map_option f (map_of m path)" for m
    by (induction m) auto
  then show ?thesis by (simp add: set_item_def al_get_def)
qed

lemma begin_decision_start: "begin_decision item = Inr Start \<longleftrightarrow> ui_status item = StPending \<or> ui_status item = StFailed"
  by (cases "ui_status item") (simp_all add: begin_decision_def)

lemma begin_started:
  assumes "begin_upload lib io io2 env_wait env now now_unix token subject storage_id path bytes s = (Inr Start, s')"
    "lock_transition now env_wait token s = (ok, s1)" "s2 = sweep_expired now s1"
    "persist lib io token path InProgress None (batch_expires_unix now_unix (us_ttl s2)) s2 = (r, s3)"
  shows "check_begin s2 token subject storage_id path bytes = Inr Start"
    "\<exists>confirmed b item. r = Inr confirmed \<and> al_get (us_batches (env s3)) token = Some b \<and> al_get (ub_items b) path = Some item
       \<and> (us_persistent (env s3) \<longrightarrow> confirmed)
       \<and> s' = unlock_transition token ((env s3)\<lparr>us_batches := modify_batch token (\<lambda>b.
            (set_item path (set_result InProgress None) b)
              \<lparr>ub_expires_at := now + us_ttl (env s3), ub_expires_unix := batch_expires_unix now_unix (us_ttl s2)\<rparr>)
            (us_batches (env s3))\<rparr>)"
  using assms
  by (auto simp: begin_upload_def Let_def unlock_transition_def split: bool.splits sum.splits upload_begin.splits option.splits
      prod.splits if_splits)

text \<open>
  C20: an upload starts only for the owner of its ticket, for a target of the ticket with the
  announced size, and only after the record of its admission is on disk and confirmed durable; in
  memory the target is then in progress.
\<close>

theorem upload_starts_after_durable_admission:
  assumes "begin_upload lib io io2 env_wait env now now_unix token subject storage_id path bytes s = (Inr Start, s')"
    "us_persistent s" "\<And>s. us_persistent (env_wait s) = us_persistent s" "\<And>s. us_persistent (env s) = us_persistent s"
    "\<And>s. al_get (us_index (env s)) token = al_get (us_index s) token"
  shows "io = Published True
       \<and> (\<exists>v. disk_record lib (al_get (us_index s') token) token path = Some v \<and> si_status v = InProgress)
       \<and> (\<exists>b item. al_get (us_batches s') token = Some b \<and> al_get (ub_items b) path = Some item \<and> ui_status item = InProgress)
       \<and> (\<exists>b item. al_get (us_batches (sweep_expired now (snd (lock_transition now env_wait token s)))) token = Some b
            \<and> owned_by b subject storage_id \<and> al_get (ub_items b) path = Some item \<and> ui_size item = bytes
            \<and> (ui_status item = StPending \<or> ui_status item = StFailed))"
proof -
  obtain ok s1 where l: "lock_transition now env_wait token s = (ok, s1)" by force
  let ?s2 = "sweep_expired now s1"
  obtain r s3 where w: "persist lib io token path InProgress None (batch_expires_unix now_unix (us_ttl ?s2)) ?s2 = (r, s3)" by force
  note started = begin_started [OF assms(1) l refl w]
  from started(2) obtain confirmed b item where r: "r = Inr confirmed" "us_persistent (env s3) \<longrightarrow> confirmed" and
    b: "al_get (us_batches (env s3)) token = Some b" "al_get (ub_items b) path = Some item" and
    s': "s' = unlock_transition token ((env s3)\<lparr>us_batches := modify_batch token (\<lambda>b.
            (set_item path (set_result InProgress None) b)
              \<lparr>ub_expires_at := now + us_ttl (env s3), ub_expires_unix := batch_expires_unix now_unix (us_ttl ?s2)\<rparr>)
            (us_batches (env s3))\<rparr>)" by blast
  have p1: "us_persistent s1"
    using l assms(2) by (auto simp: lock_transition_def Let_def assms(3) split: option.splits if_splits)
  have disk: "io = Published confirmed" "\<exists>v. disk_record lib (al_get (us_index s3) token) token path = Some v \<and> si_status v = InProgress"
    "us_persistent s3"
    using w r(1) p1 by (auto simp: persist_def update_index_def Let_def disk_record_def
        split: if_splits option.splits index_io.splits)
  have "al_get (ub_items (set_item path (set_result InProgress None) b)) path = Some (set_result InProgress None item)"
    using b(2) by (simp add: al_get_set_item)
  moreover have "\<exists>b item. al_get (us_batches ?s2) token = Some b \<and> owned_by b subject storage_id
      \<and> al_get (ub_items b) path = Some item \<and> ui_size item = bytes
      \<and> (ui_status item = StPending \<or> ui_status item = StFailed)"
    using started(1) by (auto simp: check_begin_def rbind_Inr_iff begin_decision_start)
  ultimately show ?thesis
    using disk r(2) b(1) l by (simp add: s' unlock_transition_def set_result_def assms(4,5))
qed

theorem upload_starts_after_durable_admission_witness:
  "\<exists>v. disk_record sample_lib (al_get (us_index sample_begun) ''t'') ''t'' ''a'' = Some v \<and> si_status v = InProgress"
proof -
  have start: "fst (begin_upload sample_lib (Published True) (Published True) id id 0 0 ''t'' (SessionSubject ''u'') ''st'' ''a'' 5
      sample_created) = Inr Start" "us_persistent sample_created"
    by (simp_all add: sample_created_def upload_eval cong: let_weak_cong)
  then have "begin_upload sample_lib (Published True) (Published True) id id 0 0 ''t'' (SessionSubject ''u'') ''st'' ''a'' 5
      sample_created = (Inr Start, sample_begun)"
    by (simp add: sample_begun_def prod_eq_iff)
  from upload_starts_after_durable_admission [OF this start(2)] show ?thesis by simp
qed

text \<open>A batch with something to recover is never swept away, so its gate can be taken.\<close>

lemma sweep_keeps_recovering:
  assumes "us_persistent s" "distinct (al_keys (us_batches s))" "al_get (us_batches s) token = Some b"
    "batch_has_recovery_work b" "ub_retirement b = RetActive"
  shows "al_get (us_batches (sweep_expired now s)) token = Some b"
  using assms by (simp add: sweep_expired_def al_get_prune prunable_def batch_is_retained_def)

lemma lock_recovering:
  assumes "store_sound lib s" "al_get (us_batches s) token = Some b" "batch_has_recovery_work b"
  shows "\<exists>s1. lock_transition now id token s = (True, s1) \<and> us_persistent s1 \<and> us_index s1 = us_index s
      \<and> us_result_ttl s1 = us_result_ttl s \<and> al_get (us_batches s1) token = Some (b\<lparr>ub_owners := ub_owners b + 1\<rparr>)"
proof -
  have "ub_retirement b = RetActive" using assms by (auto simp: store_sound_def durable_def batch_durable_def)
  then have "al_get (us_batches (sweep_expired now s)) token = Some b"
    using assms by (intro sweep_keeps_recovering) (auto simp: store_sound_def)
  then show ?thesis
    using assms(1) \<open>ub_retirement b = RetActive\<close>
    by (simp add: lock_transition_def Let_def store_sound_def) (simp add: sweep_expired_def)
qed

text \<open>
  The record a proved outcome leaves in the index, and whether the index takes it: it must encode,
  in at most \<open>MAX_ITEM_BYTES\<close>.
\<close>

definition settled_record :: "operation_outcome \<Rightarrow> str \<Rightarrow> int \<Rightarrow> saved_item" where
  "settled_record out path expires =
     \<lparr>si_version = VERSION, si_path = path, si_status = (if oo_commit out = Committed then Complete else StFailed),
      si_operation = (if oo_commit out = Committed then None else Some (saved_outcome out)), si_expires_unix = expires\<rparr>"

definition record_fits :: "index_lib \<Rightarrow> saved_item \<Rightarrow> bool" where
  "record_fits lib v = (case item_bytes lib v of None \<Rightarrow> False | Some n \<Rightarrow> n \<le> MAX_ITEM_BYTES)"

lemma persist_settled:
  assumes "us_persistent s" "al_get (us_index s) token = Some entry" "valid_ticket lib token"
    "confirmed_status out = Inr (st, op)"
    and v_def: "v = settled_record out path ex"
  shows "record_fits lib v \<and> io = Published d \<Longrightarrow> persist lib io token path st op ex s
      = (Inr d, s\<lparr>us_index := al_insert token (entry\<lparr>ie_items := al_insert (operation_id lib token path) v (ie_items entry)\<rparr>) (us_index s)\<rparr>)"
    and "\<not> (record_fits lib v \<and> (\<exists>d. io = Published d)) \<Longrightarrow> \<exists>e. persist lib io token path st op ex s = (Inl e, s)"
proof -
  have v: "\<lparr>si_version = VERSION, si_path = path, si_status = st, si_operation = map_option saved_outcome op, si_expires_unix = ex\<rparr> = v"
    using assms(4) by (auto simp: v_def settled_record_def confirmed_status_def split: commit_state.splits)
  note unfold = persist_def update_index_def Let_def v record_fits_def
  show "record_fits lib v \<and> io = Published d \<Longrightarrow> persist lib io token path st op ex s
      = (Inr d, s\<lparr>us_index := al_insert token (entry\<lparr>ie_items := al_insert (operation_id lib token path) v (ie_items entry)\<rparr>) (us_index s)\<rparr>)"
    using assms(1-3) by (auto simp: unfold split: option.splits)
  show "\<not> (record_fits lib v \<and> (\<exists>d. io = Published d)) \<Longrightarrow> \<exists>e. persist lib io token path st op ex s = (Inl e, s)"
    using assms(1-3) by (auto simp: unfold split: option.splits index_io.splits)
qed

text \<open>
  C24: an upload whose result is unknown does not stay so once recovery has proved what happened.
  With no other request interfering, whatever the expiry times: if the index can be written and takes
  the record (it encodes within the size limit), the proof is accepted and the target becomes
  complete, or failed and free to be retried, in memory and on disk. If not, the confirmation reports
  an error and nothing is lost: the upload is still there, still unknown, and the index is as before.
\<close>

theorem proved_outcome_settles:
  assumes "upload_reachable lib s" "collision_free lib" "al_get (us_batches s) (uu_ticket review) = Some b"
    "al_get (ub_items b) (uu_path review) = Some item" "ui_status item = StUnknown" "ub_storage_id b = uu_storage_id review"
    "oo_commit out = Committed \<or> oo_commit out = NotCommitted" "valid_ticket lib (uu_ticket review)"
  shows "\<exists>r s' b' item'. confirm_unknown_outcome lib io id id now now_unix review out s = (r, s')
       \<and> al_get (us_batches s') (uu_ticket review) = Some b' \<and> al_get (ub_items b') (uu_path review) = Some item'
       \<and> (if record_fits lib (settled_record out (uu_path review) (batch_expires_unix now_unix (us_result_ttl s)))
              \<and> (\<exists>durable_write. io = Published durable_write)
          then r = Inr () \<and> ui_status item' = (if oo_commit out = Committed then Complete else StFailed)
            \<and> disk_record lib (al_get (us_index s') (uu_ticket review)) (uu_ticket review) (uu_path review)
                = Some (settled_record out (uu_path review) (batch_expires_unix now_unix (us_result_ttl s)))
          else \<not> is_ok r \<and> ui_status item' = StUnknown \<and> us_index s' = us_index s)"
proof -
  let ?token = "uu_ticket review" and ?path = "uu_path review"
  obtain st op where st: "confirmed_status out = Inr (st, op)" "st = (if oo_commit out = Committed then Complete else StFailed)"
    using assms(7) by (auto simp: confirmed_status_def)
  have sound: "store_sound lib s" by (rule reachable_sound [OF assms(1,2)])
  have mem: "(?path, item) \<in> set (ub_items b)" using assms(4) by (simp add: al_get_def map_of_SomeD)
  have rec: "needs_recovery (ui_status item)" using assms(5) by (simp add: needs_recovery_def)
  have work: "batch_has_recovery_work b" using mem rec by (auto simp: recovery_work_iff)
  have "listed (al_get (us_index s) ?token) ?path" by (rule sound_in_flight(2) [OF sound assms(3) mem rec])
  then obtain entry where entry: "al_get (us_index s) ?token = Some entry" by (auto simp: listed_def split: option.splits)
  obtain s1 where l: "lock_transition now id ?token s = (True, s1)" "us_persistent s1" "us_index s1 = us_index s"
    "us_result_ttl s1 = us_result_ttl s" "al_get (us_batches s1) ?token = Some (b\<lparr>ub_owners := ub_owners b + 1\<rparr>)"
    using lock_recovering [OF sound assms(3) work] by blast
  have check: "check_review s1 review = Inr ()" using l(5) assms(4-6) by (simp add: check_review_def ok_or_def ensure_def)
  let ?ex = "batch_expires_unix now_unix (us_result_ttl s)"
  let ?v = "settled_record out ?path ?ex"
  note written = persist_settled [OF l(2) _ assms(8) st(1) refl, of entry ?path ?ex]
  show ?thesis
  proof (cases "record_fits lib ?v \<and> (\<exists>d. io = Published d)")
    case True
    then obtain d where d: "record_fits lib ?v \<and> io = Published d" by blast
    let ?s2 = "s1\<lparr>us_index := al_insert ?token (entry\<lparr>ie_items := al_insert (operation_id lib ?token ?path) ?v (ie_items entry)\<rparr>) (us_index s1)\<rparr>"
    let ?f = "\<lambda>b. drop_recovery_backend ((set_item ?path (set_result st op) b)
        \<lparr>ub_expires_at := now + us_result_ttl s1, ub_expires_unix := ?ex\<rparr>)"
    let ?s3 = "unlock_transition ?token (?s2\<lparr>us_batches := modify_batch ?token ?f (us_batches ?s2)\<rparr>)"
    have run: "confirm_unknown_outcome lib io id id now now_unix review out s = (Inr (), ?s3)"
      using l(1,3,4,5) assms(4) entry written(1) [OF _ d]
      by (simp add: confirm_unknown_outcome_def Let_def st(1) check)
    have "ub_items (drop_recovery_backend x) = ub_items x" for x by (simp add: drop_recovery_backend_def)
    then have "al_get (us_batches ?s3) ?token = Some b' \<Longrightarrow> al_get (ub_items b') ?path = Some (set_result st op item)" for b'
      using l(5) assms(4) al_get_set_item [of ?path "set_result st op" "b\<lparr>ub_owners := ub_owners b + 1\<rparr>"]
      by (auto simp: unlock_transition_def)
    moreover obtain b' where "al_get (us_batches ?s3) ?token = Some b'" using l(5) by (simp add: unlock_transition_def)
    moreover have "disk_record lib (al_get (us_index ?s3) ?token) ?token ?path = Some ?v"
      by (simp add: unlock_transition_def disk_record_def settled_record_def)
    ultimately show ?thesis
      using run st(2) True
      by (intro exI [of _ "Inr ()"] exI [of _ ?s3] exI [of _ b'] exI [of _ "set_result st op item"]) (simp add: set_result_def)
  next
    case False
    then obtain e where e: "persist lib io ?token ?path st op ?ex s1 = (Inl e, s1)"
      using written(2) entry l(3) by auto
    have run: "confirm_unknown_outcome lib io id id now now_unix review out s = (Inl e, unlock_transition ?token s1)"
      using l(1,4) by (simp add: confirm_unknown_outcome_def Let_def st(1) check e)
    obtain b' where "al_get (us_batches (unlock_transition ?token s1)) ?token = Some b'" "ub_items b' = ub_items b"
      using l(5) by (simp add: unlock_transition_def)
    then show ?thesis
      using run False assms(4,5) l(3) by (auto simp: unlock_transition_def)
  qed
qed

theorem proved_outcome_settles_witness:
  "\<exists>review s' b' item'. confirm_unknown_outcome sample_lib (Published True) id id 7 7 review
         (operation_outcome_new Committed CleanupComplete) sample_dropped = (Inr (), s')
     \<and> al_get (us_batches s') ''t'' = Some b' \<and> al_get (ub_items b') ''a'' = Some item' \<and> ui_status item' = Complete"
proof -
  let ?review = "\<lparr>uu_backend = None, uu_ticket = ''t'', uu_storage_id = ''st'', uu_namespace_id = None, uu_path = ''a'', uu_size = 5,
      uu_operation = None\<rparr>"
  let ?out = "operation_outcome_new Committed CleanupComplete"
  have reach: "upload_reachable sample_lib sample_dropped"
    unfolding sample_dropped_def by (rule reach_step [OF sample_reachable step_dropped]) (simp_all add: rely_id)
  obtain b item where b: "al_get (us_batches sample_dropped) ''t'' = Some b" "al_get (ub_items b) ''a'' = Some item"
    "ui_status item = StUnknown" "ub_storage_id b = ''st''" using sample_dropped_item by blast
  have out: "oo_commit ?out = Committed" by (simp add: operation_outcome_new_def)
  have fits: "record_fits sample_lib v" for v by (simp add: record_fits_def sample_lib_def MAX_ITEM_BYTES_def)
  have "valid_ticket sample_lib ''t''" by (simp add: sample_lib_def)
  with b out proved_outcome_settles [OF reach sample_lib_free, of ?review b item ?out "Published True" 7 7]
  obtain s' b' item' where "confirm_unknown_outcome sample_lib (Published True) id id 7 7 ?review ?out sample_dropped = (Inr (), s')"
    "al_get (us_batches s') ''t'' = Some b'" "al_get (ub_items b') ''a'' = Some item'" "ui_status item' = Complete"
    by (auto simp: fits ex_bool_eq split: if_splits)
  then show ?thesis by (intro exI conjI)
qed

end
