(* ===== verification/UploadPlanning.thy ===== *)
theory UploadPlanning
  imports UploadBatch
begin

text \<open>
  The planning of a batch's targets (\<open>numbered_upload_name\<close> and the loop of
  \<open>prepare_upload_batch\<close> in src/src/upload_batch.rs): sizes are checked against the limits, paths
  are normalized, and a target that exists or is promised to another ticket is given a free
  number. The storage backend's two queries are parameters: \<open>metadata\<close> and \<open>list_directory\<close>
  (names and whether the listing is cut off).
\<close>

section \<open>Numbered names\<close>

definition strip_suffix :: "str \<Rightarrow> str \<Rightarrow> str option" where
  "strip_suffix p s = (if ends_with s p then Some (take (length s - length p) s) else None)"

text \<open>\<open>str::rsplit_once\<close> on a text: at its last occurrence.\<close>

fun rsplit_once_str :: "str \<Rightarrow> str \<Rightarrow> (str \<times> str) option" where
  "rsplit_once_str p [] = None"
| "rsplit_once_str p (c # s) =
     (case rsplit_once_str p s of
        Some (a, b) \<Rightarrow> Some (c # a, b)
      | None \<Rightarrow> map_option (\<lambda>rest. ([], rest)) (strip_prefix p (c # s)))"

definition split_extension :: "str \<Rightarrow> str \<times> str" where
  "split_extension name =
     (case rsplit_once CHR ''.'' name of
        Some (stem, extension) \<Rightarrow> if stem \<noteq> [] then (stem, ''.'' @ extension) else (name, [])
      | None \<Rightarrow> (name, []))"

definition split_number :: "str \<Rightarrow> str \<times> nat" where
  "split_number stem =
     (case Option.bind (strip_suffix '')'' stem) (rsplit_once_str '' ('') of
        Some (base, number) \<Rightarrow>
          (case parse_u64 number of Some n \<Rightarrow> if 0 < n then (base, n) else (stem, 0) | None \<Rightarrow> (stem, 0))
      | None \<Rightarrow> (stem, 0))"

definition name_number :: "str \<Rightarrow> str \<Rightarrow> str \<Rightarrow> nat option" where
  "name_number before after name =
     Option.bind (Option.bind (strip_prefix before name) (strip_suffix after)) parse_u64"

definition numbered_upload_name :: "str \<Rightarrow> str list \<Rightarrow> str app_result" where
  "numbered_upload_name name names =
     (let (stem, extension) = split_extension name;
          (base, initial) = split_number stem;
          maximum = foldl max initial (List.map_filter (name_number (base @ '' ('') ('')'' @ extension)) names)
      in rbind (ok_or (checked_add maximum 1) (Conflict ''The duplicate number is out of range'')) (\<lambda>n.
           Inr (base @ '' ('' @ show_nat n @ '')'' @ extension)))"

section \<open>The plan\<close>

record upload_limits =
  max_upload_bytes :: nat
  max_upload_batch_bytes :: nat
  max_upload_batch_entries :: nat
  upload_file_concurrency :: nat

record plan_state =
  pl_reserved :: "str list"
  pl_names :: "(str \<times> str list) list"
  pl_prepared :: "(str \<times> str) list"
  pl_total :: nat
  pl_validated :: "(str \<times> str \<times> nat) list"

record ('m) plan_backend =
  metadata :: "str \<Rightarrow> 'm app_result"
  list_directory :: "str \<Rightarrow> nat \<Rightarrow> (str list \<times> bool) app_result"

definition split_parent :: "str \<Rightarrow> str \<times> str" where
  "split_parent path = (case rsplit_once CHR ''/'' path of Some p \<Rightarrow> p | None \<Rightarrow> ([], path))"

definition target_exists :: "'m plan_backend \<Rightarrow> str \<Rightarrow> bool app_result" where
  "target_exists be path =
     (case metadata be path of
        Inr _ \<Rightarrow> Inr True
      | Inl e \<Rightarrow> if e = NotFound then Inr False else Inl e)"

text \<open>The names of a directory, listed once and kept.\<close>

definition directory_names :: "'m plan_backend \<Rightarrow> str \<Rightarrow> (str \<times> str list) list \<Rightarrow> str list app_result" where
  "directory_names be storage_parent cache =
     (case al_get cache storage_parent of
        Some names \<Rightarrow> Inr names
      | None \<Rightarrow>
          rbind (case list_directory be storage_parent 10000 of
                   Inr listing \<Rightarrow> Inr listing
                 | Inl e \<Rightarrow> if e = NotFound then Inr ([], False) else Inl e) (\<lambda>(names, truncated).
            if truncated
            then Inl (Conflict ''The directory has too many files to find a free number, choose another name'')
            else Inr names))"

definition reserved_names :: "str \<Rightarrow> str list \<Rightarrow> str list" where
  "reserved_names storage_parent reserved =
     map (\<lambda>path. snd (split_parent path)) (filter (\<lambda>path. fst (split_parent path) = storage_parent) reserved)"

definition renumber ::
  "'m plan_backend \<Rightarrow> access_config \<Rightarrow> request_info \<Rightarrow> share \<Rightarrow> plan_state \<Rightarrow> str
    \<Rightarrow> (str \<times> str \<times> (str \<times> str list) list) app_result" where
  "renumber be cfg rq sh pl request_path =
     (let (parent, name) = split_parent request_path;
          storage_parent = share_storage_path sh parent
      in rbind (directory_names be storage_parent (pl_names pl)) (\<lambda>names.
         let names = names @ reserved_names storage_parent (pl_reserved pl) in
         rbind (numbered_upload_name name names) (\<lambda>assigned.
         let request_path = (if parent = [] then assigned else parent @ ''/'' @ assigned);
             storage_path = share_storage_path sh request_path
         in rbind (check_folder_locks cfg rq (share_storage_id sh) storage_path) (\<lambda>_.
              Inr (request_path, storage_path, al_insert storage_parent (assigned # names) (pl_names pl))))))"

definition plan_target ::
  "'m plan_backend \<Rightarrow> access_config \<Rightarrow> request_info \<Rightarrow> share \<Rightarrow> plan_state \<Rightarrow> str
    \<Rightarrow> (str \<times> str \<times> (str \<times> str list) list) app_result" where
  "plan_target be cfg rq sh pl request_path =
     (let storage_path = share_storage_path sh request_path in
      rbind (check_folder_locks cfg rq (share_storage_id sh) storage_path) (\<lambda>_.
      rbind (target_exists be storage_path) (\<lambda>exists.
        if exists \<or> storage_path \<in> set (pl_reserved pl) then renumber be cfg rq sh pl request_path
        else Inr (request_path, storage_path, pl_names pl))))"

definition plan_item ::
  "'m plan_backend \<Rightarrow> access_config \<Rightarrow> request_info \<Rightarrow> upload_limits \<Rightarrow> share \<Rightarrow> plan_state \<Rightarrow> str \<times> nat
    \<Rightarrow> plan_state app_result" where
  "plan_item be cfg rq limits sh pl item =
     rbind (ensure (snd item \<le> max_upload_bytes limits) PayloadTooLarge) (\<lambda>_.
     rbind (ok_or (checked_add (pl_total pl) (snd item)) PayloadTooLarge) (\<lambda>total_bytes.
     rbind (ensure (total_bytes \<le> max_upload_batch_bytes limits) PayloadTooLarge) (\<lambda>_.
     rbind (normalize_relative (fst item)) (\<lambda>original_path.
     rbind (ensure_non_root original_path) (\<lambda>_.
     rbind (validate_name (last (split_on CHR ''/'' original_path))) (\<lambda>_.
     rbind (plan_target be cfg rq sh pl original_path) (\<lambda>(request_path, storage_path, names).
       if al_get (pl_validated pl) storage_path \<noteq> None
       then Inl (Conflict ''The batch has a duplicate target path'')
       else Inr \<lparr>pl_reserved = storage_path # pl_reserved pl, pl_names = names,
                 pl_prepared = pl_prepared pl @ [(original_path, request_path)], pl_total = total_bytes,
                 pl_validated = pl_validated pl @ [(storage_path, request_path, snd item)]\<rparr>)))))))"

fun plan_items ::
  "'m plan_backend \<Rightarrow> access_config \<Rightarrow> request_info \<Rightarrow> upload_limits \<Rightarrow> share \<Rightarrow> plan_state \<Rightarrow> (str \<times> nat) list
    \<Rightarrow> plan_state app_result" where
  "plan_items be cfg rq limits sh pl [] = Inr pl"
| "plan_items be cfg rq limits sh pl (item # items) =
     rbind (plan_item be cfg rq limits sh pl item) (\<lambda>pl. plan_items be cfg rq limits sh pl items)"

definition plan_batch ::
  "'m plan_backend \<Rightarrow> access_config \<Rightarrow> request_info \<Rightarrow> upload_limits \<Rightarrow> share \<Rightarrow> str list \<Rightarrow> (str \<times> nat) list
    \<Rightarrow> plan_state app_result" where
  "plan_batch be cfg rq limits sh reserved items =
     (if items = [] \<or> max_upload_batch_entries limits < length items then Inl PayloadTooLarge
      else plan_items be cfg rq limits sh
             \<lparr>pl_reserved = reserved, pl_names = [], pl_prepared = [], pl_total = 0, pl_validated = []\<rparr> items)"

datatype upload_backend = LocalUpload | S3Upload bool

definition browser_upload_policy :: "(str \<times> upload_backend) list \<Rightarrow> upload_limits \<Rightarrow> str \<Rightarrow> str \<times> nat" where
  "browser_upload_policy instances limits storage_id =
     (if list_ex (\<lambda>(instance, backend). instance = storage_id \<and> backend = S3Upload False) instances
      then ''direct'' else ''relay'', upload_file_concurrency limits)"

record prepared_batch =
  pb_ticket :: str
  pb_items :: "(str \<times> str) list"
  pb_upload_mode :: str
  pb_concurrency :: nat

text \<open>
  \<open>prepare_upload_batch\<close> for a resolved share and a known namespace: the permission is
  checked, the plan is made under the planning gate and becomes a ticket.
\<close>

definition prepare_upload_batch ::
  "index_lib \<Rightarrow> index_io \<Rightarrow> others \<Rightarrow> others \<Rightarrow> int \<Rightarrow> int \<Rightarrow> 'm plan_backend \<Rightarrow> access_config \<Rightarrow> request_info
    \<Rightarrow> (str \<times> upload_backend) list \<Rightarrow> upload_limits \<Rightarrow> share \<Rightarrow> request_subject option \<Rightarrow> str \<Rightarrow> str \<Rightarrow> str \<Rightarrow> nat
    \<Rightarrow> (str \<times> nat) list \<Rightarrow> upload_store \<Rightarrow> prepared_batch app_result \<times> upload_store" where
  "prepare_upload_batch lib io env_cleanup env now now_unix be cfg rq instances limits sh subject account
      namespace token expected items s =
     (case rbind (ensure_storage_action cfg rq (share_storage_id sh) DoUpload) (\<lambda>_.
           rbind (ok_or subject Forbidden) (\<lambda>subject.
           rbind (plan_batch be cfg rq limits sh (reserved_paths now (share_storage_id sh) s) items) (\<lambda>pl.
             Inr (subject, pl)))) of
        Inl e \<Rightarrow> (Inl e, s)
      | Inr (subject, pl) \<Rightarrow>
          (case create_batch lib io env_cleanup env now now_unix token subject account (share_storage_id sh)
                  (pl_validated pl) (Some namespace) expected s of
             (Inl e, s) \<Rightarrow> (Inl e, s)
           | (Inr ticket, s) \<Rightarrow>
               let (mode, concurrency) = browser_upload_policy instances limits (share_storage_id sh)
               in (Inr \<lparr>pb_ticket = ticket, pb_items = pl_prepared pl, pb_upload_mode = mode,
                        pb_concurrency = concurrency\<rparr>, s)))"

section \<open>A numbered name is free\<close>

lemma ends_with_iff: "ends_with s p \<longleftrightarrow> (\<exists>r. s = r @ p)"
  using starts_with_iff [of "rev s" "rev p"] by (auto simp: ends_with_def starts_with_def) (metis rev_append rev_rev_ident)

lemma strip_suffix_Some_iff [simp]: "strip_suffix p s = Some r \<longleftrightarrow> s = r @ p"
  by (auto simp: strip_suffix_def ends_with_iff)

lemma rsplit_once_Some: "rsplit_once c s = Some (a, b) \<Longrightarrow> s = a @ c # b \<and> c \<notin> set b"
  by (auto simp: rsplit_once_def rev_swap dest!: split_once_Some)

lemma rsplit_once_append: "c \<notin> set b \<Longrightarrow> rsplit_once c (a @ c # b) = Some (a, b)"
  by (simp add: rsplit_once_def split_once_append)

lemma rsplit_once_None: "rsplit_once c s = None \<longleftrightarrow> c \<notin> set s"
  by (simp add: rsplit_once_def split_once_def)

lemma rsplit_once_str_Some: "rsplit_once_str p s = Some (a, b) \<Longrightarrow> s = a @ p @ b"
  by (induction p s arbitrary: a rule: rsplit_once_str.induct) (auto split: option.splits)

lemma split_extension_append: "split_extension name = (stem, extension) \<Longrightarrow> name = stem @ extension"
  by (auto simp: split_extension_def dest: rsplit_once_Some split: option.splits if_splits)

lemma split_number_cases:
  assumes "split_number stem = (base, initial)"
  obtains "base = stem" "initial = 0"
  | number where "stem = base @ '' ('' @ number @ '')''" "parse_u64 number = Some initial"
  using assms
  by (auto simp: split_number_def bind_eq_Some_conv dest!: rsplit_once_str_Some split: option.splits if_splits)

lemma foldl_max_start: "a \<le> foldl max a xs" for a :: nat
proof (induction xs arbitrary: a)
  case (Cons y ys)
  show ?case using Cons [of "max a y"] by simp
qed simp

lemma foldl_max_member: "x \<in> set xs \<Longrightarrow> x \<le> foldl max a xs" for a :: nat
proof (induction xs arbitrary: a)
  case (Cons y ys)
  have "max a y \<le> foldl max (max a y) ys" by (rule foldl_max_start)
  then show ?case using Cons by auto
qed simp

lemma strip_prefix_append [simp]: "strip_prefix p (p @ r) = Some r"
  by simp

lemma strip_suffix_append [simp]: "strip_suffix p (r @ p) = Some r"
  by simp

lemma name_number_show: "n \<le> u64_max \<Longrightarrow> name_number before after (before @ show_nat n @ after) = Some n"
  by (simp add: name_number_def parse_u64_show_nat)

lemma set_map_filter: "y \<in> set (List.map_filter f xs) \<longleftrightarrow> (\<exists>x \<in> set xs. f x = Some y)"
  by (induction xs) (auto simp: List.map_filter_simps split: option.splits)

lemma numbered_name_shape:
  assumes "numbered_upload_name name names = Inr r"
  obtains stem extension base initial n where
    "split_extension name = (stem, extension)" "split_number stem = (base, initial)"
    "r = base @ '' ('' @ show_nat n @ '')'' @ extension" "initial < n" "n \<le> u64_max"
    "\<forall>x \<in> set names. \<forall>k. name_number (base @ '' ('') ('')'' @ extension) x = Some k \<longrightarrow> k < n"
proof -
  obtain stem extension where e: "split_extension name = (stem, extension)" by force
  obtain base initial where b: "split_number stem = (base, initial)" by force
  let ?m = "foldl max initial (List.map_filter (name_number (base @ '' ('') ('')'' @ extension)) names)"
  have r: "r = base @ '' ('' @ show_nat (?m + 1) @ '')'' @ extension" and n: "?m + 1 \<le> u64_max"
    using assms by (auto simp: numbered_upload_name_def e b rbind_Inr_iff)
  show thesis
  proof (rule that [OF e b r _ n])
    show "initial < ?m + 1" using foldl_max_start [of initial] by (simp add: less_Suc_eq_le)
    have "k < ?m + 1" if "x \<in> set names" "name_number (base @ '' ('') ('')'' @ extension) x = Some k" for x k
    proof -
      have "k \<in> set (List.map_filter (name_number (base @ '' ('') ('')'' @ extension)) names)"
        using that by (auto simp: set_map_filter)
      from foldl_max_member [OF this, of initial] show ?thesis by (simp add: less_Suc_eq_le)
    qed
    then show "\<forall>x \<in> set names. \<forall>k. name_number (base @ '' ('') ('')'' @ extension) x = Some k \<longrightarrow> k < ?m + 1"
      by blast
  qed
qed

lemma numbered_name_free:
  assumes "numbered_upload_name name names = Inr r" shows "r \<notin> set names" "r \<noteq> name"
proof -
  from assms obtain stem extension base initial n where
    e: "split_extension name = (stem, extension)" and b: "split_number stem = (base, initial)" and
    r: "r = base @ '' ('' @ show_nat n @ '')'' @ extension" and n: "initial < n" "n \<le> u64_max" and
    less: "\<forall>x \<in> set names. \<forall>k. name_number (base @ '' ('') ('')'' @ extension) x = Some k \<longrightarrow> k < n"
    by (rule numbered_name_shape)
  have num: "name_number (base @ '' ('') ('')'' @ extension) r = Some n"
    using name_number_show [OF n(2), of "base @ '' (''" "'')'' @ extension"] by (simp add: r)
  show "r \<notin> set names" using less num by blast
  show "r \<noteq> name"
  proof
    assume same: "r = name"
    from b show False
    proof (cases rule: split_number_cases)
      case 1
      with same split_extension_append [OF e] r show False by simp
    next
      case (2 number)
      with same split_extension_append [OF e] r have "number = show_nat n" by simp
      with 2 n show False by (simp add: parse_u64_show_nat)
    qed
  qed
qed

lemma numbered_name_chars:
  assumes "numbered_upload_name name names = Inr r" "\<not> is_ascii_digit c" "c \<notin> set '' ()''" "c \<notin> set name"
  shows "c \<notin> set r"
proof -
  from assms(1) obtain stem extension base initial n where
    e: "split_extension name = (stem, extension)" and b: "split_number stem = (base, initial)" and
    r: "r = base @ '' ('' @ show_nat n @ '')'' @ extension"
    by (rule numbered_name_shape)
  have "c \<notin> set stem" "c \<notin> set extension" using assms(4) split_extension_append [OF e] by auto
  moreover from b have "set base \<subseteq> set stem" by (cases rule: split_number_cases) auto
  ultimately show ?thesis using assms(2,3) show_nat_free [OF assms(2)] r by auto
qed


lemma numbered_name_extension:
  assumes "numbered_upload_name name names = Inr r"
  shows "snd (split_extension r) = snd (split_extension name)"
proof -
  from assms obtain stem extension base initial n where
    e: "split_extension name = (stem, extension)" and b: "split_number stem = (base, initial)" and
    r: "r = base @ '' ('' @ show_nat n @ '')'' @ extension"
    by (rule numbered_name_shape)
  have number: "CHR ''.'' \<notin> set ('' ('' @ show_nat n @ '')'')"
    using show_nat_free [of "CHR ''.''" n] by (auto simp: is_ascii_digit_def byte_def)
  have front: "\<exists>rest. stem = base @ rest" using b by (cases rule: split_number_cases) auto
  consider (dotted) ext where "extension = ''.'' @ ext" "CHR ''.'' \<notin> set ext"
    | (plain) "extension = []" "stem = name" "CHR ''.'' \<notin> set name"
    | (hidden) ext where "extension = []" "stem = CHR ''.'' # ext" "CHR ''.'' \<notin> set ext"
    using e by (auto simp: split_extension_def rsplit_once_None dest!: rsplit_once_Some split: option.splits if_splits)
  then show ?thesis
  proof cases
    case dotted
    have "rsplit_once CHR ''.'' r = Some (base @ '' ('' @ show_nat n @ '')'', ext)"
      using rsplit_once_append [OF dotted(2), of "base @ '' ('' @ show_nat n @ '')''"] by (simp add: r dotted(1))
    then show ?thesis by (simp add: e split_extension_def [of r] dotted(1))
  next
    case plain
    then have "CHR ''.'' \<notin> set r" using front number by (auto simp: r)
    then show ?thesis by (simp add: e split_extension_def [of r] plain iffD2 [OF rsplit_once_None])
  next
    case hidden
    then consider "base = []" | rest where "base = CHR ''.'' # rest" "CHR ''.'' \<notin> set rest"
      using front by (cases base) auto
    then show ?thesis
    proof cases
      case 1
      then have "CHR ''.'' \<notin> set r" using number hidden by (auto simp: r)
      then show ?thesis by (simp add: e split_extension_def [of r] hidden iffD2 [OF rsplit_once_None])
    next
      case 2
      have "rsplit_once CHR ''.'' r = Some ([], rest @ '' ('' @ show_nat n @ '')'')"
        using rsplit_once_append [of "CHR ''.''" "rest @ '' ('' @ show_nat n @ '')''" "[]"] 2 number
        by (auto simp: r hidden)
      then show ?thesis by (simp add: e split_extension_def [of r] hidden)
    qed
  qed
qed

section \<open>Planned targets are free\<close>

lemma trim_slash_fixed: "s = [] \<or> hd s \<noteq> CHR ''/'' \<and> last s \<noteq> CHR ''/'' \<Longrightarrow> trim_matches CHR ''/'' s = s"
  by (rule trim_matches_id)

lemma split_parent_append: "CHR ''/'' \<notin> set a \<Longrightarrow> split_parent (p @ ''/'' @ a) = (p, a)"
  by (simp add: split_parent_def rsplit_once_append)

lemma split_parent_plain: "CHR ''/'' \<notin> set a \<Longrightarrow> split_parent a = ([], a)"
  by (simp add: split_parent_def iffD2 [OF rsplit_once_None])

lemma split_parent_cases:
  assumes "split_parent path = (parent, name)"
  obtains "parent = []" "path = name" "CHR ''/'' \<notin> set name"
  | "path = parent @ ''/'' @ name" "CHR ''/'' \<notin> set name"
  using assms
  by (auto simp: split_parent_def rsplit_once_None dest: rsplit_once_Some split: option.splits)

lemma split_on_middle: "split_on c (a @ c # b) = split_on c a @ split_on c b"
  by (induction a) (auto split: list.splits)

lemma safe_parent:
  assumes "safe_relative path" "split_parent path = (parent, name)"
  shows "parent = [] \<or> hd parent \<noteq> CHR ''/'' \<and> last parent \<noteq> CHR ''/''" "CHR ''/'' \<notin> set name"
proof -
  from assms(2) show "CHR ''/'' \<notin> set name" by (cases rule: split_parent_cases) auto
  from assms(2) show "parent = [] \<or> hd parent \<noteq> CHR ''/'' \<and> last parent \<noteq> CHR ''/''"
  proof (cases rule: split_parent_cases)
    case 2
    have "split_on CHR ''/'' path = split_on CHR ''/'' parent @ split_on CHR ''/'' name"
      using 2 by (simp add: split_on_middle)
    moreover from 2 assms(1) have "list_all safe_component (split_on CHR ''/'' path)"
      by (auto simp: safe_relative_def path_components_def)
    ultimately have "safe_relative parent" by (auto simp: safe_relative_def path_components_def)
    then show ?thesis using safe_relative_ends by blast
  qed simp
qed

text \<open>A renumbered target stands beside the one it replaces.\<close>

lemma renumbered_place:
  assumes "safe_relative path" "split_parent path = (parent, name)" "CHR ''/'' \<notin> set a" "a \<noteq> []"
  shows "split_parent (share_storage_path sh (if parent = [] then a else parent @ ''/'' @ a))
       = (share_storage_path sh parent, a)"
proof -
  note parent = safe_parent(1) [OF assms(1,2)]
  have a: "hd a \<noteq> CHR ''/''" "last a \<noteq> CHR ''/''" using assms(3,4) hd_in_set last_in_set by metis+
  have full: "trim_matches CHR ''/'' (if parent = [] then a else parent @ ''/'' @ a)
                = (if parent = [] then a else parent @ ''/'' @ a)"
    using parent a assms(4) by (intro trim_slash_fixed) auto
  have p: "trim_matches CHR ''/'' parent = parent" using parent by (rule trim_slash_fixed)
  let ?base = "trim_matches CHR ''/'' (share_path sh)"
  have "split_parent (?base @ ''/'' @ parent @ ''/'' @ a) = (?base @ ''/'' @ parent, a)"
    using split_parent_append [OF assms(3), of "?base @ ''/'' @ parent"] by simp
  then show ?thesis
    using full p assms(3,4) split_parent_append [OF assms(3), of parent] split_parent_append [OF assms(3), of ?base]
      split_parent_plain [OF assms(3)]
    by (auto simp: share_storage_path_def Let_def)
qed

text \<open>
  What a backend promises: a path with metadata that ends with the name of an entry, so not the root
  and no path that ends with a slash or with dots, is in the listing of its directory.
\<close>

definition lists_what_exists :: "'m plan_backend \<Rightarrow> bool" where
  "lists_what_exists be \<longleftrightarrow>
     (\<forall>path. snd (split_parent path) \<notin> {[], ''.'', ''..''} \<longrightarrow> is_ok (metadata be path) \<longrightarrow>
        (case list_directory be (fst (split_parent path)) 10000 of
           Inr (names, truncated) \<Rightarrow> truncated \<or> snd (split_parent path) \<in> set names
         | Inl e \<Rightarrow> e \<noteq> NotFound))"

definition knows_listing :: "'m plan_backend \<Rightarrow> str \<Rightarrow> str list \<Rightarrow> bool" where
  "knows_listing be d names \<longleftrightarrow>
     (case list_directory be d 10000 of
        Inr (listed, truncated) \<Rightarrow> \<not> truncated \<and> set listed \<subseteq> set names
      | Inl e \<Rightarrow> e = NotFound)"

definition cache_known :: "'m plan_backend \<Rightarrow> (str \<times> str list) list \<Rightarrow> bool" where
  "cache_known be cache \<longleftrightarrow> (\<forall>d names. al_get cache d = Some names \<longrightarrow> knows_listing be d names)"

lemma knows_listing_mono: "knows_listing be d names \<Longrightarrow> set names \<subseteq> set names2 \<Longrightarrow> knows_listing be d names2"
  by (auto simp: knows_listing_def split: sum.splits)

lemma directory_names_known:
  "directory_names be d cache = Inr names \<Longrightarrow> cache_known be cache \<Longrightarrow> knows_listing be d names"
  by (auto simp: directory_names_def cache_known_def knows_listing_def rbind_Inr_iff
      split: option.splits sum.splits if_splits)

lemma unlisted_missing:
  assumes "lists_what_exists be" "knows_listing be (fst (split_parent path)) names"
    "snd (split_parent path) \<notin> set names" "snd (split_parent path) \<notin> {[], ''.'', ''..''}"
  shows "\<not> is_ok (metadata be path)"
  using assms by (fastforce simp: lists_what_exists_def knows_listing_def split: sum.splits)

definition target_free :: "'m plan_backend \<Rightarrow> access_config \<Rightarrow> request_info \<Rightarrow> share \<Rightarrow> str \<Rightarrow> str \<Rightarrow> bool" where
  "target_free be cfg rq sh request_path storage_path \<longleftrightarrow>
     storage_path = share_storage_path sh request_path \<and> \<not> is_ok (metadata be storage_path)
     \<and> is_ok (check_folder_locks cfg rq (share_storage_id sh) storage_path)"

lemma renumber_free:
  assumes "renumber be cfg rq sh pl path = Inr (request_path, storage_path, cache)" "safe_relative path"
    "cache_known be (pl_names pl)" "lists_what_exists be"
  shows "target_free be cfg rq sh request_path storage_path" "storage_path \<notin> set (pl_reserved pl)"
    "cache_known be cache"
proof -
  obtain parent name where sp: "split_parent path = (parent, name)" by force
  let ?d = "share_storage_path sh parent"
  let ?known = "\<lambda>names. names @ reserved_names ?d (pl_reserved pl)"
  from assms(1) obtain names assigned where
    names: "directory_names be ?d (pl_names pl) = Inr names" and
    assigned: "numbered_upload_name name (?known names) = Inr assigned" and
    rp: "request_path = (if parent = [] then assigned else parent @ ''/'' @ assigned)" and
    sto: "storage_path = share_storage_path sh request_path" and
    lock: "check_folder_locks cfg rq (share_storage_id sh) storage_path = Inr ()" and
    cache: "cache = al_insert ?d (assigned # ?known names) (pl_names pl)"
    by (auto simp: renumber_def sp rbind_Inr_iff Let_def)
  have slash: "CHR ''/'' \<notin> set assigned"
    by (rule numbered_name_chars [OF assigned _ _ safe_parent(2) [OF assms(2) sp]])
      (simp_all add: is_ascii_digit_def byte_def)
  have "CHR ''('' \<in> set assigned" using assigned by (auto elim: numbered_name_shape)
  then have named: "assigned \<notin> {[], ''.'', ''..''}" by auto
  have place: "split_parent storage_path = (?d, assigned)"
    unfolding sto rp by (rule renumbered_place [OF assms(2) sp slash]) (use named in simp)
  have fresh: "assigned \<notin> set (?known names)" by (rule numbered_name_free(1) [OF assigned])
  have known: "knows_listing be ?d names" by (rule directory_names_known [OF names assms(3)])
  show "target_free be cfg rq sh request_path storage_path"
    using unlisted_missing [of be storage_path names] place known fresh named assms(4) sto lock
    by (simp add: target_free_def)
  show "storage_path \<notin> set (pl_reserved pl)"
    using fresh place by (force simp: reserved_names_def)
  show "cache_known be cache"
    using assms(3) known
    by (auto simp: cache_known_def cache split: if_splits intro: knows_listing_mono)
qed

lemma plan_target_free:
  assumes "plan_target be cfg rq sh pl path = Inr (request_path, storage_path, cache)" "safe_relative path"
    "cache_known be (pl_names pl)" "lists_what_exists be"
  shows "target_free be cfg rq sh request_path storage_path" "storage_path \<notin> set (pl_reserved pl)"
    "cache_known be cache"
proof -
  consider "renumber be cfg rq sh pl path = Inr (request_path, storage_path, cache)"
    | "target_free be cfg rq sh request_path storage_path" "storage_path \<notin> set (pl_reserved pl)"
      "cache = pl_names pl"
    using assms(1)
    by (auto simp: plan_target_def target_exists_def target_free_def rbind_Inr_iff is_ok_iff Let_def
        split: if_splits sum.splits)
  then have "target_free be cfg rq sh request_path storage_path \<and> storage_path \<notin> set (pl_reserved pl)
      \<and> cache_known be cache"
    using renumber_free [OF _ assms(2-4)] assms(3) by cases auto
  then show "target_free be cfg rq sh request_path storage_path" "storage_path \<notin> set (pl_reserved pl)"
    "cache_known be cache" by auto
qed

definition plan_ok ::
  "'m plan_backend \<Rightarrow> access_config \<Rightarrow> request_info \<Rightarrow> upload_limits \<Rightarrow> share \<Rightarrow> str list \<Rightarrow> plan_state \<Rightarrow> bool" where
  "plan_ok be cfg rq limits sh reserved pl \<longleftrightarrow>
     set (pl_reserved pl) = set reserved \<union> fst ` set (pl_validated pl)
     \<and> distinct (map fst (pl_validated pl)) \<and> set reserved \<inter> fst ` set (pl_validated pl) = {}
     \<and> (\<forall>(storage_path, request_path, bytes) \<in> set (pl_validated pl).
          target_free be cfg rq sh request_path storage_path \<and> bytes \<le> max_upload_bytes limits)
     \<and> pl_total pl = sum_list (map (\<lambda>(_, _, bytes). bytes) (pl_validated pl))
     \<and> pl_total pl \<le> max_upload_batch_bytes limits
     \<and> map snd (pl_prepared pl) = map (\<lambda>(_, request_path, _). request_path) (pl_validated pl)
     \<and> cache_known be (pl_names pl)"

lemma plan_item_ok:
  assumes "plan_item be cfg rq limits sh pl item = Inr pl'" "plan_ok be cfg rq limits sh reserved pl"
    "lists_what_exists be"
  shows "plan_ok be cfg rq limits sh reserved pl'"
proof -
  from assms(1) obtain original_path request_path storage_path cache where
    bytes: "snd item \<le> max_upload_bytes limits" "pl_total pl + snd item \<le> max_upload_batch_bytes limits" and
    norm: "normalize_relative (fst item) = Inr original_path" and
    target: "plan_target be cfg rq sh pl original_path = Inr (request_path, storage_path, cache)" and
    pl': "pl' = \<lparr>pl_reserved = storage_path # pl_reserved pl, pl_names = cache,
                 pl_prepared = pl_prepared pl @ [(original_path, request_path)], pl_total = pl_total pl + snd item,
                 pl_validated = pl_validated pl @ [(storage_path, request_path, snd item)]\<rparr>"
    by (auto simp: plan_item_def rbind_Inr_iff split: if_splits)
  have "cache_known be (pl_names pl)" using assms(2) by (simp add: plan_ok_def)
  from plan_target_free [OF target storage_path.norm_safe [OF norm] this assms(3)]
  show ?thesis using assms(2) bytes by (auto simp: plan_ok_def pl')
qed

lemma plan_items_ok:
  "plan_items be cfg rq limits sh pl items = Inr pl' \<Longrightarrow> plan_ok be cfg rq limits sh reserved pl \<Longrightarrow>
   lists_what_exists be \<Longrightarrow> plan_ok be cfg rq limits sh reserved pl'"
  by (induction items arbitrary: pl) (auto simp: rbind_Inr_iff intro: plan_item_ok)

lemma length_prepared:
  "plan_items be cfg rq limits sh pl items = Inr pl' \<Longrightarrow> length (pl_prepared pl') = length (pl_prepared pl) + length items"
  by (induction items arbitrary: pl) (auto simp: rbind_Inr_iff plan_item_def split: if_splits)


lemma plan_targets_ok:
  assumes "plan_batch be cfg rq limits sh reserved items = Inr pl" "lists_what_exists be"
  shows "plan_ok be cfg rq limits sh reserved pl \<and> length (pl_prepared pl) = length items \<and> items \<noteq> []"
proof -
  let ?start = "\<lparr>pl_reserved = reserved, pl_names = [], pl_prepared = [], pl_total = 0, pl_validated = []\<rparr>"
  have run: "plan_items be cfg rq limits sh ?start items = Inr pl" "items \<noteq> []"
    using assms(1) by (simp_all add: plan_batch_def split: if_splits)
  have "plan_ok be cfg rq limits sh reserved ?start" by (simp add: plan_ok_def cache_known_def al_get_def)
  from plan_items_ok [OF run(1) this assms(2)] length_prepared [OF run(1)] run(2) show ?thesis by simp
qed

section \<open>Properties\<close>

text \<open>
  The name given to a colliding upload is not one of the names in the directory, differs from
  the requested name, keeps its extension and brings in no separator.
\<close>

lemma numbered_upload_name_fresh:
  assumes "numbered_upload_name name names = Inr r"
  shows "r \<notin> set names \<and> r \<noteq> name \<and> snd (split_extension r) = snd (split_extension name)
       \<and> (CHR ''/'' \<notin> set name \<longrightarrow> CHR ''/'' \<notin> set r)"
proof -
  have "CHR ''/'' \<notin> set name \<longrightarrow> CHR ''/'' \<notin> set r"
    using numbered_name_chars [OF assms, of "CHR ''/''"] by (simp add: is_ascii_digit_def byte_def)
  then show ?thesis
    using numbered_name_free [OF assms] numbered_name_extension [OF assms] by blast
qed

lemma rbind_weak_cong: "m = m' \<Longrightarrow> rbind m f = rbind m' f"
  by simp

lemmas numbering_eval =
  numbered_upload_name_def split_extension_def split_number_def rsplit_once_def split_once_def strip_suffix_def
  ends_with_def strip_prefix_def name_number_def parse_u64_def parse_unsigned_def decimal_value_def digit_value_def
  is_ascii_digit_def byte_def u64_max_def checked_add_def ok_or_def show_nat.simps List.map_filter_simps
  char_of_def bit_0

lemma numbered_upload_name_fresh_witness:
  "numbered_upload_name ''a (2).txt'' [''a (2).txt'', ''a (4).txt''] = Inr ''a (5).txt''
   \<and> ''a (5).txt'' \<notin> set [''a (2).txt'', ''a (4).txt'']"
proof -
  have "numbered_upload_name ''a (2).txt'' [''a (2).txt'', ''a (4).txt''] = Inr ''a (5).txt''"
    by (simp add: numbering_eval cong: rbind_weak_cong let_weak_cong)
  from this numbered_upload_name_fresh [OF this] show ?thesis by blast
qed

text \<open>
  C21: when a batch is planned, its targets are distinct, none is promised to another ticket, none
  exists in the storage and none is in a locked folder; every size and their sum keep the limits, and
  the answer names the targets in the order of the request. The backend must list in each directory
  the entries that it has metadata of.
\<close>

theorem plan_batch_targets_free:
  assumes "plan_batch be cfg rq limits sh reserved items = Inr pl" "lists_what_exists be"
  shows "distinct (map fst (pl_validated pl)) \<and> set reserved \<inter> fst ` set (pl_validated pl) = {}
       \<and> (\<forall>(storage_path, request_path, bytes) \<in> set (pl_validated pl).
            storage_path = share_storage_path sh request_path \<and> \<not> is_ok (metadata be storage_path)
            \<and> is_ok (check_folder_locks cfg rq (share_storage_id sh) storage_path)
            \<and> bytes \<le> max_upload_bytes limits)
       \<and> sum_list (map (\<lambda>(_, _, bytes). bytes) (pl_validated pl)) \<le> max_upload_batch_bytes limits
       \<and> map snd (pl_prepared pl) = map (\<lambda>(_, request_path, _). request_path) (pl_validated pl)
       \<and> length (pl_prepared pl) = length items"
  using plan_targets_ok [OF assms] by (simp add: plan_ok_def target_free_def)

definition sample_listing :: "unit plan_backend" where
  "sample_listing =
     \<lparr>metadata = (\<lambda>path. if path = [] \<or> path = ''a.txt'' then Inr () else Inl NotFound),
      list_directory = (\<lambda>d _. if d = [] then Inr ([''a.txt''], False) else Inl NotFound)\<rparr>"

definition sample_limits :: upload_limits where
  "sample_limits = \<lparr>max_upload_bytes = 100, max_upload_batch_bytes = 150, max_upload_batch_entries = 10,
                    upload_file_concurrency = 4\<rparr>"

lemma sample_listing_lists: "lists_what_exists sample_listing"
  by (auto simp: lists_what_exists_def sample_listing_def split_parent_def rsplit_once_def split_once_def)

lemma sample_names:
  "normalize_relative ''a.txt'' = Inr ''a.txt''" "validate_name ''a.txt'' = Inr ''a.txt''"
  "normalize_relative ''b.txt'' = Inr ''b.txt''" "validate_name ''b.txt'' = Inr ''b.txt''"
  by code_simp+

lemma sample_unlocked: "check_folder_locks sample_config rq ''s'' path = Inr ()"
  by (simp add: check_folder_locks_def ensure_access_def is_locked_def authorizer_new_def sample_config_def)

lemmas planning_eval =
  sample_names sample_unlocked numbering_eval plan_batch_def plan_item_def plan_target_def renumber_def
  directory_names_def reserved_names_def target_exists_def split_parent_def share_storage_path_def root_share_def
  trim_matches_def trim_start_matches_def trim_end_matches_def sample_listing_def sample_limits_def ensure_def
  ensure_non_root_def al_get_def al_insert_def al_remove_def Let_def

theorem plan_batch_targets_free_witness:
  "\<exists>pl. plan_batch sample_listing sample_config sample_guest sample_limits (root_share ''s'') [''b.txt'']
          [(''a.txt'', 60), (''b.txt'', 70), (''a.txt'', 5)] = Inr pl
      \<and> map fst (pl_validated pl) = [''a (1).txt'', ''b (1).txt'', ''a (2).txt'']
      \<and> distinct (map fst (pl_validated pl))"
proof -
  let ?run = "plan_batch sample_listing sample_config sample_guest sample_limits (root_share ''s'') [''b.txt'']
          [(''a.txt'', 60), (''b.txt'', 70), (''a.txt'', 5)]"
  have "(case ?run of Inr pl \<Rightarrow> map fst (pl_validated pl) = [''a (1).txt'', ''b (1).txt'', ''a (2).txt'']
                    | Inl _ \<Rightarrow> False)"
    by (simp add: planning_eval cong: rbind_weak_cong let_weak_cong)
  then obtain pl where run: "?run = Inr pl" "map fst (pl_validated pl) = [''a (1).txt'', ''b (1).txt'', ''a (2).txt'']"
    by (auto split: sum.splits)
  have "distinct (map fst (pl_validated pl))"
    by (rule conjunct1 [OF plan_batch_targets_free [OF run(1) sample_listing_lists]])
  with run show ?thesis by (intro exI conjI)
qed


end
