(* ===== verification/UploadAdmission.thy ===== *)
theory UploadAdmission
  imports UploadDurability UploadPlanning
begin

text \<open>
  The number of retained upload batches and of their targets stays within its limits, whatever
  is created, and however other requests act while a creation waits.
\<close>

definition retained_total :: "batches \<Rightarrow> nat" where
  "retained_total bs = sum_list (map (\<lambda>(_, b). length (ub_items b)) bs)"

definition store_bounded :: "upload_store \<Rightarrow> bool" where
  "store_bounded s \<longleftrightarrow>
     us_persistent s \<and> length (us_batches s) \<le> MAX_RETAINED_BATCHES
     \<and> retained_total (us_batches s) \<le> MAX_RETAINED_BATCH_ITEMS"

lemma count_batch_retained:
  "retained_batches (foldl (count_batch account) u bs) = retained_batches u"
  "retained_items u \<le> u64_max \<Longrightarrow>
   retained_items (foldl (count_batch account) u bs) = min u64_max (retained_items u + sum_list (map (\<lambda>b. length (ub_items b)) bs))"
proof (induction bs arbitrary: u)
  case (Cons b bs)
  { case 1 show ?case using Cons.IH(1) by (simp add: count_batch_def Let_def) }
  { case 2
    have "retained_items (count_batch account u b) = min u64_max (retained_items u + length (ub_items b))"
      by (simp add: count_batch_def Let_def saturating_add_def min_def)
    then show ?case using Cons.IH(2) [of "count_batch account u b"] by simp }
qed simp_all

lemma from_batches_retained:
  "retained_batches (from_batches bs account) = length bs"
  "retained_items (from_batches bs account) = min u64_max (retained_total bs)"
  by (simp_all add: from_batches_def count_batch_retained retained_total_def o_def case_prod_unfold)

lemma can_admit_room:
  assumes "can_admit (from_batches bs account) n"
  shows "length bs < MAX_RETAINED_BATCHES" "retained_total bs + n \<le> MAX_RETAINED_BATCH_ITEMS"
  using assms
  by (auto simp: can_admit_def requires_retirement_def from_batches_retained saturating_add_def min_def
      MAX_RETAINED_BATCH_ITEMS_def u64_max_def split: if_splits)

text \<open>A change of one batch that keeps its targets keeps the counts.\<close>

lemma modify_counts:
  assumes "\<And>b. length (ub_items (f b)) = length (ub_items b)"
  shows "length (modify_batch token f bs) = length bs" "retained_total (modify_batch token f bs) = retained_total bs"
  using assms by (induction bs) (auto simp: modify_batch_def retained_total_def)

lemma retire_counts:
  "length (retire_batch True token bs) = length bs" "retained_total (retire_batch True token bs) = retained_total bs"
  by (simp_all add: retire_batch_def modify_counts)

lemma prune_counts:
  "length (prune_expired True now bs) = length bs" "retained_total (prune_expired True now bs) = retained_total bs"
proof -
  have "length (foldl (\<lambda>bs token. retire_batch True token bs) bs ts) = length bs
      \<and> retained_total (foldl (\<lambda>bs token. retire_batch True token bs) bs ts) = retained_total bs" for ts
    by (induction ts arbitrary: bs) (simp_all add: retire_counts)
  then show "length (prune_expired True now bs) = length bs" "retained_total (prune_expired True now bs) = retained_total bs"
    by (simp_all add: prune_expired_def)
qed

lemma insert_counts:
  "length (al_insert token b bs) \<le> length bs + 1"
  "retained_total (al_insert token b bs) \<le> retained_total bs + length (ub_items b)"
proof -
  have "retained_total (al_remove token bs) \<le> retained_total bs"
    by (induction bs) (auto simp: al_remove_def retained_total_def)
  then show "length (al_insert token b bs) \<le> length bs + 1"
    "retained_total (al_insert token b bs) \<le> retained_total bs + length (ub_items b)"
    by (simp_all add: al_insert_def) (simp add: retained_total_def)
qed

lemma retire_completed_counts:
  "retire_completed True incoming ts u bs n = (u', bs', n') \<Longrightarrow>
   n \<le> n' \<and> (n' = n \<longrightarrow> u' = u \<and> bs' = bs) \<and> length bs' = length bs \<and> retained_total bs' = retained_total bs"
proof (induction ts arbitrary: u bs n)
  case (Cons t ts)
  show ?case
    using Cons.prems Cons.IH [of _ "retire_batch True t bs" "Suc n"] Cons.IH [of u bs n]
    by (fastforce simp: retire_counts split: if_splits option.splits)
qed simp

text \<open>What a creation admits against is the usage of the registry it inserts into.\<close>

lemma make_room_usage:
  assumes "make_room env now account incoming s = (u, s')" "store_bounded s" "\<forall>s. store_bounded s \<longrightarrow> store_bounded (env s)"
  shows "u = from_batches (us_batches s') account" "store_bounded s'"
proof -
  let ?s = "sweep_expired now s"
  have s: "store_bounded ?s" using assms(2) by (simp add: store_bounded_def sweep_expired_def prune_counts)
  then have per: "us_persistent ?s" by (simp add: store_bounded_def)
  obtain u1 bs n where r: "retire_completed True incoming (completed_tokens (us_batches ?s))
      (from_batches (us_batches ?s) account) (us_batches ?s) 0 = (u1, bs, n)" by (metis prod_cases3)
  note c = retire_completed_counts [OF r]
  have b: "store_bounded (?s\<lparr>us_batches := bs\<rparr>)" using s c by (simp add: store_bounded_def)
  have "u = from_batches (us_batches s') account \<and> store_bounded s'"
    using assms(1,3) r c s b per by (auto simp: make_room_def Let_def split: if_splits)
  then show "u = from_batches (us_batches s') account" "store_bounded s'" by auto
qed

lemma bounded_batches:
  "store_bounded s \<Longrightarrow> us_persistent s' = us_persistent s \<Longrightarrow> length (us_batches s') = length (us_batches s) \<Longrightarrow>
   retained_total (us_batches s') = retained_total (us_batches s) \<Longrightarrow> store_bounded s'"
  by (simp add: store_bounded_def)

lemma bounded_register:
  assumes "store_bounded s" "\<forall>s. store_bounded s \<longrightarrow> store_bounded (env s)"
  shows "store_bounded (snd (register_batch lib io env token expected prepared s))"
proof -
  obtain r s1 where w: "(case prepared of None \<Rightarrow> (Inr (), s) | Some p \<Rightarrow> create_index lib io token p s) = (r, s1)" by force
  have "us_batches s1 = us_batches s \<and> us_persistent s1 = us_persistent s"
    using w create_index_effect(1,2) by (cases prepared) auto
  then have s2: "store_bounded (env s1)" using assms by (simp add: store_bounded_def)
  then have per: "us_persistent (env s1)" by (simp add: store_bounded_def)
  show ?thesis
    using w s2 per
    by (cases r) (auto simp: register_batch_def Let_def unlock_transition_def retire_counts modify_counts store_bounded_def)
qed

section \<open>Properties\<close>

text \<open>
  Whatever batch is created, and whatever other requests do meanwhile within the same limits,
  at most 128 batches with at most 40000 targets are retained; a creation is refused before it would
  exceed them.
\<close>

lemma retained_batches_bounded:
  assumes "store_bounded s" "\<forall>s. store_bounded s \<longrightarrow> store_bounded (env_cleanup s)"
    "\<forall>s. store_bounded s \<longrightarrow> store_bounded (env s)"
  shows "store_bounded (snd (create_batch lib io env_cleanup env now now_unix token subject account storage_id items
           namespace_id expected s))"
proof -
  obtain u s1 where room: "make_room env_cleanup now account (length items) s = (u, s1)" by force
  note s1 = make_room_usage [OF room assms(1,2)]
  let ?b = "new_batch s1 now now_unix subject account storage_id items namespace_id"
  have "store_bounded (s1\<lparr>us_batches := al_insert token (?b\<lparr>ub_owners := 1\<rparr>) (us_batches s1)\<rparr>)"
    if "can_admit u (length items)"
  proof -
    have "length (ub_items (?b\<lparr>ub_owners := 1\<rparr>)) = length items" by (simp add: new_batch_def)
    then show ?thesis
      using can_admit_room [OF that [unfolded s1(1)]] s1(2) insert_counts [of token "?b\<lparr>ub_owners := 1\<rparr>" "us_batches s1"]
      by (simp add: store_bounded_def)
  qed
  then show ?thesis
    using assms(1,3) s1(2) room bounded_register
    by (auto simp: create_batch_def Let_def split: sum.splits)
qed

lemma retained_batches_bounded_witness:
  "store_bounded sample_created \<and> length (us_batches sample_created) = 1"
proof -
  let ?s = "\<lparr>us_batches = [], us_ttl = 3600, us_result_ttl = 86400, us_epoch = 0, us_persistent = True, us_index = [],
      us_reservations = []\<rparr>"
  have "store_bounded ?s" by (simp add: store_bounded_def retained_total_def)
  then have "store_bounded sample_created" unfolding sample_created_def by (intro retained_batches_bounded) auto
  moreover have "length (us_batches sample_created) = 1"
    by (simp add: sample_created_def upload_eval cong: let_weak_cong)
  ultimately show ?thesis by simp
qed

lemma created_batch:
  assumes "create_batch lib io env_cleanup id now now_unix token subject account storage_id items namespace_id expected s = (Inr ticket, s')"
  shows "ticket = token
    \<and> (\<exists>b. al_get (us_batches s') token = Some b \<and> ub_retirement b = RetActive \<and> ub_storage_id b = storage_id
         \<and> ub_subject b = Some subject
         \<and> map (\<lambda>(path, item). (path, ui_request_path item, ui_size item)) (ub_items b) = items
         \<and> (\<forall>(path, item) \<in> set (ub_items b). ui_status item = StPending))"
proof -
  obtain u s1 where room: "make_room env_cleanup now account (length items) s = (u, s1)" by force
  let ?b = "new_batch s1 now now_unix subject account storage_id items namespace_id"
  let ?s = "s1\<lparr>us_batches := al_insert token (?b\<lparr>ub_owners := 1\<rparr>) (us_batches s1)\<rparr>"
  obtain prepared where reg: "register_batch lib io id token expected prepared ?s = (Inr ticket, s')"
    using assms room by (auto simp: create_batch_def Let_def split: if_splits sum.splits)
  obtain r s2 where w: "(case prepared of None \<Rightarrow> (Inr (), ?s) | Some p \<Rightarrow> create_index lib io token p ?s) = (r, s2)" by force
  have "us_batches s2 = us_batches ?s"
    using w create_index_effect(1) [of lib io token _ ?s] by (cases prepared) auto
  moreover have "ticket = token \<and> s' = unlock_transition token s2"
    using reg unfolding register_batch_def w by (cases r) (auto simp: Let_def split: if_splits)
  ultimately show ?thesis
    by (auto simp: unlock_transition_def new_batch_def o_def case_prod_unfold)
qed

lemma reserved_by_ticket:
  assumes "(t, b) \<in> set (us_batches s)" "(path, item) \<in> set (ub_items b)" "ub_storage_id b = storage_id" "ub_retirement b = RetActive"
    "ui_status item = InProgress \<or> ui_status item = StUnknown \<or> ui_status item = StPending \<and> now < ub_expires_at b"
  shows "path \<in> set (reserved_paths now storage_id s)"
proof -
  have "batch_is_retained b now"
    using assms by (auto simp: batch_is_retained_def batch_has_recovery_work_def item_statuses_def needs_recovery_def list_ex_iff)
  moreover have "\<not> is_terminal (ui_status item)" using assms(5) by (auto simp: is_terminal_def)
  ultimately show ?thesis using assms(1-3) by (force simp: reserved_paths_def)
qed

text \<open>
  C8: a prepared batch holds exactly the planned targets, all waiting to start, for the requesting
  subject. No target is one that another active ticket of the storage is uploading, has lost track of
  or, before it expires, still waits to upload; none exists in the storage, and no two are the same.
  The planning gate keeps other preparations out from the planning to the new ticket.
\<close>

theorem prepared_targets_exclusive:
  assumes "prepare_upload_batch lib io env_cleanup id now now_unix be cfg rq instances limits sh (Some subject) account
      namespace token expected items s = (Inr p, s')" "lists_what_exists be"
  shows "pb_ticket p = token \<and> map fst (pb_items p) \<noteq> []
    \<and> (\<exists>b. al_get (us_batches s') token = Some b \<and> ub_subject b = Some subject
         \<and> distinct (al_keys (ub_items b))
         \<and> (\<forall>(_, other) \<in> set (us_batches s). \<forall>(path, item) \<in> set (ub_items other).
              ub_storage_id other = share_storage_id sh \<and> ub_retirement other = RetActive
              \<and> (ui_status item = InProgress \<or> ui_status item = StUnknown \<or> ui_status item = StPending \<and> now < ub_expires_at other)
              \<longrightarrow> path \<notin> set (al_keys (ub_items b)))
         \<and> (\<forall>(path, item) \<in> set (ub_items b). ui_status item = StPending \<and> \<not> is_ok (metadata be path))
         \<and> map snd (pb_items p) = map (\<lambda>(_, item). ui_request_path item) (ub_items b))"
proof -
  obtain pl ticket where plan: "plan_batch be cfg rq limits sh (reserved_paths now (share_storage_id sh) s) items = Inr pl"
    and create: "create_batch lib io env_cleanup id now now_unix token subject account (share_storage_id sh)
      (pl_validated pl) (Some namespace) expected s = (Inr ticket, s')"
    and p: "pb_ticket p = ticket" "pb_items p = pl_prepared pl"
    using assms(1)
    by (auto simp: prepare_upload_batch_def rbind_Inr_iff rbind_Inl_iff Let_def split: sum.splits prod.splits)
  from plan_targets_ok [OF plan assms(2)] have ok: "plan_ok be cfg rq limits sh (reserved_paths now (share_storage_id sh) s) pl"
    and len: "length (pl_prepared pl) = length items" "items \<noteq> []" by auto
  from created_batch [OF create] obtain b where b: "ticket = token" "al_get (us_batches s') token = Some b"
    "ub_subject b = Some subject"
    "map (\<lambda>(path, item). (path, ui_request_path item, ui_size item)) (ub_items b) = pl_validated pl"
    "\<forall>(path, item) \<in> set (ub_items b). ui_status item = StPending" by blast
  have keys: "al_keys (ub_items b) = map fst (pl_validated pl)" and
    names: "map (\<lambda>(_, item). ui_request_path item) (ub_items b) = map (\<lambda>(_, request_path, _). request_path) (pl_validated pl)"
    unfolding b(4) [symmetric] by (simp_all add: o_def case_prod_unfold)
  have absent: "\<not> is_ok (metadata be path)" if "(path, item) \<in> set (ub_items b)" for path item
  proof -
    have "(path, ui_request_path item, ui_size item) \<in> set (pl_validated pl)"
      unfolding b(4) [symmetric] using that by force
    then show ?thesis using ok by (auto simp: plan_ok_def target_free_def)
  qed
  have free: "distinct (al_keys (ub_items b))" "set (al_keys (ub_items b)) \<inter> set (reserved_paths now (share_storage_id sh) s) = {}"
    "map snd (pb_items p) = map (\<lambda>(_, item). ui_request_path item) (ub_items b)" "map fst (pb_items p) \<noteq> []"
    using ok p(2) len unfolding keys names by (auto simp: plan_ok_def)
  have held: "\<forall>(_, other) \<in> set (us_batches s). \<forall>(path, item) \<in> set (ub_items other).
      ub_storage_id other = share_storage_id sh \<and> ub_retirement other = RetActive
      \<and> (ui_status item = InProgress \<or> ui_status item = StUnknown \<or> ui_status item = StPending \<and> now < ub_expires_at other)
      \<longrightarrow> path \<notin> set (al_keys (ub_items b))"
    using free(2) by (auto simp only: intro!: ballI dest: reserved_by_ticket)
  show ?thesis
    using absent free b(1-3,5) p(1) by (intro conjI exI [of _ b] held) auto
qed

definition sample_admin :: request_info where
  "sample_admin = sample_guest\<lparr>rq_principal := Some Administrator\<rparr>"

definition sample_prepared :: "prepared_batch app_result \<times> upload_store" where
  "sample_prepared = prepare_upload_batch sample_lib (Published True) id id 0 0 sample_listing sample_config sample_admin
     [(''s'', LocalUpload)] sample_limits (root_share ''s'') (Some (SessionSubject ''u'')) ''acc'' (replicate 64 CHR ''a'') ''t''
     0 [(''a.txt'', 60)] (upload_store_new 3600)"

theorem prepared_targets_exclusive_witness:
  "\<exists>p s'. sample_prepared = (Inr p, s') \<and> map snd (pb_items p) = [''a (1).txt''] \<and> pb_ticket p = ''t''"
proof -
  have plan: "plan_batch sample_listing sample_config sample_admin sample_limits (root_share ''s'') [] [(''a.txt'', 60)]
      = Inr \<lparr>pl_reserved = [''a (1).txt''], pl_names = [([], [''a (1).txt'', ''a.txt''])],
             pl_prepared = [(''a.txt'', ''a (1).txt'')], pl_total = 60,
             pl_validated = [(''a (1).txt'', ''a (1).txt'', 60)]\<rparr>"
    by (simp add: planning_eval cong: rbind_weak_cong let_weak_cong)
  have action: "ensure_storage_action sample_config sample_admin ''s'' DoUpload = Inr ()"
    by (simp add: ensure_storage_action_def permission_for_def sample_config_def sample_admin_def full_permission_def)
  have "reserved_paths 0 ''s'' (upload_store_new 3600) = []" "share_storage_id (root_share ''s'') = ''s''"
    by (simp_all add: reserved_paths_def upload_store_new_def root_share_def)
  with plan action have "\<exists>p s'. sample_prepared = (Inr p, s') \<and> map snd (pb_items p) = [''a (1).txt'']"
    by (simp add: sample_prepared_def prepare_upload_batch_def browser_upload_policy_def upload_store_new_def upload_eval
        cong: rbind_weak_cong let_weak_cong)
  then obtain p s' where p: "sample_prepared = (Inr p, s')" "map snd (pb_items p) = [''a (1).txt'']" by (elim exE conjE)
  from prepared_targets_exclusive [OF p(1) [unfolded sample_prepared_def] sample_listing_lists]
  have "pb_ticket p = ''t''" by (rule conjunct1)
  with p show ?thesis by (intro exI conjI)
qed

end
