(* ===== verification/Conditions.thy ===== *)
theory Conditions
  imports AppError
begin

text \<open>
  HTTP conditions and byte ranges (src/src/storage/write_conditions.rs and
  src/src/storage/read_conditions.rs). A header map is the function from a header name to the raw
  values received under it. The header and date libraries are a parameter, the record
  \<open>http_lib\<close>: which values \<open>HeaderValue\<close> accepts and returns as text, and how dates are
  printed and parsed. Instants are nanoseconds since the Unix epoch, negative before it.
\<close>

section \<open>Data\<close>

record http_lib =
  header_value_ok :: "str \<Rightarrow> bool"
  header_text_ok :: "str \<Rightarrow> bool"
  parse_http_date :: "str \<Rightarrow> instant option"
  format_http_date :: "int \<Rightarrow> str option"

type_synonym header_map = "str \<Rightarrow> str list"

definition to_str :: "http_lib \<Rightarrow> str \<Rightarrow> str option" where
  "to_str lib v = (if header_text_ok lib v then Some v else None)"

definition MAX_CONDITION_BYTES :: nat where "MAX_CONDITION_BYTES = 4096"
definition MAX_CONDITION_TAGS :: nat where "MAX_CONDITION_TAGS = 32"

datatype tag_cond = Any | Tags "str list"

record write_conditions =
  if_match :: "tag_cond option"
  if_none_match :: "tag_cond option"
  unmodified_since :: "instant option"

record file_validators =
  fv_etag :: "str option"
  fv_last_modified :: "str option"

definition quote :: char where "quote = CHR 0x22"

section \<open>Entity tags\<close>

definition is_entity_tag :: "str \<Rightarrow> bool" where
  "is_entity_tag s =
     (let v = (case strip_prefix ''W/'' s of Some r \<Rightarrow> r | None \<Rightarrow> s)
      in 2 \<le> length v \<and> v ! 0 = quote \<and> v ! (length v - 1) = quote
         \<and> list_all (\<lambda>c. byte c = 33 \<or> 35 \<le> byte c \<and> byte c \<le> 126 \<or> 128 \<le> byte c)
             (take (length v - 2) (drop 1 v)))"

definition invalid_tags :: app_error where
  "invalid_tags = BadRequest ''A conditional write needs a valid and bounded If-Match/If-None-Match tag list''"

fun combine_values :: "http_lib \<Rightarrow> str list \<Rightarrow> str \<Rightarrow> str app_result" where
  "combine_values lib [] combined = Inr combined"
| "combine_values lib (v # vs) combined =
     (case to_str lib v of
        None \<Rightarrow> Inl invalid_tags
      | Some value \<Rightarrow>
          if MAX_CONDITION_BYTES < saturating_add (length combined) (length value + 1) then Inl invalid_tags
          else combine_values lib vs ((if combined = [] then combined else combined @ '','') @ value))"

definition position :: "char \<Rightarrow> str \<Rightarrow> nat option" where
  "position c s = (if c \<in> set s then Some (length (takeWhile (\<lambda>x. x \<noteq> c) s)) else None)"

lemma length_trim_start: "length (trim_start s) \<le> length s"
proof -
  have "length (concat (dropWhile P xs)) \<le> length (concat xs)" for P and xs :: "str list"
    by (induction xs) auto
  from this [of is_whitespace "chars s"] show ?thesis by (simp add: trim_start_def)
qed

text \<open>
  One round of the tag loop: the tag at the front of the text, and what follows it.
\<close>

definition next_tag :: "str \<Rightarrow> (str \<times> str) option" where
  "next_tag remaining =
     (let offset = (if starts_with remaining ''W/'' then 2 else 0)
      in if length remaining \<le> offset \<or> remaining ! offset \<noteq> quote then None
         else case position quote (drop (offset + 1) remaining) of
                None \<Rightarrow> None
              | Some i \<Rightarrow> let stop = i + offset + 2
                         in Some (take stop remaining, drop stop remaining))"

lemma next_tag_shorter: "next_tag r = Some (t, rest) \<Longrightarrow> length rest < length r"
  by (auto simp: next_tag_def Let_def split: if_splits option.splits)

lemma strip_prefix_shorter: "strip_prefix p s = Some r \<Longrightarrow> length r \<le> length s"
  by simp

function parse_tags :: "str \<Rightarrow> str list \<Rightarrow> str list app_result" where
  "parse_tags remaining tags =
     (if remaining = [] then Inr tags
      else case next_tag remaining of
             None \<Rightarrow> Inl invalid_tags
           | Some (tag, rest) \<Rightarrow>
               if \<not> is_entity_tag tag then Inl invalid_tags
               else let tags = tags @ [tag] in
                    if MAX_CONDITION_TAGS < length tags then Inl invalid_tags
                    else let rest = trim_start rest in
                         if rest = [] then Inr tags
                         else case strip_prefix '','' rest of
                                None \<Rightarrow> Inl invalid_tags
                              | Some rest' \<Rightarrow>
                                  let rest' = trim_start rest' in
                                  if rest' = [] then Inl invalid_tags else parse_tags rest' tags)"
  by pat_completeness auto

termination
proof (relation "measure (\<lambda>(remaining, _). length remaining)", goal_cases)
  case (2 remaining tags x tag rest tags' rest1 rest' rest2)
  then have a: "length rest < length remaining" by (metis next_tag_shorter)
  have "length rest2 \<le> length rest'" "length rest1 \<le> length rest"
    using 2 by (metis length_trim_start)+
  moreover have "length rest' \<le> length rest1"
    using 2 by (intro strip_prefix_shorter) simp
  ultimately show ?case using a by simp
qed simp

declare parse_tags.simps [simp del]

definition tag_condition :: "http_lib \<Rightarrow> header_map \<Rightarrow> str \<Rightarrow> tag_cond option app_result" where
  "tag_condition lib headers name =
     rbind (combine_values lib (headers name) []) (\<lambda>combined.
       if combined = [] then (if headers name \<noteq> [] then Inl invalid_tags else Inr None)
       else let remaining = trim combined in
            if remaining = ''*'' then Inr (Some Any)
            else rbind (parse_tags remaining []) (\<lambda>tags. Inr (Some (Tags tags))))"

definition unweak :: "str \<Rightarrow> str" where
  "unweak t = (case strip_prefix ''W/'' t of Some r \<Rightarrow> r | None \<Rightarrow> t)"

definition tag_matches :: "tag_cond \<Rightarrow> bool \<Rightarrow> str option \<Rightarrow> bool \<Rightarrow> bool" where
  "tag_matches cond exists actual weak =
     (if \<not> exists then False
      else case cond of
        Any \<Rightarrow> True
      | Tags tags \<Rightarrow>
          (case actual of
             None \<Rightarrow> False
           | Some a \<Rightarrow>
               list_ex (\<lambda>expected.
                 if weak then unweak expected = unweak a
                 else \<not> starts_with expected ''W/'' \<and> \<not> starts_with a ''W/'' \<and> expected = a) tags))"

section \<open>Write conditions\<close>

definition parse_write_conditions :: "http_lib \<Rightarrow> header_map \<Rightarrow> write_conditions app_result" where
  "parse_write_conditions lib headers =
     rbind (tag_condition lib headers ''if-match'') (\<lambda>im.
     rbind (tag_condition lib headers ''if-none-match'') (\<lambda>inm.
     rbind (if im = None
            then (case headers ''if-unmodified-since'' of
                    [] \<Rightarrow> Inr None
                  | [v] \<Rightarrow> Inr (Option.bind (to_str lib v) (parse_http_date lib))
                  | _ \<Rightarrow> Inl (BadRequest ''If-Unmodified-Since must not be repeated''))
            else Inr None) (\<lambda>since.
       Inr \<lparr>if_match = im, if_none_match = inm, unmodified_since = since\<rparr>)))"

definition is_conditional :: "write_conditions \<Rightarrow> bool" where
  "is_conditional c \<longleftrightarrow> if_match c \<noteq> None \<or> if_none_match c \<noteq> None \<or> unmodified_since c \<noteq> None"

definition has_date :: "write_conditions \<Rightarrow> bool" where
  "has_date c \<longleftrightarrow> unmodified_since c \<noteq> None"

text \<open>\<open>duration_since(UNIX_EPOCH).ok().map(as_secs)\<close>.\<close>

definition epoch_seconds :: "instant \<Rightarrow> int option" where
  "epoch_seconds t = (if t < 0 then None else Some (t div 1000000000))"

text \<open>The derived order of \<open>Option\<close>: \<open>None\<close> is below every \<open>Some\<close>.\<close>

fun option_less :: "int option \<Rightarrow> int option \<Rightarrow> bool" where
  "option_less None (Some _) = True"
| "option_less (Some a) (Some b) = (a < b)"
| "option_less _ _ = False"

definition check_write :: "write_conditions \<Rightarrow> bool \<Rightarrow> str option \<Rightarrow> instant option \<Rightarrow> unit app_result" where
  "check_write c exists etag modified =
     rbind
       (case if_match c of
          Some cond \<Rightarrow> if \<not> tag_matches cond exists etag False then Inl PreconditionFailed else Inr ()
        | None \<Rightarrow>
            if exists \<and> unmodified_since c \<noteq> None
            then (let known = Option.bind modified epoch_seconds;
                      expected = Option.bind (unmodified_since c) epoch_seconds
                  in if known = None \<or> option_less expected known then Inl PreconditionFailed else Inr ())
            else Inr ())
       (\<lambda>_. case if_none_match c of
              None \<Rightarrow> Inr ()
            | Some cond \<Rightarrow>
                if tag_matches cond exists etag True then Inl PreconditionFailed
                else if exists \<and> etag = None \<and> (case cond of Tags _ \<Rightarrow> True | Any \<Rightarrow> False)
                then Inl (StorageCapability ''conditional_write''
                       ''Local files have no strong version tag, If-None-Match with tags cannot be evaluated'')
                else Inr ())"

text \<open>A local file is described by whether it exists and its modification time.\<close>

definition check_local :: "write_conditions \<Rightarrow> instant option option \<Rightarrow> unit app_result" where
  "check_local c metadata =
     check_write c (metadata \<noteq> None) None (Option.bind metadata (\<lambda>modified. modified))"

section \<open>Read conditions\<close>

definition object_validators :: "http_lib \<Rightarrow> str option \<Rightarrow> int option \<Rightarrow> file_validators" where
  "object_validators lib etag modified =
     \<lparr>fv_etag = (case etag of
                   None \<Rightarrow> None
                 | Some v \<Rightarrow> if is_entity_tag v \<and> header_value_ok lib v then Some v else None),
      fv_last_modified = Option.bind modified (format_http_date lib)\<rparr>"

definition i64_max :: int where "i64_max = 9223372036854775807"

definition local_validators :: "http_lib \<Rightarrow> instant option \<Rightarrow> file_validators" where
  "local_validators lib modified =
     object_validators lib None
       (Option.bind (Option.bind modified epoch_seconds)
          (\<lambda>s. if s \<le> i64_max then Some s else None))"

definition header_date :: "http_lib \<Rightarrow> header_map \<Rightarrow> str \<Rightarrow> instant option" where
  "header_date lib headers name =
     (case headers name of
        [v] \<Rightarrow> Option.bind (to_str lib v) (parse_http_date lib)
      | _ \<Rightarrow> None)"

definition is_get_or_head :: "str \<Rightarrow> bool" where
  "is_get_or_head m \<longleftrightarrow> m = ''GET'' \<or> m = ''HEAD''"

definition precondition_response ::
  "http_lib \<Rightarrow> file_validators \<Rightarrow> header_map \<Rightarrow> str \<Rightarrow> nat option app_result" where
  "precondition_response lib fv headers method =
     (let etag = Option.bind (fv_etag fv) (to_str lib);
          modified = Option.bind (Option.bind (fv_last_modified fv) (to_str lib)) (parse_http_date lib)
      in rbind (tag_condition lib headers ''if-match'') (\<lambda>im.
         rbind (tag_condition lib headers ''if-none-match'') (\<lambda>inm.
           Inr (if (case im of Some c \<Rightarrow> \<not> tag_matches c True etag False | None \<Rightarrow> False)
                   \<or> im = None \<and> (case (modified, header_date lib headers ''if-unmodified-since'') of
                                      (Some actual, Some expected) \<Rightarrow> expected < actual | _ \<Rightarrow> False)
                then Some 412
                else if (case inm of Some c \<Rightarrow> tag_matches c True etag True | None \<Rightarrow> False)
                then Some (if is_get_or_head method then 304 else 412)
                else if inm = None \<and> is_get_or_head method
                   \<and> (case (modified, header_date lib headers ''if-modified-since'') of
                        (Some actual, Some expected) \<Rightarrow> actual \<le> expected | _ \<Rightarrow> False)
                then Some 304
                else None))))"

definition matches_if_range :: "http_lib \<Rightarrow> file_validators \<Rightarrow> header_map \<Rightarrow> bool" where
  "matches_if_range lib fv headers =
     (case headers ''if-range'' of
        [v] \<Rightarrow>
          (case (map_option trim (to_str lib v), Option.bind (fv_etag fv) (to_str lib)) of
             (Some expected, Some actual) \<Rightarrow>
               \<not> starts_with expected ''W/'' \<and> \<not> starts_with actual ''W/''
               \<and> is_entity_tag expected \<and> expected = actual
           | _ \<Rightarrow> False)
      | _ \<Rightarrow> False)"

text \<open>
  The first and last byte of a range, from the texts before and after the dash; the file is not
  empty.
\<close>

definition range_ends :: "str \<Rightarrow> str \<Rightarrow> nat \<Rightarrow> unit + (nat \<times> nat)" where
  "range_ends start stop total_length =
     (if start = []
      then rbind (ok_or (parse_u64 stop) ()) (\<lambda>suffix.
             if suffix = 0 then Inl ()
             else let suffix = min suffix total_length
                  in Inr (total_length - suffix, total_length - 1))
      else rbind (ok_or (parse_u64 start) ()) (\<lambda>first.
             if total_length \<le> first then Inl ()
             else rbind (if stop = [] then Inr (total_length - 1)
                         else rbind (ok_or (parse_u64 stop) ()) (\<lambda>l. Inr (min l (total_length - 1))))
               (\<lambda>last. if last < first then Inl () else Inr (first, last))))"

text \<open>
  The byte range of a request: \<open>Inl ()\<close> is an unsatisfiable or malformed range, \<open>Inr None\<close> the
  whole file, \<open>Inr (Some (start, length, 206))\<close> a part of it.
\<close>

definition parse_range :: "http_lib \<Rightarrow> header_map \<Rightarrow> nat \<Rightarrow> unit + (nat \<times> nat \<times> nat) option" where
  "parse_range lib headers total_length =
     (case headers ''range'' of
        [] \<Rightarrow> Inr None
      | header_value # _ \<Rightarrow>
          rbind (ok_or (to_str lib header_value) ()) (\<lambda>raw.
          rbind (ok_or (strip_prefix ''bytes='' raw) ()) (\<lambda>value.
            if CHR '','' \<in> set value \<or> total_length = 0 then Inl ()
            else
          rbind (ok_or (split_once CHR ''-'' value) ()) (\<lambda>(start, stop).
          rbind (range_ends start stop total_length)
            (\<lambda>(first, last). Inr (Some (first, last - first + 1, 206)))))))"

definition select_range ::
  "http_lib \<Rightarrow> file_validators \<Rightarrow> header_map \<Rightarrow> nat \<Rightarrow> str \<Rightarrow> unit + (nat \<times> nat \<times> nat) option" where
  "select_range lib fv headers len method =
     (if method \<noteq> ''GET'' then Inr None
      else if headers ''if-range'' \<noteq> [] \<and> \<not> matches_if_range lib fv headers then Inr None
      else parse_range lib headers len)"

section \<open>Tag lists parse back\<close>

lemma ascii_not_space [simp]:
  "byte quote < 128" "\<not> is_whitespace [quote]"
  "byte CHR '','' < 128" "\<not> is_whitespace [CHR '','']"
  "byte CHR ''W'' < 128" "\<not> is_whitespace [CHR ''W'']"
  "byte CHR '' '' < 128" "is_whitespace [CHR '' '']"
  by (simp_all add: quote_def byte_def)

lemma quote_neq [simp]: "quote \<noteq> CHR ''W''" "quote \<noteq> CHR '',''" "quote \<noteq> CHR ''*''" "CHR ''W'' \<noteq> quote"
  by (simp_all add: quote_def)

lemma list_between:
  assumes "2 \<le> length v" and "v ! 0 = q" and "v ! (length v - 1) = q"
  shows "v = q # take (length v - 2) (drop 1 v) @ [q]"
proof -
  from assms(1) obtain a w where aw: "v = a # w" "w \<noteq> []" by (cases v; cases "tl v") auto
  then obtain m b where "w = m @ [b]" by (cases w rule: rev_cases) auto
  with aw assms(2,3) show ?thesis by (simp add: nth_append)
qed

lemma entity_tag_shape:
  assumes "is_entity_tag t"
  obtains body where "quote \<notin> set body" and "t = quote # body @ [quote] \<or> t = ''W/'' @ quote # body @ [quote]"
proof -
  let ?v = "case strip_prefix ''W/'' t of Some r \<Rightarrow> r | None \<Rightarrow> t"
  let ?body = "take (length ?v - 2) (drop 1 ?v)"
  from assms have len: "2 \<le> length ?v" and ends: "?v ! 0 = quote" "?v ! (length ?v - 1) = quote"
    and mid: "list_all (\<lambda>c. byte c = 33 \<or> 35 \<le> byte c \<and> byte c \<le> 126 \<or> 128 \<le> byte c) ?body"
    by (simp_all add: is_entity_tag_def Let_def)
  have v: "?v = quote # ?body @ [quote]"
    using len ends by (rule list_between)
  have "byte quote = 34" by (simp add: quote_def byte_def)
  then have "quote \<notin> set ?body" using mid by (fastforce simp: list_all_iff)
  moreover have "t = ?v \<or> t = ''W/'' @ ?v"
    by (auto split: option.split)
  ultimately show thesis using that [of ?body] v by metis
qed

lemma next_tag_entity:
  assumes "is_entity_tag t"
  shows "next_tag (t @ rest) = Some (t, rest)"
proof -
  obtain body where b: "quote \<notin> set body"
    and t: "t = quote # body @ [quote] \<or> t = ''W/'' @ quote # body @ [quote]"
    using assms by (rule entity_tag_shape)
  have pos: "position quote (body @ quote # rest) = Some (length body)"
    using b by (simp add: position_def takeWhile_append)
  from t show ?thesis
  proof
    assume "t = quote # body @ [quote]"
    then show ?thesis by (simp add: next_tag_def starts_with_def pos)
  next
    assume "t = ''W/'' @ quote # body @ [quote]"
    then show ?thesis by (simp add: next_tag_def starts_with_def pos numeral_2_eq_2)
  qed
qed

lemma entity_tag_ends:
  assumes "is_entity_tag t"
  shows "t \<noteq> []" and "hd t = quote \<or> hd t = CHR ''W''" and "last t = quote"
  using assms by (auto elim!: entity_tag_shape)

lemma trim_start_entity:
  "is_entity_tag t \<Longrightarrow> trim_start (t @ r) = t @ r"
  using entity_tag_ends(1,2) [of t] trim_start_ascii [of "hd t" "tl t @ r"]
  by (cases t) (auto simp del: is_whitespace.simps)

lemma join_tags_hd:
  "\<exists>r. join_with sep (t # ts) = t @ r"
  by (cases ts) (auto intro: exI [of _ "[]"])

lemma parse_tags_join:
  assumes "list_all is_entity_tag tags" and "tags \<noteq> []"
    and "length acc + length tags \<le> MAX_CONDITION_TAGS"
  shows "parse_tags (join_with '', '' tags) acc = Inr (acc @ tags)"
  using assms
proof (induction tags arbitrary: acc)
  case (Cons t ts)
  then have t: "is_entity_tag t" "t \<noteq> []" by (simp_all add: entity_tag_ends)
  show ?case
  proof (cases ts)
    case Nil
    with Cons t next_tag_entity [OF t(1), of "[]"] show ?thesis
      by (subst parse_tags.simps) simp
  next
    case (Cons u us)
    let ?rest = "join_with '', '' (u # us)"
    have u: "is_entity_tag u" using Cons.prems(1) local.Cons by simp
    obtain r where r: "?rest = u @ r"
      using join_tags_hd [of "'', ''" u us] by blast
    have ne: "?rest \<noteq> []" using r u entity_tag_ends(1) by auto
    have rest: "trim_start ('', '' @ ?rest) = '', '' @ ?rest" "trim_start (CHR '' '' # ?rest) = ?rest"
      using trim_start_entity [OF u, of r] r by (simp_all add: trim_start_ascii del: is_whitespace.simps)
    have strip: "strip_prefix '','' ('', '' @ ?rest) = Some (CHR '' '' # ?rest)"
      by (simp add: strip_prefix_def)
    have step: "parse_tags (t @ '', '' @ ?rest) acc = parse_tags ?rest (acc @ [t])"
      using Cons.prems t next_tag_entity [OF t(1), of "'', '' @ ?rest"] rest strip ne
      by (subst parse_tags.simps) (simp add: Let_def strip_prefix_def)
    have "join_with '', '' (t # ts) = t @ '', '' @ ?rest" using local.Cons by simp
    with step Cons.IH [of "acc @ [t]"] Cons.prems local.Cons show ?thesis by simp
  qed
qed simp

lemma parse_tags_valid:
  "parse_tags r acc = Inr tags \<Longrightarrow> list_all is_entity_tag acc \<Longrightarrow> length acc \<le> MAX_CONDITION_TAGS \<Longrightarrow>
   list_all is_entity_tag tags \<and> length tags \<le> MAX_CONDITION_TAGS"
proof (induction r acc rule: parse_tags.induct)
  case (1 r acc)
  show ?case
  proof (cases "r = [] \<or> next_tag r = None")
    case True
    with 1(2-) show ?thesis by (auto simp: parse_tags.simps [of r acc] split: if_splits)
  next
    case False
    then obtain t rest where nt: "next_tag r = Some (t, rest)" by auto
    show ?thesis
      using 1(2-) 1(1) [of "(t, rest)" t rest "acc @ [t]" "trim_start rest"] False nt
      by (auto simp: parse_tags.simps [of r acc] Let_def split: if_splits option.splits)
  qed
qed

lemma join_tags_last:
  "list_all is_entity_tag tags \<Longrightarrow> tags \<noteq> [] \<Longrightarrow> last (join_with '', '' tags) = quote"
  by (subst join_with_last) (auto simp: list_all_iff entity_tag_ends)

section \<open>Ranges\<close>

lemma range_ends_bounds:
  assumes "range_ends start stop total_length = Inr (first, final)" and "0 < total_length"
  shows "first \<le> final" and "final < total_length"
  using assms
  by (auto simp: range_ends_def Let_def rbind_Inr_iff split: if_splits)

lemma parse_range_Some:
  assumes "parse_range lib headers total_length = Inr (Some (start, len, st))"
  obtains a b final where "range_ends a b total_length = Inr (start, final)" and "0 < total_length"
    and "len = final - start + 1" and "st = 206"
  using assms
  by (cases "headers ''range''") (auto simp: parse_range_def rbind_Inr_iff split: if_splits)

lemma parse_range_bounds:
  assumes "parse_range lib headers total_length = Inr (Some (start, len, st))"
  shows "st = 206 \<and> 0 < len \<and> start + len \<le> total_length"
proof -
  from assms obtain a b final where r: "range_ends a b total_length = Inr (start, final)" "0 < total_length"
    and len: "len = final - start + 1" "st = 206"
    by (rule parse_range_Some)
  from range_ends_bounds [OF r] len show ?thesis by linarith
qed

section \<open>Properties\<close>

text \<open>
  A byte range that is served lies inside the file. Whatever the Range header holds, an accepted
  range has status 206, at least one byte, and ends no later than the file does.
\<close>

lemma parse_range_in_file:
  assumes "parse_range lib headers total_length = Inr (Some (start, len, st))"
  shows "st = 206 \<and> 0 < len \<and> start + len \<le> total_length"
  using assms by (rule parse_range_bounds)

text \<open>The library functions of a witness: every text is accepted, no date parses.\<close>

definition plain_lib :: http_lib where
  "plain_lib = \<lparr>header_value_ok = (\<lambda>_. True), header_text_ok = (\<lambda>_. True),
     parse_http_date = (\<lambda>_. None), format_http_date = (\<lambda>_. None)\<rparr>"

lemma parse_range_in_file_witness:
  "parse_range plain_lib (\<lambda>n. if n = ''range'' then [''bytes=5-900''] else []) 10 = Inr (Some (5, 5, 206))
   \<and> 5 + 5 \<le> (10 :: nat)"
proof -
  have h: "parse_range plain_lib (\<lambda>n. if n = ''range'' then [''bytes=5-900''] else []) 10 = Inr (Some (5, 5, 206))"
    by (simp add: parse_range_def plain_lib_def to_str_def ok_or_def strip_prefix_def split_once_def
        range_ends_def parse_u64_def parse_unsigned_def is_ascii_digit_def decimal_value_def
        digit_value_def u64_max_def byte_def)
  show ?thesis using h parse_range_in_file [OF h] by simp
qed

text \<open>
  The three forms of a single byte range mean what HTTP says. With the numbers printed in
  decimal, \<open>a-b\<close> is the bytes from a to b cut at the end of the file, \<open>a-\<close> is everything from a
  on, and \<open>-n\<close> is the last n bytes, or the whole file when it is shorter.
\<close>

lemma parse_range_forms:
  assumes "header_text_ok lib (''bytes='' @ spec)" and "headers ''range'' = [''bytes='' @ spec]"
    and "a \<le> u64_max" and "b \<le> u64_max" and "0 < total_length"
  shows "(spec = show_nat a @ ''-'' @ show_nat b \<longrightarrow> a \<le> b \<longrightarrow> a < total_length \<longrightarrow>
            parse_range lib headers total_length
              = Inr (Some (a, min b (total_length - 1) - a + 1, 206)))
    \<and> (spec = show_nat a @ ''-'' \<longrightarrow> a < total_length \<longrightarrow>
            parse_range lib headers total_length = Inr (Some (a, total_length - a, 206)))
    \<and> (spec = ''-'' @ show_nat b \<longrightarrow> 0 < b \<longrightarrow>
            parse_range lib headers total_length
              = Inr (Some (total_length - min b total_length, min b total_length, 206)))"
proof -
  let ?ends = "\<lambda>x y. rbind (range_ends x y total_length) (\<lambda>(first, last). Inr (Some (first, last - first + 1, 206)))"
  have free: "CHR ''-'' \<notin> set (show_nat n)" "CHR '','' \<notin> set (show_nat n)" for n
    by (rule show_nat_free, simp add: is_ascii_digit_def byte_def)+
  have body: "parse_range lib headers total_length = ?ends x y"
    if "spec = x @ ''-'' @ y" "CHR ''-'' \<notin> set x" "CHR '','' \<notin> set x" "CHR '','' \<notin> set y" for x y
  proof -
    have "split_once CHR ''-'' spec = Some (x, y)" using that by (simp add: split_once_append)
    moreover have "strip_prefix ''bytes='' (''bytes='' @ spec) = Some spec" by (simp add: strip_prefix_def)
    ultimately show ?thesis
      using assms that by (simp add: parse_range_def to_str_def ok_or_def strip_prefix_def)
  qed
  have ne: "show_nat n \<noteq> []" for n using show_nat_digits by blast
  have parse: "parse_u64 (show_nat a) = Some a" "parse_u64 (show_nat b) = Some b"
    using assms(3,4) by (simp_all add: parse_u64_show_nat)
  have "range_ends (show_nat a) (show_nat b) total_length = Inr (a, min b (total_length - 1))"
    if "a \<le> b" "a < total_length"
    using that parse ne by (simp add: range_ends_def ok_or_def)
  moreover have "range_ends (show_nat a) [] total_length = Inr (a, total_length - 1)" if "a < total_length"
    using that parse ne by (simp add: range_ends_def ok_or_def)
  moreover have "range_ends [] (show_nat b) total_length = Inr (total_length - min b total_length, total_length - 1)"
    if "0 < b"
    using that parse by (simp add: range_ends_def ok_or_def)
  moreover have "total_length - Suc 0 - (total_length - min b total_length) + 1 = min b total_length" if "0 < b"
    using that assms(5) by linarith
  ultimately show ?thesis
    using body [of "show_nat a" "show_nat b"] body [of "show_nat a" "[]"] body [of "[]" "show_nat b"]
      free assms(5) by auto
qed

lemma parse_range_forms_witness:
  "parse_range plain_lib (\<lambda>_. [''bytes='' @ (show_nat 2 @ ''-'' @ show_nat 4)]) 10 = Inr (Some (2, 3, 206))"
proof -
  have ok: "header_text_ok plain_lib s" for s by (simp add: plain_lib_def)
  show ?thesis
    using parse_range_forms [where lib = plain_lib and a = 2 and b = 4 and total_length = 10
        and headers = "\<lambda>_. [''bytes='' @ (show_nat 2 @ ''-'' @ show_nat 4)]"
        and spec = "show_nat 2 @ ''-'' @ show_nat 4", OF ok]
    by (simp add: u64_max_def)
qed

text \<open>
  A list of entity tags survives its header. Any one to 32 valid tags, weak or strong, with
  commas and non-ASCII bytes inside the quotes allowed, joined by a comma and a space within the
  size bound, parse back to exactly that list; and whatever a header holds, parsed tags are valid
  and at most 32.
\<close>

lemma tag_condition_roundtrip:
  assumes "tags \<noteq> []" and "length tags \<le> 32" and "list_all is_entity_tag tags"
    and "header_text_ok lib (join_with '', '' tags)" and "length (join_with '', '' tags) < 4096"
    and "headers name = [join_with '', '' tags]"
  shows "tag_condition lib headers name = Inr (Some (Tags tags))
    \<and> (\<forall>h n ts. tag_condition lib h n = Inr (Some (Tags ts)) \<longrightarrow>
         list_all is_entity_tag ts \<and> length ts \<le> 32)"
proof -
  let ?text = "join_with '', '' tags"
  obtain t ts where tags: "tags = t # ts" using assms(1) by (cases tags) auto
  obtain r where r: "?text = t @ r" using join_tags_hd [of "'', ''" t ts] tags by auto
  have t: "is_entity_tag t" using assms(3) tags by simp
  have ne: "?text \<noteq> []" and hd: "hd ?text = quote \<or> hd ?text = CHR ''W''"
    using r entity_tag_ends [OF t] by (auto simp: hd_append)
  have last: "last ?text = quote" using assms(1,3) by (simp add: join_tags_last)
  have "trim ?text = ?text"
    using ne hd last by (intro trim_ascii_ends) (auto simp del: is_whitespace.simps)
  moreover have "?text \<noteq> ''*''"
    using hd by (auto simp: quote_def)
  moreover have "combine_values lib (headers name) [] = Inr ?text"
    using assms(4-6) by (simp add: to_str_def MAX_CONDITION_BYTES_def saturating_add_def u64_max_def)
  moreover have "parse_tags ?text [] = Inr tags"
    using assms(1-3) parse_tags_join [of tags "[]"] by (simp add: MAX_CONDITION_TAGS_def)
  ultimately have "tag_condition lib headers name = Inr (Some (Tags tags))"
    using ne by (simp add: tag_condition_def Let_def)
  moreover have "list_all is_entity_tag ts \<and> length ts \<le> 32"
    if h: "tag_condition lib h n = Inr (Some (Tags ts))" for h n ts
  proof -
    from h obtain remaining where "parse_tags remaining [] = Inr ts"
      by (auto simp: tag_condition_def rbind_Inr_iff Let_def split: if_splits)
    then show ?thesis
      using parse_tags_valid [of remaining "[]" ts] by (simp add: MAX_CONDITION_TAGS_def)
  qed
  ultimately show ?thesis by blast
qed

lemma tag_condition_roundtrip_witness:
  "tag_condition plain_lib (\<lambda>_. [join_with '', '' [quote # ''a,b'' @ [quote], ''W/'' @ quote # ''1'' @ [quote]]]) ''if-match''
   = Inr (Some (Tags [quote # ''a,b'' @ [quote], ''W/'' @ quote # ''1'' @ [quote]]))"
proof -
  have e: "is_entity_tag (quote # ''a,b'' @ [quote])" "is_entity_tag (''W/'' @ quote # ''1'' @ [quote])"
    by code_simp+
  have l: "length (join_with '', '' [quote # ''a,b'' @ [quote], ''W/'' @ quote # ''1'' @ [quote]]) < 4096"
    by simp
  show ?thesis
    using e l tag_condition_roundtrip [where lib = plain_lib and name = "''if-match''"
        and tags = "[quote # ''a,b'' @ [quote], ''W/'' @ quote # ''1'' @ [quote]]"
        and headers = "\<lambda>_. [join_with '', '' [quote # ''a,b'' @ [quote], ''W/'' @ quote # ''1'' @ [quote]]]"]
    by (simp add: plain_lib_def)
qed

text \<open>
  The two wildcard conditions protect a local file. A request that carries only
  \<open>If-None-Match: *\<close> is never allowed to replace an existing file and is allowed to create one; a
  request that carries only \<open>If-Match: *\<close> is never allowed to create a file and is allowed to
  replace one, whatever its modification time.
\<close>

lemma wildcard_conditions:
  assumes "header_text_ok lib ''*''" and "name \<in> {''if-match'', ''if-none-match''}"
    and "headers = (\<lambda>n. if n = name then [''*''] else [])"
  shows "\<exists>c. parse_write_conditions lib headers = Inr c \<and> is_conditional c
    \<and> (\<forall>modified. check_local c (Some modified) =
          (if name = ''if-none-match'' then Inl PreconditionFailed else Inr ()))
    \<and> check_local c None = (if name = ''if-match'' then Inl PreconditionFailed else Inr ())"
proof -
  have star: "tag_condition lib headers name = Inr (Some Any)"
  proof -
    have "trim ''*'' = ''*''" by code_simp
    with assms(1,3) show ?thesis
      by (simp add: tag_condition_def to_str_def MAX_CONDITION_BYTES_def saturating_add_def u64_max_def)
  qed
  have none: "tag_condition lib headers n = Inr None" if "n \<noteq> name" for n
    using that assms(3) by (simp add: tag_condition_def)
  from assms(2) consider "name = ''if-match''" | "name = ''if-none-match''" by blast
  then show ?thesis
  proof cases
    case 1
    with star none [of "''if-none-match''"] assms(3) show ?thesis
      by (simp add: parse_write_conditions_def is_conditional_def check_local_def check_write_def tag_matches_def)
  next
    case 2
    with star none [of "''if-match''"] assms(3) show ?thesis
      by (simp add: parse_write_conditions_def is_conditional_def check_local_def check_write_def tag_matches_def)
  qed
qed

lemma wildcard_conditions_witness:
  "\<exists>c. parse_write_conditions plain_lib (\<lambda>n. if n = ''if-none-match'' then [''*''] else []) = Inr c
     \<and> check_local c (Some None) = Inl PreconditionFailed \<and> check_local c None = Inr ()"
  using wildcard_conditions [where lib = plain_lib and name = "''if-none-match''", OF _ _ refl]
  by (auto simp: plain_lib_def)

end
