(* ===== verification/HttpBoundary.thy ===== *)
theory HttpBoundary
  imports Conditions FileAccess
begin

text \<open>
  The boundary to browsers and WebDAV clients: the checks of host, client address and origin and
  the cookie attributes (src/src/security.rs), the domain binding (src/src/domain_binding.rs) and
  the paths of WebDAV requests (src/src/webdav_path.rs).

  Parsing of authorities, URIs and addresses belongs to the HTTP and standard libraries and is a
  parameter, the record \<open>net_lib\<close>; addresses are of any ordered type.
\<close>

section \<open>Authorities\<close>

record authority =
  au_text :: str
  au_host :: str
  au_port :: "nat option"

record uri =
  uri_scheme :: "str option"
  uri_authority :: "authority option"
  uri_path :: str
  uri_query :: "str option"

record 'ip net_lib =
  parse_authority :: "str \<Rightarrow> authority option"
  parse_uri :: "str \<Rightarrow> uri option"
  parse_ip :: "str \<Rightarrow> 'ip option"
  to_canonical :: "'ip \<Rightarrow> 'ip"

definition effective_port :: "nat \<Rightarrow> authority \<Rightarrow> nat option" where
  "effective_port default_port a =
     (case au_port a of
        Some p \<Rightarrow> Some p
      | None \<Rightarrow> (case strip_prefix (au_host a) (au_text a) of
                   Some rest \<Rightarrow> if rest = [] \<or> rest = '':'' then Some default_port else None
                 | None \<Rightarrow> None))"

definition same_authority :: "authority \<Rightarrow> authority \<Rightarrow> nat \<Rightarrow> bool" where
  "same_authority a b default_port \<longleftrightarrow>
     CHR ''@'' \<notin> set (au_text a) \<and> CHR ''@'' \<notin> set (au_text b)
     \<and> eq_ignore_ascii_case (au_host a) (au_host b)
     \<and> effective_port default_port a \<noteq> None \<and> effective_port default_port a = effective_port default_port b"

section \<open>Requests\<close>

record 'ip boundary_config =
  bc_port :: nat
  bc_public_base_url :: "str option"
  bc_public_host :: "str option"
  bc_secure_cookies :: bool
  bc_allowed_hosts :: "str list"
  bc_trusted_proxy_ips :: "'ip list"

definition BAD_REQUEST :: nat where "BAD_REQUEST = 400"
definition FORBIDDEN :: nat where "FORBIDDEN = 403"

definition session_cookie :: "str \<Rightarrow> str \<Rightarrow> nat \<Rightarrow> bool \<Rightarrow> str" where
  "session_cookie name v max_age secure =
     name @ ''='' @ v @ ''; Path=/; HttpOnly; SameSite=Strict; Max-Age='' @ show_nat max_age
       @ (if secure then ''; Secure'' else [])"

definition clear_cookie :: "str \<Rightarrow> bool \<Rightarrow> str" where
  "clear_cookie name secure = session_cookie name [] 0 secure"

text \<open>The cookies of a response get the \<open>Secure\<close> attribute where they lack it.\<close>

definition has_secure :: "str \<Rightarrow> bool" where
  "has_secure raw = list_ex (\<lambda>part. eq_ignore_ascii_case (trim part) ''secure'') (split_on CHR '';'' raw)"

fun secure_response_cookies :: "http_lib \<Rightarrow> str list \<Rightarrow> nat + str list" where
  "secure_response_cookies lib [] = Inr []"
| "secure_response_cookies lib (v # vs) =
     rbind (ok_or (to_str lib v) 500) (\<lambda>raw.
     rbind (if has_secure raw then Inr v
            else if header_value_ok lib (raw @ ''; Secure'') then Inr (raw @ ''; Secure'') else Inl 500) (\<lambda>cookie.
     rbind (secure_response_cookies lib vs) (\<lambda>cookies. Inr (cookie # cookies))))"

definition single_header :: "http_lib \<Rightarrow> header_map \<Rightarrow> str \<Rightarrow> nat + str" where
  "single_header lib headers name =
     (case headers name of
        [] \<Rightarrow> Inl BAD_REQUEST
      | v # vs \<Rightarrow>
          rbind (ok_or (to_str lib v) BAD_REQUEST) (\<lambda>text_value.
            if vs \<noteq> [] \<or> CHR '','' \<in> set text_value \<or> trim text_value \<noteq> text_value \<or> text_value = []
            then Inl BAD_REQUEST else Inr text_value))"

definition request_client_ip ::
  "http_lib \<Rightarrow> 'ip net_lib \<Rightarrow> 'ip boundary_config \<Rightarrow> 'ip \<Rightarrow> header_map \<Rightarrow> nat + 'ip" where
  "request_client_ip http net cfg peer headers =
     (let peer = to_canonical net peer
      in if peer \<notin> set (bc_trusted_proxy_ips cfg) \<or> headers ''x-real-ip'' = [] then Inr peer
         else rbind (single_header http headers ''x-real-ip'') (\<lambda>v.
              rbind (ok_or (parse_ip net v) BAD_REQUEST) (\<lambda>ip. Inr (to_canonical net ip))))"

definition validate_request_host ::
  "http_lib \<Rightarrow> 'ip net_lib \<Rightarrow> 'ip boundary_config \<Rightarrow> header_map \<Rightarrow> nat + unit" where
  "validate_request_host http net cfg headers =
     rbind (single_header http headers ''host'') (\<lambda>raw_host.
       case bc_public_host cfg of
         Some public_host \<Rightarrow>
           rbind (ok_or (parse_authority net public_host) FORBIDDEN) (\<lambda>expected.
           rbind (ok_or (parse_authority net raw_host) BAD_REQUEST) (\<lambda>actual.
             ensure (same_authority expected actual (if bc_secure_cookies cfg then 443 else 80)) FORBIDDEN))
       | None \<Rightarrow>
           if to_ascii_lowercase raw_host \<in> set (bc_allowed_hosts cfg) then Inr ()
           else rbind (ok_or (parse_authority net raw_host) BAD_REQUEST) (\<lambda>a.
                  if \<not> (au_port a = Some (bc_port cfg) \<or> au_port a = None \<and> bc_port cfg = 80) then Inl FORBIDDEN
                  else if eq_ignore_ascii_case (au_host a) ''localhost'' then Inr ()
                  else ensure (parse_ip net (au_host a) \<noteq> None) FORBIDDEN))"

definition first_text :: "http_lib \<Rightarrow> header_map \<Rightarrow> str \<Rightarrow> str option" where
  "first_text http headers name = (case headers name of [] \<Rightarrow> None | v # _ \<Rightarrow> to_str http v)"

definition is_mutating :: "str \<Rightarrow> bool" where
  "is_mutating request_method \<longleftrightarrow> request_method \<notin> {''GET'', ''HEAD'', ''OPTIONS''}"

definition uses_cookie_auth :: "http_lib \<Rightarrow> header_map \<Rightarrow> bool" where
  "uses_cookie_auth http headers =
     (case first_text http headers ''cookie'' of
        None \<Rightarrow> False
      | Some cookie \<Rightarrow> str_contains cookie ''session='' \<or> str_contains cookie ''gate_access='' \<or> str_contains cookie ''folder_key_'')"

definition origin_matches :: "http_lib \<Rightarrow> 'ip boundary_config \<Rightarrow> header_map \<Rightarrow> bool" where
  "origin_matches http cfg headers =
     (case bc_public_base_url cfg of
        Some expected \<Rightarrow> first_text http headers ''origin'' = Some expected
      | None \<Rightarrow>
          (case (first_text http headers ''host'', first_text http headers ''origin'') of
             (Some host, Some origin) \<Rightarrow>
               (case strip_prefix ''http://'' origin of
                  Some origin_host \<Rightarrow> origin_host = host
                | None \<Rightarrow> (case strip_prefix ''https://'' origin of
                             Some origin_host \<Rightarrow> origin_host = host
                           | None \<Rightarrow> False))
           | _ \<Rightarrow> False))"

definition csrf_request_allowed :: "http_lib \<Rightarrow> 'ip boundary_config \<Rightarrow> str \<Rightarrow> header_map \<Rightarrow> bool" where
  "csrf_request_allowed http cfg request_method headers =
     (if \<not> is_mutating request_method then True
      else if \<not> (uses_cookie_auth http headers \<or> headers ''origin'' \<noteq> [] \<or> headers ''sec-fetch-site'' \<noteq> []) then True
      else first_text http headers ''sec-fetch-site'' = Some ''same-origin'' \<or> origin_matches http cfg headers)"

section \<open>Domain binding\<close>

record 'ip domain_binding =
  db_public_url :: str
  db_trusted_proxy_ips :: "'ip list"

definition MAX_TRUSTED_PROXY_IPS :: nat where "MAX_TRUSTED_PROXY_IPS = 16"

definition valid_label :: "str \<Rightarrow> bool" where
  "valid_label label \<longleftrightarrow>
     label \<noteq> [] \<and> length label \<le> 63 \<and> \<not> starts_with label ''-'' \<and> \<not> ends_with label ''-''
     \<and> list_all (\<lambda>c. is_ascii_alphanumeric c \<or> c = CHR ''-'') label"

definition binding_validate :: "'ip net_lib \<Rightarrow> 'ip domain_binding \<Rightarrow> unit app_result" where
  "binding_validate net b =
     (let invalid = BadRequest ''An HTTPS domain is needed, with a port at most and no path, account or query''
      in if MAX_TRUSTED_PROXY_IPS < length (db_trusted_proxy_ips b) then Inl (BadRequest ''Too many trusted proxy addresses'')
         else if 300 < length (db_public_url b) then Inl invalid
         else rbind (ok_or (parse_uri net (db_public_url b)) invalid) (\<lambda>u.
              rbind (ok_or (uri_authority u) invalid) (\<lambda>a.
                if uri_scheme u \<noteq> Some ''https'' \<or> uri_path u \<notin> {[], ''/''} \<or> uri_query u \<noteq> None
                   \<or> CHR ''@'' \<in> set (au_text a) \<or> parse_ip net (au_host a) \<noteq> None \<or> 253 < length (au_host a)
                   \<or> CHR ''.'' \<notin> set (au_host a) \<or> list_ex (\<lambda>l. \<not> valid_label l) (split_on CHR ''.'' (au_host a))
                   \<or> CHR '':'' \<in> set (au_text a) \<and> (au_port a = None \<or> au_port a = Some 0)
                then Inl invalid else Inr ())))"

definition binding_normalize :: "'ip :: linorder net_lib \<Rightarrow> 'ip domain_binding \<Rightarrow> 'ip domain_binding app_result" where
  "binding_normalize net b =
     (let b = b\<lparr>db_public_url := to_ascii_lowercase (trim_end_matches CHR ''/'' (trim (db_public_url b)))\<rparr>
      in rbind (binding_validate net b) (\<lambda>_.
         let url = db_public_url b;
             url = (if ends_with url '':443'' then take (length url - 4) url else url)
         in Inr (b\<lparr>db_public_url := url,
                   db_trusted_proxy_ips := remdups_adj (sort (map (to_canonical net) (db_trusted_proxy_ips b)))\<rparr>)))"

fun trim_scheme :: "nat \<Rightarrow> str \<Rightarrow> str" where
  "trim_scheme 0 url = url"
| "trim_scheme (Suc n) url = (case strip_prefix ''https://'' url of Some rest \<Rightarrow> trim_scheme n rest | None \<Rightarrow> url)"

definition binding_apply :: "'ip domain_binding \<Rightarrow> 'ip boundary_config \<Rightarrow> 'ip boundary_config" where
  "binding_apply b base =
     base\<lparr>bc_public_base_url := Some (db_public_url b),
          bc_public_host := Some (trim_end_matches CHR ''/'' (trim_scheme (length (db_public_url b)) (db_public_url b))),
          bc_secure_cookies := True, bc_trusted_proxy_ips := db_trusted_proxy_ips b\<rparr>"

definition policy :: "'ip domain_binding option \<Rightarrow> 'ip boundary_config \<Rightarrow> 'ip boundary_config" where
  "policy binding base = (case binding of None \<Rightarrow> base | Some b \<Rightarrow> binding_apply b base)"

text \<open>The boundary as the middleware applies it: the host, then the client address.\<close>

definition proxy_boundary ::
  "http_lib \<Rightarrow> 'ip net_lib \<Rightarrow> 'ip domain_binding option \<Rightarrow> 'ip boundary_config \<Rightarrow> 'ip option \<Rightarrow> header_map
    \<Rightarrow> nat + 'ip boundary_config \<times> 'ip" where
  "proxy_boundary http net binding base peer headers =
     rbind (ok_or peer FORBIDDEN) (\<lambda>peer.
       let cfg = policy binding base in
       rbind (validate_request_host http net cfg headers) (\<lambda>_.
       rbind (request_client_ip http net cfg peer headers) (\<lambda>ip. Inr (cfg, ip))))"

section \<open>WebDAV paths\<close>

definition parse_share_path :: "str \<Rightarrow> str \<times> str" where
  "parse_share_path dav_path =
     (let trimmed = trim_start_matches CHR ''/'' dav_path
      in case split_once CHR ''/'' trimmed of Some p \<Rightarrow> p | None \<Rightarrow> (trimmed, []))"

definition join_relative :: "str \<Rightarrow> str \<Rightarrow> str" where
  "join_relative parent child =
     (let p = trim_matches CHR ''/'' parent; c = trim_matches CHR ''/'' child
      in if p = [] then c else if c = [] then p else p @ ''/'' @ c)"

definition display_relative_path :: "share \<Rightarrow> str \<Rightarrow> str" where
  "display_relative_path sh storage_relative =
     trim_matches CHR ''/''
       (case strip_prefix (trim_matches CHR ''/'' (share_path sh)) storage_relative of
          Some rest \<Rightarrow> rest | None \<Rightarrow> storage_relative)"

definition is_write_method :: "str \<Rightarrow> bool" where
  "is_write_method request_method \<longleftrightarrow> request_method \<in> {''PUT'', ''DELETE'', ''MKCOL'', ''MOVE'', ''COPY''}"

definition unescaped :: "char \<Rightarrow> bool" where
  "unescaped c \<longleftrightarrow> is_ascii_alphanumeric c \<or> c \<in> set ''-._~/''"

definition hex_digit :: "nat \<Rightarrow> char" where
  "hex_digit n = (if n < 10 then char_of (48 + n) else char_of (55 + n))"

definition percent_encode :: "str \<Rightarrow> str" where
  "percent_encode s =
     concat (map (\<lambda>c. if unescaped c then [c] else [CHR ''%'', hex_digit (byte c div 16), hex_digit (byte c mod 16)]) s)"

definition hex_value :: "char \<Rightarrow> nat option" where
  "hex_value c =
     (if 48 \<le> byte c \<and> byte c \<le> 57 then Some (byte c - 48)
      else if 97 \<le> byte c \<and> byte c \<le> 102 then Some (byte c - 97 + 10)
      else if 65 \<le> byte c \<and> byte c \<le> 70 then Some (byte c - 65 + 10)
      else None)"

fun decode_loop :: "str \<Rightarrow> str option" where
  "decode_loop [] = Some []"
| "decode_loop (c # s) =
     (if c = CHR ''%''
      then (case s of
              high # low # rest \<Rightarrow>
                Option.bind (hex_value high) (\<lambda>h. Option.bind (hex_value low) (\<lambda>l.
                  map_option ((#) (char_of (h * 16 + l))) (decode_loop rest)))
            | _ \<Rightarrow> None)
      else map_option ((#) c) (decode_loop s))"

definition percent_decode :: "str \<Rightarrow> str option" where
  "percent_decode s = Option.bind (decode_loop s) (\<lambda>d. if valid_utf8 d then Some d else None)"

definition destination_authority_ok :: "'ip net_lib \<Rightarrow> str option \<Rightarrow> uri \<Rightarrow> bool" where
  "destination_authority_ok net request_host u =
     (case uri_authority u of
        None \<Rightarrow> True
      | Some a \<Rightarrow>
          (case uri_scheme u of
             None \<Rightarrow> False
           | Some scheme \<Rightarrow>
               (case (if scheme = ''https'' then Some 443 else if scheme = ''http'' then Some 80 else None) of
                  None \<Rightarrow> False
                | Some default_port \<Rightarrow>
                    (case Option.bind request_host (parse_authority net) of
                       None \<Rightarrow> False
                     | Some request \<Rightarrow> same_authority a request default_port))))"

definition parse_destination :: "'ip net_lib \<Rightarrow> str \<Rightarrow> str \<Rightarrow> str option \<Rightarrow> str option" where
  "parse_destination net destination share_label request_host =
     Option.bind (parse_uri net destination) (\<lambda>u.
       if uri_query u \<noteq> None \<or> \<not> destination_authority_ok net request_host u then None
       else Option.bind (strip_prefix (''/dav/'' @ percent_encode share_label) (uri_path u)) (\<lambda>remainder.
              if remainder \<noteq> [] \<and> \<not> starts_with remainder ''/'' then None
              else percent_decode (trim_start_matches CHR ''/'' remainder)))"

section \<open>Percent encoding\<close>

lemma hex_value_digit: "n < 16 \<Longrightarrow> hex_value (hex_digit n) = Some n"
  by (auto simp: hex_value_def hex_digit_def)

lemma percent_encode_simps [simp]:
  "percent_encode [] = []"
  "percent_encode (c # s) =
     (if unescaped c then c # percent_encode s
      else CHR ''%'' # hex_digit (byte c div 16) # hex_digit (byte c mod 16) # percent_encode s)"
  by (simp_all add: percent_encode_def)

lemma unescaped_percent: "\<not> unescaped CHR ''%''"
  by (simp add: unescaped_def is_ascii_alphanumeric_def is_ascii_digit_def is_ascii_upper_def is_ascii_lower_def byte_def)

lemma decode_encode: "decode_loop (percent_encode s) = Some s"
proof (induction s)
  case (Cons c s)
  have "byte c div 16 < 16" using byte_less [of c] by linarith
  then show ?case using Cons unescaped_percent by (auto simp: hex_value_digit)
qed simp

lemma percent_encode_inj: "percent_encode a = percent_encode b \<Longrightarrow> a = b"
  by (metis decode_encode option.inject)

lemma hex_digit_alphanumeric: "n < 16 \<Longrightarrow> is_ascii_alphanumeric (hex_digit n)"
  by (auto simp: hex_digit_def is_ascii_alphanumeric_def is_ascii_digit_def is_ascii_upper_def)

lemma percent_encode_chars: "c \<in> set (percent_encode s) \<Longrightarrow> unescaped c \<or> c = CHR ''%''"
proof (induction s)
  case (Cons d s)
  have "byte d div 16 < 16" using byte_less [of d] by linarith
  then show ?case using Cons hex_digit_alphanumeric by (auto simp: unescaped_def split: if_splits)
qed simp

lemma percent_encode_slash: "CHR ''/'' \<in> set (percent_encode s) \<longleftrightarrow> CHR ''/'' \<in> set s"
proof (induction s)
  case (Cons c s)
  have "byte c div 16 < 16" using byte_less [of c] by linarith
  moreover have "\<not> is_ascii_alphanumeric CHR ''/''"
    by (simp add: is_ascii_alphanumeric_def is_ascii_digit_def is_ascii_upper_def is_ascii_lower_def byte_def)
  then have "CHR ''/'' \<noteq> hex_digit n" if "n < 16" for n using hex_digit_alphanumeric [OF that] by metis
  ultimately show ?case using Cons by (auto simp: unescaped_def)
qed simp

lemma encoded_first: "s = [] \<or> hd s \<noteq> CHR ''/'' \<Longrightarrow> percent_encode s = [] \<or> hd (percent_encode s) \<noteq> CHR ''/''"
  by (cases s) (auto simp: unescaped_def)

lemma trim_start_slash: "s = [] \<or> hd s \<noteq> c \<Longrightarrow> trim_start_matches c (c # s) = s"
  by (cases s) (auto simp: trim_start_matches_def)

lemma parse_destination_remainder:
  assumes "parse_uri net destination = Some u" "uri_query u = None" "destination_authority_ok net request_host u"
    "strip_prefix (''/dav/'' @ percent_encode share_label) (uri_path u) = Some remainder"
  shows "parse_destination net destination share_label request_host =
     (if remainder \<noteq> [] \<and> \<not> starts_with remainder ''/'' then None
      else percent_decode (trim_start_matches CHR ''/'' remainder))"
  using assms by (simp add: parse_destination_def del: strip_prefix_Some_iff)

lemma other_share_prefix:
  assumes "percent_encode share_label @ remainder = percent_encode other @ ''/'' @ q" "other \<noteq> share_label"
    "CHR ''/'' \<notin> set share_label" "CHR ''/'' \<notin> set other" "remainder = [] \<or> hd remainder = CHR ''/''"
  shows False
proof -
  let ?P = "\<lambda>c. c \<noteq> CHR ''/''"
  have free: "\<forall>c \<in> set (percent_encode share_label). ?P c" "\<forall>c \<in> set (percent_encode other). ?P c"
    using assms(3,4) percent_encode_slash by auto
  have "takeWhile ?P (percent_encode share_label @ remainder) = percent_encode share_label"
    using free(1) assms(5) by (cases remainder) (auto simp: takeWhile_append2)
  moreover have "takeWhile ?P (percent_encode other @ ''/'' @ q) = percent_encode other"
    using free(2) by (auto simp: takeWhile_append2)
  ultimately have "percent_encode share_label = percent_encode other" using assms(1) by simp
  then show False using percent_encode_inj assms(2) by blast
qed

section \<open>Properties\<close>

text \<open>
  C36: a WebDAV destination written for a path of a share, percent-encoded, on the server that was
  asked, is read back as exactly that path, and the same destination is refused for every other
  share. Encoded names hold only unreserved characters, slashes and percent signs.
\<close>

theorem destination_roundtrip:
  assumes "parse_uri net destination = Some u" "uri_query u = None" "destination_authority_ok net request_host u"
    "uri_path u = ''/dav/'' @ percent_encode share_label @ ''/'' @ percent_encode p" "valid_utf8 p" "p = [] \<or> hd p \<noteq> CHR ''/''"
  shows "parse_destination net destination share_label request_host = Some p
       \<and> (\<forall>other. CHR ''/'' \<notin> set other \<and> CHR ''/'' \<notin> set share_label \<and> other \<noteq> share_label \<longrightarrow>
            parse_destination net destination other request_host = None)
       \<and> (\<forall>c \<in> set (percent_encode p). unescaped c \<or> c = CHR ''%'')"
proof (intro conjI allI impI ballI)
  have "strip_prefix (''/dav/'' @ percent_encode share_label) (uri_path u) = Some (CHR ''/'' # percent_encode p)"
    by (simp add: assms(4))
  from parse_destination_remainder [OF assms(1-3) this]
  show "parse_destination net destination share_label request_host = Some p"
    using assms(5) trim_start_slash [OF encoded_first [OF assms(6)]]
    by (simp add: starts_with_def percent_decode_def decode_encode)
next
  fix other assume o: "CHR ''/'' \<notin> set other \<and> CHR ''/'' \<notin> set share_label \<and> other \<noteq> share_label"
  show "parse_destination net destination other request_host = None"
  proof (cases "strip_prefix (''/dav/'' @ percent_encode other) (uri_path u)")
    case None
    then show ?thesis using assms(1-3) by (simp add: parse_destination_def)
  next
    case (Some remainder)
    then have r: "percent_encode other @ remainder = percent_encode share_label @ ''/'' @ percent_encode p"
      by (simp add: assms(4))
    then have "\<not> (remainder = [] \<or> hd remainder = CHR ''/'')" using other_share_prefix [OF r] o by blast
    then show ?thesis using parse_destination_remainder [OF assms(1-3) Some] by (cases remainder) (auto simp: starts_with_def)
  qed
qed (rule percent_encode_chars)

definition sample_net :: "nat net_lib" where
  "sample_net = \<lparr>parse_authority = (\<lambda>s. Some \<lparr>au_text = s, au_host = s, au_port = None\<rparr>),
     parse_uri = (\<lambda>s. Some \<lparr>uri_scheme = None, uri_authority = None, uri_path = s, uri_query = None\<rparr>),
     parse_ip = (\<lambda>_. None), to_canonical = id\<rparr>"

theorem destination_roundtrip_witness:
  "parse_destination sample_net ''/dav/Team%20Files/a%20b.md'' ''Team Files'' None = Some ''a b.md''"
proof -
  have enc: "percent_encode ''Team Files'' = ''Team%20Files''" "percent_encode ''a b.md'' = ''a%20b.md''" "valid_utf8 ''a b.md''"
    by code_simp+
  let ?u = "\<lparr>uri_scheme = None, uri_authority = None, uri_path = ''/dav/Team%20Files/a%20b.md'', uri_query = None\<rparr>"
  have u: "parse_uri sample_net ''/dav/Team%20Files/a%20b.md'' = Some ?u" "uri_query ?u = None"
    "destination_authority_ok sample_net None ?u"
    "uri_path ?u = ''/dav/'' @ percent_encode ''Team Files'' @ ''/'' @ percent_encode ''a b.md''"
    unfolding enc by (simp_all add: sample_net_def destination_authority_ok_def)
  show ?thesis by (rule conjunct1 [OF destination_roundtrip [OF u enc(3)]]) simp
qed

text \<open>
  C23: a state-changing request that passes the host check and the origin check names this server as
  its host: the bound public host and port, or, without a binding, an allowed host, or localhost or a
  literal address on the server's port. And it is declared same-origin by the browser, or its origin is
  this server (the bound public address, or http or https on the very host it names), or it is not one
  that a browser sends for another site: it has no origin, no fetch metadata and no cookie of a
  session, a gate or a folder.
\<close>

theorem cross_origin_writes_refused:
  assumes "validate_request_host http net cfg headers = Inr ()" "csrf_request_allowed http cfg request_method headers"
    "request_method \<noteq> ''GET''" "request_method \<noteq> ''HEAD''" "request_method \<noteq> ''OPTIONS''"
    "bc_public_host cfg = None \<longleftrightarrow> bc_public_base_url cfg = None"
  shows "\<exists>host. headers ''host'' = [host]
    \<and> (case bc_public_host cfg of
         Some public_host \<Rightarrow>
           \<exists>expected actual. parse_authority net public_host = Some expected \<and> parse_authority net host = Some actual
             \<and> eq_ignore_ascii_case (au_host expected) (au_host actual)
             \<and> effective_port (if bc_secure_cookies cfg then 443 else 80) expected \<noteq> None
             \<and> effective_port (if bc_secure_cookies cfg then 443 else 80) expected = effective_port (if bc_secure_cookies cfg then 443 else 80) actual
       | None \<Rightarrow>
           to_ascii_lowercase host \<in> set (bc_allowed_hosts cfg)
           \<or> (\<exists>a. parse_authority net host = Some a
                \<and> (au_port a = Some (bc_port cfg) \<or> au_port a = None \<and> bc_port cfg = 80)
                \<and> (eq_ignore_ascii_case (au_host a) ''localhost'' \<or> parse_ip net (au_host a) \<noteq> None)))
    \<and> (first_text http headers ''sec-fetch-site'' = Some ''same-origin''
       \<or> (\<exists>origin. first_text http headers ''origin'' = Some origin
            \<and> (case bc_public_base_url cfg of Some url \<Rightarrow> origin = url | None \<Rightarrow> origin = ''http://'' @ host \<or> origin = ''https://'' @ host))
       \<or> headers ''origin'' = [] \<and> headers ''sec-fetch-site'' = []
          \<and> (\<forall>cookie. first_text http headers ''cookie'' = Some cookie \<longrightarrow>
               \<not> str_contains cookie ''session='' \<and> \<not> str_contains cookie ''gate_access='' \<and> \<not> str_contains cookie ''folder_key_''))"
proof -
  from assms(1) obtain host where host: "single_header http headers ''host'' = Inr host"
    by (auto simp: validate_request_host_def rbind_Inr_iff)
  then have h: "headers ''host'' = [host]" "first_text http headers ''host'' = Some host"
    by (auto simp: single_header_def first_text_def rbind_Inr_iff to_str_def split: list.splits if_splits)
  have named: "case bc_public_host cfg of
         Some public_host \<Rightarrow>
           \<exists>expected actual. parse_authority net public_host = Some expected \<and> parse_authority net host = Some actual
             \<and> eq_ignore_ascii_case (au_host expected) (au_host actual)
             \<and> effective_port (if bc_secure_cookies cfg then 443 else 80) expected \<noteq> None
             \<and> effective_port (if bc_secure_cookies cfg then 443 else 80) expected = effective_port (if bc_secure_cookies cfg then 443 else 80) actual
       | None \<Rightarrow>
           to_ascii_lowercase host \<in> set (bc_allowed_hosts cfg)
           \<or> (\<exists>a. parse_authority net host = Some a
                \<and> (au_port a = Some (bc_port cfg) \<or> au_port a = None \<and> bc_port cfg = 80)
                \<and> (eq_ignore_ascii_case (au_host a) ''localhost'' \<or> parse_ip net (au_host a) \<noteq> None))"
    using assms(1) host
    by (auto simp: validate_request_host_def rbind_Inr_iff same_authority_def split: if_splits option.splits)
  have "is_mutating request_method" using assms(3-5) by (simp add: is_mutating_def)
  then consider "first_text http headers ''sec-fetch-site'' = Some ''same-origin''" | "origin_matches http cfg headers"
    | "\<not> uses_cookie_auth http headers" "headers ''origin'' = []" "headers ''sec-fetch-site'' = []"
    using assms(2) by (auto simp: csrf_request_allowed_def split: if_splits)
  then show ?thesis
  proof cases
    case 2
    then show ?thesis using h named by (auto simp: origin_matches_def split: option.splits)
  next
    case 3
    then show ?thesis using h(1) named by (auto simp: uses_cookie_auth_def)
  qed (use h(1) named in blast)
qed

definition sample_http :: http_lib where
  "sample_http = \<lparr>header_value_ok = (\<lambda>_. True), header_text_ok = (\<lambda>_. True), parse_http_date = (\<lambda>_. None),
                  format_http_date = (\<lambda>_. None)\<rparr>"

definition sample_boundary :: "nat boundary_config" where
  "sample_boundary = \<lparr>bc_port = 80, bc_public_base_url = None, bc_public_host = None, bc_secure_cookies = False,
     bc_allowed_hosts = [''nas''], bc_trusted_proxy_ips = []\<rparr>"

definition sample_headers :: header_map where
  "sample_headers name = (if name = ''host'' then [''nas''] else if name = ''origin'' then [''http://nas''] else [])"

theorem cross_origin_writes_refused_witness:
  "csrf_request_allowed sample_http sample_boundary ''POST'' sample_headers
   \<and> (\<exists>host. sample_headers ''host'' = [host] \<and> to_ascii_lowercase host \<in> set (bc_allowed_hosts sample_boundary))"
proof -
  have checks: "validate_request_host sample_http sample_net sample_boundary sample_headers = Inr ()"
    "csrf_request_allowed sample_http sample_boundary ''POST'' sample_headers"
    by code_simp+
  have "\<exists>host. sample_headers ''host'' = [host]"
    using cross_origin_writes_refused [OF checks] by (auto simp: sample_boundary_def)
  then show ?thesis using checks(2) by (auto simp: sample_boundary_def sample_headers_def) code_simp
qed


end
