(* ===== verification/Totp.thy ===== *)
theory Totp
  imports AppError "HOL-Library.Word"
begin

text \<open>
  One-time passwords of the administrator (src/src/totp.rs): secrets in base 32, the codes of a
  time step, their verification, recovery codes, and the store of consumed steps. Secrets and
  digests are lists of 8-bit words and the shift registers are 32-bit words, as in the source. The
  keyed hash of the cryptography library is a parameter; a step that would panic on a short
  digest is \<open>None\<close>. Random bytes and clock readings are arguments. The drawing of the QR code is
  not modelled.
\<close>

unbundle bit_operations_syntax

type_synonym hmac = "8 word list \<Rightarrow> 8 word list \<Rightarrow> 8 word list"

definition STEP_SECONDS :: int where "STEP_SECONDS = 30"
definition DIGITS :: nat where "DIGITS = 6"
definition BASE32 :: str where "BASE32 = ''ABCDEFGHIJKLMNOPQRSTUVWXYZ234567''"
definition RECOVERY_ALPHABET :: str where "RECOVERY_ALPHABET = ''ABCDEFGHJKLMNPQRSTUVWXYZ23456789''"

section \<open>Base 32\<close>

text \<open>The inner loop of the encoder: digits leave the register while it holds five bits.\<close>

fun drain :: "32 word \<Rightarrow> nat \<Rightarrow> str \<times> nat" where
  "drain buffer bits =
     (if 5 \<le> bits
      then let bits = bits - 5;
               digit = BASE32 ! unat (drop_bit bits buffer AND 0x1F);
               (digits, left) = drain buffer bits
           in (digit # digits, left)
      else ([], bits))"

declare drain.simps [simp del]

fun encode_loop :: "32 word \<Rightarrow> nat \<Rightarrow> 8 word list \<Rightarrow> str" where
  "encode_loop buffer bits [] =
     (if 0 < bits then [BASE32 ! unat (push_bit (5 - bits) buffer AND 0x1F)] else [])"
| "encode_loop buffer bits (b # bs) =
     (let buffer = push_bit 8 buffer OR ucast b;
          (digits, left) = drain buffer (bits + 8)
      in digits @ encode_loop buffer left bs)"

definition encode_base32 :: "8 word list \<Rightarrow> str" where
  "encode_base32 bytes = encode_loop 0 0 bytes"

definition ascii_upper :: "char \<Rightarrow> char" where
  "ascii_upper c = (if is_ascii_lower c then char_of (byte c - 32) else c)"

fun position :: "char \<Rightarrow> str \<Rightarrow> nat option" where
  "position c [] = None"
| "position c (d # ds) = (if d = c then Some 0 else map_option Suc (position c ds))"

fun decode_base32_loop :: "32 word \<Rightarrow> nat \<Rightarrow> 8 word list \<Rightarrow> str \<Rightarrow> 8 word list app_result" where
  "decode_base32_loop buffer bits out [] = Inr out"
| "decode_base32_loop buffer bits out (c # cs) =
     (case position (ascii_upper c) BASE32 of
        None \<Rightarrow> Inl (BadRequest ''The format of the TOTP secret is invalid'')
      | Some index \<Rightarrow>
          let buffer = push_bit 5 buffer OR word_of_nat index; bits = bits + 5
          in if 8 \<le> bits
             then decode_base32_loop buffer (bits - 8) (out @ [ucast (drop_bit (bits - 8) buffer)]) cs
             else decode_base32_loop buffer bits out cs)"

definition decode_base32 :: "str \<Rightarrow> 8 word list app_result" where
  "decode_base32 v =
     (if v = [] \<or> CHR ''='' \<in> set v then Inl (BadRequest ''The format of the TOTP secret is invalid'')
      else decode_base32_loop 0 0 [] v)"

text \<open>
  A buffer that \<open>OsRng.fill_bytes\<close> fills is a function from positions to bytes; the caller's array
  says how many of them are used.
\<close>

type_synonym random_bytes = "nat \<Rightarrow> 8 word"

definition generate_secret :: "random_bytes \<Rightarrow> str" where
  "generate_secret random = encode_base32 (map random [0..<20])"

definition validate_secret :: "str \<Rightarrow> unit app_result" where
  "validate_secret secret =
     rbind (decode_base32 secret) (\<lambda>decoded.
       if 20 \<le> length decoded \<and> length decoded \<le> 64 then Inr ()
       else Inl (BadRequest ''The length of the TOTP secret is invalid''))"

section \<open>Codes\<close>

definition to_be_bytes :: "nat \<Rightarrow> 8 word list" where
  "to_be_bytes n = map (\<lambda>i. word_of_nat (n div 256 ^ i)) [7, 6, 5, 4, 3, 2, 1, 0]"

text \<open>\<open>{:06}\<close>\<close>

definition pad_digits :: "nat \<Rightarrow> str \<Rightarrow> str" where
  "pad_digits n s = replicate (n - length s) CHR ''0'' @ s"

definition totp_code :: "hmac \<Rightarrow> 8 word list \<Rightarrow> nat \<Rightarrow> str option" where
  "totp_code sign secret counter =
     (let digest = sign secret (to_be_bytes counter)
      in if digest = [] then None
         else let offset = unat (last digest AND 0x0F)
              in if length digest \<le> offset + 3 then None
                 else let binary = push_bit 24 (ucast (digest ! offset AND 0x7F) :: 32 word)
                                   OR push_bit 16 (ucast (digest ! (offset + 1)))
                                   OR push_bit 8 (ucast (digest ! (offset + 2)))
                                   OR ucast (digest ! (offset + 3))
                      in Some (pad_digits DIGITS (show_nat (unat binary mod 10 ^ DIGITS))))"

text \<open>The search over the neighbouring steps; a step before the epoch is passed over.\<close>

fun find_counter :: "hmac \<Rightarrow> 8 word list \<Rightarrow> str \<Rightarrow> int list \<Rightarrow> nat option option" where
  "find_counter sign secret supplied [] = Some None"
| "find_counter sign secret supplied (counter # counters) =
     (if counter < 0 then find_counter sign secret supplied counters
      else case totp_code sign secret (nat counter) of
             None \<Rightarrow> None
           | Some expected \<Rightarrow>
               if expected = supplied then Some (Some (nat counter))
               else find_counter sign secret supplied counters)"

definition verify_at_counter :: "hmac \<Rightarrow> str \<Rightarrow> str \<Rightarrow> int \<Rightarrow> nat option option" where
  "verify_at_counter sign secret supplied unix_seconds =
     (if length supplied \<noteq> DIGITS \<or> \<not> list_all is_ascii_digit supplied then Some None
      else case decode_base32 secret of
             Inl _ \<Rightarrow> Some None
           | Inr key \<Rightarrow>
               let counter = unix_seconds div STEP_SECONDS
               in find_counter sign key supplied [counter - 1, counter, counter + 1])"

definition verify_now_counter :: "hmac \<Rightarrow> str \<Rightarrow> str \<Rightarrow> int \<Rightarrow> nat option option" where
  "verify_now_counter sign secret supplied now = verify_at_counter sign secret (trim supplied) now"

definition verify_now :: "hmac \<Rightarrow> str \<Rightarrow> str \<Rightarrow> int \<Rightarrow> bool option" where
  "verify_now sign secret supplied now =
     map_option (\<lambda>counter. counter \<noteq> None) (verify_now_counter sign secret supplied now)"

definition current_counter :: "int \<Rightarrow> nat" where
  "current_counter now = (if now div STEP_SECONDS < 0 then 0 else nat (now div STEP_SECONDS))"

section \<open>Consumed steps\<close>

text \<open>\<open>consume\<close> reads the clock, forgets old steps and tells whether the step is new.\<close>

definition consume :: "int \<Rightarrow> nat \<Rightarrow> nat list \<Rightarrow> bool \<times> nat list" where
  "consume now counter consumed =
     (let kept = filter (\<lambda>v. current_counter now \<le> saturating_add v 2) consumed
      in if counter \<in> set kept then (False, kept) else (True, counter # kept))"

definition clear_replay :: "nat list \<Rightarrow> nat list" where
  "clear_replay consumed = []"

section \<open>Recovery codes and provisioning\<close>

definition recovery_code :: "random_bytes \<Rightarrow> str" where
  "recovery_code random =
     (let v = map (\<lambda>b. RECOVERY_ALPHABET ! (unat b mod length RECOVERY_ALPHABET)) (map random [0..<10])
      in take 5 v @ ''-'' @ drop 5 v)"

definition generate_recovery_codes :: "(nat \<Rightarrow> random_bytes) \<Rightarrow> nat \<Rightarrow> str list" where
  "generate_recovery_codes random count = map (\<lambda>i. recovery_code (random i)) [0..<count]"

definition normalize_recovery_code :: "str \<Rightarrow> str" where
  "normalize_recovery_code v = map ascii_upper (filter is_ascii_alphanumeric v)"

definition uri_unreserved :: "char \<Rightarrow> bool" where
  "uri_unreserved c \<longleftrightarrow> is_ascii_alphanumeric c \<or> c \<in> set ''-._~''"

definition upper_hex :: "nat \<Rightarrow> char" where
  "upper_hex n = (if n < 10 then char_of (48 + n) else char_of (55 + n))"

definition totp_percent_encode :: "str \<Rightarrow> str" where
  "totp_percent_encode v =
     concat (map (\<lambda>c. if uri_unreserved c then [c]
                      else [CHR ''%'', upper_hex (byte c div 16), upper_hex (byte c mod 16)]) v)"

definition provisioning_uri :: "str \<Rightarrow> str \<Rightarrow> str" where
  "provisioning_uri secret username =
     ''otpauth://totp/'' @ totp_percent_encode (''Ycloud:'' @ username) @ ''?secret='' @ secret
       @ ''&issuer=Ycloud&algorithm=SHA1&digits=6&period=30''"

section \<open>Base 32 reads back\<close>

text \<open>
  Both loops as operations on bit strings, most significant bit first. A register holds a string
  of bits when these are its lowest bits.
\<close>

definition holds :: "'a :: len word \<Rightarrow> bool list \<Rightarrow> bool" where
  "holds w p \<longleftrightarrow> (\<forall>i < length p. bit w i = rev p ! i)"

definition byte_bits :: "8 word \<Rightarrow> bool list" where
  "byte_bits b = rev (map (bit b) [0..<8])"

definition digit_of :: "bool list \<Rightarrow> 32 word" where
  "digit_of c = horner_sum of_bool 2 (rev c)"

fun fives :: "bool list \<Rightarrow> bool list list" where
  "fives xs = (if xs = [] then [] else if length xs \<le> 5 then [xs @ replicate (5 - length xs) False]
               else take 5 xs # fives (drop 5 xs))"

fun eights :: "bool list \<Rightarrow> bool list list" where
  "eights xs = (if length xs < 8 then [] else take 8 xs # eights (drop 8 xs))"

declare fives.simps [simp del] eights.simps [simp del]

lemma length_byte_bits [simp]: "length (byte_bits b) = 8"
  by (simp add: byte_bits_def)

lemma holds_Nil [simp]: "holds w []"
  by (simp add: holds_def)

lemma holds_push_or:
  fixes w x :: "'a :: len word"
  assumes "holds w p" "length p + length c \<le> LENGTH('a)" "holds x c" "\<forall>i \<ge> length c. \<not> bit x i"
  shows "holds (push_bit (length c) w OR x) (p @ c)"
  using assms by (auto simp: holds_def bit_simps nth_append possible_bit_def)

lemma holds_drop: "holds w (c @ p) \<Longrightarrow> holds (drop_bit (length p) w) c"
  by (auto simp: holds_def bit_simps nth_append)

lemma holds_tail: "holds w (c @ p) \<Longrightarrow> holds w p"
  by (auto simp: holds_def nth_append)

lemma holds_byte: "holds (ucast b :: 32 word) (byte_bits b)"
  by (auto simp: holds_def byte_bits_def bit_simps)

lemma holds_digit: "length c = 5 \<Longrightarrow> holds (digit_of c) c"
  by (auto simp: holds_def digit_of_def bit_horner_sum_bit_word_iff)

lemma digit_of_high: "length c \<le> i \<Longrightarrow> \<not> bit (digit_of c) i"
  by (simp add: digit_of_def bit_horner_sum_bit_word_iff)

lemma holds_low:
  assumes "holds w c" "length c = 5"
  shows "w AND 0x1F = digit_of c"
proof (rule bit_word_eqI)
  fix i assume "i < LENGTH(32)"
  have m: "(0x1F :: 32 word) = mask 5" by (simp add: mask_eq_exp_minus_1)
  show "bit (w AND 0x1F) i = bit (digit_of c) i"
    unfolding m using assms by (auto simp: holds_def bit_simps digit_of_def bit_horner_sum_bit_word_iff)
qed

lemma unat_digit_less:
  assumes "length c = 5" shows "unat (digit_of c) < 32"
proof -
  have "take_bit 5 (digit_of c) = digit_of c"
    using assms by (intro bit_word_eqI) (auto simp: bit_simps digit_of_def bit_horner_sum_bit_word_iff)
  then have "unat (digit_of c) = take_bit 5 (unat (digit_of c))" by (metis unsigned_take_bit_eq)
  also have "\<dots> < 2 ^ 5" by (rule take_bit_nat_less_exp)
  finally show ?thesis by simp
qed

abbreviation digit_char :: "bool list \<Rightarrow> char" where
  "digit_char c \<equiv> BASE32 ! unat (digit_of c)"

abbreviation byte_of :: "bool list \<Rightarrow> 8 word" where
  "byte_of y \<equiv> horner_sum of_bool 2 (rev y)"

lemma byte_of_bits [simp]: "byte_of (byte_bits b) = b"
  by (intro bit_word_eqI) (auto simp: byte_bits_def bit_horner_sum_bit_word_iff)

lemma holds_byte_of: "holds w y \<Longrightarrow> length y = 8 \<Longrightarrow> ucast (w :: 32 word) = byte_of y"
  by (intro bit_word_eqI) (auto simp: holds_def bit_simps bit_horner_sum_bit_word_iff)

lemma drain_spec:
  assumes "holds w p"
  shows "\<exists>ds q. p = concat ds @ q \<and> (\<forall>d \<in> set ds. length d = 5) \<and> length q < 5
           \<and> drain w (length p) = (map digit_char ds, length q)"
  using assms
proof (induction p rule: length_induct)
  case (1 p)
  show ?case
  proof (cases "5 \<le> length p")
    case False
    then show ?thesis by (intro exI [of _ "[]"] exI [of _ p]) (simp add: drain.simps)
  next
    case True
    let ?c = "take 5 p" and ?r = "drop 5 p"
    have h: "holds w (?c @ ?r)" using 1(2) by simp
    have "length ?r < length p" using True by simp
    with 1(1) holds_tail [OF h] obtain ds q where ih: "?r = concat ds @ q" "\<forall>d \<in> set ds. length d = 5"
      "length q < 5" "drain w (length ?r) = (map digit_char ds, length q)" by blast
    have "drop_bit (length ?r) w AND 0x1F = digit_of ?c"
      using True by (intro holds_low holds_drop [OF h]) simp
    with True ih(4) have "drain w (length p) = (map digit_char (?c # ds), length q)"
      by (subst drain.simps) (simp add: Let_def)
    moreover have "p = concat (?c # ds) @ q" using ih(1) by (metis append_take_drop_id concat.simps(2) append.assoc)
    ultimately show ?thesis using True ih(2,3) by (intro exI [of _ "?c # ds"] exI [of _ q]) auto
  qed
qed

lemma fives_full: "\<forall>d \<in> set ds. length d = 5 \<Longrightarrow> fives (concat ds @ q) = ds @ fives q"
proof (induction ds)
  case (Cons d ds)
  show ?case
  proof (cases "concat ds @ q = []")
    case True
    moreover from this Cons.prems have "ds = []" by (cases ds) auto
    ultimately show ?thesis using Cons.prems by (simp add: fives.simps [of d] fives.simps [of "[]"]) auto
  next
    case False
    with Cons show ?thesis by (subst fives.simps) auto
  qed
qed simp

lemma encode_loop_fives:
  "holds w p \<Longrightarrow> length p < 5 \<Longrightarrow>
   encode_loop w (length p) bs = map digit_char (fives (p @ concat (map byte_bits bs)))"
proof (induction bs arbitrary: w p)
  case Nil
  let ?z = "replicate (5 - length p) False"
  have "holds (push_bit (length ?z) w OR 0) (p @ ?z)"
    using Nil by (intro holds_push_or) (auto simp: holds_def)
  then have "push_bit (5 - length p) w AND 0x1F = digit_of (p @ ?z)"
    using Nil by (intro holds_low) auto
  then show ?case using Nil by (auto simp: fives.simps)
next
  case (Cons b bs)
  let ?w = "push_bit 8 w OR ucast b"
  have "holds (push_bit (length (byte_bits b)) w OR ucast b) (p @ byte_bits b)"
    using Cons.prems by (intro holds_push_or holds_byte) (auto simp: bit_ucast_iff dest: bit_imp_le_length)
  then have h: "holds ?w (p @ byte_bits b)" by simp
  from drain_spec [OF this] obtain ds q where d: "p @ byte_bits b = concat ds @ q" "\<forall>d \<in> set ds. length d = 5"
    "length q < 5" "drain ?w (length p + 8) = (map digit_char ds, length q)" by auto
  have "holds ?w q" using h unfolding d(1) by (rule holds_tail)
  from Cons.IH [OF this d(3)] d
  have "encode_loop w (length p) (b # bs) = map digit_char (ds @ fives (q @ concat (map byte_bits bs)))"
    by (simp add: Let_def)
  also have "ds @ fives (q @ concat (map byte_bits bs)) = fives ((p @ byte_bits b) @ concat (map byte_bits bs))"
    unfolding d(1) using fives_full [OF d(2)] by simp
  finally show ?case by simp
qed


lemma digit_position:
  assumes "length c = 5" shows "position (ascii_upper (digit_char c)) BASE32 = Some (unat (digit_of c))"
proof -
  have "list_all (\<lambda>n. position (ascii_upper (BASE32 ! n)) BASE32 = Some n) [0..<32]" by code_simp
  then show ?thesis using unat_digit_less [OF assms] by (simp add: list_all_iff)
qed

lemma eights_first: "length xs = 8 \<Longrightarrow> eights (xs @ ys) = xs # eights ys"
  by (subst eights.simps) simp

lemma eights_short: "length xs < 8 \<Longrightarrow> eights xs = []"
  by (subst eights.simps) simp

lemma decode_loop_eights:
  "holds w q \<Longrightarrow> length q < 8 \<Longrightarrow> \<forall>d \<in> set ds. length d = 5 \<Longrightarrow>
   decode_base32_loop w (length q) out (map digit_char ds) = Inr (out @ map byte_of (eights (q @ concat ds)))"
proof (induction ds arbitrary: w q out)
  case Nil
  then show ?case by (simp add: eights_short)
next
  case (Cons d ds)
  let ?w = "push_bit 5 w OR digit_of d"
  have d: "length d = 5" using Cons.prems by simp
  have "holds (push_bit (length d) w OR digit_of d) (q @ d)"
    using Cons.prems d by (intro holds_push_or holds_digit) (auto simp: digit_of_high)
  then have h: "holds ?w (q @ d)" using d by simp
  show ?case
  proof (cases "8 \<le> length q + 5")
    case False
    then show ?thesis using Cons.IH [OF h, of out] Cons.prems d by (simp add: digit_position Let_def)
  next
    case True
    let ?y = "take 8 (q @ d)" and ?r = "drop 8 (q @ d)"
    have s: "q @ d = ?y @ ?r" by (rule append_take_drop_id [symmetric])
    have y: "length ?y = 8" and r: "length ?r = length q + 5 - 8" using True d by simp_all
    have "eights (q @ concat (d # ds)) = eights (?y @ ?r @ concat ds)" by (metis append.assoc concat.simps(2) s)
    then have e: "eights (q @ concat (d # ds)) = ?y # eights (?r @ concat ds)" by (simp only: eights_first [OF y])
    have h': "holds ?w (?y @ ?r)" using h by (simp only: append_take_drop_id)
    have b: "ucast (drop_bit (length q + 5 - 8) ?w) = byte_of ?y"
      using holds_byte_of [OF holds_drop [OF h'] y] by (simp only: r)
    have "length ?r < 8" using Cons.prems(2) r by simp
    from Cons.IH [OF holds_tail [OF h'] this, of "out @ [byte_of ?y]"] Cons.prems True d
    show ?thesis unfolding e by (simp add: digit_position Let_def b [simplified] r)
  qed
qed

lemma concat_fives: "\<exists>k < 5. concat (fives xs) = xs @ replicate k False"
proof (induction xs rule: fives.induct)
  case (1 xs)
  consider "xs = []" | "xs \<noteq> []" "length xs \<le> 5" | "xs \<noteq> []" "5 < length xs" by linarith
  then show ?case
  proof cases
    case 3
    with 1 obtain k where k: "k < 5" "concat (fives (drop 5 xs)) = drop 5 xs @ replicate k False" by auto
    have "fives xs = take 5 xs # fives (drop 5 xs)" using 3 by (subst fives.simps) simp
    then have "concat (fives xs) = (take 5 xs @ drop 5 xs) @ replicate k False" by (simp only: concat.simps k append.assoc)
    then show ?thesis using k(1) by (auto simp only: append_take_drop_id)
  next
    case 2
    then show ?thesis by (intro exI [of _ "5 - length xs"]) (auto simp: fives.simps)
  qed (auto simp: fives.simps [of "[]"])
qed

lemma length_fives: "d \<in> set (fives xs) \<Longrightarrow> length d = 5"
proof (induction xs rule: fives.induct)
  case (1 xs)
  then show ?case by (subst (asm) (2) fives.simps) (auto split: if_splits)
qed

lemma eights_bytes: "k < 8 \<Longrightarrow> eights (concat (map byte_bits bs) @ replicate k False) = map byte_bits bs"
  by (induction bs) (simp_all add: eights_short eights_first)

lemma fives_Nil_iff: "fives xs = [] \<longleftrightarrow> xs = []"
  by (subst fives.simps) simp

lemma decode_encode_base32:
  assumes "bs \<noteq> []" shows "decode_base32 (encode_base32 bs) = Inr bs"
proof -
  let ?ds = "fives (concat (map byte_bits bs))"
  have e: "encode_base32 bs = map digit_char ?ds"
    using encode_loop_fives [of 0 "[]" bs] by (simp add: encode_base32_def)
  have "byte_bits (hd bs) \<noteq> []" by (metis length_byte_bits list.size(3) zero_neq_numeral)
  then have "concat (map byte_bits bs) \<noteq> []" using assms by (cases bs) auto
  then have ne: "encode_base32 bs \<noteq> []" by (simp add: e fives_Nil_iff)
  have "list_all (\<lambda>n. BASE32 ! n \<noteq> CHR ''='') [0..<32]" by code_simp
  then have "digit_char d \<noteq> CHR ''=''" if "d \<in> set ?ds" for d
    using unat_digit_less [OF length_fives [OF that]] by (simp add: list_all_iff)
  then have pad: "CHR ''='' \<notin> set (encode_base32 bs)" unfolding e by force
  obtain k where k: "k < 5" "concat ?ds = concat (map byte_bits bs) @ replicate k False"
    using concat_fives by blast
  have "decode_base32_loop 0 0 [] (encode_base32 bs) = Inr (map byte_of (eights (concat ?ds)))"
    unfolding e using decode_loop_eights [of 0 "[]" ?ds "[]"] length_fives by simp
  also have "map byte_of (eights (concat ?ds)) = bs"
    using k eights_bytes [of k bs] by (simp add: o_def)
  finally show ?thesis using ne pad by (simp add: decode_base32_def)
qed


section \<open>Codes\<close>

text \<open>An HMAC over SHA-1 has twenty bytes.\<close>

definition sha1_digests :: "hmac \<Rightarrow> bool" where
  "sha1_digests sign \<longleftrightarrow> (\<forall>key m. length (sign key m) = 20)"

lemma low_nibble: "unat (w AND 0x0F) < 16" for w :: "8 word"
proof -
  have "w AND 0x0F = take_bit 4 w" by (simp add: take_bit_eq_mask mask_eq_exp_minus_1)
  then have "unat (w AND 0x0F) = take_bit 4 (unat w)" by (simp add: unsigned_take_bit_eq)
  then show ?thesis using take_bit_nat_less_exp [of 4 "unat w"] by simp
qed

lemma length_show_nat: "n < 10 ^ k \<Longrightarrow> 0 < k \<Longrightarrow> length (show_nat n) \<le> k"
proof (induction n arbitrary: k rule: show_nat.induct)
  case (1 n)
  show ?case
  proof (cases "n < 10")
    case False
    with 1(2) have "1 < k" by (metis less_one linorder_neqE_nat not_less_eq One_nat_def power_one_right 1(3) Suc_lessI)
    then obtain j where j: "k = Suc j" "0 < j" by (metis Suc_diff_1 1(3) One_nat_def Suc_lessE)
    have "n div 10 < 10 ^ j" using 1(2) j by (simp add: less_mult_imp_div_less mult.commute)
    from 1(1) [OF False this j(2)] False j show ?thesis by (subst show_nat.simps) simp
  qed (use 1(3) in \<open>simp add: show_nat.simps [of n]\<close>)
qed

lemma totp_code_shape:
  assumes "sha1_digests sign"
  obtains supplied where "totp_code sign key counter = Some supplied" "length supplied = DIGITS" "list_all is_ascii_digit supplied"
proof -
  let ?d = "sign key (to_be_bytes counter)"
  have l: "length ?d = 20" using assms by (simp add: sha1_digests_def)
  have o: "unat (last ?d AND 0x0F) + 3 < 20" using low_nibble [of "last ?d"] by simp
  obtain n where n: "totp_code sign key counter = Some (pad_digits DIGITS (show_nat (n mod 10 ^ DIGITS)))"
    using l o that by (fastforce simp: totp_code_def Let_def)
  have "length (show_nat (n mod 10 ^ DIGITS)) \<le> DIGITS" by (rule length_show_nat) (simp_all add: DIGITS_def)
  moreover have "list_all is_ascii_digit (show_nat (n mod 10 ^ DIGITS))"
    using show_nat_digits by (auto simp: list_all_iff)
  moreover have "is_ascii_digit CHR ''0''" by code_simp
  ultimately show thesis by (intro that [OF n]) (auto simp: pad_digits_def list_all_iff)
qed

lemma find_counter_total:
  assumes "sha1_digests sign"
  shows "\<exists>r. find_counter sign key supplied cs = Some r
           \<and> (case r of
                Some c \<Rightarrow> int c \<in> set cs \<and> totp_code sign key c = Some supplied
              | None \<Rightarrow> \<forall>c. int c \<in> set cs \<longrightarrow> totp_code sign key c \<noteq> Some supplied)"
proof (induction cs)
  case (Cons c cs)
  obtain s where s: "totp_code sign key (nat c) = Some s" using totp_code_shape [OF assms] by metis
  from Cons obtain r where r: "find_counter sign key supplied cs = Some r" "case r of
      Some c \<Rightarrow> int c \<in> set cs \<and> totp_code sign key c = Some supplied
    | None \<Rightarrow> \<forall>c. int c \<in> set cs \<longrightarrow> totp_code sign key c \<noteq> Some supplied" by blast
  consider "c < 0" | "0 \<le> c" "s = supplied" | "0 \<le> c" "s \<noteq> supplied" by linarith
  then show ?case
  proof cases
    case 1
    then show ?thesis using r by (intro exI [of _ r]) (auto split: option.splits)
  next
    case 2
    then show ?thesis using s by (intro exI [of _ "Some (nat c)"]) simp
  next
    case 3
    then show ?thesis using r s by (intro exI [of _ r]) (auto split: option.splits)
  qed
qed simp

section \<open>Steps are consumed once\<close>

lemma consume_accepts: "consume now c s = (ok, s') \<Longrightarrow> c \<in> set s' \<and> (ok \<longleftrightarrow> c \<notin> set s \<or> saturating_add c 2 < current_counter now)"
  by (auto simp: consume_def Let_def split: if_splits)

lemma current_counter_mono: "a \<le> b \<Longrightarrow> current_counter a \<le> current_counter b"
  by (auto simp: current_counter_def STEP_SECONDS_def intro: nat_mono zdiv_mono1)

lemma consume_keeps:
  "consume now d s = (ok, s') \<Longrightarrow> c \<in> set s \<Longrightarrow> current_counter now \<le> saturating_add c 2 \<Longrightarrow> c \<in> set s'"
  by (auto simp: consume_def Let_def split: if_splits)

definition consume_all :: "(int \<times> nat) list \<Rightarrow> nat list \<Rightarrow> nat list" where
  "consume_all calls s = foldl (\<lambda>s (now, c). snd (consume now c s)) s calls"

lemma consume_all_keeps:
  assumes "c \<in> set s" "\<forall>(now, _) \<in> set calls. current_counter now \<le> saturating_add c 2"
  shows "c \<in> set (consume_all calls s)"
  using assms unfolding consume_all_def
proof (induction calls arbitrary: s)
  case (Cons call calls)
  obtain now d ok s' where call: "call = (now, d)" "consume now d s = (ok, s')" by (metis surj_pair)
  with Cons show ?case using consume_keeps [OF call(2), of c] by simp
qed simp


section \<open>Properties\<close>

text \<open>
  C37: a secret of at least one byte reads back from its base-32 text, a text made from 20 to 64
  bytes is accepted as a secret, and so is every generated one, whatever the random bytes. The shift registers of both loops are 32-bit words that
  lose their upper bits on the way.
\<close>

theorem base32_roundtrip:
  assumes "bs \<noteq> []"
  shows "decode_base32 (encode_base32 bs) = Inr bs
       \<and> (20 \<le> length bs \<and> length bs \<le> 64 \<longrightarrow> validate_secret (encode_base32 bs) = Inr ())
       \<and> validate_secret (generate_secret random) = Inr ()"
  using decode_encode_base32 [OF assms] decode_encode_base32 [of "map random [0..<20]"]
  by (simp add: validate_secret_def generate_secret_def del: upt_conv_Cons)

theorem base32_roundtrip_witness:
  "encode_base32 [72, 105, 33, 255, 0, 7] = ''JBUSD7YAA4'' \<and> decode_base32 ''JBUSD7YAA4'' = Inr [72, 105, 33, 255, 0, 7]"
proof -
  have e: "encode_base32 [72, 105, 33, 255, 0, 7] = ''JBUSD7YAA4''" by code_simp
  then show ?thesis using base32_roundtrip [of "[72, 105, 33, 255, 0, 7]"] by simp
qed

text \<open>
  Verification returns, and accepts a text exactly when it is the code of the current time
  step or of one of its neighbours; the step it reports is the one the code belongs to.
\<close>

lemma totp_window:
  assumes "sha1_digests sign" "decode_base32 secret = Inr key"
  shows "\<exists>r. verify_at_counter sign secret supplied now = Some r
           \<and> (r = None \<longleftrightarrow> (\<forall>c. \<bar>int c - now div 30\<bar> \<le> 1 \<longrightarrow> totp_code sign key c \<noteq> Some supplied))
           \<and> (\<forall>c. r = Some c \<longrightarrow> \<bar>int c - now div 30\<bar> \<le> 1 \<and> totp_code sign key c = Some supplied)"
proof (cases "length supplied \<noteq> DIGITS \<or> \<not> list_all is_ascii_digit supplied")
  case True
  then have "totp_code sign key c \<noteq> Some supplied" for c
    by - (rule totp_code_shape [OF assms(1), of key c], auto)
  with True show ?thesis by (simp add: verify_at_counter_def)
next
  case False
  let ?n = "now div 30"
  have win: "int c \<in> set [?n - 1, ?n, ?n + 1] \<longleftrightarrow> \<bar>int c - ?n\<bar> \<le> 1" for c by auto
  obtain r where r: "find_counter sign key supplied [?n - 1, ?n, ?n + 1] = Some r"
    "case r of Some c \<Rightarrow> int c \<in> set [?n - 1, ?n, ?n + 1] \<and> totp_code sign key c = Some supplied
     | None \<Rightarrow> \<forall>c. int c \<in> set [?n - 1, ?n, ?n + 1] \<longrightarrow> totp_code sign key c \<noteq> Some supplied"
    using find_counter_total [OF assms(1)] by blast
  then show ?thesis
    using False assms(2) unfolding win
    by (intro exI [of _ r]) (auto simp: verify_at_counter_def STEP_SECONDS_def Let_def split: option.splits)
qed

definition sample_sign :: hmac where
  "sample_sign key m = replicate 20 0"

lemma totp_window_witness:
  "sha1_digests sample_sign \<and> totp_code sample_sign [0] 2 = Some ''000000''
   \<and> (\<exists>c. verify_at_counter sample_sign ''AA'' ''000000'' 60 = Some (Some c) \<and> \<bar>int c - 60 div 30\<bar> \<le> 1)"
proof -
  have s: "sha1_digests sample_sign" by (simp add: sha1_digests_def sample_sign_def)
  have d: "decode_base32 ''AA'' = Inr [0]" by code_simp
  have n: "replicate 20 (0 :: 8 word) = replicate 19 0 @ [0]" by (simp add: eval_nat_numeral)
  have c: "totp_code sample_sign [0] 2 = Some ''000000''"
    by (simp add: totp_code_def sample_sign_def n nth_append Let_def pad_digits_def DIGITS_def show_nat.simps) code_simp
  show ?thesis using s c totp_window [OF s d, of "''000000''" 60] by force
qed

text \<open>
  C38: a time step is consumed once: after it was accepted, it is refused for as long as its code
  can still be verified, whatever other steps are consumed in between, on a clock that does not
  go back.
\<close>

theorem totp_step_single_use:
  assumes "consume now c s = (True, s')" "\<forall>(t, _) \<in> set calls. t \<le> later"
    "current_counter later \<le> saturating_add c 2"
  shows "\<not> fst (consume later c (consume_all calls s'))"
proof -
  have "\<forall>(t, _) \<in> set calls. current_counter t \<le> saturating_add c 2"
    using assms(2,3) current_counter_mono by fastforce
  then have k: "c \<in> set (consume_all calls s')"
    using consume_accepts [OF assms(1)] by (intro consume_all_keeps) auto
  obtain ok s2 where ok: "consume later c (consume_all calls s') = (ok, s2)" by force
  show ?thesis using consume_accepts [OF ok] k assms(3) ok by auto
qed

theorem totp_step_single_use_witness:
  "consume 60 2 [] = (True, [2]) \<and> \<not> fst (consume 100 2 (consume_all [(80, 3), (90, 1)] [2]))"
proof -
  have c: "consume 60 2 [] = (True, [2])" by (simp add: consume_def current_counter_def STEP_SECONDS_def)
  show ?thesis
    using c totp_step_single_use [OF c, of "[(80, 3), (90, 1)]" 100]
    by (simp add: current_counter_def STEP_SECONDS_def saturating_add_def u64_max_def)
qed

end
