(* ===== verification/Configuration.thy ===== *)
theory Configuration
  imports HttpBoundary Traffic Totp
begin

text \<open>
  The configuration of the server and its validation (src/src/config/model.rs,
  src/src/config/validation.rs and the endpoint rules of src/src/config/runtime.rs). A
  configuration is accepted only as a whole: every update and every load passes \<open>validate\<close>.

  The parser of password hashes, Unicode lower-casing and the parsers of URIs and addresses
  belong to libraries and are parameters. The sets a loop collects are lists. Result texts written
  in Chinese in the source are rendered in English.
\<close>

section \<open>The configuration\<close>

record 'ip config_file = access_config +
  cf_traffic :: traffic_settings
  cf_domain_binding :: "'ip domain_binding option"
  cf_schema_version :: nat
  cf_pending_storage_instance :: "storage_instance option"
  cf_admin_username :: str
  cf_admin_password_hash :: str
  cf_admin_totp_secret :: "str option"
  cf_admin_recovery_code_hashes :: "str list"
  cf_global_web_password_hash :: "str option"
  cf_shares :: "share list"
  cf_max_upload_bytes :: nat
  cf_max_upload_batch_bytes :: nat
  cf_max_upload_batch_entries :: nat
  cf_upload_file_concurrency :: nat
  cf_max_archive_bytes :: nat
  cf_max_archive_entries :: nat
  cf_admin_login_failures :: nat
  cf_web_login_failures :: nat
  cf_admin_login_block_seconds :: nat
  cf_web_login_block_seconds :: nat
  cf_upload_rate_bytes_per_sec :: nat
  cf_download_rate_bytes_per_sec :: nat
  cf_security_log_retention_days :: nat
  cf_security_log_max_entries :: nat

definition CONFIG_SCHEMA_VERSION :: nat where "CONFIG_SCHEMA_VERSION = 17"
definition MAX_STORAGE_INSTANCES :: nat where "MAX_STORAGE_INSTANCES = 16"
definition MAX_USER_ACCOUNTS :: nat where "MAX_USER_ACCOUNTS = 100"
definition MAX_UPLOAD_FILE_CONCURRENCY :: nat where "MAX_UPLOAD_FILE_CONCURRENCY = 32"
definition MIN_TRANSFER_BYTES :: nat where "MIN_TRANSFER_BYTES = 1024 * 1024"
definition HARD_MAX_UPLOAD_BYTES :: nat where "HARD_MAX_UPLOAD_BYTES = 4 * 1024 * 1024 * 1024 * 1024 * 1024"
definition HARD_MAX_UPLOAD_BATCH_BYTES :: nat where "HARD_MAX_UPLOAD_BATCH_BYTES = HARD_MAX_UPLOAD_BYTES"
definition HARD_MAX_UPLOAD_BATCH_ENTRIES :: nat where "HARD_MAX_UPLOAD_BATCH_ENTRIES = 10000"
definition HARD_MAX_ARCHIVE_BYTES :: nat where "HARD_MAX_ARCHIVE_BYTES = HARD_MAX_UPLOAD_BYTES"
definition HARD_MAX_ARCHIVE_ENTRIES :: nat where "HARD_MAX_ARCHIVE_ENTRIES = 1000000"
definition HARD_MAX_TRANSFER_RATE_BYTES :: nat where "HARD_MAX_TRANSFER_RATE_BYTES = 1024 * 1024 * 1024"
definition MIN_TRANSFER_RATE_BYTES :: nat where "MIN_TRANSFER_RATE_BYTES = 64 * 1024"
definition MIN_STORAGE_CAPACITY_BYTES :: nat where "MIN_STORAGE_CAPACITY_BYTES = 1024 * 1024"
definition HARD_MAX_STORAGE_CAPACITY_BYTES :: nat where
  "HARD_MAX_STORAGE_CAPACITY_BYTES = 4 * 1024 * 1024 * 1024 * 1024 * 1024"

definition with_credentials_config :: "str \<Rightarrow> str \<Rightarrow> str option \<Rightarrow> 'ip config_file" where
  "with_credentials_config username password_hash web_password_hash =
     \<lparr>storage_instances = [], user_accounts = [], folder_locks = [],
      cf_traffic = default_settings, cf_domain_binding = None, cf_schema_version = CONFIG_SCHEMA_VERSION,
      cf_pending_storage_instance = None, cf_admin_username = username,
      cf_admin_password_hash = password_hash, cf_admin_totp_secret = None,
      cf_admin_recovery_code_hashes = [], cf_global_web_password_hash = web_password_hash, cf_shares = [],
      cf_max_upload_bytes = 5 * 1024 * 1024 * 1024, cf_max_upload_batch_bytes = 20 * 1024 * 1024 * 1024,
      cf_max_upload_batch_entries = 1000, cf_upload_file_concurrency = 4,
      cf_max_archive_bytes = 3 * 1024 * 1024 * 1024, cf_max_archive_entries = 1000,
      cf_admin_login_failures = 3, cf_web_login_failures = 5, cf_admin_login_block_seconds = 60 * 60,
      cf_web_login_block_seconds = 60 * 60, cf_upload_rate_bytes_per_sec = 0,
      cf_download_rate_bytes_per_sec = 0, cf_security_log_retention_days = 7,
      cf_security_log_max_entries = 5000\<rparr>"

definition capacity_limit_bytes :: "storage_backend_config \<Rightarrow> nat option" where
  "capacity_limit_bytes backend =
     (case backend of
        LocalBackend settings \<Rightarrow> lsc_capacity_limit_bytes settings
      | S3Backend settings \<Rightarrow> s3_capacity_limit_bytes settings)"

text \<open>What the validation uses of libraries.\<close>

record 'ip config_check =
  hash_ok :: "str \<Rightarrow> bool"
  unicode_lower :: "str \<Rightarrow> str"
  check_net :: "'ip net_lib"

section \<open>Limits\<close>

definition validate_login_security_settings :: "nat \<Rightarrow> nat \<Rightarrow> nat \<Rightarrow> nat \<Rightarrow> nat \<Rightarrow> nat \<Rightarrow> unit app_result" where
  "validate_login_security_settings admin_failures web_failures admin_block web_block days entries =
     rbind (ensure (3 \<le> admin_failures \<and> admin_failures \<le> 10)
              (BadRequest ''The failures of an administrator login must be 3 to 10'')) (\<lambda>_.
     rbind (ensure (3 \<le> web_failures \<and> web_failures \<le> 20)
              (BadRequest ''The failures of a home page login must be 3 to 20'')) (\<lambda>_.
     rbind (ensure (5 * 60 \<le> admin_block \<and> admin_block \<le> 24 * 60 * 60 \<and> 5 * 60 \<le> web_block \<and> web_block \<le> 24 * 60 * 60)
              (BadRequest ''A login block must last 5 minutes to 24 hours'')) (\<lambda>_.
     rbind (ensure (days \<in> {1, 3, 5, 7, 15, 30})
              (BadRequest ''The log is kept for 1, 3, 5, 7, 15 or 30 days'')) (\<lambda>_.
       ensure (500 \<le> entries \<and> entries \<le> 20000)
         (BadRequest ''The log holds 500 to 20000 entries'')))))"

definition validate_transfer_rate :: "nat \<Rightarrow> str \<Rightarrow> unit app_result" where
  "validate_transfer_rate rate label =
     ensure (rate = 0 \<or> MIN_TRANSFER_RATE_BYTES \<le> rate \<and> rate \<le> HARD_MAX_TRANSFER_RATE_BYTES)
       (BadRequest (label @ '' rate must be 0, or 64 KiB/s to 1 GiB/s''))"

definition validate_transfer_limits :: "nat \<Rightarrow> nat \<Rightarrow> nat \<Rightarrow> nat \<Rightarrow> nat \<Rightarrow> unit app_result" where
  "validate_transfer_limits upload batch_bytes batch_entries archive_bytes archive_entries =
     rbind (ensure (MIN_TRANSFER_BYTES \<le> upload \<and> upload \<le> HARD_MAX_UPLOAD_BYTES)
              (BadRequest ''The upload limit is out of the supported range'')) (\<lambda>_.
     rbind (ensure (MIN_TRANSFER_BYTES \<le> batch_bytes \<and> batch_bytes \<le> HARD_MAX_UPLOAD_BATCH_BYTES \<and> upload \<le> batch_bytes)
              (BadRequest ''The batch limit must not be below the file limit'')) (\<lambda>_.
     rbind (ensure (1 \<le> batch_entries \<and> batch_entries \<le> HARD_MAX_UPLOAD_BATCH_ENTRIES)
              (BadRequest ''The number of batch entries is out of the supported range'')) (\<lambda>_.
     rbind (ensure (MIN_TRANSFER_BYTES \<le> archive_bytes \<and> archive_bytes \<le> HARD_MAX_ARCHIVE_BYTES)
              (BadRequest ''The archive limit is out of the supported range'')) (\<lambda>_.
       ensure (1 \<le> archive_entries \<and> archive_entries \<le> HARD_MAX_ARCHIVE_ENTRIES)
         (BadRequest ''The number of archive entries is out of the supported range'')))))"

section \<open>Storages\<close>

definition is_id_char :: "char \<Rightarrow> bool" where
  "is_id_char c \<longleftrightarrow> is_ascii_alphanumeric c \<or> c = CHR ''-'' \<or> c = CHR ''_''"

definition validate_storage_id :: "str \<Rightarrow> unit app_result" where
  "validate_storage_id storage_id =
     ensure (storage_id \<noteq> [] \<and> length storage_id \<le> 64 \<and> list_all is_id_char storage_id)
       (BadRequest ''The storage ID is invalid'')"

definition validate_storage_reference :: "str \<Rightarrow> str list \<Rightarrow> unit app_result" where
  "validate_storage_reference storage_id known_ids =
     rbind (validate_storage_id storage_id) (\<lambda>_.
       ensure (storage_id \<in> set known_ids) (BadRequest ''The configuration refers to an unknown storage''))"

definition normalize_s3_endpoint :: "'ip net_lib \<Rightarrow> str \<Rightarrow> str app_result" where
  "normalize_s3_endpoint net endpoint =
     rbind (ok_or (parse_uri net endpoint) (BadRequest ''The S3 endpoint is invalid'')) (\<lambda>u.
     rbind (ok_or (uri_scheme u) (BadRequest ''The S3 endpoint must have a scheme'')) (\<lambda>scheme.
     rbind (ok_or (uri_authority u) (BadRequest ''The S3 endpoint has no host'')) (\<lambda>a.
       if scheme \<notin> {''http'', ''https''} \<or> uri_path u \<notin> {[], ''/''} \<or> uri_query u \<noteq> None
          \<or> CHR ''@'' \<in> set (au_text a) \<or> CHR ''#'' \<in> set endpoint
          \<or> \<not> ends_with (au_text a) '']''
            \<and> (case rsplit_once CHR '':'' (au_text a) of
                  Some (_, port) \<Rightarrow> parse_unsigned 65535 port = None | None \<Rightarrow> False)
       then Inl (BadRequest ''The S3 endpoint must be an address without credentials, path and query'')
       else Inr (to_ascii_lowercase scheme @ ''://'' @ to_ascii_lowercase (au_text a)))))"

definition s3_endpoint_identity :: "'ip net_lib \<Rightarrow> str \<Rightarrow> (str \<times> str \<times> nat) app_result" where
  "s3_endpoint_identity net endpoint =
     rbind (ok_or (parse_uri net endpoint) (BadRequest ''The S3 endpoint is invalid'')) (\<lambda>u.
     rbind (ok_or (map_option to_ascii_lowercase (uri_scheme u)) (BadRequest ''The S3 endpoint has no scheme'')) (\<lambda>scheme.
     rbind (ok_or (uri_authority u) (BadRequest ''The S3 endpoint has no host'')) (\<lambda>a.
       Inr (scheme, to_ascii_lowercase (au_host a),
            case au_port a of Some p \<Rightarrow> p | None \<Rightarrow> if scheme = ''https'' then 443 else 80))))"

definition s3_prefixes_overlap :: "str \<Rightarrow> str \<Rightarrow> bool" where
  "s3_prefixes_overlap left right \<longleftrightarrow> left = [] \<or> right = [] \<or> starts_with left right \<or> starts_with right left"

definition ensure_s3_namespace_available ::
  "'ip net_lib \<Rightarrow> s3_storage_config \<Rightarrow> s3_storage_config list \<Rightarrow> unit app_result" where
  "ensure_s3_namespace_available net candidate configured =
     rbind (s3_endpoint_identity net (s3_endpoint candidate)) (\<lambda>identity.
       ensure (\<not> list_ex (\<lambda>existing.
                  s3_bucket existing = s3_bucket candidate
                  \<and> s3_endpoint_identity net (s3_endpoint existing) = Inr identity
                  \<and> s3_prefixes_overlap (s3_prefix existing) (s3_prefix candidate)) configured)
         (Conflict ''Storages of one S3 bucket must not have overlapping prefixes''))"

definition validate_s3_bucket :: "'ip net_lib \<Rightarrow> str \<Rightarrow> unit app_result" where
  "validate_s3_bucket net bucket =
     ensure (3 \<le> length bucket \<and> length bucket \<le> 63 \<and> is_ascii_alphanumeric (hd bucket)
             \<and> is_ascii_alphanumeric (last bucket)
             \<and> list_all (\<lambda>c. is_ascii_lower c \<or> is_ascii_digit c \<or> c = CHR ''.'' \<or> c = CHR ''-'') bucket
             \<and> \<not> str_contains bucket ''..'' \<and> \<not> str_contains bucket ''.-'' \<and> \<not> str_contains bucket ''-.''
             \<and> parse_ip net bucket = None)
       (BadRequest ''The S3 bucket must have a DNS compatible name of 3 to 63 characters'')"

definition validate_s3_prefix :: "str \<Rightarrow> unit app_result" where
  "validate_s3_prefix prfx =
     ensure (\<not> (1024 < length prfx \<or> starts_with prfx ''/'' \<or> str_contains prfx ''//'' \<or> CHR 0x5C \<in> set prfx
                \<or> CHR 0x00 \<in> set prfx \<or> list_ex is_control (chars prfx)
                \<or> prfx \<noteq> [] \<and> \<not> ends_with prfx ''/''
                \<or> list_ex (\<lambda>c. c = ''.'' \<or> c = ''..'') (split_on CHR ''/'' (trim_end_matches CHR ''/'' prfx))))
       (BadRequest ''The S3 prefix must be empty or a safe relative path that ends with a slash'')"

text \<open>The official endpoints of the two cloud providers.\<close>

definition provider_endpoint_ok :: "s3_storage_config \<Rightarrow> str \<Rightarrow> str \<Rightarrow> bool \<Rightarrow> unit app_result" where
  "provider_endpoint_ok s scheme host default_port =
     (case s3_provider s of
        AlibabaOss \<Rightarrow>
          ensure (scheme = ''https'' \<and> default_port
                  \<and> (host = ''oss-'' @ s3_region s @ ''.aliyuncs.com'' \<or> host = ''oss-'' @ s3_region s @ ''-internal.aliyuncs.com'')
                  \<and> s3_addressing_style s = VirtualHosted)
            (BadRequest ''Alibaba OSS needs its official HTTPS endpoint and virtual hosts'')
      | TencentCos \<Rightarrow>
          ensure (scheme = ''https'' \<and> default_port \<and> host = ''cos.'' @ s3_region s @ ''.myqcloud.com''
                  \<and> s3_addressing_style s = VirtualHosted)
            (BadRequest ''Tencent COS needs its official HTTPS endpoint and virtual hosts'')
      | _ \<Rightarrow> Inr ())"

text \<open>
  The source expects the parser to find a scheme and a host in a normalised endpoint and panics
  when it does not; that case is an error here which no other branch returns.
\<close>

definition validate_s3_settings :: "'ip net_lib \<Rightarrow> s3_storage_config \<Rightarrow> unit app_result" where
  "validate_s3_settings net s =
     rbind (ensure (trim (s3_endpoint s) = s3_endpoint s \<and> s3_endpoint s \<noteq> [] \<and> length (s3_endpoint s) \<le> 2048)
              (BadRequest ''The S3 endpoint must be a full address of at most 2048 characters'')) (\<lambda>_.
     rbind (normalize_s3_endpoint net (s3_endpoint s)) (\<lambda>normalized.
     rbind (ok_or (parse_uri net normalized) (BadRequest ''The S3 endpoint is invalid'')) (\<lambda>u.
     rbind (ok_or (uri_scheme u) (internal_error ''panic: normalized HTTP(S) endpoint'')) (\<lambda>scheme.
     rbind (ok_or (uri_authority u) (internal_error ''panic: authority checked above'')) (\<lambda>a.
     rbind (provider_endpoint_ok s scheme (to_ascii_lowercase (au_host a)) (au_port a = None \<or> au_port a = Some 443)) (\<lambda>_.
     rbind (validate_s3_bucket net (s3_bucket s)) (\<lambda>_.
     rbind (ensure (s3_region s \<noteq> [] \<and> length (s3_region s) \<le> 64 \<and> list_all is_id_char (s3_region s))
              (BadRequest ''The S3 region is invalid'')) (\<lambda>_.
     rbind (validate_s3_prefix (s3_prefix s)) (\<lambda>_.
     rbind (ensure (s3_access_key_id s \<noteq> [] \<and> length (s3_access_key_id s) \<le> 256
                    \<and> \<not> list_ex is_control (chars (s3_access_key_id s)))
              (BadRequest ''The S3 access key ID is invalid'')) (\<lambda>_.
       ensure (s3_secret_access_key s \<noteq> [] \<and> length (s3_secret_access_key s) \<le> 4096
               \<and> \<not> list_ex is_control (chars (s3_secret_access_key s)))
         (BadRequest ''The S3 secret access key is invalid'')))))))))))"

definition validate_storage_backend :: "'ip net_lib \<Rightarrow> storage_backend_config \<Rightarrow> unit app_result" where
  "validate_storage_backend net backend =
     rbind (case capacity_limit_bytes backend of
              None \<Rightarrow> Inr ()
            | Some limit \<Rightarrow>
                ensure (MIN_STORAGE_CAPACITY_BYTES \<le> limit \<and> limit \<le> HARD_MAX_STORAGE_CAPACITY_BYTES)
                  (BadRequest ''The capacity of a storage must be 1 MiB to 4 PiB'')) (\<lambda>_.
       case backend of LocalBackend _ \<Rightarrow> Inr () | S3Backend s \<Rightarrow> validate_s3_settings net s)"

definition validate_storage_instance :: "'ip net_lib \<Rightarrow> storage_instance \<Rightarrow> unit app_result" where
  "validate_storage_instance net inst =
     rbind (ensure (inst_allow_guest_access inst \<or> inst_allow_guest_download inst \<noteq> Some True)
              (BadRequest ''Guest downloads need guest access'')) (\<lambda>_.
     rbind (validate_storage_id (inst_id inst)) (\<lambda>_.
     let name = trim (inst_name inst) in
     rbind (ensure (name \<noteq> [] \<and> length (chars name) \<le> 64 \<and> CHR ''/'' \<notin> set name \<and> CHR 0x5C \<notin> set name
                    \<and> CHR 0x00 \<notin> set name)
              (BadRequest ''The name of a storage must have 1 to 64 characters and no separator'')) (\<lambda>_.
       validate_storage_backend net (inst_backend inst))))"

text \<open>The loop over the storages, with the sets it collects.\<close>

record storage_sets =
  seen_ids :: "str list"
  seen_names :: "str list"
  seen_mounts :: "str list"
  seen_namespaces :: "s3_storage_config list"

definition no_storages :: storage_sets where
  "no_storages = \<lparr>seen_ids = [], seen_names = [], seen_mounts = [], seen_namespaces = []\<rparr>"

definition add_storage :: "'ip config_check \<Rightarrow> storage_instance \<Rightarrow> storage_sets \<Rightarrow> storage_sets app_result" where
  "add_storage lib inst seen =
     rbind (validate_storage_instance (check_net lib) inst) (\<lambda>_.
     rbind (ensure (inst_id inst \<notin> set (seen_ids seen)) (Conflict ''Storage IDs must be unique'')) (\<lambda>_.
     let name = unicode_lower lib (trim (inst_name inst)) in
     rbind (ensure (name \<notin> set (seen_names seen)) (Conflict ''Storage names must be unique'')) (\<lambda>_.
     let seen = seen\<lparr>seen_ids := inst_id inst # seen_ids seen, seen_names := name # seen_names seen\<rparr> in
     case inst_backend inst of
       LocalBackend settings \<Rightarrow>
         rbind (validate_storage_id (lsc_mount_id settings)) (\<lambda>_.
         rbind (ensure (lsc_mount_id settings \<notin> set (seen_mounts seen))
                  (Conflict ''A mount can belong to one storage only'')) (\<lambda>_.
           Inr (seen\<lparr>seen_mounts := lsc_mount_id settings # seen_mounts seen\<rparr>)))
     | S3Backend settings \<Rightarrow>
         rbind (ensure_s3_namespace_available (check_net lib) settings (seen_namespaces seen)) (\<lambda>_.
           Inr (seen\<lparr>seen_namespaces := settings # seen_namespaces seen\<rparr>)))))"

fun validate_storages :: "'ip config_check \<Rightarrow> storage_instance list \<Rightarrow> storage_sets \<Rightarrow> storage_sets app_result" where
  "validate_storages lib [] seen = Inr seen"
| "validate_storages lib (inst # insts) seen = rbind (add_storage lib inst seen) (validate_storages lib insts)"

section \<open>Accounts, shares and locks\<close>

definition valid_entity_id :: "str \<Rightarrow> bool" where
  "valid_entity_id entity \<longleftrightarrow> entity \<noteq> [] \<and> length entity \<le> 128 \<and> list_all is_id_char entity"

fun validate_permissions :: "str list \<Rightarrow> storage_permission list \<Rightarrow> str list \<Rightarrow> unit app_result" where
  "validate_permissions ids [] seen = Inr ()"
| "validate_permissions ids (p # ps) seen =
     rbind (validate_storage_reference (sp_storage_id p) ids) (\<lambda>_.
     rbind (ensure (sp_storage_id p \<notin> set seen)
              (Conflict ''An account has one permission for each storage'')) (\<lambda>_.
     rbind (ensure (grants_any p) (BadRequest ''A storage permission must not be empty'')) (\<lambda>_.
     rbind (ensure (sp_browse p) (BadRequest ''Other permissions need the permission to browse'')) (\<lambda>_.
       validate_permissions ids ps (sp_storage_id p # seen)))))"

fun validate_accounts ::
  "'ip config_check \<Rightarrow> str list \<Rightarrow> user_account list \<Rightarrow> str list \<Rightarrow> str list \<Rightarrow> unit app_result" where
  "validate_accounts lib ids [] account_ids account_names = Inr ()"
| "validate_accounts lib ids (a # as) account_ids account_names =
     rbind (ensure (valid_entity_id (ua_id a) \<and> ua_id a \<notin> set account_ids)
              (Conflict ''Account IDs must be unique and valid'')) (\<lambda>_.
     let username = trim (ua_username a) in
     rbind (ensure (username \<noteq> [] \<and> length (chars username) \<le> 128 \<and> \<not> list_ex is_whitespace (chars username)
                    \<and> unicode_lower lib username \<notin> set account_names)
              (Conflict ''Account names must be unique and without white space'')) (\<lambda>_.
     rbind (ensure (hash_ok lib (ua_password_hash a)) (BadRequest ''The password hash of an account is invalid'')) (\<lambda>_.
     rbind (validate_permissions ids (ua_permissions a) []) (\<lambda>_.
       validate_accounts lib ids as (ua_id a # account_ids) (unicode_lower lib username # account_names)))))"

definition validate_pending :: "'ip config_check \<Rightarrow> storage_sets \<Rightarrow> storage_instance option \<Rightarrow> unit app_result" where
  "validate_pending lib seen pending =
     (case pending of
        None \<Rightarrow> Inr ()
      | Some inst \<Rightarrow>
          rbind (validate_storage_instance (check_net lib) inst) (\<lambda>_.
          rbind (ensure (inst_id inst \<notin> set (seen_ids seen)) (Conflict ''The ID of the pending storage exists'')) (\<lambda>_.
          rbind (ensure (unicode_lower lib (trim (inst_name inst)) \<notin> set (seen_names seen))
                   (Conflict ''The name of the pending storage exists'')) (\<lambda>_.
          case inst_backend inst of
            LocalBackend settings \<Rightarrow>
              rbind (validate_storage_id (lsc_mount_id settings)) (\<lambda>_.
                ensure (lsc_mount_id settings \<notin> set (seen_mounts seen))
                  (Conflict ''The mount of the pending storage is in use''))
          | S3Backend settings \<Rightarrow>
              ensure_s3_namespace_available (check_net lib) settings (seen_namespaces seen)))))"

definition bad_config_component :: "str \<Rightarrow> bool" where
  "bad_config_component c \<longleftrightarrow>
     c = [] \<or> c = ''.'' \<or> c = ''..'' \<or> CHR '':'' \<in> set c \<or> eq_ignore_ascii_case c SYSTEM_DIR"

definition validate_relative_config_path :: "str \<Rightarrow> unit app_result" where
  "validate_relative_config_path path =
     (if path = [] then Inr ()
      else ensure (\<not> (path \<noteq> trim_matches CHR ''/'' path \<or> CHR 0x5C \<in> set path \<or> CHR 0x00 \<in> set path
                      \<or> list_ex is_control (chars path)
                      \<or> list_ex bad_config_component (split_on CHR ''/'' path)))
             (BadRequest ''Configured storage path is invalid''))"

fun validate_shares ::
  "'ip config_check \<Rightarrow> str list \<Rightarrow> share list \<Rightarrow> str list \<Rightarrow> str list \<Rightarrow> unit app_result" where
  "validate_shares lib ids [] share_ids share_names = Inr ()"
| "validate_shares lib ids (s # ss) share_ids share_names =
     rbind (validate_storage_reference (share_storage_id s) ids) (\<lambda>_.
     rbind (ensure (valid_entity_id (share_id s) \<and> share_id s \<notin> set share_ids)
              (Conflict ''Share IDs must be unique'')) (\<lambda>_.
     let name = trim (share_name s) in
     rbind (ensure (name \<noteq> [] \<and> length name \<le> 128 \<and> CHR ''/'' \<notin> set name \<and> CHR 0x5C \<notin> set name
                    \<and> CHR 0x00 \<notin> set name)
              (BadRequest ''Share name is invalid'')) (\<lambda>_.
     rbind (ensure (unicode_lower lib name \<notin> set share_names) (Conflict ''Share names must be unique'')) (\<lambda>_.
     rbind (validate_relative_config_path (share_path s)) (\<lambda>_.
     rbind (case share_username s of
              None \<Rightarrow> Inr ()
            | Some username \<Rightarrow>
                ensure (trim username \<noteq> [] \<and> length (chars username) \<le> 128)
                  (BadRequest ''WebDAV username must contain 1-128 characters'')) (\<lambda>_.
     rbind (ensure (case share_password_hash s of None \<Rightarrow> True | Some h \<Rightarrow> hash_ok lib h)
              (BadRequest ''WebDAV password hash is invalid'')) (\<lambda>_.
     rbind (ensure (\<not> (share_webdav_enabled s \<and> (share_username s = None \<or> share_password_hash s = None)))
              (BadRequest ''Enabled WebDAV shares require a username and password'')) (\<lambda>_.
       validate_shares lib ids ss (share_id s # share_ids) (unicode_lower lib name # share_names)))))))))"

fun validate_locks ::
  "'ip config_check \<Rightarrow> str list \<Rightarrow> folder_lock list \<Rightarrow> str list \<Rightarrow> (str \<times> str) list \<Rightarrow> unit app_result" where
  "validate_locks lib ids [] lock_ids scopes = Inr ()"
| "validate_locks lib ids (l # ls) lock_ids scopes =
     rbind (validate_storage_reference (lock_storage_id l) ids) (\<lambda>_.
     rbind (ensure (valid_entity_id (lock_id l) \<and> lock_id l \<notin> set lock_ids)
              (Conflict ''Folder lock IDs must be unique'')) (\<lambda>_.
     let path = trim_matches CHR ''/'' (lock_path l) in
     rbind (ensure (path \<noteq> []) (BadRequest ''Folder lock path cannot be the storage root'')) (\<lambda>_.
     rbind (validate_relative_config_path (lock_path l)) (\<lambda>_.
     rbind (ensure ((lock_storage_id l, path) \<notin> set scopes)
              (Conflict ''A storage path can only have one folder lock'')) (\<lambda>_.
     rbind (ensure (hash_ok lib (lock_password_hash l)) (BadRequest ''Folder lock password hash is invalid'')) (\<lambda>_.
       validate_locks lib ids ls (lock_id l # lock_ids) ((lock_storage_id l, path) # scopes)))))))"

definition validate_overlap :: "share list \<Rightarrow> folder_lock list \<Rightarrow> unit app_result" where
  "validate_overlap shares locks =
     ensure (\<not> list_ex (\<lambda>s. share_webdav_enabled s
                \<and> list_ex (\<lambda>l. lock_storage_id l = share_storage_id s \<and> paths_overlap (share_path s) (lock_path l)) locks) shares)
       (Conflict ''A WebDAV mount must not overlap a locked folder'')"

section \<open>The whole configuration\<close>

definition validate_binding :: "'ip :: linorder config_check \<Rightarrow> 'ip domain_binding option \<Rightarrow> unit app_result" where
  "validate_binding lib binding =
     (case binding of
        None \<Rightarrow> Inr ()
      | Some b \<Rightarrow>
          rbind (binding_normalize (check_net lib) b) (\<lambda>normalized.
            ensure (normalized = b) (BadRequest ''The domain binding must be normalized'')))"

definition validate_administrator :: "'ip config_check \<Rightarrow> 'ip config_file \<Rightarrow> unit app_result" where
  "validate_administrator lib c =
     (let username = trim (cf_admin_username c) in
     rbind (ensure (username \<noteq> [] \<and> length (chars username) \<le> 128)
              (BadRequest ''Administrator username must contain 1-128 characters'')) (\<lambda>_.
     rbind (ensure (hash_ok lib (cf_admin_password_hash c)) (BadRequest ''Administrator password hash is invalid'')) (\<lambda>_.
     rbind (case cf_admin_totp_secret c of
              Some secret \<Rightarrow> validate_secret secret
            | None \<Rightarrow> ensure (cf_admin_recovery_code_hashes c = [])
                        (BadRequest ''Recovery codes need TOTP'')) (\<lambda>_.
       ensure (length (cf_admin_recovery_code_hashes c) \<le> 10 \<and> list_all (hash_ok lib) (cf_admin_recovery_code_hashes c))
         (BadRequest ''The recovery codes are invalid'')))))"

definition validate_sizes :: "'ip config_file \<Rightarrow> unit app_result" where
  "validate_sizes c =
     rbind (ensure (length (user_accounts c) \<le> MAX_USER_ACCOUNTS) (BadRequest ''There are at most 100 accounts'')) (\<lambda>_.
     rbind (ensure (length (cf_shares c) \<le> 1000 \<and> length (folder_locks c) \<le> 10000)
              (BadRequest ''Configuration exceeds supported limits'')) (\<lambda>_.
     rbind (validate_transfer_limits (cf_max_upload_bytes c) (cf_max_upload_batch_bytes c)
              (cf_max_upload_batch_entries c) (cf_max_archive_bytes c) (cf_max_archive_entries c)) (\<lambda>_.
     rbind (ensure (1 \<le> cf_upload_file_concurrency c \<and> cf_upload_file_concurrency c \<le> MAX_UPLOAD_FILE_CONCURRENCY)
              (BadRequest ''The number of concurrent uploads is out of range'')) (\<lambda>_.
     rbind (validate_login_security_settings (cf_admin_login_failures c) (cf_web_login_failures c)
              (cf_admin_login_block_seconds c) (cf_web_login_block_seconds c)
              (cf_security_log_retention_days c) (cf_security_log_max_entries c)) (\<lambda>_.
     rbind (validate_transfer_rate (cf_upload_rate_bytes_per_sec c) ''upload'') (\<lambda>_.
     rbind (validate_transfer_rate (cf_download_rate_bytes_per_sec c) ''download'') (\<lambda>_.
       ensure (length (storage_instances c) \<le> MAX_STORAGE_INSTANCES) (BadRequest ''There are at most 16 storages''))))))))"

definition validate :: "'ip :: linorder config_check \<Rightarrow> 'ip config_file \<Rightarrow> unit app_result" where
  "validate lib c =
     rbind (settings_validate (cf_traffic c)) (\<lambda>_.
     rbind (validate_binding lib (cf_domain_binding c)) (\<lambda>_.
     rbind (ensure (cf_schema_version c = CONFIG_SCHEMA_VERSION)
              (BadRequest ''Unsupported configuration schema version'')) (\<lambda>_.
     rbind (validate_administrator lib c) (\<lambda>_.
     rbind (validate_sizes c) (\<lambda>_.
     rbind (validate_storages lib (storage_instances c) no_storages) (\<lambda>seen.
     rbind (validate_accounts lib (seen_ids seen) (user_accounts c) []
              [unicode_lower lib (trim (cf_admin_username c))]) (\<lambda>_.
     rbind (validate_pending lib seen (cf_pending_storage_instance c)) (\<lambda>_.
     rbind (validate_shares lib (seen_ids seen) (cf_shares c) [] []) (\<lambda>_.
     rbind (validate_locks lib (seen_ids seen) (folder_locks c) [] []) (\<lambda>_.
       validate_overlap (cf_shares c) (folder_locks c)))))))))))"

section \<open>Paths in the configuration\<close>

lemma config_path_normal:
  assumes "validate_relative_config_path p = Inr ()"
  shows "normalize_relative p = Inr p"
proof (rule normalize_relative_fixed)
  show "safe_relative p"
  proof (cases "p = []")
    case False
    with assms have bad: "\<not> list_ex bad_config_component (split_on CHR ''/'' p)" "backslash \<notin> set p" "nul \<notin> set p"
      by (auto simp: validate_relative_config_path_def backslash_def nul_def)
    have "safe_component c" if "c \<in> set (split_on CHR ''/'' p)" for c
      using bad that split_on_sep_free [of c "CHR ''/''" p] split_on_subset [of c "CHR ''/''" p]
      by (auto simp: list_ex_iff bad_config_component_def safe_component_def)
    with False show ?thesis by (simp add: safe_relative_def path_components_def list_all_iff)
  qed (simp add: safe_relative_def path_components_def)
qed

section \<open>What the loops collect\<close>

definition s3_same_namespace :: "'ip net_lib \<Rightarrow> s3_storage_config \<Rightarrow> s3_storage_config \<Rightarrow> bool" where
  "s3_same_namespace net a b \<longleftrightarrow>
     s3_bucket a = s3_bucket b \<and> s3_endpoint_identity net (s3_endpoint a) = s3_endpoint_identity net (s3_endpoint b)
     \<and> s3_prefixes_overlap (s3_prefix a) (s3_prefix b)"

definition mounts :: "storage_instance list \<Rightarrow> str list" where
  "mounts insts = concat (map (\<lambda>i. case inst_backend i of LocalBackend s \<Rightarrow> [lsc_mount_id s] | _ \<Rightarrow> []) insts)"

definition s3_configs :: "storage_instance list \<Rightarrow> s3_storage_config list" where
  "s3_configs insts = concat (map (\<lambda>i. case inst_backend i of S3Backend s \<Rightarrow> [s] | _ \<Rightarrow> []) insts)"

definition sets_ok :: "'ip config_check \<Rightarrow> storage_instance list \<Rightarrow> storage_sets \<Rightarrow> bool" where
  "sets_ok lib insts seen \<longleftrightarrow>
     seen_ids seen = rev (map inst_id insts) \<and> distinct (seen_ids seen)
     \<and> seen_names seen = rev (map (\<lambda>i. unicode_lower lib (trim (inst_name i))) insts) \<and> distinct (seen_names seen)
     \<and> seen_mounts seen = rev (mounts insts) \<and> distinct (seen_mounts seen)
     \<and> seen_namespaces seen = rev (s3_configs insts)
     \<and> sorted_wrt (\<lambda>a b. \<not> s3_same_namespace (check_net lib) a b) (seen_namespaces seen)
     \<and> list_all (\<lambda>i. validate_storage_instance (check_net lib) i = Inr ()) insts"

lemma namespace_available:
  "ensure_s3_namespace_available net s ss = Inr () \<Longrightarrow> b \<in> set ss \<Longrightarrow> \<not> s3_same_namespace net s b"
  by (auto simp: ensure_s3_namespace_available_def rbind_Inr_iff list_ex_iff s3_same_namespace_def s3_prefixes_overlap_def)

lemma add_storage_ok:
  assumes "add_storage lib i seen = Inr seen'" "sets_ok lib insts seen"
  shows "sets_ok lib (insts @ [i]) seen'"
proof (cases "inst_backend i")
  case (LocalBackend s)
  then show ?thesis
    using assms by (auto simp: add_storage_def rbind_Inr_iff Let_def sets_ok_def mounts_def s3_configs_def)
next
  case (S3Backend s)
  then show ?thesis
    using assms namespace_available
    by (fastforce simp: add_storage_def rbind_Inr_iff Let_def sets_ok_def mounts_def s3_configs_def)
qed

lemma validate_storages_ok:
  "validate_storages lib insts seen = Inr seen' \<Longrightarrow> sets_ok lib before seen \<Longrightarrow> sets_ok lib (before @ insts) seen'"
proof (induction insts arbitrary: seen before)
  case (Cons i insts)
  then show ?case using add_storage_ok [of lib i seen _ before] by (force simp: rbind_Inr_iff)
qed simp

lemma no_storages_ok: "sets_ok lib [] no_storages"
  by (simp add: sets_ok_def no_storages_def mounts_def s3_configs_def)

lemma validate_permissions_ok:
  "validate_permissions ids ps seen = Inr () \<Longrightarrow>
   distinct (map sp_storage_id ps) \<and> set (map sp_storage_id ps) \<inter> set seen = {}
   \<and> (\<forall>p \<in> set ps. sp_storage_id p \<in> set ids \<and> sp_browse p)"
  by (induction ps arbitrary: seen) (force simp: rbind_Inr_iff validate_storage_reference_def)+

lemma validate_accounts_ok:
  "validate_accounts lib ids as aids names = Inr () \<Longrightarrow>
   distinct (map ua_id as) \<and> set (map ua_id as) \<inter> set aids = {}
   \<and> distinct (map (\<lambda>a. unicode_lower lib (trim (ua_username a))) as)
   \<and> set (map (\<lambda>a. unicode_lower lib (trim (ua_username a))) as) \<inter> set names = {}
   \<and> (\<forall>a \<in> set as. distinct (map sp_storage_id (ua_permissions a))
        \<and> (\<forall>p \<in> set (ua_permissions a). sp_storage_id p \<in> set ids \<and> sp_browse p))"
proof (induction as arbitrary: aids names)
  case (Cons a as)
  let ?name = "unicode_lower lib (trim (ua_username a))"
  from Cons.prems have a: "ua_id a \<notin> set aids" "?name \<notin> set names" "validate_permissions ids (ua_permissions a) [] = Inr ()"
    and rest: "validate_accounts lib ids as (ua_id a # aids) (?name # names) = Inr ()"
    by (simp_all add: rbind_Inr_iff Let_def)
  show ?case using Cons.IH [OF rest] a(1,2) validate_permissions_ok [OF a(3)] by auto
qed simp

lemma validate_shares_ok:
  "validate_shares lib ids ss sids names = Inr () \<Longrightarrow>
   distinct (map share_id ss) \<and> set (map share_id ss) \<inter> set sids = {}
   \<and> distinct (map (\<lambda>s. unicode_lower lib (trim (share_name s))) ss)
   \<and> set (map (\<lambda>s. unicode_lower lib (trim (share_name s))) ss) \<inter> set names = {}
   \<and> (\<forall>s \<in> set ss. share_storage_id s \<in> set ids \<and> normalize_relative (share_path s) = Inr (share_path s)
        \<and> (share_webdav_enabled s \<longrightarrow> share_username s \<noteq> None \<and> share_password_hash s \<noteq> None))"
proof (induction ss arbitrary: sids names)
  case (Cons s ss)
  let ?name = "unicode_lower lib (trim (share_name s))"
  from Cons.prems have s: "share_storage_id s \<in> set ids" "share_id s \<notin> set sids" "?name \<notin> set names"
    "validate_relative_config_path (share_path s) = Inr ()"
    "share_webdav_enabled s \<Longrightarrow> share_username s \<noteq> None \<and> share_password_hash s \<noteq> None"
    and rest: "validate_shares lib ids ss (share_id s # sids) (?name # names) = Inr ()"
    by (simp_all add: rbind_Inr_iff Let_def validate_storage_reference_def)
  show ?case using Cons.IH [OF rest] s(1-3,5) config_path_normal [OF s(4)] by auto
qed simp

lemma validate_locks_ok:
  "validate_locks lib ids ls lids scopes = Inr () \<Longrightarrow>
   distinct (map lock_id ls) \<and> set (map lock_id ls) \<inter> set lids = {}
   \<and> distinct (map (\<lambda>l. (lock_storage_id l, trim_matches CHR ''/'' (lock_path l))) ls)
   \<and> set (map (\<lambda>l. (lock_storage_id l, trim_matches CHR ''/'' (lock_path l))) ls) \<inter> set scopes = {}
   \<and> (\<forall>l \<in> set ls. lock_storage_id l \<in> set ids \<and> normalize_relative (lock_path l) = Inr (lock_path l)
        \<and> lock_path l \<noteq> [])"
proof (induction ls arbitrary: lids scopes)
  case (Cons l ls)
  let ?scope = "(lock_storage_id l, trim_matches CHR ''/'' (lock_path l))"
  from Cons.prems have l: "lock_storage_id l \<in> set ids" "lock_id l \<notin> set lids" "?scope \<notin> set scopes"
    "validate_relative_config_path (lock_path l) = Inr ()" "trim_matches CHR ''/'' (lock_path l) \<noteq> []"
    and rest: "validate_locks lib ids ls (lock_id l # lids) (?scope # scopes) = Inr ()"
    by (simp_all add: rbind_Inr_iff Let_def validate_storage_reference_def)
  have "lock_path l \<noteq> []" using l(5) trim_matches_id [of "[]"] by metis
  then show ?case using Cons.IH [OF rest] l(1-3) config_path_normal [OF l(4)] by auto
qed simp

section \<open>Paths below a share\<close>

lemma split_on_general: "split_on c (a @ c # b) = split_on c a @ split_on c b"
  by (induction a) (auto split: list.splits)

lemma filter_split_trim_start:
  "filter (\<lambda>x. x \<noteq> [] \<and> P x) (split_on c (trim_start_matches c s)) = filter (\<lambda>x. x \<noteq> [] \<and> P x) (split_on c s)"
  by (induction s) (auto simp: trim_start_matches_def)

lemma filter_split_trim_end:
  "filter (\<lambda>x. x \<noteq> [] \<and> P x) (split_on c (trim_end_matches c s)) = filter (\<lambda>x. x \<noteq> [] \<and> P x) (split_on c s)"
  by (induction s rule: rev_induct) (auto simp: trim_end_matches_def split_on_snoc)

lemma logical_components_raw:
  "logical_components p = filter (\<lambda>x. x \<noteq> [] \<and> x \<noteq> ''.'') (split_on CHR ''/'' p)"
  by (simp add: logical_components_def trim_matches_def filter_split_trim_start filter_split_trim_end)

lemma logical_components_trim [simp]: "logical_components (trim_matches CHR ''/'' p) = logical_components p"
  by (simp add: logical_components_raw trim_matches_def filter_split_trim_start filter_split_trim_end)

lemma logical_components_Nil [simp]: "logical_components [] = []"
  by (simp add: logical_components_raw)

lemma share_storage_path_components:
  "logical_components (share_storage_path s rel) = logical_components (share_path s) @ logical_components rel"
proof -
  let ?b = "trim_matches CHR ''/'' (share_path s)" and ?r = "trim_matches CHR ''/'' rel"
  have j: "logical_components (?b @ ''/'' @ ?r) = logical_components ?b @ logical_components ?r"
    by (simp only: logical_components_raw append_Cons append_Nil split_on_general filter_append)
  have e: "trim_matches CHR ''/'' x = [] \<Longrightarrow> logical_components x = []" for x
    by (metis logical_components_trim logical_components_Nil)
  show ?thesis
    using j e [of "share_path s"] e [of rel] by (auto simp: share_storage_path_def Let_def)
qed

lemma disjoint_below:
  "\<not> (prefix s l \<or> prefix l s) \<Longrightarrow> \<not> (prefix (s @ r) l \<or> prefix l (s @ r))"
  using append_prefixD prefix_same_cases prefixI by blast

lemma s3_prefixes_share_key:
  "starts_with key p \<Longrightarrow> starts_with key q \<Longrightarrow> s3_prefixes_overlap p q"
  by (auto simp: s3_prefixes_overlap_def starts_with_iff) (metis append_eq_append_conv2)

lemma validated:
  assumes "validate lib c = Inr ()"
  obtains seen where "sets_ok lib (storage_instances c) seen"
    "validate_accounts lib (seen_ids seen) (user_accounts c) [] [unicode_lower lib (trim (cf_admin_username c))] = Inr ()"
    "validate_shares lib (seen_ids seen) (cf_shares c) [] [] = Inr ()"
    "validate_locks lib (seen_ids seen) (folder_locks c) [] [] = Inr ()"
    "validate_overlap (cf_shares c) (folder_locks c) = Inr ()"
proof -
  from assms obtain seen where s: "validate_storages lib (storage_instances c) no_storages = Inr seen"
    and rest: "validate_accounts lib (seen_ids seen) (user_accounts c) [] [unicode_lower lib (trim (cf_admin_username c))] = Inr ()"
      "validate_shares lib (seen_ids seen) (cf_shares c) [] [] = Inr ()"
      "validate_locks lib (seen_ids seen) (folder_locks c) [] [] = Inr ()"
      "validate_overlap (cf_shares c) (folder_locks c) = Inr ()"
    by (auto simp: validate_def rbind_Inr_iff)
  show thesis by (rule that [OF _ rest]) (use validate_storages_ok [OF s no_storages_ok] in simp)
qed

section \<open>Properties\<close>

text \<open>
  C31: an accepted configuration is consistent. Storages, accounts, shares and locks have distinct
  IDs; the names of the storages differ from each other when trimmed and in lower case, so do those
  of the shares, and those of the accounts together with the administrator's; no two locks of a
  storage cover the same path; every permission, share and lock refers to a storage that exists; a mount belongs to one storage
  and no object key belongs to two storages of one bucket; the paths of shares and locks are in
  the normal form of storage paths; a WebDAV share has credentials.
\<close>

theorem validated_config_consistent:
  assumes "validate lib c = Inr ()"
  shows "distinct (map inst_id (storage_instances c))
    \<and> distinct (map (\<lambda>i. unicode_lower lib (trim (inst_name i))) (storage_instances c))
    \<and> distinct (mounts (storage_instances c))
    \<and> sorted_wrt (\<lambda>a b. s3_bucket a = s3_bucket b \<and> s3_endpoint_identity (check_net lib) (s3_endpoint a)
            = s3_endpoint_identity (check_net lib) (s3_endpoint b) \<longrightarrow>
          (\<forall>key. \<not> (starts_with key (s3_prefix a) \<and> starts_with key (s3_prefix b)))) (s3_configs (storage_instances c))
    \<and> distinct (map ua_id (user_accounts c))
    \<and> distinct (unicode_lower lib (trim (cf_admin_username c)) # map (\<lambda>a. unicode_lower lib (trim (ua_username a))) (user_accounts c))
    \<and> (\<forall>a \<in> set (user_accounts c). distinct (map sp_storage_id (ua_permissions a))
         \<and> (\<forall>p \<in> set (ua_permissions a). sp_storage_id p \<in> inst_id ` set (storage_instances c) \<and> sp_browse p))
    \<and> distinct (map share_id (cf_shares c))
    \<and> distinct (map (\<lambda>s. unicode_lower lib (trim (share_name s))) (cf_shares c))
    \<and> (\<forall>s \<in> set (cf_shares c). share_storage_id s \<in> inst_id ` set (storage_instances c)
         \<and> normalize_relative (share_path s) = Inr (share_path s)
         \<and> (share_webdav_enabled s \<longrightarrow> share_username s \<noteq> None \<and> share_password_hash s \<noteq> None))
    \<and> distinct (map lock_id (folder_locks c))
    \<and> distinct (map (\<lambda>l. (lock_storage_id l, lock_path l)) (folder_locks c))
    \<and> (\<forall>l \<in> set (folder_locks c). lock_storage_id l \<in> inst_id ` set (storage_instances c)
         \<and> normalize_relative (lock_path l) = Inr (lock_path l) \<and> lock_path l \<noteq> [])"
proof -
  obtain seen where v: "sets_ok lib (storage_instances c) seen"
    "validate_accounts lib (seen_ids seen) (user_accounts c) [] [unicode_lower lib (trim (cf_admin_username c))] = Inr ()"
    "validate_shares lib (seen_ids seen) (cf_shares c) [] [] = Inr ()"
    "validate_locks lib (seen_ids seen) (folder_locks c) [] [] = Inr ()"
    using validated [OF assms] by metis
  have ids: "set (seen_ids seen) = inst_id ` set (storage_instances c)" using v(1) by (simp add: sets_ok_def)
  have "sorted_wrt (\<lambda>a b. \<not> s3_same_namespace (check_net lib) b a) (s3_configs (storage_instances c))"
    using v(1) by (auto simp: sets_ok_def sorted_wrt_rev)
  then have keys: "sorted_wrt (\<lambda>a b. s3_bucket a = s3_bucket b \<and> s3_endpoint_identity (check_net lib) (s3_endpoint a)
            = s3_endpoint_identity (check_net lib) (s3_endpoint b) \<longrightarrow>
          (\<forall>key. \<not> (starts_with key (s3_prefix a) \<and> starts_with key (s3_prefix b)))) (s3_configs (storage_instances c))"
    by (rule sorted_wrt_mono_rel [rotated]) (auto simp: s3_same_namespace_def dest: s3_prefixes_share_key)
  have stores: "distinct (map inst_id (storage_instances c))" "distinct (mounts (storage_instances c))"
      "distinct (map (\<lambda>i. unicode_lower lib (trim (inst_name i))) (storage_instances c))"
    using v(1) by (auto simp: sets_ok_def)
  have "distinct (map (\<lambda>l. (lock_storage_id l, lock_path l)) (folder_locks c))"
    using validate_locks_ok [OF v(4)] by (auto simp: distinct_map inj_on_def)
  with keys stores show ?thesis
    using validate_accounts_ok [OF v(2)] validate_shares_ok [OF v(3)] validate_locks_ok [OF v(4)]
    unfolding ids by simp
qed

text \<open>
  C39: in an accepted configuration no path that a WebDAV share can name is locked for the browser,
  nor is anything below it, whoever asks: a WebDAV client, who is never asked for a folder
  password, cannot get around one.
\<close>

theorem webdav_never_reaches_locked_folder:
  assumes "validate lib c = Inr ()" "s \<in> set (cf_shares c)" "share_webdav_enabled s"
  shows "\<not> is_locked (authorizer_new (access_config.truncate c) rq (share_storage_id s)) (share_storage_path s rel)
       \<and> \<not> is_tree_locked (authorizer_new (access_config.truncate c) rq (share_storage_id s)) (share_storage_path s rel)"
proof -
  let ?au = "authorizer_new (access_config.truncate c) rq (share_storage_id s)"
  have ov: "validate_overlap (cf_shares c) (folder_locks c) = Inr ()" using validated [OF assms(1)] by metis
  have disjoint: "\<not> (prefix (logical_components (share_path s)) (logical_components (lock_path l))
      \<or> prefix (logical_components (lock_path l)) (logical_components (share_path s)))"
    if "l \<in> set (folder_locks c)" "lock_storage_id l = share_storage_id s" for l
    using ov assms(2,3) that by (auto simp: validate_overlap_def list_ex_iff overlap_iff_prefix)
  have locks: "set (au_locks ?au) \<subseteq> set (folder_locks c)" "au_storage_id ?au = share_storage_id s"
    by (auto simp: authorizer_new_def Let_def access_config.truncate_def)
  have "\<not> is_tree_locked ?au (share_storage_path s rel)"
    unfolding is_tree_locked_iff share_storage_path_components locks(2)
    using disjoint_below [OF disjoint] locks(1) by blast
  then show ?thesis using locked_below_tree_locked by blast
qed


definition sample_check :: "nat config_check" where
  "sample_check = \<lparr>hash_ok = (\<lambda>h. h \<noteq> []), unicode_lower = to_ascii_lowercase,
     check_net = \<lparr>parse_authority = (\<lambda>_. None), parse_uri = (\<lambda>_. None), parse_ip = (\<lambda>_. None), to_canonical = id\<rparr>\<rparr>"

definition sample_share :: share where
  "sample_share = \<lparr>share_id = ''d'', share_storage_id = ''s'', share_name = ''docs'', share_path = ''pub'',
     share_username = Some ''u'', share_webdav_enabled = True, share_password_hash = Some ''h'', share_readonly = False\<rparr>"

definition sample_storages :: "storage_instance list" where
  "sample_storages = [\<lparr>inst_id = ''s'', inst_name = ''Main'', inst_enabled = True, inst_allow_guest_access = False,
     inst_allow_guest_download = None,
     inst_backend = LocalBackend \<lparr>lsc_mount_id = ''m'', lsc_capacity_limit_bytes = None\<rparr>\<rparr>]"

definition sample_accounts :: "user_account list" where
  "sample_accounts = [\<lparr>ua_id = ''a1'', ua_username = ''ann'', ua_password_hash = ''h'', ua_enabled = True, ua_permissions = []\<rparr>]"

definition sample_locks :: "folder_lock list" where
  "sample_locks = [\<lparr>lock_id = ''k'', lock_storage_id = ''s'', lock_path = ''priv'', lock_password_hash = ''h''\<rparr>]"

definition sample_config :: "nat config_file" where
  "sample_config = (with_credentials_config ''admin'' ''h'' None)
     \<lparr>storage_instances := sample_storages, user_accounts := sample_accounts, folder_locks := sample_locks,
      cf_shares := [sample_share]\<rparr>"

lemma sample_config_fields [simp]:
  "storage_instances sample_config = sample_storages" "user_accounts sample_config = sample_accounts"
  "folder_locks sample_config = sample_locks" "cf_shares sample_config = [sample_share]"
  "cf_traffic sample_config = default_settings" "cf_domain_binding sample_config = None"
  "cf_schema_version sample_config = CONFIG_SCHEMA_VERSION" "cf_pending_storage_instance sample_config = None"
  "cf_admin_username sample_config = ''admin''" "cf_admin_password_hash sample_config = ''h''"
  "cf_admin_totp_secret sample_config = None" "cf_admin_recovery_code_hashes sample_config = []"
  by (simp_all add: sample_config_def with_credentials_config_def)

lemma sample_sizes: "validate_sizes sample_config = Inr ()"
proof -
  have "length sample_accounts = 1" "length sample_storages = 1" "length sample_locks = 1" by code_simp+
  then show ?thesis
    by (simp add: validate_sizes_def MAX_USER_ACCOUNTS_def MAX_STORAGE_INSTANCES_def ensure_def)
       (simp add: sample_config_def with_credentials_config_def validate_transfer_limits_def ensure_def
        validate_login_security_settings_def validate_transfer_rate_def MIN_TRANSFER_BYTES_def HARD_MAX_UPLOAD_BYTES_def
        HARD_MAX_UPLOAD_BATCH_BYTES_def HARD_MAX_UPLOAD_BATCH_ENTRIES_def HARD_MAX_ARCHIVE_BYTES_def
        HARD_MAX_ARCHIVE_ENTRIES_def MAX_UPLOAD_FILE_CONCURRENCY_def)
qed

lemma sample_validates: "validate sample_check sample_config = Inr ()"
proof -
  have admin: "trim ''admin'' = ''admin''" "length (chars ''admin'') \<le> 128" "hash_ok sample_check ''h''"
    "unicode_lower sample_check ''admin'' = ''admin''" by code_simp+
  have "settings_validate default_settings = Inr ()"
    by (simp add: settings_validate_def default_settings_def quota_validate_def default_quota_def default_cycle_def Let_def ensure_def)
  moreover have "validate_administrator sample_check sample_config = Inr ()"
    by (simp add: validate_administrator_def admin ensure_def del: chars.simps)
  moreover have "validate_storages sample_check sample_storages no_storages
      = Inr \<lparr>seen_ids = [''s''], seen_names = [''main''], seen_mounts = [''m''], seen_namespaces = []\<rparr>" by code_simp
  moreover have "validate_accounts sample_check [''s''] sample_accounts [] [''admin''] = Inr ()" by code_simp
  moreover have "validate_shares sample_check [''s''] [sample_share] [] [] = Inr ()" by code_simp
  moreover have "validate_locks sample_check [''s''] sample_locks [] [] = Inr ()" by code_simp
  moreover have "validate_overlap [sample_share] sample_locks = Inr ()" by code_simp
  ultimately show ?thesis
    by (simp add: validate_def validate_binding_def validate_pending_def ensure_def sample_sizes admin)
qed

theorem validated_config_consistent_witness:
  "validate sample_check sample_config = Inr () \<and> distinct (map ua_id (user_accounts sample_config))
   \<and> list_all (\<lambda>s. normalize_relative (share_path s) = Inr (share_path s)) (cf_shares sample_config)"
  using sample_validates validated_config_consistent [OF sample_validates] unfolding list_all_iff by blast

theorem webdav_never_reaches_locked_folder_witness:
  "validate sample_check sample_config = Inr () \<and> folder_locks sample_config \<noteq> []
   \<and> \<not> is_tree_locked (authorizer_new (access_config.truncate sample_config) \<lparr>rq_principal = None, rq_gate_token = None,
         rq_gate_scope = (\<lambda>_. None), rq_cookie = (\<lambda>_. None), rq_folder_scope = (\<lambda>_. None)\<rparr> ''s'')
         (share_storage_path sample_share ''x'')"
proof -
  have "sample_share \<in> set (cf_shares sample_config)" "share_webdav_enabled sample_share" "share_storage_id sample_share = ''s''"
    "folder_locks sample_config \<noteq> []"
    by (simp_all add: sample_share_def sample_locks_def)
  with webdav_never_reaches_locked_folder [OF sample_validates this(1,2)] sample_validates show ?thesis by metis
qed

end
