(* ===== verification/ConfigStore.thy ===== *)
theory ConfigStore
  imports AppError
begin

text \<open>
  Publication of private state files (src/src/config/commit.rs) and the start-up of the
  configuration (src/src/config/persistence.rs).

  The file system is a directory whose entries point to inodes. Changes of the directory reach
  the disk in order, when it is synchronised or earlier; the bytes of an inode are on the disk
  once it is flushed, and until then a crash may leave any bytes. Every system call may fail.
  All the files of one publication are in the same directory.
\<close>

section \<open>The file system\<close>

datatype dir_update = Link str nat | Unlink str | MoveEntry str str

record filesystem =
  inodes :: "(nat \<times> (str \<times> bool)) list"
  stable :: "(str \<times> nat) list"
  updates :: "dir_update list"
  next_inode :: nat

fun apply_update :: "(str \<times> nat) list \<Rightarrow> dir_update \<Rightarrow> (str \<times> nat) list" where
  "apply_update m (Link n i) = al_insert n i m"
| "apply_update m (Unlink n) = al_remove n m"
| "apply_update m (MoveEntry a b) = (case al_get m a of None \<Rightarrow> m | Some i \<Rightarrow> al_insert b i (al_remove a m))"

definition entries_after :: "filesystem \<Rightarrow> nat \<Rightarrow> (str \<times> nat) list" where
  "entries_after fs k = foldl apply_update (stable fs) (take k (updates fs))"

definition entries :: "filesystem \<Rightarrow> (str \<times> nat) list" where
  "entries fs = foldl apply_update (stable fs) (updates fs)"

definition read_file :: "filesystem \<Rightarrow> str \<Rightarrow> str option" where
  "read_file fs n = Option.bind (al_get (entries fs) n) (\<lambda>i. map_option fst (al_get (inodes fs) i))"

definition update_dir :: "dir_update \<Rightarrow> filesystem \<Rightarrow> filesystem" where
  "update_dir u fs = fs\<lparr>updates := updates fs @ [u]\<rparr>"

definition set_inode :: "nat \<Rightarrow> str \<times> bool \<Rightarrow> filesystem \<Rightarrow> filesystem" where
  "set_inode i v fs = fs\<lparr>inodes := al_insert i v (inodes fs)\<rparr>"

definition create_file :: "str \<Rightarrow> filesystem \<Rightarrow> filesystem" where
  "create_file n fs = (set_inode (next_inode fs) ([], False) (update_dir (Link n (next_inode fs)) fs))
                        \<lparr>next_inode := next_inode fs + 1\<rparr>"

definition sync_parent :: "filesystem \<Rightarrow> filesystem" where
  "sync_parent fs = fs\<lparr>stable := entries fs, updates := []\<rparr>"

text \<open>A crash keeps the first \<open>k\<close> directory changes and replaces bytes that were not flushed.\<close>

definition crash :: "nat \<Rightarrow> (nat \<Rightarrow> str) \<Rightarrow> filesystem \<Rightarrow> filesystem" where
  "crash k garbage fs =
     fs\<lparr>stable := entries_after fs k, updates := [],
        inodes := map (\<lambda>(i, c, flushed). (i, if flushed then c else garbage i, True)) (inodes fs)\<rparr>"

section \<open>Publication\<close>

datatype config_durability = Confirmed | Unconfirmed

record config_commit =
  durability :: config_durability
  backup_refresh_pending :: bool

text \<open>
  How far the preparation of a private file gets: it is not opened, only some bytes are
  written, it is not flushed, or it is prepared.
\<close>

datatype prepare_io = OpenFails | WriteFails str | FlushFails | Prepared

record publish_io =
  io_main :: prepare_io
  io_previous :: bool
  io_rotate :: prepare_io
  io_rotate_rename :: bool
  io_before :: bool
  io_rename :: bool
  io_synced :: bool
  io_refresh_before :: bool
  io_refresh :: prepare_io
  io_refresh_rename :: bool
  io_refresh_synced :: bool
  io_remove :: bool

text \<open>
  A step returns its result and the states the file system passes through; a crash may happen
  in any of them.
\<close>

definition last_state :: "filesystem \<Rightarrow> filesystem list \<Rightarrow> filesystem" where
  "last_state fs states = (if states = [] then fs else last states)"

text \<open>\<open>PendingFile::drop\<close>: the prepared file is removed, where that works.\<close>

definition drop_pending :: "bool \<Rightarrow> str \<Rightarrow> filesystem \<Rightarrow> filesystem" where
  "drop_pending removable temporary fs = (if removable then update_dir (Unlink temporary) fs else fs)"

definition prepare :: "prepare_io \<Rightarrow> bool \<Rightarrow> str \<Rightarrow> str \<Rightarrow> filesystem \<Rightarrow> bool \<times> filesystem list" where
  "prepare io removable temporary bytes fs =
     (let i = next_inode fs; opened = create_file temporary fs
      in case io of
           OpenFails \<Rightarrow> (False, [])
         | WriteFails part \<Rightarrow>
             (let written = set_inode i (part, False) opened
              in (False, [opened, written, drop_pending removable temporary written]))
         | FlushFails \<Rightarrow>
             (let written = set_inode i (bytes, False) opened
              in (False, [opened, written, drop_pending removable temporary written]))
         | Prepared \<Rightarrow>
             (let written = set_inode i (bytes, False) opened
              in (True, [opened, written, set_inode i (bytes, True) written])))"

definition publish_pending :: "bool \<Rightarrow> bool \<Rightarrow> str \<Rightarrow> str \<Rightarrow> filesystem \<Rightarrow> bool \<times> filesystem list" where
  "publish_pending renames removable temporary path fs =
     (if renames then (True, [update_dir (MoveEntry temporary path) fs])
      else (False, [drop_pending removable temporary fs]))"

definition replace_file ::
  "prepare_io \<Rightarrow> bool \<Rightarrow> bool \<Rightarrow> str \<Rightarrow> str \<Rightarrow> str \<Rightarrow> filesystem \<Rightarrow> bool \<times> filesystem list" where
  "replace_file io renames removable temporary path bytes fs =
     (case prepare io removable temporary bytes fs of
        (False, states) \<Rightarrow> (False, states)
      | (True, states) \<Rightarrow>
          (let (ok, more_states) = publish_pending renames removable temporary path (last_state fs states)
           in (ok, states @ more_states)))"

definition rotate_previous :: "publish_io \<Rightarrow> str \<Rightarrow> str \<Rightarrow> str \<Rightarrow> filesystem \<Rightarrow> str option \<times> filesystem list" where
  "rotate_previous io path backup temporary fs =
     (case read_file fs path of
        None \<Rightarrow> (None, [])
      | Some previous \<Rightarrow>
          if \<not> io_previous io then (Some ''Failed to read previous configuration'', [])
          else (case replace_file (io_rotate io) (io_rotate_rename io) (io_remove io) temporary backup previous fs of
                  (ok, states) \<Rightarrow> (if ok then None else Some ''Failed to publish prepared configuration'', states)))"

definition refresh_backup ::
  "publish_io \<Rightarrow> str \<Rightarrow> str \<Rightarrow> str \<Rightarrow> filesystem \<Rightarrow> bool \<times> filesystem list" where
  "refresh_backup io backup temporary bytes fs =
     (if \<not> io_refresh_before io then (False, [])
      else case replace_file (io_refresh io) (io_refresh_rename io) (io_remove io) temporary backup bytes fs of
             (False, states) \<Rightarrow> (False, states)
           | (True, states) \<Rightarrow>
               if io_refresh_synced io then (True, states @ [sync_parent (last_state fs states)]) else (False, states))"

text \<open>The part after the main file is visible: no failure is reported as a lost write.\<close>

definition after_publication ::
  "publish_io \<Rightarrow> str \<Rightarrow> str \<Rightarrow> str \<Rightarrow> bool \<Rightarrow> filesystem \<Rightarrow> config_commit \<times> filesystem list" where
  "after_publication io backup temporary bytes refresh fs =
     (let synced = (if io_synced io then [sync_parent fs] else []);
          (refreshed, states) = (if refresh then refresh_backup io backup temporary bytes (last_state fs synced)
                                 else (True, []))
      in (\<lparr>durability = (if io_synced io then Confirmed else Unconfirmed), backup_refresh_pending = \<not> refreshed\<rparr>,
          synced @ states))"

definition publish_with_backup ::
  "publish_io \<Rightarrow> str \<Rightarrow> str \<Rightarrow> (nat \<Rightarrow> str) \<Rightarrow> str \<Rightarrow> bool \<Rightarrow> bool \<Rightarrow> filesystem
    \<Rightarrow> (str + config_commit) \<times> filesystem list" where
  "publish_with_backup io path backup temporary bytes rotating refresh fs =
     (case prepare (io_main io) (io_remove io) (temporary 0) bytes fs of
        (False, prepared) \<Rightarrow> (Inl ''Failed to prepare private configuration file'', prepared)
      | (True, prepared) \<Rightarrow>
          let fs = last_state fs prepared;
              (failure, rotated) = (if rotating then rotate_previous io path backup (temporary 1) fs else (None, []));
              fs = last_state fs rotated;
              dropped = prepared @ rotated @ [drop_pending (io_remove io) (temporary 0) fs]
          in case failure of
               Some e \<Rightarrow> (Inl e, dropped)
             | None \<Rightarrow>
                 if \<not> io_before io then (Inl ''BeforePublish'', dropped)
                 else if \<not> io_rename io then (Inl ''Failed to publish prepared configuration'', dropped)
                 else let fs = update_dir (MoveEntry (temporary 0) path) fs;
                          (commit, states) = after_publication io backup (temporary 2) bytes refresh fs
                      in (Inr commit, prepared @ rotated @ fs # states))"

definition config_backup_path :: "str \<Rightarrow> str" where
  "config_backup_path path =
     (let (dir, name) = (case rsplit_once CHR ''/'' path of Some (d, n) \<Rightarrow> (d @ ''/'', n) | None \<Rightarrow> ([], path));
          stem = (case rsplit_once CHR ''.'' name of Some (s, _) \<Rightarrow> if s = [] then name else s | None \<Rightarrow> name)
      in dir @ stem @ ''.json.bak'')"

definition publish ::
  "publish_io \<Rightarrow> str \<Rightarrow> (nat \<Rightarrow> str) \<Rightarrow> str \<Rightarrow> bool \<Rightarrow> bool \<Rightarrow> filesystem \<Rightarrow> (str + config_commit) \<times> filesystem list" where
  "publish io path temporary bytes rotating refresh fs =
     publish_with_backup io path (config_backup_path path) temporary bytes rotating refresh fs"

section \<open>Loading and saving the configuration\<close>

text \<open>
  The codecs are parameters: the test for JSON, the decoding of a candidate (migration,
  decryption, decoding and validation, with the two migration marks), its encoding, the sealing
  of the recovery copy, the first configuration, and the file of the initial credentials.
\<close>

record initial_credentials =
  ic_admin_username :: str
  ic_admin_password :: str
  ic_web_access_password :: str

record 'c config_lib =
  json_ok :: "str \<Rightarrow> bool"
  decode_candidate :: "str \<Rightarrow> str + 'c \<times> bool \<times> bool"
  encode_candidate :: "'c \<Rightarrow> str + str"
  seal_migration :: "str \<Rightarrow> str + str"
  with_credentials :: "initial_credentials \<Rightarrow> 'c"
  parse_credentials :: "str \<Rightarrow> initial_credentials option"
  show_credentials :: "initial_credentials \<Rightarrow> str"

definition persist_candidate ::
  "'c config_lib \<Rightarrow> publish_io \<Rightarrow> str \<Rightarrow> (nat \<Rightarrow> str) \<Rightarrow> 'c \<Rightarrow> bool \<Rightarrow> bool \<Rightarrow> filesystem
    \<Rightarrow> (str + config_commit) \<times> filesystem list" where
  "persist_candidate lib io path temporary config rotating refresh fs =
     (case encode_candidate lib config of
        Inl e \<Rightarrow> (Inl e, [])
      | Inr bytes \<Rightarrow> publish io path temporary bytes rotating refresh fs)"

definition save_config ::
  "'c config_lib \<Rightarrow> publish_io \<Rightarrow> str \<Rightarrow> (nat \<Rightarrow> str) \<Rightarrow> 'c \<Rightarrow> filesystem \<Rightarrow> (str + config_commit) \<times> filesystem list" where
  "save_config lib io path temporary config fs = persist_candidate lib io path temporary config True False fs"

definition save_config_refresh_backup ::
  "'c config_lib \<Rightarrow> publish_io \<Rightarrow> str \<Rightarrow> (nat \<Rightarrow> str) \<Rightarrow> 'c \<Rightarrow> filesystem \<Rightarrow> (str + config_commit) \<times> filesystem list" where
  "save_config_refresh_backup lib io path temporary config fs = persist_candidate lib io path temporary config True True fs"

definition preserve_migration_backup ::
  "'c config_lib \<Rightarrow> publish_io \<Rightarrow> str \<Rightarrow> (nat \<Rightarrow> str) \<Rightarrow> str \<Rightarrow> filesystem \<Rightarrow> (str + unit) \<times> filesystem list" where
  "preserve_migration_backup lib io slot temporary content fs =
     (case seal_migration lib content of
        Inl e \<Rightarrow> (Inl e, [])
      | Inr sealed \<Rightarrow>
          (case publish io slot temporary sealed False False fs of
             (Inl e, states) \<Rightarrow> (Inl e, states)
           | (Inr commit, states) \<Rightarrow>
               (if durability commit = Confirmed then Inr ()
                else Inl ''Migration recovery snapshot durability was not confirmed; configuration was not migrated'', states)))"

text \<open>
  Which text to load. A main file that cannot be read for another reason than its absence ends
  the start; only an absent or torn one is replaced by the backup.
\<close>

definition select_content :: "'c config_lib \<Rightarrow> bool \<Rightarrow> filesystem \<Rightarrow> str \<Rightarrow> str + str \<times> bool" where
  "select_content lib unreadable fs path =
     (let backup = (case read_file fs (config_backup_path path) of
                      Some content \<Rightarrow> Inr (content, True)
                    | None \<Rightarrow> Inl ''Primary config is unavailable and backup recovery failed'')
      in case read_file fs path of
           None \<Rightarrow> backup
         | Some content \<Rightarrow>
             if unreadable then Inl ''Failed to read primary configuration; refusing automatic rollback''
             else if json_ok lib content then Inr (content, False) else backup)"

definition load_existing ::
  "'c config_lib \<Rightarrow> bool \<Rightarrow> publish_io \<Rightarrow> publish_io \<Rightarrow> str \<Rightarrow> str \<Rightarrow> (nat \<Rightarrow> str) \<Rightarrow> (nat \<Rightarrow> str) \<Rightarrow> filesystem
    \<Rightarrow> (str + 'c) \<times> filesystem list" where
  "load_existing lib unreadable io_slot io path slot slot_temporary temporary fs =
     (case select_content lib unreadable fs path of
        Inl e \<Rightarrow> (Inl e, [])
      | Inr (content, recovering) \<Rightarrow>
          (case decode_candidate lib content of
             Inl e \<Rightarrow> (Inl e, [])
           | Inr (config, migrated, credentials_migrated) \<Rightarrow>
               let (preserved, states) = (if migrated then preserve_migration_backup lib io_slot slot slot_temporary content fs
                                          else (Inr (), []));
                   fs = last_state fs states
               in case preserved of
                    Inl e \<Rightarrow> (Inl e, states)
                  | Inr _ \<Rightarrow>
                      if recovering \<or> migrated \<or> credentials_migrated
                      then (case persist_candidate lib io path temporary config (\<not> recovering) credentials_migrated fs of
                              (Inl e, more_states) \<Rightarrow> (Inl e, states @ more_states)
                            | (Inr _, more_states) \<Rightarrow> (Inr config, states @ more_states))
                      else (Inr config, states)))"

definition validate_initial_credentials :: "initial_credentials \<Rightarrow> bool" where
  "validate_initial_credentials c \<longleftrightarrow>
     \<not> (trim (ic_admin_username c) = [] \<or> 128 < length (chars (ic_admin_username c))
        \<or> length (chars (ic_admin_password c)) < 12 \<or> length (chars (ic_web_access_password c)) < 8
        \<or> 4096 < length (ic_admin_password c) \<or> 4096 < length (ic_web_access_password c))"

definition load_or_create_initial_credentials ::
  "'c config_lib \<Rightarrow> prepare_io \<Rightarrow> bool \<Rightarrow> bool \<Rightarrow> bool \<Rightarrow> str \<Rightarrow> str \<Rightarrow> initial_credentials \<Rightarrow> filesystem
    \<Rightarrow> (str + initial_credentials) \<times> filesystem list" where
  "load_or_create_initial_credentials lib io renames synced removable file_name temporary generated fs =
     (case read_file fs file_name of
        Some content \<Rightarrow>
          (case parse_credentials lib content of
             None \<Rightarrow> (Inl ''Initial credentials file is invalid'', [])
           | Some c \<Rightarrow>
               (if validate_initial_credentials c then Inr c
                else Inl ''Initial credentials file does not satisfy the password policy'', []))
      | None \<Rightarrow>
          (case replace_file io renames removable temporary file_name (show_credentials lib generated) fs of
             (False, states) \<Rightarrow> (Inl ''Failed to publish initial credentials file'', states)
           | (True, states) \<Rightarrow>
               if synced then (Inr generated, states @ [sync_parent (last_state fs states)])
               else (Inl ''Failed to synchronize configuration directory'', states)))"

text \<open>What the start is given of the first installation.\<close>

record first_start =
  fs_credentials_io :: prepare_io
  fs_renames :: bool
  fs_synced :: bool
  fs_file :: str
  fs_temporary :: str
  fs_generated :: initial_credentials

definition load_config_inner ::
  "'c config_lib \<Rightarrow> bool \<Rightarrow> publish_io \<Rightarrow> publish_io \<Rightarrow> first_start \<Rightarrow> str \<Rightarrow> str \<Rightarrow> (nat \<Rightarrow> str) \<Rightarrow> (nat \<Rightarrow> str) \<Rightarrow> filesystem
    \<Rightarrow> (str + 'c) \<times> filesystem list" where
  "load_config_inner lib unreadable io_slot io first path slot slot_temporary temporary fs =
     (if read_file fs path \<noteq> None \<or> read_file fs (config_backup_path path) \<noteq> None
      then load_existing lib unreadable io_slot io path slot slot_temporary temporary fs
      else case load_or_create_initial_credentials lib (fs_credentials_io first) (fs_renames first) (fs_synced first)
                  (io_remove io) (fs_file first) (fs_temporary first) (fs_generated first) fs of
             (Inl e, states) \<Rightarrow> (Inl e, states)
           | (Inr credentials, states) \<Rightarrow>
               let config = with_credentials lib credentials
               in case save_config lib io path temporary config (last_state fs states) of
                    (Inl e, more_states) \<Rightarrow> (Inl e, states @ more_states)
                  | (Inr _, more_states) \<Rightarrow> (Inr config, states @ more_states))"

section \<open>What a crash can reveal\<close>

definition crash_read :: "filesystem \<Rightarrow> nat \<Rightarrow> (nat \<Rightarrow> str) \<Rightarrow> str \<Rightarrow> str option" where
  "crash_read fs k garbage n =
     Option.bind (al_get (entries_after fs k) n) (\<lambda>i.
       map_option (\<lambda>(c, flushed). if flushed then c else garbage i) (al_get (inodes fs) i))"

lemma read_after_crash: "read_file (crash k garbage fs) n = crash_read fs k garbage n"
proof -
  have "map_option fst (al_get (map (\<lambda>(i, c, flushed). (i, if flushed then c else garbage i, True)) m) i)
      = map_option (\<lambda>(c, flushed). if flushed then c else garbage i) (al_get m i)" for m i
    by (induction m) (auto simp: al_get_def)
  then show ?thesis
    by (simp add: read_file_def crash_def crash_read_def entries_def cong: bind_option_cong)
qed

definition possible :: "filesystem \<Rightarrow> str \<Rightarrow> str option set" where
  "possible fs n = {c. \<exists>k garbage. c = read_file (crash k garbage fs) n}"

lemma possible_alt: "possible fs n = {c. \<exists>k garbage. c = crash_read fs k garbage n}"
  by (simp add: possible_def read_after_crash)

text \<open>Every entry points to an inode that exists.\<close>

definition fs_ok :: "filesystem \<Rightarrow> bool" where
  "fs_ok fs \<longleftrightarrow> (\<forall>k n i. al_get (entries_after fs k) n = Some i \<longrightarrow> i < next_inode fs)"

text \<open>
  A file system change that keeps a name: what a crash can reveal for it does not grow, and its
  entry and all older inodes are the same.
\<close>

definition keeps :: "str \<Rightarrow> filesystem \<Rightarrow> filesystem \<Rightarrow> bool" where
  "keeps n fs fs' \<longleftrightarrow>
     fs_ok fs' \<and> next_inode fs \<le> next_inode fs'
     \<and> (\<forall>i < next_inode fs. al_get (inodes fs') i = al_get (inodes fs) i)
     \<and> (\<forall>k'. \<exists>k. al_get (entries_after fs' k') n = al_get (entries_after fs k) n)
     \<and> al_get (entries fs') n = al_get (entries fs) n"

lemma entries_is_after: "entries fs = entries_after fs (length (updates fs))"
  by (simp add: entries_def entries_after_def)

lemma keeps_refl: "fs_ok fs \<Longrightarrow> keeps n fs fs"
  by (auto simp: keeps_def)

lemma keeps_trans: "keeps n a b \<Longrightarrow> keeps n b c \<Longrightarrow> keeps n a c"
  unfolding keeps_def by (metis (no_types, opaque_lifting) order_less_le_trans order_trans)

lemma keeps_possible:
  assumes "keeps n fs fs'" "fs_ok fs"
  shows "possible fs' n \<subseteq> possible fs n"
proof
  fix c assume "c \<in> possible fs' n"
  then obtain k' g where c: "c = crash_read fs' k' g n" by (auto simp: possible_alt)
  obtain k where k: "al_get (entries_after fs' k') n = al_get (entries_after fs k) n" using assms(1) by (auto simp: keeps_def)
  have "i < next_inode fs" if "al_get (entries_after fs k) n = Some i" for i using assms(2) that by (auto simp: fs_ok_def)
  then have "c = crash_read fs k g n"
    using assms(1) k c by (auto simp: crash_read_def keeps_def split: option.splits intro!: bind_option_cong)
  then show "c \<in> possible fs n" by (auto simp: possible_alt)
qed

lemma keeps_read: "keeps n fs fs' \<Longrightarrow> fs_ok fs \<Longrightarrow> read_file fs' n = read_file fs n"
  by (auto simp: keeps_def read_file_def fs_ok_def entries_is_after intro!: bind_option_cong)

lemma entries_after_update:
  "entries_after (update_dir u fs) k = (if k \<le> length (updates fs) then entries_after fs k else apply_update (entries fs) u)"
  by (auto simp: entries_after_def update_dir_def entries_def)

lemma entries_update [simp]: "entries (update_dir u fs) = apply_update (entries fs) u"
  by (simp add: entries_def update_dir_def)

lemma entries_set_inode [simp]: "entries (set_inode i v fs) = entries fs" "entries_after (set_inode i v fs) k = entries_after fs k"
  by (simp_all add: entries_def entries_after_def set_inode_def)

lemma entries_sync [simp]: "entries (sync_parent fs) = entries fs" "entries_after (sync_parent fs) k = entries fs"
  by (simp_all add: entries_def entries_after_def sync_parent_def)

lemma update_fields [simp]:
  "inodes (update_dir u fs) = inodes fs" "next_inode (update_dir u fs) = next_inode fs"
  "next_inode (set_inode i v fs) = next_inode fs" "inodes (set_inode i v fs) = al_insert i v (inodes fs)"
  "inodes (sync_parent fs) = inodes fs" "next_inode (sync_parent fs) = next_inode fs"
  by (simp_all add: update_dir_def set_inode_def sync_parent_def)

fun touches :: "dir_update \<Rightarrow> str set" where
  "touches (Link n i) = {n}"
| "touches (Unlink n) = {n}"
| "touches (MoveEntry a b) = {a, b}"

lemma apply_untouched: "n \<notin> touches u \<Longrightarrow> al_get (apply_update m u) n = al_get m n"
  by (cases u) (auto split: option.splits)

lemma apply_range:
  "al_get (apply_update m u) n = Some i \<Longrightarrow> (\<exists>n'. al_get m n' = Some i) \<or> (\<exists>n'. u = Link n' i)"
  by (cases u) (auto split: option.splits if_splits)

lemma fs_ok_update:
  assumes "fs_ok fs" "\<And>n i. u = Link n i \<Longrightarrow> i < next_inode fs"
  shows "fs_ok (update_dir u fs)"
  using assms unfolding fs_ok_def entries_after_update entries_is_after
  by (auto dest!: apply_range split: if_splits)

lemma keeps_update:
  assumes "fs_ok fs" "n \<notin> touches u" "\<And>n i. u = Link n i \<Longrightarrow> i < next_inode fs"
  shows "keeps n fs (update_dir u fs)"
proof -
  have "fs_ok (update_dir u fs)" by (rule fs_ok_update [OF assms(1)]) (rule assms(3))
  then show ?thesis
    using apply_untouched [OF assms(2)] by (auto simp: keeps_def entries_after_update) (metis entries_is_after)
qed

lemma keeps_sync: "fs_ok fs \<Longrightarrow> keeps n fs (sync_parent fs)"
  by (auto simp: keeps_def fs_ok_def entries_is_after)

lemma keeps_create: "fs_ok fs \<Longrightarrow> n \<noteq> t \<Longrightarrow> keeps n fs (create_file t fs)"
proof -
  assume ok: "fs_ok fs" and n: "n \<noteq> t"
  let ?fs = "create_file t fs"
  have e: "entries_after ?fs k = entries_after (update_dir (Link t (next_inode fs)) fs) k" "entries ?fs = entries (update_dir (Link t (next_inode fs)) fs)" for k
    by (simp_all add: create_file_def entries_after_def entries_def set_inode_def)
  have "fs_ok ?fs"
    using ok unfolding fs_ok_def e entries_after_update entries_is_after
    by (fastforce simp: create_file_def split: if_splits)
  then show ?thesis
    using n unfolding keeps_def e
    by (auto simp: create_file_def entries_after_update) (metis entries_is_after)
qed

lemma keeps_set_new: "keeps n fs fs' \<Longrightarrow> next_inode fs \<le> i \<Longrightarrow> keeps n fs (set_inode i v fs')"
  by (auto simp: keeps_def fs_ok_def)

section \<open>The steps of a publication\<close>

lemma keeps_drop: "fs_ok fs \<Longrightarrow> n \<noteq> t \<Longrightarrow> keeps n fs (drop_pending removable t fs)"
  by (auto simp: drop_pending_def intro: keeps_update keeps_refl)

lemma keeps_ok: "keeps n fs fs' \<Longrightarrow> fs_ok fs'"
  by (simp add: keeps_def)

lemma last_state_simps [simp]: "last_state fs [] = fs" "last_state fs (xs @ [b]) = b" "last_state fs (a # b # xs) = last_state fs (b # xs)"
  "last_state fs [a] = a"
  by (simp_all add: last_state_def)

lemma last_state_keeps: "\<forall>s \<in> set states. keeps n fs s \<Longrightarrow> fs_ok fs \<Longrightarrow> keeps n fs (last_state fs states)"
  by (auto simp: last_state_def keeps_refl)

text \<open>Preparing a file touches no other name; a prepared file has its bytes flushed.\<close>

lemma prepare_keeps:
  assumes "prepare io removable t bytes fs = (ok, states)" "fs_ok fs" "n \<noteq> t"
  shows "\<forall>s \<in> set states. keeps n fs s"
proof -
  have c: "keeps n fs (create_file t fs)" by (rule keeps_create [OF assms(2,3)])
  have w: "keeps n fs (set_inode (next_inode fs) v (create_file t fs))" for v by (rule keeps_set_new [OF c]) simp
  have f: "keeps n fs (set_inode (next_inode fs) v' (set_inode (next_inode fs) v (create_file t fs)))" for v v'
    by (rule keeps_set_new [OF w]) simp
  have d: "keeps n fs (drop_pending removable t (set_inode (next_inode fs) v (create_file t fs)))" for v
    by (rule keeps_trans [OF w keeps_drop [OF keeps_ok [OF w] assms(3)]])
  show ?thesis using assms(1) c w f d by (auto simp: prepare_def Let_def split: prepare_io.splits)
qed

lemma prepared_file:
  assumes "prepare io removable t bytes fs = (True, states)"
  shows "al_get (entries (last_state fs states)) t = Some (next_inode fs)"
    "al_get (inodes (last_state fs states)) (next_inode fs) = Some (bytes, True)"
    "next_inode (last_state fs states) = next_inode fs + 1"
  using assms
  by (auto simp: prepare_def Let_def create_file_def entries_def set_inode_def update_dir_def last_state_def split: prepare_io.splits)

lemma replace_keeps:
  assumes "replace_file io renames removable t path bytes fs = (ok, states)" "fs_ok fs" "n \<noteq> t" "n \<noteq> path"
  shows "\<forall>s \<in> set states. keeps n fs s"
proof -
  obtain ok1 st where p: "prepare io removable t bytes fs = (ok1, st)" by force
  note k = prepare_keeps [OF p assms(2,3)]
  let ?fs = "last_state fs st"
  have l: "keeps n fs ?fs" using last_state_keeps k assms(2) by blast
  have "keeps n ?fs (update_dir (MoveEntry t path) ?fs)" using assms(3,4) by (intro keeps_update [OF keeps_ok [OF l]]) auto
  then have m: "keeps n fs (update_dir (MoveEntry t path) ?fs)" by (rule keeps_trans [OF l])
  have d: "keeps n fs (drop_pending removable t ?fs)" by (rule keeps_trans [OF l keeps_drop [OF keeps_ok [OF l] assms(3)]])
  show ?thesis
    using assms(1) p k m d by (auto simp: replace_file_def publish_pending_def split: bool.splits if_splits)
qed

lemma rotate_keeps:
  assumes "rotate_previous io path backup t fs = (failure, states)" "fs_ok fs" "n \<noteq> t" "n \<noteq> backup"
  shows "\<forall>s \<in> set states. keeps n fs s"
  using assms(1) replace_keeps [OF _ assms(2-4)]
  by (fastforce simp: rotate_previous_def split: option.splits if_splits prod.splits)

lemma refresh_keeps:
  assumes "refresh_backup io backup t bytes fs = (ok, states)" "fs_ok fs" "n \<noteq> t" "n \<noteq> backup"
  shows "\<forall>s \<in> set states. keeps n fs s"
proof -
  obtain ok1 st where r: "replace_file (io_refresh io) (io_refresh_rename io) (io_remove io) t backup bytes fs = (ok1, st)" by force
  note k = replace_keeps [OF r assms(2-4)]
  have l: "keeps n fs (last_state fs st)" using last_state_keeps k assms(2) by blast
  have "keeps n fs (sync_parent (last_state fs st))" by (rule keeps_trans [OF l keeps_sync [OF keeps_ok [OF l]]])
  then show ?thesis using assms(1) r k by (auto simp: refresh_backup_def split: if_splits bool.splits)
qed

lemma after_publication_keeps:
  assumes "after_publication io backup t bytes refresh fs = (commit, states)" "fs_ok fs" "n \<noteq> t" "n \<noteq> backup"
  shows "\<forall>s \<in> set states. keeps n fs s"
proof -
  let ?synced = "if io_synced io then [sync_parent fs] else []"
  have s: "keeps n fs (last_state fs ?synced)" using keeps_sync keeps_refl assms(2) by simp
  obtain ok st where r: "(if refresh then refresh_backup io backup t bytes (last_state fs ?synced) else (True, [])) = (ok, st)" by force
  then have "\<forall>s \<in> set st. keeps n (last_state fs ?synced) s"
    using refresh_keeps [OF _ keeps_ok [OF s] assms(3,4)] by (auto split: if_splits)
  then show ?thesis
    using assms(1,2) r keeps_trans [OF s] keeps_sync by (auto simp: after_publication_def Let_def split: if_splits)
qed

lemma confirmed_synced:
  assumes "after_publication io backup t bytes refresh fs = (commit, states)" "fs_ok fs" "n \<noteq> t" "n \<noteq> backup"
    "durability commit = Confirmed"
  shows "keeps n (sync_parent fs) (last_state fs states)"
proof -
  let ?fs = "sync_parent fs"
  have ok: "fs_ok ?fs" by (rule keeps_ok [OF keeps_sync [OF assms(2)]])
  obtain refreshed st where r: "(if refresh then refresh_backup io backup t bytes ?fs else (True, [])) = (refreshed, st)" by force
  have "io_synced io" using assms(1,5) by (auto simp: after_publication_def Let_def split: prod.splits if_splits)
  then have states: "states = ?fs # st" using assms(1) r by (cases refresh) (auto simp: after_publication_def Let_def)
  have "\<forall>s \<in> set st. keeps n ?fs s" using refresh_keeps [OF _ ok assms(3,4)] r by (auto split: if_splits)
  from last_state_keeps [OF this ok] show ?thesis by (cases st) (simp_all add: states last_state_def)
qed

text \<open>The rename makes the prepared bytes visible, and adds only them to what a crash can reveal.\<close>

definition publishes :: "str \<Rightarrow> str \<Rightarrow> filesystem \<Rightarrow> filesystem \<Rightarrow> bool" where
  "publishes n bytes fs fs' \<longleftrightarrow>
     fs_ok fs' \<and> possible fs' n \<subseteq> insert (Some bytes) (possible fs n)
     \<and> (\<exists>i. al_get (entries fs') n = Some i \<and> al_get (inodes fs') i = Some (bytes, True))"

lemma rename_publishes:
  assumes "keeps path fs fs1" "fs_ok fs" "al_get (entries fs1) t = Some i" "al_get (inodes fs1) i = Some (bytes, True)" "t \<noteq> path"
  shows "publishes path bytes fs (update_dir (MoveEntry t path) fs1)"
proof -
  let ?fs = "update_dir (MoveEntry t path) fs1"
  have e: "al_get (entries ?fs) path = Some i" using assms(3) by simp
  have "c \<in> insert (Some bytes) (possible fs path)" if c: "c \<in> possible ?fs path" for c
  proof -
    obtain k g where c: "c = crash_read ?fs k g path" using c by (auto simp: possible_alt)
    show ?thesis
    proof (cases "k \<le> length (updates fs1)")
      case True
      then have "c = crash_read fs1 k g path" using c by (simp add: crash_read_def entries_after_update)
      then show ?thesis using keeps_possible [OF assms(1,2)] by (auto simp: possible_alt)
    next
      case False
      then show ?thesis using c e assms(4) by (simp add: crash_read_def entries_after_update)
    qed
  qed
  moreover have "fs_ok ?fs" using keeps_ok [OF assms(1)] by (rule fs_ok_update) simp
  ultimately show ?thesis using e assms(4) by (auto simp: publishes_def)
qed

lemma publishes_keeps: "publishes n bytes fs fs1 \<Longrightarrow> keeps n fs1 fs2 \<Longrightarrow> publishes n bytes fs fs2"
proof -
  assume p: "publishes n bytes fs fs1" and k: "keeps n fs1 fs2"
  have ok: "fs_ok fs1" using p by (simp add: publishes_def)
  obtain i where i: "al_get (entries fs1) n = Some i" "al_get (inodes fs1) i = Some (bytes, True)"
    using p by (auto simp: publishes_def)
  then have "i < next_inode fs1" using ok by (auto simp: fs_ok_def entries_is_after)
  then show ?thesis using p k i keeps_possible [OF k ok] by (auto simp: publishes_def keeps_def)
qed

lemma synced_possible:
  assumes "al_get (entries fs) n = Some i" "al_get (inodes fs) i = Some (bytes, True)"
  shows "possible (sync_parent fs) n = {Some bytes}"
  using assms by (auto simp: possible_alt crash_read_def)

lemma replace_publishes:
  assumes "replace_file io renames removable t path bytes fs = (True, states)" "fs_ok fs" "t \<noteq> path"
  shows "publishes path bytes fs (last_state fs states)"
proof -
  obtain st where p: "prepare io removable t bytes fs = (True, st)" and
    states: "states = st @ [update_dir (MoveEntry t path) (last_state fs st)]"
    using assms(1) by (auto simp: replace_file_def publish_pending_def split: prod.splits bool.splits if_splits)
  have "keeps path fs (last_state fs st)"
    by (rule last_state_keeps [OF prepare_keeps [OF p assms(2)] assms(2)]) (use assms(3) in simp)
  from rename_publishes [OF this assms(2) prepared_file(1,2) [OF p] assms(3)] show ?thesis by (simp add: states)
qed

section \<open>The whole publication\<close>

definition names_apart :: "str \<Rightarrow> str \<Rightarrow> (nat \<Rightarrow> str) \<Rightarrow> bool" where
  "names_apart path backup temporary \<longleftrightarrow>
     path \<noteq> backup \<and> (\<forall>j < 3. temporary j \<noteq> path \<and> temporary j \<noteq> backup) \<and> inj_on temporary {0, 1, 2}"

lemma names_apartD:
  assumes "names_apart path backup temporary"
  shows "path \<noteq> backup" "temporary 0 \<noteq> path" "temporary 1 \<noteq> path" "temporary 2 \<noteq> path"
    "temporary 0 \<noteq> backup" "temporary 1 \<noteq> backup" "temporary 2 \<noteq> backup" "temporary 0 \<noteq> temporary 1"
  using assms by (auto simp: names_apart_def inj_on_def numeral_3_eq_3)

lemma last_state_append [simp]: "last_state fs (xs @ ys) = last_state (last_state fs xs) ys"
  by (simp add: last_state_def)

text \<open>A publication fails with the file kept, or passes one rename of the prepared bytes.\<close>

lemma publish_shape:
  assumes "publish_with_backup io path backup temporary bytes rotating refresh fs = (r, states)" "fs_ok fs"
    "names_apart path backup temporary"
  obtains (failed) e where "r = Inl e" "\<forall>s \<in> set states. keeps path fs s"
  | (published) commit before fs1 post where "r = Inr commit" "states = before @ fs1 # post"
      "\<forall>s \<in> set before. keeps path fs s" "publishes path bytes fs fs1" "\<forall>s \<in> set post. keeps path fs1 s"
      "durability commit = Confirmed \<Longrightarrow> keeps path (sync_parent fs1) (last_state fs1 post)"
proof -
  note apart = names_apartD [OF assms(3)]
  obtain ok prepared where p: "prepare (io_main io) (io_remove io) (temporary 0) bytes fs = (ok, prepared)" by force
  have k0: "\<forall>s \<in> set prepared. keeps path fs s" using prepare_keeps [OF p assms(2)] apart(2) by auto
  let ?f0 = "last_state fs prepared"
  have l0: "keeps path fs ?f0" by (rule last_state_keeps [OF k0 assms(2)])
  obtain failure rotated where rot: "(if rotating then rotate_previous io path backup (temporary 1) ?f0 else (None, [])) = (failure, rotated)" by force
  have k1: "\<forall>s \<in> set rotated. keeps path ?f0 s"
    using rotate_keeps [of io path backup "temporary 1" ?f0 failure rotated path] rot keeps_ok [OF l0] apart by (auto split: if_splits)
  let ?f1 = "last_state ?f0 rotated"
  have l1: "keeps path ?f0 ?f1" by (rule last_state_keeps [OF k1 keeps_ok [OF l0]])
  have k01: "\<forall>s \<in> set (prepared @ rotated). keeps path fs s" using k0 k1 keeps_trans [OF l0] by auto
  have l01: "keeps path fs ?f1" by (rule keeps_trans [OF l0 l1])
  have d: "keeps path fs (drop_pending (io_remove io) (temporary 0) ?f1)"
    using keeps_trans [OF l01 keeps_drop [OF keeps_ok [OF l01]]] apart(2) by simp
  let ?f2 = "update_dir (MoveEntry (temporary 0) path) ?f1"
  obtain commit post where a: "after_publication io backup (temporary 2) bytes refresh ?f2 = (commit, post)" by force
  show thesis
  proof (cases "\<exists>e. r = Inl e")
    case True
    then show thesis using assms(1) p rot k01 d failed a
      by (auto simp: publish_with_backup_def Let_def split: bool.splits option.splits if_splits)
  next
    case False
    then have ok: "ok" "failure = None" and r: "r = Inr commit" "states = (prepared @ rotated) @ ?f2 # post"
      using assms(1) p rot a
      by (auto simp: publish_with_backup_def Let_def split: bool.splits option.splits if_splits)
    have t0: "keeps (temporary 0) ?f0 ?f1"
      using rotate_keeps [of io path backup "temporary 1" ?f0 failure rotated "temporary 0"] rot keeps_ok [OF l0] apart
        last_state_keeps [of rotated "temporary 0" ?f0] by (auto split: if_splits)
    have "al_get (entries ?f1) (temporary 0) = Some (next_inode fs)" "al_get (inodes ?f1) (next_inode fs) = Some (bytes, True)"
      using t0 prepared_file [of "io_main io" "io_remove io" "temporary 0" bytes fs prepared] p ok by (auto simp: keeps_def)
    then have pub: "publishes path bytes fs ?f2" using rename_publishes [OF l01 assms(2)] apart(2) by blast
    then have "\<forall>s \<in> set post. keeps path ?f2 s"
      using after_publication_keeps [OF a] apart by (auto simp: publishes_def)
    moreover have "durability commit = Confirmed \<Longrightarrow> keeps path (sync_parent ?f2) (last_state ?f2 post)"
      using confirmed_synced [OF a] pub apart by (auto simp: publishes_def)
    ultimately show thesis by (rule published [OF r k01 pub])
  qed
qed

lemma publish_possible:
  assumes "publish_with_backup io path backup temporary bytes rotating refresh fs = (r, states)" "fs_ok fs"
    "names_apart path backup temporary" "s \<in> set states"
  shows "possible s path \<subseteq> insert (Some bytes) (possible fs path)"
  using assms(1-3)
proof (cases rule: publish_shape)
  case (failed e)
  then show ?thesis using keeps_possible [OF _ assms(2)] assms(4) by blast
next
  case (published commit before fs1 post)
  then consider "s \<in> set before" | "s = fs1" | "s \<in> set post" using assms(4) by auto
  then show ?thesis
  proof cases
    case 1
    then show ?thesis using keeps_possible [OF _ assms(2)] published(3) by blast
  next
    case 3
    then have "publishes path bytes fs s" using publishes_keeps [OF published(4)] published(5) by blast
    then show ?thesis by (simp add: publishes_def)
  qed (use published(4) in \<open>simp add: publishes_def\<close>)
qed

section \<open>Properties\<close>

text \<open>
  C3: publishing a private file is atomic, whichever system call fails and wherever a crash
  happens: a later start finds what it could find before, or exactly the new bytes. A reported error
  leaves the file as it was, success shows the new bytes, and confirmed durability means that a crash
  can no longer bring back the old ones.
\<close>

theorem publish_is_atomic:
  assumes "publish_with_backup io path backup temporary bytes rotating refresh fs = (r, states)" "fs_ok fs"
    "names_apart path backup temporary"
  shows "(\<forall>s \<in> set states. possible s path \<subseteq> insert (Some bytes) (possible fs path))
       \<and> (\<forall>e. r = Inl e \<longrightarrow> (\<forall>s \<in> set states. possible s path \<subseteq> possible fs path)
                            \<and> read_file (last_state fs states) path = read_file fs path)
       \<and> (\<forall>commit. r = Inr commit \<longrightarrow> read_file (last_state fs states) path = Some bytes
            \<and> (durability commit = Confirmed \<longrightarrow> possible (last_state fs states) path = {Some bytes}))"
  using assms
proof (cases rule: publish_shape)
  case (failed e)
  then show ?thesis
    using keeps_possible [OF _ assms(2)] keeps_read [OF last_state_keeps [OF failed(2) assms(2)] assms(2)] by blast
next
  case (published commit before fs1 post)
  have ok1: "fs_ok fs1" using published(4) by (simp add: publishes_def)
  let ?stop = "last_state fs states"
  have e: "?stop = last_state fs1 post" by (cases post) (simp_all add: published(2) last_state_def)
  have "possible s path \<subseteq> insert (Some bytes) (possible fs path)" if "s \<in> set states" for s
    using publish_possible [OF assms that] .
  moreover have "read_file ?stop path = Some bytes"
    using publishes_keeps [OF published(4) last_state_keeps [OF published(5) ok1]] by (auto simp: e publishes_def read_file_def)
  moreover have "possible ?stop path = {Some bytes}" if "durability commit = Confirmed"
  proof -
    obtain i where i: "al_get (entries fs1) path = Some i" "al_get (inodes fs1) i = Some (bytes, True)"
      using published(4) by (auto simp: publishes_def)
    have "possible ?stop path \<subseteq> {Some bytes}"
      using keeps_possible [OF published(6) [OF that] keeps_ok [OF keeps_sync [OF ok1]]] synced_possible [OF i] by (simp add: e)
    moreover have "possible ?stop path \<noteq> {}" by (auto simp: possible_def)
    ultimately show ?thesis by blast
  qed
  ultimately show ?thesis using published(1) by auto
qed

text \<open>The names of a witness, a first file, and a publication in which every call succeeds.\<close>

definition sample_fs :: filesystem where
  "sample_fs = \<lparr>inodes = [(0, ''old'', True)], stable = [(''config.json'', 0)], updates = [], next_inode = 1\<rparr>"

definition sample_io :: publish_io where
  "sample_io = \<lparr>io_main = Prepared, io_previous = True, io_rotate = Prepared, io_rotate_rename = True, io_before = True,
     io_rename = True, io_synced = True, io_refresh_before = True, io_refresh = Prepared, io_refresh_rename = True,
     io_refresh_synced = True, io_remove = True\<rparr>"

definition sample_temporary :: "nat \<Rightarrow> str" where
  "sample_temporary j = show_nat j"

lemma sample_fs_ok: "fs_ok sample_fs"
  by (auto simp: fs_ok_def sample_fs_def entries_after_def al_get_def)

lemma sample_apart: "names_apart ''config.json'' ''config.json.bak'' sample_temporary"
proof -
  have "CHR ''c'' \<notin> set (show_nat j)" for j by (rule show_nat_free) (simp add: is_ascii_digit_def byte_def)
  then have "sample_temporary j \<noteq> ''config.json''" "sample_temporary j \<noteq> ''config.json.bak''" for j
    unfolding sample_temporary_def by (metis list.set_intros(1))+
  moreover have "inj_on sample_temporary A" for A
    by (rule inj_onI) (metis sample_temporary_def decimal_value_show_nat)
  ultimately show ?thesis by (simp add: names_apart_def del: inj_on_insert)
qed

definition sample_publication :: "(str + config_commit) \<times> filesystem list" where
  "sample_publication = publish_with_backup sample_io ''config.json'' ''config.json.bak'' sample_temporary ''new'' True False sample_fs"

lemma sample_publication_ok:
  "\<exists>commit states. sample_publication = (Inr commit, states) \<and> durability commit = Confirmed \<and> states \<noteq> []"
  by (simp add: sample_publication_def publish_with_backup_def prepare_def sample_io_def rotate_previous_def
      replace_file_def publish_pending_def after_publication_def Let_def split: option.splits)

theorem publish_is_atomic_witness:
  "\<exists>commit states. sample_publication = (Inr commit, states) \<and> possible (last_state sample_fs states) ''config.json'' = {Some ''new''}"
proof -
  obtain commit states where p: "sample_publication = (Inr commit, states)" "durability commit = Confirmed"
    using sample_publication_ok by blast
  from publish_is_atomic [OF p(1) [unfolded sample_publication_def] sample_fs_ok sample_apart] p show ?thesis by auto
qed

text \<open>
  C9: when a saved configuration replaces another one that is safely on disk, and the machine
  crashes at any point of the write, whichever calls failed before, the next start loads the old or
  the new configuration, writes nothing, and never falls back to fresh credentials.
\<close>

theorem config_survives_crash:
  assumes "save_config lib io path temporary new fs = (r, states)" "fs_ok fs"
    "names_apart path (config_backup_path path) temporary" "possible fs path = {Some old_bytes}"
    "encode_candidate lib new = Inr new_bytes"
    "json_ok lib old_bytes" "decode_candidate lib old_bytes = Inr (old, False, False)"
    "json_ok lib new_bytes" "decode_candidate lib new_bytes = Inr (new, False, False)"
    "s \<in> set states"
  shows "load_config_inner lib False io_slot io' first path slot slot_temporary temporary' (crash k garbage s) = (Inr old, [])
       \<or> load_config_inner lib False io_slot io' first path slot slot_temporary temporary' (crash k garbage s) = (Inr new, [])"
proof -
  have pub: "publish_with_backup io path (config_backup_path path) temporary new_bytes True False fs = (r, states)"
    using assms(1,5) by (simp add: save_config_def persist_candidate_def publish_def)
  have "read_file (crash k garbage s) path \<in> possible s path" by (auto simp: possible_def)
  moreover have "possible s path \<subseteq> {Some new_bytes, Some old_bytes}"
    using publish_possible [OF pub assms(2,3,10)] assms(4) by simp
  ultimately have "read_file (crash k garbage s) path = Some old_bytes \<or> read_file (crash k garbage s) path = Some new_bytes"
    by auto
  then show ?thesis
    using assms(6-9) by (auto simp: load_config_inner_def load_existing_def select_content_def Let_def)
qed

definition sample_codec :: "str config_lib" where
  "sample_codec = \<lparr>json_ok = (\<lambda>_. True), decode_candidate = (\<lambda>s. Inr (s, False, False)), encode_candidate = Inr,
     seal_migration = Inr, with_credentials = ic_admin_username, parse_credentials = (\<lambda>_. None),
     show_credentials = ic_admin_username\<rparr>"

definition sample_first :: first_start where
  "sample_first = \<lparr>fs_credentials_io = Prepared, fs_renames = True, fs_synced = True, fs_file = ''initial'', fs_temporary = ''tmp'',
     fs_generated = \<lparr>ic_admin_username = ''admin'', ic_admin_password = ''a'', ic_web_access_password = ''b''\<rparr>\<rparr>"

theorem config_survives_crash_witness:
  "\<exists>s. s \<in> set (snd (save_config sample_codec sample_io ''config.json'' sample_temporary ''new'' sample_fs))
     \<and> fst (load_config_inner sample_codec False sample_io sample_io sample_first ''config.json'' ''slot'' sample_temporary
           sample_temporary (crash 1 (\<lambda>_. ''torn'') s)) \<in> {Inr ''old'', Inr ''new''}"
proof -
  have backup: "config_backup_path ''config.json'' = ''config.json.bak''"
    by (simp add: config_backup_path_def rsplit_once_def split_once_def)
  have old: "possible sample_fs ''config.json'' = {Some ''old''}"
    by (auto simp: possible_alt crash_read_def sample_fs_def entries_after_def al_get_def)
  have run: "save_config sample_codec sample_io ''config.json'' sample_temporary ''new'' sample_fs = sample_publication"
    by (simp add: save_config_def persist_candidate_def publish_def backup sample_codec_def sample_publication_def)
  obtain commit states where p: "sample_publication = (Inr commit, states)" "states \<noteq> []" using sample_publication_ok by blast
  then obtain s where s: "s \<in> set states" using hd_in_set by blast
  have "load_config_inner sample_codec False sample_io sample_io sample_first ''config.json'' ''slot'' sample_temporary
           sample_temporary (crash 1 (\<lambda>_. ''torn'') s) = (Inr ''old'', [])
      \<or> load_config_inner sample_codec False sample_io sample_io sample_first ''config.json'' ''slot'' sample_temporary
           sample_temporary (crash 1 (\<lambda>_. ''torn'') s) = (Inr ''new'', [])"
    by (rule config_survives_crash [OF run [unfolded p(1)] sample_fs_ok _ old _ _ _ _ _ s])
       (simp_all add: backup sample_apart sample_codec_def)
  then show ?thesis using s unfolding run p(1) by (intro exI [of _ s]) auto
qed

end
