(* ===== verification/LoginSecurity.thy ===== *)
theory LoginSecurity
  imports Prelude
begin

text \<open>
  Login protection (src/src/login_security.rs): failure counters and temporary blocks per entry
  point and address, the bounded table that holds them, the append-only event log with its
  retention, its paging queries and its text format. An address is the text it displays. Each
  call takes a record of what the outside world does for it: the clock readings, whether the
  state file could be published, what the append to the event file did and whether a compaction
  succeeded. The JSON encoder of one event and its decoder are parameters, and so is Unicode
  lower-casing. Result texts written in Chinese in the source are rendered in English.
\<close>

section \<open>Data\<close>

definition MAX_RESTRICTIONS :: nat where "MAX_RESTRICTIONS = 20000"

datatype login_entry = Admin | Account | Web | WebDav

record login_policy =
  maximum_failures :: nat
  block_seconds :: int

fun fixed_policy :: "login_entry \<Rightarrow> login_policy" where
  "fixed_policy Admin = \<lparr>maximum_failures = 3, block_seconds = 60 * 60\<rparr>"
| "fixed_policy Account = \<lparr>maximum_failures = 5, block_seconds = 60 * 60\<rparr>"
| "fixed_policy Web = \<lparr>maximum_failures = 5, block_seconds = 60 * 60\<rparr>"
| "fixed_policy WebDav = \<lparr>maximum_failures = 5, block_seconds = 60\<rparr>"

record login_record =
  lr_entry :: login_entry
  lr_ip :: str
  failed_attempts :: nat
  blocked_until :: "int option"
  last_attempt_at :: int
  last_success_at :: "int option"
  last_result :: str
  user_agent :: "str option"

record login_event =
  le_id :: nat
  le_entry :: login_entry
  le_success :: bool
  occurred_at :: int
  le_ip :: str
  le_result :: str
  le_failed_attempts :: nat
  le_blocked_until :: "int option"
  le_user_agent :: "str option"

record event_log =
  el_events :: "login_event list"
  next_id :: nat
  disk_entries :: nat
  retention_days :: nat
  max_entries :: nat
  el_file :: str

record login_security =
  ls_records :: "login_record list"
  ls_log :: event_log

text \<open>What the world does during one call. A failed append leaves some bytes behind.\<close>

datatype append_io = Appended | AppendFailed str

record call_io =
  io_now :: int
  io_saved :: bool
  io_append :: append_io
  io_prune_now :: int
  io_compacted :: bool

type_synonym encoder = "login_event \<Rightarrow> str"
type_synonym decoder = "str \<Rightarrow> login_event option"

section \<open>The table of restrictions\<close>

definition is_record :: "login_entry \<Rightarrow> str \<Rightarrow> login_record \<Rightarrow> bool" where
  "is_record entry ip r \<longleftrightarrow> lr_entry r = entry \<and> lr_ip r = ip"

definition find_record :: "login_record list \<Rightarrow> login_entry \<Rightarrow> str \<Rightarrow> login_record option" where
  "find_record records entry ip = List.find (is_record entry ip) records"

definition new_record :: "login_entry \<Rightarrow> str \<Rightarrow> int \<Rightarrow> login_record" where
  "new_record entry ip now =
     \<lparr>lr_entry = entry, lr_ip = ip, failed_attempts = 0, blocked_until = None,
      last_attempt_at = now, last_success_at = None, last_result = '''', user_agent = None\<rparr>"

definition get_or_insert :: "login_record list \<Rightarrow> login_entry \<Rightarrow> str \<Rightarrow> int \<Rightarrow> login_record list" where
  "get_or_insert records entry ip now =
     (if list_ex (is_record entry ip) records then records
      else records @ [new_record entry ip now])"

definition unblocked_at :: "int \<Rightarrow> login_record \<Rightarrow> bool" where
  "unblocked_at now r = (case blocked_until r of None \<Rightarrow> True | Some until \<Rightarrow> until \<le> now)"

definition ensure_capacity ::
  "login_record list \<Rightarrow> login_entry \<Rightarrow> str \<Rightarrow> int \<Rightarrow> str + login_record list" where
  "ensure_capacity records entry ip now =
     (if MAX_RESTRICTIONS \<le> length records \<and> \<not> list_ex (is_record entry ip) records
      then (case min_by_key (\<lambda>(_, r). last_attempt_at r)
                   (filter (\<lambda>(_, r). unblocked_at now r) (enumerate 0 records)) of
              Some (index, _) \<Rightarrow> Inr (remove_nth index records)
            | None \<Rightarrow> Inl ''Login restriction capacity is exhausted'')
      else Inr records)"

definition sanitize_user_agent :: "str option \<Rightarrow> str option" where
  "sanitize_user_agent value =
     (case value of
        None \<Rightarrow> None
      | Some txt \<Rightarrow>
          let clean = concat (take 256 (filter (\<lambda>c. \<not> is_control c) (chars txt)))
          in if clean = [] then None else Some clean)"

definition event_from_record :: "login_record \<Rightarrow> bool \<Rightarrow> int \<Rightarrow> login_event" where
  "event_from_record r success now =
     \<lparr>le_id = 0, le_entry = lr_entry r, le_success = success, occurred_at = now, le_ip = lr_ip r,
      le_result = last_result r, le_failed_attempts = failed_attempts r,
      le_blocked_until = blocked_until r, le_user_agent = user_agent r\<rparr>"

section \<open>The event log\<close>

definition newline :: str where "newline = [CHR 0x0A]"

fun prune_front :: "int \<Rightarrow> login_event list \<Rightarrow> login_event list" where
  "prune_front cutoff [] = []"
| "prune_front cutoff (e # es) = (if occurred_at e < cutoff then prune_front cutoff es else e # es)"

fun prune_count :: "nat \<Rightarrow> login_event list \<Rightarrow> login_event list" where
  "prune_count limit [] = []"
| "prune_count limit (e # es) = (if limit < length (e # es) then prune_count limit es else e # es)"

definition prune_events :: "login_event list \<Rightarrow> nat \<Rightarrow> nat \<Rightarrow> int \<Rightarrow> login_event list" where
  "prune_events events days limit now =
     prune_count limit (prune_front (now - int days * 24 * 60 * 60) events)"

definition events_text :: "encoder \<Rightarrow> login_event list \<Rightarrow> str" where
  "events_text enc events = concat (map (\<lambda>e. enc e @ newline) events)"

definition append_event ::
  "encoder \<Rightarrow> call_io \<Rightarrow> event_log \<Rightarrow> login_event \<Rightarrow> (str + unit) \<times> event_log" where
  "append_event enc io log event =
     (let event = event\<lparr>le_id := next_id log\<rparr>;
          log = log\<lparr>next_id := saturating_add (next_id log) 1\<rparr>
      in case io_append io of
           AppendFailed partial \<Rightarrow>
             (Inl ''append failed'', log\<lparr>el_file := el_file log @ partial\<rparr>)
         | Appended \<Rightarrow>
             let log = log\<lparr>el_file := el_file log @ enc event @ newline,
                           disk_entries := saturating_add (disk_entries log) 1,
                           el_events := prune_events (el_events log @ [event]) (retention_days log)
                                          (max_entries log) (io_prune_now io)\<rparr>;
                 slack = min 256 (max (max_entries log div 10) 32)
             in if saturating_add (max_entries log) slack < disk_entries log
                then if io_compacted io
                     then (Inr (), log\<lparr>el_file := events_text enc (el_events log),
                                       disk_entries := length (el_events log)\<rparr>)
                     else (Inr (), log\<lparr>disk_entries := u64_max\<rparr>)
                else (Inr (), log))"

definition record_event :: "encoder \<Rightarrow> call_io \<Rightarrow> login_security \<Rightarrow> login_event \<Rightarrow> login_security" where
  "record_event enc io ls event = ls\<lparr>ls_log := snd (append_event enc io (ls_log ls) event)\<rparr>"

definition configure_retention ::
  "encoder \<Rightarrow> call_io \<Rightarrow> login_security \<Rightarrow> nat \<Rightarrow> nat \<Rightarrow> (str + unit) \<times> login_security" where
  "configure_retention enc io ls days limit =
     (let log = ls_log ls;
          settings_changed = (retention_days log \<noteq> days \<or> max_entries log \<noteq> limit);
          retained = prune_events (el_events log) days limit (io_prune_now io)
      in if \<not> settings_changed \<and> length retained = length (el_events log) then (Inr (), ls)
         else let log = log\<lparr>el_events := retained, retention_days := days, max_entries := limit\<rparr>
              in if io_compacted io
                 then (Inr (), ls\<lparr>ls_log := log\<lparr>el_file := events_text enc retained,
                                                disk_entries := length retained\<rparr>\<rparr>)
                 else (Inl ''compaction failed'', ls\<lparr>ls_log := log\<lparr>disk_entries := u64_max\<rparr>\<rparr>))"

definition clear_events :: "call_io \<Rightarrow> login_security \<Rightarrow> (str + unit) \<times> login_security" where
  "clear_events io ls =
     (if io_compacted io
      then (Inr (), ls\<lparr>ls_log := (ls_log ls)\<lparr>el_file := [], el_events := [], disk_entries := 0\<rparr>\<rparr>)
      else (Inl ''compaction failed'', ls))"

text \<open>
  \<open>str::lines\<close>: the pieces between newlines, without a last empty piece, each without one
  trailing carriage return. \<open>read_events\<close> refuses a file that is not UTF-8
  (\<open>read_to_string\<close>), skips blank lines and forgives a last line that does
  not decode when the text does not end with a newline.
\<close>

definition strip_cr :: "str \<Rightarrow> str" where
  "strip_cr l = (if l \<noteq> [] \<and> last l = CHR 0x0D then butlast l else l)"

definition text_lines :: "str \<Rightarrow> str list" where
  "text_lines txt =
     (let pieces = split_on CHR 0x0A txt
      in if last pieces = [] then map strip_cr (butlast pieces)
         else map strip_cr (butlast pieces) @ [last pieces])"

fun read_lines :: "decoder \<Rightarrow> bool \<Rightarrow> str list \<Rightarrow> login_event list \<Rightarrow> str + login_event list" where
  "read_lines dec complete [] events = Inr events"
| "read_lines dec complete (l # ls) events =
     (if trim l = [] then read_lines dec complete ls events
      else case dec l of
             Some e \<Rightarrow> read_lines dec complete ls (events @ [e])
           | None \<Rightarrow> if ls = [] \<and> \<not> complete then Inr events
                     else Inl ''Security event log is invalid'')"

definition read_events :: "decoder \<Rightarrow> str \<Rightarrow> str + login_event list" where
  "read_events dec txt =
     (if valid_utf8 txt then read_lines dec (ends_with txt newline) (text_lines txt) []
      else Inl ''stream did not contain valid UTF-8'')"



section \<open>Login attempts\<close>

definition is_blocked ::
  "call_io \<Rightarrow> login_security \<Rightarrow> login_entry \<Rightarrow> str \<Rightarrow> (str + bool) \<times> login_security" where
  "is_blocked io ls entry ip =
     (case find_record (ls_records ls) entry ip of
        None \<Rightarrow> (Inr False, ls)
      | Some r \<Rightarrow>
          (case blocked_until r of
             None \<Rightarrow> (Inr False, ls)
           | Some until \<Rightarrow>
               if io_now io < until then (Inr True, ls)
               else if io_saved io
               then (Inr False, ls\<lparr>ls_records := modify_first (is_record entry ip)
                       (\<lambda>r. r\<lparr>blocked_until := None, failed_attempts := 0,
                              last_result := ''restriction expired''\<rparr>) (ls_records ls)\<rparr>)
               else (Inl ''state publication failed'', ls)))"

text \<open>
  The shape the recording calls share: make room, change the record of the address, publish the
  table, and only then replace the table in memory and log the event.
\<close>

definition commit_record ::
  "encoder \<Rightarrow> call_io \<Rightarrow> login_security \<Rightarrow> login_entry \<Rightarrow> str \<Rightarrow> bool \<Rightarrow> (login_record \<Rightarrow> login_record)
   \<Rightarrow> (str + unit) \<times> login_security" where
  "commit_record enc io ls entry ip success change =
     (case ensure_capacity (ls_records ls) entry ip (io_now io) of
        Inl e \<Rightarrow> (Inl e, ls)
      | Inr room \<Rightarrow>
          let records = modify_first (is_record entry ip) change
                          (get_or_insert room entry ip (io_now io))
          in case find_record records entry ip of
               None \<Rightarrow> (Inl ''record was inserted'', ls)
             | Some r \<Rightarrow>
                 if io_saved io
                 then (Inr (), record_event enc io (ls\<lparr>ls_records := records\<rparr>)
                                 (event_from_record r success (io_now io)))
                 else (Inl ''state publication failed'', ls))"

text \<open>
  Times are unbounded integers here and \<open>i64\<close> seconds in the code. A policy blocks for at most an
  hour, so the sum below leaves \<open>i64\<close> only for a clock reading within an hour of its end.
\<close>

definition failure_change :: "int \<Rightarrow> str option \<Rightarrow> login_policy \<Rightarrow> login_record \<Rightarrow> login_record" where
  "failure_change now agent policy r =
     (let r = r\<lparr>failed_attempts := min u32_max (failed_attempts r + 1), last_attempt_at := now,
                user_agent := sanitize_user_agent agent\<rparr>
      in if maximum_failures policy \<le> failed_attempts r
         then r\<lparr>blocked_until := Some (now + block_seconds policy),
                last_result := ''wrong credentials, restricted''\<rparr>
         else r\<lparr>last_result := ''wrong credentials''\<rparr>)"

definition record_failure ::
  "encoder \<Rightarrow> call_io \<Rightarrow> login_security \<Rightarrow> login_entry \<Rightarrow> str \<Rightarrow> str option \<Rightarrow> login_policy
   \<Rightarrow> (str + unit) \<times> login_security" where
  "record_failure enc io ls entry ip agent policy =
     commit_record enc io ls entry ip False (failure_change (io_now io) agent policy)"

definition clear_webdav_failures ::
  "call_io \<Rightarrow> login_security \<Rightarrow> str \<Rightarrow> (str + unit) \<times> login_security" where
  "clear_webdav_failures io ls ip =
     (case find_record (ls_records ls) WebDav ip of
        None \<Rightarrow> (Inr (), ls)
      | Some r \<Rightarrow>
          if failed_attempts r = 0 \<and> blocked_until r = None then (Inr (), ls)
          else if io_saved io
          then (Inr (), ls\<lparr>ls_records := modify_first (is_record WebDav ip)
                  (\<lambda>r. r\<lparr>failed_attempts := 0, blocked_until := None\<rparr>) (ls_records ls)\<rparr>)
          else (Inl ''state publication failed'', ls))"

definition record_webdav_request_failure ::
  "encoder \<Rightarrow> call_io \<Rightarrow> login_security \<Rightarrow> str \<Rightarrow> str option \<Rightarrow> nat \<Rightarrow> (str + unit) \<times> login_security" where
  "record_webdav_request_failure enc io ls ip agent st =
     (let result = ''WebDAV request failed ('' @ show_nat st @ '')'';
          event = (\<lambda>attempts until.
             \<lparr>le_id = 0, le_entry = WebDav, le_success = False, occurred_at = io_now io, le_ip = ip,
              le_result = result, le_failed_attempts = attempts, le_blocked_until = until,
              le_user_agent = sanitize_user_agent agent\<rparr>)
      in case find_record (ls_records ls) WebDav ip of
           None \<Rightarrow> (Inr (), record_event enc io ls (event 0 None))
         | Some r \<Rightarrow>
             if io_saved io
             then (Inr (), record_event enc io
                     (ls\<lparr>ls_records := modify_first (is_record WebDav ip)
                        (\<lambda>r. r\<lparr>last_success_at := None, last_result := result\<rparr>) (ls_records ls)\<rparr>)
                     (event (failed_attempts r) (blocked_until r)))
             else (Inl ''state publication failed'', ls))"

definition i64_saturating_sub :: "int \<Rightarrow> int \<Rightarrow> int" where
  "i64_saturating_sub a b = clamp (a - b) (- 9223372036854775808) 9223372036854775807"

definition recent_clean_success :: "int \<Rightarrow> login_record \<Rightarrow> bool" where
  "recent_clean_success now r \<longleftrightarrow>
     failed_attempts r = 0 \<and> blocked_until r = None
     \<and> (case last_success_at r of None \<Rightarrow> False | Some t \<Rightarrow> i64_saturating_sub now t < 60 * 60)"

definition record_success ::
  "encoder \<Rightarrow> call_io \<Rightarrow> login_security \<Rightarrow> login_entry \<Rightarrow> str \<Rightarrow> str option \<Rightarrow> (str + unit) \<times> login_security" where
  "record_success enc io ls entry ip agent =
     (if entry = WebDav \<and> (case find_record (ls_records ls) entry ip of
                              None \<Rightarrow> False | Some r \<Rightarrow> recent_clean_success (io_now io) r)
      then (Inr (), ls)
      else commit_record enc io ls entry ip True
             (\<lambda>r. r\<lparr>failed_attempts := 0, blocked_until := None, last_attempt_at := io_now io,
                    last_success_at := Some (io_now io), last_result := ''login succeeded'',
                    user_agent := sanitize_user_agent agent\<rparr>))"

definition unblock ::
  "encoder \<Rightarrow> call_io \<Rightarrow> login_security \<Rightarrow> login_entry \<Rightarrow> str \<Rightarrow> (str + bool) \<times> login_security" where
  "unblock enc io ls entry ip =
     (case find_record (ls_records ls) entry ip of
        None \<Rightarrow> (Inr False, ls)
      | Some r \<Rightarrow>
          let change = (\<lambda>r. r\<lparr>failed_attempts := 0, blocked_until := None, last_attempt_at := io_now io,
                              last_result := ''restriction lifted by the administrator''\<rparr>)
          in if io_saved io
             then (Inr True, record_event enc io
                     (ls\<lparr>ls_records := modify_first (is_record entry ip) change (ls_records ls)\<rparr>)
                     (event_from_record (change r) False (io_now io)))
             else (Inl ''state publication failed'', ls))"

definition restrict_login ::
  "encoder \<Rightarrow> call_io \<Rightarrow> login_security \<Rightarrow> login_entry \<Rightarrow> str \<Rightarrow> login_policy \<Rightarrow> (str + unit) \<times> login_security" where
  "restrict_login enc io ls entry ip policy =
     commit_record enc io ls entry ip False
       (\<lambda>r. r\<lparr>blocked_until := Some (io_now io + block_seconds policy), last_attempt_at := io_now io,
              last_result := ''restricted by the administrator''\<rparr>)"

section \<open>Queries\<close>

record event_query =
  q_success :: "bool option"
  q_entry :: "login_entry option"
  q_search :: "str option"
  q_since :: int
  q_cursor :: "nat option"
  q_page :: nat
  q_limit :: nat

record login_event_view =
  lv_event :: login_event
  current_blocked_until :: "int option"

record login_event_page =
  lp_events :: "login_event_view list"
  next_cursor :: "nat option"
  lp_total :: nat
  lp_page :: nat

definition event_matches ::
  "(str \<Rightarrow> str) \<Rightarrow> event_query \<Rightarrow> str option \<Rightarrow> int \<Rightarrow> login_event \<Rightarrow> bool" where
  "event_matches lower query search since e \<longleftrightarrow>
     since \<le> occurred_at e
     \<and> (case q_success query of None \<Rightarrow> True | Some v \<Rightarrow> le_success e = v)
     \<and> (case q_entry query of None \<Rightarrow> True | Some v \<Rightarrow> le_entry e = v)
     \<and> (case search of None \<Rightarrow> True
        | Some v \<Rightarrow> str_contains (le_ip e) v \<or> str_contains (lower (le_result e)) v
            \<or> (case le_user_agent e of None \<Rightarrow> False | Some a \<Rightarrow> str_contains (lower a) v))"

text \<open>The loop over the log, newest first: the count, the selected events and the last page.\<close>

fun query_loop ::
  "(login_event \<Rightarrow> bool) \<Rightarrow> nat option \<Rightarrow> nat \<Rightarrow> nat \<Rightarrow> login_event list
   \<Rightarrow> nat \<times> login_event list \<times> login_event list \<Rightarrow> nat \<times> login_event list \<times> login_event list" where
  "query_loop P cursor limit start [] st = st"
| "query_loop P cursor limit start (e # es) (tot, selected, last_page) =
     (if \<not> P e then query_loop P cursor limit start es (tot, selected, last_page)
      else query_loop P cursor limit start es
        (case cursor of
           Some c \<Rightarrow>
             (saturating_add tot 1,
              (if le_id e < c \<and> length selected \<le> limit then selected @ [e] else selected), last_page)
         | None \<Rightarrow>
             (saturating_add tot 1,
              (if start \<le> tot \<and> length selected \<le> limit then selected @ [e] else selected),
              (if length last_page = limit then tl last_page else last_page) @ [e])))"

definition div_ceil :: "nat \<Rightarrow> nat \<Rightarrow> nat" where
  "div_ceil a b = a div b + (if a mod b = 0 then 0 else 1)"

text \<open>
  The page of a query: the count of matching events, the page number that is served, whether more
  events follow, and the events of the page.
\<close>

definition select_page ::
  "(login_event \<Rightarrow> bool) \<Rightarrow> nat option \<Rightarrow> nat \<Rightarrow> nat \<Rightarrow> login_event list
   \<Rightarrow> nat \<times> nat \<times> bool \<times> login_event list" where
  "select_page P cursor asked_page limit newest_first =
     (let requested_page = max asked_page 1;
          requested_start = saturating_mul (requested_page - 1) limit;
          (tot, selected, last_page) =
             query_loop P cursor limit requested_start newest_first (0, [], []);
          page = min (max asked_page 1) (max (div_ceil tot limit) 1)
      in if cursor \<noteq> None \<or> page = requested_page
         then (tot, page, limit < length selected, take limit selected)
         else let last_page_size = tot - saturating_mul (page - 1) limit;
                  skip = length last_page - last_page_size
              in (tot, page, False, take limit (drop skip last_page)))"

definition query_search :: "(str \<Rightarrow> str) \<Rightarrow> event_query \<Rightarrow> str option" where
  "query_search lower query =
     (case q_search query of None \<Rightarrow> None
      | Some s \<Rightarrow> if trim s = [] then None else Some (lower (trim s)))"

definition query_since :: "event_log \<Rightarrow> event_query \<Rightarrow> int \<Rightarrow> int" where
  "query_since log query now = max (q_since query) (now - int (retention_days log) * 86400)"

definition event_view :: "login_record list \<Rightarrow> int \<Rightarrow> login_event \<Rightarrow> login_event_view" where
  "event_view records now e =
     \<lparr>lv_event = e,
      current_blocked_until =
        (case List.find (\<lambda>r. lr_entry r = le_entry e \<and> lr_ip r = le_ip e) records of
           None \<Rightarrow> None
         | Some r \<Rightarrow> (case blocked_until r of None \<Rightarrow> None
                      | Some until \<Rightarrow> if now < until then Some until else None))\<rparr>"

definition query_events ::
  "(str \<Rightarrow> str) \<Rightarrow> login_security \<Rightarrow> event_query \<Rightarrow> int \<Rightarrow> login_event_page" where
  "query_events lower ls query now =
     (let log = ls_log ls;
          (tot, page, has_more, selected) =
             select_page (event_matches lower query (query_search lower query) (query_since log query now))
               (q_cursor query) (q_page query) (clamp (q_limit query) 1 100) (rev (el_events log));
          events = map (event_view (ls_records ls) now) selected
      in \<lparr>lp_events = events,
          next_cursor = (if has_more \<and> events \<noteq> [] then Some (le_id (lv_event (last events))) else None),
          lp_total = tot, lp_page = page\<rparr>)"

section \<open>Every call, as one operation\<close>

datatype login_op =
    OpIsBlocked login_entry str
  | OpFailure login_entry str "str option" login_policy
  | OpSuccess login_entry str "str option"
  | OpUnblock login_entry str
  | OpRestrict login_entry str login_policy
  | OpClearWebdav str
  | OpWebdavRequestFailure str "str option" nat
  | OpRetention nat nat
  | OpClearEvents

fun apply_op :: "encoder \<Rightarrow> call_io \<Rightarrow> login_op \<Rightarrow> login_security \<Rightarrow> login_security" where
  "apply_op enc io (OpIsBlocked entry ip) ls = snd (is_blocked io ls entry ip)"
| "apply_op enc io (OpFailure entry ip agent policy) ls = snd (record_failure enc io ls entry ip agent policy)"
| "apply_op enc io (OpSuccess entry ip agent) ls = snd (record_success enc io ls entry ip agent)"
| "apply_op enc io (OpUnblock entry ip) ls = snd (unblock enc io ls entry ip)"
| "apply_op enc io (OpRestrict entry ip policy) ls = snd (restrict_login enc io ls entry ip policy)"
| "apply_op enc io (OpClearWebdav ip) ls = snd (clear_webdav_failures io ls ip)"
| "apply_op enc io (OpWebdavRequestFailure ip agent st) ls =
     snd (record_webdav_request_failure enc io ls ip agent st)"
| "apply_op enc io (OpRetention days limit) ls = snd (configure_retention enc io ls days limit)"
| "apply_op enc io OpClearEvents ls = snd (clear_events io ls)"

fun run_ops :: "encoder \<Rightarrow> (call_io \<times> login_op) list \<Rightarrow> login_security \<Rightarrow> login_security" where
  "run_ops enc [] ls = ls"
| "run_ops enc ((io, op) # rest) ls = run_ops enc rest (apply_op enc io op ls)"

section \<open>The table stays bounded and keyed\<close>

definition record_key :: "login_record \<Rightarrow> login_entry \<times> str" where
  "record_key r = (lr_entry r, lr_ip r)"

definition table_inv :: "login_record list \<Rightarrow> bool" where
  "table_inv records \<longleftrightarrow> distinct (map record_key records) \<and> length records \<le> MAX_RESTRICTIONS"

lemma is_record_key: "is_record entry ip r \<longleftrightarrow> record_key r = (entry, ip)"
  by (simp add: is_record_def record_key_def)

lemma find_record_None: "find_record records entry ip = None \<longleftrightarrow> \<not> list_ex (is_record entry ip) records"
  by (auto simp: find_record_def find_None_iff list_ex_iff)

lemma find_record_SomeD: "find_record records entry ip = Some r \<Longrightarrow> r \<in> set records \<and> is_record entry ip r"
  by (auto simp: find_record_def find_Some_iff)

lemma find_record_unique:
  assumes "distinct (map record_key records)"
  shows "find_record records entry ip = Some r \<longleftrightarrow> r \<in> set records \<and> is_record entry ip r"
proof
  assume "r \<in> set records \<and> is_record entry ip r"
  moreover from this obtain r' where r': "find_record records entry ip = Some r'"
    by (cases "find_record records entry ip") (auto simp: find_record_None list_ex_iff)
  ultimately show "find_record records entry ip = Some r"
    using assms find_record_SomeD [OF r'] by (metis is_record_key distinct_map inj_onD)
qed (rule find_record_SomeD)

lemma ensure_capacity_Inr:
  assumes "ensure_capacity records entry ip now = Inr room" and "table_inv records"
  shows "table_inv room" and "find_record room entry ip = find_record records entry ip"
    and "find_record room entry ip = None \<Longrightarrow> length room < MAX_RESTRICTIONS"
    and "r \<in> set records \<Longrightarrow> \<not> unblocked_at now r \<Longrightarrow> r \<in> set room" and "set room \<subseteq> set records"
proof -
  have "table_inv room \<and> find_record room entry ip = find_record records entry ip
    \<and> (find_record room entry ip = None \<longrightarrow> length room < MAX_RESTRICTIONS)
    \<and> (\<forall>r \<in> set records. \<not> unblocked_at now r \<longrightarrow> r \<in> set room) \<and> set room \<subseteq> set records"
  proof (cases "MAX_RESTRICTIONS \<le> length records \<and> \<not> list_ex (is_record entry ip) records")
    case False
    with assms show ?thesis
      by (auto simp: ensure_capacity_def find_record_None split: if_splits)
  next
    case True
    with assms(1) obtain i x where m: "min_by_key (\<lambda>(_, r). last_attempt_at r)
        (filter (\<lambda>(_, r). unblocked_at now r) (enumerate 0 records)) = Some (i, x)"
      and room: "room = remove_nth i records"
      by (auto simp: ensure_capacity_def split: option.splits)
    from min_by_key_Some [OF m] have i: "i < length records" "records ! i = x" "unblocked_at now x"
      by (auto simp: in_set_enumerate_eq)
    have split: "records = take i records @ x # drop (Suc i) records"
      using i id_take_nth_drop [of i records] by simp
    have "r \<in> set room" if "r \<in> set records" "\<not> unblocked_at now r" for r
      using that i(3) unfolding room remove_nth_def by (subst (asm) split) auto
    moreover have "find_record room entry ip = None"
      using True set_remove_nth [of i records] by (auto simp: room find_record_None list_ex_iff)
    moreover have "find_record records entry ip = None"
      using True by (simp add: find_record_None)
    moreover have "table_inv room" "length room < MAX_RESTRICTIONS"
      using assms(2) i True by (auto simp: table_inv_def room distinct_map_remove_nth length_remove_nth)
    ultimately show ?thesis using set_remove_nth [of i records] by (simp add: room)
  qed
  then show "table_inv room" "find_record room entry ip = find_record records entry ip"
    "find_record room entry ip = None \<Longrightarrow> length room < MAX_RESTRICTIONS"
    "r \<in> set records \<Longrightarrow> \<not> unblocked_at now r \<Longrightarrow> r \<in> set room" "set room \<subseteq> set records"
    by auto
qed

text \<open>A change that leaves the key of a record alone.\<close>

definition keeps_key :: "(login_record \<Rightarrow> login_record) \<Rightarrow> bool" where
  "keeps_key f \<longleftrightarrow> (\<forall>r. record_key (f r) = record_key r)"

lemma table_inv_modify [intro]:
  "keeps_key f \<Longrightarrow> table_inv records \<Longrightarrow> table_inv (modify_first P f records)"
  by (simp add: table_inv_def keeps_key_def map_modify_first)

lemma find_record_modify:
  "keeps_key f \<Longrightarrow>
   find_record (modify_first (is_record entry ip) f records) entry ip = map_option f (find_record records entry ip)"
  unfolding find_record_def
  by (rule find_modify_first) (simp add: is_record_key keeps_key_def)

lemma find_record_modify_other:
  "keeps_key f \<Longrightarrow> (entry', ip') \<noteq> (entry, ip) \<Longrightarrow>
   find_record (modify_first (is_record entry ip) f records) entry' ip' = find_record records entry' ip'"
  unfolding find_record_def
  by (rule find_modify_first_other) (auto simp: is_record_key keeps_key_def)

lemma keeps_key_changes [simp]:
  "keeps_key (failure_change now agent policy)"
  "keeps_key (\<lambda>r. r\<lparr>blocked_until := None, failed_attempts := 0, last_result := t\<rparr>)"
  "keeps_key (\<lambda>r. r\<lparr>failed_attempts := 0, blocked_until := None\<rparr>)"
  "keeps_key (\<lambda>r. r\<lparr>last_success_at := None, last_result := t\<rparr>)"
  "keeps_key (\<lambda>r. r\<lparr>failed_attempts := 0, blocked_until := None, last_attempt_at := now, last_result := t\<rparr>)"
  "keeps_key (\<lambda>r. r\<lparr>blocked_until := b, last_attempt_at := now, last_result := t\<rparr>)"
  "keeps_key (\<lambda>r. r\<lparr>failed_attempts := 0, blocked_until := None, last_attempt_at := now,
                    last_success_at := s, last_result := t, user_agent := u\<rparr>)"
  by (simp_all add: keeps_key_def record_key_def failure_change_def Let_def)

lemma get_or_insert_find:
  "find_record (get_or_insert room entry ip now) entry ip
     = Some (case find_record room entry ip of None \<Rightarrow> new_record entry ip now | Some r \<Rightarrow> r)"
proof (cases "find_record room entry ip")
  case None
  then have "\<not> list_ex (is_record entry ip) room" by (simp add: find_record_None)
  with None show ?thesis
    by (simp add: get_or_insert_def find_record_def find_append is_record_def new_record_def)
next
  case (Some r)
  then have "list_ex (is_record entry ip) room" using find_record_None [of room entry ip] by auto
  with Some show ?thesis by (simp add: get_or_insert_def)
qed

lemma get_or_insert_find_other:
  "(entry', ip') \<noteq> (entry, ip) \<Longrightarrow>
   find_record (get_or_insert room entry ip now) entry' ip' = find_record room entry' ip'"
  by (auto simp: get_or_insert_def find_record_def find_append is_record_def new_record_def split: option.splits)

lemma get_or_insert_inv:
  assumes "table_inv room" and "find_record room entry ip = None \<Longrightarrow> length room < MAX_RESTRICTIONS"
  shows "table_inv (get_or_insert room entry ip now)"
  using assms
  by (auto simp: get_or_insert_def table_inv_def find_record_None list_ex_iff is_record_key
      new_record_def record_key_def)

lemma ls_records_record_event [simp]: "ls_records (record_event enc io ls e) = ls_records ls"
  by (simp add: record_event_def)

text \<open>What a recording call does to the table.\<close>

lemma commit_record_cases:
  assumes "keeps_key change" and inv: "table_inv (ls_records ls)"
    and res: "commit_record enc io ls entry ip success change = (res, ls')"
  obtains (rejected) e where "res = Inl e" "ls' = ls"
  | (stored) room where "res = Inr ()"
      "ensure_capacity (ls_records ls) entry ip (io_now io) = Inr room"
      "ls_records ls' = modify_first (is_record entry ip) change (get_or_insert room entry ip (io_now io))"
      "table_inv (ls_records ls')"
proof (cases "ensure_capacity (ls_records ls) entry ip (io_now io)")
  case (Inl e)
  with res rejected show thesis by (auto simp: commit_record_def)
next
  case (Inr room)
  let ?records = "modify_first (is_record entry ip) change (get_or_insert room entry ip (io_now io))"
  note cap = ensure_capacity_Inr [OF Inr inv]
  have "table_inv ?records"
    by (rule table_inv_modify [OF assms(1) get_or_insert_inv [OF cap(1,3)]])
  moreover obtain r where "find_record ?records entry ip = Some r"
    using assms(1) by (simp add: find_record_modify get_or_insert_find)
  ultimately show thesis
    using res Inr rejected stored by (cases "io_saved io") (auto simp: commit_record_def)
qed

lemma apply_op_table_inv:
  assumes "table_inv (ls_records ls)"
  shows "table_inv (ls_records (apply_op enc io op ls))"
proof -
  have commit: "table_inv (ls_records (snd (commit_record enc io ls entry ip success change)))"
    if "keeps_key change" for entry ip success change
  proof -
    obtain res ls' where r: "commit_record enc io ls entry ip success change = (res, ls')"
      by (cases "commit_record enc io ls entry ip success change")
    from commit_record_cases [OF that assms r] show ?thesis
      by cases (simp_all add: r assms)
  qed
  show ?thesis
    using assms
    by (cases op)
       (auto simp: is_blocked_def record_failure_def record_success_def unblock_def restrict_login_def
          clear_webdav_failures_def record_webdav_request_failure_def configure_retention_def
          clear_events_def Let_def commit split: option.splits if_splits)
qed

lemma run_ops_table_inv: "table_inv (ls_records ls) \<Longrightarrow> table_inv (ls_records (run_ops enc ops ls))"
  by (induction enc ops ls rule: run_ops.induct) (simp_all add: apply_op_table_inv)

section \<open>Blocks\<close>

text \<open>The address whose block a call may set or lift.\<close>

fun op_target :: "login_op \<Rightarrow> (login_entry \<times> str) option" where
  "op_target (OpFailure entry ip _ _) = Some (entry, ip)"
| "op_target (OpSuccess entry ip _) = Some (entry, ip)"
| "op_target (OpUnblock entry ip) = Some (entry, ip)"
| "op_target (OpRestrict entry ip _) = Some (entry, ip)"
| "op_target (OpClearWebdav ip) = Some (WebDav, ip)"
| "op_target _ = None"

definition blocked_to :: "login_security \<Rightarrow> login_entry \<Rightarrow> str \<Rightarrow> int \<Rightarrow> bool" where
  "blocked_to ls entry ip until \<longleftrightarrow>
     (\<exists>r. find_record (ls_records ls) entry ip = Some r \<and> blocked_until r = Some until)"

lemma blocked_to_is_blocked:
  "blocked_to ls entry ip until \<Longrightarrow> io_now io < until \<Longrightarrow> is_blocked io ls entry ip = (Inr True, ls)"
  by (auto simp: blocked_to_def is_blocked_def)

lemma blocked_to_commit_other:
  assumes "keeps_key change" and inv: "table_inv (ls_records ls)" and b: "blocked_to ls entry ip until"
    and now: "io_now io < until" and other: "(entry', ip') \<noteq> (entry, ip)"
  shows "blocked_to (snd (commit_record enc io ls entry' ip' success change)) entry ip until"
proof -
  obtain res ls' where c: "commit_record enc io ls entry' ip' success change = (res, ls')"
    by (cases "commit_record enc io ls entry' ip' success change")
  from commit_record_cases [OF assms(1) inv c] show ?thesis
  proof cases
    case 1
    with b c show ?thesis by simp
  next
    case stored: (2 room)
    from b obtain r where r: "find_record (ls_records ls) entry ip = Some r" "blocked_until r = Some until"
      by (auto simp: blocked_to_def)
    have "\<not> unblocked_at (io_now io) r" using r(2) now by (simp add: unblocked_at_def)
    with find_record_SomeD [OF r(1)] have "r \<in> set room" "table_inv room"
      using ensure_capacity_Inr [OF stored(2) inv] by simp_all
    then have "find_record room entry ip = Some r"
      using find_record_SomeD [OF r(1)] by (simp add: table_inv_def find_record_unique)
    then have "find_record (ls_records ls') entry ip = Some r"
      using stored(3) find_record_modify_other [OF assms(1) other [symmetric]]
        get_or_insert_find_other [OF other [symmetric]] by simp
    with r(2) c show ?thesis by (simp add: blocked_to_def)
  qed
qed

lemma blocked_to_modify_other:
  "(entry', ip') \<noteq> (entry, ip) \<Longrightarrow> keeps_key f \<Longrightarrow>
   blocked_to (ls\<lparr>ls_records := modify_first (is_record entry' ip') f (ls_records ls)\<rparr>) entry ip until
     = blocked_to ls entry ip until"
proof -
  assume other: "(entry', ip') \<noteq> (entry, ip)" and k: "keeps_key f"
  show ?thesis
    using find_record_modify_other [OF k other [symmetric]] by (simp add: blocked_to_def)
qed

lemma blocked_to_event [simp]:
  "blocked_to (record_event enc io ls e) entry ip until = blocked_to ls entry ip until"
  "blocked_to (ls\<lparr>ls_log := l\<rparr>) entry ip until = blocked_to ls entry ip until"
  by (simp_all add: blocked_to_def)

lemma blocked_to_apply_op:
  assumes inv: "table_inv (ls_records ls)" and b: "blocked_to ls entry ip until"
    and now: "io_now io < until" and target: "op_target op \<noteq> Some (entry, ip)"
  shows "blocked_to (apply_op enc io op ls) entry ip until"
proof (cases op)
  case (OpIsBlocked entry' ip')
  show ?thesis
  proof (cases "(entry', ip') = (entry, ip)")
    case True
    with OpIsBlocked b now show ?thesis by (simp add: blocked_to_is_blocked)
  next
    case False
    show ?thesis
      using OpIsBlocked b
      by (auto simp: is_blocked_def blocked_to_modify_other [OF False] split: option.splits)
  qed
next
  case (OpUnblock entry' ip')
  with target have other: "(entry', ip') \<noteq> (entry, ip)" by simp
  show ?thesis
    using OpUnblock b
    by (auto simp: unblock_def Let_def blocked_to_modify_other [OF other] split: option.splits)
next
  case (OpClearWebdav ip')
  with target have other: "(WebDav, ip') \<noteq> (entry, ip)" by simp
  show ?thesis
    using OpClearWebdav b
    by (auto simp: clear_webdav_failures_def blocked_to_modify_other [OF other] split: option.splits)
next
  case (OpWebdavRequestFailure ip' agent st)
  show ?thesis
  proof (cases "(WebDav, ip') = (entry, ip)")
    case True
    with OpWebdavRequestFailure b show ?thesis
      by (auto simp: record_webdav_request_failure_def Let_def blocked_to_def find_record_modify)
  next
    case False
    show ?thesis
      using OpWebdavRequestFailure b
      by (auto simp: record_webdav_request_failure_def Let_def blocked_to_modify_other [OF False]
          split: option.splits)
  qed
qed (use target b in \<open>auto simp: record_failure_def record_success_def restrict_login_def
       configure_retention_def clear_events_def Let_def
       intro: blocked_to_commit_other [OF _ inv b now]\<close>)

lemma blocked_to_run_ops:
  "table_inv (ls_records ls) \<Longrightarrow> blocked_to ls entry ip until \<Longrightarrow>
   list_all (\<lambda>(io, op). io_now io < until \<and> op_target op \<noteq> Some (entry, ip)) ops \<Longrightarrow>
   blocked_to (run_ops enc ops ls) entry ip until"
  by (induction enc ops ls rule: run_ops.induct)
     (simp_all add: blocked_to_apply_op apply_op_table_inv)

text \<open>One failed attempt that is recorded, and a row of them.\<close>

definition current_record :: "login_security \<Rightarrow> login_entry \<Rightarrow> str \<Rightarrow> int \<Rightarrow> login_record" where
  "current_record ls entry ip now =
     (case find_record (ls_records ls) entry ip of None \<Rightarrow> new_record entry ip now | Some r \<Rightarrow> r)"

definition has_room :: "login_security \<Rightarrow> login_entry \<Rightarrow> str \<Rightarrow> bool" where
  "has_room ls entry ip \<longleftrightarrow>
     length (ls_records ls) < MAX_RESTRICTIONS \<or> find_record (ls_records ls) entry ip \<noteq> None"

lemma record_failure_effect:
  assumes "has_room ls entry ip" and "io_saved io"
  shows "find_record (ls_records (apply_op enc io (OpFailure entry ip agent policy) ls)) entry ip
    = Some (failure_change (io_now io) agent policy (current_record ls entry ip (io_now io)))"
proof -
  have "ensure_capacity (ls_records ls) entry ip (io_now io) = Inr (ls_records ls)"
    using assms(1) by (auto simp: has_room_def ensure_capacity_def find_record_None)
  then show ?thesis
    using assms(2)
    by (simp add: record_failure_def commit_record_def find_record_modify get_or_insert_find
        current_record_def Let_def)
qed

lemma failed_attempts_failure_change [simp]:
  "failed_attempts (failure_change now agent policy r) = min u32_max (Suc (failed_attempts r))"
  by (simp add: failure_change_def Let_def)

lemma failures_effect:
  assumes "has_room ls entry ip" and "list_all io_saved ios" and "ios \<noteq> []"
    and "k \<le> (case find_record (ls_records ls) entry ip of None \<Rightarrow> 0 | Some r \<Rightarrow> failed_attempts r)"
  shows "\<exists>r. find_record (ls_records (run_ops enc (map (\<lambda>io. (io, OpFailure entry ip agent policy)) ios) ls)) entry ip
      = Some (failure_change (io_now (last ios)) agent policy r)
    \<and> min u32_max (k + length ios - 1) \<le> failed_attempts r"
  using assms
proof (induction ios arbitrary: ls k)
  case (Cons io ios)
  let ?ls = "apply_op enc io (OpFailure entry ip agent policy) ls"
  let ?r = "current_record ls entry ip (io_now io)"
  have f: "find_record (ls_records ?ls) entry ip = Some (failure_change (io_now io) agent policy ?r)"
    using Cons.prems by (intro record_failure_effect) simp_all
  have k: "k \<le> failed_attempts ?r"
    using Cons.prems(4)
    by (cases "find_record (ls_records ls) entry ip") (auto simp: current_record_def)
  show ?case
  proof (cases "ios = []")
    case True
    with f k show ?thesis by auto
  next
    case False
    have "has_room ?ls entry ip" using f by (simp add: has_room_def)
    moreover have "min u32_max (Suc k) \<le> failed_attempts (failure_change (io_now io) agent policy ?r)"
      using k by (auto simp: min_def)
    ultimately obtain r where
      "find_record (ls_records (run_ops enc (map (\<lambda>io. (io, OpFailure entry ip agent policy)) ios) ?ls)) entry ip
        = Some (failure_change (io_now (last ios)) agent policy r)"
      "min u32_max (min u32_max (Suc k) + length ios - 1) \<le> failed_attempts r"
      using Cons.IH [of ?ls "min u32_max (Suc k)"]
        f Cons.prems(2) False by auto
    moreover from this(2) False have "min u32_max (k + length (io # ios) - 1) \<le> failed_attempts r"
      by (cases ios) (auto simp: min_def split: if_splits)
    ultimately show ?thesis using False by auto
  qed
qed simp

section \<open>Reading the log back\<close>

text \<open>What a proof about the text needs of the encoder on one event: it decodes, on one line, in UTF-8.\<close>

definition line_ok :: "encoder \<Rightarrow> decoder \<Rightarrow> login_event \<Rightarrow> bool" where
  "line_ok enc dec e \<longleftrightarrow>
     valid_utf8 (enc e) \<and> dec (enc e) = Some e \<and> CHR 0x0A \<notin> set (enc e) \<and> trim (enc e) \<noteq> [] \<and> last (enc e) \<noteq> CHR 0x0D"

lemma split_events_text:
  assumes "\<forall>e \<in> set evs. CHR 0x0A \<notin> set (enc e)" and "CHR 0x0A \<notin> set tail"
  shows "split_on CHR 0x0A (events_text enc evs @ tail) = map enc evs @ [tail]"
  using assms
  by (induction evs) (simp_all add: events_text_def newline_def split_on_append split_on_no_sep)

lemma text_lines_events:
  assumes "list_all (line_ok enc dec) evs" and "CHR 0x0A \<notin> set tail"
  shows "text_lines (events_text enc evs @ tail) = map enc evs @ (if tail = [] then [] else [tail])"
proof -
  have "split_on CHR 0x0A (events_text enc evs @ tail) = map enc evs @ [tail]"
    using assms by (intro split_events_text) (auto simp: list_all_iff line_ok_def)
  moreover have "map strip_cr (map enc evs) = map enc evs"
    using assms(1) by (auto simp: list_all_iff line_ok_def strip_cr_def)
  ultimately show ?thesis by (simp add: text_lines_def)
qed

lemma read_lines_events:
  "list_all (line_ok enc dec) evs \<Longrightarrow>
   read_lines dec complete (map enc evs @ ls) acc = read_lines dec complete ls (acc @ evs)"
  by (induction evs arbitrary: acc) (simp_all add: line_ok_def)

lemma ends_with_newline: "ends_with (s @ newline) newline" "CHR 0x0A \<notin> set tail \<Longrightarrow> tail \<noteq> [] \<Longrightarrow> \<not> ends_with (s @ tail) newline"
proof -
  show "ends_with (s @ newline) newline" by (simp add: ends_with_def newline_def)
  assume "CHR 0x0A \<notin> set tail" "tail \<noteq> []"
  then obtain t c where "tail = t @ [c]" "c \<noteq> CHR 0x0A" by (cases tail rule: rev_cases) auto
  then show "\<not> ends_with (s @ tail) newline" by (simp add: ends_with_def newline_def)
qed

lemma valid_utf8_newline: "valid_utf8 newline"
  by code_simp

lemma valid_utf8_events: "list_all (line_ok enc dec) evs \<Longrightarrow> valid_utf8 (events_text enc evs @ tail) = valid_utf8 tail"
  by (induction evs) (simp_all add: events_text_def line_ok_def valid_utf8_append valid_utf8_newline)

lemma read_events_text:
  assumes "list_all (line_ok enc dec) evs"
  shows "read_events dec (events_text enc evs) = Inr evs"
  using text_lines_events [OF assms, of "[]"] read_lines_events [OF assms, of _ "[]" "[]"]
    valid_utf8_events [OF assms, of "[]"]
  by (simp add: read_events_def)

lemma read_events_torn:
  assumes "list_all (line_ok enc dec) evs" and "CHR 0x0A \<notin> set tail" and "dec tail = None" and "valid_utf8 tail"
  shows "read_events dec (events_text enc evs @ tail) = Inr evs"
proof (cases "tail = []")
  case True
  with read_events_text [OF assms(1)] show ?thesis by simp
next
  case False
  have "\<not> ends_with (events_text enc evs @ tail) newline"
    using assms(2) False by (rule ends_with_newline)
  then show ?thesis
    using text_lines_events [OF assms(1,2)] read_lines_events [OF assms(1), of False "[tail]" "[]"] False assms(3,4)
      valid_utf8_events [OF assms(1)]
    by (simp add: read_events_def)
qed

lemma events_text_append: "events_text enc (xs @ ys) = events_text enc xs @ events_text enc ys"
  by (simp add: events_text_def)


section \<open>Queries are slices of the filtered log\<close>

lemma query_loop_pages:
  assumes "length G + length es \<le> u64_max" and "0 < limit"
  shows "query_loop P None limit start es
      (length G, take (Suc limit) (drop start G), drop (length G - limit) G)
    = (length (G @ filter P es), take (Suc limit) (drop start (G @ filter P es)),
       drop (length (G @ filter P es) - limit) (G @ filter P es))"
  using assms
proof (induction es arbitrary: G)
  case (Cons e es)
  show ?case
  proof (cases "P e")
    case False
    with Cons show ?thesis by simp
  next
    case True
    let ?G = "G @ [e]"
    have sel: "(if start \<le> length G \<and> length (take (Suc limit) (drop start G)) \<le> limit
        then take (Suc limit) (drop start G) @ [e] else take (Suc limit) (drop start G))
      = take (Suc limit) (drop start ?G)"
      by auto
    have last: "(if length (drop (length G - limit) G) = limit then tl (drop (length G - limit) G)
        else drop (length G - limit) G) @ [e] = drop (length ?G - limit) ?G"
      using Cons.prems(2) by (auto simp: tl_drop drop_Suc [symmetric] Suc_diff_le)
    have "saturating_add (length G) 1 = length ?G"
      using Cons.prems(1) by (simp add: saturating_add_exact)
    then show ?thesis
      using True Cons.IH [of ?G] Cons.prems sel last by simp
  qed
qed simp

lemma query_loop_all:
  assumes "length es \<le> u64_max" and "0 < limit"
  shows "query_loop P None limit start es (0, [], [])
    = (length (filter P es), take (Suc limit) (drop start (filter P es)),
       drop (length (filter P es) - limit) (filter P es))"
  using query_loop_pages [of "[]" es limit P start] assms by simp

lemma div_ceil_bound:
  assumes "0 < b"
  shows "a \<le> div_ceil a b * b" and "0 < a \<Longrightarrow> (div_ceil a b - 1) * b < a"
proof -
  have eq: "a = a div b * b + a mod b" by simp
  have "a mod b < b" using assms by simp
  with eq have "a \<le> (a div b + 1) * b" unfolding add_mult_distrib by linarith
  then show "a \<le> div_ceil a b * b"
    by (cases "b dvd a") (simp_all add: div_ceil_def dvd_eq_mod_eq_0 [symmetric])
  assume "0 < a"
  show "(div_ceil a b - 1) * b < a"
  proof (cases "a mod b = 0")
    case True
    then have "a div b * b = a" by auto
    moreover have "0 < a div b" using True \<open>0 < a\<close> assms by (auto elim!: dvdE)
    ultimately show ?thesis using True assms \<open>0 < a\<close> by (simp add: div_ceil_def diff_mult_distrib)
  next
    case False
    then have "a div b * b < a" using eq by linarith
    with False show ?thesis by (simp add: div_ceil_def)
  qed
qed

text \<open>The events a query is about, newest first, as the code's filter selects them.\<close>

definition matching_events :: "(str \<Rightarrow> str) \<Rightarrow> login_security \<Rightarrow> event_query \<Rightarrow> int \<Rightarrow> login_event list" where
  "matching_events lower ls query now =
     filter (event_matches lower query (query_search lower query) (query_since (ls_log ls) query now))
       (rev (el_events (ls_log ls)))"

lemma served_page_start:
  assumes "0 < limit"
  shows "(min req (max (div_ceil n limit) 1) - 1) * limit \<le> n"
proof (cases "n = 0")
  case False
  then have "(div_ceil n limit - 1) * limit < n" by (intro div_ceil_bound assms) simp
  moreover have "min req (max (div_ceil n limit) 1) - 1 \<le> div_ceil n limit - 1" by auto
  ultimately show ?thesis by (meson le_trans less_imp_le mult_le_mono1)
qed (simp add: div_ceil_def)

lemma last_page_covers:
  assumes "0 < limit"
  shows "n \<le> max (div_ceil n limit) 1 * limit"
  using div_ceil_bound(1) [OF assms, of n] by (meson le_trans max.cobounded1 mult_le_mono1)

lemma select_page_slice:
  assumes "0 < limit" and "length es \<le> u64_max"
    and page: "page = min (max asked_page 1) (max (div_ceil (length (filter P es)) limit) 1)"
  shows "select_page P None asked_page limit es
    = (length (filter P es), page, page * limit < length (filter P es),
       take limit (drop ((page - 1) * limit) (filter P es)))"
proof -
  let ?F = "filter P es"
  let ?req = "max asked_page 1"
  have lenF: "length ?F \<le> u64_max"
    using assms(2) length_filter_le [of P es] by (rule le_trans [rotated])
  have start: "(page - 1) * limit \<le> length ?F"
    unfolding page by (rule served_page_start [OF assms(1)])
  then have exact: "saturating_mul (page - 1) limit = (page - 1) * limit"
    using lenF by (simp add: saturating_mul_def)
  have pos: "0 < page" by (simp add: page less_max_iff_disj)
  then have whole: "page * limit = (page - 1) * limit + limit"
    by (cases page) auto
  note loop = query_loop_all [OF assms(2,1), of P]
  let ?last = "drop (length ?F - limit) ?F"
  have unfolded: "select_page P None asked_page limit es =
    (if page = ?req
     then (length ?F, page, limit < length (take (Suc limit) (drop (saturating_mul (?req - 1) limit) ?F)),
           take limit (take (Suc limit) (drop (saturating_mul (?req - 1) limit) ?F)))
     else (length ?F, page, False,
           take limit (drop (length ?last - (length ?F - saturating_mul (page - 1) limit)) ?last)))"
    by (simp only: select_page_def loop Let_def prod.case page [symmetric] not_Some_eq simp_thms)
  show ?thesis
  proof (cases "page = ?req")
    case True
    have "(limit < length (take (Suc limit) (drop ((page - 1) * limit) ?F))) = (page * limit < length ?F)"
      unfolding whole by (auto simp: min_def)
    moreover have "take limit (take (Suc limit) X) = take limit X" for X :: "login_event list"
      by simp
    ultimately show ?thesis
      using True exact unfolding unfolded by simp
  next
    case False
    then have last: "page = max (div_ceil (length ?F) limit) 1"
      unfolding page by (auto simp: min_def)
    then have cover: "length ?F \<le> page * limit"
      using last_page_covers [OF assms(1)] by simp
    have "length ?F - limit + (length ?last - (length ?F - (page - 1) * limit)) = (page - 1) * limit"
      using cover start unfolding whole by (auto simp: min_def)
    then have "drop (length ?last - (length ?F - (page - 1) * limit)) ?last = drop ((page - 1) * limit) ?F"
      by (simp add: add.commute)
    then show ?thesis
      using False exact cover unfolding unfolded by simp
  qed
qed

section \<open>Properties\<close>

text \<open>
  The table of restrictions is bounded and has one record per entry point and address. Starting
  from an empty table, every sequence of calls, with every combination of clock readings and I/O
  failures, leaves at most 20000 records with distinct keys.
\<close>

lemma login_table_bounded:
  assumes "ls_records ls = []"
  shows "length (ls_records (run_ops enc ops ls)) \<le> 20000
    \<and> distinct (map record_key (ls_records (run_ops enc ops ls)))"
  using run_ops_table_inv [of ls enc ops] assms by (simp add: table_inv_def MAX_RESTRICTIONS_def)

definition empty_login_security :: login_security where
  "empty_login_security = \<lparr>ls_records = [], ls_log = \<lparr>el_events = [], next_id = 1, disk_entries = 0,
     retention_days = 7, max_entries = 100, el_file = []\<rparr>\<rparr>"

definition good_io :: "int \<Rightarrow> call_io" where
  "good_io now = \<lparr>io_now = now, io_saved = True, io_append = Appended, io_prune_now = now, io_compacted = True\<rparr>"

lemma login_table_bounded_witness:
  "ls_records empty_login_security = []
   \<and> length (ls_records (run_ops (\<lambda>_. ''x'') [(good_io 5, OpFailure Admin ''10.0.0.1'' None (fixed_policy Admin))]
        empty_login_security)) \<le> 20000"
  using login_table_bounded [of empty_login_security "\<lambda>_. ''x''"
      "[(good_io 5, OpFailure Admin ''10.0.0.1'' None (fixed_policy Admin))]"]
  by (simp add: empty_login_security_def)

text \<open>
  C22: brute force locks out. After as many recorded failures in a row as the policy allows, at any
  times, the address is blocked at that entry point for the policy's full duration counted from the
  last failure, and asking does not change the state.
\<close>

theorem lockout_after_failures:
  assumes "length (ls_records ls) < MAX_RESTRICTIONS" and "list_all io_saved ios" and "ios \<noteq> []"
    and "maximum_failures policy \<le> length ios" and "maximum_failures policy \<le> u32_max"
    and "io_now asked < io_now (last ios) + block_seconds policy"
  shows "is_blocked asked (run_ops enc (map (\<lambda>io. (io, OpFailure entry ip agent policy)) ios) ls) entry ip
    = (Inr True, run_ops enc (map (\<lambda>io. (io, OpFailure entry ip agent policy)) ios) ls)"
proof -
  let ?ls = "run_ops enc (map (\<lambda>io. (io, OpFailure entry ip agent policy)) ios) ls"
  have "has_room ls entry ip" using assms(1) by (simp add: has_room_def)
  then obtain r where r: "find_record (ls_records ?ls) entry ip
      = Some (failure_change (io_now (last ios)) agent policy r)"
    "min u32_max (length ios - 1) \<le> failed_attempts r"
    using failures_effect [of ls entry ip ios 0 enc agent policy] assms(2,3) by auto
  have "maximum_failures policy \<le> min u32_max (Suc (failed_attempts r))"
    using r(2) assms(3-5) by (cases ios) (auto simp: min_def split: if_splits)
  then have "blocked_until (failure_change (io_now (last ios)) agent policy r)
      = Some (io_now (last ios) + block_seconds policy)"
    by (simp add: failure_change_def Let_def)
  with r(1) have "blocked_to ?ls entry ip (io_now (last ios) + block_seconds policy)"
    by (simp add: blocked_to_def)
  then show ?thesis using assms(6) by (rule blocked_to_is_blocked)
qed

theorem lockout_after_failures_witness:
  "is_blocked (good_io 100)
     (run_ops (\<lambda>_. ''x'') (map (\<lambda>io. (io, OpFailure Admin ''10.0.0.1'' None (fixed_policy Admin))) [good_io 1, good_io 2, good_io 3])
        empty_login_security) Admin ''10.0.0.1''
   = (Inr True, run_ops (\<lambda>_. ''x'') (map (\<lambda>io. (io, OpFailure Admin ''10.0.0.1'' None (fixed_policy Admin))) [good_io 1, good_io 2, good_io 3])
        empty_login_security)"
  by (rule lockout_after_failures)
     (simp_all add: empty_login_security_def good_io_def MAX_RESTRICTIONS_def u32_max_def)

text \<open>
  C11: a block holds until it expires. While an address is blocked, no sequence of calls for other
  addresses or entry points, no lookup and no logged request failure can lift or shorten the block,
  even when the table is full and records must be evicted to make room.
\<close>

theorem block_survives:
  assumes "table_inv (ls_records ls)" and "blocked_to ls entry ip until"
    and "list_all (\<lambda>(io, op). io_now io < until \<and> op_target op \<noteq> Some (entry, ip)) ops"
    and "io_now asked < until"
  shows "is_blocked asked (run_ops enc ops ls) entry ip = (Inr True, run_ops enc ops ls)"
  using blocked_to_run_ops [OF assms(1-3)] assms(4) by (rule blocked_to_is_blocked)

theorem block_survives_witness:
  "let ls = empty_login_security\<lparr>ls_records :=
              [(new_record Admin ''10.0.0.1'' 0)\<lparr>blocked_until := Some 50\<rparr>]\<rparr>;
       ops = [(good_io 5, OpSuccess Web ''10.0.0.1'' None), (good_io 6, OpUnblock Admin ''10.0.0.2'')]
   in is_blocked (good_io 49) (run_ops (\<lambda>_. ''x'') ops ls) Admin ''10.0.0.1''
      = (Inr True, run_ops (\<lambda>_. ''x'') ops ls)"
  unfolding Let_def
  by (rule block_survives [where until = 50])
     (simp_all add: table_inv_def MAX_RESTRICTIONS_def blocked_to_def find_record_def is_record_def
        new_record_def good_io_def)

text \<open>
  A paged query returns a slice of the matching log. Without a cursor, the total is the number of
  matching events, the page is the requested one or the last one that exists, the events are exactly
  the corresponding slice of the matching events, newest first, although the code makes one pass and
  keeps only two bounded buffers, and a continuation cursor is given exactly when events follow.
\<close>

lemma query_events_slice:
  fixes limit :: nat
  assumes "q_cursor query = None" and "length (el_events (ls_log ls)) \<le> u64_max"
    and "limit = clamp (q_limit query) 1 100" and "page = query_events lower ls query now"
    and "matching = matching_events lower ls query now"
  shows "lp_total page = length matching
    \<and> lp_page page = min (max (q_page query) 1) (max (div_ceil (length matching) limit) 1)
    \<and> map lv_event (lp_events page) = take limit (drop ((lp_page page - 1) * limit) matching)
    \<and> (next_cursor page \<noteq> None \<longleftrightarrow> lp_page page * limit < length matching)"
proof -
  let ?P = "event_matches lower query (query_search lower query) (query_since (ls_log ls) query now)"
  let ?n = "min (max (q_page query) 1) (max (div_ceil (length matching) limit) 1)"
  have lim: "0 < limit" unfolding assms(3) by (simp add: clamp_def)
  have F: "matching = filter ?P (rev (el_events (ls_log ls)))"
    by (simp add: assms(5) matching_events_def)
  have sel: "select_page ?P None (q_page query) limit (rev (el_events (ls_log ls)))
    = (length matching, ?n, ?n * limit < length matching, take limit (drop ((?n - 1) * limit) matching))"
    unfolding F by (rule select_page_slice [OF lim]) (simp_all add: assms(2))
  have follow: "take limit (drop ((?n - 1) * limit) matching) \<noteq> []" if "?n * limit < length matching"
  proof -
    have "?n * limit = (?n - 1) * limit + limit" by (cases ?n) auto
    with that lim show ?thesis by simp
  qed
  show ?thesis
    using sel follow assms(1) unfolding assms(4) query_events_def Let_def assms(3) [symmetric]
    by (auto simp: event_view_def comp_def)
qed

lemma query_events_slice_witness:
  "lp_total (query_events id empty_login_security
     \<lparr>q_success = None, q_entry = None, q_search = None, q_since = 0, q_cursor = None, q_page = 3, q_limit = 10\<rparr> 0) = 0"
  using query_events_slice [where query = "\<lparr>q_success = None, q_entry = None, q_search = None, q_since = 0,
        q_cursor = None, q_page = 3, q_limit = 10\<rparr>" and ls = empty_login_security and lower = id and now = 0,
      OF _ _ refl refl refl]
  by (simp add: empty_login_security_def matching_events_def)

text \<open>
  The event file reads back. For events the encoder can represent on one line, the text that a
  compaction writes decodes to exactly these events, and a last line cut off by a crash during an
  append costs nothing but itself, unless the cut went through a character: then the file is not
  UTF-8 and does not read at all.
\<close>

lemma event_log_reads_back:
  assumes "list_all (line_ok enc dec) evs" and "CHR 0x0A \<notin> set tail" and "dec tail = None" and "valid_utf8 tail"
  shows "read_events dec (events_text enc evs) = Inr evs
    \<and> read_events dec (events_text enc evs @ tail) = Inr evs"
  using read_events_text [OF assms(1)] read_events_torn [OF assms] by simp

definition sample_event :: login_event where
  "sample_event = event_from_record (new_record Web ''10.0.0.9'' 3) True 3"

definition sample_dec :: decoder where
  "sample_dec l = (if l = ''{event}'' then Some (sample_event\<lparr>le_id := 1\<rparr>) else None)"

lemma sample_line_ok: "line_ok (\<lambda>_. ''{event}'') sample_dec (sample_event\<lparr>le_id := 1\<rparr>)"
proof -
  have "trim ''{event}'' \<noteq> []" "valid_utf8 ''{event}''" by code_simp+
  then show ?thesis by (simp add: line_ok_def sample_dec_def)
qed

lemma event_log_reads_back_witness:
  "read_events sample_dec (events_text (\<lambda>_. ''{event}'') [sample_event\<lparr>le_id := 1\<rparr>] @ ''{ev'')
   = Inr [sample_event\<lparr>le_id := 1\<rparr>]"
proof -
  have "valid_utf8 ''{ev''" by code_simp
  then show ?thesis
    using event_log_reads_back [where enc = "\<lambda>_. ''{event}''" and dec = sample_dec
        and evs = "[sample_event\<lparr>le_id := 1\<rparr>]" and tail = "''{ev''"] sample_line_ok
    by (simp add: sample_dec_def del: valid_utf8.simps)
qed



end
