(* ===== verification/AppState.thy ===== *)
theory AppState
  imports Configuration ConfigStore LoginSecurity
begin

text \<open>
  The state the request handlers share and its configuration (src/src/state.rs), and the
  administrative operations that edit the configuration (src/src/admin_api.rs,
  src/src/admin_api/users.rs). An edit is a function on a copy of the configuration; the copy is
  validated, saved and only then published. Edits are serialised, so one update is one function of
  the state. The storage runtime, password hashing, the keyed revision of an entity and new
  identifiers are parameters. Result texts written in Chinese are rendered in English.
\<close>

section \<open>State and updates\<close>

record 'ip app_state =
  st_config_file :: "'ip config_file"
  st_fs :: filesystem
  st_sessions :: session_store
  st_gate_access :: access_token_store
  st_folder_access :: access_token_store
  st_login_security :: login_security
  st_totp_replay :: "nat list"
  st_local_max_upload_bytes :: nat
  st_upload_rate :: nat
  st_download_rate :: nat
  st_retention_tasks :: nat

text \<open>What the deployment fixes, and the libraries.\<close>

record 'ip app_env =
  ae_check :: "'ip config_check"
  ae_lib :: "'ip config_file config_lib"
  ae_config_path :: str
  ae_max_upload_bytes :: nat
  ae_max_upload_batch_bytes :: nat
  ae_max_upload_batch_entries :: nat
  ae_max_archive_bytes :: nat
  ae_max_archive_entries :: nat
  ae_secure_cookies :: bool
  ae_verify :: "str \<Rightarrow> str \<Rightarrow> bool"
  ae_account_revision :: "user_account \<Rightarrow> quota option \<Rightarrow> str"
  ae_share_revision :: "share \<Rightarrow> str"
  ae_lock_revision :: "folder_lock \<Rightarrow> str"

record update_io =
  up_acquired :: bool
  up_publish :: publish_io
  up_temporary :: "nat \<Rightarrow> str"

text \<open>
  \<open>AppState::update_config\<close>. The task that saves and publishes runs to its end even when its
  caller stops waiting. A change of the log retention starts a later task, counted here.
\<close>

definition update_config ::
  "'ip :: linorder app_env \<Rightarrow> update_io \<Rightarrow> ('ip config_file \<Rightarrow> ('a \<times> 'ip config_file) app_result) \<Rightarrow> 'ip app_state
    \<Rightarrow> 'a app_result \<times> 'ip app_state" where
  "update_config env io edit st =
     (if \<not> up_acquired io then (Inl (Conflict ''The configuration is being committed, try again later''), st)
      else case rbind (edit (st_config_file st)) (\<lambda>(result, next).
                rbind (validate (ae_check env) next) (\<lambda>_.
                rbind (ensure (cf_max_upload_bytes next \<le> ae_max_upload_bytes env)
                         (BadRequest ''Persisted upload limit exceeds the deployment MAX_UPLOAD_BYTES envelope'')) (\<lambda>_.
                  Inr (result, next)))) of
             Inl e \<Rightarrow> (Inl e, st)
           | Inr (result, next) \<Rightarrow>
               (case save_config (ae_lib env) (up_publish io) (ae_config_path env) (up_temporary io) next (st_fs st) of
                  (Inl e, states) \<Rightarrow>
                    (Inl (with_source ''failed to persist configuration'' e), st\<lparr>st_fs := last_state (st_fs st) states\<rparr>)
                | (Inr _, states) \<Rightarrow>
                    (Inr result,
                     st\<lparr>st_fs := last_state (st_fs st) states, st_config_file := next,
                        st_local_max_upload_bytes := cf_max_upload_bytes next,
                        st_upload_rate := cf_upload_rate_bytes_per_sec next,
                        st_download_rate := cf_download_rate_bytes_per_sec next,
                        st_retention_tasks :=
                          (if (cf_security_log_retention_days (st_config_file st), cf_security_log_max_entries (st_config_file st))
                              \<noteq> (cf_security_log_retention_days next, cf_security_log_max_entries next)
                           then st_retention_tasks st + 1 else st_retention_tasks st)\<rparr>)))"

text \<open>The retention task reads the configuration that is current when it runs.\<close>

definition retention_task :: "encoder \<Rightarrow> call_io \<Rightarrow> 'ip app_state \<Rightarrow> 'ip app_state" where
  "retention_task enc io st =
     (if st_retention_tasks st = 0 then st
      else let (_, ls) = configure_retention enc io (st_login_security st)
                           (cf_security_log_retention_days (st_config_file st))
                           (cf_security_log_max_entries (st_config_file st))
           in st\<lparr>st_login_security := ls, st_retention_tasks := st_retention_tasks st - 1\<rparr>)"

section \<open>Passwords of the administrative operations\<close>

definition validate_password :: "str \<Rightarrow> nat \<Rightarrow> str \<Rightarrow> unit app_result" where
  "validate_password password minimum kind =
     (let characters = length (chars password)
      in if characters < minimum then Inl (BadRequest (kind @ '' password needs at least '' @ show_nat minimum @ '' characters''))
         else if 1024 < characters \<or> 4096 < length password then Inl (BadRequest (kind @ '' password is too long''))
         else Inr ())"

type_synonym hasher = "str \<Rightarrow> str app_result"

definition hash_optional_password :: "hasher \<Rightarrow> str option \<Rightarrow> nat \<Rightarrow> str \<Rightarrow> str option app_result" where
  "hash_optional_password hash password minimum kind =
     (case password of
        Some password \<Rightarrow>
          if password \<noteq> []
          then rbind (validate_password password minimum kind) (\<lambda>_. rbind (hash password) (\<lambda>h. Inr (Some h)))
          else Inr None
      | None \<Rightarrow> Inr None)"

definition hash_changed_password :: "hasher \<Rightarrow> str option \<Rightarrow> nat \<Rightarrow> str \<Rightarrow> str option option app_result" where
  "hash_changed_password hash password minimum kind =
     (case password of
        None \<Rightarrow> Inr None
      | Some password \<Rightarrow>
          if password = [] then Inr (Some None)
          else rbind (validate_password password minimum kind) (\<lambda>_. rbind (hash password) (\<lambda>h. Inr (Some (Some h)))))"

definition set_opt :: "'a option \<Rightarrow> ('a \<Rightarrow> 'b \<Rightarrow> 'b) \<Rightarrow> 'b \<Rightarrow> 'b" where
  "set_opt v upd x = (case v of None \<Rightarrow> x | Some a \<Rightarrow> upd a x)"

section \<open>Accounts\<close>

record user_account_view =
  uv_revision :: str
  uv_id :: str
  uv_username :: str
  uv_enabled :: bool
  uv_permissions :: "storage_permission list"

definition user_account_view_of :: "'ip app_env \<Rightarrow> user_account \<Rightarrow> quota option \<Rightarrow> user_account_view" where
  "user_account_view_of env a traffic =
     \<lparr>uv_revision = ae_account_revision env a traffic, uv_id = ua_id a, uv_username = ua_username a,
      uv_enabled = ua_enabled a, uv_permissions = ua_permissions a\<rparr>"

record create_user_request =
  cu_traffic :: quota
  cu_username :: str
  cu_password :: str
  cu_enabled :: bool
  cu_permissions :: "storage_permission list"

definition traffic_users :: "((str \<times> quota) list \<Rightarrow> (str \<times> quota) list) \<Rightarrow> 'ip config_file \<Rightarrow> 'ip config_file" where
  "traffic_users f c = c\<lparr>cf_traffic := (cf_traffic c)\<lparr>set_users := f (set_users (cf_traffic c))\<rparr>\<rparr>"

definition create_user_account ::
  "'ip :: linorder app_env \<Rightarrow> hasher \<Rightarrow> str \<Rightarrow> update_io \<Rightarrow> create_user_request \<Rightarrow> 'ip app_state
    \<Rightarrow> user_account_view app_result \<times> 'ip app_state" where
  "create_user_account env hash new_id io body st =
     (case rbind (validate_password (cu_password body) 12 ''Account'') (\<lambda>_. hash (cu_password body)) of
        Inl e \<Rightarrow> (Inl e, st)
      | Inr password_hash \<Rightarrow>
          let account = \<lparr>ua_id = new_id, ua_username = trim (cu_username body), ua_password_hash = password_hash,
                         ua_enabled = cu_enabled body, ua_permissions = cu_permissions body\<rparr>
          in update_config env io (\<lambda>c.
               rbind (quota_validate (cu_traffic body)) (\<lambda>_.
                 Inr (user_account_view_of env account (Some (cu_traffic body)),
                      (traffic_users (al_insert new_id (cu_traffic body)) c)
                        \<lparr>user_accounts := user_accounts c @ [account]\<rparr>))) st)"

record update_user_request =
  uu_expected_revision :: "str option"
  uu_traffic :: "quota option"
  uu_username :: "str option"
  uu_password :: "str option"
  uu_enabled :: "bool option"
  uu_permissions :: "storage_permission list option"

definition account_revoked :: "update_user_request \<Rightarrow> str option \<Rightarrow> user_account \<Rightarrow> bool" where
  "account_revoked body password_hash a \<longleftrightarrow>
     password_hash \<noteq> None
     \<or> (case uu_username body of None \<Rightarrow> False | Some name \<Rightarrow> trim name \<noteq> ua_username a)
     \<or> (case uu_enabled body of None \<Rightarrow> False | Some enabled \<Rightarrow> enabled \<noteq> ua_enabled a)
     \<or> (case uu_permissions body of None \<Rightarrow> False | Some ps \<Rightarrow> ps \<noteq> ua_permissions a)"

definition edited_account :: "update_user_request \<Rightarrow> str option \<Rightarrow> user_account \<Rightarrow> user_account" where
  "edited_account body password_hash a =
     set_opt (uu_permissions body) (\<lambda>v a. a\<lparr>ua_permissions := v\<rparr>)
       (set_opt (uu_enabled body) (\<lambda>v a. a\<lparr>ua_enabled := v\<rparr>)
         (set_opt password_hash (\<lambda>v a. a\<lparr>ua_password_hash := v\<rparr>)
           (set_opt (uu_username body) (\<lambda>v a. a\<lparr>ua_username := trim v\<rparr>) a)))"

definition edit_user_account ::
  "'ip app_env \<Rightarrow> str \<Rightarrow> update_user_request \<Rightarrow> str option \<Rightarrow> 'ip config_file
    \<Rightarrow> ((user_account_view \<times> bool) \<times> 'ip config_file) app_result" where
  "edit_user_account env uid body password_hash c =
     rbind (ok_or (List.find (\<lambda>a. ua_id a = uid) (user_accounts c)) NotFound) (\<lambda>a.
     rbind (ensure (\<not> (case uu_expected_revision body of
                         None \<Rightarrow> False
                       | Some expected \<Rightarrow> expected \<noteq> ae_account_revision env a (al_get (set_users (cf_traffic c)) uid)))
              (Conflict ''The entry has changed, reload it before editing'')) (\<lambda>_.
     rbind (case uu_traffic body of None \<Rightarrow> Inr () | Some q \<Rightarrow> quota_validate q) (\<lambda>_.
       let a' = edited_account body password_hash a;
           c' = traffic_users (\<lambda>users. case uu_traffic body of None \<Rightarrow> users | Some q \<Rightarrow> al_insert uid q users) c
       in Inr ((user_account_view_of env a' (al_get (set_users (cf_traffic c')) uid), account_revoked body password_hash a),
               c'\<lparr>user_accounts := modify_first (\<lambda>a. ua_id a = uid) (edited_account body password_hash) (user_accounts c)\<rparr>))))"

definition update_user_account ::
  "'ip :: linorder app_env \<Rightarrow> hasher \<Rightarrow> update_io \<Rightarrow> str \<Rightarrow> update_user_request \<Rightarrow> 'ip app_state
    \<Rightarrow> user_account_view app_result \<times> 'ip app_state" where
  "update_user_account env hash io uid body st =
     (case hash_optional_password hash (uu_password body) 12 ''Account'' of
        Inl e \<Rightarrow> (Inl e, st)
      | Inr password_hash \<Rightarrow>
          (case update_config env io (edit_user_account env uid body password_hash) st of
             (Inl e, st) \<Rightarrow> (Inl e, st)
           | (Inr (view, revoke), st) \<Rightarrow>
               (Inr view, if revoke then st\<lparr>st_sessions := revoke_user (st_sessions st) uid\<rparr> else st)))"

definition delete_user_account ::
  "'ip :: linorder app_env \<Rightarrow> update_io \<Rightarrow> str \<Rightarrow> 'ip app_state \<Rightarrow> unit app_result \<times> 'ip app_state" where
  "delete_user_account env io uid st =
     (case update_config env io (\<lambda>c.
             let kept = filter (\<lambda>a. ua_id a \<noteq> uid) (user_accounts c);
                 c' = traffic_users (al_remove uid) c
             in if length kept = length (user_accounts c) then Inl NotFound
                else Inr ((), c'\<lparr>user_accounts := kept\<rparr>)) st of
        (Inl e, st) \<Rightarrow> (Inl e, st)
      | (Inr _, st) \<Rightarrow> (Inr (), st\<lparr>st_sessions := revoke_user (st_sessions st) uid\<rparr>))"

section \<open>Shares\<close>

record share_view =
  sv_revision :: str
  sv_id :: str
  sv_storage_id :: str
  sv_name :: str
  sv_path :: str
  sv_username :: "str option"
  sv_webdav_enabled :: bool
  sv_has_password :: bool
  sv_readonly :: bool

definition share_view_of :: "'ip app_env \<Rightarrow> share \<Rightarrow> share_view" where
  "share_view_of env s =
     \<lparr>sv_revision = ae_share_revision env s, sv_id = share_id s, sv_storage_id = share_storage_id s,
      sv_name = share_name s, sv_path = share_path s, sv_username = share_username s,
      sv_webdav_enabled = share_webdav_enabled s, sv_has_password = (share_password_hash s \<noteq> None),
      sv_readonly = share_readonly s\<rparr>"

definition non_empty :: "str \<Rightarrow> str option" where
  "non_empty s = (if s = [] then None else Some s)"

record create_share_request =
  cs_storage_id :: "str option"
  cs_name :: str
  cs_path :: str
  cs_username :: "str option"
  cs_webdav_enabled :: bool
  cs_password :: "str option"
  cs_readonly :: bool

definition create_share ::
  "'ip :: linorder app_env \<Rightarrow> hasher \<Rightarrow> str \<Rightarrow> update_io \<Rightarrow> create_share_request \<Rightarrow> 'ip app_state
    \<Rightarrow> share_view app_result \<times> 'ip app_state" where
  "create_share env hash new_id io body st =
     (case rbind (hash_optional_password hash (cs_password body) 12 ''WebDAV'') (\<lambda>password_hash.
           rbind (ok_or (Option.bind (cs_storage_id body) non_empty) (BadRequest ''Select a storage'')) (\<lambda>storage_id.
             Inr \<lparr>share_id = new_id, share_storage_id = storage_id, share_name = trim (cs_name body),
                  share_path = trim_matches CHR ''/'' (cs_path body),
                  share_username = Option.bind (map_option trim (cs_username body)) non_empty,
                  share_webdav_enabled = cs_webdav_enabled body, share_password_hash = password_hash,
                  share_readonly = cs_readonly body\<rparr>)) of
        Inl e \<Rightarrow> (Inl e, st)
      | Inr s \<Rightarrow>
          update_config env io (\<lambda>c.
            if list_ex (\<lambda>existing. eq_ignore_ascii_case (share_name existing) (share_name s)) (cf_shares c)
            then Inl (Conflict ''Share name already exists'')
            else Inr (share_view_of env s, c\<lparr>cf_shares := cf_shares c @ [s]\<rparr>)) st)"

record update_share_request =
  us_expected_revision :: "str option"
  us_storage_id :: "str option"
  us_name :: "str option"
  us_path :: "str option"
  us_username :: "str option"
  us_webdav_enabled :: "bool option"
  us_password :: "str option"
  us_readonly :: "bool option"

definition edited_share :: "update_share_request \<Rightarrow> str option option \<Rightarrow> share \<Rightarrow> share" where
  "edited_share body password_hash s =
     set_opt password_hash (\<lambda>v s. s\<lparr>share_password_hash := v\<rparr>)
      (set_opt (us_readonly body) (\<lambda>v s. s\<lparr>share_readonly := v\<rparr>)
       (set_opt (us_webdav_enabled body) (\<lambda>v s. s\<lparr>share_webdav_enabled := v\<rparr>)
        (set_opt (us_username body) (\<lambda>v s. s\<lparr>share_username := non_empty (trim v)\<rparr>)
         (set_opt (us_path body) (\<lambda>v s. s\<lparr>share_path := trim_matches CHR ''/'' v\<rparr>)
          (set_opt (us_name body) (\<lambda>v s. s\<lparr>share_name := trim v\<rparr>)
           (set_opt (us_storage_id body) (\<lambda>v s. s\<lparr>share_storage_id := v\<rparr>) s))))))"

definition edit_share ::
  "'ip app_env \<Rightarrow> str \<Rightarrow> update_share_request \<Rightarrow> str option option \<Rightarrow> 'ip config_file
    \<Rightarrow> (share_view \<times> 'ip config_file) app_result" where
  "edit_share env sid body password_hash c =
     rbind (ensure (\<not> (case us_name body of
                         None \<Rightarrow> False
                       | Some name \<Rightarrow> list_ex (\<lambda>s. share_id s \<noteq> sid \<and> eq_ignore_ascii_case (share_name s) (trim name)) (cf_shares c)))
              (Conflict ''Share name already exists'')) (\<lambda>_.
     rbind (ok_or (List.find (\<lambda>s. share_id s = sid) (cf_shares c)) NotFound) (\<lambda>s.
     rbind (ensure (\<not> (case us_expected_revision body of None \<Rightarrow> False | Some expected \<Rightarrow> expected \<noteq> ae_share_revision env s))
              (Conflict ''The entry has changed, reload it before editing'')) (\<lambda>_.
       Inr (share_view_of env (edited_share body password_hash s),
            c\<lparr>cf_shares := modify_first (\<lambda>s. share_id s = sid) (edited_share body password_hash) (cf_shares c)\<rparr>))))"

definition update_share ::
  "'ip :: linorder app_env \<Rightarrow> hasher \<Rightarrow> update_io \<Rightarrow> str \<Rightarrow> update_share_request \<Rightarrow> 'ip app_state
    \<Rightarrow> share_view app_result \<times> 'ip app_state" where
  "update_share env hash io sid body st =
     (case hash_changed_password hash (us_password body) 12 ''WebDAV'' of
        Inl e \<Rightarrow> (Inl e, st)
      | Inr password_hash \<Rightarrow> update_config env io (edit_share env sid body password_hash) st)"

text \<open>\<open>position\<close> and \<open>remove\<close>: the first match goes.\<close>

fun remove_first :: "('a \<Rightarrow> bool) \<Rightarrow> 'a list \<Rightarrow> 'a list option" where
  "remove_first P [] = None"
| "remove_first P (x # xs) = (if P x then Some xs else map_option ((#) x) (remove_first P xs))"

definition delete_share ::
  "'ip :: linorder app_env \<Rightarrow> update_io \<Rightarrow> str \<Rightarrow> 'ip app_state \<Rightarrow> unit app_result \<times> 'ip app_state" where
  "delete_share env io sid st =
     update_config env io (\<lambda>c.
       rbind (ok_or (remove_first (\<lambda>s. share_id s = sid) (cf_shares c)) NotFound) (\<lambda>shares.
         Inr ((), c\<lparr>cf_shares := shares\<rparr>))) st"

section \<open>Folder locks\<close>

record folder_lock_view =
  lv_revision :: str
  lv_id :: str
  lv_storage_id :: str
  lv_path :: str

definition folder_lock_view_of :: "'ip app_env \<Rightarrow> folder_lock \<Rightarrow> folder_lock_view" where
  "folder_lock_view_of env l =
     \<lparr>lv_revision = ae_lock_revision env l, lv_id = lock_id l, lv_storage_id = lock_storage_id l, lv_path = lock_path l\<rparr>"

record create_lock_request =
  cl_storage_id :: "str option"
  cl_path :: str
  cl_password :: str

definition create_lock ::
  "'ip :: linorder app_env \<Rightarrow> hasher \<Rightarrow> str \<Rightarrow> update_io \<Rightarrow> create_lock_request \<Rightarrow> 'ip app_state
    \<Rightarrow> folder_lock_view app_result \<times> 'ip app_state" where
  "create_lock env hash new_id io body st =
     (case rbind (validate_password (cl_password body) 8 ''Folder lock'') (\<lambda>_.
           rbind (ok_or (Option.bind (cl_storage_id body) non_empty) (BadRequest ''Select a storage'')) (\<lambda>storage_id.
           rbind (hash (cl_password body)) (\<lambda>password_hash.
             Inr \<lparr>lock_id = new_id, lock_storage_id = storage_id, lock_path = trim_matches CHR ''/'' (cl_path body),
                  lock_password_hash = password_hash\<rparr>))) of
        Inl e \<Rightarrow> (Inl e, st)
      | Inr l \<Rightarrow>
          update_config env io (\<lambda>c.
            if list_ex (\<lambda>existing. lock_storage_id existing = lock_storage_id l \<and> lock_path existing = lock_path l) (folder_locks c)
            then Inl (Conflict ''Folder already has a lock'')
            else Inr (folder_lock_view_of env l, c\<lparr>folder_locks := folder_locks c @ [l]\<rparr>)) st)"

record update_lock_request =
  ul_expected_revision :: "str option"
  ul_storage_id :: "str option"
  ul_path :: "str option"
  ul_password :: "str option"

definition edited_lock :: "update_lock_request \<Rightarrow> str option \<Rightarrow> folder_lock \<Rightarrow> folder_lock" where
  "edited_lock body password_hash l =
     set_opt password_hash (\<lambda>v l. l\<lparr>lock_password_hash := v\<rparr>)
      (set_opt (ul_path body) (\<lambda>v l. l\<lparr>lock_path := trim_matches CHR ''/'' v\<rparr>)
       (set_opt (ul_storage_id body) (\<lambda>v l. l\<lparr>lock_storage_id := v\<rparr>) l))"

fun position_of :: "('a \<Rightarrow> bool) \<Rightarrow> 'a list \<Rightarrow> nat option" where
  "position_of P [] = None"
| "position_of P (x # xs) = (if P x then Some 0 else map_option Suc (position_of P xs))"

definition edit_lock ::
  "'ip app_env \<Rightarrow> str \<Rightarrow> update_lock_request \<Rightarrow> str option \<Rightarrow> 'ip config_file
    \<Rightarrow> (folder_lock_view \<times> 'ip config_file) app_result" where
  "edit_lock env lid body password_hash c =
     rbind (ok_or (position_of (\<lambda>l. lock_id l = lid) (folder_locks c)) NotFound) (\<lambda>index.
       let l = folder_locks c ! index;
           target_storage_id = (case ul_storage_id body of Some v \<Rightarrow> v | None \<Rightarrow> lock_storage_id l);
           target_path = (case ul_path body of Some v \<Rightarrow> trim_matches CHR ''/'' v | None \<Rightarrow> lock_path l)
       in rbind (ensure (\<not> list_ex (\<lambda>(i, other). i \<noteq> index \<and> lock_storage_id other = target_storage_id
                                 \<and> lock_path other = target_path) (enumerate 0 (folder_locks c)))
                   (Conflict ''Folder already has a lock'')) (\<lambda>_.
          rbind (ensure (\<not> (case ul_expected_revision body of None \<Rightarrow> False | Some expected \<Rightarrow> expected \<noteq> ae_lock_revision env l))
                   (Conflict ''The entry has changed, reload it before editing'')) (\<lambda>_.
            Inr (folder_lock_view_of env (edited_lock body password_hash l),
                 c\<lparr>folder_locks := (folder_locks c)[index := edited_lock body password_hash l]\<rparr>))))"

definition update_lock ::
  "'ip :: linorder app_env \<Rightarrow> hasher \<Rightarrow> update_io \<Rightarrow> str \<Rightarrow> update_lock_request \<Rightarrow> 'ip app_state
    \<Rightarrow> folder_lock_view app_result \<times> 'ip app_state" where
  "update_lock env hash io lid body st =
     (case hash_optional_password hash (ul_password body) 8 ''Folder lock'' of
        Inl e \<Rightarrow> (Inl e, st)
      | Inr password_hash \<Rightarrow>
          (case update_config env io (edit_lock env lid body password_hash) st of
             (Inl e, st) \<Rightarrow> (Inl e, st)
           | (Inr view, st) \<Rightarrow> (Inr view, st\<lparr>st_folder_access := remove_scope (st_folder_access st) lid\<rparr>)))"

definition delete_lock ::
  "'ip :: linorder app_env \<Rightarrow> update_io \<Rightarrow> str \<Rightarrow> 'ip app_state \<Rightarrow> unit app_result \<times> 'ip app_state" where
  "delete_lock env io lid st =
     (case update_config env io (\<lambda>c.
             let kept = filter (\<lambda>l. lock_id l \<noteq> lid) (folder_locks c)
             in if length kept = length (folder_locks c) then Inl NotFound
                else Inr ((), c\<lparr>folder_locks := kept\<rparr>)) st of
        (Inl e, st) \<Rightarrow> (Inl e, st)
      | (Inr _, st) \<Rightarrow> (Inr (), st\<lparr>st_folder_access := remove_scope (st_folder_access st) lid\<rparr>))"

section \<open>The administrator, limits and login protection\<close>

text \<open>
  \<open>remove_initial_credentials_if_rotated\<close>: the plain text of the first credentials goes when
  neither password in it is active. The arguments are the outcomes of the removal and of the
  synchronisation.
\<close>

definition remove_initial_credentials_if_rotated ::
  "'ip app_env \<Rightarrow> str \<Rightarrow> bool \<Rightarrow> bool \<Rightarrow> 'ip config_file \<Rightarrow> filesystem \<Rightarrow> (str + bool) \<times> filesystem" where
  "remove_initial_credentials_if_rotated env file_name removes synced c fs =
     (case read_file fs file_name of
        None \<Rightarrow> (Inr False, fs)
      | Some content \<Rightarrow>
          (case parse_credentials (ae_lib env) content of
             None \<Rightarrow> (Inl ''Initial credentials file is invalid'', fs)
           | Some credentials \<Rightarrow>
               if \<not> validate_initial_credentials credentials
               then (Inl ''Initial credentials file does not satisfy the password policy'', fs)
               else if \<not> ae_verify env (cf_admin_password_hash c) (ic_admin_password credentials)
                       \<and> (case cf_global_web_password_hash c of
                            None \<Rightarrow> True | Some h \<Rightarrow> \<not> ae_verify env h (ic_web_access_password credentials))
               then (if \<not> removes then (Inl ''Failed to remove initial credentials file'', fs)
                     else let fs = update_dir (Unlink file_name) fs
                          in if synced then (Inr True, sync_parent fs)
                             else (Inl ''Failed to synchronize configuration directory'', fs))
               else (Inr False, fs)))"

record update_admin_request =
  ad_username :: "str option"
  ad_password :: "str option"
  ad_global_web_password :: "str option"

definition update_admin_account ::
  "'ip :: linorder app_env \<Rightarrow> hasher \<Rightarrow> update_io \<Rightarrow> str \<Rightarrow> bool \<Rightarrow> bool \<Rightarrow> update_admin_request \<Rightarrow> 'ip app_state
    \<Rightarrow> str option app_result \<times> 'ip app_state" where
  "update_admin_account env hash io credentials_file removes synced body st =
     (case rbind (hash_optional_password hash (ad_password body) 12 ''Administrator'') (\<lambda>password_hash.
           rbind (hash_changed_password hash (ad_global_web_password body) 8 ''Web access'') (\<lambda>web_hash.
             Inr (password_hash, web_hash))) of
        Inl e \<Rightarrow> (Inl e, st)
      | Inr (password_hash, web_hash) \<Rightarrow>
          let name = Option.bind (map_option trim (ad_username body)) non_empty;
              credentials_changed = (password_hash \<noteq> None \<or> name \<noteq> None);
              gate_changed = (web_hash \<noteq> None)
          in case update_config env io (\<lambda>c.
                    Inr ((), set_opt web_hash (\<lambda>v c. c\<lparr>cf_global_web_password_hash := v\<rparr>)
                              (set_opt password_hash (\<lambda>v c. c\<lparr>cf_admin_password_hash := v\<rparr>)
                                (set_opt name (\<lambda>v c. c\<lparr>cf_admin_username := v\<rparr>) c)))) st of
               (Inl e, st) \<Rightarrow> (Inl e, st)
             | (Inr _, st) \<Rightarrow>
                 let st = (if credentials_changed then st\<lparr>st_sessions := revoke_administrator (st_sessions st)\<rparr> else st);
                     st = (if gate_changed then st\<lparr>st_gate_access := clear_accesses (st_gate_access st)\<rparr> else st)
                 in if password_hash \<noteq> None \<or> gate_changed
                    then (case remove_initial_credentials_if_rotated env credentials_file removes synced (st_config_file st) (st_fs st) of
                            (Inl _, fs) \<Rightarrow> (Inr (Some ''The initial credentials file could not be removed''), st\<lparr>st_fs := fs\<rparr>)
                          | (Inr _, fs) \<Rightarrow> (Inr None, st\<lparr>st_fs := fs\<rparr>))
                    else (Inr None, st))"

record transfer_limits_request =
  tl_max_upload_bytes :: "nat option"
  tl_max_upload_batch_bytes :: "nat option"
  tl_max_upload_batch_entries :: "nat option"
  tl_upload_file_concurrency :: "nat option"
  tl_max_archive_bytes :: "nat option"
  tl_max_archive_entries :: "nat option"
  tl_upload_rate :: "nat option"
  tl_download_rate :: "nat option"

definition update_transfer_limits ::
  "'ip :: linorder app_env \<Rightarrow> update_io \<Rightarrow> transfer_limits_request \<Rightarrow> 'ip app_state \<Rightarrow> unit app_result \<times> 'ip app_state" where
  "update_transfer_limits env io body st =
     update_config env io (\<lambda>c.
       let c = set_opt (tl_download_rate body) (\<lambda>v c. c\<lparr>cf_download_rate_bytes_per_sec := v\<rparr>)
                (set_opt (tl_upload_rate body) (\<lambda>v c. c\<lparr>cf_upload_rate_bytes_per_sec := v\<rparr>)
                 (set_opt (tl_max_archive_entries body) (\<lambda>v c. c\<lparr>cf_max_archive_entries := v\<rparr>)
                  (set_opt (tl_max_archive_bytes body) (\<lambda>v c. c\<lparr>cf_max_archive_bytes := v\<rparr>)
                   (set_opt (tl_upload_file_concurrency body) (\<lambda>v c. c\<lparr>cf_upload_file_concurrency := v\<rparr>)
                    (set_opt (tl_max_upload_batch_entries body) (\<lambda>v c. c\<lparr>cf_max_upload_batch_entries := v\<rparr>)
                     (set_opt (tl_max_upload_batch_bytes body) (\<lambda>v c. c\<lparr>cf_max_upload_batch_bytes := v\<rparr>)
                      (set_opt (tl_max_upload_bytes body) (\<lambda>v c. c\<lparr>cf_max_upload_bytes := v\<rparr>) c)))))))
       in rbind (validate_transfer_limits (cf_max_upload_bytes c) (cf_max_upload_batch_bytes c)
                   (cf_max_upload_batch_entries c) (cf_max_archive_bytes c) (cf_max_archive_entries c)) (\<lambda>_.
          rbind (validate_transfer_rate (cf_upload_rate_bytes_per_sec c) ''upload'') (\<lambda>_.
          rbind (validate_transfer_rate (cf_download_rate_bytes_per_sec c) ''download'') (\<lambda>_.
            if ae_max_upload_bytes env < cf_max_upload_bytes c
               \<or> ae_max_upload_batch_bytes env < cf_max_upload_batch_bytes c
               \<or> ae_max_upload_batch_entries env < cf_max_upload_batch_entries c
               \<or> ae_max_archive_bytes env < cf_max_archive_bytes c
               \<or> ae_max_archive_entries env < cf_max_archive_entries c
            then Inl (BadRequest ''The limits exceed what the deployment allows'')
            else Inr ((), c))))) st"

record login_settings_request =
  lg_admin_login_failures :: "nat option"
  lg_web_login_failures :: "nat option"
  lg_admin_login_block_seconds :: "nat option"
  lg_web_login_block_seconds :: "nat option"
  lg_security_log_retention_days :: "nat option"
  lg_security_log_max_entries :: "nat option"

definition update_login_security_settings ::
  "'ip :: linorder app_env \<Rightarrow> update_io \<Rightarrow> login_settings_request \<Rightarrow> 'ip app_state \<Rightarrow> unit app_result \<times> 'ip app_state" where
  "update_login_security_settings env io body st =
     (if lg_admin_login_failures body = None \<and> lg_web_login_failures body = None \<and> lg_admin_login_block_seconds body = None
         \<and> lg_web_login_block_seconds body = None \<and> lg_security_log_retention_days body = None
         \<and> lg_security_log_max_entries body = None
      then (Inl (BadRequest ''There is no login setting to update''), st)
      else update_config env io (\<lambda>c.
        Inr ((), set_opt (lg_security_log_max_entries body) (\<lambda>v c. c\<lparr>cf_security_log_max_entries := v\<rparr>)
                  (set_opt (lg_security_log_retention_days body) (\<lambda>v c. c\<lparr>cf_security_log_retention_days := v\<rparr>)
                   (set_opt (lg_web_login_block_seconds body) (\<lambda>v c. c\<lparr>cf_web_login_block_seconds := v\<rparr>)
                    (set_opt (lg_admin_login_block_seconds body) (\<lambda>v c. c\<lparr>cf_admin_login_block_seconds := v\<rparr>)
                     (set_opt (lg_web_login_failures body) (\<lambda>v c. c\<lparr>cf_web_login_failures := v\<rparr>)
                      (set_opt (lg_admin_login_failures body) (\<lambda>v c. c\<lparr>cf_admin_login_failures := v\<rparr>) c))))))) st)"

definition login_policy_for :: "'ip config_file \<Rightarrow> login_entry \<Rightarrow> login_policy" where
  "login_policy_for c entry =
     (case entry of
        Admin \<Rightarrow> \<lparr>maximum_failures = cf_admin_login_failures c, block_seconds = int (cf_admin_login_block_seconds c)\<rparr>
      | Account \<Rightarrow> fixed_policy Account
      | Web \<Rightarrow> \<lparr>maximum_failures = cf_web_login_failures c, block_seconds = int (cf_web_login_block_seconds c)\<rparr>
      | WebDav \<Rightarrow> fixed_policy WebDav)"

definition block_login ::
  "encoder \<Rightarrow> call_io \<Rightarrow> login_entry \<Rightarrow> str option \<Rightarrow> 'ip app_state \<Rightarrow> unit app_result \<times> 'ip app_state" where
  "block_login enc io entry ip st =
     (case ip of
        None \<Rightarrow> (Inl (BadRequest ''The address is invalid''), st)
      | Some ip \<Rightarrow>
          (case restrict_login enc io (st_login_security st) entry ip (login_policy_for (st_config_file st) entry) of
             (Inl e, ls) \<Rightarrow> (Inl (with_source ''The login protection could not be stored'' e), st\<lparr>st_login_security := ls\<rparr>)
           | (Inr _, ls) \<Rightarrow> (Inr (), st\<lparr>st_login_security := ls\<rparr>)))"

definition unblock_login ::
  "encoder \<Rightarrow> call_io \<Rightarrow> login_entry \<Rightarrow> str option \<Rightarrow> 'ip app_state \<Rightarrow> unit app_result \<times> 'ip app_state" where
  "unblock_login enc io entry ip st =
     (case ip of
        None \<Rightarrow> (Inl (BadRequest ''The address is invalid''), st)
      | Some ip \<Rightarrow>
          (case unblock enc io (st_login_security st) entry ip of
             (Inl e, ls) \<Rightarrow> (Inl (with_source ''The login protection could not be stored'' e), st\<lparr>st_login_security := ls\<rparr>)
           | (Inr found, ls) \<Rightarrow> (if found then Inr () else Inl NotFound, st\<lparr>st_login_security := ls\<rparr>)))"

section \<open>Memory and disk\<close>

lemma save_config_result:
  assumes "save_config lib io path temporary c fs = (r, states)" "fs_ok fs"
    "names_apart path (config_backup_path path) temporary"
  shows "fs_ok (last_state fs states)"
    "r = Inl e \<Longrightarrow> read_file (last_state fs states) path = read_file fs path"
    "r = Inr commit \<Longrightarrow> \<exists>bytes. encode_candidate lib c = Inr bytes \<and> read_file (last_state fs states) path = Some bytes"
proof -
  have "fs_ok (last_state fs states) \<and> (\<forall>e. r = Inl e \<longrightarrow> read_file (last_state fs states) path = read_file fs path)
      \<and> (\<forall>commit. r = Inr commit \<longrightarrow> (\<exists>bytes. encode_candidate lib c = Inr bytes \<and> read_file (last_state fs states) path = Some bytes))"
  proof (cases "encode_candidate lib c")
    case (Inl e)
    then show ?thesis using assms(1,2) by (auto simp: save_config_def persist_candidate_def last_state_def)
  next
    case (Inr bytes)
    then have pub: "publish_with_backup io path (config_backup_path path) temporary bytes True False fs = (r, states)"
      using assms(1) by (simp add: save_config_def persist_candidate_def publish_def)
    from pub assms(2,3) show ?thesis
    proof (cases rule: publish_shape)
      case (failed e)
      have "keeps path fs (last_state fs states)" by (rule last_state_keeps [OF failed(2) assms(2)])
      then show ?thesis using keeps_read [OF _ assms(2)] keeps_ok failed(1) by blast
    next
      case (published commit before fs1 post)
      have ok1: "fs_ok fs1" using published(4) by (simp add: publishes_def)
      have l: "last_state fs states = last_state fs1 post" by (cases post) (simp_all add: published(2) last_state_def)
      have "publishes path bytes fs (last_state fs1 post)"
        by (rule publishes_keeps [OF published(4) last_state_keeps [OF published(5) ok1]])
      then show ?thesis using Inr published(1) by (auto simp: l publishes_def read_file_def)
    qed
  qed
  then show "fs_ok (last_state fs states)"
    "r = Inl e \<Longrightarrow> read_file (last_state fs states) path = read_file fs path"
    "r = Inr commit \<Longrightarrow> \<exists>bytes. encode_candidate lib c = Inr bytes \<and> read_file (last_state fs states) path = Some bytes"
    by auto
qed

lemma update_config_cases:
  assumes "update_config env io edit st = (r, st')"
  obtains (refused) e where "r = Inl e" "st' = st"
  | (unsaved) e x cfg states where "r = Inl e" "st' = st\<lparr>st_fs := last_state (st_fs st) states\<rparr>"
      "save_config (ae_lib env) (up_publish io) (ae_config_path env) (up_temporary io) cfg (st_fs st) = (Inl x, states)"
  | (saved) a cfg commit states where "r = Inr a" "edit (st_config_file st) = Inr (a, cfg)"
      "validate (ae_check env) cfg = Inr ()" "cf_max_upload_bytes cfg \<le> ae_max_upload_bytes env"
      "save_config (ae_lib env) (up_publish io) (ae_config_path env) (up_temporary io) cfg (st_fs st) = (Inr commit, states)"
      "st_config_file st' = cfg" "st_fs st' = last_state (st_fs st) states" "st_sessions st' = st_sessions st"
      "st_gate_access st' = st_gate_access st" "st_folder_access st' = st_folder_access st"
      "st_login_security st' = st_login_security st" "st_totp_replay st' = st_totp_replay st"
      "st_local_max_upload_bytes st' = cf_max_upload_bytes cfg" "st_upload_rate st' = cf_upload_rate_bytes_per_sec cfg"
      "st_download_rate st' = cf_download_rate_bytes_per_sec cfg"
proof (cases "\<exists>a cfg. up_acquired io \<and> edit (st_config_file st) = Inr (a, cfg) \<and> validate (ae_check env) cfg = Inr ()
    \<and> cf_max_upload_bytes cfg \<le> ae_max_upload_bytes env")
  case True
  then obtain a cfg where a: "up_acquired io" "edit (st_config_file st) = Inr (a, cfg)" "validate (ae_check env) cfg = Inr ()"
    "cf_max_upload_bytes cfg \<le> ae_max_upload_bytes env" by blast
  obtain sr states where s: "save_config (ae_lib env) (up_publish io) (ae_config_path env) (up_temporary io) cfg (st_fs st) = (sr, states)"
    by force
  show thesis
  proof (cases sr)
    case (Inl x)
    with s a assms show thesis by (intro unsaved) (auto simp: update_config_def ensure_def)
  next
    case (Inr commit)
    with s a assms show thesis by (intro saved [OF _ a(2-4)]) (auto simp: update_config_def ensure_def)
  qed
next
  case False
  let ?m = "rbind (edit (st_config_file st)) (\<lambda>(result, cfg).
      rbind (validate (ae_check env) cfg) (\<lambda>_.
      rbind (ensure (cf_max_upload_bytes cfg \<le> ae_max_upload_bytes env)
               (BadRequest ''Persisted upload limit exceeds the deployment MAX_UPLOAD_BYTES envelope'')) (\<lambda>_.
        Inr (result, cfg))))"
  have "up_acquired io \<Longrightarrow> ?m \<noteq> Inr x" for x
    using False by (auto simp: rbind_Inr_iff)
  then have "\<exists>e. r = Inl e \<and> st' = st"
    using assms by (cases ?m) (auto simp: update_config_def split: if_splits)
  then show thesis using refused by blast
qed

text \<open>
  The invariant of the running server: the configuration in memory is valid, is the one whose
  encoding the configuration file holds, and the limits the handlers read are its own.
\<close>

definition published :: "'ip :: linorder app_env \<Rightarrow> 'ip app_state \<Rightarrow> bool" where
  "published env st \<longleftrightarrow>
     fs_ok (st_fs st) \<and> validate (ae_check env) (st_config_file st) = Inr ()
     \<and> cf_max_upload_bytes (st_config_file st) \<le> ae_max_upload_bytes env
     \<and> (\<exists>bytes. encode_candidate (ae_lib env) (st_config_file st) = Inr bytes
                \<and> read_file (st_fs st) (ae_config_path env) = Some bytes)
     \<and> st_local_max_upload_bytes st = cf_max_upload_bytes (st_config_file st)
     \<and> st_upload_rate st = cf_upload_rate_bytes_per_sec (st_config_file st)
     \<and> st_download_rate st = cf_download_rate_bytes_per_sec (st_config_file st)"

lemma published_other [simp]:
  "published env (st\<lparr>st_sessions := ss\<rparr>) = published env st"
  "published env (st\<lparr>st_gate_access := ga\<rparr>) = published env st"
  "published env (st\<lparr>st_folder_access := fa\<rparr>) = published env st"
  "published env (st\<lparr>st_login_security := ls\<rparr>) = published env st"
  "published env (st\<lparr>st_totp_replay := tr\<rparr>) = published env st"
  "published env (st\<lparr>st_retention_tasks := n\<rparr>) = published env st"
  by (simp_all add: published_def)

lemma published_keeps:
  assumes "published env st" "keeps (ae_config_path env) (st_fs st) fs"
  shows "published env (st\<lparr>st_fs := fs\<rparr>)"
  using assms keeps_read [OF assms(2)] keeps_ok [OF assms(2)] by (simp add: published_def)

definition update_names :: "'ip app_env \<Rightarrow> update_io \<Rightarrow> bool" where
  "update_names env io \<longleftrightarrow> names_apart (ae_config_path env) (config_backup_path (ae_config_path env)) (up_temporary io)"

lemma update_config_published:
  assumes "published env st" "update_names env io" "update_config env io edit st = (r, st')"
  shows "published env st'"
  using assms(3)
proof (cases rule: update_config_cases)
  case refused
  then show ?thesis using assms(1) by simp
next
  case (unsaved e x cfg states)
  have ok: "fs_ok (st_fs st)" using assms(1) by (simp add: published_def)
  from save_config_result(1,2) [OF unsaved(3) ok assms(2) [unfolded update_names_def]]
  show ?thesis using assms(1) unsaved(2) by (simp add: published_def)
next
  case (saved a cfg commit states)
  have ok: "fs_ok (st_fs st)" using assms(1) by (simp add: published_def)
  note s = save_config_result [OF saved(5) ok assms(2) [unfolded update_names_def]]
  show ?thesis using s(1) s(3) [OF refl] saved(3-7,13-15) by (simp add: published_def)
qed

lemma update_config_published_snd [simp]:
  "published env st \<Longrightarrow> update_names env io \<Longrightarrow> published env (snd (update_config env io edit st))"
  by (cases "update_config env io edit st") (simp add: update_config_published)

lemma update_config_error_keeps:
  "update_config env io edit st = (Inl e, st') \<Longrightarrow> st' = st\<lparr>st_fs := st_fs st'\<rparr>"
  by (erule update_config_cases) simp_all

lemma remove_initial_credentials_keeps:
  assumes "remove_initial_credentials_if_rotated env n removes synced c fs = (r, fs')" "fs_ok fs" "n \<noteq> p"
  shows "keeps p fs fs'"
proof -
  have u: "keeps p fs (update_dir (Unlink n) fs)"
    using keeps_drop [OF assms(2), of p n True] assms(3) by (simp add: drop_pending_def)
  have "fs' \<in> {fs, update_dir (Unlink n) fs, sync_parent (update_dir (Unlink n) fs)}"
    using assms(1) by (auto simp: remove_initial_credentials_if_rotated_def Let_def split: option.splits if_splits)
  then show ?thesis
    using u keeps_refl [OF assms(2)] keeps_trans [OF u keeps_sync [OF keeps_ok [OF u]]] by blast
qed

section \<open>The steps of an administrator\<close>

text \<open>
  One administrative request, with the outcomes of its system calls; the name of its prepared
  files is fresh, and the credentials file is not the configuration file.
\<close>

inductive admin_step :: "'ip :: linorder app_env \<Rightarrow> 'ip app_state \<Rightarrow> 'ip app_state \<Rightarrow> bool" for env where
  create_user: "update_names env io \<Longrightarrow> admin_step env st (snd (create_user_account env hash new_id io body st))"
| update_user: "update_names env io \<Longrightarrow> admin_step env st (snd (update_user_account env hash io uid body' st))"
| delete_user: "update_names env io \<Longrightarrow> admin_step env st (snd (delete_user_account env io uid st))"
| create_share: "update_names env io \<Longrightarrow> admin_step env st (snd (create_share env hash new_id io share st))"
| update_share: "update_names env io \<Longrightarrow> admin_step env st (snd (update_share env hash io sid share' st))"
| delete_share: "update_names env io \<Longrightarrow> admin_step env st (snd (delete_share env io sid st))"
| create_lock: "update_names env io \<Longrightarrow> admin_step env st (snd (create_lock env hash new_id io lock st))"
| update_lock: "update_names env io \<Longrightarrow> admin_step env st (snd (update_lock env hash io lid lock' st))"
| delete_lock: "update_names env io \<Longrightarrow> admin_step env st (snd (delete_lock env io lid st))"
| update_admin: "update_names env io \<Longrightarrow> credentials_file \<noteq> ae_config_path env \<Longrightarrow>
    admin_step env st (snd (update_admin_account env hash io credentials_file removes synced admin st))"
| transfer_limits: "update_names env io \<Longrightarrow> admin_step env st (snd (update_transfer_limits env io limits st))"
| login_settings: "update_names env io \<Longrightarrow> admin_step env st (snd (update_login_security_settings env io settings st))"
| retention: "admin_step env st (retention_task enc call st)"
| block: "admin_step env st (snd (block_login enc call entry ip st))"
| unblock: "admin_step env st (snd (unblock_login enc call entry ip st))"

lemma update_admin_published:
  assumes "published env st" "update_names env io" "credentials_file \<noteq> ae_config_path env"
  shows "published env (snd (update_admin_account env hash io credentials_file removes synced admin st))"
proof -
  have k: "published env s \<Longrightarrow> remove_initial_credentials_if_rotated env credentials_file removes synced c (st_fs s) = (x, fs)
      \<Longrightarrow> published env (s\<lparr>st_fs := fs\<rparr>)" for s c x fs
    using published_keeps remove_initial_credentials_keeps [OF _ _ assms(3)] by (metis published_def)
  have other: "published env (s\<lparr>st_sessions := ss, st_fs := fs\<rparr>) = published env (s\<lparr>st_fs := fs\<rparr>)"
    "published env (s\<lparr>st_gate_access := ga, st_fs := fs\<rparr>) = published env (s\<lparr>st_fs := fs\<rparr>)"
    "published env (s\<lparr>st_sessions := ss, st_gate_access := ga, st_fs := fs\<rparr>) = published env (s\<lparr>st_fs := fs\<rparr>)" for s ss ga fs
    by (simp_all add: published_def)
  show ?thesis
    by (auto simp: update_admin_account_def Let_def assms(1) other
        split: sum.split prod.split dest: update_config_published [OF assms(1,2)] intro: k)
qed

lemma admin_step_published:
  assumes "admin_step env st st'" "published env st"
  shows "published env st'"
  using assms
proof (induction rule: admin_step.induct)
  case (update_admin io credentials_file st hash removes synced admin)
  then show ?case by (intro update_admin_published)
qed (auto simp: create_user_account_def update_user_account_def delete_user_account_def
    create_share_def update_share_def delete_share_def create_lock_def update_lock_def delete_lock_def
    update_transfer_limits_def update_login_security_settings_def retention_task_def block_login_def unblock_login_def
    Let_def split: sum.split prod.split option.split dest: update_config_published)

lemma admin_steps_published: "(admin_step env)\<^sup>*\<^sup>* st st' \<Longrightarrow> published env st \<Longrightarrow> published env st'"
  by (induction rule: rtranclp_induct) (auto intro: admin_step_published)

section \<open>Changed credentials end the access they gave\<close>

definition account_of :: "'ip app_state \<Rightarrow> str \<Rightarrow> user_account option" where
  "account_of st uid = List.find (\<lambda>a. ua_id a = uid) (user_accounts (st_config_file st))"

definition lock_of :: "'ip app_state \<Rightarrow> str \<Rightarrow> folder_lock option" where
  "lock_of st lid = List.find (\<lambda>l. lock_id l = lid) (folder_locks (st_config_file st))"

definition ends_changed_access :: "'ip app_state \<Rightarrow> 'ip app_state \<Rightarrow> bool" where
  "ends_changed_access st st' \<longleftrightarrow>
     (\<forall>uid a. account_of st uid = Some a \<longrightarrow> account_of st' uid \<noteq> Some a \<longrightarrow>
        (\<forall>(token, s) \<in> set (sessions (st_sessions st')). principal s \<noteq> User uid))
     \<and> ((cf_admin_username (st_config_file st'), cf_admin_password_hash (st_config_file st'))
          \<noteq> (cf_admin_username (st_config_file st), cf_admin_password_hash (st_config_file st)) \<longrightarrow>
        (\<forall>(token, s) \<in> set (sessions (st_sessions st')). principal s \<noteq> Administrator))
     \<and> (cf_global_web_password_hash (st_config_file st') \<noteq> cf_global_web_password_hash (st_config_file st) \<longrightarrow>
        accesses (st_gate_access st') = [])
     \<and> (\<forall>lid l. lock_of st lid = Some l \<longrightarrow> lock_of st' lid \<noteq> Some l \<longrightarrow>
        (\<forall>(token, g) \<in> set (accesses (st_folder_access st')). scope g \<noteq> lid))"

text \<open>An edit that keeps every account, lock and password.\<close>

definition keeps_credentials :: "'ip config_file \<Rightarrow> 'ip config_file \<Rightarrow> bool" where
  "keeps_credentials c c' \<longleftrightarrow>
     (\<forall>uid a. List.find (\<lambda>a. ua_id a = uid) (user_accounts c) = Some a \<longrightarrow>
        List.find (\<lambda>a. ua_id a = uid) (user_accounts c') = Some a)
     \<and> (\<forall>lid l. List.find (\<lambda>l. lock_id l = lid) (folder_locks c) = Some l \<longrightarrow>
        List.find (\<lambda>l. lock_id l = lid) (folder_locks c') = Some l)
     \<and> cf_admin_username c' = cf_admin_username c \<and> cf_admin_password_hash c' = cf_admin_password_hash c
     \<and> cf_global_web_password_hash c' = cf_global_web_password_hash c"

lemma keeps_credentials_refl [simp]: "keeps_credentials c c"
  by (simp add: keeps_credentials_def)

lemma ends_changed_accessI: "keeps_credentials (st_config_file st) (st_config_file st') \<Longrightarrow> ends_changed_access st st'"
  by (auto simp: ends_changed_access_def keeps_credentials_def account_of_def lock_of_def)

lemma update_config_stores:
  assumes "update_config env io edit st = (r, st')"
  obtains (kept) e where "r = Inl e" "st_config_file st' = st_config_file st"
  | (changed) a cfg where "r = Inr a" "edit (st_config_file st) = Inr (a, cfg)" "st_config_file st' = cfg"
      "st_sessions st' = st_sessions st" "st_gate_access st' = st_gate_access st" "st_folder_access st' = st_folder_access st"
  using assms by (cases rule: update_config_cases) auto

lemma update_config_keeping:
  assumes "\<And>a cfg. edit (st_config_file st) = Inr (a, cfg) \<Longrightarrow> keeps_credentials (st_config_file st) cfg"
  shows "ends_changed_access st (snd (update_config env io edit st))"
proof (cases "update_config env io edit st")
  case (Pair r st')
  then show ?thesis
    by (cases rule: update_config_stores) (use assms Pair in \<open>auto intro!: ends_changed_accessI\<close>)
qed

lemma edited_ids [simp]: "ua_id (edited_account body h a) = ua_id a" "lock_id (edited_lock body' h' l) = lock_id l"
  by (simp_all add: edited_account_def edited_lock_def set_opt_def split: option.split)

lemma edited_account_unrevoked: "\<not> account_revoked body h a \<Longrightarrow> edited_account body h a = a"
  by (cases "uu_username body"; cases "uu_enabled body"; cases "uu_permissions body")
     (auto simp: account_revoked_def edited_account_def set_opt_def)

lemma user_revoked_ends:
  assumes "\<And>uid'. uid' \<noteq> uid \<Longrightarrow> List.find (\<lambda>a. ua_id a = uid') (user_accounts cfg)
        = List.find (\<lambda>a. ua_id a = uid') (user_accounts (st_config_file st))"
    "folder_locks cfg = folder_locks (st_config_file st)" "cf_admin_username cfg = cf_admin_username (st_config_file st)"
    "cf_admin_password_hash cfg = cf_admin_password_hash (st_config_file st)"
    "cf_global_web_password_hash cfg = cf_global_web_password_hash (st_config_file st)" "st_config_file st' = cfg"
  shows "ends_changed_access st (st'\<lparr>st_sessions := revoke_user ss uid\<rparr>)"
proof -
  have "account_of st uid' = Some a \<Longrightarrow> account_of (st'\<lparr>st_sessions := revoke_user ss uid\<rparr>) uid' \<noteq> Some a \<Longrightarrow> uid' = uid" for uid' a
    using assms(1) [of uid'] by (auto simp: account_of_def assms(6))
  then show ?thesis
    unfolding ends_changed_access_def by (auto simp: lock_of_def revoke_user_def al_retain_def assms(2-6))
qed

lemma lock_scope_removed_ends:
  assumes "\<And>lid'. lid' \<noteq> lid \<Longrightarrow> List.find (\<lambda>l. lock_id l = lid') (folder_locks cfg)
        = List.find (\<lambda>l. lock_id l = lid') (folder_locks (st_config_file st))"
    "user_accounts cfg = user_accounts (st_config_file st)" "cf_admin_username cfg = cf_admin_username (st_config_file st)"
    "cf_admin_password_hash cfg = cf_admin_password_hash (st_config_file st)"
    "cf_global_web_password_hash cfg = cf_global_web_password_hash (st_config_file st)" "st_config_file st' = cfg"
  shows "ends_changed_access st (st'\<lparr>st_folder_access := remove_scope fa lid\<rparr>)"
proof -
  have "lock_of st lid' = Some l \<Longrightarrow> lock_of (st'\<lparr>st_folder_access := remove_scope fa lid\<rparr>) lid' \<noteq> Some l \<Longrightarrow> lid' = lid" for lid' l
    using assms(1) [of lid'] by (auto simp: lock_of_def assms(6))
  then show ?thesis
    unfolding ends_changed_access_def by (auto simp: account_of_def remove_scope_def al_retain_def assms(2-6))
qed

lemma find_filter_other: "(\<And>x. Q x \<Longrightarrow> P x) \<Longrightarrow> List.find Q (filter P xs) = List.find Q xs"
  by (induction xs) auto

lemma update_user_ends: "ends_changed_access st (snd (update_user_account env hash io uid body st))"
proof (cases "hash_optional_password hash (uu_password body) 12 ''Account''")
  case (Inl e)
  then show ?thesis by (simp add: update_user_account_def ends_changed_accessI)
next
  case (Inr h)
  obtain r st1 where u: "update_config env io (edit_user_account env uid body h) st = (r, st1)" by force
  from u show ?thesis
  proof (cases rule: update_config_stores)
    case (kept e)
    then show ?thesis using u Inr by (simp add: update_user_account_def ends_changed_accessI)
  next
    case (changed x cfg)
    obtain view revoke where x: "x = (view, revoke)" by force
    obtain a where a: "List.find (\<lambda>a. ua_id a = uid) (user_accounts (st_config_file st)) = Some a"
      "revoke = account_revoked body h a"
      "user_accounts cfg = modify_first (\<lambda>a. ua_id a = uid) (edited_account body h) (user_accounts (st_config_file st))"
      "folder_locks cfg = folder_locks (st_config_file st)" "cf_admin_username cfg = cf_admin_username (st_config_file st)"
      "cf_admin_password_hash cfg = cf_admin_password_hash (st_config_file st)"
      "cf_global_web_password_hash cfg = cf_global_web_password_hash (st_config_file st)"
      using changed(2) by (auto simp: x edit_user_account_def rbind_Inr_iff Let_def traffic_users_def)
    have other: "uid' \<noteq> uid \<Longrightarrow> List.find (\<lambda>a. ua_id a = uid') (user_accounts cfg)
        = List.find (\<lambda>a. ua_id a = uid') (user_accounts (st_config_file st))" for uid'
      unfolding a(3) by (rule find_modify_first_other) auto
    have own: "List.find (\<lambda>a. ua_id a = uid) (user_accounts cfg) = Some (edited_account body h a)"
      unfolding a(3) by (subst find_modify_first) (simp_all add: a(1))
    show ?thesis
    proof (cases revoke)
      case True
      then show ?thesis
        using u Inr changed(1,3) x user_revoked_ends [OF other a(4-7) changed(3)] by (simp add: update_user_account_def)
    next
      case False
      then have "keeps_credentials (st_config_file st) cfg"
        unfolding keeps_credentials_def a(4-7)
      proof (intro conjI allI impI refl)
        fix uid' b assume "List.find (\<lambda>a. ua_id a = uid') (user_accounts (st_config_file st)) = Some b"
        then show "List.find (\<lambda>a. ua_id a = uid') (user_accounts cfg) = Some b"
          using own other [of uid'] a(1,2) edited_account_unrevoked [of body h a] False by (cases "uid' = uid") simp_all
      qed simp
      then show ?thesis
        using u Inr changed x False by (simp add: update_user_account_def ends_changed_accessI)
    qed
  qed
qed

lemma delete_user_ends: "ends_changed_access st (snd (delete_user_account env io uid st))"
proof -
  let ?edit = "\<lambda>c. let kept = filter (\<lambda>a. ua_id a \<noteq> uid) (user_accounts c);
                 c' = traffic_users (al_remove uid) c
             in if length kept = length (user_accounts c) then Inl NotFound
                else Inr ((), c'\<lparr>user_accounts := kept\<rparr>)"
  obtain r st1 where u: "update_config env io ?edit st = (r, st1)" by force
  from u show ?thesis
  proof (cases rule: update_config_stores)
    case (kept e)
    then show ?thesis using u by (simp add: delete_user_account_def ends_changed_accessI)
  next
    case (changed x cfg)
    have c: "user_accounts cfg = filter (\<lambda>a. ua_id a \<noteq> uid) (user_accounts (st_config_file st))"
      "folder_locks cfg = folder_locks (st_config_file st)" "cf_admin_username cfg = cf_admin_username (st_config_file st)"
      "cf_admin_password_hash cfg = cf_admin_password_hash (st_config_file st)"
      "cf_global_web_password_hash cfg = cf_global_web_password_hash (st_config_file st)"
      using changed(2) by (auto simp: Let_def traffic_users_def split: if_splits)
    have "ends_changed_access st (st1\<lparr>st_sessions := revoke_user (st_sessions st1) uid\<rparr>)"
      by (rule user_revoked_ends [OF _ c(2-5) changed(3)]) (auto simp: c(1) intro: find_filter_other)
    then show ?thesis using u changed(1) by (simp add: delete_user_account_def)
  qed
qed

lemma position_of_Some: "position_of P xs = Some i \<Longrightarrow> i < length xs \<and> P (xs ! i) \<and> (\<forall>j < i. \<not> P (xs ! j))"
  by (induction xs arbitrary: i) (auto split: if_splits simp: nth_Cons split: nat.split)

lemma find_list_update_other: "i < length xs \<Longrightarrow> \<not> Q (xs ! i) \<Longrightarrow> \<not> Q y \<Longrightarrow> List.find Q (xs[i := y]) = List.find Q xs"
  by (induction xs arbitrary: i) (auto split: nat.split)

lemma update_lock_ends: "ends_changed_access st (snd (update_lock env hash io lid body st))"
proof (cases "hash_optional_password hash (ul_password body) 8 ''Folder lock''")
  case (Inl e)
  then show ?thesis by (simp add: update_lock_def ends_changed_accessI)
next
  case (Inr h)
  obtain r st1 where u: "update_config env io (edit_lock env lid body h) st = (r, st1)" by force
  from u show ?thesis
  proof (cases rule: update_config_stores)
    case (kept e)
    then show ?thesis using u Inr by (simp add: update_lock_def ends_changed_accessI)
  next
    case (changed view cfg)
    obtain i where i: "position_of (\<lambda>l. lock_id l = lid) (folder_locks (st_config_file st)) = Some i"
      and c: "folder_locks cfg = (folder_locks (st_config_file st))[i := edited_lock body h (folder_locks (st_config_file st) ! i)]"
      "user_accounts cfg = user_accounts (st_config_file st)" "cf_admin_username cfg = cf_admin_username (st_config_file st)"
      "cf_admin_password_hash cfg = cf_admin_password_hash (st_config_file st)"
      "cf_global_web_password_hash cfg = cf_global_web_password_hash (st_config_file st)"
      using changed(2) by (auto simp: edit_lock_def rbind_Inr_iff Let_def)
    have "ends_changed_access st (st1\<lparr>st_folder_access := remove_scope (st_folder_access st1) lid\<rparr>)"
      using position_of_Some [OF i]
      by (intro lock_scope_removed_ends [OF _ c(2-5) changed(3)]) (simp add: c(1) find_list_update_other)
    then show ?thesis using u Inr changed(1) by (simp add: update_lock_def)
  qed
qed

lemma delete_lock_ends: "ends_changed_access st (snd (delete_lock env io lid st))"
proof -
  let ?edit = "\<lambda>c. let kept = filter (\<lambda>l. lock_id l \<noteq> lid) (folder_locks c)
             in if length kept = length (folder_locks c) then Inl NotFound
                else Inr ((), c\<lparr>folder_locks := kept\<rparr>)"
  obtain r st1 where u: "update_config env io ?edit st = (r, st1)" by force
  from u show ?thesis
  proof (cases rule: update_config_stores)
    case (kept e)
    then show ?thesis using u by (simp add: delete_lock_def ends_changed_accessI)
  next
    case (changed x cfg)
    have c: "folder_locks cfg = filter (\<lambda>l. lock_id l \<noteq> lid) (folder_locks (st_config_file st))"
      "user_accounts cfg = user_accounts (st_config_file st)" "cf_admin_username cfg = cf_admin_username (st_config_file st)"
      "cf_admin_password_hash cfg = cf_admin_password_hash (st_config_file st)"
      "cf_global_web_password_hash cfg = cf_global_web_password_hash (st_config_file st)"
      using changed(2) by (auto simp: Let_def split: if_splits)
    have "ends_changed_access st (st1\<lparr>st_folder_access := remove_scope (st_folder_access st1) lid\<rparr>)"
      by (rule lock_scope_removed_ends [OF _ c(2-5) changed(3)]) (auto simp: c(1) intro: find_filter_other)
    then show ?thesis using u changed(1) by (simp add: delete_lock_def)
  qed
qed

lemma ends_refl [simp]: "ends_changed_access st st" "ends_changed_access st (st\<lparr>st_login_security := ls\<rparr>)"
  "ends_changed_access st (st\<lparr>st_login_security := ls, st_retention_tasks := n\<rparr>)"
  by (rule ends_changed_accessI; simp)+

lemma ends_fs [simp]: "ends_changed_access st (st'\<lparr>st_fs := fs\<rparr>) = ends_changed_access st st'"
  by (simp add: ends_changed_access_def account_of_def lock_of_def)

lemma update_admin_ends:
  "ends_changed_access st (snd (update_admin_account env hash io credentials_file removes synced body st))"
proof (cases "rbind (hash_optional_password hash (ad_password body) 12 ''Administrator'') (\<lambda>password_hash.
           rbind (hash_changed_password hash (ad_global_web_password body) 8 ''Web access'') (\<lambda>web_hash.
             Inr (password_hash, web_hash)))")
  case (Inl e)
  then show ?thesis by (simp add: update_admin_account_def ends_changed_accessI)
next
  case (Inr hs)
  obtain ph wh where hs: "hs = (ph, wh)" by force
  let ?name = "Option.bind (map_option trim (ad_username body)) non_empty"
  let ?edit = "\<lambda>c. Inr ((), set_opt wh (\<lambda>v c. c\<lparr>cf_global_web_password_hash := v\<rparr>)
                              (set_opt ph (\<lambda>v c. c\<lparr>cf_admin_password_hash := v\<rparr>)
                                (set_opt ?name (\<lambda>v c. c\<lparr>cf_admin_username := v\<rparr>) c)))"
  obtain r st1 where u: "update_config env io ?edit st = (r, st1)" by force
  let ?st = "\<lambda>s. let s = (if ph \<noteq> None \<or> ?name \<noteq> None then s\<lparr>st_sessions := revoke_administrator (st_sessions s)\<rparr> else s)
                 in if wh \<noteq> None then s\<lparr>st_gate_access := clear_accesses (st_gate_access s)\<rparr> else s"
  have run: "ends_changed_access st (snd (update_admin_account env hash io credentials_file removes synced body st))
      = ends_changed_access st (case r of Inl _ \<Rightarrow> st1 | Inr _ \<Rightarrow> ?st st1)"
  proof (cases r)
    case (Inl e)
    then show ?thesis using u \<open>_ = Inr hs\<close> by (simp add: update_admin_account_def hs Let_def)
  next
    case (Inr x)
    let ?rm = "remove_initial_credentials_if_rotated env credentials_file removes synced (st_config_file (?st st1)) (st_fs (?st st1))"
    have "snd (update_admin_account env hash io credentials_file removes synced body st)
        = (if ph \<noteq> None \<or> wh \<noteq> None then (?st st1)\<lparr>st_fs := snd ?rm\<rparr> else ?st st1)"
      using u \<open>_ = Inr hs\<close> Inr by (simp add: update_admin_account_def hs Let_def split: sum.split prod.split)
    then show ?thesis using Inr by (simp add: Let_def)
  qed
  from u show ?thesis
  proof (cases rule: update_config_stores)
    case (kept e)
    then show ?thesis using run by (simp add: ends_changed_accessI)
  next
    case (changed x cfg)
    have c: "user_accounts cfg = user_accounts (st_config_file st)" "folder_locks cfg = folder_locks (st_config_file st)"
      "ph = None \<Longrightarrow> ?name = None \<Longrightarrow> cf_admin_username cfg = cf_admin_username (st_config_file st)
          \<and> cf_admin_password_hash cfg = cf_admin_password_hash (st_config_file st)"
      "wh = None \<Longrightarrow> cf_global_web_password_hash cfg = cf_global_web_password_hash (st_config_file st)"
      using changed(2) by (auto simp: set_opt_def split: option.splits)
    have "ends_changed_access st (?st st1)"
      unfolding ends_changed_access_def
      using c by (auto simp: changed(3) account_of_def lock_of_def revoke_administrator_def al_retain_def clear_accesses_def Let_def)
    then show ?thesis using run by (auto simp: changed(1))
  qed
qed

lemma admin_step_ends: "admin_step env st st' \<Longrightarrow> ends_changed_access st st'"
proof (induction rule: admin_step.induct)
  case (create_user io st hash new_id body)
  show ?case
    by (auto simp: create_user_account_def Let_def rbind_Inr_iff keeps_credentials_def find_append traffic_users_def
        intro!: update_config_keeping split: sum.split)
next
  case (create_lock io st hash new_id lock)
  show ?case
    by (auto simp: create_lock_def Let_def keeps_credentials_def find_append
        intro!: update_config_keeping split: sum.split if_splits)
next
  case (transfer_limits io st limits)
  show ?case unfolding update_transfer_limits_def
    by (rule update_config_keeping)
       (auto simp: Let_def rbind_Inr_iff keeps_credentials_def set_opt_def split: if_splits option.splits)
next
  case (login_settings io st settings)
  show ?case unfolding update_login_security_settings_def
    by (auto intro!: update_config_keeping simp: keeps_credentials_def set_opt_def split: option.split)
qed (auto simp: create_share_def update_share_def delete_share_def edit_share_def Let_def rbind_Inr_iff keeps_credentials_def
    retention_task_def block_login_def unblock_login_def update_user_ends delete_user_ends update_lock_ends delete_lock_ends
    update_admin_ends intro!: update_config_keeping split: sum.split option.split prod.split if_splits)

section \<open>Properties\<close>

text \<open>
  C29: the configuration in memory is the one on disk. Starting from a state whose configuration is
  valid and saved, every sequence of administrative requests, refused or carried out and whatever
  their system calls return, ends in such a state again: the configuration in force validates, the
  limits the handlers read are its own, and a start from the file of that moment returns exactly
  the configuration in force, without migrating or recovering anything. The codec is assumed to
  read back what it wrote.
\<close>

theorem admin_updates_survive_restart:
  assumes codec: "\<And>c bytes. encode_candidate (ae_lib env) c = Inr bytes \<Longrightarrow>
      json_ok (ae_lib env) bytes \<and> decode_candidate (ae_lib env) bytes = Inr (c, False, False)"
    and run: "(admin_step env)\<^sup>*\<^sup>* st st'" "published env st"
  shows "validate (ae_check env) (st_config_file st') = Inr ()
    \<and> st_local_max_upload_bytes st' = cf_max_upload_bytes (st_config_file st')
    \<and> cf_max_upload_bytes (st_config_file st') \<le> ae_max_upload_bytes env
    \<and> load_existing (ae_lib env) False io_slot io (ae_config_path env) slot slot_temporary temporary (st_fs st')
      = (Inr (st_config_file st'), [])"
  using admin_steps_published [OF run] codec
  by (auto simp: published_def load_existing_def select_content_def Let_def)

text \<open>
  An update of the configuration is all or nothing. When it returns a value, the new
  configuration was made by the edit from the one in force, validates, is in force and is the text
  of the configuration file; when it returns an error, the configuration in force, the text of its
  file and every session and access token are what they were before.
\<close>

lemma update_config_all_or_nothing:
  assumes "update_config env io edit st = (r, st')" "fs_ok (st_fs st)" "update_names env io"
  shows "case r of
      Inl e \<Rightarrow> st' = st\<lparr>st_fs := st_fs st'\<rparr>
        \<and> read_file (st_fs st') (ae_config_path env) = read_file (st_fs st) (ae_config_path env)
    | Inr a \<Rightarrow> edit (st_config_file st) = Inr (a, st_config_file st')
        \<and> validate (ae_check env) (st_config_file st') = Inr ()
        \<and> (\<exists>bytes. encode_candidate (ae_lib env) (st_config_file st') = Inr bytes
                   \<and> read_file (st_fs st') (ae_config_path env) = Some bytes)
        \<and> st_sessions st' = st_sessions st"
  using assms(1)
proof (cases rule: update_config_cases)
  case (unsaved e x cfg states)
  then show ?thesis
    using save_config_result(2) [OF unsaved(3) assms(2) assms(3) [unfolded update_names_def]] by simp
next
  case (saved a cfg commit states)
  then show ?thesis
    using save_config_result(3) [OF saved(5) assms(2) assms(3) [unfolded update_names_def]] by simp
qed simp

text \<open>
  C30: credentials that change stop working at once. After any administrative request, no session is
  left of an account that the request removed or whose name, password, activation or permissions
  it changed; none of the administrator when the administrator's name or password changed; no
  access through the site password when that password changed; and no access to a locked folder
  through a lock the request removed or changed.
\<close>

theorem changed_credentials_end_access:
  assumes "admin_step env st st'"
  shows "(account_of st uid = Some a \<longrightarrow> account_of st' uid \<noteq> Some a \<longrightarrow>
        (\<forall>(token, s) \<in> set (sessions (st_sessions st')). principal s \<noteq> User uid))
    \<and> (cf_admin_username (st_config_file st') \<noteq> cf_admin_username (st_config_file st)
       \<or> cf_admin_password_hash (st_config_file st') \<noteq> cf_admin_password_hash (st_config_file st) \<longrightarrow>
        (\<forall>(token, s) \<in> set (sessions (st_sessions st')). principal s \<noteq> Administrator))
    \<and> (cf_global_web_password_hash (st_config_file st') \<noteq> cf_global_web_password_hash (st_config_file st) \<longrightarrow>
        accesses (st_gate_access st') = [])
    \<and> (lock_of st lid = Some l \<longrightarrow> lock_of st' lid \<noteq> Some l \<longrightarrow>
        (\<forall>(token, g) \<in> set (accesses (st_folder_access st')). scope g \<noteq> lid))"
  using admin_step_ends [OF assms] unfolding ends_changed_access_def by blast

section \<open>Witnesses\<close>

text \<open>A server with one share, whose configuration file holds its configuration; the share is deleted.\<close>

definition bare_config :: "nat config_file" where
  "bare_config = sample_config\<lparr>cf_shares := []\<rparr>"

definition sample_config_lib :: "nat config_file config_lib" where
  "sample_config_lib =
     \<lparr>json_ok = (\<lambda>_. True),
      decode_candidate = (\<lambda>s. if s = ''old'' then Inr (sample_config, False, False)
                              else if s = ''new'' then Inr (bare_config, False, False) else Inl ''bad''),
      encode_candidate = (\<lambda>c. if c = sample_config then Inr ''old'' else if c = bare_config then Inr ''new'' else Inl ''unknown''),
      seal_migration = Inr, with_credentials = (\<lambda>_. bare_config), parse_credentials = (\<lambda>_. None), show_credentials = ic_admin_username\<rparr>"

definition sample_env :: "nat app_env" where
  "sample_env =
     \<lparr>ae_check = sample_check, ae_lib = sample_config_lib, ae_config_path = ''config.json'',
      ae_max_upload_bytes = cf_max_upload_bytes sample_config, ae_max_upload_batch_bytes = 0, ae_max_upload_batch_entries = 0,
      ae_max_archive_bytes = 0, ae_max_archive_entries = 0, ae_secure_cookies = True, ae_verify = (=),
      ae_account_revision = (\<lambda>_ _. []), ae_share_revision = share_id, ae_lock_revision = lock_id\<rparr>"

definition sample_state :: "nat app_state" where
  "sample_state =
     \<lparr>st_config_file = sample_config, st_fs = sample_fs,
      st_sessions = \<lparr>sessions = [(''t'', \<lparr>created_at = 0, principal = User ''a1''\<rparr>)], ss_max_total = 4\<rparr>,
      st_gate_access = access_token_store_new, st_folder_access = access_token_store_new,
      st_login_security = empty_login_security, st_totp_replay = [],
      st_local_max_upload_bytes = cf_max_upload_bytes sample_config,
      st_upload_rate = cf_upload_rate_bytes_per_sec sample_config,
      st_download_rate = cf_download_rate_bytes_per_sec sample_config, st_retention_tasks = 0\<rparr>"

definition sample_update :: update_io where
  "sample_update = \<lparr>up_acquired = True, up_publish = sample_io, up_temporary = sample_temporary\<rparr>"

lemma bare_not_sample: "bare_config \<noteq> sample_config"
  by (auto simp: bare_config_def dest: arg_cong [where f = cf_shares])

lemma sample_codec_law:
  "encode_candidate (ae_lib sample_env) c = Inr bytes \<Longrightarrow>
     json_ok (ae_lib sample_env) bytes \<and> decode_candidate (ae_lib sample_env) bytes = Inr (c, False, False)"
  by (auto simp: sample_env_def sample_config_lib_def split: if_splits)

lemma sample_update_names: "update_names sample_env sample_update"
  by (simp add: update_names_def sample_env_def sample_update_def sample_apart config_backup_path_def
      rsplit_once_def split_once_def)

lemma sample_published: "published sample_env sample_state"
  by (simp add: published_def sample_env_def sample_state_def sample_fs_ok sample_validates sample_config_lib_def)
     (simp add: read_file_def sample_fs_def entries_def al_get_def)

lemma bare_validates: "validate sample_check bare_config = Inr ()"
proof -
  have "validate_sizes bare_config = validate_sizes sample_config"
    "validate_administrator sample_check bare_config = validate_administrator sample_check sample_config"
    by (simp_all add: bare_config_def validate_sizes_def validate_administrator_def)
  then show ?thesis using sample_validates
    by (auto simp: validate_def rbind_Inr_iff bare_config_def validate_overlap_def)
qed

lemma sample_save:
  "encode_candidate (ae_lib env) c = Inr bytes \<Longrightarrow> bytes = ''new'' \<Longrightarrow> ae_config_path env = ''config.json'' \<Longrightarrow>
   \<exists>commit states. save_config (ae_lib env) (up_publish sample_update) (ae_config_path env) (up_temporary sample_update) c
     (st_fs sample_state) = (Inr commit, states)"
  using sample_publication_ok
  by (auto simp: save_config_def persist_candidate_def publish_def config_backup_path_def rsplit_once_def split_once_def
      sample_update_def sample_state_def sample_publication_def)

lemma sample_edit_saved:
  assumes "edit sample_config = Inr (a, c)" "validate (ae_check env) c = Inr ()" "encode_candidate (ae_lib env) c = Inr ''new''"
    "ae_config_path env = ''config.json''" "cf_max_upload_bytes c \<le> ae_max_upload_bytes env"
  shows "\<exists>st'. update_config env sample_update edit sample_state = (Inr a, st') \<and> st_config_file st' = c
    \<and> st_sessions st' = st_sessions sample_state"
  using assms sample_save [OF assms(3) refl assms(4)]
  by (auto simp: update_config_def sample_update_def sample_state_def ensure_def)

lemma sample_share_deleted:
  "\<exists>st'. delete_share sample_env sample_update ''d'' sample_state = (Inr (), st') \<and> st_config_file st' = bare_config"
proof -
  have "encode_candidate (ae_lib sample_env) bare_config = Inr ''new''"
    using bare_not_sample by (simp add: sample_env_def sample_config_lib_def)
  then show ?thesis
    using sample_edit_saved [of "\<lambda>c. rbind (ok_or (remove_first (\<lambda>s. share_id s = ''d'') (cf_shares c)) NotFound) (\<lambda>shares.
         Inr ((), c\<lparr>cf_shares := shares\<rparr>))" "()" bare_config sample_env] bare_validates
    unfolding delete_share_def
    by (simp add: sample_env_def ok_or_def sample_share_def bare_config_def) blast
qed

theorem admin_updates_survive_restart_witness:
  "\<exists>st'. (admin_step sample_env)\<^sup>*\<^sup>* sample_state st' \<and> st_config_file st' = bare_config
     \<and> load_existing (ae_lib sample_env) False sample_io sample_io ''config.json'' ''slot'' sample_temporary sample_temporary (st_fs st')
       = (Inr bare_config, [])"
proof -
  obtain st' where d: "delete_share sample_env sample_update ''d'' sample_state = (Inr (), st')" "st_config_file st' = bare_config"
    using sample_share_deleted by blast
  have "admin_step sample_env sample_state st'"
    using admin_step.delete_share [OF sample_update_names, of sample_state "''d''"] d by simp
  then have run: "(admin_step sample_env)\<^sup>*\<^sup>* sample_state st'" by blast
  have "ae_config_path sample_env = ''config.json''" by (simp add: sample_env_def)
  then show ?thesis
    using admin_updates_survive_restart [OF sample_codec_law run sample_published] run d(2) by metis
qed

lemma update_config_all_or_nothing_witness:
  "\<exists>a st'. update_config sample_env sample_update (\<lambda>c. Inr ((), bare_config)) sample_state = (Inr a, st')
     \<and> validate sample_check (st_config_file st') = Inr () \<and> st_config_file st' = bare_config"
proof -
  have "encode_candidate (ae_lib sample_env) bare_config = Inr ''new''"
    using bare_not_sample by (simp add: sample_env_def sample_config_lib_def)
  then obtain st' where s: "update_config sample_env sample_update (\<lambda>c. Inr ((), bare_config)) sample_state = (Inr (), st')"
    using sample_edit_saved [of "\<lambda>c. Inr ((), bare_config)" "()" bare_config sample_env] bare_validates
    by (auto simp: sample_env_def bare_config_def)
  have "fs_ok (st_fs sample_state)" using sample_published by (simp add: published_def)
  from update_config_all_or_nothing [OF s this sample_update_names] s show ?thesis
    by (auto simp: sample_env_def)
qed

definition closed_config :: "nat config_file" where
  "closed_config = sample_config\<lparr>cf_traffic := (cf_traffic sample_config)\<lparr>set_users := []\<rparr>, user_accounts := []\<rparr>"

definition lenient_env :: "nat app_env" where
  "lenient_env = sample_env\<lparr>ae_lib := sample_config_lib\<lparr>encode_candidate := \<lambda>_. Inr ''new''\<rparr>\<rparr>"

lemma closed_validates: "validate sample_check closed_config = Inr ()"
proof -
  have "validate_sizes closed_config = Inr ()"
    using sample_sizes by (simp add: validate_sizes_def closed_config_def rbind_Inr_iff)
  moreover have "validate_administrator sample_check closed_config = validate_administrator sample_check sample_config"
    by (simp add: closed_config_def validate_administrator_def)
  ultimately show ?thesis using sample_validates
    by (auto simp: validate_def rbind_Inr_iff closed_config_def default_settings_def)
qed

theorem changed_credentials_end_access_witness:
  "\<exists>st'. admin_step lenient_env sample_state st' \<and> account_of sample_state ''a1'' \<noteq> None \<and> account_of st' ''a1'' = None
     \<and> list_all (\<lambda>(token, s). principal s \<noteq> User ''a1'') (sessions (st_sessions st'))"
proof -
  let ?edit = "\<lambda>c. let kept = filter (\<lambda>a. ua_id a \<noteq> ''a1'') (user_accounts c); c' = traffic_users (al_remove ''a1'') c
             in if length kept = length (user_accounts c) then Inl NotFound else Inr ((), c'\<lparr>user_accounts := kept\<rparr>)"
  have "?edit sample_config = Inr ((), closed_config)"
    by (simp add: sample_accounts_def closed_config_def traffic_users_def default_settings_def al_remove_def)
  then obtain st1 where u: "update_config lenient_env sample_update ?edit sample_state = (Inr (), st1)" "st_config_file st1 = closed_config"
    using sample_edit_saved [of ?edit "()" closed_config lenient_env] closed_validates
    by (auto simp: lenient_env_def sample_env_def closed_config_def)
  define st' where "st' = snd (delete_user_account lenient_env sample_update ''a1'' sample_state)"
  have s: "admin_step lenient_env sample_state st'"
    unfolding st'_def by (rule admin_step.delete_user) (use sample_update_names in \<open>simp add: update_names_def lenient_env_def\<close>)
  have "account_of st' ''a1'' = None" using u by (simp add: st'_def delete_user_account_def account_of_def closed_config_def)
  moreover obtain a where "account_of sample_state ''a1'' = Some a"
    by (simp add: account_of_def sample_state_def sample_accounts_def)
  ultimately show ?thesis using changed_credentials_end_access [OF s, of "''a1''" a "[]" undefined] s by (intro exI [of _ st']) (simp add: list_all_iff)
qed

end
