(* ===== verification/Authentication.thy ===== *)
theory Authentication
  imports AppState UploadBatch
begin

text \<open>
  Logins and the attribution of requests (src/src/auth.rs, auth/login.rs, auth/password.rs and
  admin_api/totp.rs). A login reads a snapshot of the credentials, verifies passwords outside of
  every lock and issues a session only after comparing the snapshot with the configuration that is
  in force then. What other requests do in between is a parameter. The section between taking the
  lock on credentials and issuing the session is one step, because every change of credentials
  takes the same lock. Password verification is a parameter (a verifier task that fails counts as
  a mismatch). A value \<open>None\<close> of a handler means that it panics or does not return.
\<close>

section \<open>Rate limiting\<close>

definition MAX_RATE_LIMIT_KEYS :: nat where "MAX_RATE_LIMIT_KEYS = 10000"

record rate_limiter =
  rl_window :: int
  rl_max_requests :: nat
  rl_entries :: "(str \<times> (nat \<times> int)) list"

definition rate_limiter_new :: "nat \<Rightarrow> nat \<Rightarrow> rate_limiter" where
  "rate_limiter_new max_requests window_secs =
     \<lparr>rl_window = nanoseconds (int window_secs), rl_max_requests = max_requests, rl_entries = []\<rparr>"

definition rate_check :: "int \<Rightarrow> str \<Rightarrow> rate_limiter \<Rightarrow> bool \<times> rate_limiter" where
  "rate_check now key rl =
     (let full = (MAX_RATE_LIMIT_KEYS \<le> length (rl_entries rl));
          m = (if full then al_retain (\<lambda>_ (_, start). now - start < rl_window rl) (rl_entries rl) else rl_entries rl)
      in if full \<and> MAX_RATE_LIMIT_KEYS \<le> length m \<and> al_get m key = None then (False, rl\<lparr>rl_entries := m\<rparr>)
         else case al_get m key of
                Some (count, start) \<Rightarrow>
                  if now - start < rl_window rl
                  then (if rl_max_requests rl \<le> count then (False, rl\<lparr>rl_entries := m\<rparr>)
                        else (True, rl\<lparr>rl_entries := al_insert key (count + 1, start) m\<rparr>))
                  else (True, rl\<lparr>rl_entries := al_insert key (1, now) m\<rparr>)
              | None \<Rightarrow> (True, rl\<lparr>rl_entries := al_insert key (1, now) m\<rparr>))"

definition rate_limit_middleware :: "int \<Rightarrow> str \<Rightarrow> rate_limiter \<Rightarrow> (nat + unit) \<times> rate_limiter" where
  "rate_limit_middleware now ip rl =
     (case rate_check now ip rl of (allowed, rl) \<Rightarrow> (if allowed then Inr () else Inl 429, rl))"

section \<open>Snapshots of credentials\<close>

datatype account_login_kind = AdministratorLogin | UserLogin

fun kind_entry :: "account_login_kind \<Rightarrow> login_entry" where
  "kind_entry AdministratorLogin = Admin"
| "kind_entry UserLogin = Account"

record second_factor_snapshot =
  sf_secret :: str
  sf_recovery_hashes :: "str list"

record account_login_snapshot =
  sn_username :: str
  sn_password_hash :: str
  sn_principal :: "session_principal option"
  sn_second_factor :: "second_factor_snapshot option"
  sn_policy :: login_policy

definition capture :: "'ip config_file \<Rightarrow> str \<Rightarrow> account_login_kind \<Rightarrow> account_login_snapshot" where
  "capture c username kind =
     (case kind of
        AdministratorLogin \<Rightarrow>
          \<lparr>sn_username = cf_admin_username c, sn_password_hash = cf_admin_password_hash c,
           sn_principal = (if username = cf_admin_username c then Some Administrator else None),
           sn_second_factor = map_option (\<lambda>secret. \<lparr>sf_secret = secret, sf_recovery_hashes = cf_admin_recovery_code_hashes c\<rparr>)
                                (cf_admin_totp_secret c),
           sn_policy = \<lparr>maximum_failures = cf_admin_login_failures c, block_seconds = int (cf_admin_login_block_seconds c)\<rparr>\<rparr>
      | UserLogin \<Rightarrow>
          let account = List.find (\<lambda>a. ua_username a = username) (user_accounts c)
          in \<lparr>sn_username = username,
              sn_password_hash = (case account of Some a \<Rightarrow> ua_password_hash a | None \<Rightarrow> cf_admin_password_hash c),
              sn_principal = Option.bind account (\<lambda>a. if ua_enabled a then Some (User (ua_id a)) else None),
              sn_second_factor = None, sn_policy = fixed_policy Account\<rparr>)"

datatype second_factor_proof = TotpCounter nat | RecoveryHash str

definition is_current :: "account_login_snapshot \<Rightarrow> 'ip config_file \<Rightarrow> second_factor_proof option \<Rightarrow> bool" where
  "is_current sn c proof \<longleftrightarrow>
     (case sn_principal sn of
        Some Administrator \<Rightarrow>
          cf_admin_username c = sn_username sn \<and> cf_admin_password_hash c = sn_password_hash sn
          \<and> cf_admin_totp_secret c = map_option sf_secret (sn_second_factor sn)
          \<and> (case proof of Some (RecoveryHash h) \<Rightarrow> h \<in> set (cf_admin_recovery_code_hashes c) | _ \<Rightarrow> True)
      | Some (User uid) \<Rightarrow>
          list_ex (\<lambda>a. ua_id a = uid \<and> ua_enabled a \<and> ua_username a = sn_username sn
                       \<and> ua_password_hash a = sn_password_hash sn) (user_accounts c)
      | None \<Rightarrow> False)"

record gate_login_snapshot =
  gs_password_hash :: "str option"
  gs_policy :: login_policy

definition gate_capture :: "'ip config_file \<Rightarrow> gate_login_snapshot" where
  "gate_capture c =
     \<lparr>gs_password_hash = cf_global_web_password_hash c,
      gs_policy = \<lparr>maximum_failures = cf_web_login_failures c, block_seconds = int (cf_web_login_block_seconds c)\<rparr>\<rparr>"

section \<open>Passwords and the second factor\<close>

definition MAX_LOGIN_PASSWORD_CHARACTERS :: nat where "MAX_LOGIN_PASSWORD_CHARACTERS = 1024"
definition MAX_LOGIN_PASSWORD_BYTES :: nat where "MAX_LOGIN_PASSWORD_BYTES = 4 * MAX_LOGIN_PASSWORD_CHARACTERS"

definition valid_password_length :: "str \<Rightarrow> bool" where
  "valid_password_length password \<longleftrightarrow>
     password \<noteq> [] \<and> length password \<le> MAX_LOGIN_PASSWORD_BYTES
     \<and> length (chars password) \<le> MAX_LOGIN_PASSWORD_CHARACTERS"

definition verify_admin_second_factor_proof ::
  "hmac \<Rightarrow> (str \<Rightarrow> str \<Rightarrow> bool) \<Rightarrow> int \<Rightarrow> str \<Rightarrow> str list \<Rightarrow> str \<Rightarrow> second_factor_proof option option" where
  "verify_admin_second_factor_proof sign verify now secret recovery_hashes supplied =
     (case verify_now_counter sign secret supplied now of
        None \<Rightarrow> None
      | Some (Some counter) \<Rightarrow> Some (Some (TotpCounter counter))
      | Some None \<Rightarrow>
          let recovery = normalize_recovery_code supplied
          in if length recovery \<noteq> 10 then Some None
             else Some (map_option RecoveryHash (List.find (\<lambda>h. verify h recovery) recovery_hashes)))"

definition requires_second_factor_challenge :: "bool \<Rightarrow> bool \<Rightarrow> str option \<Rightarrow> str option \<Rightarrow> bool" where
  "requires_second_factor_challenge administrator password_valid totp_secret supplied \<longleftrightarrow>
     administrator \<and> password_valid \<and> totp_secret \<noteq> None \<and> supplied = None"

section \<open>Headers\<close>

definition header_str :: "http_lib \<Rightarrow> header_map \<Rightarrow> str \<Rightarrow> str option" where
  "header_str lib headers name = (case headers name of [] \<Rightarrow> None | v # _ \<Rightarrow> to_str lib v)"

fun find_map :: "('a \<Rightarrow> 'b option) \<Rightarrow> 'a list \<Rightarrow> 'b option" where
  "find_map f [] = None"
| "find_map f (x # xs) = (case f x of Some y \<Rightarrow> Some y | None \<Rightarrow> find_map f xs)"

definition extract_cookie :: "http_lib \<Rightarrow> header_map \<Rightarrow> str \<Rightarrow> str option" where
  "extract_cookie lib headers name =
     Option.bind (header_str lib headers ''cookie'') (\<lambda>cookie.
       find_map (\<lambda>part. strip_prefix (name @ ''='') (trim part)) (split_on CHR '';'' cookie))"

definition extract_gate_token :: "http_lib \<Rightarrow> header_map \<Rightarrow> str option" where
  "extract_gate_token lib headers = extract_cookie lib headers ''gate_access''"

definition extract_session_token :: "http_lib \<Rightarrow> header_map \<Rightarrow> str option" where
  "extract_session_token lib headers = extract_cookie lib headers ''session''"

text \<open>The decoding of base 64 into valid UTF-8 is a parameter.\<close>

definition extract_basic_auth :: "http_lib \<Rightarrow> (str \<Rightarrow> str option) \<Rightarrow> header_map \<Rightarrow> (str \<times> str) option" where
  "extract_basic_auth lib base64_text headers =
     Option.bind (header_str lib headers ''authorization'') (\<lambda>auth.
     Option.bind (split_once CHR '' '' auth) (\<lambda>(scheme, encoded).
       if \<not> eq_ignore_ascii_case scheme ''basic'' then None
       else let encoded = trim encoded
            in if encoded = [] \<or> list_ex is_whitespace (chars encoded) then None
               else Option.bind (base64_text encoded) (split_once CHR '':'')))"

definition folder_cookies :: "http_lib \<Rightarrow> header_map \<Rightarrow> (str \<times> str) list" where
  "folder_cookies lib headers =
     (case header_str lib headers ''cookie'' of
        None \<Rightarrow> []
      | Some cookies \<Rightarrow>
          List.map_filter (\<lambda>part. Option.bind (split_once CHR ''='' (trim part)) (\<lambda>(name, v).
            if starts_with name ''folder_key_'' then Some (name, v) else None)) (split_on CHR '';'' cookies))"

section \<open>Answers\<close>

record login_request =
  rq_username :: "str option"
  rq_password :: str
  rq_totp_code :: "str option"

record login_response =
  rs_success :: bool
  rs_message :: str
  rs_is_admin :: bool
  rs_totp_required :: bool

text \<open>A JSON answer with its status, \<open>Retry-After\<close> and cookies, or an error of the application.\<close>

datatype auth_response =
  Answer nat login_response "str option" "str list"
| ErrorAnswer app_error

definition failed_answer :: "str \<Rightarrow> login_response" where
  "failed_answer message = \<lparr>rs_success = False, rs_message = message, rs_is_admin = False, rs_totp_required = False\<rparr>"

definition invalid_login_response :: "login_entry \<Rightarrow> auth_response" where
  "invalid_login_response entry =
     Answer 200 (failed_answer (case entry of
        Admin \<Rightarrow> ''Wrong user name or password'' | Account \<Rightarrow> ''Wrong user name or password''
      | Web \<Rightarrow> ''Wrong access password'' | WebDav \<Rightarrow> ''Wrong WebDAV user name or password'')) None []"

definition show_int :: "int \<Rightarrow> str" where
  "show_int i = (if i < 0 then ''-'' @ show_nat (nat (- i)) else show_nat (nat i))"

definition limited_login_response :: "int \<Rightarrow> auth_response" where
  "limited_login_response seconds =
     Answer 429 (failed_answer ''Too many attempts, try again after the restriction ends'') (Some (show_int seconds)) []"

definition login_security_error :: auth_response where
  "login_security_error = Answer 503 (failed_answer ''The login protection is unavailable'') None []"

definition json_with_cookie :: "http_lib \<Rightarrow> login_response \<Rightarrow> str \<Rightarrow> auth_response" where
  "json_with_cookie lib body cookie = Answer 200 body None (if header_value_ok lib cookie then [cookie] else [])"

record auth_lib =
  au_http :: http_lib
  au_sign :: hmac
  au_encode :: encoder

definition failed_login_response ::
  "auth_lib \<Rightarrow> call_io \<Rightarrow> login_entry \<Rightarrow> str \<Rightarrow> str option \<Rightarrow> login_policy \<Rightarrow> 'ip app_state \<Rightarrow> auth_response \<times> 'ip app_state" where
  "failed_login_response lib call entry ip agent limits st =
     (case record_failure (au_encode lib) call (st_login_security st) entry ip agent limits of
        (Inr _, ls) \<Rightarrow> (invalid_login_response entry, st\<lparr>st_login_security := ls\<rparr>)
      | (Inl _, ls) \<Rightarrow> (login_security_error, st\<lparr>st_login_security := ls\<rparr>))"

section \<open>Logins\<close>

text \<open>The outcomes of the calls of one login, and the token and times it draws.\<close>

record login_io =
  li_blocked :: call_io
  li_verify_now :: int
  li_consume_now :: int
  li_update :: update_io
  li_recorded :: call_io
  li_token :: str
  li_session_now :: instant

text \<open>The one-time evidence is used up under the lock on credentials.\<close>

definition consume_proof ::
  "'ip :: linorder app_env \<Rightarrow> login_io \<Rightarrow> second_factor_proof option \<Rightarrow> 'ip app_state
    \<Rightarrow> (app_error option + unit) \<times> 'ip app_state" where
  "consume_proof env io proof st =
     (case proof of
        Some (TotpCounter counter) \<Rightarrow>
          (case consume (li_consume_now io) counter (st_totp_replay st) of
             (fresh, consumed) \<Rightarrow> (if fresh then Inr () else Inl None, st\<lparr>st_totp_replay := consumed\<rparr>))
      | Some (RecoveryHash used) \<Rightarrow>
          (case update_config env (li_update io) (\<lambda>c.
                  rbind (ok_or (remove_first (\<lambda>h. h = used) (cf_admin_recovery_code_hashes c)) Forbidden) (\<lambda>hashes.
                    Inr ((), c\<lparr>cf_admin_recovery_code_hashes := hashes\<rparr>))) st of
             (Inl e, st) \<Rightarrow> (Inl (Some e), st)
           | (Inr _, st) \<Rightarrow> (Inr (), st))
      | None \<Rightarrow> (Inr (), st))"

definition issue_session ::
  "'ip :: linorder app_env \<Rightarrow> auth_lib \<Rightarrow> login_io \<Rightarrow> account_login_kind \<Rightarrow> str \<Rightarrow> str option \<Rightarrow> session_principal
    \<Rightarrow> 'ip app_state \<Rightarrow> (auth_response \<times> 'ip app_state) option" where
  "issue_session env lib io kind ip agent who st =
     (case record_success (au_encode lib) (li_recorded io) (st_login_security st) (kind_entry kind) ip agent of
        (Inl _, ls) \<Rightarrow> Some (login_security_error, st\<lparr>st_login_security := ls\<rparr>)
      | (Inr _, ls) \<Rightarrow>
          map_option
            (\<lambda>store.
               (json_with_cookie (au_http lib)
                  \<lparr>rs_success = True, rs_message = ''Authenticated'', rs_is_admin = (kind = AdministratorLogin), rs_totp_required = False\<rparr>
                  (session_cookie ''session'' (li_token io) (nat (SESSION_TTL div 1000000000)) (ae_secure_cookies env)),
                st\<lparr>st_login_security := ls, st_sessions := store\<rparr>))
            (case who of
               Administrator \<Rightarrow> create_session (st_sessions st) (li_token io) (li_session_now io)
             | User uid \<Rightarrow> create_user (st_sessions st) uid (li_token io) (li_session_now io)))"

text \<open>From taking the lock on credentials to the answer.\<close>

definition conclude_login ::
  "'ip :: linorder app_env \<Rightarrow> auth_lib \<Rightarrow> login_io \<Rightarrow> account_login_kind \<Rightarrow> str \<Rightarrow> str option \<Rightarrow> account_login_snapshot
    \<Rightarrow> second_factor_proof option \<Rightarrow> session_principal \<Rightarrow> 'ip app_state \<Rightarrow> (auth_response \<times> 'ip app_state) option" where
  "conclude_login env lib io kind ip agent sn proof who st =
     (let failed = failed_login_response lib (li_recorded io) (kind_entry kind) ip agent (sn_policy sn)
      in if \<not> is_current sn (st_config_file st) proof then Some (failed st)
         else case consume_proof env io proof st of
                (Inl None, st) \<Rightarrow> Some (failed st)
              | (Inl (Some e), st) \<Rightarrow> Some (ErrorAnswer e, st)
              | (Inr _, st) \<Rightarrow> issue_session env lib io kind ip agent who st)"

text \<open>
  \<open>others1\<close> is what other requests do while this one waits for its turn of the address,
  \<open>others2\<close> what they do while its passwords are verified and it waits for the lock.
\<close>

definition authenticate_account ::
  "'ip :: linorder app_env \<Rightarrow> auth_lib \<Rightarrow> login_io \<Rightarrow> ('ip app_state \<Rightarrow> 'ip app_state) \<Rightarrow> ('ip app_state \<Rightarrow> 'ip app_state)
    \<Rightarrow> str \<Rightarrow> header_map \<Rightarrow> login_request \<Rightarrow> account_login_kind \<Rightarrow> 'ip app_state \<Rightarrow> (auth_response \<times> 'ip app_state) option" where
  "authenticate_account env lib io others1 others2 ip headers body kind st =
     (let agent = header_str (au_http lib) headers ''user-agent'';
          sn = capture (st_config_file st) (case rq_username body of Some name \<Rightarrow> name | None \<Rightarrow> []) kind;
          entry = kind_entry kind;
          st = others1 st;
          (blocked, ls) = is_blocked (li_blocked io) (st_login_security st) entry ip;
          st = st\<lparr>st_login_security := ls\<rparr>
      in case blocked of
           Inl _ \<Rightarrow> Some (login_security_error, st)
         | Inr True \<Rightarrow> Some (limited_login_response (block_seconds (sn_policy sn)), st)
         | Inr False \<Rightarrow>
             let password_matches = (valid_password_length (rq_password body)
                                     \<and> ae_verify env (sn_password_hash sn) (rq_password body));
                 password_valid = (password_matches \<and> sn_principal sn \<noteq> None);
                 supplied = Option.bind (map_option trim (rq_totp_code body)) non_empty;
                 st = others2 st
             in if requires_second_factor_challenge (kind = AdministratorLogin) password_valid
                     (map_option sf_secret (sn_second_factor sn)) supplied
                then Some (Answer 200 \<lparr>rs_success = False, rs_message = ''Enter the one-time code or a recovery code'',
                                       rs_is_admin = True, rs_totp_required = True\<rparr> None [], st)
                else case (case sn_second_factor sn of
                             Some factor \<Rightarrow>
                               if password_valid
                               then verify_admin_second_factor_proof (au_sign lib) (ae_verify env) (li_verify_now io)
                                      (sf_secret factor) (sf_recovery_hashes factor) (case supplied of Some v \<Rightarrow> v | None \<Rightarrow> [])
                               else Some None
                           | None \<Rightarrow> Some None) of
                       None \<Rightarrow> None
                     | Some proof \<Rightarrow>
                         let authenticated = (password_valid \<and> (sn_second_factor sn = None \<or> proof \<noteq> None))
                         in case (if authenticated then sn_principal sn else None) of
                              None \<Rightarrow> Some (failed_login_response lib (li_recorded io) entry ip agent (sn_policy sn) st)
                            | Some who \<Rightarrow>
                                conclude_login env lib io kind ip agent sn proof who st)"

definition login_handler where
  "login_handler env lib io others1 others2 ip headers body st =
     authenticate_account env lib io others1 others2 ip headers body AdministratorLogin st"

definition user_login_handler where
  "user_login_handler env lib io others1 others2 ip headers body st =
     authenticate_account env lib io others1 others2 ip headers body UserLogin st"

text \<open>The site password. The client is its address and whether it is the machine itself.\<close>

definition gate_handler ::
  "'ip app_env \<Rightarrow> auth_lib \<Rightarrow> login_io \<Rightarrow> ('ip app_state \<Rightarrow> 'ip app_state) \<Rightarrow> ('ip app_state \<Rightarrow> 'ip app_state)
    \<Rightarrow> (str \<times> bool) option \<Rightarrow> header_map \<Rightarrow> login_request \<Rightarrow> 'ip app_state \<Rightarrow> (auth_response \<times> 'ip app_state) option" where
  "gate_handler env lib io others1 others2 client headers body st =
     (let sn = gate_capture (st_config_file st);
          is_loopback = (case client of Some (_, loopback) \<Rightarrow> loopback | None \<Rightarrow> False);
          ip = (case client of Some (address, _) \<Rightarrow> address | None \<Rightarrow> ''127.0.0.1'');
          agent = header_str (au_http lib) headers ''user-agent'';
          st = others1 st;
          (blocked, ls) = is_blocked (li_blocked io) (st_login_security st) Web ip;
          st = st\<lparr>st_login_security := ls\<rparr>
      in case blocked of
           Inl _ \<Rightarrow> Some (login_security_error, st)
         | Inr True \<Rightarrow> Some (limited_login_response (block_seconds (gs_policy sn)), st)
         | Inr False \<Rightarrow>
             let authenticated = (case gs_password_hash sn of
                                    Some h \<Rightarrow> valid_password_length (rq_password body) \<and> ae_verify env h (rq_password body)
                                  | None \<Rightarrow> is_loopback);
                 st = others2 st;
                 failed = failed_login_response lib (li_recorded io) Web ip agent (gs_policy sn)
             in if \<not> authenticated then Some (failed st)
                else if cf_global_web_password_hash (st_config_file st) \<noteq> gs_password_hash sn then Some (failed st)
                else case record_success (au_encode lib) (li_recorded io) (st_login_security st) Web ip agent of
                       (Inl _, ls) \<Rightarrow> Some (login_security_error, st\<lparr>st_login_security := ls\<rparr>)
                     | (Inr _, ls) \<Rightarrow>
                         map_option
                           (\<lambda>store.
                              (json_with_cookie (au_http lib)
                                 \<lparr>rs_success = True, rs_message = ''Authenticated'', rs_is_admin = False, rs_totp_required = False\<rparr>
                                 (session_cookie ''gate_access'' (li_token io) (nat (ACCESS_TOKEN_TTL div 1000000000))
                                    (ae_secure_cookies env)),
                               st\<lparr>st_login_security := ls, st_gate_access := store\<rparr>))
                           (create_access (st_gate_access st) ''__gate__'' (li_token io) (li_session_now io)))"

section \<open>Logout and the attribution of requests\<close>

definition logout_handler :: "'ip app_env \<Rightarrow> auth_lib \<Rightarrow> header_map \<Rightarrow> 'ip app_state \<Rightarrow> auth_response \<times> 'ip app_state" where
  "logout_handler env lib headers st =
     (let cookies = folder_cookies (au_http lib) headers;
          (ss, gate, folder) = revoke_browser_credentials (st_sessions st) (st_gate_access st) (st_folder_access st)
             (extract_session_token (au_http lib) headers) (extract_gate_token (au_http lib) headers) cookies;
          cleared = map (\<lambda>name. clear_cookie name (ae_secure_cookies env)) ([''session'', ''gate_access''] @ map fst cookies)
      in (Answer 200 \<lparr>rs_success = True, rs_message = ''Logged out'', rs_is_admin = False, rs_totp_required = False\<rparr> None
            (filter (header_value_ok (au_http lib)) cleared),
          st\<lparr>st_sessions := ss, st_gate_access := gate, st_folder_access := folder\<rparr>))"

definition current_principal ::
  "auth_lib \<Rightarrow> instant \<Rightarrow> header_map \<Rightarrow> 'ip app_state \<Rightarrow> session_principal option \<times> 'ip app_state" where
  "current_principal lib now headers st =
     (case extract_session_token (au_http lib) headers of
        None \<Rightarrow> (None, st)
      | Some token \<Rightarrow>
          (case principal_of (st_sessions st) token now of
             (found, ss) \<Rightarrow>
               let st = st\<lparr>st_sessions := ss\<rparr>
               in (case found of
                     None \<Rightarrow> None
                   | Some Administrator \<Rightarrow> Some Administrator
                   | Some (User uid) \<Rightarrow>
                       if list_ex (\<lambda>a. ua_id a = uid \<and> ua_enabled a) (user_accounts (st_config_file st))
                       then Some (User uid) else None, st)))"

definition gate_open :: "auth_lib \<Rightarrow> instant \<Rightarrow> header_map \<Rightarrow> 'ip app_state \<Rightarrow> str option \<times> 'ip app_state" where
  "gate_open lib now headers st =
     (case extract_gate_token (au_http lib) headers of
        None \<Rightarrow> (None, st)
      | Some token \<Rightarrow>
          (case get_scope (st_gate_access st) token now of
             (sc, store) \<Rightarrow> (if sc \<noteq> None then Some token else None, st\<lparr>st_gate_access := store\<rparr>)))"

definition current_request_subject ::
  "auth_lib \<Rightarrow> instant \<Rightarrow> header_map \<Rightarrow> 'ip app_state \<Rightarrow> request_subject option \<times> 'ip app_state" where
  "current_request_subject lib now headers st =
     (case current_principal lib now headers st of
        (Some _, st) \<Rightarrow> (map_option SessionSubject (extract_session_token (au_http lib) headers), st)
      | (None, st) \<Rightarrow>
          (case gate_open lib now headers st of (token, st) \<Rightarrow> (map_option GateSubject token, st)))"

definition is_admin_authenticated :: "auth_lib \<Rightarrow> instant \<Rightarrow> header_map \<Rightarrow> 'ip app_state \<Rightarrow> bool \<times> 'ip app_state" where
  "is_admin_authenticated lib now headers st =
     (case current_principal lib now headers st of (who, st) \<Rightarrow> (who = Some Administrator, st))"

text \<open>The middlewares: a request passes on (\<open>Inr\<close>) or is answered with a status.\<close>

definition admin_auth_middleware :: "auth_lib \<Rightarrow> instant \<Rightarrow> header_map \<Rightarrow> 'ip app_state \<Rightarrow> (nat + unit) \<times> 'ip app_state" where
  "admin_auth_middleware lib now headers st =
     (case is_admin_authenticated lib now headers st of (ok, st) \<Rightarrow> (if ok then Inr () else Inl 401, st))"

definition write_auth_middleware :: "auth_lib \<Rightarrow> instant \<Rightarrow> header_map \<Rightarrow> 'ip app_state \<Rightarrow> (nat + unit) \<times> 'ip app_state" where
  "write_auth_middleware lib now headers st =
     (case current_principal lib now headers st of (who, st) \<Rightarrow> (if who \<noteq> None then Inr () else Inl 403, st))"

definition auth_middleware :: "auth_lib \<Rightarrow> instant \<Rightarrow> header_map \<Rightarrow> 'ip app_state \<Rightarrow> (nat + unit) \<times> 'ip app_state" where
  "auth_middleware lib now headers st =
     (case current_principal lib now headers st of
        (Some _, st) \<Rightarrow> (Inr (), st)
      | (None, st) \<Rightarrow> (case gate_open lib now headers st of (token, st) \<Rightarrow> (if token \<noteq> None then Inr () else Inl 401, st)))"

record me_response =
  me_logged_in :: bool
  me_is_admin :: bool
  me_username :: "str option"
  me_web_password_required :: bool

definition me_handler :: "auth_lib \<Rightarrow> instant \<Rightarrow> header_map \<Rightarrow> 'ip app_state \<Rightarrow> me_response \<times> 'ip app_state" where
  "me_handler lib now headers st =
     (let (who, ss) = (case extract_session_token (au_http lib) headers of
                         Some token \<Rightarrow> principal_of (st_sessions st) token now
                       | None \<Rightarrow> (None, st_sessions st));
          st = st\<lparr>st_sessions := ss\<rparr>;
          c = st_config_file st;
          r = \<lparr>me_logged_in = False, me_is_admin = False, me_username = None,
               me_web_password_required = (cf_global_web_password_hash c \<noteq> None)\<rparr>;
          r = (case who of
                 Some Administrator \<Rightarrow> r\<lparr>me_logged_in := True, me_is_admin := True, me_username := Some (cf_admin_username c)\<rparr>
               | Some (User uid) \<Rightarrow>
                   let name = map_option ua_username (List.find (\<lambda>a. ua_id a = uid \<and> ua_enabled a) (user_accounts c))
                   in r\<lparr>me_username := name, me_logged_in := (name \<noteq> None)\<rparr>
               | None \<Rightarrow> r)
      in if me_logged_in r then (r, st)
         else case gate_open lib now headers st of
                (token, st) \<Rightarrow> (if token \<noteq> None then r\<lparr>me_logged_in := True\<rparr> else r, st))"

section \<open>The administrator's second factor\<close>

definition verify_current_admin_password :: "'ip app_env \<Rightarrow> str \<Rightarrow> 'ip app_state \<Rightarrow> unit app_result" where
  "verify_current_admin_password env password st =
     (if 4096 < length (chars password) then Inl (BadRequest ''The administrator password is invalid'')
      else if \<not> ae_verify env (cf_admin_password_hash (st_config_file st)) password then Inl Forbidden
      else Inr ())"

record totp_setup_response =
  ts_secret :: str
  ts_provisioning_uri :: str
  ts_qr_svg :: str

definition setup_admin_totp ::
  "'ip app_env \<Rightarrow> (str \<Rightarrow> str app_result) \<Rightarrow> random_bytes \<Rightarrow> str \<Rightarrow> 'ip app_state \<Rightarrow> totp_setup_response app_result" where
  "setup_admin_totp env qr random current_password st =
     rbind (verify_current_admin_password env current_password st) (\<lambda>_.
     rbind (ensure (cf_admin_totp_secret (st_config_file st) = None)
              (Conflict ''The second factor is enabled; verify and disable it first'')) (\<lambda>_.
       let secret = generate_secret random; address = provisioning_uri secret (cf_admin_username (st_config_file st))
       in rbind (qr address) (\<lambda>svg. Inr \<lparr>ts_secret = secret, ts_provisioning_uri = address, ts_qr_svg = svg\<rparr>)))"

fun hash_all :: "hasher \<Rightarrow> str list \<Rightarrow> str list app_result" where
  "hash_all hash [] = Inr []"
| "hash_all hash (c # codes) =
     rbind (hash (normalize_recovery_code c)) (\<lambda>h. rbind (hash_all hash codes) (\<lambda>hs. Inr (h # hs)))"

definition enable_admin_totp ::
  "'ip :: linorder app_env \<Rightarrow> auth_lib \<Rightarrow> hasher \<Rightarrow> (nat \<Rightarrow> random_bytes) \<Rightarrow> int \<Rightarrow> update_io \<Rightarrow> str \<Rightarrow> str \<Rightarrow> str \<Rightarrow> 'ip app_state
    \<Rightarrow> (str list app_result \<times> 'ip app_state) option" where
  "enable_admin_totp env lib hash random now io current_password secret supplied st =
     (case rbind (verify_current_admin_password env current_password st) (\<lambda>_. validate_secret secret) of
        Inl e \<Rightarrow> Some (Inl e, st)
      | Inr _ \<Rightarrow>
          map_option
            (\<lambda>verified.
               if \<not> verified then (Inl (BadRequest ''The one-time code is invalid or has expired''), st)
               else let codes = generate_recovery_codes random 8
                    in case hash_all hash codes of
                         Inl e \<Rightarrow> (Inl e, st)
                       | Inr hashes \<Rightarrow>
                           (case update_config env io (\<lambda>c.
                                   if cf_admin_totp_secret c \<noteq> None then Inl (Conflict ''The second factor is already enabled'')
                                   else Inr ((), c\<lparr>cf_admin_totp_secret := Some secret, cf_admin_recovery_code_hashes := hashes\<rparr>)) st of
                              (Inl e, st) \<Rightarrow> (Inl e, st)
                            | (Inr _, st) \<Rightarrow>
                                (Inr codes, st\<lparr>st_totp_replay := clear_replay (st_totp_replay st),
                                               st_sessions := revoke_administrator (st_sessions st)\<rparr>)))
            (verify_now (au_sign lib) secret supplied now))"

definition disable_admin_totp ::
  "'ip :: linorder app_env \<Rightarrow> auth_lib \<Rightarrow> int \<Rightarrow> int \<Rightarrow> update_io \<Rightarrow> str \<Rightarrow> str \<Rightarrow> 'ip app_state
    \<Rightarrow> (unit app_result \<times> 'ip app_state) option" where
  "disable_admin_totp env lib now consume_now io current_password supplied st =
     (case rbind (verify_current_admin_password env current_password st) (\<lambda>_.
           ok_or (cf_admin_totp_secret (st_config_file st)) (Conflict ''The second factor is not enabled'')) of
        Inl e \<Rightarrow> Some (Inl e, st)
      | Inr secret \<Rightarrow>
          (case verify_admin_second_factor_proof (au_sign lib) (ae_verify env) now secret
                  (cf_admin_recovery_code_hashes (st_config_file st)) supplied of
             None \<Rightarrow> None
           | Some None \<Rightarrow> Some (Inl (BadRequest ''The one-time code or recovery code is invalid''), st)
           | Some (Some proof) \<Rightarrow>
               let (fresh, consumed) = (case proof of
                                          TotpCounter counter \<Rightarrow> consume consume_now counter (st_totp_replay st)
                                        | RecoveryHash _ \<Rightarrow> (True, st_totp_replay st));
                   st = st\<lparr>st_totp_replay := consumed\<rparr>
               in if \<not> fresh then Some (Inl (BadRequest ''The one-time code or recovery code is invalid''), st)
                  else (case update_config env io (\<lambda>c.
                               Inr ((), c\<lparr>cf_admin_totp_secret := None, cf_admin_recovery_code_hashes := []\<rparr>)) st of
                          (Inl e, st) \<Rightarrow> Some (Inl e, st)
                        | (Inr _, st) \<Rightarrow>
                            Some (Inr (), st\<lparr>st_totp_replay := clear_replay (st_totp_replay st),
                                             st_sessions := revoke_administrator (st_sessions st)\<rparr>))))"

section \<open>What the rate limiter allows\<close>

fun rate_run :: "rate_limiter \<Rightarrow> (int \<times> str) list \<Rightarrow> ((int \<times> str) \<times> bool) list \<times> rate_limiter" where
  "rate_run rl [] = ([], rl)"
| "rate_run rl ((now, key) # rs) =
     (let (ok, rl) = rate_check now key rl; (log, rl) = rate_run rl rs in (((now, key), ok) # log, rl))"

definition granted_within :: "str \<Rightarrow> int \<Rightarrow> int \<Rightarrow> ((int \<times> str) \<times> bool) list \<Rightarrow> nat" where
  "granted_within k t w log = length (filter (\<lambda>((now, key), ok). ok \<and> key = k \<and> t \<le> now \<and> now < t + w) log)"

text \<open>The requests one address may still get through in an interval, seen from its entry.\<close>

definition rate_left :: "int \<Rightarrow> nat \<Rightarrow> int \<Rightarrow> (nat \<times> int) option \<Rightarrow> nat" where
  "rate_left w m t e =
     (case e of None \<Rightarrow> m | Some (c, s) \<Rightarrow> if t \<le> s then m - c else if s + w \<le> t then m else 2 * m - c)"

definition rate_ok :: "rate_limiter \<Rightarrow> bool" where
  "rate_ok rl \<longleftrightarrow> distinct (al_keys (rl_entries rl)) \<and> length (rl_entries rl) \<le> MAX_RATE_LIMIT_KEYS
     \<and> (\<forall>(k, c, s) \<in> set (rl_entries rl). 1 \<le> c \<and> c \<le> max 1 (rl_max_requests rl))"

lemma rate_check_cases:
  assumes "rate_check now key rl = (ok, rl')" "rate_ok rl"
  obtains (shape) m where "distinct (al_keys m)" "set m \<subseteq> set (rl_entries rl)" "length m \<le> MAX_RATE_LIMIT_KEYS"
    "\<And>k. al_get m k = al_get (rl_entries rl) k
      \<or> al_get m k = None \<and> (\<exists>c s. al_get (rl_entries rl) k = Some (c, s) \<and> rl_window rl \<le> now - s)"
    "rl' = rl\<lparr>rl_entries := rl_entries rl'\<rparr>"
    "\<not> ok \<and> rl_entries rl' = m
     \<or> ok \<and> (\<exists>c s. al_get m key = Some (c, s) \<and> now - s < rl_window rl \<and> c < rl_max_requests rl
              \<and> rl_entries rl' = al_insert key (c + 1, s) m)
     \<or> ok \<and> rl_entries rl' = al_insert key (1, now) m \<and>
         (al_get m key = None \<and> length m < MAX_RATE_LIMIT_KEYS
          \<or> (\<exists>c s. al_get m key = Some (c, s) \<and> rl_window rl \<le> now - s))"
proof -
  define m where "m = (if MAX_RATE_LIMIT_KEYS \<le> length (rl_entries rl)
      then al_retain (\<lambda>_ (_, start). now - start < rl_window rl) (rl_entries rl) else rl_entries rl)"
  have d: "distinct (al_keys (rl_entries rl))" and len: "length (rl_entries rl) \<le> MAX_RATE_LIMIT_KEYS"
    using assms(2) by (simp_all add: rate_ok_def)
  have m: "distinct (al_keys m)" "set m \<subseteq> set (rl_entries rl)" "length m \<le> length (rl_entries rl)"
    using d by (auto simp: m_def)
  have get: "al_get m k = al_get (rl_entries rl) k
      \<or> al_get m k = None \<and> (\<exists>c s. al_get (rl_entries rl) k = Some (c, s) \<and> rl_window rl \<le> now - s)" for k
    using al_get_retain [OF d, of "\<lambda>_ (_, start). now - start < rl_window rl" k]
    by (auto simp: m_def split: option.splits)
  have run: "rate_check now key rl =
      (if MAX_RATE_LIMIT_KEYS \<le> length (rl_entries rl) \<and> MAX_RATE_LIMIT_KEYS \<le> length m \<and> al_get m key = None
       then (False, rl\<lparr>rl_entries := m\<rparr>)
       else case al_get m key of
              Some (count, start) \<Rightarrow>
                if now - start < rl_window rl
                then (if rl_max_requests rl \<le> count then (False, rl\<lparr>rl_entries := m\<rparr>)
                      else (True, rl\<lparr>rl_entries := al_insert key (count + 1, start) m\<rparr>))
                else (True, rl\<lparr>rl_entries := al_insert key (1, now) m\<rparr>)
            | None \<Rightarrow> (True, rl\<lparr>rl_entries := al_insert key (1, now) m\<rparr>))"
    unfolding rate_check_def Let_def m_def by (rule refl)
  have room: "\<not> (MAX_RATE_LIMIT_KEYS \<le> length (rl_entries rl) \<and> MAX_RATE_LIMIT_KEYS \<le> length m) \<Longrightarrow> length m < MAX_RATE_LIMIT_KEYS"
    using m(3) by linarith
  have same: "rl' = rl\<lparr>rl_entries := rl_entries rl'\<rparr>"
    using assms(1) unfolding run by (auto split: if_splits option.splits prod.splits)
  have "\<not> ok \<and> rl_entries rl' = m
     \<or> ok \<and> (\<exists>c s. al_get m key = Some (c, s) \<and> now - s < rl_window rl \<and> c < rl_max_requests rl
              \<and> rl_entries rl' = al_insert key (c + 1, s) m)
     \<or> ok \<and> rl_entries rl' = al_insert key (1, now) m \<and>
         (al_get m key = None \<and> length m < MAX_RATE_LIMIT_KEYS
          \<or> (\<exists>c s. al_get m key = Some (c, s) \<and> rl_window rl \<le> now - s))"
    using assms(1) room unfolding run
    by (cases "al_get m key") (auto split: if_splits)
  with m(1,2) get same m(3) len show thesis by (intro shape [of m]) auto
qed

lemma length_al_insert_present: "al_get m k \<noteq> None \<Longrightarrow> length (al_insert k v m) \<le> length m"
proof -
  assume "al_get m k \<noteq> None"
  then obtain v' where "(k, v') \<in> set m" by (auto simp: al_get_def dest: map_of_SomeD)
  then have "length (al_remove k m) < length m" by (intro length_al_remove_less) auto
  then show ?thesis by (simp add: al_insert_def)
qed

lemma rate_check_ok:
  assumes "rate_ok rl" "rate_check now key rl = (ok, rl')"
  shows "rate_ok rl' \<and> rl_window rl' = rl_window rl \<and> rl_max_requests rl' = rl_max_requests rl"
  using assms(2,1)
proof (cases rule: rate_check_cases)
  case (shape m)
  have inv: "\<forall>(k, c, s) \<in> set (rl_entries rl). 1 \<le> c \<and> c \<le> max 1 (rl_max_requests rl)"
    using assms(1) by (simp add: rate_ok_def)
  have "length (rl_entries rl') \<le> MAX_RATE_LIMIT_KEYS"
  proof -
    have a: "length (al_insert key v m) \<le> MAX_RATE_LIMIT_KEYS" if "al_get m key \<noteq> None \<or> length m < MAX_RATE_LIMIT_KEYS" for v
      using that shape(3) length_al_insert [of key v m] length_al_insert_present [of m key v] by linarith
    show ?thesis using shape(3,6) a by (elim disjE conjE exE) simp_all
  qed
  moreover have "distinct (al_keys (rl_entries rl'))" using shape(1,6) by auto
  moreover have "\<forall>(k, c, s) \<in> set (rl_entries rl'). 1 \<le> c \<and> c \<le> max 1 (rl_max_requests rl)"
    using shape(6)
  proof (elim disjE conjE exE)
    assume "rl_entries rl' = m"
    then show ?thesis using shape(2) inv by blast
  next
    fix c s assume "c < rl_max_requests rl" "rl_entries rl' = al_insert key (c + 1, s) m"
    then show ?thesis using shape(2) inv by auto
  qed (use shape(2) inv in auto)
  moreover have "rl_window rl' = rl_window rl" "rl_max_requests rl' = rl_max_requests rl"
    using arg_cong [OF shape(5), of rl_window] arg_cong [OF shape(5), of rl_max_requests] by simp_all
  ultimately show ?thesis by (simp add: rate_ok_def)
qed

lemma granted_within_Cons:
  "granted_within k t w (((now, key), ok) # log) =
     (if ok \<and> key = k \<and> t \<le> now \<and> now < t + w then 1 else 0) + granted_within k t w log"
  by (simp add: granted_within_def)

lemma rate_run_times: "map fst (fst (rate_run rl rs)) = rs"
  by (induction rl rs rule: rate_run.induct) (auto split: prod.split)

lemma granted_within_late:
  assumes "\<forall>r \<in> set rs. t + w \<le> fst r"
  shows "granted_within k t w (fst (rate_run rl rs)) = 0"
proof -
  have "\<forall>x \<in> set (fst (rate_run rl rs)). t + w \<le> fst (fst x)"
    using assms rate_run_times [of rl rs] by (metis (no_types, lifting) image_eqI list.set_map)
  then show ?thesis by (force simp: granted_within_def filter_empty_conv)
qed

lemma rate_check_left:
  assumes "rate_check now key rl = (ok, rl')" "rate_ok rl" "t \<le> now"
  defines "M \<equiv> max 1 (rl_max_requests rl)"
  shows "(if ok \<and> key = k then 1 else 0) + rate_left (rl_window rl) M t (al_get (rl_entries rl') k) \<le> rate_left (rl_window rl) M t (al_get (rl_entries rl) k)
    \<or> t + rl_window rl \<le> now"
  using assms(1,2)
proof (cases rule: rate_check_cases)
  case (shape m)
  have inv: "\<forall>(k, c, s) \<in> set (rl_entries rl). 1 \<le> c \<and> c \<le> M" using assms(2) by (simp add: rate_ok_def M_def)
  then have invk: "al_get (rl_entries rl) k = Some (c, s) \<Longrightarrow> 1 \<le> c \<and> c \<le> M" for c s
    using assms(2) by (auto simp: rate_ok_def al_get_Some_iff)
  have invm: "al_get m k = Some (c, s) \<Longrightarrow> 1 \<le> c \<and> c \<le> M" for c s
    using inv shape(1,2) by (auto simp: al_get_Some_iff)
  have purge: "rate_left (rl_window rl) M t (al_get m k) \<le> rate_left (rl_window rl) M t (al_get (rl_entries rl) k) \<or> t + rl_window rl \<le> now"
    using shape(4) [of k] invk by (fastforce simp: rate_left_def)
  have other: "key \<noteq> k \<Longrightarrow> al_get (rl_entries rl') k = al_get m k" using shape(6) by auto
  have "(if ok \<and> key = k then 1 else 0) + rate_left (rl_window rl) M t (al_get (rl_entries rl') k) \<le> rate_left (rl_window rl) M t (al_get m k)
      \<or> t + rl_window rl \<le> now"
  proof (cases "key = k")
    case True
    from shape(6) show ?thesis
    proof (elim disjE conjE exE)
      fix c s assume e: "ok" "al_get m key = Some (c, s)" "now - s < rl_window rl" "c < rl_max_requests rl" "rl_entries rl' = al_insert key (c + 1, s) m"
      have "c + 1 \<le> M" using e(4) by (simp add: M_def)
      then show ?thesis using e True assms(3) by (auto simp: rate_left_def)
    next
      fix c s assume e: "ok" "rl_entries rl' = al_insert key (1, now) m" "al_get m key = Some (c, s)" "rl_window rl \<le> now - s"
      have "c \<le> M" "1 \<le> M" using invm e(3) True by (auto simp: M_def)
      then show ?thesis using e True assms(3) by (auto simp: rate_left_def)
    qed (use True assms(3) in \<open>auto simp: rate_left_def M_def\<close>)
  qed (simp add: other)
  then show ?thesis using purge by linarith
qed

lemma rate_run_bound:
  assumes "rate_ok rl" "sorted (map fst rs)" "\<forall>r \<in> set rs. t \<le> fst r" "0 \<le> rl_window rl"
  shows "granted_within k t (rl_window rl) (fst (rate_run rl rs))
    \<le> rate_left (rl_window rl) (max 1 (rl_max_requests rl)) t (al_get (rl_entries rl) k)"
  using assms
proof (induction rs arbitrary: rl)
  case Nil
  then show ?case by (simp add: granted_within_def)
next
  case (Cons r rs)
  obtain now key where r: "r = (now, key)" by force
  obtain ok rl' where c: "rate_check now key rl = (ok, rl')" by force
  let ?M = "max 1 (rl_max_requests rl)" and ?w = "rl_window rl"
  let ?rest = "granted_within k t ?w (fst (rate_run rl' rs))"
  have ok: "rate_ok rl'" "rl_window rl' = ?w" "rl_max_requests rl' = rl_max_requests rl"
    using rate_check_ok [OF Cons.prems(1) c] by auto
  have now: "t \<le> now" "\<forall>q \<in> set rs. now \<le> fst q" using Cons.prems(2,3) by (auto simp: r)
  have IH: "?rest \<le> rate_left ?w ?M t (al_get (rl_entries rl') k)"
    using Cons.IH [OF ok(1)] Cons.prems ok(2,3) by (simp add: r)
  have late: "t + ?w \<le> now \<Longrightarrow> ?rest = 0"
    by (rule granted_within_late) (use now(2) in force)
  have split: "granted_within k t ?w (fst (rate_run rl (r # rs))) = (if ok \<and> key = k \<and> now < t + ?w then 1 else 0) + ?rest"
    using now(1) by (simp add: r c granted_within_Cons split: prod.split)
  have "(if ok \<and> key = k then 1 else 0) + rate_left ?w ?M t (al_get (rl_entries rl') k) \<le> rate_left ?w ?M t (al_get (rl_entries rl) k)
      \<or> t + ?w \<le> now"
    by (rule rate_check_left [OF c Cons.prems(1) now(1)])
  then show ?case using IH late split by (auto split: if_splits)
qed

text \<open>A window starts at the time of a request of its address.\<close>

lemma rate_entry_start:
  assumes "rate_ok rl" "al_get (rl_entries (snd (rate_run rl rs))) k = Some (c, s)"
  shows "(s, k) \<in> set rs \<or> (\<exists>c. al_get (rl_entries rl) k = Some (c, s))"
  using assms
proof (induction rs arbitrary: rl)
  case (Cons r rs)
  obtain now key where r: "r = (now, key)" by force
  obtain ok rl' where chk: "rate_check now key rl = (ok, rl')" by force
  have "(s, k) \<in> set rs \<or> (\<exists>c. al_get (rl_entries rl') k = Some (c, s))"
    using Cons.IH [of rl'] rate_check_ok [OF Cons.prems(1) chk] Cons.prems(2) by (simp add: r chk split: prod.splits)
  moreover from chk Cons.prems(1) have "(now = s \<and> key = k) \<or> (\<exists>c. al_get (rl_entries rl) k = Some (c, s))"
    if "al_get (rl_entries rl') k = Some (c', s)" for c'
  proof (cases rule: rate_check_cases)
    case (shape m)
    have "al_get (rl_entries rl) k = Some v" if "al_get m k = Some v" for v using shape(4) [of k] that by auto
    then show ?thesis using shape(6) that by (auto split: if_splits)
  qed
  ultimately show ?case by (auto simp: r)
qed auto

lemma rate_run_append:
  "rate_run rl (xs @ ys) = (fst (rate_run rl xs) @ fst (rate_run (snd (rate_run rl xs)) ys),
                            snd (rate_run (snd (rate_run rl xs)) ys))"
  by (induction rl xs rule: rate_run.induct) (simp_all add: Let_def split: prod.split)

lemma rate_run_ok:
  "rate_ok rl \<Longrightarrow> rate_ok (snd (rate_run rl rs)) \<and> rl_window (snd (rate_run rl rs)) = rl_window rl
     \<and> rl_max_requests (snd (rate_run rl rs)) = rl_max_requests rl"
proof (induction rl rs rule: rate_run.induct)
  case (2 rl now key rs)
  obtain ok rl' where c: "rate_check now key rl = (ok, rl')" by force
  show ?case using "2.IH" [OF c [symmetric] refl] rate_check_ok [OF "2.prems" c] by (auto simp: c split: prod.split)
qed simp

lemma granted_within_early:
  assumes "\<forall>r \<in> set rs. fst r < t"
  shows "granted_within k t w (fst (rate_run rl rs)) = 0"
proof -
  have "\<forall>x \<in> set (fst (rate_run rl rs)). fst (fst x) < t"
    using assms rate_run_times [of rl rs] by (metis (no_types, lifting) image_eqI list.set_map)
  then show ?thesis by (force simp: granted_within_def filter_empty_conv)
qed

section \<open>Who gets a session\<close>

text \<open>The record of a login does not touch anything but the login protection.\<close>

definition answered_success :: "auth_response \<Rightarrow> bool" where
  "answered_success r = (case r of Answer _ body _ _ \<Rightarrow> rs_success body | ErrorAnswer _ \<Rightarrow> False)"

lemma not_success [simp]:
  "\<not> answered_success login_security_error" "\<not> answered_success (limited_login_response n)"
  "\<not> answered_success (ErrorAnswer e)"
  by (simp_all add: answered_success_def login_security_error_def limited_login_response_def failed_answer_def)

lemma failed_login_D:
  "failed_login_response lib call entry ip agent limits st = (r, st') \<Longrightarrow>
     \<not> answered_success r \<and> st' = st\<lparr>st_login_security := st_login_security st'\<rparr>
     \<and> st_sessions st' = st_sessions st \<and> st_config_file st' = st_config_file st"
  by (auto simp: answered_success_def failed_login_response_def login_security_error_def
      invalid_login_response_def failed_answer_def split: prod.splits sum.splits)

lemma consume_proof_cases:
  assumes "consume_proof env io proof st = (r, st')"
  obtains (none) "proof = None" "r = Inr ()" "st' = st"
  | (fresh) counter where "proof = Some (TotpCounter counter)" "r = Inr ()"
      "fst (consume (li_consume_now io) counter (st_totp_replay st))"
      "st' = st\<lparr>st_totp_replay := snd (consume (li_consume_now io) counter (st_totp_replay st))\<rparr>"
  | (recovery) used where "proof = Some (RecoveryHash used)" "r = Inr ()"
      "remove_first (\<lambda>h. h = used) (cf_admin_recovery_code_hashes (st_config_file st))
        = Some (cf_admin_recovery_code_hashes (st_config_file st'))"
      "st_config_file st' = (st_config_file st)\<lparr>cf_admin_recovery_code_hashes := cf_admin_recovery_code_hashes (st_config_file st')\<rparr>"
      "st_sessions st' = st_sessions st"
      "\<exists>edit. update_config env (li_update io) edit st = (Inr (), st')"
  | (replayed) counter where "proof = Some (TotpCounter counter)" "r = Inl None" "\<exists>x. st' = st\<lparr>st_totp_replay := x\<rparr>"
  | (unsaved) e where "r = Inl (Some e)" "\<exists>edit. update_config env (li_update io) (edit :: _ \<Rightarrow> (unit \<times> _) app_result) st = (Inl e, st')"
proof (cases "proof")
  case None
  then show thesis using assms none by (simp add: consume_proof_def)
next
  case (Some pr)
  show thesis
  proof (cases pr)
    case (TotpCounter counter)
    show thesis
    proof (cases "fst (consume (li_consume_now io) counter (st_totp_replay st))")
      case True
      then show thesis using assms Some TotpCounter by (intro fresh) (auto simp: consume_proof_def split: prod.splits)
    next
      case False
      then show thesis using assms Some TotpCounter by (intro replayed) (auto simp: consume_proof_def split: prod.splits)
    qed
  next
    case (RecoveryHash used)
    let ?edit = "\<lambda>c. rbind (ok_or (remove_first (\<lambda>h. h = used) (cf_admin_recovery_code_hashes c)) Forbidden) (\<lambda>hashes.
                    Inr ((), c\<lparr>cf_admin_recovery_code_hashes := hashes\<rparr>))"
    obtain q st1 where u: "update_config env (li_update io) ?edit st = (q, st1)" by force
    from u show thesis
    proof (cases rule: update_config_stores)
      case (kept e)
      then show thesis using assms Some RecoveryHash u by (intro unsaved) (auto simp: consume_proof_def)
    next
      case (changed x cfg)
      have st1: "st1 = st'" "r = Inr ()" "q = Inr ()" using assms Some RecoveryHash u changed(1) by (auto simp: consume_proof_def)
      obtain hashes where h: "remove_first (\<lambda>h. h = used) (cf_admin_recovery_code_hashes (st_config_file st)) = Some hashes"
        "cfg = (st_config_file st)\<lparr>cf_admin_recovery_code_hashes := hashes\<rparr>"
        using changed(2) by (auto simp: rbind_Inr_iff)
      show thesis
        using Some RecoveryHash u h st1 changed(3,4)
        by (intro recovery [of used]) auto
    qed
  qed
qed

lemma issue_session_cases:
  assumes "issue_session env lib io kind ip agent who st = Some (r, st')"
  obtains (refused) "\<not> answered_success r" "st' = st\<lparr>st_login_security := st_login_security st'\<rparr>"
  | (issued) store where "answered_success r" "create_for (st_sessions st) who (li_token io) (li_session_now io) = Some store"
      "st' = st\<lparr>st_login_security := st_login_security st', st_sessions := store\<rparr>"
  using assms
  by (auto simp: issue_session_def create_session_def create_user_def answered_success_def json_with_cookie_def
      login_security_error_def failed_answer_def split: prod.splits sum.splits session_principal.splits)

lemma conclude_login_cases:
  assumes "conclude_login env lib io kind ip agent sn proof who st = Some (r, st')"
  obtains (refused) "\<not> answered_success r" "st_sessions st' = st_sessions st" "st_config_file st' = st_config_file st
        \<or> (\<exists>used hashes. proof = Some (RecoveryHash used)
            \<and> st_config_file st' = (st_config_file st)\<lparr>cf_admin_recovery_code_hashes := hashes\<rparr>)"
  | (issued) st1 store where "answered_success r" "is_current sn (st_config_file st) proof"
      "consume_proof env io proof st = (Inr (), st1)" "st_sessions st1 = st_sessions st"
      "create_for (st_sessions st) who (li_token io) (li_session_now io) = Some store"
      "st' = st1\<lparr>st_login_security := st_login_security st', st_sessions := store\<rparr>"
proof (cases "is_current sn (st_config_file st) proof")
  case False
  then show thesis using assms by (intro refused) (auto simp: conclude_login_def dest: failed_login_D)
next
  case True
  obtain q st1 where q: "consume_proof env io proof st = (q, st1)" by force
  have c: "conclude_login env lib io kind ip agent sn proof who st =
      (case q of
         Inl None \<Rightarrow> Some (failed_login_response lib (li_recorded io) (kind_entry kind) ip agent (sn_policy sn) st1)
       | Inl (Some e) \<Rightarrow> Some (ErrorAnswer e, st1)
       | Inr _ \<Rightarrow> issue_session env lib io kind ip agent who st1)"
    using True q by (auto simp: conclude_login_def split: sum.split option.split)
  note refused_login = refused and issued_login = issued
  have issue: thesis if "issue_session env lib io kind ip agent who st1 = Some (r, st')" "q = Inr ()" "st_sessions st1 = st_sessions st"
      "st_config_file st1 = st_config_file st \<or> (\<exists>used hashes. proof = Some (RecoveryHash used)
            \<and> st_config_file st1 = (st_config_file st)\<lparr>cf_admin_recovery_code_hashes := hashes\<rparr>)"
    using that(1)
  proof (cases rule: issue_session_cases)
    case refused
    have "st_sessions st' = st_sessions st1" "st_config_file st' = st_config_file st1"
      using arg_cong [OF refused(2), of st_sessions] arg_cong [OF refused(2), of st_config_file] by simp_all
    then show thesis using refused_login refused(1) that(3,4) by simp
  next
    case (issued store)
    show thesis using issued_login [OF issued(1) True] q that(2,3) issued(2,3) by simp
  qed
  from q show thesis
  proof (cases rule: consume_proof_cases)
    case none
    show thesis by (rule issue) (use assms c none in simp_all)
  next
    case (fresh counter)
    show thesis by (rule issue) (use assms c fresh in simp_all)
  next
    case (recovery used)
    have "issue_session env lib io kind ip agent who st1 = Some (r, st')" using assms by (simp add: c recovery(2))
    moreover have "\<exists>used hashes. proof = Some (RecoveryHash used)
        \<and> st_config_file st1 = (st_config_file st)\<lparr>cf_admin_recovery_code_hashes := hashes\<rparr>"
      using recovery(1,4) by blast
    ultimately show thesis using issue recovery(2,5) by blast
  next
    case (replayed counter)
    have "failed_login_response lib (li_recorded io) (kind_entry kind) ip agent (sn_policy sn) st1 = (r, st')"
      using assms unfolding c replayed(2) by simp
    from failed_login_D [OF this] replayed(3) show thesis by (intro refused_login) (elim conjE exE; simp)+
  next
    case (unsaved e)
    from unsaved(2) obtain edit :: "_ \<Rightarrow> (unit \<times> _) app_result"
      where "update_config env (li_update io) edit st = (Inl e, st1)" by blast
    note k = update_config_error_keeps [OF this]
    have "st_sessions st1 = st_sessions st" "st_config_file st1 = st_config_file st"
      using arg_cong [OF k, of st_sessions] arg_cong [OF k, of st_config_file] by simp_all
    then show thesis using assms c unsaved(1) refused_login by auto
  qed
qed

text \<open>The state in which a login meets the lock on credentials.\<close>

definition login_moment ::
  "login_io \<Rightarrow> ('ip app_state \<Rightarrow> 'ip app_state) \<Rightarrow> ('ip app_state \<Rightarrow> 'ip app_state) \<Rightarrow> account_login_kind \<Rightarrow> str
    \<Rightarrow> 'ip app_state \<Rightarrow> 'ip app_state" where
  "login_moment io others1 others2 kind ip st =
     others2 ((others1 st)\<lparr>st_login_security := snd (is_blocked (li_blocked io) (st_login_security (others1 st)) (kind_entry kind) ip)\<rparr>)"

definition request_name :: "login_request \<Rightarrow> str" where
  "request_name body = (case rq_username body of Some name \<Rightarrow> name | None \<Rightarrow> [])"

definition supplied_factor :: "login_request \<Rightarrow> str option" where
  "supplied_factor body = Option.bind (map_option trim (rq_totp_code body)) non_empty"

definition factor_proof ::
  "'ip app_env \<Rightarrow> auth_lib \<Rightarrow> login_io \<Rightarrow> account_login_snapshot \<Rightarrow> login_request \<Rightarrow> second_factor_proof option option" where
  "factor_proof env lib io sn body =
     (case sn_second_factor sn of
        Some factor \<Rightarrow>
          verify_admin_second_factor_proof (au_sign lib) (ae_verify env) (li_verify_now io)
            (sf_secret factor) (sf_recovery_hashes factor) (case supplied_factor body of Some v \<Rightarrow> v | None \<Rightarrow> [])
      | None \<Rightarrow> Some None)"

lemma authenticate_cases:
  assumes "authenticate_account env lib io others1 others2 ip headers body kind st = Some (r, st')"
  defines "sn \<equiv> capture (st_config_file st) (request_name body) kind"
    and "m \<equiv> login_moment io others1 others2 kind ip st"
  obtains (early) ls where "\<not> answered_success r" "st' = (others1 st)\<lparr>st_login_security := ls\<rparr>"
  | (refused) "\<not> answered_success r" "st_sessions st' = st_sessions m" "st_config_file st' = st_config_file m"
      "st' = m\<lparr>st_login_security := st_login_security st'\<rparr>"
  | (concluded) agent pf who where "sn_principal sn = Some who" "valid_password_length (rq_password body)"
      "ae_verify env (sn_password_hash sn) (rq_password body)" "factor_proof env lib io sn body = Some pf"
      "sn_second_factor sn = None \<or> pf \<noteq> None"
      "conclude_login env lib io kind ip agent sn pf who m = Some (r, st')"
      "fst (is_blocked (li_blocked io) (st_login_security (others1 st)) (kind_entry kind) ip) = Inr False"
      "kind = AdministratorLogin \<Longrightarrow> sn_second_factor sn \<noteq> None \<Longrightarrow> supplied_factor body \<noteq> None"
proof -
  obtain b ls where b: "is_blocked (li_blocked io) (st_login_security (others1 st)) (kind_entry kind) ip = (b, ls)" by force
  have m: "m = others2 ((others1 st)\<lparr>st_login_security := ls\<rparr>)" by (simp add: m_def login_moment_def b)
  let ?agent = "header_str (au_http lib) headers ''user-agent''"
  let ?pv = "(valid_password_length (rq_password body) \<and> ae_verify env (sn_password_hash sn) (rq_password body)) \<and> sn_principal sn \<noteq> None"
  show thesis
  proof (cases "b = Inr False")
    case False
    then show thesis using assms(1) b
      by (intro early [of ls]) (auto simp: authenticate_account_def Let_def split: sum.splits bool.splits)
  next
    case True
    have run: "authenticate_account env lib io others1 others2 ip headers body kind st =
        (if requires_second_factor_challenge (kind = AdministratorLogin) ?pv (map_option sf_secret (sn_second_factor sn)) (supplied_factor body)
         then Some (Answer 200 \<lparr>rs_success = False, rs_message = ''Enter the one-time code or a recovery code'',
                                       rs_is_admin = True, rs_totp_required = True\<rparr> None [], m)
         else case (if ?pv then factor_proof env lib io sn body else Some None) of
                None \<Rightarrow> None
              | Some proof \<Rightarrow>
                  (case (if ?pv \<and> (sn_second_factor sn = None \<or> proof \<noteq> None) then sn_principal sn else None) of
                     None \<Rightarrow> Some (failed_login_response lib (li_recorded io) (kind_entry kind) ip ?agent (sn_policy sn) m)
                   | Some who \<Rightarrow> conclude_login env lib io kind ip ?agent sn proof who m))"
    proof -
      have fp: "(case sn_second_factor sn of
                   Some factor \<Rightarrow>
                     if ?pv
                     then verify_admin_second_factor_proof (au_sign lib) (ae_verify env) (li_verify_now io)
                            (sf_secret factor) (sf_recovery_hashes factor) (case supplied_factor body of Some v \<Rightarrow> v | None \<Rightarrow> [])
                     else Some None
                 | None \<Rightarrow> Some None) = (if ?pv then factor_proof env lib io sn body else Some None)"
        by (cases "sn_second_factor sn") (auto simp: factor_proof_def)
      show ?thesis
        unfolding authenticate_account_def Let_def b prod.case True sum.case bool.case fp [symmetric] m
        unfolding sn_def request_name_def supplied_factor_def by (rule refl)
    qed
    show thesis
    proof (cases "requires_second_factor_challenge (kind = AdministratorLogin) ?pv (map_option sf_secret (sn_second_factor sn)) (supplied_factor body)")
      case True
      then show thesis using assms(1) by (intro refused) (auto simp: run answered_success_def)
    next
      case nochallenge: False
      show thesis
      proof (cases "?pv \<and> (\<exists>pf. factor_proof env lib io sn body = Some pf \<and> (sn_second_factor sn = None \<or> pf \<noteq> None))")
        case True
        then obtain pf who where pf: "factor_proof env lib io sn body = Some pf" "sn_second_factor sn = None \<or> pf \<noteq> None"
          "sn_principal sn = Some who" by blast
        have "conclude_login env lib io kind ip ?agent sn pf who m = Some (r, st')"
          using assms(1) nochallenge True pf by (simp add: run)
        moreover have "supplied_factor body \<noteq> None" if "kind = AdministratorLogin" "sn_second_factor sn \<noteq> None"
          using nochallenge True that by (auto simp: requires_second_factor_challenge_def)
        ultimately show thesis using concluded [OF pf(3) _ _ pf(1,2)] True b \<open>b = Inr False\<close> by simp
      next
        case False
        then have "failed_login_response lib (li_recorded io) (kind_entry kind) ip ?agent (sn_policy sn) m = (r, st')"
          using assms(1) nochallenge by (auto simp: run split: if_splits option.splits)
        from failed_login_D [OF this] show thesis by (intro refused) auto
      qed
    qed
  qed
qed

lemma verified_factor:
  assumes "verify_admin_second_factor_proof sign verify now secret hashes supplied = Some (Some pf)"
  shows "case pf of TotpCounter counter \<Rightarrow> verify_now_counter sign secret supplied now = Some (Some counter)
    | RecoveryHash h \<Rightarrow> verify h (normalize_recovery_code supplied)"
  using assms
  by (auto simp: verify_admin_second_factor_proof_def Let_def find_Some_iff split: option.splits if_splits)

lemma supplied_factor_SomeD: "supplied_factor body = Some v \<Longrightarrow> \<exists>code. rq_totp_code body = Some code \<and> v = trim code"
  by (auto simp: supplied_factor_def non_empty_def bind_eq_Some_conv split: if_splits)

lemma issued_session:
  "create_for ss who token now = Some store \<Longrightarrow> al_get (sessions store) token = Some \<lparr>created_at = now, principal = who\<rparr>"
  by (auto simp: create_for_def Let_def)

section \<open>Properties\<close>

text \<open>
  C17: a login gets a session only for credentials that are in force at that moment. Whatever other
  requests do while a login waits and its passwords are verified: when it succeeds, the
  configuration at the moment the session is issued has an enabled account (or the administrator)
  with the requested name and a password hash that the given password matches, and the new session
  belongs to it. If the administrator's second factor is enabled then, the code in the request is,
  without the blanks around it, the one-time code of a step that was not used before, or a recovery
  code which the configuration held until then and which it no longer holds.
\<close>

theorem login_needs_current_credentials:
  assumes run: "authenticate_account env lib io others1 others2 ip headers body kind st = Some (r, st')" "answered_success r"
  defines "m \<equiv> login_moment io others1 others2 kind ip st"
  shows "\<exists>who. al_get (sessions (st_sessions st')) (li_token io) = Some \<lparr>created_at = li_session_now io, principal = who\<rparr>
    \<and> (case kind of
         UserLogin \<Rightarrow>
           \<exists>a \<in> set (user_accounts (st_config_file m)). who = User (ua_id a) \<and> ua_enabled a \<and> ua_username a = request_name body
             \<and> ae_verify env (ua_password_hash a) (rq_password body)
       | AdministratorLogin \<Rightarrow>
           who = Administrator \<and> cf_admin_username (st_config_file m) = request_name body
           \<and> ae_verify env (cf_admin_password_hash (st_config_file m)) (rq_password body)
           \<and> (case cf_admin_totp_secret (st_config_file m) of
                None \<Rightarrow> True
              | Some secret \<Rightarrow>
                  \<exists>code. rq_totp_code body = Some code
                    \<and> ((\<exists>counter. verify_now_counter (au_sign lib) secret (trim code) (li_verify_now io) = Some (Some counter)
                          \<and> fst (consume (li_consume_now io) counter (st_totp_replay m)))
                       \<or> (\<exists>h. ae_verify env h (normalize_recovery_code (trim code))
                            \<and> remove_first (\<lambda>x. x = h) (cf_admin_recovery_code_hashes (st_config_file m))
                              = Some (cf_admin_recovery_code_hashes (st_config_file st'))))))"
  using run(1)
proof (cases rule: authenticate_cases)
  case (concluded agent pf who)
  let ?sn = "capture (st_config_file st) (request_name body) kind"
  from concluded(6) show ?thesis
  proof (cases rule: conclude_login_cases)
    case (issued st1 store)
    have session: "al_get (sessions (st_sessions st')) (li_token io) = Some \<lparr>created_at = li_session_now io, principal = who\<rparr>"
      using issued_session [OF issued(5)] arg_cong [OF issued(6), of st_sessions] by simp
    have hashes: "cf_admin_recovery_code_hashes (st_config_file st') = cf_admin_recovery_code_hashes (st_config_file st1)"
      using arg_cong [OF issued(6), of st_config_file] by simp
    have current: "is_current ?sn (st_config_file m) pf" using issued(2) by (simp add: m_def)
    show ?thesis
    proof (cases kind)
      case UserLogin
      then obtain uid where "who = User uid" using concluded(1) by (auto simp: capture_def Let_def bind_eq_Some_conv split: if_splits)
      then show ?thesis
        using current concluded(1,3) session UserLogin
        by (auto simp: is_current_def list_ex_iff capture_def Let_def)
    next
      case AdministratorLogin
      have who: "who = Administrator" "request_name body = cf_admin_username (st_config_file st)"
        using concluded(1) AdministratorLogin by (auto simp: capture_def split: if_splits)
      have c: "cf_admin_username (st_config_file m) = request_name body"
        "ae_verify env (cf_admin_password_hash (st_config_file m)) (rq_password body)"
        "cf_admin_totp_secret (st_config_file m) = cf_admin_totp_secret (st_config_file st)"
        using current concluded(3) who AdministratorLogin
        by (auto simp: is_current_def capture_def map_option.compositionality comp_def option.map_ident)
      have factor: "\<exists>code. rq_totp_code body = Some code
                    \<and> ((\<exists>counter. verify_now_counter (au_sign lib) secret (trim code) (li_verify_now io) = Some (Some counter)
                          \<and> fst (consume (li_consume_now io) counter (st_totp_replay m)))
                       \<or> (\<exists>h. ae_verify env h (normalize_recovery_code (trim code))
                            \<and> remove_first (\<lambda>x. x = h) (cf_admin_recovery_code_hashes (st_config_file m))
                              = Some (cf_admin_recovery_code_hashes (st_config_file st'))))"
        if s: "cf_admin_totp_secret (st_config_file m) = Some secret" for secret
      proof -
        have sf: "sn_second_factor ?sn = Some \<lparr>sf_secret = secret, sf_recovery_hashes = cf_admin_recovery_code_hashes (st_config_file st)\<rparr>"
          using s c(3) AdministratorLogin by (simp add: capture_def)
        then obtain p where p: "pf = Some p" using concluded(5) by auto
        obtain code where code: "rq_totp_code body = Some code" "supplied_factor body = Some (trim code)"
          using concluded(8) [OF AdministratorLogin] sf supplied_factor_SomeD [of body] by auto
        have v: "case p of TotpCounter counter \<Rightarrow> verify_now_counter (au_sign lib) secret (trim code) (li_verify_now io) = Some (Some counter)
            | RecoveryHash h \<Rightarrow> ae_verify env h (normalize_recovery_code (trim code))"
          using concluded(4) by (intro verified_factor [where hashes = "cf_admin_recovery_code_hashes (st_config_file st)"])
            (simp add: factor_proof_def sf p code(2))
        from issued(3) show ?thesis
          by (cases rule: consume_proof_cases) (use v p hashes code(1) in \<open>auto simp: m_def\<close>)
      qed
      show ?thesis using session who(1) c(1,2) factor AdministratorLogin by (auto split: option.split)
    qed
  qed (use run(2) in simp)
qed (use run(2) in simp_all)

text \<open>
  A login that does not succeed issues nothing, and a blocked address gets nowhere. Unless a
  login answers with success, the sessions are those the other requests left, and while its
  address is blocked at that entry it is answered with status 429 and without a session, whatever
  it presents.
\<close>

lemma refused_login_issues_nothing:
  assumes run: "authenticate_account env lib io others1 others2 ip headers body kind st = Some (r, st')"
  shows "(answered_success r \<or> st_sessions st' = st_sessions (others1 st)
          \<or> st_sessions st' = st_sessions (login_moment io others1 others2 kind ip st))
    \<and> (fst (is_blocked (li_blocked io) (st_login_security (others1 st)) (kind_entry kind) ip) = Inr True \<longrightarrow>
         (\<exists>body' after. r = Answer 429 body' (Some after) [] \<and> \<not> rs_success body') \<and> st_sessions st' = st_sessions (others1 st))"
proof
  from run show "answered_success r \<or> st_sessions st' = st_sessions (others1 st)
      \<or> st_sessions st' = st_sessions (login_moment io others1 others2 kind ip st)"
  proof (cases rule: authenticate_cases)
    case (concluded agent pf who)
    from concluded(6) show ?thesis by (cases rule: conclude_login_cases) auto
  qed auto
  show "fst (is_blocked (li_blocked io) (st_login_security (others1 st)) (kind_entry kind) ip) = Inr True \<longrightarrow>
      (\<exists>body' after. r = Answer 429 body' (Some after) [] \<and> \<not> rs_success body') \<and> st_sessions st' = st_sessions (others1 st)"
    using run by (auto simp: authenticate_account_def Let_def limited_login_response_def failed_answer_def split: prod.splits)
qed

text \<open>
  C40: the rate limiter admits at most twice its limit in any interval as long as its window. Under
  any sequence of requests, whichever instant the interval starts at, at most twice the configured
  number of requests of one address is admitted in it (two, where the limit is zero), because the
  end of one window and the start of the next may fall into it; at most the configured number (one,
  where it is zero) is admitted in it when the address sent nothing for the length of a window
  before. The table never holds more than its ten thousand addresses.
\<close>

theorem rate_limit_bounds:
  assumes "sorted (map fst rs)"
  shows "granted_within k t (nanoseconds (int window_secs)) (fst (rate_run (rate_limiter_new max_requests window_secs) rs))
      \<le> 2 * max 1 max_requests
    \<and> ((\<forall>(now, key) \<in> set rs. key = k \<and> now < t \<longrightarrow> now + nanoseconds (int window_secs) \<le> t) \<longrightarrow>
        granted_within k t (nanoseconds (int window_secs)) (fst (rate_run (rate_limiter_new max_requests window_secs) rs))
        \<le> max 1 max_requests)
    \<and> length (rl_entries (snd (rate_run (rate_limiter_new max_requests window_secs) rs))) \<le> 10000"
proof (intro conjI impI)
  let ?rl = "rate_limiter_new max_requests window_secs" and ?w = "nanoseconds (int window_secs)"
  have ok: "rate_ok ?rl" by (simp add: rate_ok_def rate_limiter_new_def)
  show "length (rl_entries (snd (rate_run ?rl rs))) \<le> 10000"
    using rate_run_ok [OF ok, of rs] by (simp add: rate_ok_def MAX_RATE_LIMIT_KEYS_def)
  define pre post where "pre = takeWhile (\<lambda>r. fst r < t) rs" and "post = dropWhile (\<lambda>r. fst r < t) rs"
  have rs: "rs = pre @ post" by (simp add: pre_def post_def)
  have sorted: "sorted (map fst post)" using assms by (simp add: rs sorted_append)
  have late: "\<forall>r \<in> set post. t \<le> fst r"
  proof (cases post)
    case (Cons r ps)
    then have "t \<le> fst r" using hd_dropWhile [of "\<lambda>r. fst r < t" rs] by (simp add: post_def)
    then show ?thesis using sorted Cons by (auto intro: order_trans)
  qed simp
  have "granted_within k t ?w (fst (rate_run ?rl pre)) = 0"
    by (rule granted_within_early) (auto simp: pre_def dest: set_takeWhileD)
  then have all: "granted_within k t ?w (fst (rate_run ?rl rs)) = granted_within k t ?w (fst (rate_run (snd (rate_run ?rl pre)) post))"
    by (simp add: rs rate_run_append granted_within_def)
  let ?mid = "snd (rate_run ?rl pre)"
  have mid: "rate_ok ?mid" "rl_window ?mid = ?w" "rl_max_requests ?mid = max_requests"
    using rate_run_ok [OF ok, of pre] by (simp_all add: rate_limiter_new_def)
  have left: "granted_within k t ?w (fst (rate_run ?rl rs)) \<le> rate_left ?w (max 1 max_requests) t (al_get (rl_entries ?mid) k)"
    unfolding all using rate_run_bound [OF mid(1) sorted late] mid(2,3) by (simp add: nanoseconds_def)
  also have "\<dots> \<le> 2 * max 1 max_requests" by (auto simp: rate_left_def split: option.split)
  finally show "granted_within k t ?w (fst (rate_run ?rl rs)) \<le> 2 * max 1 max_requests" .
  assume quiet: "\<forall>(now, key) \<in> set rs. key = k \<and> now < t \<longrightarrow> now + ?w \<le> t"
  have "s + ?w \<le> t" if "al_get (rl_entries ?mid) k = Some (c, s)" for c s
  proof -
    have "(s, k) \<in> set pre" using rate_entry_start [OF ok that] by (auto simp: rate_limiter_new_def al_get_def)
    then have "(s, k) \<in> set rs" "s < t" unfolding pre_def using set_takeWhileD by fastforce+
    then show ?thesis using quiet by auto
  qed
  then have "rate_left ?w (max 1 max_requests) t (al_get (rl_entries ?mid) k) \<le> max 1 max_requests"
    by (auto simp: rate_left_def split: option.split)
  with left show "granted_within k t ?w (fst (rate_run ?rl rs)) \<le> max 1 max_requests" by linarith
qed

section \<open>Witnesses\<close>

definition sample_auth_lib :: auth_lib where
  "sample_auth_lib = \<lparr>au_http = \<lparr>header_value_ok = (\<lambda>_. True), header_text_ok = (\<lambda>_. True), parse_http_date = (\<lambda>_. None),
     format_http_date = (\<lambda>_. None)\<rparr>, au_sign = sample_sign, au_encode = (\<lambda>_. ''{event}'')\<rparr>"

definition sample_login_io :: login_io where
  "sample_login_io = \<lparr>li_blocked = good_io 0, li_verify_now = 0, li_consume_now = 0, li_update = sample_update, li_recorded = good_io 0,
     li_token = ''n'', li_session_now = 1\<rparr>"

definition sample_request :: login_request where
  "sample_request = \<lparr>rq_username = Some ''ann'', rq_password = ''h'', rq_totp_code = None\<rparr>"

definition sample_login_with ::
  "session_store \<Rightarrow> (nat app_state \<Rightarrow> nat app_state) \<Rightarrow> (nat app_state \<Rightarrow> nat app_state) \<Rightarrow> (auth_response \<times> nat app_state) option" where
  "sample_login_with ss others1 others2 = authenticate_account sample_env sample_auth_lib sample_login_io others1 others2 ''127.0.0.1''
     (\<lambda>_. []) sample_request UserLogin (sample_state\<lparr>st_sessions := ss\<rparr>)"

definition sample_login :: "(auth_response \<times> nat app_state) option" where
  "sample_login = sample_login_with (st_sessions sample_state) id id"

definition sample_snapshot :: account_login_snapshot where
  "sample_snapshot = \<lparr>sn_username = ''ann'', sn_password_hash = ''h'', sn_principal = Some (User ''a1''), sn_second_factor = None,
     sn_policy = fixed_policy Account\<rparr>"

lemma sample_captured: "capture sample_config ''ann'' UserLogin = sample_snapshot"
  by (simp add: capture_def sample_snapshot_def sample_accounts_def)

lemma sample_is_current: "is_current sample_snapshot sample_config None"
  by (simp add: is_current_def sample_snapshot_def sample_accounts_def)

lemma sample_recorded: "fst (record_success enc (good_io 0) empty_login_security Account ip agent) = Inr ()"
  by (simp add: record_success_def commit_record_def ensure_capacity_def get_or_insert_def empty_login_security_def good_io_def
      find_record_def is_record_def new_record_def MAX_RESTRICTIONS_def)

lemma sample_issued:
  assumes "create_for ss (User ''a1'') ''n'' 1 = Some store"
  shows "\<exists>r st'. issue_session sample_env sample_auth_lib sample_login_io UserLogin ''127.0.0.1'' agent (User ''a1'')
        (sample_state\<lparr>st_sessions := ss\<rparr>) = Some (r, st') \<and> answered_success r \<and> st_sessions st' = store"
proof -
  have io: "li_recorded sample_login_io = good_io 0" "st_login_security sample_state = empty_login_security"
    "li_token sample_login_io = ''n''" "li_session_now sample_login_io = 1"
    by (simp_all add: sample_login_io_def sample_state_def)
  show ?thesis
    using sample_recorded [of "au_encode sample_auth_lib" "''127.0.0.1''" agent] assms
    by (auto simp: issue_session_def io create_user_def answered_success_def json_with_cookie_def split: prod.split sum.split)
qed

lemma sample_login_with_succeeds:
  assumes "create_for ss (User ''a1'') ''n'' 1 = Some store"
    "others1 (sample_state\<lparr>st_sessions := ss\<rparr>) = sample_state\<lparr>st_sessions := ss\<rparr>"
    "others2 (sample_state\<lparr>st_sessions := ss\<rparr>) = sample_state\<lparr>st_sessions := ss\<rparr>"
  shows "\<exists>r st'. sample_login_with ss others1 others2 = Some (r, st') \<and> answered_success r \<and> st_sessions st' = store"
proof -
  let ?st = "sample_state\<lparr>st_sessions := ss\<rparr>"
  have b: "is_blocked (li_blocked sample_login_io) (st_login_security sample_state) Account ''127.0.0.1'' = (Inr False, st_login_security sample_state)"
    by (simp add: is_blocked_def find_record_def sample_state_def empty_login_security_def)
  have v: "valid_password_length ''h''" by code_simp
  have st: "?st\<lparr>st_login_security := st_login_security sample_state\<rparr> = ?st" by simp
  have c: "st_config_file sample_state = sample_config" "ae_verify sample_env = (=)" by (simp_all add: sample_state_def sample_env_def)
  have f: "rq_username sample_request = Some ''ann''" "rq_password sample_request = ''h''" "sn_password_hash sample_snapshot = ''h''"
    "sn_principal sample_snapshot = Some (User ''a1'')" "sn_second_factor sample_snapshot = None"
    by (simp_all add: sample_request_def sample_snapshot_def)
  show ?thesis
    using sample_issued [OF assms(1)] assms(2,3)
    by (simp add: sample_login_with_def authenticate_account_def Let_def c f sample_captured b v st conclude_login_def sample_is_current
        consume_proof_def requires_second_factor_challenge_def del: list.inject char.inject)
qed

lemma sample_login_succeeds: "\<exists>r st'. sample_login = Some (r, st') \<and> answered_success r"
proof -
  have "create_for (st_sessions sample_state) (User ''a1'') ''n'' 1 \<noteq> None"
    by (simp add: sample_state_def create_for_def al_retain_def evict_while_not_over)
  then show ?thesis using sample_login_with_succeeds [of "st_sessions sample_state" _ id id] by (auto simp: sample_login_def)
qed

theorem login_needs_current_credentials_witness:
  "\<exists>r st'. sample_login = Some (r, st') \<and> answered_success r
     \<and> (\<exists>who. al_get (sessions (st_sessions st')) ''n'' = Some \<lparr>created_at = 1, principal = who\<rparr>)"
proof -
  obtain r st' where s: "sample_login = Some (r, st')" "answered_success r" using sample_login_succeeds by blast
  have "li_token sample_login_io = ''n''" "li_session_now sample_login_io = 1" by (simp_all add: sample_login_io_def)
  with login_needs_current_credentials [OF s(1) [unfolded sample_login_def sample_login_with_def] s(2)] s show ?thesis by metis
qed

lemma refused_login_issues_nothing_witness:
  "\<exists>r st'. sample_login = Some (r, st') \<and> (answered_success r \<or> st_sessions st' = st_sessions sample_state)"
proof -
  obtain r st' where s: "sample_login = Some (r, st')" "answered_success r" using sample_login_succeeds by blast
  from refused_login_issues_nothing [OF s(1) [unfolded sample_login_def sample_login_with_def]] s show ?thesis by auto
qed

theorem rate_limit_bounds_witness:
  "sorted (map fst [(0 :: int, ''a''), (1, ''a''), (2, ''a'')])
   \<and> granted_within ''a'' 0 (nanoseconds (int 60)) (fst (rate_run (rate_limiter_new 1 60) [(0, ''a''), (1, ''a''), (2, ''a'')])) \<le> 1"
proof -
  have s: "sorted (map fst [(0 :: int, ''a''), (1, ''a''), (2, ''a'')])" by simp
  show ?thesis using rate_limit_bounds [OF s, of "''a''" 0 60 1] s by (simp del: rate_run.simps)
qed

end
