(* ===== verification/SessionGuarantees.thy ===== *)
theory SessionGuarantees
  imports Authentication
begin

text \<open>
  The server as one transition system: administrative requests, logins that wait for other
  requests, the site password, the second factor of the administrator, logouts, lookups and the
  periodic cleanup, in any order. Every reachable state is consistent across components: the
  configuration is the saved one, the session store is within its limits, and every session of an
  account belongs to an account that exists and is enabled.
\<close>

section \<open>Steps\<close>

text \<open>
  \<open>sys_steps a b\<close>: the server gets from \<open>a\<close> to \<open>b\<close>. A login that starts in one state meets
  its turn and the lock on credentials in later states.
\<close>

inductive sys_steps :: "'ip :: linorder app_env \<Rightarrow> auth_lib \<Rightarrow> 'ip app_state \<Rightarrow> 'ip app_state \<Rightarrow> bool" for env lib where
  none: "sys_steps env lib a a"
| admin: "sys_steps env lib a st \<Longrightarrow> admin_step env st st' \<Longrightarrow> sys_steps env lib a st'"
| login: "sys_steps env lib a st \<Longrightarrow> sys_steps env lib st st1 \<Longrightarrow>
    sys_steps env lib (st1\<lparr>st_login_security := snd (is_blocked (li_blocked io) (st_login_security st1) (kind_entry kind) ip)\<rparr>) st2 \<Longrightarrow>
    update_names env (li_update io) \<Longrightarrow>
    authenticate_account env lib io (\<lambda>_. st1) (\<lambda>_. st2) ip headers body kind st = Some (r, st') \<Longrightarrow> sys_steps env lib a st'"
| gate: "sys_steps env lib a st \<Longrightarrow> sys_steps env lib st st1 \<Longrightarrow>
    sys_steps env lib (st1\<lparr>st_login_security := ls\<rparr>) st2 \<Longrightarrow>
    gate_handler env lib io (\<lambda>_. st1) (\<lambda>_. st2) client headers body st = Some (r, st') \<Longrightarrow> sys_steps env lib a st'"
| enable_totp: "sys_steps env lib a st \<Longrightarrow> update_names env up \<Longrightarrow>
    enable_admin_totp env lib hash random now up password secret supplied st = Some (q, st') \<Longrightarrow> sys_steps env lib a st'"
| disable_totp: "sys_steps env lib a st \<Longrightarrow> update_names env up \<Longrightarrow>
    disable_admin_totp env lib now consume_now up password supplied st = Some (u, st') \<Longrightarrow> sys_steps env lib a st'"
| logout: "sys_steps env lib a st \<Longrightarrow> sys_steps env lib a (snd (logout_handler env lib headers st))"
| attribute: "sys_steps env lib a st \<Longrightarrow> sys_steps env lib a (snd (current_request_subject lib now headers st))"
| me: "sys_steps env lib a st \<Longrightarrow> sys_steps env lib a (snd (me_handler lib now headers st))"
| cleanup: "sys_steps env lib a st \<Longrightarrow> sys_steps env lib a
    (st\<lparr>st_sessions := cleanup_sessions (st_sessions st) now, st_gate_access := cleanup_accesses (st_gate_access st) now,
        st_folder_access := cleanup_accesses (st_folder_access st) now\<rparr>)"

section \<open>The invariant\<close>

definition sessions_backed :: "'ip app_state \<Rightarrow> bool" where
  "sessions_backed st \<longleftrightarrow>
     (\<forall>(token, s) \<in> set (sessions (st_sessions st)). \<forall>uid. principal s = User uid \<longrightarrow>
        (\<exists>a. account_of st uid = Some a \<and> ua_enabled a))"

definition sys_inv :: "'ip :: linorder app_env \<Rightarrow> 'ip app_state \<Rightarrow> bool" where
  "sys_inv env st \<longleftrightarrow> published env st \<and> session_store_inv (st_sessions st) \<and> sessions_backed st"

text \<open>A step that keeps the accounts and adds no session keeps the sessions backed.\<close>

lemma sessions_backed_fewer:
  assumes "sessions_backed st" "set (sessions (st_sessions st')) \<subseteq> set (sessions (st_sessions st))"
    "user_accounts (st_config_file st') = user_accounts (st_config_file st)"
  shows "sessions_backed st'"
  using assms unfolding sessions_backed_def account_of_def by (simp, blast)

lemma sessions_backed_admin:
  assumes "sessions_backed st" "set (sessions (st_sessions st')) \<subseteq> set (sessions (st_sessions st))"
    "ends_changed_access st st'"
  shows "sessions_backed st'"
  unfolding sessions_backed_def
proof (clarify, goal_cases)
  case (1 token s uid)
  then have "(token, s) \<in> set (sessions (st_sessions st))" using assms(2) by blast
  then obtain a where a: "account_of st uid = Some a" "ua_enabled a"
    using assms(1) 1(2) unfolding sessions_backed_def by blast
  have "account_of st' uid = Some a"
    using assms(3) a(1) 1 unfolding ends_changed_access_def by blast
  then show ?case using a(2) by blast
qed

lemma retain_subset: "set (sessions (revoke_user ss uid)) \<subseteq> set (sessions ss)"
  "set (sessions (revoke_administrator ss)) \<subseteq> set (sessions ss)"
  "session_store_inv ss \<Longrightarrow> session_store_inv (revoke_user ss uid)"
  "session_store_inv ss \<Longrightarrow> session_store_inv (revoke_administrator ss)"
  by (auto simp: revoke_user_def revoke_administrator_def session_store_inv_retain)

lemma update_config_sessions_D: "update_config env io edit st = (r, st') \<Longrightarrow> st_sessions st' = st_sessions st"
  by (erule update_config_cases) simp_all

lemma update_config_sessions: "st_sessions (snd (update_config env io edit st)) = st_sessions st"
  by (cases "update_config env io edit st") (simp add: update_config_sessions_D)

text \<open>An administrative step only revokes sessions.\<close>

definition fewer_sessions :: "'ip app_state \<Rightarrow> 'ip app_state \<Rightarrow> bool" where
  "fewer_sessions st st' \<longleftrightarrow> set (sessions (st_sessions st')) \<subseteq> set (sessions (st_sessions st))
     \<and> (session_store_inv (st_sessions st) \<longrightarrow> session_store_inv (st_sessions st'))"

lemma fewer_sessions_same: "st_sessions st' = st_sessions st \<Longrightarrow> fewer_sessions st st'"
  by (simp add: fewer_sessions_def)

lemma fewer_sessions_revoked:
  "st_sessions st' = revoke_user (st_sessions st) uid \<Longrightarrow> fewer_sessions st st'"
  "st_sessions st' = revoke_administrator (st_sessions st) \<Longrightarrow> fewer_sessions st st'"
  using retain_subset by (auto simp: fewer_sessions_def)

lemma update_admin_sessions:
  "st_sessions (snd (update_admin_account env hash io credentials_file removes synced body st))
    \<in> {st_sessions st, revoke_administrator (st_sessions st)}"
  by (auto simp: update_admin_account_def Let_def split: sum.split prod.split dest: update_config_sessions_D)

lemma admin_step_sessions: "admin_step env st st' \<Longrightarrow> fewer_sessions st st'"
proof (induction rule: admin_step.induct)
  case (update_admin io credentials_file st hash removes synced admin)
  show ?case
    using update_admin_sessions [of env hash io credentials_file removes synced admin st] fewer_sessions_same fewer_sessions_revoked(2)
    by blast
next
  case (update_user io st hash uid body')
  show ?case
    by (auto simp: update_user_account_def split: sum.split prod.split dest!: update_config_sessions_D intro: fewer_sessions_same fewer_sessions_revoked)
next
  case (delete_user io st uid)
  show ?case
    by (auto simp: delete_user_account_def split: sum.split prod.split dest!: update_config_sessions_D intro: fewer_sessions_same fewer_sessions_revoked)
next
  case (update_lock io st hash lid lock')
  show ?case by (auto simp: update_lock_def split: sum.split prod.split dest!: update_config_sessions_D intro: fewer_sessions_same)
next
  case (delete_lock io st lid)
  show ?case by (auto simp: delete_lock_def split: sum.split prod.split dest!: update_config_sessions_D intro: fewer_sessions_same)
qed (auto simp: create_user_account_def create_share_def update_share_def delete_share_def create_lock_def update_transfer_limits_def
    update_login_security_settings_def retention_task_def block_login_def unblock_login_def update_config_sessions Let_def
    split: sum.split prod.split option.split intro: fewer_sessions_same)

lemma sys_inv_fewer:
  assumes "sys_inv env st" "published env st'" "fewer_sessions st st'"
    "user_accounts (st_config_file st') = user_accounts (st_config_file st)"
  shows "sys_inv env st'"
  using assms sessions_backed_fewer [OF _ _ assms(4)] by (auto simp: sys_inv_def fewer_sessions_def)

lemma sys_inv_admin: "sys_inv env st \<Longrightarrow> admin_step env st st' \<Longrightarrow> sys_inv env st'"
  using admin_step_published [of env st st'] admin_step_sessions [of env st st'] admin_step_ends [of env st st']
    sessions_backed_admin [of st st']
  by (simp add: sys_inv_def fewer_sessions_def)

lemma sys_inv_other [simp]:
  "sys_inv env (st\<lparr>st_login_security := ls\<rparr>) = sys_inv env st"
  "sys_inv env (st\<lparr>st_gate_access := ga\<rparr>) = sys_inv env st"
  "sys_inv env (st\<lparr>st_folder_access := fa\<rparr>) = sys_inv env st"
  "sys_inv env (st\<lparr>st_totp_replay := tr\<rparr>) = sys_inv env st"
  "sys_inv env (st\<lparr>st_login_security := ls, st_gate_access := ga\<rparr>) = sys_inv env st"
  "sys_inv env (st\<lparr>st_login_security := ls, st_sessions := ss\<rparr>) = sys_inv env (st\<lparr>st_sessions := ss\<rparr>)"
  by (simp_all add: sys_inv_def sessions_backed_def account_of_def published_def)

section \<open>Logins\<close>

text \<open>The evidence of a login is used up without touching accounts or sessions.\<close>

lemma sys_inv_update:
  assumes "sys_inv env st" "update_names env io" "update_config env io edit st = (r, st')"
    "\<And>a c. edit (st_config_file st) = Inr (a, c) \<Longrightarrow> user_accounts c = user_accounts (st_config_file st)"
  shows "sys_inv env st'" "user_accounts (st_config_file st') = user_accounts (st_config_file st)"
proof -
  from assms(3) show accounts: "user_accounts (st_config_file st') = user_accounts (st_config_file st)"
    by (cases rule: update_config_stores) (use assms(4) in auto)
  show "sys_inv env st'"
    by (rule sys_inv_fewer [OF assms(1) _ _ accounts])
       (use assms(1) update_config_published [OF _ assms(2,3)] update_config_sessions_D [OF assms(3)]
         in \<open>auto simp: sys_inv_def fewer_sessions_same\<close>)
qed

lemma consume_proof_inv:
  assumes "sys_inv env st" "update_names env (li_update io)" "consume_proof env io proof st = (r, st')"
  shows "sys_inv env st' \<and> user_accounts (st_config_file st') = user_accounts (st_config_file st)
    \<and> st_sessions st' = st_sessions st"
proof (cases "\<exists>used. proof = Some (RecoveryHash used)")
  case True
  then obtain used where p: "proof = Some (RecoveryHash used)" by blast
  let ?edit = "\<lambda>c. rbind (ok_or (remove_first (\<lambda>h. h = used) (cf_admin_recovery_code_hashes c)) Forbidden) (\<lambda>hashes.
                    Inr ((), c\<lparr>cf_admin_recovery_code_hashes := hashes\<rparr>))"
  obtain q where u: "update_config env (li_update io) ?edit st = (q, st')"
    using assms(3) by (auto simp: consume_proof_def p split: prod.splits sum.splits)
  have "sys_inv env st'" "user_accounts (st_config_file st') = user_accounts (st_config_file st)"
    by (rule sys_inv_update [OF assms(1,2) u]; auto simp: rbind_Inr_iff)+
  then show ?thesis using update_config_sessions_D [OF u] by simp
next
  case False
  then have "st' = st \<or> (\<exists>x. st' = st\<lparr>st_totp_replay := x\<rparr>)"
    using assms(3) by (auto simp: consume_proof_def split: option.splits second_factor_proof.splits prod.splits)
  then show ?thesis using assms(1) by auto
qed

lemma account_of_current:
  assumes "published env st" "a \<in> set (user_accounts (st_config_file st))"
  shows "account_of st (ua_id a) = Some a"
proof -
  from assms(1) have "validate (ae_check env) (st_config_file st) = Inr ()" by (simp add: published_def)
  then obtain seen :: storage_sets where "validate_accounts (ae_check env) (seen_ids seen) (user_accounts (st_config_file st)) []
      [unicode_lower (ae_check env) (trim (cf_admin_username (st_config_file st)))] = Inr ()"
    by (rule validated) blast
  from validate_accounts_ok [OF this] have d: "distinct (map ua_id (user_accounts (st_config_file st)))" by simp
  have "distinct (map ua_id xs) \<Longrightarrow> a \<in> set xs \<Longrightarrow> List.find (\<lambda>b. ua_id b = ua_id a) xs = Some a" for xs
    by (induction xs) auto
  from this [OF d assms(2)] show ?thesis by (simp add: account_of_def)
qed

lemma created_sessions:
  assumes "session_store_inv ss" "create_for ss who token now = Some store"
  shows "set (sessions store) \<subseteq> insert (token, \<lparr>created_at = now, principal = who\<rparr>) (set (sessions ss))" "session_store_inv store"
proof -
  obtain room where "store = ss\<lparr>sessions := al_insert token \<lparr>created_at = now, principal = who\<rparr> room\<rparr>"
    "evicts_oldest created_at (\<lambda>_. True)
      (al_retain (\<lambda>_ s. now - created_at s \<le> SESSION_TTL \<and> principal s \<noteq> who) (sessions ss)) room"
    using create_for_total [OF assms(1), of who token now] assms(2) by auto
  then show "set (sessions store) \<subseteq> insert (token, \<lparr>created_at = now, principal = who\<rparr>) (set (sessions ss))"
    by (auto simp: evicts_oldest_def)
  show "session_store_inv store" by (rule create_for_inv [OF assms])
qed

lemma conclude_login_inv:
  assumes "sys_inv env st" "update_names env (li_update io)"
    "conclude_login env lib io kind ip agent sn proof who st = Some (r, st')" "sn_principal sn = Some who"
  shows "sys_inv env st'"
proof (cases "is_current sn (st_config_file st) proof")
  case False
  then have "failed_login_response lib (li_recorded io) (kind_entry kind) ip agent (sn_policy sn) st = (r, st')"
    using assms(3) by (simp add: conclude_login_def)
  from failed_login_D [OF this] assms(1) show ?thesis by (metis sys_inv_other(1))
next
  case True
  obtain q st1 where q: "consume_proof env io proof st = (q, st1)" by force
  note k = consume_proof_inv [OF assms(1,2) q]
  have backed: "uid = uid' \<Longrightarrow> who = User uid \<Longrightarrow> \<exists>a. account_of st1 uid' = Some a \<and> ua_enabled a" for uid uid'
  proof -
    assume w: "uid = uid'" "who = User uid"
    then obtain a where a: "a \<in> set (user_accounts (st_config_file st))" "ua_id a = uid" "ua_enabled a"
      using True assms(4) by (auto simp: is_current_def list_ex_iff)
    have "account_of st (ua_id a) = Some a" using account_of_current a(1) assms(1) unfolding sys_inv_def by blast
    then show ?thesis using a k w by (simp add: account_of_def)
  qed
  consider (failed) "q = Inl None" | (error) e where "q = Inl (Some e)" | (fine) "q = Inr ()" by (cases q) auto
  then show ?thesis
  proof cases
    case failed
    then have "failed_login_response lib (li_recorded io) (kind_entry kind) ip agent (sn_policy sn) st1 = (r, st')"
      using assms(3) True q by (simp add: conclude_login_def)
    from failed_login_D [OF this] k show ?thesis by (metis sys_inv_other(1))
  next
    case error
    then show ?thesis using assms(3) True q k by (simp add: conclude_login_def)
  next
    case fine
    then have "issue_session env lib io kind ip agent who st1 = Some (r, st')"
      using assms(3) True q by (simp add: conclude_login_def)
    then show ?thesis
    proof (cases rule: issue_session_cases)
      case refused
      then show ?thesis using k by (metis sys_inv_other(1))
    next
      case (issued store)
      have inv: "session_store_inv (st_sessions st1)" "sessions_backed st1" "published env st1"
        using k unfolding sys_inv_def by blast+
      note new = created_sessions [OF inv(1) issued(2)]
      have "sys_inv env (st1\<lparr>st_sessions := store\<rparr>)"
        unfolding sys_inv_def
      proof (intro conjI)
        show "sessions_backed (st1\<lparr>st_sessions := store\<rparr>)"
          using new(1) inv(2) backed unfolding sessions_backed_def account_of_def
          by (force split: prod.splits)
      qed (use new(2) inv(3) in simp_all)
      then show ?thesis by (subst issued(3)) simp
    qed
  qed
qed

lemma authenticate_inv:
  assumes "sys_inv env st1" "sys_inv env st2" "update_names env (li_update io)"
    "authenticate_account env lib io (\<lambda>_. st1) (\<lambda>_. st2) ip headers body kind st = Some (r, st')"
  shows "sys_inv env st'"
  using assms(4)
proof (cases rule: authenticate_cases)
  case (early ls)
  then show ?thesis using assms(1) by simp
next
  case refused
  have "login_moment io (\<lambda>_. st1) (\<lambda>_. st2) kind ip st = st2" by (simp add: login_moment_def)
  then show ?thesis using refused(4) assms(2) by (metis sys_inv_other(1))
next
  case (concluded agent pf who)
  have m: "login_moment io (\<lambda>_. st1) (\<lambda>_. st2) kind ip st = st2" by (simp add: login_moment_def)
  show ?thesis by (rule conclude_login_inv [OF assms(2,3) concluded(6) [unfolded m] concluded(1)])
qed

lemma gate_inv:
  assumes "sys_inv env st1" "sys_inv env st2"
    "gate_handler env lib io (\<lambda>_. st1) (\<lambda>_. st2) client headers body st = Some (r, st')"
  shows "sys_inv env st'"
proof -
  have f: "sys_inv env st2 \<Longrightarrow> failed_login_response lib call entry ip agent limits st2 = (q, s) \<Longrightarrow> sys_inv env s"
    for call entry ip agent limits q s
    by (metis failed_login_D sys_inv_other(1))
  show ?thesis
    using assms f
    by (auto simp: gate_handler_def Let_def split: prod.splits sum.splits bool.splits if_splits option.splits)
qed

section \<open>The other steps\<close>

lemma enable_totp_inv:
  assumes "sys_inv env st" "update_names env up"
    "enable_admin_totp env lib hash random now up password secret supplied st = Some (q, st')"
  shows "sys_inv env st'"
proof -
  let ?edit = "\<lambda>hashes c. if cf_admin_totp_secret c \<noteq> None then Inl (Conflict ''The second factor is already enabled'')
      else Inr ((), c\<lparr>cf_admin_totp_secret := Some secret, cf_admin_recovery_code_hashes := hashes\<rparr>)"
  have u: "sys_inv env s" if "update_config env up (?edit hashes) st = (x, s)" for hashes x s
    by (rule sys_inv_update(1) [OF assms(1,2) that]) (auto split: if_splits)
  have revoked: "sys_inv env (s\<lparr>st_totp_replay := t, st_sessions := revoke_administrator (st_sessions s)\<rparr>)" if "sys_inv env s" for s t
    by (rule sys_inv_fewer [OF that])
       (use that in \<open>auto simp: sys_inv_def intro: fewer_sessions_revoked(2)\<close>)
  show ?thesis
    using assms(1,3) u revoked
    by (auto simp: enable_admin_totp_def Let_def split: sum.splits prod.splits if_splits)
qed

lemma disable_totp_inv:
  assumes "sys_inv env st" "update_names env up"
    "disable_admin_totp env lib now consume_now up password supplied st = Some (u, st')"
  shows "sys_inv env st'"
proof -
  let ?edit = "\<lambda>c. Inr ((), c\<lparr>cf_admin_totp_secret := None, cf_admin_recovery_code_hashes := []\<rparr>)"
  have u: "sys_inv env s" if "update_config env up ?edit (st\<lparr>st_totp_replay := t\<rparr>) = (x, s)" for t x s
    by (rule sys_inv_update(1) [OF _ assms(2) that]) (use assms(1) in auto)
  have revoked: "sys_inv env (s\<lparr>st_totp_replay := t, st_sessions := revoke_administrator (st_sessions s)\<rparr>)" if "sys_inv env s" for s t
    by (rule sys_inv_fewer [OF that])
       (use that in \<open>auto simp: sys_inv_def intro: fewer_sessions_revoked(2)\<close>)
  show ?thesis
    using assms(1,3) u revoked
    by (auto simp: disable_admin_totp_def Let_def split: sum.splits prod.splits if_splits option.splits)
qed

lemma fewer_sessions_lookup:
  "st_sessions st' = snd (principal_of (st_sessions st) token now) \<Longrightarrow> fewer_sessions st st'"
  using session_step_inv [OF step_lookup]
  by (auto simp: fewer_sessions_def principal_of_def al_remove_def split: option.splits if_splits)

lemma gate_open_keeps: "snd (gate_open lib now headers st) = st\<lparr>st_gate_access := st_gate_access (snd (gate_open lib now headers st))\<rparr>"
  by (simp add: gate_open_def split: option.split prod.split)

lemma sys_inv_gate_open: "sys_inv env st \<Longrightarrow> sys_inv env (snd (gate_open lib now headers st))"
  by (metis gate_open_keeps sys_inv_other(2))

lemma sys_inv_lookup:
  assumes "sys_inv env st"
  shows "sys_inv env (st\<lparr>st_sessions := snd (principal_of (st_sessions st) token now)\<rparr>)"
  by (rule sys_inv_fewer [OF assms]) (use assms in \<open>auto simp: sys_inv_def intro: fewer_sessions_lookup\<close>)

lemma sys_inv_principal: "sys_inv env st \<Longrightarrow> sys_inv env (snd (current_principal lib now headers st))"
  using sys_inv_lookup [of env st] by (auto simp: current_principal_def Let_def split: option.split prod.split) (metis snd_conv)+

lemma sys_inv_subject: "sys_inv env st \<Longrightarrow> sys_inv env (snd (current_request_subject lib now headers st))"
  using sys_inv_principal [of env st lib now headers] sys_inv_gate_open [of env _ lib now headers]
  by (auto simp: current_request_subject_def split: option.split prod.split) (metis snd_conv)+

lemma sys_inv_me: "sys_inv env st \<Longrightarrow> sys_inv env (snd (me_handler lib now headers st))"
proof -
  assume inv: "sys_inv env st"
  define ss where "ss = (case extract_session_token (au_http lib) headers of
      Some token \<Rightarrow> snd (principal_of (st_sessions st) token now) | None \<Rightarrow> st_sessions st)"
  have "sys_inv env (st\<lparr>st_sessions := ss\<rparr>)" using inv sys_inv_lookup [OF inv] by (simp add: ss_def split: option.split)
  moreover have "snd (me_handler lib now headers st) \<in> {st\<lparr>st_sessions := ss\<rparr>, snd (gate_open lib now headers (st\<lparr>st_sessions := ss\<rparr>))}"
    by (auto simp: me_handler_def Let_def ss_def split: option.split prod.split)
  ultimately show ?thesis using sys_inv_gate_open [of env "st\<lparr>st_sessions := ss\<rparr>" lib now headers] by auto
qed

lemma sys_inv_logout: "sys_inv env st \<Longrightarrow> sys_inv env (snd (logout_handler env lib headers st))"
proof -
  assume inv: "sys_inv env st"
  let ?r = "revoke_browser_credentials (st_sessions st) (st_gate_access st) (st_folder_access st)
             (extract_session_token (au_http lib) headers) (extract_gate_token (au_http lib) headers) (folder_cookies (au_http lib) headers)"
  have "st_sessions (snd (logout_handler env lib headers st)) = fst ?r"
    "st_config_file (snd (logout_handler env lib headers st)) = st_config_file st"
    "published env (snd (logout_handler env lib headers st))"
    using inv by (simp_all add: logout_handler_def Let_def sys_inv_def published_def split: prod.split)
  moreover have "fewer_sessions st (st\<lparr>st_sessions := fst ?r\<rparr>)"
    using session_step_inv [OF step_logout]
    by (auto simp: fewer_sessions_def revoke_browser_credentials_def al_remove_def split: option.splits)
  ultimately show ?thesis using sys_inv_fewer [OF inv] by (simp add: fewer_sessions_def)
qed

lemma sys_inv_cleanup:
  "sys_inv env st \<Longrightarrow> sys_inv env (st\<lparr>st_sessions := cleanup_sessions (st_sessions st) now, st_gate_access := ga, st_folder_access := fa\<rparr>)"
  by (rule sys_inv_fewer)
     (auto simp: sys_inv_def fewer_sessions_def cleanup_sessions_def session_store_inv_retain published_def)

lemma sys_steps_inv: "sys_steps env lib a b \<Longrightarrow> sys_inv env a \<Longrightarrow> sys_inv env b"
proof (induction rule: sys_steps.induct)
  case (login a st st1 io kind ip st2 headers body r st')
  then show ?case using authenticate_inv by (metis sys_inv_other(1))
next
  case (gate a st st1 ls st2 io client headers body r st')
  then show ?case using gate_inv by (metis sys_inv_other(1))
qed (auto intro: sys_inv_admin enable_totp_inv disable_totp_inv sys_inv_logout sys_inv_subject sys_inv_me sys_inv_cleanup
    simp del: sys_inv_other)

section \<open>Properties\<close>

text \<open>
  C18: no session outlives its account. However administrative requests, logins, second factors,
  logouts and expiry interleave, in every reachable state each session of an account belongs to an
  account that the configuration in force has and that is enabled; no principal has two sessions,
  the sessions stay within their limit, and the configuration in force is valid.
\<close>

theorem sessions_never_outlive_accounts:
  assumes "sys_steps env lib a b" "published env a" "sessions (st_sessions a) = []" "0 < ss_max_total (st_sessions a)"
  shows "((token, s) \<in> set (sessions (st_sessions b)) \<longrightarrow> principal s = User uid \<longrightarrow>
       (\<exists>account \<in> set (user_accounts (st_config_file b)). ua_id account = uid \<and> ua_enabled account))
    \<and> ((token, s) \<in> set (sessions (st_sessions b)) \<longrightarrow> (token', s') \<in> set (sessions (st_sessions b)) \<longrightarrow>
       principal s = principal s' \<longrightarrow> token = token')
    \<and> length (sessions (st_sessions b)) \<le> ss_max_total (st_sessions b)
    \<and> validate (ae_check env) (st_config_file b) = Inr ()"
proof -
  have "sys_inv env a" using assms(2-4) by (simp add: sys_inv_def session_store_inv_def sessions_backed_def)
  with assms(1) have inv: "sys_inv env b" by (rule sys_steps_inv)
  then have "\<forall>uid. (token, s) \<in> set (sessions (st_sessions b)) \<longrightarrow> principal s = User uid \<longrightarrow>
      (\<exists>a. account_of b uid = Some a \<and> ua_enabled a)"
    unfolding sys_inv_def sessions_backed_def by blast
  moreover have "account_of b uid = Some a \<Longrightarrow> a \<in> set (user_accounts (st_config_file b)) \<and> ua_id a = uid" for a
    by (auto simp: account_of_def find_Some_iff)
  ultimately show ?thesis
    using inv unfolding sys_inv_def session_store_inv_def one_per_principal_def published_def by metis
qed

text \<open>The sample account logs in on a server without sessions.\<close>

theorem sessions_never_outlive_accounts_witness:
  "\<exists>b s. sys_steps sample_env sample_auth_lib (sample_state\<lparr>st_sessions := session_store_new\<rparr>) b
     \<and> (''n'', s) \<in> set (sessions (st_sessions b)) \<and> principal s = User ''a1''
     \<and> (\<exists>account \<in> set (user_accounts (st_config_file b)). ua_id account = ''a1'' \<and> ua_enabled account)"
proof -
  let ?a = "sample_state\<lparr>st_sessions := session_store_new\<rparr>" and ?s = "\<lparr>created_at = 1, principal = User ''a1''\<rparr>"
  have c: "create_for session_store_new (User ''a1'') ''n'' 1 = Some (session_store_new\<lparr>sessions := [(''n'', ?s)]\<rparr>)"
    by (simp add: session_store_new_def session_store_with_limit_def create_for_def al_retain_def evict_while_not_over
        al_insert_def al_remove_def MAX_SESSIONS_def)
  obtain r b where b: "sample_login_with session_store_new (\<lambda>_. ?a) (\<lambda>_. ?a) = Some (r, b)"
    "st_sessions b = session_store_new\<lparr>sessions := [(''n'', ?s)]\<rparr>"
    using sample_login_with_succeeds [OF c, of "\<lambda>_. ?a" "\<lambda>_. ?a"] by auto
  have blocked: "snd (is_blocked (li_blocked sample_login_io) (st_login_security ?a) (kind_entry UserLogin) ''127.0.0.1'') = st_login_security ?a"
    by (simp add: is_blocked_def find_record_def sample_state_def empty_login_security_def)
  have names: "update_names sample_env (li_update sample_login_io)"
    using sample_update_names by (simp add: sample_login_io_def)
  have steps: "sys_steps sample_env sample_auth_lib ?a b"
    by (rule sys_steps.login [OF sys_steps.none sys_steps.none _ names b(1) [unfolded sample_login_with_def]])
       (unfold blocked, simp add: sys_steps.none)
  have p: "published sample_env ?a" using sample_published by simp
  have e: "sessions (st_sessions ?a) = []" "0 < ss_max_total (st_sessions ?a)"
    by (simp_all add: session_store_new_def session_store_with_limit_def)
  have s: "(''n'', ?s) \<in> set (sessions (st_sessions b))" by (simp add: b(2))
  from sessions_never_outlive_accounts [OF steps p e, of "''n''" ?s "''a1''" "''n''" ?s] s
  have "\<exists>account \<in> set (user_accounts (st_config_file b)). ua_id account = ''a1'' \<and> ua_enabled account" by simp
  with steps s show ?thesis by (intro exI [of _ b] exI [of _ ?s]) simp
qed

end
