(* ===== verification/DirectoryListing.thy ===== *)
theory DirectoryListing
  imports AppError "HOL-Library.Sorting_Algorithms" "HOL-Library.List_Lexorder" "HOL-Library.Option_ord"
begin

text \<open>
  Directory listings (src/src/directory_listing.rs and the candidate of
  src/src/directory_snapshot.rs): the order of entries, the snapshot that is sorted as a whole and
  cut into pages, and the collector that keeps one page while a directory is scanned. The reference
  is the sorted list of the matching entries; both routines return its pages. Lower case of
  Unicode text is a parameter.
\<close>

section \<open>Entries\<close>

record backend_entry =
  be_name :: str
  be_relative :: str
  be_is_dir :: bool
  be_size :: nat
  be_modified_unix :: "int option"

datatype directory_sort = SortName | SortSize | SortTime

datatype sort_direction = Asc | Desc

datatype directory_entry_filter = AllEntries | Gallery

definition is_gallery_image_name :: "str \<Rightarrow> bool" where
  "is_gallery_image_name name =
     (case rsplit_once CHR ''.'' name of
        None \<Rightarrow> False
      | Some (_, extension) \<Rightarrow>
          to_ascii_lowercase extension \<in> {''jpg'', ''jpeg'', ''png'', ''webp'', ''avif'', ''gif''})"

fun accepts :: "directory_entry_filter \<Rightarrow> backend_entry \<Rightarrow> bool" where
  "accepts AllEntries e = True"
| "accepts Gallery e = (\<not> be_is_dir e \<and> is_gallery_image_name (be_name e))"

record entry_position =
  ep_is_dir :: bool
  ep_name :: str
  ep_relative :: str
  ep_size :: nat
  ep_modified_unix :: "int option"

definition position_of_entry :: "backend_entry \<Rightarrow> entry_position" where
  "position_of_entry e =
     \<lparr>ep_is_dir = be_is_dir e, ep_name = be_name e, ep_relative = be_relative e, ep_size = be_size e,
      ep_modified_unix = be_modified_unix e\<rparr>"

definition as_entry :: "entry_position \<Rightarrow> backend_entry" where
  "as_entry p =
     \<lparr>be_name = ep_name p, be_relative = ep_relative p, be_is_dir = ep_is_dir p, be_size = ep_size p,
      be_modified_unix = ep_modified_unix p\<rparr>"

definition normalized_search :: "(str \<Rightarrow> str) \<Rightarrow> str option \<Rightarrow> str option" where
  "normalized_search lower search =
     Option.bind (map_option (\<lambda>s. lower (trim s)) search) (\<lambda>v. if v = [] then None else Some v)"

section \<open>Order\<close>

definition linear_cmp :: "'a :: linorder \<Rightarrow> 'a \<Rightarrow> comp" where
  "linear_cmp a b = (if a < b then Less else if a = b then Equiv else Greater)"

text \<open>Texts are compared by their bytes.\<close>

definition str_cmp :: "str \<Rightarrow> str \<Rightarrow> comp" where
  "str_cmp a b = linear_cmp (map byte a) (map byte b)"

fun reverse_comp :: "comp \<Rightarrow> comp" where
  "reverse_comp Less = Greater"
| "reverse_comp Equiv = Equiv"
| "reverse_comp Greater = Less"

fun then_comp :: "comp \<Rightarrow> comp \<Rightarrow> comp" where
  "then_comp Equiv c = c"
| "then_comp c _ = c"

definition compare_entries_with_names ::
  "backend_entry \<Rightarrow> str \<Rightarrow> backend_entry \<Rightarrow> str \<Rightarrow> directory_sort \<Rightarrow> sort_direction \<Rightarrow> comp" where
  "compare_entries_with_names left left_name right right_name by direction =
     (let kind_order = linear_cmp (be_is_dir right) (be_is_dir left)
      in if kind_order \<noteq> Equiv then kind_order
         else let primary = (case by of
                               SortName \<Rightarrow> str_cmp left_name right_name
                             | SortSize \<Rightarrow> linear_cmp (be_size left) (be_size right)
                             | SortTime \<Rightarrow> linear_cmp (be_modified_unix left) (be_modified_unix right));
                  primary = (case direction of Asc \<Rightarrow> primary | Desc \<Rightarrow> reverse_comp primary)
              in then_comp primary (then_comp (str_cmp left_name right_name) (str_cmp (be_relative left) (be_relative right))))"

definition normalized_name :: "(str \<Rightarrow> str) \<Rightarrow> backend_entry \<Rightarrow> str" where
  "normalized_name lower e = lower (be_name e)"

definition compare_entries ::
  "(str \<Rightarrow> str) \<Rightarrow> directory_sort \<Rightarrow> sort_direction \<Rightarrow> backend_entry \<Rightarrow> backend_entry \<Rightarrow> comp" where
  "compare_entries lower by direction left right =
     compare_entries_with_names left (normalized_name lower left) right (normalized_name lower right) by direction"

text \<open>The comparison is one of a linear quasi-order.\<close>

lemma comparator_linear: "comparator (\<lambda>a b. linear_cmp (f a) (f b))"
  by standard (auto simp: linear_cmp_def split: if_splits)

lemma comparator_reverse:
  assumes c: "comparator c"
  shows "comparator (\<lambda>a b. reverse_comp (c a b))"
proof
  have rev: "reverse_comp x = Equiv \<longleftrightarrow> x = Equiv" "reverse_comp x = Less \<longleftrightarrow> x = Greater" "reverse_comp x = Greater \<longleftrightarrow> x = Less" for x
    by (cases x; simp)+
  fix a b d
  show "reverse_comp (c a a) = Equiv" by (simp add: comparator.refl [OF c])
  show "reverse_comp (c a b) = Equiv \<Longrightarrow> reverse_comp (c b d) = Equiv \<Longrightarrow> reverse_comp (c a d) = Equiv"
    unfolding rev by (rule comparator.trans_equiv [OF c])
  show "reverse_comp (c a b) = Less \<Longrightarrow> reverse_comp (c b d) = Less \<Longrightarrow> reverse_comp (c a d) = Less"
    unfolding rev by (rule comparator.trans_greater [OF c])
  show "(reverse_comp (c b a) = Greater) = (reverse_comp (c a b) = Less)"
    unfolding rev by (rule comparator.less_iff_sym_greater [OF c])
qed

lemma comparator_then:
  assumes c: "comparator c" and d: "comparator d"
  shows "comparator (\<lambda>a b. then_comp (c a b) (d a b))"
proof
  have tc: "then_comp x y = Equiv \<longleftrightarrow> x = Equiv \<and> y = Equiv" "then_comp x y = Less \<longleftrightarrow> x = Less \<or> x = Equiv \<and> y = Less"
    "then_comp x y = Greater \<longleftrightarrow> x = Greater \<or> x = Equiv \<and> y = Greater" for x y
    by (cases x; simp)+
  fix a b e
  show "then_comp (c a a) (d a a) = Equiv" by (simp add: comparator.refl [OF c] comparator.refl [OF d])
  show "then_comp (c a b) (d a b) = Equiv \<Longrightarrow> then_comp (c b e) (d b e) = Equiv \<Longrightarrow> then_comp (c a e) (d a e) = Equiv"
    unfolding tc using comparator.trans_equiv [OF c] comparator.trans_equiv [OF d] by blast
  show "then_comp (c a b) (d a b) = Less \<Longrightarrow> then_comp (c b e) (d b e) = Less \<Longrightarrow> then_comp (c a e) (d a e) = Less"
    unfolding tc
    using comparator.trans_less [OF c] comparator.trans_equiv_less [OF c] comparator.trans_less_equiv [OF c]
      comparator.trans_equiv [OF c] comparator.trans_less [OF d] by metis
  show "(then_comp (c b a) (d b a) = Greater) = (then_comp (c a b) (d a b) = Less)"
    unfolding tc using comparator.greater_iff_sym_less [OF c] comparator.greater_iff_sym_less [OF d] comparator.sym [OF c] by metis
qed

lemma comparator_entries: "comparator (compare_entries lower by direction)"
proof -
  let ?name = "\<lambda>a b. str_cmp (normalized_name lower a) (normalized_name lower b)"
  let ?primary = "\<lambda>a b. case by of SortName \<Rightarrow> ?name a b | SortSize \<Rightarrow> linear_cmp (be_size a) (be_size b)
      | SortTime \<Rightarrow> linear_cmp (be_modified_unix a) (be_modified_unix b)"
  let ?directed = "\<lambda>a b. case direction of Asc \<Rightarrow> ?primary a b | Desc \<Rightarrow> reverse_comp (?primary a b)"
  have name: "comparator ?name"
    unfolding str_cmp_def by (rule comparator_linear)
  have primary: "comparator ?primary"
    by (cases "by") (simp_all add: name comparator_linear)
  have directed: "comparator ?directed"
    by (cases direction) (simp_all add: primary comparator_reverse)
  have relative: "comparator (\<lambda>a b. str_cmp (be_relative a) (be_relative b))"
    unfolding str_cmp_def by (rule comparator_linear)
  have kind: "comparator (\<lambda>(a::backend_entry) (b::backend_entry). linear_cmp (be_is_dir b) (be_is_dir a))"
  proof -
    have eq: "(\<lambda>(a::backend_entry) (b::backend_entry). linear_cmp (be_is_dir b) (be_is_dir a)) =
        (\<lambda>a b. reverse_comp (linear_cmp (be_is_dir a) (be_is_dir b)))"
      by (intro ext) (auto simp: linear_cmp_def)
    show ?thesis unfolding eq by (rule comparator_reverse [OF comparator_linear])
  qed
  have "compare_entries lower by direction = (\<lambda>a b. then_comp (linear_cmp (be_is_dir b) (be_is_dir a))
      (then_comp (?directed a b) (then_comp (?name a b) (str_cmp (be_relative a) (be_relative b)))))"
    by (auto simp: fun_eq_iff compare_entries_def compare_entries_with_names_def Let_def linear_cmp_def)
  with comparator_then [OF kind comparator_then [OF directed comparator_then [OF name relative]]] show ?thesis by simp
qed

text \<open>The order of a listing as a comparator of the library.\<close>

lift_definition entry_order :: "(str \<Rightarrow> str) \<Rightarrow> directory_sort \<Rightarrow> sort_direction \<Rightarrow> backend_entry comparator" is compare_entries
  by (rule comparator_entries)

lemma compare_entry_order [simp]: "compare (entry_order lower by direction) a b = compare_entries lower by direction a b"
  by transfer simp

lemma map_byte_inject: "map byte a = map byte b \<Longrightarrow> a = b"
  by (rule map_injective) (auto simp: inj_def)

lemma compare_entries_Equiv:
  "compare_entries lower by direction a b = Equiv \<Longrightarrow> be_is_dir a = be_is_dir b \<and> be_relative a = be_relative b"
proof -
  have tc: "then_comp x y = Equiv \<longleftrightarrow> x = Equiv \<and> y = Equiv" for x y by (cases x; simp)
  assume "compare_entries lower by direction a b = Equiv"
  then have "linear_cmp (be_is_dir b) (be_is_dir a) = Equiv" "str_cmp (be_relative a) (be_relative b) = Equiv"
    by (auto simp: compare_entries_def compare_entries_with_names_def Let_def tc split: if_splits)
  then show ?thesis by (auto simp: linear_cmp_def str_cmp_def dest: map_byte_inject split: if_splits)
qed

section \<open>Sorted snapshots and their pages\<close>

record directory_list_request =
  dl_limit :: nat
  dl_search :: "str option"
  dl_sort :: directory_sort
  dl_direction :: sort_direction
  dl_filter :: directory_entry_filter
  dl_after :: "entry_position option"

record directory_page =
  dp_entries :: "backend_entry list"
  dp_next :: "entry_position option"

text \<open>
  \<open>sort_unstable_by\<close> returns some sorted arrangement; entries that compare as equal are the only
  ones whose order it leaves open.
\<close>

definition prepare_snapshot ::
  "(str \<Rightarrow> str) \<Rightarrow> backend_entry list \<Rightarrow> str option \<Rightarrow> directory_sort \<Rightarrow> sort_direction \<Rightarrow> backend_entry list" where
  "prepare_snapshot lower es search by direction =
     (let search = normalized_search lower search
      in Sorting_Algorithms.sort (entry_order lower by direction)
           (filter (\<lambda>e. case search of None \<Rightarrow> True | Some s \<Rightarrow> str_contains (lower (be_name e)) s) es))"

text \<open>\<open>partition_point\<close> and \<open>binary_search_by\<close> by bisection of the indices from \<open>lo\<close> to \<open>hi\<close>.\<close>

function partition_point :: "('a \<Rightarrow> bool) \<Rightarrow> 'a list \<Rightarrow> nat \<Rightarrow> nat \<Rightarrow> nat" where
  "partition_point P xs lo hi =
     (if lo < hi
      then let mid = (lo + hi) div 2
           in if P (xs ! mid) then partition_point P xs (mid + 1) hi else partition_point P xs lo mid
      else lo)"
  by pat_completeness auto
termination by (relation "measure (\<lambda>(_, _, lo, hi). hi - lo)") auto

function binary_search :: "('a \<Rightarrow> comp) \<Rightarrow> 'a list \<Rightarrow> nat \<Rightarrow> nat \<Rightarrow> nat + nat" where
  "binary_search f xs lo hi =
     (if lo < hi
      then let mid = (lo + hi) div 2
           in case f (xs ! mid) of
                Equiv \<Rightarrow> Inr mid
              | Less \<Rightarrow> binary_search f xs (mid + 1) hi
              | Greater \<Rightarrow> binary_search f xs lo mid
      else Inl lo)"
  by pat_completeness auto
termination by (relation "measure (\<lambda>(_, _, lo, hi). hi - lo)") auto

declare partition_point.simps [simp del] binary_search.simps [simp del]

definition page_from_snapshot :: "(str \<Rightarrow> str) \<Rightarrow> backend_entry list \<Rightarrow> directory_list_request \<Rightarrow> directory_page" where
  "page_from_snapshot lower es rq =
     (let limit = max (dl_limit rq) 1;
          start = (case dl_after rq of
                     None \<Rightarrow> 0
                   | Some after \<Rightarrow>
                       partition_point (\<lambda>e. compare_entries lower (dl_sort rq) (dl_direction rq) e (as_entry after) \<noteq> Greater)
                         es 0 (length es));
          end_index = min (saturating_add start limit) (length es);
          page = take (end_index - start) (drop start es)
      in \<lparr>dp_entries = page,
          dp_next = (if end_index < length es \<and> page \<noteq> [] then Some (position_of_entry (last page)) else None)\<rparr>)"

section \<open>The collector of one page\<close>

record page_collector =
  pc_request :: directory_list_request
  pc_entries :: "backend_entry list"

definition collector_new :: "(str \<Rightarrow> str) \<Rightarrow> directory_list_request \<Rightarrow> page_collector" where
  "collector_new lower rq =
     \<lparr>pc_request = rq\<lparr>dl_limit := max (dl_limit rq) 1, dl_search := normalized_search lower (dl_search rq)\<rparr>, pc_entries = []\<rparr>"

definition collector_consider :: "(str \<Rightarrow> str) \<Rightarrow> backend_entry \<Rightarrow> page_collector \<Rightarrow> page_collector" where
  "collector_consider lower e pc =
     (let rq = pc_request pc; order = compare_entries lower (dl_sort rq) (dl_direction rq)
      in if \<not> accepts (dl_filter rq) e then pc
         else if (case dl_search rq of None \<Rightarrow> False | Some s \<Rightarrow> \<not> str_contains (lower (be_name e)) s) then pc
         else if (case dl_after rq of None \<Rightarrow> False | Some after \<Rightarrow> order e (as_entry after) \<noteq> Greater) then pc
         else let insertion = (case binary_search (\<lambda>candidate. order candidate e) (pc_entries pc) 0 (length (pc_entries pc)) of
                                 Inr i \<Rightarrow> i | Inl i \<Rightarrow> i);
                  es = take insertion (pc_entries pc) @ e # drop insertion (pc_entries pc)
              in pc\<lparr>pc_entries := (if saturating_add (dl_limit rq) 1 < length es then butlast es else es)\<rparr>)"

definition collector_finish :: "page_collector \<Rightarrow> directory_page" where
  "collector_finish pc =
     (let limit = dl_limit (pc_request pc);
          has_more = (limit < length (pc_entries pc));
          page = take limit (pc_entries pc)
      in \<lparr>dp_entries = page, dp_next = (if has_more \<and> page \<noteq> [] then Some (position_of_entry (last page)) else None)\<rparr>)"

section \<open>The candidate for a snapshot\<close>

text \<open>
  While a directory is scanned the candidate keeps the matching entries as long as they fit the
  limits of a snapshot, and falls back to the collector of one page beyond them.
\<close>

datatype candidate_state =
    CandidateSnapshot "backend_entry list" nat
  | CandidatePage page_collector

record directory_snapshot_candidate =
  dc_request :: directory_list_request
  dc_search :: "str option"
  dc_max_entries :: nat
  dc_max_bytes :: nat
  dc_state :: candidate_state

datatype candidate_result =
    ResultSnapshot "backend_entry list"
  | ResultPage directory_page

definition MAX_SNAPSHOT_ENTRIES :: nat where
  "MAX_SNAPSHOT_ENTRIES = 100000"

definition MAX_SNAPSHOT_BYTES :: nat where
  "MAX_SNAPSHOT_BYTES = 64 * 1024 * 1024"

text \<open>The size of the entry structure in memory is chosen by the compiler and is a parameter.\<close>

definition estimate_entry :: "nat \<Rightarrow> backend_entry \<Rightarrow> nat" where
  "estimate_entry entry_size e =
     saturating_add (saturating_add entry_size (length (be_name e))) (length (be_relative e))"

definition candidate_with_limits ::
  "(str \<Rightarrow> str) \<Rightarrow> directory_list_request \<Rightarrow> nat \<Rightarrow> nat \<Rightarrow> directory_snapshot_candidate" where
  "candidate_with_limits lower rq entries_limit bytes_limit =
     \<lparr>dc_request = rq, dc_search = normalized_search lower (dl_search rq), dc_max_entries = entries_limit,
      dc_max_bytes = bytes_limit, dc_state = CandidateSnapshot [] 0\<rparr>"

definition candidate_new :: "(str \<Rightarrow> str) \<Rightarrow> directory_list_request \<Rightarrow> directory_snapshot_candidate" where
  "candidate_new lower rq = candidate_with_limits lower rq MAX_SNAPSHOT_ENTRIES MAX_SNAPSHOT_BYTES"

definition candidate_consider ::
  "(str \<Rightarrow> str) \<Rightarrow> nat \<Rightarrow> backend_entry \<Rightarrow> directory_snapshot_candidate \<Rightarrow> directory_snapshot_candidate" where
  "candidate_consider lower entry_size e dc =
     (if \<not> accepts (dl_filter (dc_request dc)) e then dc
      else if (case dc_search dc of None \<Rightarrow> False | Some s \<Rightarrow> \<not> str_contains (lower (be_name e)) s) then dc
      else case dc_state dc of
             CandidatePage collector \<Rightarrow> dc\<lparr>dc_state := CandidatePage (collector_consider lower e collector)\<rparr>
           | CandidateSnapshot es estimated \<Rightarrow>
               let entry_bytes = estimate_entry entry_size e
               in if length es < dc_max_entries dc \<and> saturating_add estimated entry_bytes \<le> dc_max_bytes dc
                  then dc\<lparr>dc_state := CandidateSnapshot (es @ [e]) (saturating_add estimated entry_bytes)\<rparr>
                  else dc\<lparr>dc_state := CandidatePage (collector_consider lower e
                            (fold (collector_consider lower) es (collector_new lower (dc_request dc))))\<rparr>)"

definition candidate_finish :: "directory_snapshot_candidate \<Rightarrow> candidate_result" where
  "candidate_finish dc =
     (case dc_state dc of
        CandidateSnapshot es _ \<Rightarrow> ResultSnapshot es
      | CandidatePage collector \<Rightarrow> ResultPage (collector_finish collector))"

text \<open>The page that a request builds from the scanned entries of a directory.\<close>

definition build_page :: "(str \<Rightarrow> str) \<Rightarrow> nat \<Rightarrow> directory_list_request \<Rightarrow> backend_entry list \<Rightarrow> directory_page" where
  "build_page lower entry_size rq scanned =
     (case candidate_finish (fold (candidate_consider lower entry_size) scanned (candidate_new lower rq)) of
        ResultPage page \<Rightarrow> page
      | ResultSnapshot es \<Rightarrow> page_from_snapshot lower (prepare_snapshot lower es None (dl_sort rq) (dl_direction rq)) rq)"

section \<open>Bisection\<close>

lemma partition_point_split:
  assumes "lo \<le> hi" "hi \<le> length xs"
    and mono: "\<And>i j. i < j \<Longrightarrow> j < length xs \<Longrightarrow> P (xs ! j) \<Longrightarrow> P (xs ! i)"
    and below: "\<And>i. i < lo \<Longrightarrow> P (xs ! i)"
    and above: "\<And>i. hi \<le> i \<Longrightarrow> i < length xs \<Longrightarrow> \<not> P (xs ! i)"
  shows "partition_point P xs lo hi = length (takeWhile P xs)"
  using assms
proof (induction P xs lo hi rule: partition_point.induct)
  case (1 P xs lo hi)
  let ?mid = "(lo + hi) div 2"
  show ?case
  proof (cases "lo < hi")
    case False
    then have eq: "lo = hi" using 1(3) by simp
    have "takeWhile P xs = take lo xs"
      using 1(6,7) eq by (intro takeWhile_eq_take_P_nth) auto
    then show ?thesis using 1(4) eq by (subst partition_point.simps) simp
  next
    case less: True
    show ?thesis
    proof (cases "P (xs ! ?mid)")
      case True
      have "P (xs ! i)" if "i < ?mid + 1" for i
        using True 1(5)[of i ?mid] that less 1(4) by (cases "i = ?mid") auto
      then have "partition_point P xs (?mid + 1) hi = length (takeWhile P xs)"
        using 1(1)[OF less refl True] 1(4-7) less by simp
      with True less show ?thesis by (subst partition_point.simps) (simp add: Let_def)
    next
      case False
      have "\<not> P (xs ! i)" if "?mid \<le> i" "i < length xs" for i
        using False 1(5)[of ?mid i] that by (cases "i = ?mid") auto
      then have "partition_point P xs lo ?mid = length (takeWhile P xs)"
        using 1(2)[OF less refl False] 1(4-7) less by simp
      with False less show ?thesis by (subst partition_point.simps) (simp add: Let_def)
    qed
  qed
qed

lemma binary_search_partition_point:
  "\<lbrakk>hi \<le> length xs; \<And>x. x \<in> set xs \<Longrightarrow> f x \<noteq> Equiv\<rbrakk>
    \<Longrightarrow> binary_search f xs lo hi = Inl (partition_point (\<lambda>x. f x = Less) xs lo hi)"
proof (induction f xs lo hi rule: binary_search.induct)
  case (1 f xs lo hi)
  let ?mid = "(lo + hi) div 2"
  have "f (xs ! ?mid) \<noteq> Equiv" if "lo < hi"
    using 1(3,4) that by simp
  then show ?case
    using 1 by (subst binary_search.simps, subst partition_point.simps) (auto simp: Let_def split: comp.split)
qed

section \<open>Strictly sorted listings\<close>

text \<open>
  The entries of one directory differ in their kind or their relative path, so their order is
  strict: a listing is determined by the set of its entries.
\<close>

definition distinct_entries :: "backend_entry list \<Rightarrow> bool" where
  "distinct_entries es \<longleftrightarrow> distinct (map (\<lambda>e. (be_is_dir e, be_relative e)) es)"

definition in_order :: "(str \<Rightarrow> str) \<Rightarrow> directory_list_request \<Rightarrow> backend_entry list \<Rightarrow> bool" where
  "in_order lower rq = sorted_wrt (\<lambda>a b. compare_entries lower (dl_sort rq) (dl_direction rq) a b = Less)"

lemma sorted_wrt_set_unique:
  assumes irrefl: "\<And>x. \<not> R x x" and trans: "\<And>x y z. R x y \<Longrightarrow> R y z \<Longrightarrow> R x z"
  shows "\<lbrakk>sorted_wrt R xs; sorted_wrt R ys; set xs = set ys\<rbrakk> \<Longrightarrow> xs = ys"
proof (induction xs arbitrary: ys)
  case (Cons x xs)
  then obtain y zs where ys: "ys = y # zs" by (cases ys) auto
  have "x = y"
  proof (rule ccontr)
    assume ne: "x \<noteq> y"
    then have "x \<in> set zs" "y \<in> set xs" using Cons.prems(3) ys by auto
    then have "R x y" "R y x" using Cons.prems(1,2) ys by auto
    with trans irrefl show False by blast
  qed
  moreover have "x \<notin> set xs" "y \<notin> set zs" using Cons.prems(1,2) ys irrefl by auto
  ultimately have "set xs = set zs" using Cons.prems(3) ys by auto
  with Cons.IH [of zs] Cons.prems(1,2) ys \<open>x = y\<close> show ?case by simp
qed simp

lemma sorted_wrt_insert:
  assumes trans: "\<And>x y z. R x y \<Longrightarrow> R y z \<Longrightarrow> R x z"
  shows "\<lbrakk>sorted_wrt R xs; \<And>x. x \<in> set xs \<Longrightarrow> R x e \<or> R e x\<rbrakk>
    \<Longrightarrow> sorted_wrt R (takeWhile (\<lambda>x. R x e) xs @ e # dropWhile (\<lambda>x. R x e) xs)"
proof (induction xs)
  case (Cons x xs)
  have mem: "set (takeWhile (\<lambda>x. R x e) xs @ e # dropWhile (\<lambda>x. R x e) xs) = insert e (set xs)"
    by (metis takeWhile_dropWhile_id set_append list.simps(15) Un_insert_right)
  show ?case
  proof (cases "R x e")
    case True
    with Cons mem show ?thesis by simp
  next
    case False
    with Cons.prems have "R e x" by auto
    with False Cons.prems(1) trans show ?thesis by auto
  qed
qed simp

lemma dropWhile_filter_sorted:
  assumes "\<And>x y. R x y \<Longrightarrow> P y \<Longrightarrow> P x"
  shows "sorted_wrt R xs \<Longrightarrow> dropWhile P xs = filter (\<lambda>x. \<not> P x) xs"
  using assms by (induction xs) (auto intro!: filter_True [symmetric])

lemma take_insert_take:
  "take n (takeWhile P (take n xs) @ e # dropWhile P (take n xs)) = take n (takeWhile P xs @ e # dropWhile P xs)"
proof (induction xs arbitrary: n)
  case (Cons x xs)
  show ?case
  proof (cases n)
    case (Suc m)
    with Cons.IH [of m] show ?thesis by (cases m) (auto simp: take_Cons')
  qed simp
qed simp

lemma sorted_comparator_wrt: "Sorting_Algorithms.sorted c xs \<Longrightarrow> sorted_wrt (\<lambda>a b. compare c a b \<noteq> Greater) xs"
  by (induction rule: Sorting_Algorithms.sorted_induct) (auto simp: compare.greater_iff_sym_less)

lemmas entry_less_trans = comparator.trans_less [OF comparator_entries]
  and entry_greater = comparator.greater_iff_sym_less [OF comparator_entries]

lemma entry_less_irrefl [simp]: "compare_entries lower by direction a a \<noteq> Less"
  by (simp add: comparator.refl [OF comparator_entries])

lemma in_order_unique: "\<lbrakk>in_order lower rq xs; in_order lower rq ys; set xs = set ys\<rbrakk> \<Longrightarrow> xs = ys"
  unfolding in_order_def by (rule sorted_wrt_set_unique) (auto intro: entry_less_trans)

lemma distinct_entries_order:
  "\<lbrakk>distinct_entries es; x \<in> set es; y \<in> set es; x \<noteq> y\<rbrakk>
    \<Longrightarrow> compare_entries lower by direction x y = Less \<or> compare_entries lower by direction y x = Less"
  using compare_entries_Equiv [of lower "by" direction x y]
  by (cases "compare_entries lower by direction x y")
     (auto simp: distinct_entries_def distinct_map inj_on_def entry_greater)

definition sorted_entries :: "(str \<Rightarrow> str) \<Rightarrow> directory_list_request \<Rightarrow> backend_entry list \<Rightarrow> backend_entry list" where
  "sorted_entries lower rq = Sorting_Algorithms.sort (entry_order lower (dl_sort rq) (dl_direction rq))"

lemma set_sorted_entries [simp]: "set (sorted_entries lower rq es) = set es"
  by (simp add: sorted_entries_def)

lemma length_sorted_entries [simp]: "length (sorted_entries lower rq es) = length es"
  by (simp add: sorted_entries_def)

lemma distinct_sorted_entries [simp]: "distinct_entries (sorted_entries lower rq es) = distinct_entries es"
proof -
  have "mset (map f (sorted_entries lower rq es)) = mset (map f es)" for f :: "backend_entry \<Rightarrow> bool \<times> str"
    by (simp add: sorted_entries_def)
  then show ?thesis unfolding distinct_entries_def by (metis mset_eq_imp_distinct_iff)
qed

lemma in_order_sorted_entries:
  assumes "distinct_entries es"
  shows "in_order lower rq (sorted_entries lower rq es)"
proof -
  let ?xs = "sorted_entries lower rq es"
  let ?c = "compare_entries lower (dl_sort rq) (dl_direction rq)"
  have le: "sorted_wrt (\<lambda>a b. ?c a b \<noteq> Greater) ?xs"
    using sorted_comparator_wrt [OF sorted_sort [of "entry_order lower (dl_sort rq) (dl_direction rq)" es]]
    by (simp add: sorted_entries_def)
  have "?c (?xs ! i) (?xs ! j) = Less" if "i < j" "j < length ?xs" for i j
  proof -
    have d: "distinct_entries ?xs" using assms by simp
    then have "distinct ?xs" by (simp add: distinct_entries_def distinct_map)
    then have "?xs ! i \<noteq> ?xs ! j" using that by (simp add: nth_eq_iff_index_eq)
    then have "?c (?xs ! i) (?xs ! j) = Less \<or> ?c (?xs ! j) (?xs ! i) = Less"
      using that d by (intro distinct_entries_order [of ?xs]) (auto simp del: set_sorted_entries)
    moreover have "?c (?xs ! i) (?xs ! j) \<noteq> Greater" using le that by (simp add: sorted_wrt_iff_nth_less)
    ultimately show ?thesis by (simp add: entry_greater)
  qed
  then show ?thesis by (simp add: in_order_def sorted_wrt_iff_nth_less)
qed

lemma distinct_entries_filter: "distinct_entries es \<Longrightarrow> distinct_entries (filter P es)"
  unfolding distinct_entries_def by (rule distinct_map_filter)

lemma filter_sorted_entries:
  "distinct_entries es \<Longrightarrow> filter P (sorted_entries lower rq es) = sorted_entries lower rq (filter P es)"
  by (rule in_order_unique [of lower rq])
     (use in_order_sorted_entries [of es lower rq] in
       \<open>auto simp: in_order_def sorted_wrt_filter intro: in_order_sorted_entries [unfolded in_order_def] distinct_entries_filter\<close>)

lemma sorted_entries_snoc:
  assumes "distinct_entries (es @ [e])"
  shows "sorted_entries lower rq (es @ [e]) =
    takeWhile (\<lambda>x. compare_entries lower (dl_sort rq) (dl_direction rq) x e = Less) (sorted_entries lower rq es) @ e #
    dropWhile (\<lambda>x. compare_entries lower (dl_sort rq) (dl_direction rq) x e = Less) (sorted_entries lower rq es)" (is "_ = ?ys")
proof (rule in_order_unique [of lower rq])
  let ?xs = "sorted_entries lower rq es"
  let ?R = "\<lambda>x y. compare_entries lower (dl_sort rq) (dl_direction rq) x y = Less"
  have es: "distinct_entries es" using assms by (simp add: distinct_entries_def)
  show "in_order lower rq (sorted_entries lower rq (es @ [e]))" by (rule in_order_sorted_entries [OF assms])
  have ne: "x \<noteq> e" if "x \<in> set es" for x using assms that by (auto simp: distinct_entries_def)
  have "?R x e \<or> ?R e x" if "x \<in> set ?xs" for x
    using that ne by (intro distinct_entries_order [OF assms]) auto
  then show "in_order lower rq ?ys"
    unfolding in_order_def
    by (intro sorted_wrt_insert) (use in_order_sorted_entries [OF es, of lower rq] in \<open>auto simp: in_order_def intro: entry_less_trans\<close>)
  have "set ?xs = set (takeWhile (\<lambda>x. ?R x e) ?xs) \<union> set (dropWhile (\<lambda>x. ?R x e) ?xs)"
    by (metis takeWhile_dropWhile_id set_append)
  then show "set (sorted_entries lower rq (es @ [e])) = set ?ys" by simp
qed

section \<open>The reference listing\<close>

definition matches :: "(str \<Rightarrow> str) \<Rightarrow> directory_list_request \<Rightarrow> backend_entry \<Rightarrow> bool" where
  "matches lower rq e \<longleftrightarrow> accepts (dl_filter rq) e \<and>
     (case normalized_search lower (dl_search rq) of None \<Rightarrow> True | Some s \<Rightarrow> str_contains (lower (be_name e)) s)"

definition follows :: "(str \<Rightarrow> str) \<Rightarrow> directory_list_request \<Rightarrow> backend_entry \<Rightarrow> bool" where
  "follows lower rq e \<longleftrightarrow>
     (case dl_after rq of
        None \<Rightarrow> True
      | Some p \<Rightarrow> compare_entries lower (dl_sort rq) (dl_direction rq) e (as_entry p) = Greater)"

definition listing :: "(str \<Rightarrow> str) \<Rightarrow> directory_list_request \<Rightarrow> backend_entry list \<Rightarrow> backend_entry list" where
  "listing lower rq es = sorted_entries lower rq (filter (matches lower rq) es)"

definition first_page :: "nat \<Rightarrow> backend_entry list \<Rightarrow> directory_page" where
  "first_page limit rest =
     \<lparr>dp_entries = take limit rest,
      dp_next = (if limit < length rest then Some (position_of_entry (rest ! (limit - 1))) else None)\<rparr>"

definition page_limit :: "directory_list_request \<Rightarrow> nat" where
  "page_limit rq = max (dl_limit rq) 1"

lemma page_limit_pos [simp]: "0 < page_limit rq"
  by (simp add: page_limit_def)

lemma last_take_nth: "0 < n \<Longrightarrow> n < length xs \<Longrightarrow> last (take n xs) = xs ! (n - 1)"
  by (cases xs) (simp_all add: last_conv_nth)

lemma first_page_take:
  assumes "0 < n"
  shows "\<lparr>dp_entries = take n (take (Suc n) xs),
      dp_next = if n < length (take (Suc n) xs) \<and> take n (take (Suc n) xs) \<noteq> []
        then Some (position_of_entry (last (take n (take (Suc n) xs)))) else None\<rparr> = first_page n xs"
  using assms by (auto simp: first_page_def last_take_nth min_def)

lemma page_from_snapshot_reference:
  assumes ord: "in_order lower rq es" and len: "length es \<le> u64_max"
  shows "page_from_snapshot lower es rq = first_page (page_limit rq) (filter (follows lower rq) es)"
proof -
  let ?c = "compare_entries lower (dl_sort rq) (dl_direction rq)"
  let ?start = "case dl_after rq of None \<Rightarrow> 0
    | Some after \<Rightarrow> partition_point (\<lambda>e. ?c e (as_entry after) \<noteq> Greater) es 0 (length es)"
  have le: "?start \<le> length es \<and> drop ?start es = filter (follows lower rq) es"
  proof (cases "dl_after rq")
    case None
    then show ?thesis by (simp add: follows_def)
  next
    case (Some p)
    let ?P = "\<lambda>e. ?c e (as_entry p) \<noteq> Greater"
    have down: "?P x" if "?c x y = Less" "?P y" for x y
    proof (cases "?c y (as_entry p)")
      case Less
      with entry_less_trans [OF that(1)] show ?thesis by simp
    next
      case Equiv
      with comparator.trans_less_equiv [OF comparator_entries that(1)] show ?thesis by simp
    qed (use that in simp)
    have start: "?start = length (takeWhile ?P es)"
      unfolding Some option.case
      by (rule partition_point_split)
         (use ord down in \<open>auto simp: in_order_def sorted_wrt_iff_nth_less dest!: spec\<close>)
    have "drop (length (takeWhile ?P es)) es = dropWhile ?P es"
      by (rule dropWhile_eq_drop [symmetric])
    also have "\<dots> = filter (\<lambda>x. \<not> ?P x) es"
      by (rule dropWhile_filter_sorted [OF down ord [unfolded in_order_def]])
    finally show ?thesis
      using length_takeWhile_le [of ?P es] unfolding start by (simp add: follows_def [abs_def] Some)
  qed
  define start where "start = ?start"
  define rest where "rest = filter (follows lower rq) es"
  have rest: "start \<le> length es" "drop start es = rest" "length rest = length es - start"
    using le by (auto simp: start_def rest_def simp flip: length_drop)
  have ends: "min (saturating_add start (page_limit rq)) (length es) = min (start + page_limit rq) (length es)"
    using len by (auto simp: saturating_add_def)
  have "page_from_snapshot lower es rq =
    (let end_index = min (start + page_limit rq) (length es); page = take (end_index - start) rest
     in \<lparr>dp_entries = page, dp_next = if end_index < length es \<and> page \<noteq> [] then Some (position_of_entry (last page)) else None\<rparr>)"
    unfolding page_from_snapshot_def Let_def page_limit_def [symmetric] start_def [symmetric] ends rest(2) by (rule refl)
  also have "\<dots> = first_page (page_limit rq) rest"
    using rest(1,3) page_limit_pos [of rq] by (auto simp: first_page_def Let_def min_def last_take_nth simp del: page_limit_pos)
  finally show ?thesis by (simp add: rest_def)
qed

lemma collector_request [simp]: "pc_request (collector_consider lower e pc) = pc_request pc"
  by (simp add: collector_consider_def Let_def)

lemma collector_fold_request [simp]: "pc_request (fold (collector_consider lower) es pc) = pc_request pc"
  by (induction es arbitrary: pc) simp_all

lemma collector_skips:
  "\<not> (matches lower rq e \<and> follows lower rq e) \<Longrightarrow> pc_request pc = pc_request (collector_new lower rq)
    \<Longrightarrow> collector_consider lower e pc = pc"
  by (auto simp: collector_consider_def collector_new_def matches_def follows_def Let_def split: option.splits)

lemma collector_inserts:
  assumes m: "matches lower rq e" "follows lower rq e" and lim: "page_limit rq < u64_max"
    and rq: "pc_request pc = pc_request (collector_new lower rq)"
    and es: "pc_entries pc = take (Suc (page_limit rq)) (sorted_entries lower rq xs)"
    and d: "distinct_entries (xs @ [e])"
  shows "pc_entries (collector_consider lower e pc) = take (Suc (page_limit rq)) (sorted_entries lower rq (xs @ [e]))"
proof -
  let ?c = "compare_entries lower (dl_sort rq) (dl_direction rq)"
  let ?n = "Suc (page_limit rq)"
  let ?P = "\<lambda>x. ?c x e = Less"
  define ys where "ys = pc_entries pc"
  have "in_order lower rq (sorted_entries lower rq xs)"
    using d by (intro in_order_sorted_entries) (simp add: distinct_entries_def)
  then have ord: "sorted_wrt (\<lambda>a b. ?c a b = Less) ys"
    unfolding ys_def es in_order_def by (rule sorted_wrt_take)
  have sub: "set ys \<subseteq> set xs"
    unfolding ys_def es using set_take_subset [of ?n "sorted_entries lower rq xs"] by simp
  have ne: "?c x e \<noteq> Equiv" if "x \<in> set ys" for x
    using compare_entries_Equiv [of lower _ _ x e] that sub d by (fastforce simp: distinct_entries_def)
  have "partition_point ?P ys 0 (length ys) = length (takeWhile ?P ys)"
    using ord by (intro partition_point_split) (auto simp: sorted_wrt_iff_nth_less dest: entry_less_trans)
  then have "binary_search (\<lambda>x. ?c x e) ys 0 (length ys) = Inl (length (takeWhile ?P ys))"
    using binary_search_partition_point [of "length ys" ys "\<lambda>x. ?c x e" 0] ne by simp
  moreover define zs where "zs = takeWhile ?P ys @ e # dropWhile ?P ys"
  ultimately have "pc_entries (collector_consider lower e pc) =
      (if saturating_add (max (dl_limit rq) (Suc 0)) (Suc 0) < length zs then butlast zs else zs)"
    using m rq unfolding ys_def zs_def
    by (simp add: collector_consider_def collector_new_def matches_def follows_def Let_def
        takeWhile_eq_take [symmetric] dropWhile_eq_drop [symmetric] del: length_append split: option.splits)
  also have "saturating_add (max (dl_limit rq) (Suc 0)) (Suc 0) = ?n"
    using lim by (auto simp: page_limit_def saturating_add_def max_def)
  also have "(if ?n < length zs then butlast zs else zs) = take ?n zs"
  proof -
    have "length (takeWhile ?P ys) + length (dropWhile ?P ys) = length ys"
      by (metis length_append takeWhile_dropWhile_id)
    then have "length zs \<le> Suc ?n" by (simp add: zs_def) (simp add: ys_def es)
    then have "length zs - 1 = ?n" if "?n < length zs" using that by linarith
    then show ?thesis by (simp add: butlast_conv_take)
  qed
  also have "\<dots> = take ?n (sorted_entries lower rq (xs @ [e]))"
    unfolding zs_def ys_def es sorted_entries_snoc [OF d] by (rule take_insert_take)
  finally show ?thesis .
qed

lemma collector_entries:
  "\<lbrakk>distinct_entries es; page_limit rq < u64_max\<rbrakk>
    \<Longrightarrow> pc_entries (fold (collector_consider lower) es (collector_new lower rq)) =
        take (Suc (page_limit rq)) (sorted_entries lower rq (filter (\<lambda>e. matches lower rq e \<and> follows lower rq e) es))"
proof (induction es rule: rev_induct)
  case Nil
  then show ?case by (simp add: collector_new_def sorted_entries_def)
next
  case (snoc e es)
  let ?Q = "\<lambda>e. matches lower rq e \<and> follows lower rq e"
  have IH: "pc_entries (fold (collector_consider lower) es (collector_new lower rq)) =
      take (Suc (page_limit rq)) (sorted_entries lower rq (filter ?Q es))"
    using snoc by (simp add: distinct_entries_def)
  show ?case
  proof (cases "?Q e")
    case True
    have "distinct_entries (filter ?Q es @ [e])"
      using distinct_entries_filter [OF snoc.prems(1), of ?Q] True by simp
    with True snoc.prems(2) IH show ?thesis by (simp add: collector_inserts)
  next
    case False
    then have "fold (collector_consider lower) (es @ [e]) (collector_new lower rq) =
        fold (collector_consider lower) es (collector_new lower rq)"
      using collector_skips [OF False] by simp
    with False IH show ?thesis by (simp only: filter_append filter.simps if_False append_Nil2)
  qed
qed

lemma collector_page:
  assumes "distinct_entries es" "page_limit rq < u64_max"
  shows "collector_finish (fold (collector_consider lower) es (collector_new lower rq)) =
    first_page (page_limit rq) (filter (follows lower rq) (listing lower rq es))"
proof -
  let ?X = "sorted_entries lower rq (filter (\<lambda>e. matches lower rq e \<and> follows lower rq e) es)"
  have X: "filter (follows lower rq) (listing lower rq es) = ?X"
    using assms(1) by (simp add: listing_def filter_sorted_entries distinct_entries_filter conj_commute)
  have lim: "dl_limit (pc_request (collector_new lower rq)) = page_limit rq"
    by (simp add: collector_new_def page_limit_def)
  show ?thesis
    unfolding X collector_finish_def Let_def collector_fold_request lim collector_entries [OF assms]
    by (rule first_page_take) simp
qed

text \<open>The candidate holds the matching entries, or the collector that has seen them.\<close>

lemma candidate_request [simp]:
  "dc_request (candidate_consider lower sz e dc) = dc_request dc" "dc_search (candidate_consider lower sz e dc) = dc_search dc"
  by (simp_all add: candidate_consider_def Let_def split: candidate_state.splits)

lemma candidate_states:
  assumes "dc = fold (candidate_consider lower sz) es (candidate_with_limits lower rq n b)"
  shows "dc_request dc = rq \<and> dc_search dc = normalized_search lower (dl_search rq) \<and>
    ((\<exists>bytes. dc_state dc = CandidateSnapshot (filter (matches lower rq) es) bytes) \<or>
     dc_state dc = CandidatePage (fold (collector_consider lower) (filter (matches lower rq) es) (collector_new lower rq)))"
  using assms
proof (induction es arbitrary: dc rule: rev_induct)
  case Nil
  then show ?case by (simp add: candidate_with_limits_def)
next
  case (snoc e es)
  define prev where "prev = fold (candidate_consider lower sz) es (candidate_with_limits lower rq n b)"
  have dc: "dc = candidate_consider lower sz e prev" using snoc.prems by (simp add: prev_def)
  from snoc.IH [OF prev_def] have req: "dc_request prev = rq" "dc_search prev = normalized_search lower (dl_search rq)" by auto
  show ?case
  proof (cases "matches lower rq e")
    case False
    then have "candidate_consider lower sz e prev = prev"
      by (auto simp: candidate_consider_def req matches_def split: option.splits)
    with False snoc.IH [OF prev_def] dc show ?thesis by simp
  next
    case True
    then have step: "candidate_consider lower sz e prev =
      (case dc_state prev of
         CandidatePage collector \<Rightarrow> prev\<lparr>dc_state := CandidatePage (collector_consider lower e collector)\<rparr>
       | CandidateSnapshot xs estimated \<Rightarrow>
           if length xs < dc_max_entries prev \<and> saturating_add estimated (estimate_entry sz e) \<le> dc_max_bytes prev
           then prev\<lparr>dc_state := CandidateSnapshot (xs @ [e]) (saturating_add estimated (estimate_entry sz e))\<rparr>
           else prev\<lparr>dc_state := CandidatePage (collector_consider lower e
                   (fold (collector_consider lower) xs (collector_new lower rq)))\<rparr>)"
      by (auto simp: candidate_consider_def req matches_def Let_def split: option.splits candidate_state.splits)
    from snoc.IH [OF prev_def] True req show ?thesis
      unfolding dc step by (auto split: candidate_state.splits)
  qed
qed

lemma prepare_without_search: "prepare_snapshot lower es None (dl_sort rq) (dl_direction rq) = sorted_entries lower rq es"
  by (simp add: prepare_snapshot_def normalized_search_def sorted_entries_def)

lemma build_page_reference:
  assumes d: "distinct_entries es" and len: "length es \<le> u64_max" and lim: "page_limit rq < u64_max"
  shows "build_page lower sz rq es = first_page (page_limit rq) (filter (follows lower rq) (listing lower rq es))"
proof -
  define M where "M = filter (matches lower rq) es"
  define dc where "dc = fold (candidate_consider lower sz) es (candidate_new lower rq)"
  have M: "distinct_entries M" "length M \<le> u64_max" "listing lower rq M = listing lower rq es"
    "listing lower rq es = sorted_entries lower rq M"
    using d len length_filter_le [of "matches lower rq" es]
    by (auto simp: M_def listing_def distinct_entries_filter simp del: length_filter_le)
  consider (snapshot) bytes where "dc_state dc = CandidateSnapshot M bytes"
    | (page) "dc_state dc = CandidatePage (fold (collector_consider lower) M (collector_new lower rq))"
    using candidate_states [of dc lower sz es rq] unfolding dc_def candidate_new_def M_def by blast
  then show ?thesis
  proof cases
    case snapshot
    have "in_order lower rq (sorted_entries lower rq M)" by (rule in_order_sorted_entries [OF M(1)])
    from page_from_snapshot_reference [OF this] M snapshot show ?thesis
      by (simp add: build_page_def candidate_finish_def prepare_without_search flip: dc_def)
  next
    case page
    with collector_page [OF M(1) lim, of lower] M show ?thesis
      by (simp add: build_page_def candidate_finish_def flip: dc_def)
  qed
qed

text \<open>
  C26: Every page of a directory is the page of the sorted listing that its request asks for: the
  first entries after the cursor among all entries that match the filter and the search, in the
  requested order, with a cursor exactly when more entries follow. It does not matter whether the
  directory fits a snapshot, whether the page was collected while the directory was scanned, or
  whether a snapshot that was kept is read again.
\<close>

theorem directory_pages_agree:
  assumes "distinct_entries es" "length es \<le> u64_max" "page_limit rq < u64_max"
  shows "build_page lower entry_size rq es = first_page (page_limit rq) (filter (follows lower rq) (listing lower rq es)) \<and>
    collector_finish (fold (collector_consider lower) es (collector_new lower rq)) = build_page lower entry_size rq es \<and>
    page_from_snapshot lower (listing lower rq es) rq = build_page lower entry_size rq es"
proof -
  have "in_order lower rq (listing lower rq es)"
    unfolding listing_def using assms(1) by (intro in_order_sorted_entries distinct_entries_filter)
  moreover have "length (listing lower rq es) \<le> u64_max"
    using assms(2) length_filter_le [of "matches lower rq" es] by (simp add: listing_def del: length_filter_le)
  ultimately show ?thesis
    using build_page_reference [OF assms] collector_page [OF assms(1,3)] page_from_snapshot_reference by simp
qed

definition sample_entries :: "backend_entry list" where
  "sample_entries =
     [\<lparr>be_name = ''d'', be_relative = ''d'', be_is_dir = False, be_size = 4, be_modified_unix = None\<rparr>,
      \<lparr>be_name = ''a'', be_relative = ''a'', be_is_dir = False, be_size = 1, be_modified_unix = Some 5\<rparr>,
      \<lparr>be_name = ''z'', be_relative = ''z'', be_is_dir = True, be_size = 0, be_modified_unix = None\<rparr>]"

definition sample_request :: directory_list_request where
  "sample_request = \<lparr>dl_limit = 2, dl_search = None, dl_sort = SortName, dl_direction = Asc, dl_filter = AllEntries, dl_after = None\<rparr>"

lemmas sample_page_defs = sample_entries_def sample_request_def page_limit_def distinct_entries_def u64_max_def

theorem directory_pages_agree_witness:
  "distinct_entries sample_entries \<and> page_limit sample_request < u64_max \<and>
   page_from_snapshot to_ascii_lowercase (listing to_ascii_lowercase sample_request sample_entries) sample_request =
   build_page to_ascii_lowercase 80 sample_request sample_entries"
  using directory_pages_agree [of sample_entries sample_request to_ascii_lowercase 80]
  by (simp add: sample_page_defs)

section \<open>Browsing a directory\<close>

text \<open>A client that asks for pages with the cursor of the page before, up to \<open>fuel\<close> pages.\<close>

primrec browse ::
  "nat \<Rightarrow> (str \<Rightarrow> str) \<Rightarrow> nat \<Rightarrow> directory_list_request \<Rightarrow> backend_entry list \<Rightarrow> backend_entry list option" where
  "browse 0 lower entry_size rq es = None"
| "browse (Suc n) lower entry_size rq es =
     (let page = build_page lower entry_size rq es
      in case dp_next page of
           None \<Rightarrow> Some (dp_entries page)
         | Some p \<Rightarrow> map_option ((@) (dp_entries page)) (browse n lower entry_size (rq\<lparr>dl_after := Some p\<rparr>) es))"

lemma as_entry_position [simp]: "as_entry (position_of_entry e) = e"
  by (simp add: as_entry_def position_of_entry_def)

lemma filter_after_entry:
  assumes "in_order lower rq (xs @ y # ys)"
  shows "filter (follows lower (rq\<lparr>dl_after := Some (position_of_entry y)\<rparr>)) (xs @ y # ys) = ys"
proof -
  let ?c = "compare_entries lower (dl_sort rq) (dl_direction rq)"
  have "?c x y \<noteq> Greater" if "x \<in> set xs" for x
    using assms that by (auto simp: in_order_def sorted_wrt_append)
  moreover have "?c z y = Greater" if "z \<in> set ys" for z
    using assms that by (auto simp: in_order_def sorted_wrt_append entry_greater)
  ultimately show ?thesis
    by (auto simp: follows_def comparator.refl [OF comparator_entries] filter_empty_conv intro!: filter_True)
qed

lemma listing_after [simp]: "listing lower (rq\<lparr>dl_after := a\<rparr>) es = listing lower rq es"
proof -
  have "matches lower (rq\<lparr>dl_after := a\<rparr>) = matches lower rq" by (simp add: matches_def fun_eq_iff)
  then show ?thesis by (simp add: listing_def sorted_entries_def)
qed

lemma browse_rest:
  assumes d: "distinct_entries es" "length es \<le> u64_max" "page_limit rq < u64_max"
    and L: "listing lower rq es = xs @ rest" and rest: "filter (follows lower rq) (listing lower rq es) = rest"
    and n: "length rest < n"
  shows "browse n lower sz rq es = Some rest"
  using assms
proof (induction n arbitrary: rq xs rest)
  case (Suc n)
  let ?l = "page_limit rq"
  have page: "build_page lower sz rq es = first_page ?l rest"
    using build_page_reference [OF Suc.prems(1-3)] Suc.prems(5) by simp
  show ?case
  proof (cases "?l < length rest")
    case False
    with page show ?thesis by (simp add: first_page_def)
  next
    case True
    let ?y = "rest ! (?l - 1)"
    let ?rq = "rq\<lparr>dl_after := Some (position_of_entry ?y)\<rparr>"
    have pos: "0 < ?l" by simp
    have split: "rest = take (?l - 1) rest @ ?y # drop ?l rest"
      using id_take_nth_drop [of "?l - 1" rest] True pos by simp
    then have L': "listing lower rq es = (xs @ take (?l - 1) rest) @ ?y # drop ?l rest"
      using Suc.prems(4) by (metis append.assoc)
    have "in_order lower rq (listing lower rq es)"
      unfolding listing_def using d(1) by (intro in_order_sorted_entries distinct_entries_filter)
    then have after: "filter (follows lower ?rq) (listing lower ?rq es) = drop ?l rest"
      unfolding listing_after L' by (rule filter_after_entry)
    have "browse n lower sz ?rq es = Some (drop ?l rest)"
    proof (rule Suc.IH)
      show "listing lower ?rq es = (xs @ take ?l rest) @ drop ?l rest" using Suc.prems(4) by simp
      show "page_limit ?rq < u64_max" using Suc.prems(3) by (simp add: page_limit_def)
      show "length (drop ?l rest) < n" using Suc.prems(6) True pos unfolding length_drop by linarith
    qed (use d after in simp_all)
    with page True show ?thesis by (simp add: first_page_def)
  qed
qed simp

text \<open>
  C27: Following the cursors shows a directory completely and exactly once: the client that starts
  without a cursor and repeats the request with the cursor of each page gets, after finitely many
  pages, the concatenation that is the whole sorted listing, and then no further cursor.
\<close>

theorem browsing_lists_everything:
  assumes "distinct_entries es" "length es \<le> u64_max" "page_limit rq < u64_max" "dl_after rq = None" "length es < fuel"
  shows "browse fuel lower entry_size rq es = Some (listing lower rq es)"
proof (rule browse_rest [where xs = "[]"])
  show "filter (follows lower rq) (listing lower rq es) = listing lower rq es"
    using assms(4) by (simp add: follows_def)
  show "length (listing lower rq es) < fuel"
    using assms(5) length_filter_le [of "matches lower rq" es] by (simp add: listing_def del: length_filter_le)
qed (use assms in simp_all)

theorem browsing_lists_everything_witness:
  "length sample_entries < 4 \<and>
   browse 4 to_ascii_lowercase 80 sample_request sample_entries = Some (listing to_ascii_lowercase sample_request sample_entries)"
  using browsing_lists_everything [of sample_entries sample_request 4 to_ascii_lowercase 80]
  by (simp add: sample_page_defs)

end
