(* ===== verification/DirectorySnapshots.thy ===== *)
theory DirectorySnapshots
  imports DirectoryListing "HOL-Library.Word"
begin

text \<open>
  The store of kept directory snapshots (src/src/directory_snapshot.rs): claims, builds, publication
  within the limits of entries and bytes, expiry and invalidation by writers. Time is counted in
  nanoseconds. The store is shared by readers and writers; a relation of their interleaved steps
  shows that a kept snapshot is the current directory whenever no writer is at work and nothing else
  has changed the files since it was built, and that it is served no longer than its lifetime.
\<close>

section \<open>State\<close>

definition SNAPSHOT_TTL :: nat where
  "SNAPSHOT_TTL = 30 * 1000000000"

definition MAX_SNAPSHOTS :: nat where
  "MAX_SNAPSHOTS = 8"

record directory_snapshot_key =
  dk_directory :: str
  dk_search :: "str option"
  dk_sort :: directory_sort
  dk_direction :: sort_direction
  dk_filter :: directory_entry_filter

definition snapshot_key_new :: "(str \<Rightarrow> str) \<Rightarrow> str \<Rightarrow> directory_list_request \<Rightarrow> directory_snapshot_key" where
  "snapshot_key_new lower directory rq =
     \<lparr>dk_directory = directory, dk_search = normalized_search lower (dl_search rq), dk_sort = dl_sort rq,
      dk_direction = dl_direction rq, dk_filter = dl_filter rq\<rparr>"

record retained_snapshot =
  rs_entries :: "backend_entry list"
  rs_created_at :: nat
  rs_last_used :: nat
  rs_estimated_bytes :: nat

record snapshot_limits =
  sl_ttl :: nat
  sl_max_snapshots :: nat
  sl_max_entries :: nat
  sl_max_bytes :: nat

definition store_with_limits :: "nat \<Rightarrow> nat \<Rightarrow> nat \<Rightarrow> nat \<Rightarrow> snapshot_limits" where
  "store_with_limits ttl snapshots entries bytes =
     \<lparr>sl_ttl = ttl, sl_max_snapshots = max snapshots 1, sl_max_entries = max entries 1, sl_max_bytes = max bytes 1\<rparr>"

definition store_new :: snapshot_limits where
  "store_new = store_with_limits SNAPSHOT_TTL MAX_SNAPSHOTS MAX_SNAPSHOT_ENTRIES MAX_SNAPSHOT_BYTES"

record snapshot_state =
  sn_generation :: "64 word"
  sn_next_build_id :: "64 word"
  sn_retained_bytes :: nat
  sn_snapshots :: "(directory_snapshot_key \<times> retained_snapshot) list"
  sn_builds :: "directory_snapshot_key \<rightharpoonup> 64 word"

definition snapshot_state_default :: snapshot_state where
  "snapshot_state_default =
     \<lparr>sn_generation = 0, sn_next_build_id = 0, sn_retained_bytes = 0, sn_snapshots = [], sn_builds = Map.empty\<rparr>"

record snapshot_build =
  sb_key :: directory_snapshot_key
  sb_id :: "64 word"
  sb_generation :: "64 word"

datatype snapshot_claim =
    Ready "backend_entry list"
  | Wait "64 word"
  | Build snapshot_build

section \<open>Operations\<close>

definition remove_snapshot :: "directory_snapshot_key \<Rightarrow> snapshot_state \<Rightarrow> snapshot_state" where
  "remove_snapshot k st =
     (case al_get (sn_snapshots st) k of
        None \<Rightarrow> st
      | Some removed \<Rightarrow> st\<lparr>sn_snapshots := al_remove k (sn_snapshots st),
                         sn_retained_bytes := sn_retained_bytes st - rs_estimated_bytes removed\<rparr>)"

definition prune_expired_snapshots :: "nat \<Rightarrow> nat \<Rightarrow> snapshot_state \<Rightarrow> snapshot_state" where
  "prune_expired_snapshots ttl now st =
     fold remove_snapshot
       (map fst (filter (\<lambda>(k, snapshot). ttl \<le> now - rs_created_at snapshot) (sn_snapshots st))) st"

definition claim :: "snapshot_limits \<Rightarrow> nat \<Rightarrow> directory_snapshot_key \<Rightarrow> snapshot_state \<Rightarrow> snapshot_state \<times> snapshot_claim" where
  "claim lim now k st =
     (let st = prune_expired_snapshots (sl_ttl lim) now st
      in case al_get (sn_snapshots st) k of
           Some snapshot \<Rightarrow>
             (st\<lparr>sn_snapshots := al_insert k (snapshot\<lparr>rs_last_used := now\<rparr>) (sn_snapshots st)\<rparr>,
              Ready (rs_entries snapshot))
         | None \<Rightarrow>
             (case sn_builds st k of
                Some i \<Rightarrow> (st, Wait i)
              | None \<Rightarrow>
                  let i = sn_next_build_id st
                  in (st\<lparr>sn_next_build_id := i + 1, sn_builds := (sn_builds st)(k \<mapsto> i)\<rparr>,
                      Build \<lparr>sb_key = k, sb_id = i, sb_generation = sn_generation st\<rparr>)))"

definition invalidate :: "snapshot_state \<Rightarrow> snapshot_state" where
  "invalidate st = st\<lparr>sn_generation := sn_generation st + 1, sn_snapshots := [], sn_retained_bytes := 0\<rparr>"

definition estimate_entries :: "nat \<Rightarrow> backend_entry list \<Rightarrow> nat" where
  "estimate_entries entry_size es = foldl (\<lambda>total e. saturating_add total (estimate_entry entry_size e)) 0 es"

lemma al_remove_shorter: "k \<in> fst ` set xs \<Longrightarrow> length (al_remove k xs) < length xs"
  unfolding al_remove_def by (auto intro: length_filter_less)

text \<open>The snapshots that were used least recently give way.\<close>

function make_snapshot_room :: "snapshot_limits \<Rightarrow> nat \<Rightarrow> snapshot_state \<Rightarrow> snapshot_state" where
  "make_snapshot_room lim estimated st =
     (if sl_max_snapshots lim \<le> length (sn_snapshots st) \<or>
         sl_max_bytes lim < saturating_add (sn_retained_bytes st) estimated
      then case min_by_key (\<lambda>(_, snapshot). rs_last_used snapshot) (sn_snapshots st) of
             None \<Rightarrow> st
           | Some (oldest, _) \<Rightarrow> make_snapshot_room lim estimated (remove_snapshot oldest st)
      else st)"
  by pat_completeness auto
termination
proof (relation "measure (\<lambda>(_, _, st). length (sn_snapshots st))", goal_cases)
  case (2 lim estimated st p oldest r)
  then have mem: "oldest \<in> fst ` set (sn_snapshots st)"
    by (force dest: min_by_key_Some)
  then obtain removed where "al_get (sn_snapshots st) oldest = Some removed"
    by (metis al_get_def map_of_eq_None_iff option.exhaust)
  with al_remove_shorter [OF mem] show ?case by (simp add: remove_snapshot_def)
qed simp

declare make_snapshot_room.simps [simp del]

definition publish_snapshot ::
  "snapshot_limits \<Rightarrow> nat \<Rightarrow> nat \<Rightarrow> snapshot_build \<Rightarrow> backend_entry list \<Rightarrow> snapshot_state \<Rightarrow> snapshot_state" where
  "publish_snapshot lim entry_size now build es st =
     (let estimated = estimate_entries entry_size es;
          is_current = (sn_builds st (sb_key build) = Some (sb_id build));
          st = (if is_current then st\<lparr>sn_builds := (sn_builds st)(sb_key build := None)\<rparr> else st)
      in if is_current \<and> sn_generation st = sb_generation build \<and> length es \<le> sl_max_entries lim \<and>
            estimated \<le> sl_max_bytes lim
         then let st = make_snapshot_room lim estimated st
              in if saturating_add (sn_retained_bytes st) estimated \<le> sl_max_bytes lim
                 then st\<lparr>sn_retained_bytes := saturating_add (sn_retained_bytes st) estimated,
                         sn_snapshots := al_insert (sb_key build)
                           \<lparr>rs_entries = es, rs_created_at = now, rs_last_used = now, rs_estimated_bytes = estimated\<rparr>
                           (sn_snapshots st)\<rparr>
                 else st
         else st)"

text \<open>A build that is dropped without publication.\<close>

definition drop_build :: "snapshot_build \<Rightarrow> snapshot_state \<Rightarrow> snapshot_state" where
  "drop_build build st =
     (if sn_builds st (sb_key build) = Some (sb_id build)
      then st\<lparr>sn_builds := (sn_builds st)(sb_key build := None)\<rparr> else st)"

section \<open>The limits are kept\<close>

definition snapshot_bytes :: "(directory_snapshot_key \<times> retained_snapshot) list \<Rightarrow> nat" where
  "snapshot_bytes xs = sum_list (map (rs_estimated_bytes \<circ> snd) xs)"

definition store_inv :: "snapshot_limits \<Rightarrow> snapshot_state \<Rightarrow> bool" where
  "store_inv lim st \<longleftrightarrow>
     distinct (map fst (sn_snapshots st)) \<and>
     sn_retained_bytes st = snapshot_bytes (sn_snapshots st) \<and> sn_retained_bytes st \<le> sl_max_bytes lim \<and>
     length (sn_snapshots st) \<le> sl_max_snapshots lim \<and>
     (\<forall>(k, snapshot) \<in> set (sn_snapshots st). length (rs_entries snapshot) \<le> sl_max_entries lim) \<and>
     (\<forall>k \<in> fst ` set (sn_snapshots st). sn_builds st k = None)"

lemma bytes_remove:
  "\<lbrakk>distinct (al_keys xs); al_get xs k = Some r\<rbrakk> \<Longrightarrow> snapshot_bytes (al_remove k xs) + rs_estimated_bytes r = snapshot_bytes xs"
proof (induction xs)
  case (Cons x xs)
  obtain a b where x: "x = (a, b)" by (cases x)
  show ?case
  proof (cases "a = k")
    case True
    with Cons.prems have "k \<notin> fst ` set xs" by (auto simp: x)
    then have "al_remove k xs = xs" by (force simp: al_remove_def filter_id_conv)
    with Cons.prems True show ?thesis by (simp add: x snapshot_bytes_def al_remove_def al_get_def)
  next
    case False
    with Cons show ?thesis by (simp add: x snapshot_bytes_def al_remove_def al_get_def)
  qed
qed (simp add: al_get_def)

lemma bytes_insert: "snapshot_bytes (al_insert k r xs) = rs_estimated_bytes r + snapshot_bytes (al_remove k xs)"
  by (simp add: snapshot_bytes_def al_insert_def)

lemma al_remove_absent: "k \<notin> fst ` set xs \<Longrightarrow> al_remove k xs = xs"
  by (force simp: al_remove_def filter_id_conv)

lemma members_al_insert: "set (al_insert k r xs) = insert (k, r) {(k', v) \<in> set xs. k' \<noteq> k}"
  by (simp add: al_insert_def)

lemma al_get_member: "al_get xs k = Some r \<Longrightarrow> (k, r) \<in> set xs"
  by (simp add: al_get_def map_of_SomeD)

lemma remove_snapshot_frame [simp]:
  "sn_generation (remove_snapshot k st) = sn_generation st" "sn_builds (remove_snapshot k st) = sn_builds st"
  by (simp_all add: remove_snapshot_def split: option.splits)

lemma remove_snapshot_subset: "set (sn_snapshots (remove_snapshot k st)) \<subseteq> set (sn_snapshots st)"
  by (auto simp: remove_snapshot_def split: option.splits)

lemma remove_snapshot_inv: "store_inv lim st \<Longrightarrow> store_inv lim (remove_snapshot k st)"
proof (cases "al_get (sn_snapshots st) k")
  case (Some r)
  assume inv: "store_inv lim st"
  have "snapshot_bytes (al_remove k (sn_snapshots st)) = sn_retained_bytes st - rs_estimated_bytes r"
    using bytes_remove [OF _ Some] inv by (simp add: store_inv_def)
  then show ?thesis
    using inv Some order_trans [OF length_al_remove, of "sn_snapshots st" "sl_max_snapshots lim" k]
    unfolding remove_snapshot_def store_inv_def by auto
qed (simp add: remove_snapshot_def)

lemma fold_remove_frame:
  "sn_generation (fold remove_snapshot ks st) = sn_generation st \<and> sn_builds (fold remove_snapshot ks st) = sn_builds st \<and>
   set (sn_snapshots (fold remove_snapshot ks st)) \<subseteq> set (sn_snapshots st)"
proof (induction ks arbitrary: st)
  case (Cons k ks)
  show ?case using Cons [of "remove_snapshot k st"] remove_snapshot_subset [of k st] by auto
qed simp

lemma fold_remove_inv: "store_inv lim st \<Longrightarrow> store_inv lim (fold remove_snapshot ks st)"
  by (induction ks arbitrary: st) (simp_all add: remove_snapshot_inv)

lemma prune_frame [simp]:
  "sn_generation (prune_expired_snapshots ttl now st) = sn_generation st" "sn_builds (prune_expired_snapshots ttl now st) = sn_builds st"
  and prune_subset: "set (sn_snapshots (prune_expired_snapshots ttl now st)) \<subseteq> set (sn_snapshots st)"
  using fold_remove_frame unfolding prune_expired_snapshots_def by auto

lemma prune_expired_inv: "store_inv lim st \<Longrightarrow> store_inv lim (prune_expired_snapshots ttl now st)"
  unfolding prune_expired_snapshots_def by (rule fold_remove_inv)

text \<open>What making room does is to remove snapshots.\<close>

lemma make_snapshot_room_induct:
  assumes step: "\<And>st k. P st \<Longrightarrow> P (remove_snapshot k st)"
  shows "P st \<Longrightarrow> P (make_snapshot_room lim n st)"
proof (induction lim n st rule: make_snapshot_room.induct)
  case (1 lim n st)
  then show ?case by (subst make_snapshot_room.simps) (auto simp: step split: option.splits)
qed

lemma make_snapshot_room_frame:
  "sn_generation (make_snapshot_room lim n st) = sn_generation st \<and> sn_builds (make_snapshot_room lim n st) = sn_builds st \<and>
   set (sn_snapshots (make_snapshot_room lim n st)) \<subseteq> set (sn_snapshots st)"
  by (rule make_snapshot_room_induct [where P = "\<lambda>s. sn_generation s = sn_generation st \<and> sn_builds s = sn_builds st \<and>
        set (sn_snapshots s) \<subseteq> set (sn_snapshots st)"]) (use remove_snapshot_subset in fastforce)+

lemma make_snapshot_room_inv: "store_inv lim st \<Longrightarrow> store_inv lim (make_snapshot_room lim n st)"
  by (rule make_snapshot_room_induct [of "store_inv lim"]) (rule remove_snapshot_inv)

lemma make_snapshot_room_space:
  "length (sn_snapshots (make_snapshot_room lim n st)) < sl_max_snapshots lim \<or> sn_snapshots (make_snapshot_room lim n st) = []"
proof (induction lim n st rule: make_snapshot_room.induct)
  case (1 lim n st)
  show ?case
  proof (cases "sl_max_snapshots lim \<le> length (sn_snapshots st) \<or> sl_max_bytes lim < saturating_add (sn_retained_bytes st) n")
    case False
    then show ?thesis by (subst (1 2) make_snapshot_room.simps) auto
  next
    case True
    show ?thesis
    proof (cases "min_by_key (\<lambda>(_, snapshot). rs_last_used snapshot) (sn_snapshots st)")
      case None
      then have "make_snapshot_room lim n st = st" by (subst make_snapshot_room.simps) simp
      with None show ?thesis by simp
    next
      case (Some p)
      obtain k r where p: "p = (k, r)" by (cases p)
      have "make_snapshot_room lim n st = make_snapshot_room lim n (remove_snapshot k st)"
        using True Some p by (subst make_snapshot_room.simps) auto
      with 1 [OF True Some p [symmetric]] show ?thesis by simp
    qed
  qed
qed

lemma invalidate_inv: "store_inv lim (invalidate st)"
  by (simp add: store_inv_def invalidate_def snapshot_bytes_def)

lemma drop_build_inv: "store_inv lim st \<Longrightarrow> store_inv lim (drop_build b st)"
  by (simp add: store_inv_def drop_build_def)

lemma length_al_insert_known: "al_get xs k = Some r \<Longrightarrow> length (al_insert k v xs) \<le> length xs"
  using al_remove_shorter [of k xs] al_get_member [of xs k r] by (force simp: al_insert_def)

lemma claim_inv:
  assumes "store_inv lim st"
  shows "store_inv lim (fst (claim lim now k st))"
proof -
  define st1 where "st1 = prune_expired_snapshots (sl_ttl lim) now st"
  have inv: "store_inv lim st1" unfolding st1_def by (rule prune_expired_inv [OF assms])
  show ?thesis
  proof (cases "al_get (sn_snapshots st1) k")
    case None
    then have "k \<notin> fst ` set (sn_snapshots st1)" by (simp add: al_get_def map_of_eq_None_iff)
    with None inv show ?thesis
      by (auto simp: claim_def Let_def store_inv_def simp flip: st1_def split: option.splits)
  next
    case (Some r)
    let ?xs = "al_insert k (r\<lparr>rs_last_used := now\<rparr>) (sn_snapshots st1)"
    have mem: "(k, r) \<in> set (sn_snapshots st1)" using Some by (rule al_get_member)
    have d: "distinct (al_keys (sn_snapshots st1))" using inv by (simp add: store_inv_def)
    have "snapshot_bytes ?xs = snapshot_bytes (sn_snapshots st1)"
      using bytes_remove [OF d Some] by (simp add: bytes_insert)
    moreover have "\<forall>(k, snapshot) \<in> set ?xs. length (rs_entries snapshot) \<le> sl_max_entries lim"
      using inv mem by (auto simp: store_inv_def members_al_insert)
    moreover have "\<forall>k \<in> fst ` set ?xs. sn_builds st1 k = None"
      using inv mem by (auto simp: store_inv_def members_al_insert)
    ultimately have "store_inv lim (st1\<lparr>sn_snapshots := ?xs\<rparr>)"
      using inv length_al_insert_known [OF Some, of "r\<lparr>rs_last_used := now\<rparr>"] d by (simp add: store_inv_def distinct_al_insert)
    then show ?thesis using Some by (simp add: claim_def flip: st1_def)
  qed
qed

lemma publish_snapshot_inv:
  assumes inv: "store_inv lim st" and pos: "0 < sl_max_snapshots lim" and big: "sl_max_bytes lim < u64_max"
  shows "store_inv lim (publish_snapshot lim sz now b es st)"
proof -
  define n where "n = estimate_entries sz es"
  define st1 where "st1 = drop_build b st"
  define st2 where "st2 = make_snapshot_room lim n st1"
  let ?r = "\<lparr>rs_entries = es, rs_created_at = now, rs_last_used = now, rs_estimated_bytes = n\<rparr>"
  have inv1: "store_inv lim st1" unfolding st1_def by (rule drop_build_inv [OF inv])
  have inv2: "store_inv lim st2" unfolding st2_def by (rule make_snapshot_room_inv [OF inv1])
  have space: "Suc (length (sn_snapshots st2)) \<le> sl_max_snapshots lim"
    using make_snapshot_room_space [of lim n st1] pos by (auto simp: st2_def)
  let ?c = "sn_builds st (sb_key b) = Some (sb_id b) \<and> sn_generation st1 = sb_generation b \<and>
    length es \<le> sl_max_entries lim \<and> n \<le> sl_max_bytes lim"
  have eq: "publish_snapshot lim sz now b es st =
    (if ?c then if saturating_add (sn_retained_bytes st2) n \<le> sl_max_bytes lim
       then st2\<lparr>sn_retained_bytes := saturating_add (sn_retained_bytes st2) n, sn_snapshots := al_insert (sb_key b) ?r (sn_snapshots st2)\<rparr>
       else st2
     else st1)"
    unfolding publish_snapshot_def Let_def n_def [symmetric] drop_build_def [symmetric] st1_def [symmetric] st2_def [symmetric] by (rule refl)
  show ?thesis
  proof (cases "?c \<and> saturating_add (sn_retained_bytes st2) n \<le> sl_max_bytes lim")
    case True
    have absent: "sb_key b \<notin> fst ` set (sn_snapshots st2)"
      using inv True make_snapshot_room_frame [of lim n st1]
      by (fastforce simp: store_inv_def st2_def st1_def drop_build_def)
    have none: "sn_builds st2 (sb_key b) = None"
      using True make_snapshot_room_frame [of lim n st1] by (simp add: st2_def st1_def drop_build_def)
    have inv2_bytes: "sn_retained_bytes st2 = snapshot_bytes (sn_snapshots st2)" using inv2 by (simp add: store_inv_def)
    have sat: "saturating_add (sn_retained_bytes st2) n = sn_retained_bytes st2 + n"
      using True big by (auto simp: saturating_add_def)
    show ?thesis
      using inv2 True absent none space
      by (auto simp: eq sat [unfolded inv2_bytes snapshot_bytes_def] inv2_bytes store_inv_def snapshot_bytes_def al_remove_absent al_insert_def)
  next
    case False
    with inv1 inv2 show ?thesis by (auto simp: eq)
  qed
qed

section \<open>Readers and writers\<close>

text \<open>
  Writers (the operations of storage_backend.rs that hold an \<open>invalidate_on_drop\<close>) change the files
  and drop their invalidation when they are done; readers claim a key, scan the directory and publish.
  Files also change in the background, with no invalidation: by the S3 recovery worker
  (storage_backend/maintenance.rs, s3_backend/recovery.rs), by \<open>recover_abandoned_uploads_before\<close>, and by
  other programs. The contents of a directory are what a scan and sort for a key would give at this
  moment. A scan reads the directory entry by entry between its claim and its end: it gives the
  contents when they did not change meanwhile, and anything at all when they did. Time passes between
  the steps, and a claim may have read the clock before it got the lock.

  Four components are there for the proofs only: the counts of invalidations (the generation without
  its wrap-around), of changes, and of background changes, and for each key the count of background
  changes at the claim of the build that was published last, with the time of its publication.
\<close>

record listing_build =
  bu_build :: snapshot_build
  bu_invalidations :: nat
  bu_changes :: nat
  bu_background :: nat
  bu_scanned :: "backend_entry list option"

record listing_system =
  ls_store :: snapshot_state
  ls_contents :: "directory_snapshot_key \<Rightarrow> backend_entry list"
  ls_writers :: nat
  ls_clock :: nat
  ls_builds :: "listing_build list"
  ls_invalidations :: nat
  ls_changes :: nat
  ls_background :: nat
  ls_kept :: "directory_snapshot_key \<Rightarrow> nat \<times> nat"

definition listing_initial :: "(directory_snapshot_key \<Rightarrow> backend_entry list) \<Rightarrow> listing_system" where
  "listing_initial contents =
     \<lparr>ls_store = snapshot_state_default, ls_contents = contents, ls_writers = 0, ls_clock = 0, ls_builds = [],
      ls_invalidations = 0, ls_changes = 0, ls_background = 0, ls_kept = (\<lambda>_. (0, 0))\<rparr>"

definition listing_build_new :: "snapshot_build \<Rightarrow> listing_system \<Rightarrow> listing_build" where
  "listing_build_new b s =
     \<lparr>bu_build = b, bu_invalidations = ls_invalidations s, bu_changes = ls_changes s, bu_background = ls_background s,
      bu_scanned = None\<rparr>"

inductive listing_step :: "snapshot_limits \<Rightarrow> nat \<Rightarrow> listing_system \<Rightarrow> listing_system \<Rightarrow> bool" for lim sz where
  begin_write: "listing_step lim sz s (s\<lparr>ls_writers := ls_writers s + 1\<rparr>)"
| change_files: "0 < ls_writers s \<Longrightarrow>
     listing_step lim sz s (s\<lparr>ls_contents := contents, ls_changes := ls_changes s + 1\<rparr>)"
| end_write: "0 < ls_writers s \<Longrightarrow> listing_step lim sz s
     (s\<lparr>ls_writers := ls_writers s - 1, ls_invalidations := ls_invalidations s + 1, ls_store := invalidate (ls_store s)\<rparr>)"
| change_background: "listing_step lim sz s
     (s\<lparr>ls_contents := contents, ls_changes := ls_changes s + 1, ls_background := ls_background s + 1\<rparr>)"
| tick: "ls_clock s \<le> now \<Longrightarrow> listing_step lim sz s (s\<lparr>ls_clock := now\<rparr>)"
| claim_ready: "now \<le> ls_clock s \<Longrightarrow> claim lim now k (ls_store s) = (st, Ready es) \<Longrightarrow> listing_step lim sz s (s\<lparr>ls_store := st\<rparr>)"
| claim_wait: "now \<le> ls_clock s \<Longrightarrow> claim lim now k (ls_store s) = (st, Wait i) \<Longrightarrow> listing_step lim sz s (s\<lparr>ls_store := st\<rparr>)"
| claim_build: "now \<le> ls_clock s \<Longrightarrow> claim lim now k (ls_store s) = (st, Build b) \<Longrightarrow>
     listing_step lim sz s (s\<lparr>ls_store := st, ls_builds := listing_build_new b s # ls_builds s\<rparr>)"
| scan: "ls_builds s = xs @ x # ys \<Longrightarrow> bu_scanned x = None \<Longrightarrow>
     bu_changes x = ls_changes s \<longrightarrow> es = ls_contents s (sb_key (bu_build x)) \<Longrightarrow>
     listing_step lim sz s (s\<lparr>ls_builds := xs @ x\<lparr>bu_scanned := Some es\<rparr> # ys\<rparr>)"
| publish: "ls_builds s = xs @ x # ys \<Longrightarrow> bu_scanned x = Some es \<Longrightarrow> bu_build x = b \<Longrightarrow>
     listing_step lim sz s
       (s\<lparr>ls_store := publish_snapshot lim sz (ls_clock s) b es (ls_store s), ls_builds := xs @ ys,
          ls_kept := (if sn_builds (ls_store s) (sb_key b) = Some (sb_id b)
                      then (ls_kept s)(sb_key b := (bu_background x, ls_clock s)) else ls_kept s)\<rparr>)"
| abandon: "ls_builds s = xs @ x # ys \<Longrightarrow>
     listing_step lim sz s (s\<lparr>ls_store := drop_build (bu_build x) (ls_store s), ls_builds := xs @ ys\<rparr>)"

definition kept_current :: "listing_system \<Rightarrow> bool" where
  "kept_current s \<longleftrightarrow>
     (\<forall>(k, r) \<in> set (sn_snapshots (ls_store s)).
        rs_created_at r = snd (ls_kept s k) \<and> fst (ls_kept s k) \<le> ls_background s \<and>
        (ls_invalidations s < 2 ^ 64 \<and> ls_writers s = 0 \<and> fst (ls_kept s k) = ls_background s \<longrightarrow> rs_entries r = ls_contents s k))"

definition build_current :: "listing_system \<Rightarrow> listing_build \<Rightarrow> bool" where
  "build_current s x \<longleftrightarrow>
     bu_invalidations x \<le> ls_invalidations s \<and> bu_background x \<le> ls_background s \<and>
     sb_generation (bu_build x) = word_of_nat (bu_invalidations x) \<and>
     (ls_writers s = 0 \<and> bu_invalidations x = ls_invalidations s \<and> bu_background x = ls_background s \<longrightarrow>
        bu_changes x = ls_changes s \<and>
        (case bu_scanned x of None \<Rightarrow> True | Some es \<Rightarrow> es = ls_contents s (sb_key (bu_build x))))"

definition listing_inv :: "snapshot_limits \<Rightarrow> listing_system \<Rightarrow> bool" where
  "listing_inv lim s \<longleftrightarrow>
     store_inv lim (ls_store s) \<and> sn_generation (ls_store s) = word_of_nat (ls_invalidations s) \<and>
     kept_current s \<and> list_all (build_current s) (ls_builds s)"

lemma claim_frame:
  assumes "claim lim now k st = (st', c)"
  shows "sn_generation st' = sn_generation st \<and>
    (\<forall>(k', r) \<in> set (sn_snapshots st'). \<exists>r'. (k', r') \<in> set (sn_snapshots st) \<and> rs_entries r = rs_entries r' \<and>
       rs_created_at r = rs_created_at r') \<and>
    (\<forall>es. c = Ready es \<longrightarrow> (\<exists>r. (k, r) \<in> set (sn_snapshots st) \<and> es = rs_entries r)) \<and>
    (\<forall>b. c = Build b \<longrightarrow> sb_key b = k \<and> sb_generation b = sn_generation st)"
proof (cases "al_get (sn_snapshots (prune_expired_snapshots (sl_ttl lim) now st)) k")
  case None
  then show ?thesis using assms prune_subset [of "sl_ttl lim" now st]
    by (auto simp: claim_def Let_def split: option.splits)
next
  case (Some r)
  from al_get_member [OF Some] prune_subset [of "sl_ttl lim" now st] have "(k, r) \<in> set (sn_snapshots st)" by blast
  with Some show ?thesis using assms prune_subset [of "sl_ttl lim" now st]
    by (fastforce simp: claim_def Let_def members_al_insert)
qed

lemma publish_frame:
  "sn_generation (publish_snapshot lim sz now b es st) = sn_generation st \<and>
   (\<forall>(k, r) \<in> set (sn_snapshots (publish_snapshot lim sz now b es st)).
      (k, r) \<in> set (sn_snapshots st) \<or>
      k = sb_key b \<and> rs_entries r = es \<and> rs_created_at r = now \<and> sn_generation st = sb_generation b \<and>
      sn_builds st (sb_key b) = Some (sb_id b))"
proof -
  let ?n = "estimate_entries sz es" and ?st = "st\<lparr>sn_builds := (sn_builds st)(sb_key b := None)\<rparr>"
  show ?thesis
    using make_snapshot_room_frame [of lim ?n ?st] by (auto simp: publish_snapshot_def Let_def members_al_insert)
qed

text \<open>Pruning leaves nothing that has reached its lifetime.\<close>

lemma fold_remove_removes:
  "distinct (al_keys (sn_snapshots st)) \<Longrightarrow> (k, r) \<in> set (sn_snapshots (fold remove_snapshot ks st)) \<Longrightarrow> k \<notin> set ks"
proof (induction ks arbitrary: st)
  case (Cons a ks)
  have gone: "a \<notin> fst ` set (sn_snapshots (remove_snapshot a st))"
    by (auto simp: remove_snapshot_def al_remove_def al_get_def map_of_eq_None_iff split: option.splits)
  have "distinct (al_keys (sn_snapshots (remove_snapshot a st)))"
    using Cons.prems(1) by (auto simp: remove_snapshot_def split: option.splits)
  with Cons have "k \<notin> set ks" by simp
  moreover have "(k, r) \<in> set (sn_snapshots (remove_snapshot a st))"
    using Cons.prems(2) fold_remove_frame [of ks "remove_snapshot a st"] by auto
  ultimately show ?case using gone by force
qed simp

lemma prune_expired_young:
  assumes "distinct (al_keys (sn_snapshots st))" "(k, r) \<in> set (sn_snapshots (prune_expired_snapshots ttl now st))"
  shows "now - rs_created_at r < ttl"
proof (rule ccontr)
  assume "\<not> now - rs_created_at r < ttl"
  moreover have "(k, r) \<in> set (sn_snapshots st)" using assms(2) prune_subset by blast
  ultimately have "k \<in> set (map fst (filter (\<lambda>(k, snapshot). ttl \<le> now - rs_created_at snapshot) (sn_snapshots st)))" by force
  with fold_remove_removes [OF assms(1)] assms(2) show False unfolding prune_expired_snapshots_def by blast
qed

lemma claim_young:
  assumes "distinct (al_keys (sn_snapshots st))" "snd (claim lim now k st) = Ready es"
  shows "\<exists>r. (k, r) \<in> set (sn_snapshots st) \<and> es = rs_entries r \<and> now - rs_created_at r < sl_ttl lim"
proof -
  obtain r where r: "al_get (sn_snapshots (prune_expired_snapshots (sl_ttl lim) now st)) k = Some r" "es = rs_entries r"
    using assms(2) by (auto simp: claim_def Let_def split: option.splits)
  from al_get_member [OF r(1)] prune_expired_young [OF assms(1)] prune_subset r(2) show ?thesis by blast
qed

lemma word_of_nat_below:
  assumes "m < 2 ^ 64" "n < 2 ^ 64" "(word_of_nat m :: 64 word) = word_of_nat n"
  shows "m = n"
  using arg_cong [OF assms(3), of unat] assms(1,2) by (simp add: unat_of_nat)

lemma build_current_same:
  "\<lbrakk>build_current s x; ls_invalidations s' = ls_invalidations s; ls_writers s' = ls_writers s; ls_contents s' = ls_contents s;
    ls_changes s' = ls_changes s; ls_background s' = ls_background s\<rbrakk> \<Longrightarrow> build_current s' x"
  by (auto simp: build_current_def split: option.splits)

lemma kept_current_same:
  assumes "kept_current s" "ls_invalidations s' = ls_invalidations s" "ls_writers s' = ls_writers s" "ls_contents s' = ls_contents s"
    "ls_background s' = ls_background s" "ls_kept s' = ls_kept s"
    "\<And>k r. (k, r) \<in> set (sn_snapshots (ls_store s')) \<Longrightarrow>
       \<exists>r'. (k, r') \<in> set (sn_snapshots (ls_store s)) \<and> rs_entries r = rs_entries r' \<and> rs_created_at r = rs_created_at r'"
  shows "kept_current s'"
  using assms(1) unfolding kept_current_def assms(2-6) by (fastforce dest!: assms(7))

lemma claim_keeps:
  assumes inv: "listing_inv lim s" and c: "claim lim now k (ls_store s) = (st, c)"
    and bs: "list_all (build_current s) bs"
  shows "listing_inv lim (s\<lparr>ls_store := st, ls_builds := bs\<rparr>)"
proof -
  let ?s = "s\<lparr>ls_store := st, ls_builds := bs\<rparr>"
  have "kept_current ?s"
    by (rule kept_current_same [of s]) (use inv claim_frame [OF c] in \<open>auto simp: listing_inv_def\<close>)
  moreover have "list_all (build_current ?s) bs" using bs build_current_same [of s _ ?s] by (auto simp: list_all_iff)
  ultimately show ?thesis
    using inv claim_frame [OF c] claim_inv [of lim "ls_store s" now k] by (simp add: listing_inv_def c)
qed

lemma publish_keeps:
  assumes inv: "listing_inv lim s" and x: "x \<in> set (ls_builds s)" "bu_scanned x = Some es" "bu_build x = b"
    and s': "ls_store s' = publish_snapshot lim sz now b es (ls_store s)"
      "ls_kept s' = (if sn_builds (ls_store s) (sb_key b) = Some (sb_id b)
                     then (ls_kept s)(sb_key b := (bu_background x, now)) else ls_kept s)"
    and same: "ls_invalidations s' = ls_invalidations s" "ls_writers s' = ls_writers s" "ls_contents s' = ls_contents s"
      "ls_background s' = ls_background s"
  shows "kept_current s'"
proof -
  have cur: "kept_current s" "build_current s x" "store_inv lim (ls_store s)"
    "sn_generation (ls_store s) = word_of_nat (ls_invalidations s)"
    using inv x(1) by (auto simp: listing_inv_def list_all_iff)
  have "rs_created_at r = snd (ls_kept s' k) \<and> fst (ls_kept s' k) \<le> ls_background s \<and>
      (ls_invalidations s < 2 ^ 64 \<and> ls_writers s = 0 \<and> fst (ls_kept s' k) = ls_background s \<longrightarrow> rs_entries r = ls_contents s k)"
    if r: "(k, r) \<in> set (sn_snapshots (ls_store s'))" for k r
  proof (cases "(k, r) \<in> set (sn_snapshots (ls_store s))")
    case True
    then have "sn_builds (ls_store s) k = None" using cur(3) by (force simp: store_inv_def)
    then have "ls_kept s' k = ls_kept s k" by (auto simp: s'(2))
    with True cur(1) show ?thesis by (auto simp: kept_current_def)
  next
    case False
    then have new: "k = sb_key b" "rs_entries r = es" "rs_created_at r = now" "sn_generation (ls_store s) = sb_generation b"
      "ls_kept s' k = (bu_background x, now)"
      using publish_frame [of lim sz now b es "ls_store s"] r by (auto simp: s')
    have "bu_invalidations x = ls_invalidations s" if "ls_invalidations s < 2 ^ 64"
      using new(4) cur(2,4) that x(3) by (intro word_of_nat_below) (auto simp: build_current_def)
    with cur(2) new x(2,3) show ?thesis by (simp add: build_current_def)
  qed
  then show ?thesis by (auto simp: kept_current_def same)
qed

lemma listing_step_inv:
  assumes step: "listing_step lim sz s s'" and inv: "listing_inv lim s" and lim: "0 < sl_max_snapshots lim" "sl_max_bytes lim < u64_max"
  shows "listing_inv lim s'"
  using step
proof cases
  case begin_write
  then show ?thesis using inv by (fastforce simp: listing_inv_def kept_current_def build_current_def list_all_iff)
next
  case (change_files contents)
  then show ?thesis using inv by (fastforce simp: listing_inv_def kept_current_def build_current_def list_all_iff)
next
  case end_write
  have "build_current s' x" if "build_current s x" for x using that by (simp add: end_write build_current_def)
  then show ?thesis
    using inv invalidate_inv [of lim "ls_store s"]
    by (auto simp: listing_inv_def list_all_iff end_write(1) kept_current_def) (simp_all add: invalidate_def)
next
  case (change_background contents)
  then show ?thesis using inv by (fastforce simp: listing_inv_def kept_current_def build_current_def list_all_iff)
next
  case (tick now)
  then show ?thesis using inv build_current_same [of s _ s'] kept_current_same [of s s']
    by (auto simp: listing_inv_def list_all_iff)
next
  case (claim_ready now k st es)
  then show ?thesis using claim_keeps [OF inv claim_ready(3), of "ls_builds s"] inv by (simp add: listing_inv_def)
next
  case (claim_wait now k st i)
  then show ?thesis using claim_keeps [OF inv claim_wait(3), of "ls_builds s"] inv by (simp add: listing_inv_def)
next
  case (claim_build now k st b)
  have "build_current s (listing_build_new b s)"
    using claim_frame [OF claim_build(3)] inv by (simp add: build_current_def listing_build_new_def listing_inv_def)
  then show ?thesis using claim_keeps [OF inv claim_build(3), of "listing_build_new b s # ls_builds s"] inv
    by (simp add: listing_inv_def claim_build(1))
next
  case (scan xs x ys es)
  have "build_current s (x\<lparr>bu_scanned := Some es\<rparr>)" using inv scan(2,4) by (simp add: listing_inv_def build_current_def)
  then show ?thesis using inv build_current_same [of s _ s'] kept_current_same [of s s']
    by (auto simp: listing_inv_def scan list_all_iff)
next
  case (publish xs x ys es b)
  have "kept_current s'"
    by (rule publish_keeps [OF inv _ publish(3,4), of _ sz "ls_clock s"]) (simp_all add: publish(1,2))
  then show ?thesis
    using inv publish_snapshot_inv [OF _ lim, of "ls_store s" sz "ls_clock s" b es]
      publish_frame [of lim sz "ls_clock s" b es "ls_store s"] build_current_same [of s _ s']
    by (auto simp: listing_inv_def publish(1,2) list_all_iff)
next
  case (abandon xs x ys)
  have "kept_current s'"
    by (rule kept_current_same [of s]) (use inv in \<open>auto simp: listing_inv_def abandon drop_build_def split: if_splits\<close>)
  then show ?thesis
    using inv drop_build_inv [of lim "ls_store s" "bu_build x"] build_current_same [of s _ s']
    by (auto simp: listing_inv_def abandon list_all_iff) (simp add: drop_build_def)
qed

lemma listing_reachable_inv:
  assumes "(listing_step lim sz)\<^sup>*\<^sup>* (listing_initial contents) s" "0 < sl_max_snapshots lim" "sl_max_bytes lim < u64_max"
  shows "listing_inv lim s"
  using assms(1)
proof induction
  case base
  then show ?case
    by (simp add: listing_inv_def listing_initial_def snapshot_state_default_def store_inv_def snapshot_bytes_def kept_current_def)
next
  case (step s s')
  with listing_step_inv assms(2,3) show ?case by blast
qed

text \<open>
  C25: a kept directory listing is stale at most in one way and never for long, and the store never
  grows past its limits. Whatever the interleaving of readers, writers and background changes, the
  store keeps at most its number of snapshots and of bytes, with the bytes counted exactly. A claim
  answered from the store is answered less than the lifetime (30 seconds in production) after the
  listing was published; and if no writer is at work and nothing changed the files without an
  invalidation since the listing's build was claimed, the answer is exactly what a scan of the
  directory would return at that moment (as long as the 64-bit generation has not wrapped around).
\<close>

theorem kept_listings_are_current:
  assumes "(listing_step lim entry_size)\<^sup>*\<^sup>* (listing_initial contents) s"
    and "0 < sl_max_snapshots lim" "sl_max_bytes lim < u64_max" "ls_invalidations s < 2 ^ 64"
  shows "length (sn_snapshots (ls_store s)) \<le> sl_max_snapshots lim \<and>
    sn_retained_bytes (ls_store s) = snapshot_bytes (sn_snapshots (ls_store s)) \<and>
    snapshot_bytes (sn_snapshots (ls_store s)) \<le> sl_max_bytes lim \<and>
    (snd (claim lim now k (ls_store s)) = Ready es \<longrightarrow>
       now - snd (ls_kept s k) < sl_ttl lim \<and>
       (ls_writers s = 0 \<and> ls_background s = fst (ls_kept s k) \<longrightarrow> es = ls_contents s k))"
proof -
  have inv: "listing_inv lim s" by (rule listing_reachable_inv [OF assms(1-3)])
  then have "distinct (al_keys (sn_snapshots (ls_store s)))" by (simp add: listing_inv_def store_inv_def)
  from claim_young [OF this] inv assms(4) show ?thesis
    by (fastforce simp: listing_inv_def store_inv_def kept_current_def)
qed

definition sample_key :: directory_snapshot_key where
  "sample_key = snapshot_key_new to_ascii_lowercase ''docs'' sample_request"

definition sample_contents :: "directory_snapshot_key \<Rightarrow> backend_entry list" where
  "sample_contents k = sample_entries"

definition sample_build :: snapshot_build where
  "sample_build = \<lparr>sb_key = sample_key, sb_id = 0, sb_generation = 0\<rparr>"

definition sample_scanned :: listing_system where
  "sample_scanned =
     (listing_initial sample_contents)
       \<lparr>ls_store := snapshot_state_default\<lparr>sn_next_build_id := 1, sn_builds := [sample_key \<mapsto> 0]\<rparr>,
        ls_builds := [(listing_build_new sample_build (listing_initial sample_contents))\<lparr>bu_scanned := Some sample_entries\<rparr>]\<rparr>"

definition sample_kept :: listing_system where
  "sample_kept =
     sample_scanned
       \<lparr>ls_store := publish_snapshot store_new 80 0 sample_build sample_entries (ls_store sample_scanned), ls_builds := [],
        ls_kept := (ls_kept sample_scanned)(sample_key := (0, 0))\<rparr>"

lemma sample_kept_reachable: "(listing_step store_new 80)\<^sup>*\<^sup>* (listing_initial sample_contents) sample_kept"
proof -
  let ?x = "listing_build_new sample_build (listing_initial sample_contents)"
  let ?claimed = "(listing_initial sample_contents)
    \<lparr>ls_store := snapshot_state_default\<lparr>sn_next_build_id := 1, sn_builds := [sample_key \<mapsto> 0]\<rparr>, ls_builds := [?x]\<rparr>"
  have "claim store_new 0 sample_key (ls_store (listing_initial sample_contents)) =
      (snapshot_state_default\<lparr>sn_next_build_id := 1, sn_builds := [sample_key \<mapsto> 0]\<rparr>, Build sample_build)"
    by (simp add: claim_def prune_expired_snapshots_def listing_initial_def snapshot_state_default_def al_get_def Let_def sample_build_def)
  from claim_build [OF _ this, of 80] have "listing_step store_new 80 (listing_initial sample_contents) ?claimed"
    by (simp add: listing_initial_def)
  moreover have "listing_step store_new 80 ?claimed sample_scanned"
    using scan [of ?claimed "[]" ?x "[]" sample_entries store_new 80]
    by (simp add: sample_scanned_def listing_initial_def sample_contents_def listing_build_new_def)
  moreover have "listing_step store_new 80 sample_scanned sample_kept"
    using publish [of sample_scanned "[]" "?x\<lparr>bu_scanned := Some sample_entries\<rparr>" "[]" sample_entries sample_build store_new 80]
    by (simp add: sample_kept_def sample_scanned_def listing_build_new_def sample_build_def listing_initial_def)
  ultimately show ?thesis by (meson converse_rtranclp_into_rtranclp rtranclp.rtrancl_refl)
qed

lemma store_new_limits:
  "sl_ttl store_new = 30000000000" "sl_max_snapshots store_new = 8" "sl_max_entries store_new = 100000" "sl_max_bytes store_new = 67108864"
  by (simp_all add: store_new_def store_with_limits_def SNAPSHOT_TTL_def MAX_SNAPSHOTS_def MAX_SNAPSHOT_ENTRIES_def MAX_SNAPSHOT_BYTES_def)

lemma sample_kept_store:
  "snd (claim store_new 5 sample_key (ls_store sample_kept)) = Ready sample_entries"
proof -
  let ?base = "snapshot_state_default\<lparr>sn_next_build_id := 1, sn_builds := Map.empty\<rparr>"
  let ?r = "\<lparr>rs_entries = sample_entries, rs_created_at = 0, rs_last_used = 0, rs_estimated_bytes = 246\<rparr>"
  have est: "estimate_entries 80 sample_entries = 246" and len: "length sample_entries = 3"
    by (simp_all add: estimate_entries_def sample_entries_def estimate_entry_def saturating_add_def u64_max_def)
  have room: "make_snapshot_room store_new 246 ?base = ?base"
    by (subst make_snapshot_room.simps) (simp add: snapshot_state_default_def store_new_limits saturating_add_def u64_max_def)
  have start: "ls_store sample_scanned = ?base\<lparr>sn_builds := [sample_key \<mapsto> 0]\<rparr>"
    by (simp add: sample_scanned_def snapshot_state_default_def)
  have drop: "ls_store sample_scanned\<lparr>sn_builds := (sn_builds (ls_store sample_scanned))(sample_key := None)\<rparr> = ?base"
    by (simp add: start snapshot_state_default_def)
  have guard: "sn_builds (ls_store sample_scanned) sample_key = Some 0" by (simp add: start)
  have "ls_store sample_kept = ?base\<lparr>sn_retained_bytes := 246, sn_snapshots := [(sample_key, ?r)]\<rparr>"
    by (simp add: sample_kept_def publish_snapshot_def sample_build_def guard drop est len room Let_def store_new_limits)
       (simp add: snapshot_state_default_def saturating_add_def u64_max_def al_insert_def al_remove_def)
  then show ?thesis
    by (simp add: claim_def prune_expired_snapshots_def al_get_def store_new_limits)
qed

theorem kept_listings_are_current_witness:
  "ls_writers sample_kept = 0 \<and> snd (claim store_new 5 sample_key (ls_store sample_kept)) = Ready sample_entries \<and>
   sample_entries = ls_contents sample_kept sample_key"
  using kept_listings_are_current [OF sample_kept_reachable, of 5 sample_key sample_entries] sample_kept_store
  by (simp add: sample_kept_def sample_scanned_def listing_initial_def store_new_limits u64_max_def)

text \<open>
  A change in the background is the one way to a stale listing: after it the kept listing is served
  with no writer at work, although the directory is now empty.
\<close>

lemma background_change_served_stale:
  defines "s \<equiv> sample_kept\<lparr>ls_contents := (\<lambda>_. []), ls_changes := 1, ls_background := 1\<rparr>"
  shows "(listing_step store_new 80)\<^sup>*\<^sup>* (listing_initial sample_contents) s \<and> ls_writers s = 0 \<and>
    snd (claim store_new 5 sample_key (ls_store s)) = Ready sample_entries \<and> ls_contents s sample_key = []"
proof -
  have "listing_step store_new 80 sample_kept s"
    using change_background [of store_new 80 sample_kept "\<lambda>_. []"]
    by (simp add: s_def sample_kept_def sample_scanned_def listing_initial_def)
  with sample_kept_reachable sample_kept_store show ?thesis
    by (auto simp: s_def) (simp add: sample_kept_def sample_scanned_def listing_initial_def)
qed

end
