(* ===== verification/TransactionStore.thy ===== *)
theory TransactionStore
  imports Paths
begin

text \<open>
  The private metadata of a local storage (src/src/storage_transaction.rs, metadata.rs and
  receipts.rs beside it): journals of replacements, receipts of uploads, records of deletions, and
  the primitives that create, rename, remove and synchronise them below the root.

  The objects the transactions move are files or whole directory trees; the code never looks inside
  them. Every system call may be refused, or may take effect and still be reported as failed (the
  connection to a network file system is lost, for instance). The world remembers every state of
  the disk that was visible, because the process may be stopped in each of them, and the changes
  that are not synchronised yet: a power failure may lose any of them, in any order, until the
  directory in which they were made is synchronised. The two names that a rename changes may be in
  two directories, and each directory is synchronised on its own.
\<close>

section \<open>Identifiers and documents\<close>

definition MAX_JOURNAL_BYTES :: nat where
  "MAX_JOURNAL_BYTES = 16 * 1024"

definition MAX_RECOVERY_ENTRIES :: nat where
  "MAX_RECOVERY_ENTRIES = 4096"

definition MAX_UPLOAD_RECEIPTS :: nat where
  "MAX_UPLOAD_RECEIPTS = 100000"

definition is_lower_hex_digit :: "char \<Rightarrow> bool" where
  "is_lower_hex_digit c \<longleftrightarrow> is_ascii_digit c \<or> (97 \<le> byte c \<and> byte c \<le> 102)"

definition valid_operation_id :: "str \<Rightarrow> bool" where
  "valid_operation_id i \<longleftrightarrow> length i = 32 \<and> list_all is_lower_hex_digit i"

text \<open>The canonical text of a version 4 UUID.\<close>

definition transaction_id_try_from :: "str \<Rightarrow> bool" where
  "transaction_id_try_from v \<longleftrightarrow>
     length v = 36 \<and> v ! 14 = CHR ''4'' \<and>
     list_all (\<lambda>(i, c). if i \<in> {8, 13, 18, 23} then c = CHR ''-'' else is_lower_hex_digit c) (zip [0..<36] v)"

record replace_journal =
  rj_version :: nat
  rj_id :: str
  rj_destination :: str
  rj_published :: bool
  rj_operation_id :: "str option"
  rj_operation_size :: "nat option"
  rj_anchored :: bool
  rj_transfer_source :: "str option"
  rj_staged_copy :: bool
  rj_replaced_bytes :: nat

record deletion_journal =
  dj_version :: nat
  dj_id :: str
  dj_bytes_upper_bound :: nat
  dj_created_unix :: nat

record upload_receipt =
  ur_version :: nat
  ur_operation_id :: str
  ur_destination :: str
  ur_size :: nat
  ur_confirmed :: bool
  ur_rolled_back :: bool

definition invalid_transfer :: app_error where
  "invalid_transfer = Conflict ''Invalid transfer journal''"

definition invalid_destination :: app_error where
  "invalid_destination = Conflict ''Invalid transaction destination; recovery stopped''"

definition validate_transfer_source :: "replace_journal \<Rightarrow> str \<Rightarrow> unit app_result" where
  "validate_transfer_source j source =
     (let bad = Inl (Conflict ''Invalid transfer source'')
      in if source = [] then bad
         else rbind (normalize_relative source) (\<lambda>normal.
           if normal \<noteq> source \<or> source = rj_destination j \<or> starts_with source (rj_destination j @ ''/'')
              \<or> starts_with (rj_destination j) (source @ ''/'')
           then bad else Inr ()))"

definition validate_journal :: "replace_journal \<Rightarrow> unit app_result" where
  "validate_journal j =
     (let transfer = rj_transfer_source j
      in if 4 < rj_version j \<or> rj_version j < 2 \<and> rj_published j
         then Inl (Conflict ''Unsupported transaction journal version; recovery stopped'')
         else if rj_version j = 4 \<and> (rj_staged_copy j \<longleftrightarrow> transfer \<noteq> None) then Inl invalid_transfer
         else rbind
           (if rj_staged_copy j \<or> transfer \<noteq> None
            then if rj_version j \<noteq> 4 \<or> rj_anchored j \<or> rj_operation_id j \<noteq> None \<or> rj_staged_copy j \<and> transfer \<noteq> None
                 then Inl invalid_transfer
                 else (case transfer of None \<Rightarrow> Inr () | Some source \<Rightarrow> validate_transfer_source j source)
            else Inr ())
           (\<lambda>_. rbind
              (case (rj_operation_id j, rj_operation_size j) of
                 (None, None) \<Rightarrow> Inr ()
               | (Some i, Some _) \<Rightarrow>
                   if valid_operation_id i then Inr ()
                   else Inl (Conflict ''Invalid upload operation identity; recovery stopped'')
               | _ \<Rightarrow> Inl (Conflict ''Invalid upload operation identity; recovery stopped''))
              (\<lambda>_. if rj_anchored j \<and> (rj_version j < 3 \<or> rj_operation_id j = None)
                   then Inl (Conflict ''Invalid upload publication anchor; recovery stopped'')
                   else if rj_destination j = [] \<or> 4096 < length (rj_destination j) then Inl invalid_destination
                   else rbind (normalize_relative (rj_destination j))
                          (\<lambda>normal. if normal \<noteq> rj_destination j then Inl invalid_destination else Inr ()))))"

definition replace_journal_new :: "str \<Rightarrow> str \<Rightarrow> replace_journal app_result" where
  "replace_journal_new i destination =
     (let j = \<lparr>rj_version = 3, rj_id = i, rj_destination = destination, rj_published = False, rj_operation_id = None,
               rj_operation_size = None, rj_anchored = False, rj_transfer_source = None, rj_staged_copy = False,
               rj_replaced_bytes = 0\<rparr>
      in rbind (validate_journal j) (\<lambda>_. Inr j))"

definition deletion_journal_new :: "nat option \<Rightarrow> str \<Rightarrow> nat \<Rightarrow> deletion_journal app_result" where
  "deletion_journal_new clock i bytes =
     (case clock of
        None \<Rightarrow> Inl (with_source ''system clock is before the Unix epoch'' ''second time provided was later than self'')
      | Some now \<Rightarrow> Inr \<lparr>dj_version = 1, dj_id = i, dj_bytes_upper_bound = bytes, dj_created_unix = now\<rparr>)"

definition validate_deletion :: "deletion_journal \<Rightarrow> unit app_result" where
  "validate_deletion d =
     (if dj_version d \<noteq> 1 then Inl (Conflict ''Unsupported deletion debt record version; recovery stopped'') else Inr ())"

section \<open>The disk\<close>

datatype loc =
    Dest str
  | UploadFile str
  | CopyTree str
  | BackupOf str
  | TrashOf str
  | AnchorOf str
  | JournalFile str
  | JournalTmp str
  | ReceiptFile str
  | ReceiptTmp str
  | DeletionFile str
  | DeletionTmp str

datatype folder =
  UserFolder str | Uploads | Copies | Backups | TrashFolder | Anchors | Journals | Receipts | Deletions

fun folder_of :: "loc \<Rightarrow> folder" where
  "folder_of (Dest p) = UserFolder (case rsplit_once CHR ''/'' p of None \<Rightarrow> [] | Some (d, _) \<Rightarrow> d)"
| "folder_of (UploadFile _) = Uploads"
| "folder_of (CopyTree _) = Copies"
| "folder_of (BackupOf _) = Backups"
| "folder_of (TrashOf _) = TrashFolder"
| "folder_of (AnchorOf _) = Anchors"
| "folder_of (JournalFile _) = Journals"
| "folder_of (JournalTmp _) = Journals"
| "folder_of (ReceiptFile _) = Receipts"
| "folder_of (ReceiptTmp _) = Receipts"
| "folder_of (DeletionFile _) = Deletions"
| "folder_of (DeletionTmp _) = Deletions"

text \<open>The name of a resource without the extension of records.\<close>

fun resource_name :: "loc \<Rightarrow> str" where
  "resource_name (Dest p) = (case rsplit_once CHR ''/'' p of None \<Rightarrow> p | Some (_, n) \<Rightarrow> n)"
| "resource_name (UploadFile i) = i"
| "resource_name (CopyTree i) = i"
| "resource_name (BackupOf i) = i"
| "resource_name (TrashOf i) = i"
| "resource_name (AnchorOf i) = i"
| "resource_name (JournalFile i) = i"
| "resource_name (JournalTmp i) = i"
| "resource_name (ReceiptFile i) = i"
| "resource_name (ReceiptTmp i) = i"
| "resource_name (DeletionFile i) = i"
| "resource_name (DeletionTmp i) = i"

definition resource_id :: "loc \<Rightarrow> str app_result" where
  "resource_id l =
     (if transaction_id_try_from (resource_name l) then Inr (resource_name l)
      else Inl (Conflict ''Unrecognized internal resource; recovery stopped''))"

text \<open>A record file, and the temporary file it is written to first.\<close>

fun tmp_of :: "loc \<Rightarrow> loc" where
  "tmp_of (JournalFile i) = JournalTmp i"
| "tmp_of (ReceiptFile i) = ReceiptTmp i"
| "tmp_of (DeletionFile i) = DeletionTmp i"
| "tmp_of l = l"

record object =
  ob_inode :: nat
  ob_dir :: bool
  ob_nodes :: nat
  ob_data :: str

datatype document =
    PartialDoc
  | ReplaceDoc replace_journal
  | ReceiptDoc upload_receipt
  | DeletionDoc deletion_journal

datatype node = Obj object | Doc document

type_synonym disk = "(loc \<times> node) list"

text \<open>What a system call does to the names it changes: each one gets a node or is removed.\<close>

type_synonym change = "loc \<times> node option"

fun apply_change :: "change \<Rightarrow> disk \<Rightarrow> disk" where
  "apply_change (l, None) d = al_remove l d"
| "apply_change (l, Some n) d = al_insert l n d"

fun apply_changes :: "change list \<Rightarrow> disk \<Rightarrow> disk" where
  "apply_changes [] d = d"
| "apply_changes (c # cs) d = apply_changes cs (apply_change c d)"

fun node_is_dir :: "node \<Rightarrow> bool" where
  "node_is_dir (Obj x) = ob_dir x"
| "node_is_dir (Doc _) = False"

fun node_inode :: "node \<Rightarrow> nat option" where
  "node_inode (Obj x) = Some (ob_inode x)"
| "node_inode (Doc _) = None"

fun node_len :: "node \<Rightarrow> nat" where
  "node_len (Obj x) = length (ob_data x)"
| "node_len (Doc _) = 0"

section \<open>The world\<close>

datatype fate = Done | Refused | Lost

datatype upload_ownership = WriterOwned | RecoveryOwned

datatype notice =
    NoteRecoveryOwned
  | NoteRollbackCompleted
  | NotePublished nat
  | NoteDeletionStarted
  | NoteDeletionPublished loc
  | NoteRestoring

record world =
  w_disk :: disk
  w_seen :: "disk list"
  w_stable :: disk
  w_unsynced :: "change list"
  w_fates :: "fate list"
  w_pending :: "replace_journal option"
  w_receipt_count :: nat
  w_ownership :: upload_ownership
  w_notes :: "notice list"

record tx_env =
  te_encoded_size :: "document \<Rightarrow> nat"
  te_hard_links :: bool
  te_parents :: "str \<Rightarrow> unit app_result"

type_synonym 'a io = "world \<Rightarrow> 'a app_result \<times> world"

definition give :: "'a \<Rightarrow> 'a io" where
  "give x w = (Inr x, w)"

definition raise :: "app_error \<Rightarrow> 'a io" where
  "raise e w = (Inl e, w)"

definition seq :: "'a io \<Rightarrow> ('a \<Rightarrow> 'b io) \<Rightarrow> 'b io" where
  "seq m f w = (case m w of (Inl e, w') \<Rightarrow> (Inl e, w') | (Inr x, w') \<Rightarrow> f x w')"

definition from_result :: "'a app_result \<Rightarrow> 'a io" where
  "from_result r w = (r, w)"

definition map_error :: "(app_error \<Rightarrow> app_error) \<Rightarrow> 'a io \<Rightarrow> 'a io" where
  "map_error f m w = (case m w of (Inl e, w') \<Rightarrow> (Inl (f e), w') | (Inr x, w') \<Rightarrow> (Inr x, w'))"

definition catch :: "'a io \<Rightarrow> (app_error \<Rightarrow> 'a io) \<Rightarrow> 'a io" where
  "catch m h w = (case m w of (Inl e, w') \<Rightarrow> h e w' | (Inr x, w') \<Rightarrow> (Inr x, w'))"

definition notify :: "notice \<Rightarrow> unit io" where
  "notify n w = (Inr (), w\<lparr>w_notes := w_notes w @ [n]\<rparr>)"

primrec for_each :: "('a \<Rightarrow> unit io) \<Rightarrow> 'a list \<Rightarrow> unit io" where
  "for_each f [] = give ()"
| "for_each f (x # xs) = seq (f x) (\<lambda>_. for_each f xs)"

definition next_fate :: "world \<Rightarrow> fate \<times> world" where
  "next_fate w = (case w_fates w of [] \<Rightarrow> (Done, w) | f # rest \<Rightarrow> (f, w\<lparr>w_fates := rest\<rparr>))"

definition commit_change :: "change list \<Rightarrow> world \<Rightarrow> world" where
  "commit_change cs w =
     (let d = apply_changes cs (w_disk w)
      in w\<lparr>w_disk := d, w_seen := d # w_seen w, w_unsynced := w_unsynced w @ cs\<rparr>)"

definition io_error :: "str \<Rightarrow> app_error" where
  "io_error context = with_source context ''Input/output error (os error 5)''"

text \<open>A system call that changes the disk, and one that only looks at it.\<close>

definition attempt :: "str \<Rightarrow> (disk \<Rightarrow> app_error + change list) \<Rightarrow> unit io" where
  "attempt context f w =
     (let (fate, w) = next_fate w
      in if fate = Refused then (Inl (io_error context), w)
         else case f (w_disk w) of
                Inl e \<Rightarrow> (Inl e, w)
              | Inr cs \<Rightarrow> (if fate = Lost then Inl (io_error context) else Inr (), commit_change cs w))"

definition inspect :: "str \<Rightarrow> (disk \<Rightarrow> 'a) \<Rightarrow> 'a io" where
  "inspect context f w =
     (let (fate, w) = next_fate w in (if fate = Done then Inr (f (w_disk w)) else Inl (io_error context), w))"

section \<open>Primitives below the root\<close>

definition rooted_metadata :: "loc \<Rightarrow> node option io" where
  "rooted_metadata l = inspect ''failed to inspect local storage path'' (\<lambda>d. al_get d l)"

definition rooted_exists :: "loc \<Rightarrow> bool io" where
  "rooted_exists l = seq (rooted_metadata l) (\<lambda>m. give (m \<noteq> None))"

definition moving :: "loc \<Rightarrow> loc \<Rightarrow> node \<Rightarrow> change list" where
  "moving a b n = [(a, None), (b, Some n)]"

definition move :: "loc \<Rightarrow> loc \<Rightarrow> node \<Rightarrow> disk \<Rightarrow> disk" where
  "move a b n d = al_insert b n (al_remove a d)"

definition rename_with_flags :: "bool \<Rightarrow> loc \<Rightarrow> loc \<Rightarrow> unit io" where
  "rename_with_flags noreplace a b =
     attempt ''failed to rename path below local storage root''
       (\<lambda>d. case al_get d a of
              None \<Rightarrow> Inl NotFound
            | Some n \<Rightarrow>
                if noreplace \<and> al_get d b \<noteq> None then Inl (Conflict ''Destination already exists'')
                else Inr (moving a b n))"

definition rooted_rename_noreplace :: "loc \<Rightarrow> loc \<Rightarrow> unit io" where
  "rooted_rename_noreplace a b = rename_with_flags True a b"

definition replace_internal_journal :: "loc \<Rightarrow> loc \<Rightarrow> unit io" where
  "replace_internal_journal a b =
     (if folder_of a = folder_of b \<and> folder_of a \<in> {Journals, Receipts}
      then rename_with_flags False a b else raise Forbidden)"

definition hard_link_noreplace :: "tx_env \<Rightarrow> loc \<Rightarrow> loc \<Rightarrow> bool io" where
  "hard_link_noreplace env a b =
     (if te_hard_links env
      then seq (attempt ''failed to anchor uploaded file''
             (\<lambda>d. case al_get d a of
                    None \<Rightarrow> Inl NotFound
                  | Some n \<Rightarrow> if al_get d b \<noteq> None then Inl (Conflict ''Destination already exists'')
                              else Inr [(b, Some n)]))
           (\<lambda>_. give True)
      else give False)"

definition rooted_remove_file :: "loc \<Rightarrow> unit io" where
  "rooted_remove_file l =
     attempt ''failed to remove file below local storage root''
       (\<lambda>d. case al_get d l of
              None \<Rightarrow> Inl NotFound
            | Some n \<Rightarrow>
                if node_is_dir n then Inl (linux_error ''failed to remove file below local storage root'' (OTHER_ERRNO ''Is a directory (os error 21)''))
                else Inr [(l, None)])"

definition rooted_remove_file_idempotent :: "loc \<Rightarrow> unit io" where
  "rooted_remove_file_idempotent l = catch (rooted_remove_file l) (\<lambda>e. if e = NotFound then give () else raise e)"

text \<open>Synchronising a folder makes the changes of its own entries durable, and no others.\<close>

definition sync_folder :: "folder \<Rightarrow> world \<Rightarrow> world" where
  "sync_folder g w =
     w\<lparr>w_stable := apply_changes (filter (\<lambda>(l, _). folder_of l = g) (w_unsynced w)) (w_stable w),
       w_unsynced := filter (\<lambda>(l, _). folder_of l \<noteq> g) (w_unsynced w)\<rparr>"

definition rooted_sync_parent :: "loc \<Rightarrow> unit io" where
  "rooted_sync_parent l w =
     (let (fate, w) = next_fate w
      in case fate of
           Done \<Rightarrow> (Inr (), sync_folder (folder_of l) w)
         | Refused \<Rightarrow> (Inl (io_error ''failed to sync local storage directory''), w)
         | Lost \<Rightarrow> (Inl (io_error ''failed to sync local storage directory''), sync_folder (folder_of l) w))"

text \<open>After a power failure any part of the changes that were not synchronised may be there.\<close>

definition crash_states :: "world \<Rightarrow> disk set" where
  "crash_states w = set (map (\<lambda>cs. apply_changes cs (w_stable w)) (subseqs (w_unsynced w)))"

definition survives :: "(disk \<Rightarrow> bool) \<Rightarrow> world \<Rightarrow> bool" where
  "survives P w \<longleftrightarrow> (\<forall>d \<in> crash_states w. P d)"

definition rooted_create_private_file :: "loc \<Rightarrow> unit io" where
  "rooted_create_private_file l =
     attempt ''failed to create file below local storage root''
       (\<lambda>d. if al_get d l \<noteq> None then Inl (Conflict ''Destination already exists'')
            else Inr [(l, Some (Doc PartialDoc))])"

definition remove_staging_file :: "loc \<Rightarrow> (nat \<times> bool) io" where
  "remove_staging_file l =
     seq (rooted_exists l) (\<lambda>existed.
     seq (rooted_remove_file_idempotent l) (\<lambda>_.
     seq (rooted_sync_parent l) (\<lambda>_. give (if existed then 1 else 0, True))))"

text \<open>Removal of a tree, at most so many nodes at once; the answer has the count and whether it is gone.\<close>

definition remove_bounded :: "loc \<Rightarrow> nat \<Rightarrow> (nat \<times> bool) io" where
  "remove_bounded l n =
     (if n = 0 then give (0, False)
      else seq (rooted_metadata l) (\<lambda>m.
        case m of
          None \<Rightarrow> give (0, True)
        | Some (Doc _) \<Rightarrow> seq (attempt ''failed to remove internal staging file'' (\<lambda>d. Inr [(l, None)])) (\<lambda>_. give (1, True))
        | Some (Obj x) \<Rightarrow>
            if \<not> ob_dir x
            then seq (attempt ''failed to remove internal staging file'' (\<lambda>d. Inr [(l, None)])) (\<lambda>_. give (1, True))
            else if ob_nodes x < n
            then seq (attempt ''failed to remove internal staging directory'' (\<lambda>d. Inr [(l, None)]))
                   (\<lambda>_. give (ob_nodes x + 1, True))
            else seq (attempt ''failed to remove internal staging directory''
                        (\<lambda>d. Inr [(l, Some (Obj (x\<lparr>ob_nodes := ob_nodes x - n\<rparr>)))]))
                   (\<lambda>_. give (n, False))))"

definition publish_noreplace :: "loc \<Rightarrow> loc \<Rightarrow> unit io" where
  "publish_noreplace a b =
     seq (rooted_rename_noreplace a b) (\<lambda>_. seq (rooted_sync_parent a) (\<lambda>_. rooted_sync_parent b))"

definition fill_file :: "loc \<Rightarrow> document \<Rightarrow> unit io" where
  "fill_file l doc = attempt ''failed to write transaction journal'' (\<lambda>d. Inr [(l, Some (Doc doc))])"

definition flush_file :: "unit io" where
  "flush_file = inspect ''failed to flush transaction journal'' (\<lambda>_. ())"

definition write_json_atomic_inner :: "tx_env \<Rightarrow> loc \<Rightarrow> document \<Rightarrow> bool \<Rightarrow> (world \<Rightarrow> world) \<Rightarrow> unit io" where
  "write_json_atomic_inner env path doc replace_existing on_publish =
     (let temporary = tmp_of path
      in seq (if replace_existing
              then if folder_of path \<in> {Journals, Receipts} then rooted_remove_file_idempotent temporary else raise Forbidden
              else give ()) (\<lambda>_.
         if MAX_JOURNAL_BYTES < te_encoded_size env doc
         then raise (Conflict ''Transaction journal exceeds its size limit'')
         else
         seq (rooted_create_private_file temporary) (\<lambda>_.
         seq (fill_file temporary doc) (\<lambda>_.
         seq flush_file (\<lambda>_.
         seq (if replace_existing then replace_internal_journal temporary path
              else rooted_rename_noreplace temporary path) (\<lambda>_.
         seq (\<lambda>w. (Inr (), on_publish w)) (\<lambda>_.
         rooted_sync_parent path)))))))"

definition write_json_atomic :: "tx_env \<Rightarrow> loc \<Rightarrow> document \<Rightarrow> unit io" where
  "write_json_atomic env path doc = write_json_atomic_inner env path doc False (\<lambda>w. w)"

section \<open>Inventories\<close>

datatype inventory_kind = JournalKind | ReceiptKind | FileKind | TreeKind

definition validate_inventory_entry :: "inventory_kind \<Rightarrow> loc \<Rightarrow> node \<Rightarrow> unit app_result" where
  "validate_inventory_entry kind l n =
     (if node_is_dir n \<and> kind \<noteq> TreeKind
      then Inl (Conflict ''Unexpected transaction resource type; recovery stopped'')
      else if kind = ReceiptKind
      then if valid_operation_id (resource_name l) then Inr () else Inl (Conflict ''Invalid upload receipt identity'')
      else rbind (resource_id l) (\<lambda>_. Inr ()))"

fun inventory_entries :: "inventory_kind \<Rightarrow> nat \<Rightarrow> (loc \<times> node) list \<Rightarrow> loc list \<Rightarrow> (loc list \<times> bool) app_result" where
  "inventory_entries kind limit [] found = Inr (found, False)"
| "inventory_entries kind limit ((l, n) # rest) found =
     (if limit \<le> length found then Inr (found, True)
      else rbind (validate_inventory_entry kind l n) (\<lambda>_. inventory_entries kind limit rest (found @ [l])))"

definition inventory_page :: "folder \<Rightarrow> inventory_kind \<Rightarrow> nat \<Rightarrow> (loc list \<times> bool) io" where
  "inventory_page g kind limit =
     seq (inspect ''local recovery listing task failed'' (\<lambda>d. filter (\<lambda>(l, _). folder_of l = g) d))
       (\<lambda>listed. from_result (inventory_entries kind limit listed []))"

definition inventory :: "folder \<Rightarrow> inventory_kind \<Rightarrow> loc list io" where
  "inventory g kind =
     seq (inventory_page g kind MAX_RECOVERY_ENTRIES) (\<lambda>(found, more).
       if more then raise (Conflict ''Recovery inventory exceeds its budget; resources retained'') else give found)"

section \<open>Receipts\<close>

definition receipt_path :: "str \<Rightarrow> loc app_result" where
  "receipt_path operation_id =
     (if valid_operation_id operation_id then Inr (ReceiptFile operation_id)
      else Inl (BadRequest ''invalid upload operation ID''))"

definition decode_receipt :: "tx_env \<Rightarrow> str \<Rightarrow> node \<Rightarrow> upload_receipt app_result" where
  "decode_receipt env operation_id n =
     (case n of
        Obj _ \<Rightarrow> Inl (Conflict ''invalid upload receipt'')
      | Doc doc \<Rightarrow>
          if MAX_JOURNAL_BYTES < te_encoded_size env doc then Inl (Conflict ''invalid upload receipt'')
          else (case doc of
                  ReceiptDoc r \<Rightarrow>
                    if ur_version r \<noteq> 1 \<or> ur_operation_id r \<noteq> operation_id
                    then Inl (Conflict ''invalid upload receipt identity'')
                    else rbind (normalize_relative (ur_destination r)) (\<lambda>normal.
                           if normal \<noteq> ur_destination r then Inl (Conflict ''invalid upload receipt identity'') else Inr r)
                | _ \<Rightarrow> Inl (with_source ''invalid upload receipt'' ''expected value'')))"

definition read_receipt :: "tx_env \<Rightarrow> str \<Rightarrow> upload_receipt option io" where
  "read_receipt env operation_id =
     seq (from_result (receipt_path operation_id)) (\<lambda>path.
     seq (rooted_metadata path) (\<lambda>m.
     case m of
       None \<Rightarrow> give None
     | Some n \<Rightarrow> seq (from_result (decode_receipt env operation_id n)) (\<lambda>r. give (Some r))))"

definition remove_receipt :: "loc \<Rightarrow> unit io" where
  "remove_receipt path =
     seq (rooted_remove_file path) (\<lambda>_.
     seq (\<lambda>w. (Inr (), w\<lparr>w_receipt_count := w_receipt_count w - 1\<rparr>)) (\<lambda>_.
     rooted_sync_parent path))"

definition check_receipt_capacity :: "tx_env \<Rightarrow> str \<Rightarrow> unit io" where
  "check_receipt_capacity env operation_id =
     seq (read_receipt env operation_id) (\<lambda>r.
       case r of
         Some receipt \<Rightarrow>
           if ur_rolled_back receipt
           then seq (from_result (receipt_path operation_id)) remove_receipt
           else give ()
       | None \<Rightarrow> (\<lambda>w. if MAX_UPLOAD_RECEIPTS \<le> w_receipt_count w then (Inl TooManyRequests, w) else (Inr (), w)))"

definition ensure_receipt :: "tx_env \<Rightarrow> str \<Rightarrow> str \<Rightarrow> nat \<Rightarrow> commit_state \<Rightarrow> unit io" where
  "ensure_receipt env operation_id destination len outcome =
     (let confirmed = (outcome \<noteq> CommitUnknown);
          rolled_back = (outcome = NotCommitted);
          receipt = \<lparr>ur_version = 1, ur_operation_id = operation_id, ur_destination = destination, ur_size = len,
                     ur_confirmed = confirmed, ur_rolled_back = rolled_back\<rparr>;
          store = (\<lambda>existing. seq (from_result (receipt_path operation_id)) (\<lambda>path.
            seq (if existing then give () else rooted_remove_file_idempotent (tmp_of path)) (\<lambda>_.
            write_json_atomic_inner env path (ReceiptDoc receipt) existing
              (\<lambda>w. if existing then w else w\<lparr>w_receipt_count := w_receipt_count w + 1\<rparr>))))
      in seq (read_receipt env operation_id) (\<lambda>r.
         case r of
           Some existing \<Rightarrow>
             if ur_destination existing \<noteq> destination \<or> ur_size existing \<noteq> len
             then raise (Conflict ''upload receipt identity collision'')
             else if ur_confirmed existing = confirmed \<and> ur_rolled_back existing = rolled_back then give ()
             else if \<not> ur_rolled_back existing \<and> (rolled_back \<or> ur_confirmed existing)
             then raise (Conflict ''upload receipt outcome collision'')
             else store True
         | None \<Rightarrow>
             (\<lambda>w. if MAX_UPLOAD_RECEIPTS \<le> w_receipt_count w then (Inl TooManyRequests, w) else store False w)))"

definition receipt_outcome :: "tx_env \<Rightarrow> str \<Rightarrow> nat \<Rightarrow> str \<Rightarrow> operation_outcome option io" where
  "receipt_outcome env destination len operation_id =
     seq (read_receipt env operation_id) (\<lambda>r.
       case r of
         None \<Rightarrow> give None
       | Some receipt \<Rightarrow>
           if ur_destination receipt \<noteq> destination \<or> ur_size receipt \<noteq> len then give None
           else if \<not> ur_confirmed receipt then give (Some (operation_outcome_new CommitUnknown CleanupUnknown))
           else give (Some (operation_outcome_new (if ur_rolled_back receipt then NotCommitted else Committed) CleanupComplete)))"

definition receipt_inventory :: "loc list io" where
  "receipt_inventory =
     seq (inventory_page Receipts ReceiptKind (MAX_UPLOAD_RECEIPTS * 2)) (\<lambda>(found, more).
       if more then raise (Conflict ''Upload receipt inventory exceeds its budget; resources retained'') else give found)"

fun is_tmp :: "loc \<Rightarrow> bool" where
  "is_tmp (JournalTmp _) = True"
| "is_tmp (ReceiptTmp _) = True"
| "is_tmp (DeletionTmp _) = True"
| "is_tmp _ = False"

definition load_receipt_count :: "unit io" where
  "load_receipt_count =
     seq receipt_inventory (\<lambda>found.
     seq (for_each (\<lambda>path. if is_tmp path
            then seq (rooted_remove_file path) (\<lambda>_. rooted_sync_parent path) else give ()) found) (\<lambda>_.
     (\<lambda>w. (Inr (), w\<lparr>w_receipt_count := length (filter (\<lambda>l. \<not> is_tmp l) found)\<rparr>))))"

definition prune_receipts :: "tx_env \<Rightarrow> str list \<Rightarrow> unit io" where
  "prune_receipts env retained =
     seq receipt_inventory (for_each (\<lambda>path.
       if is_tmp path then raise (Conflict ''unrecognized upload receipt entry'')
       else if resource_name path \<in> set retained then give ()
       else seq (read_receipt env (resource_name path)) (\<lambda>_. remove_receipt path)))"

definition prune_receipt :: "tx_env \<Rightarrow> str \<Rightarrow> unit io" where
  "prune_receipt env operation_id =
     seq (from_result (receipt_path operation_id)) (\<lambda>path.
     seq (read_receipt env operation_id) (\<lambda>r. if r = None then give () else remove_receipt path))"

end
