(* ===== verification/LocalTransactions.thy ===== *)
theory LocalTransactions
  imports TransactionStore
begin

text \<open>
  Replacement, transfer, staged deletion and recovery of local files (src/src/storage_transaction.rs
  and transfer.rs, recovery.rs beside it). A replacement writes a journal, moves the previous file
  aside, moves the new one into place, marks the journal as published, keeps a receipt of the
  upload and then retires what it no longer needs; recovery reads the same records after a restart.
\<close>

section \<open>Destinations and sources\<close>

text \<open>
  The directories above a destination are checked by \<open>te_parents\<close>; the destination itself may be
  absent, a file, or where that is allowed a directory.
\<close>

definition validate_destination_kind :: "tx_env \<Rightarrow> str \<Rightarrow> bool \<Rightarrow> unit io" where
  "validate_destination_kind env relative allow_directory =
     (if relative = [] \<or> 4096 < length relative then raise invalid_destination
      else seq (from_result (normalize_relative relative)) (\<lambda>normal.
        if normal \<noteq> relative then raise invalid_destination
        else seq (from_result (te_parents env relative)) (\<lambda>_.
             seq (rooted_metadata (Dest relative)) (\<lambda>m.
               case m of
                 None \<Rightarrow> give ()
               | Some n \<Rightarrow>
                   if node_is_dir n \<and> \<not> allow_directory
                   then raise (Conflict ''Unexpected transaction destination type; recovery stopped'')
                   else give ()))))"

definition validate_destination :: "tx_env \<Rightarrow> str \<Rightarrow> unit io" where
  "validate_destination env relative = validate_destination_kind env relative False"

definition replacement_source :: "replace_journal \<Rightarrow> loc" where
  "replacement_source j =
     (case rj_transfer_source j of
        Some source \<Rightarrow> Dest source
      | None \<Rightarrow> if rj_staged_copy j then CopyTree (rj_id j) else UploadFile (rj_id j))"

section \<open>Publication\<close>

definition set_pending :: "replace_journal option \<Rightarrow> unit io" where
  "set_pending p w = (Inr (), w\<lparr>w_pending := p\<rparr>)"

definition set_ownership :: "upload_ownership \<Rightarrow> unit io" where
  "set_ownership x w = (Inr (), w\<lparr>w_ownership := x\<rparr>)"

definition settle_publication :: "tx_env \<Rightarrow> unit io" where
  "settle_publication env w =
     (case w_pending w of
        None \<Rightarrow> (Inr (), w)
      | Some journal \<Rightarrow>
          seq (rooted_sync_parent (Dest (rj_destination journal))) (\<lambda>_.
          seq (rooted_sync_parent (replacement_source journal)) (\<lambda>_.
          seq (write_json_atomic_inner env (JournalFile (rj_id journal)) (ReplaceDoc (journal\<lparr>rj_published := True\<rparr>)) True (\<lambda>w. w)) (\<lambda>_.
          set_pending None))) w)"

definition stage_delete :: "tx_env \<Rightarrow> nat option \<Rightarrow> str \<Rightarrow> loc \<Rightarrow> nat \<Rightarrow> loc io" where
  "stage_delete env clock new_id source bytes =
     seq (settle_publication env) (\<lambda>_.
     seq (from_result (deletion_journal_new clock new_id bytes)) (\<lambda>record.
     seq (map_error (\<lambda>e. with_operation e NotCommitted CleanupPending)
            (write_json_atomic env (DeletionFile new_id) (DeletionDoc record))) (\<lambda>_.
     seq (notify NoteDeletionStarted) (\<lambda>_.
     seq (map_error (\<lambda>e. with_operation e CommitUnknown CleanupUnknown)
            (rooted_rename_noreplace source (TrashOf new_id))) (\<lambda>_.
     seq (notify (NoteDeletionPublished (TrashOf new_id))) (\<lambda>_.
     seq (map_error (\<lambda>e. with_operation e Committed CleanupPending)
            (seq (rooted_sync_parent source) (\<lambda>_. rooted_sync_parent (TrashOf new_id)))) (\<lambda>_.
     give (TrashOf new_id))))))))"

definition cleanup_replacement_backup :: "tx_env \<Rightarrow> nat option \<Rightarrow> str \<Rightarrow> loc \<Rightarrow> nat \<Rightarrow> unit io" where
  "cleanup_replacement_backup env clock new_id backup bytes =
     seq (rooted_metadata backup) (\<lambda>m.
       case m of
         None \<Rightarrow> give ()
       | Some n \<Rightarrow>
           if node_is_dir n then seq (stage_delete env clock new_id backup bytes) (\<lambda>_. give ())
           else seq (rooted_remove_file backup) (\<lambda>_. rooted_sync_parent backup))"

definition drop_anchor :: "replace_journal \<Rightarrow> unit io" where
  "drop_anchor journal =
     (if rj_anchored journal
      then seq (rooted_remove_file_idempotent (AnchorOf (rj_id journal))) (\<lambda>_. rooted_sync_parent (AnchorOf (rj_id journal)))
      else give ())"

text \<open>After the new file could not be moved into place: whether the previous one is back.\<close>

definition restore_previous :: "replace_journal \<Rightarrow> loc \<Rightarrow> bool \<Rightarrow> bool io" where
  "restore_previous journal destination replacing =
     seq (rooted_exists (BackupOf (rj_id journal))) (\<lambda>kept.
       if kept
       then catch (seq (rooted_rename_noreplace (BackupOf (rj_id journal)) destination) (\<lambda>_. give True)) (\<lambda>_. give False)
       else if replacing then give False
       else seq (rooted_exists destination) (\<lambda>present. give (\<not> present)))"

definition roll_back :: "replace_journal \<Rightarrow> loc \<Rightarrow> loc \<Rightarrow> bool \<Rightarrow> app_error \<Rightarrow> nat io" where
  "roll_back journal temporary destination replacing error =
     seq (restore_previous journal destination replacing) (\<lambda>restored.
     seq (if restored then rooted_exists temporary else give False) (\<lambda>complete.
       if complete
       then seq (rooted_sync_parent destination) (\<lambda>_.
            seq (rooted_sync_parent (BackupOf (rj_id journal))) (\<lambda>_.
            seq (rooted_sync_parent temporary) (\<lambda>_.
            seq (drop_anchor journal) (\<lambda>_.
            seq (rooted_remove_file (JournalFile (rj_id journal))) (\<lambda>_.
            seq (rooted_sync_parent (JournalFile (rj_id journal))) (\<lambda>_.
            seq (notify NoteRollbackCompleted) (\<lambda>_.
            raise (with_operation error NotCommitted CleanupPending))))))))
       else raise error))"

definition conclude_publication :: "tx_env \<Rightarrow> nat option \<Rightarrow> str \<Rightarrow> replace_journal \<Rightarrow> nat \<Rightarrow> nat io" where
  "conclude_publication env clock new_id journal previous_size =
     seq (notify (NotePublished previous_size)) (\<lambda>_.
     seq (set_pending (Some journal)) (\<lambda>_.
     seq (settle_publication env) (\<lambda>_.
     seq (case (rj_operation_id journal, rj_operation_size journal) of
            (Some operation_id, Some len) \<Rightarrow> ensure_receipt env operation_id (rj_destination journal) len Committed
          | _ \<Rightarrow> give ()) (\<lambda>_.
     seq (cleanup_replacement_backup env clock new_id (BackupOf (rj_id journal)) previous_size) (\<lambda>_.
     seq (drop_anchor journal) (\<lambda>_.
     seq (rooted_remove_file (JournalFile (rj_id journal))) (\<lambda>_.
     seq (rooted_sync_parent (JournalFile (rj_id journal))) (\<lambda>_.
     give previous_size))))))))"

definition publish_replacement ::
  "tx_env \<Rightarrow> nat option \<Rightarrow> str \<Rightarrow> replace_journal \<Rightarrow> loc \<Rightarrow> loc \<Rightarrow> bool \<Rightarrow> nat \<Rightarrow> nat io" where
  "publish_replacement env clock new_id journal temporary destination replacing previous_size =
     seq (write_json_atomic env (JournalFile (rj_id journal)) (ReplaceDoc journal)) (\<lambda>_.
     seq (if replacing then rooted_rename_noreplace destination (BackupOf (rj_id journal)) else give ()) (\<lambda>_.
     (\<lambda>w. case rooted_rename_noreplace temporary destination w of
            (Inl error, w) \<Rightarrow> roll_back journal temporary destination replacing error w
          | (Inr _, w) \<Rightarrow> conclude_publication env clock new_id journal previous_size w)))"

text \<open>A proven rollback returns the upload to its writer.\<close>

definition return_ownership :: "'a io \<Rightarrow> 'a io" where
  "return_ownership m w =
     (case m w of
        (Inl e, w) \<Rightarrow>
          (Inl e, case operation e of
                    Some outcome \<Rightarrow> if oo_commit outcome = NotCommitted then w\<lparr>w_ownership := WriterOwned\<rparr> else w
                  | None \<Rightarrow> w)
      | (Inr x, w) \<Rightarrow> (Inr x, w))"

record replacement_observer =
  ro_check_destination :: "node option \<Rightarrow> unit app_result"
  ro_must_create_new :: bool
  ro_prepare :: "nat \<Rightarrow> unit app_result"

definition place_anchor :: "tx_env \<Rightarrow> replace_journal \<Rightarrow> loc \<Rightarrow> replace_journal io" where
  "place_anchor env journal temporary =
     (let anchor = AnchorOf (rj_id journal)
      in seq (rooted_exists anchor) (\<lambda>present.
         if present then raise (Conflict ''Upload anchor already exists'')
         else seq (hard_link_noreplace env temporary anchor) (\<lambda>anchored.
              seq (if anchored then rooted_sync_parent anchor else give ()) (\<lambda>_.
              give (journal\<lparr>rj_anchored := anchored\<rparr>)))))"

definition commit_file_with_operation ::
  "tx_env \<Rightarrow> nat option \<Rightarrow> str \<Rightarrow> str \<Rightarrow> loc \<Rightarrow> loc \<Rightarrow> replacement_observer \<Rightarrow> (str \<times> nat) option \<Rightarrow> nat io" where
  "commit_file_with_operation env clock new_id relative temporary destination observer op =
     seq (settle_publication env) (\<lambda>_.
     if destination \<noteq> Dest relative then raise (internal_error ''destination does not belong to this transaction namespace'')
     else
     seq (validate_destination env relative) (\<lambda>_.
     seq (rooted_metadata destination) (\<lambda>metadata.
     seq (from_result (ro_check_destination observer metadata)) (\<lambda>_.
     if ro_must_create_new observer \<and> metadata \<noteq> None
     then raise (Conflict ''The upload target is occupied; existing files are not overwritten'')
     else if (case metadata of None \<Rightarrow> False | Some n \<Rightarrow> node_is_dir n)
     then raise (Conflict ''Only a regular file can be replaced by an upload'')
     else
     seq (from_result (resource_id temporary)) (\<lambda>i.
     if temporary \<noteq> UploadFile i then raise (internal_error ''upload does not belong to this transaction namespace'')
     else
     seq (from_result (replace_journal_new i relative)) (\<lambda>journal.
     seq (case op of
            None \<Rightarrow> give journal
          | Some (operation_id, len) \<Rightarrow>
              let journal = journal\<lparr>rj_operation_id := Some operation_id, rj_operation_size := Some len\<rparr>
              in seq (from_result (validate_journal journal)) (\<lambda>_.
                 seq (check_receipt_capacity env operation_id) (\<lambda>_. give journal))) (\<lambda>journal.
     let previous_size = (case metadata of None \<Rightarrow> 0 | Some n \<Rightarrow> node_len n) in
     seq (from_result (ro_prepare observer previous_size)) (\<lambda>_.
     seq (set_ownership RecoveryOwned) (\<lambda>_.
     seq (notify NoteRecoveryOwned) (\<lambda>_.
     seq (if op \<noteq> None then place_anchor env journal temporary else give journal) (\<lambda>journal.
     return_ownership (publish_replacement env clock new_id journal temporary destination (metadata \<noteq> None) previous_size))))))))))))"

definition commit_transfer ::
  "tx_env \<Rightarrow> nat option \<Rightarrow> str \<Rightarrow> str \<Rightarrow> loc \<Rightarrow> str \<Rightarrow> bool \<Rightarrow> replacement_observer \<Rightarrow> nat \<Rightarrow> bool io" where
  "commit_transfer env clock new_id debt_id source destination overwrite observer previous_size =
     seq (settle_publication env) (\<lambda>_.
     seq (rooted_metadata source) (\<lambda>found.
     if found = None then raise NotFound
     else
     seq (validate_destination_kind env destination True) (\<lambda>_.
     seq (rooted_metadata (Dest destination)) (\<lambda>existing.
     if \<not> overwrite \<and> existing \<noteq> None then raise PreconditionFailed
     else
     let staged_copy = (folder_of source = Copies) in
     seq (if staged_copy then from_result (resource_id source) else give new_id) (\<lambda>i.
     seq (from_result (replace_journal_new i destination)) (\<lambda>journal.
     seq (if staged_copy then give None
          else case source of Dest path \<Rightarrow> give (Some path) | _ \<Rightarrow> raise Forbidden) (\<lambda>transfer_source.
     let journal = journal\<lparr>rj_version := 4, rj_staged_copy := staged_copy, rj_transfer_source := transfer_source,
                           rj_replaced_bytes := previous_size\<rparr> in
     seq (from_result (validate_journal journal)) (\<lambda>_.
     seq (from_result (ro_prepare observer previous_size)) (\<lambda>_.
     seq (set_ownership RecoveryOwned) (\<lambda>_.
     seq (notify NoteRecoveryOwned) (\<lambda>_.
     seq (return_ownership (publish_replacement env clock debt_id journal source (Dest destination) (existing \<noteq> None) previous_size)) (\<lambda>_.
     give (existing = None)))))))))))))"

section \<open>Recovery\<close>

definition DELETION_NODES_PER_PASS :: nat where
  "DELETION_NODES_PER_PASS = 256"

definition decode_replace_journal :: "tx_env \<Rightarrow> loc \<Rightarrow> node \<Rightarrow> replace_journal app_result" where
  "decode_replace_journal env path n =
     (case n of
        Obj _ \<Rightarrow> Inl (with_source ''invalid transaction journal; recovery stopped'' ''expected value'')
      | Doc doc \<Rightarrow>
          if MAX_JOURNAL_BYTES < te_encoded_size env doc
          then Inl (Conflict ''Transaction journal exceeds its size limit; recovery stopped'')
          else (case doc of
                  ReplaceDoc journal \<Rightarrow>
                    rbind (validate_journal journal) (\<lambda>_.
                    rbind (resource_id path) (\<lambda>i.
                    if rj_id journal \<noteq> i
                    then Inl (Conflict ''Transaction filename and identifier disagree; recovery stopped'')
                    else Inr journal))
                | _ \<Rightarrow> Inl (with_source ''invalid transaction journal; recovery stopped'' ''expected value'')))"

definition read_journal :: "tx_env \<Rightarrow> loc \<Rightarrow> replace_journal io" where
  "read_journal env path =
     seq (inspect ''failed to read transaction journal'' (\<lambda>d. al_get d path)) (\<lambda>n.
       case n of None \<Rightarrow> raise NotFound | Some n \<Rightarrow> from_result (decode_replace_journal env path n))"

definition decode_deletion_journal :: "tx_env \<Rightarrow> loc \<Rightarrow> node \<Rightarrow> deletion_journal app_result" where
  "decode_deletion_journal env path n =
     (case n of
        Obj _ \<Rightarrow> Inl (with_source ''invalid deletion debt record; recovery stopped'' ''expected value'')
      | Doc doc \<Rightarrow>
          if MAX_JOURNAL_BYTES < te_encoded_size env doc
          then Inl (Conflict ''Deletion debt record exceeds its size limit; recovery stopped'')
          else (case doc of
                  DeletionDoc record \<Rightarrow>
                    rbind (validate_deletion record) (\<lambda>_.
                    rbind (resource_id path) (\<lambda>i.
                    if dj_id record \<noteq> i
                    then Inl (Conflict ''Deletion debt filename and identifier disagree; recovery stopped'')
                    else Inr record))
                | _ \<Rightarrow> Inl (with_source ''invalid deletion debt record; recovery stopped'' ''expected value'')))"

definition read_deletion_journal :: "tx_env \<Rightarrow> loc \<Rightarrow> deletion_journal io" where
  "read_deletion_journal env path =
     seq (inspect ''failed to read deletion debt record'' (\<lambda>d. al_get d path)) (\<lambda>n.
       case n of None \<Rightarrow> raise NotFound | Some n \<Rightarrow> from_result (decode_deletion_journal env path n))"

definition handoff_recovered_copy :: "loc \<Rightarrow> loc option io" where
  "handoff_recovered_copy path =
     seq (rooted_exists path) (\<lambda>present.
       if \<not> present then give None
       else seq (from_result (resource_id path)) (\<lambda>i.
            seq (rooted_rename_noreplace path (TrashOf i)) (\<lambda>_.
            seq (rooted_sync_parent path) (\<lambda>_.
            seq (rooted_sync_parent (TrashOf i)) (\<lambda>_.
            give (Some (TrashOf i)))))))"

text \<open>Whether the anchor of an upload and the destination are the same file.\<close>

definition anchored_publication :: "replace_journal \<Rightarrow> bool \<Rightarrow> bool \<Rightarrow> bool io" where
  "anchored_publication journal destination_exists upload_exists =
     seq (rooted_exists (AnchorOf (rj_id journal))) (\<lambda>anchor_exists.
       if rj_anchored journal \<and> \<not> rj_published journal \<and> anchor_exists \<and> destination_exists \<and> \<not> upload_exists
       then seq (rooted_metadata (AnchorOf (rj_id journal))) (\<lambda>anchored.
            case anchored of
              None \<Rightarrow> raise (Conflict ''Upload anchor disappeared during recovery'')
            | Some a \<Rightarrow>
                seq (rooted_metadata (Dest (rj_destination journal))) (\<lambda>destination.
                case destination of
                  None \<Rightarrow> raise (Conflict ''Upload destination disappeared during recovery'')
                | Some b \<Rightarrow> give (node_inode a = node_inode b)))
       else give False)"

definition when_operation :: "replace_journal \<Rightarrow> (str \<Rightarrow> nat \<Rightarrow> unit io) \<Rightarrow> unit io" where
  "when_operation journal f =
     (case (rj_operation_id journal, rj_operation_size journal) of (Some i, Some len) \<Rightarrow> f i len | _ \<Rightarrow> give ())"

definition rollback_proven :: "tx_env \<Rightarrow> replace_journal \<Rightarrow> bool io" where
  "rollback_proven env journal =
     (case (rj_operation_id journal, rj_operation_size journal) of
        (Some i, Some len) \<Rightarrow>
          seq (receipt_outcome env (rj_destination journal) len i) (\<lambda>outcome.
            give (case outcome of None \<Rightarrow> False | Some oc \<Rightarrow> oo_commit oc = NotCommitted))
      | _ \<Rightarrow> give False)"

definition retire_journal :: "loc \<Rightarrow> unit io" where
  "retire_journal path = seq (rooted_remove_file_idempotent path) (\<lambda>_. rooted_sync_parent path)"

definition restore_or_discard_backup ::
  "tx_env \<Rightarrow> nat option \<Rightarrow> str \<Rightarrow> replace_journal \<Rightarrow> bool \<Rightarrow> bool \<Rightarrow> unit io" where
  "restore_or_discard_backup env clock new_id journal destination_exists backup_exists =
     (let backup = BackupOf (rj_id journal); destination = Dest (rj_destination journal)
      in if \<not> destination_exists \<and> backup_exists \<and> \<not> rj_published journal
         then seq (notify NoteRestoring) (\<lambda>_.
              seq (rooted_rename_noreplace backup destination) (\<lambda>_.
              seq (rooted_sync_parent destination) (\<lambda>_.
              rooted_sync_parent backup)))
         else if backup_exists then cleanup_replacement_backup env clock new_id backup (rj_replaced_bytes journal)
         else give ())"

definition discard_source :: "replace_journal \<Rightarrow> unit io" where
  "discard_source journal =
     (let upload = replacement_source journal
      in if rj_staged_copy journal then seq (handoff_recovered_copy upload) (\<lambda>_. give ())
         else if rj_transfer_source journal = None
         then seq (rooted_remove_file_idempotent upload) (\<lambda>_. rooted_sync_parent upload)
         else give ())"

text \<open>The part of a recovery that changes the disk, once its state has been inspected.\<close>

definition finish_recovery ::
  "tx_env \<Rightarrow> nat option \<Rightarrow> str \<Rightarrow> loc \<Rightarrow> replace_journal \<Rightarrow> bool \<Rightarrow> bool \<Rightarrow> bool \<Rightarrow> bool \<Rightarrow> unit io" where
  "finish_recovery env clock new_id path journal destination_exists backup_exists was_committed verified =
     (let destination = Dest (rj_destination journal); upload = replacement_source journal in
     seq (if was_committed
          then when_operation journal (\<lambda>i len.
                 seq (rooted_sync_parent destination) (\<lambda>_.
                 ensure_receipt env i (rj_destination journal) len
                   (if rj_published journal \<or> verified then Committed else CommitUnknown)))
          else give ()) (\<lambda>_.
     seq (if rj_version journal < 2 \<and> \<not> destination_exists \<and> backup_exists
          then seq (rooted_exists upload) (\<lambda>present.
                 if \<not> present
                 then raise (Conflict ''An old replacement record has no proof of publication; the backup is kept and the old file is not restored'')
                 else give ())
          else give ()) (\<lambda>_.
     seq (restore_or_discard_backup env clock new_id journal destination_exists backup_exists) (\<lambda>_.
     seq (discard_source journal) (\<lambda>_.
     seq (drop_anchor journal) (\<lambda>_.
     seq (if was_committed then give ()
          else when_operation journal (\<lambda>i len. ensure_receipt env i (rj_destination journal) len NotCommitted)) (\<lambda>_.
     retire_journal path)))))))"

definition recover_replacement :: "tx_env \<Rightarrow> nat option \<Rightarrow> str \<Rightarrow> loc \<Rightarrow> replace_journal \<Rightarrow> unit io" where
  "recover_replacement env clock new_id path journal =
     seq (rollback_proven env journal) (\<lambda>proven.
     if proven then retire_journal path
     else
     seq (if rj_published journal then give False else rooted_exists (Dest (rj_destination journal))) (\<lambda>destination_exists.
     seq (rooted_exists (BackupOf (rj_id journal))) (\<lambda>backup_exists.
     seq (rooted_exists (replacement_source journal)) (\<lambda>upload_exists.
     if \<not> rj_published journal \<and> upload_exists \<and> backup_exists \<and> destination_exists
     then raise (Conflict ''Unexpected destination during upload recovery; original backup retained'')
     else
     seq (anchored_publication journal destination_exists upload_exists) (\<lambda>verified.
     if rj_anchored journal \<and> \<not> rj_published journal \<and> destination_exists \<and> \<not> upload_exists \<and> \<not> verified
     then raise (Conflict ''Upload publication identity cannot be verified; resources retained'')
     else finish_recovery env clock new_id path journal destination_exists backup_exists
            (rj_published journal \<or> destination_exists \<and> \<not> upload_exists) verified)))))"

end
