(* ===== verification/TransactionLogic.thy ===== *)
theory TransactionLogic
  imports LocalTransactions
begin

text \<open>
  Rules to reason about the transactions of LocalTransactions under every fate of their system
  calls. A specification relates the disk before and after; an invariant holds of every disk that
  was visible on the way, so that it holds wherever the process may have been stopped.
\<close>

definition holds :: "(world \<Rightarrow> bool) \<Rightarrow> 'a io \<Rightarrow> ('a \<Rightarrow> world \<Rightarrow> bool) \<Rightarrow> (app_error \<Rightarrow> world \<Rightarrow> bool) \<Rightarrow> bool" where
  "holds P m Q E \<longleftrightarrow> (\<forall>w. P w \<longrightarrow> (case m w of (Inr x, w') \<Rightarrow> Q x w' | (Inl e, w') \<Rightarrow> E e w'))"

text \<open>All the changes that are not synchronised, made to what is, give the disk that is visible.\<close>

definition current :: "world \<Rightarrow> bool" where
  "current w \<longleftrightarrow> al_get (apply_changes (w_unsynced w) (w_stable w)) = al_get (w_disk w)"

text \<open>The disk is described by \<open>P\<close>, and the invariant holds of it and of all disks before it.\<close>

definition on_disk :: "(disk \<Rightarrow> bool) \<Rightarrow> (disk \<Rightarrow> bool) \<Rightarrow> world \<Rightarrow> bool" where
  "on_disk P I w \<longleftrightarrow> P (w_disk w) \<and> I (w_disk w) \<and> list_all I (w_seen w) \<and> current w"

text \<open>An error that says nothing about the outcome.\<close>

definition plain :: "(disk \<Rightarrow> bool) \<Rightarrow> app_error \<Rightarrow> world \<Rightarrow> bool" where
  "plain I e w \<longleftrightarrow> operation e = None \<and> on_disk I I w"

lemma holdsI: "(\<And>w x w'. P w \<Longrightarrow> m w = (Inr x, w') \<Longrightarrow> Q x w') \<Longrightarrow> (\<And>w e w'. P w \<Longrightarrow> m w = (Inl e, w') \<Longrightarrow> E e w') \<Longrightarrow> holds P m Q E"
  by (auto simp: holds_def split: prod.splits sum.splits)

lemma holds_okD: "holds P m Q E \<Longrightarrow> P w \<Longrightarrow> m w = (Inr x, w') \<Longrightarrow> Q x w'"
  by (auto simp: holds_def)

lemma holds_errD: "holds P m Q E \<Longrightarrow> P w \<Longrightarrow> m w = (Inl e, w') \<Longrightarrow> E e w'"
  by (auto simp: holds_def)

lemma holds_seq:
  assumes m: "holds P m R E" and f: "\<And>x. holds (R x) (f x) Q E"
  shows "holds P (seq m f) Q E"
proof (rule holdsI)
  fix w x w' assume "P w" "seq m f w = (Inr x, w')"
  then show "Q x w'" using holds_okD [OF m, of w] holds_okD [OF f] by (auto simp: seq_def split: prod.splits sum.splits)
next
  fix w e w' assume "P w" "seq m f w = (Inl e, w')"
  then show "E e w'" using holds_okD [OF m, of w] holds_errD [OF m, of w] holds_errD [OF f]
    by (auto simp: seq_def split: prod.splits sum.splits)
qed

lemma holds_weaken:
  "\<lbrakk>holds P m Q E; \<And>w. P' w \<Longrightarrow> P w; \<And>x w. Q x w \<Longrightarrow> Q' x w; \<And>e w. E e w \<Longrightarrow> E' e w\<rbrakk> \<Longrightarrow> holds P' m Q' E'"
  by (rule holdsI) (blast dest: holds_okD holds_errD)+

lemma holds_pre: "\<lbrakk>holds P m Q E; \<And>w. P' w \<Longrightarrow> P w\<rbrakk> \<Longrightarrow> holds P' m Q E"
  by (auto simp: holds_def)

lemma holds_give: "(\<And>w. P w \<Longrightarrow> Q x w) \<Longrightarrow> holds P (give x) Q E"
  by (simp add: holds_def give_def)

lemma holds_raise: "(\<And>w. P w \<Longrightarrow> E e w) \<Longrightarrow> holds P (raise e) Q E"
  by (simp add: holds_def raise_def)

lemma holds_from_result:
  "\<lbrakk>\<And>w x. P w \<Longrightarrow> r = Inr x \<Longrightarrow> Q x w; \<And>w e. P w \<Longrightarrow> r = Inl e \<Longrightarrow> E e w\<rbrakk> \<Longrightarrow> holds P (from_result r) Q E"
  by (auto simp: holds_def from_result_def split: sum.splits)

lemma holds_catch:
  assumes m: "holds P m Q R" and h: "\<And>e. holds (R e) (h e) Q E"
  shows "holds P (catch m h) Q E"
proof (rule holdsI)
  fix w x w' assume "P w" "catch m h w = (Inr x, w')"
  then show "Q x w'" using holds_okD [OF m, of w] holds_errD [OF m, of w] holds_okD [OF h]
    by (auto simp: catch_def split: prod.splits sum.splits)
next
  fix w e w' assume "P w" "catch m h w = (Inl e, w')"
  then show "E e w'" using holds_errD [OF m, of w] holds_errD [OF h] by (auto simp: catch_def split: prod.splits sum.splits)
qed

lemma holds_if: "\<lbrakk>b \<Longrightarrow> holds P m Q E; \<not> b \<Longrightarrow> holds P n Q E\<rbrakk> \<Longrightarrow> holds P (if b then m else n) Q E"
  by simp

lemma holds_false: "(\<And>w. \<not> P w) \<Longrightarrow> holds P m Q E"
  by (simp add: holds_def)

lemma on_disk_mono: "on_disk P I w \<Longrightarrow> (\<And>d. P d \<Longrightarrow> I d \<Longrightarrow> Q d) \<Longrightarrow> on_disk Q I w"
  by (simp add: on_disk_def)

lemma on_disk_inv: "on_disk P I w \<Longrightarrow> on_disk I I w"
  by (simp add: on_disk_def)

lemma plain_io_error: "on_disk P I w \<Longrightarrow> plain I (io_error c) w"
  by (simp add: plain_def on_disk_def io_error_def with_source_def operation_def)

text \<open>Changes: what is at a name afterwards is what the last change of that name put there.\<close>

lemma al_get_apply_change: "al_get (apply_change c d) l = (if fst c = l then snd c else al_get d l)"
  by (cases "(c, d)" rule: apply_change.cases) auto

lemma al_get_apply_changes: "al_get (apply_changes cs d) l = fold (\<lambda>c v. if fst c = l then snd c else v) cs (al_get d l)"
  by (induction cs arbitrary: d) (simp_all add: al_get_apply_change)

lemma apply_changes_append [simp]: "apply_changes (xs @ ys) d = apply_changes ys (apply_changes xs d)"
  by (induction xs arbitrary: d) simp_all

lemma apply_changes_moving [simp]: "apply_changes (moving a b n) d = move a b n d"
  by (simp add: moving_def move_def)

lemma apply_changes_cong: "al_get d = al_get d' \<Longrightarrow> al_get (apply_changes cs d) = al_get (apply_changes cs d')"
  by (simp add: fun_eq_iff al_get_apply_changes)

lemma apply_changes_elsewhere: "l \<notin> fst ` set cs \<Longrightarrow> al_get (apply_changes cs d) l = al_get d l"
  unfolding al_get_apply_changes by (induction cs) auto

lemma fold_at_name: "fold (\<lambda>c v. if fst c = l then snd c else v) (filter (\<lambda>(k, _). Q k) cs) x =
    (if Q l then fold (\<lambda>c v. if fst c = l then snd c else v) cs x else x)"
  by (induction cs arbitrary: x) auto

lemma apply_changes_by_folder:
  "al_get (apply_changes (filter (\<lambda>(k, _). folder_of k \<noteq> g) cs) (apply_changes (filter (\<lambda>(k, _). folder_of k = g) cs) d)) =
   al_get (apply_changes cs d)"
  by (simp add: fun_eq_iff al_get_apply_changes fold_at_name)

text \<open>System calls.\<close>

lemma next_fate_frame:
  "next_fate w = (f, w') \<Longrightarrow> w_disk w' = w_disk w \<and> w_seen w' = w_seen w \<and> w_stable w' = w_stable w \<and>
    w_unsynced w' = w_unsynced w \<and> w_pending w' = w_pending w \<and> w_receipt_count w' = w_receipt_count w"
  by (auto simp: next_fate_def split: list.splits)

lemma holds_attempt:
  assumes "\<And>d cs. P d \<Longrightarrow> I d \<Longrightarrow> f d = Inr cs \<Longrightarrow> Q (apply_changes cs d) \<and> I (apply_changes cs d)"
    and "\<And>d e. P d \<Longrightarrow> I d \<Longrightarrow> f d = Inl e \<Longrightarrow> operation e = None"
  shows "holds (on_disk P I) (attempt c f) (\<lambda>_. on_disk Q I)
    (\<lambda>e w. plain I e w \<and> (on_disk P I w \<or> on_disk Q I w) \<and> (e = io_error c \<or> on_disk (\<lambda>d. P d \<and> f d = Inl e) I w))"
    (is "holds _ _ _ ?E")
  unfolding holds_def
proof (intro allI impI)
  fix w assume P: "on_disk P I w"
  obtain fate w1 where fate: "next_fate w = (fate, w1)" by (cases "next_fate w")
  from next_fate_frame [OF fate] P have P1: "on_disk P I w1" by (simp add: on_disk_def current_def)
  show "case attempt c f w of (Inr x, w') \<Rightarrow> on_disk Q I w' | (Inl e, w') \<Rightarrow> ?E e w'"
  proof (cases "f (w_disk w1)")
    case (Inl e)
    then have "plain I e w1" "on_disk (\<lambda>d. P d \<and> f d = Inl e) I w1" using assms(2) P1 by (auto simp: plain_def on_disk_def)
    with P1 Inl show ?thesis by (auto simp: attempt_def fate plain_io_error)
  next
    case (Inr cs)
    have "on_disk Q I (commit_change cs w1)"
      using assms(1) P1 Inr apply_changes_cong [of "apply_changes (w_unsynced w1) (w_stable w1)" "w_disk w1" cs]
      by (auto simp: on_disk_def commit_change_def current_def Let_def)
    then show ?thesis using P1 Inr
      by (auto simp: attempt_def fate plain_io_error)
  qed
qed

lemma holds_inspect: "holds (on_disk P I) (inspect c f) (\<lambda>x. on_disk (\<lambda>d. P d \<and> f d = x) I) (plain I)"
  unfolding holds_def
proof (intro allI impI)
  fix w assume P: "on_disk P I w"
  obtain fate w1 where fate: "next_fate w = (fate, w1)" by (cases "next_fate w")
  from next_fate_frame [OF fate] P have P1: "on_disk P I w1" by (simp add: on_disk_def current_def)
  then show "case inspect c f w of (Inr x, w') \<Rightarrow> on_disk (\<lambda>d. P d \<and> f d = x) I w' | (Inl e, w') \<Rightarrow> plain I e w'"
    by (auto simp: inspect_def fate plain_io_error) (simp add: on_disk_def)
qed

lemma sync_folder_frame [simp]:
  "w_disk (sync_folder g w) = w_disk w" "w_seen (sync_folder g w) = w_seen w"
  by (simp_all add: sync_folder_def)

lemma current_sync: "current w \<Longrightarrow> current (sync_folder g w)"
  by (simp add: current_def sync_folder_def apply_changes_by_folder)

lemma on_disk_sync: "on_disk P I w \<Longrightarrow> on_disk P I (sync_folder g w)"
  by (simp add: on_disk_def current_sync)

lemma holds_sync: "holds (on_disk P I) (rooted_sync_parent l) (\<lambda>_. on_disk P I) (\<lambda>e w. plain I e w \<and> on_disk P I w)"
  unfolding holds_def
proof (intro allI impI)
  fix w assume P: "on_disk P I w"
  obtain fate w1 where fate: "next_fate w = (fate, w1)" by (cases "next_fate w")
  from next_fate_frame [OF fate] P have P1: "on_disk P I w1" by (simp add: on_disk_def current_def)
  then show "case rooted_sync_parent l w of (Inr x, w') \<Rightarrow> on_disk P I w' | (Inl e, w') \<Rightarrow> plain I e w' \<and> on_disk P I w'"
    using plain_io_error [OF on_disk_sync [OF P1]]
    by (cases fate) (simp_all add: rooted_sync_parent_def fate plain_io_error on_disk_sync)
qed

lemma holds_metadata: "holds (on_disk P I) (rooted_metadata l) (\<lambda>x. on_disk (\<lambda>d. P d \<and> al_get d l = x) I) (plain I)"
  unfolding rooted_metadata_def by (rule holds_inspect)

lemma holds_exists: "holds (on_disk P I) (rooted_exists l) (\<lambda>x. on_disk (\<lambda>d. P d \<and> (al_get d l \<noteq> None) = x) I) (plain I)"
  unfolding rooted_exists_def
  by (rule holds_seq [OF holds_metadata], rule holds_give, erule on_disk_mono) simp

lemma holds_rename:
  assumes "\<And>d n. P d \<Longrightarrow> I d \<Longrightarrow> al_get d a = Some n \<Longrightarrow> al_get d b = None \<Longrightarrow> Q (move a b n d) \<and> I (move a b n d)"
  shows "holds (on_disk P I) (rooted_rename_noreplace a b) (\<lambda>_. on_disk Q I) (\<lambda>e w. plain I e w \<and> (on_disk P I w \<or> on_disk Q I w))"
  unfolding rooted_rename_noreplace_def rename_with_flags_def
  by (rule holds_weaken, rule holds_attempt [where Q = Q]) (auto simp: assms operation_def split: option.splits if_splits)

lemma holds_rename_over:
  assumes "\<And>d n. P d \<Longrightarrow> I d \<Longrightarrow> al_get d a = Some n \<Longrightarrow> Q (move a b n d) \<and> I (move a b n d)"
  shows "holds (on_disk P I) (rename_with_flags False a b) (\<lambda>_. on_disk Q I) (\<lambda>e w. plain I e w \<and> (on_disk P I w \<or> on_disk Q I w))"
  unfolding rename_with_flags_def
  by (rule holds_weaken, rule holds_attempt [where Q = Q]) (auto simp: assms operation_def split: option.splits if_splits)

lemma holds_remove:
  assumes "\<And>d n. P d \<Longrightarrow> I d \<Longrightarrow> al_get d l = Some n \<Longrightarrow> \<not> node_is_dir n \<Longrightarrow> Q (al_remove l d) \<and> I (al_remove l d)"
  shows "holds (on_disk P I) (rooted_remove_file l) (\<lambda>_. on_disk Q I)
    (\<lambda>e w. plain I e w \<and> (on_disk P I w \<or> on_disk Q I w) \<and> (e = NotFound \<longrightarrow> on_disk (\<lambda>d. P d \<and> al_get d l = None) I w))"
  unfolding rooted_remove_file_def
proof (rule holds_weaken, rule holds_attempt [where Q = Q])
  show "plain I e w \<and> (on_disk P I w \<or> on_disk Q I w) \<and> (e = NotFound \<longrightarrow> on_disk (\<lambda>d. P d \<and> al_get d l = None) I w)"
    if "plain I e w \<and> (on_disk P I w \<or> on_disk Q I w) \<and> (e = io_error ''failed to remove file below local storage root'' \<or>
      on_disk (\<lambda>d. P d \<and> (case al_get d l of None \<Rightarrow> Inl NotFound
        | Some n \<Rightarrow> if node_is_dir n then Inl (linux_error ''failed to remove file below local storage root'' (OTHER_ERRNO ''Is a directory (os error 21)''))
                    else Inr [(l, None)]) = Inl e) I w)" for e w
    using that by (auto simp: io_error_def with_source_def linux_error_def on_disk_def split: option.splits if_splits)
qed (auto simp: assms operation_def linux_error_def with_source_def split: option.splits if_splits)

lemma holds_remove_idempotent:
  assumes "\<And>d n. P d \<Longrightarrow> I d \<Longrightarrow> al_get d l = Some n \<Longrightarrow> \<not> node_is_dir n \<Longrightarrow> Q (al_remove l d) \<and> I (al_remove l d)"
    and "\<And>d. P d \<Longrightarrow> I d \<Longrightarrow> al_get d l = None \<Longrightarrow> Q d"
  shows "holds (on_disk P I) (rooted_remove_file_idempotent l) (\<lambda>_. on_disk Q I) (\<lambda>e w. plain I e w \<and> (on_disk P I w \<or> on_disk Q I w))"
  unfolding rooted_remove_file_idempotent_def
proof (rule holds_catch [OF holds_remove [where P = P and Q = Q and I = I]])
  fix e
  show "holds (\<lambda>w. plain I e w \<and> (on_disk P I w \<or> on_disk Q I w) \<and> (e = NotFound \<longrightarrow> on_disk (\<lambda>d. P d \<and> al_get d l = None) I w))
      (if e = NotFound then give () else raise e) (\<lambda>_. on_disk Q I) (\<lambda>e w. plain I e w \<and> (on_disk P I w \<or> on_disk Q I w))"
    using assms(2) by (intro holds_if holds_give holds_raise) (auto elim: on_disk_mono)
qed (rule assms(1))

text \<open>Records are written to a temporary file that nothing else depends on.\<close>

definition ignores :: "loc \<Rightarrow> (disk \<Rightarrow> bool) \<Rightarrow> bool" where
  "ignores l P \<longleftrightarrow> (\<forall>d n. P (al_insert l n d) = P d \<and> P (al_remove l d) = P d)"

lemma ignoresD: "ignores l P \<Longrightarrow> P (al_insert l n d) = P d" "ignores l P \<Longrightarrow> P (al_remove l d) = P d"
  by (simp_all add: ignores_def)

lemma holds_write_json:
  assumes ign: "ignores (tmp_of path) P" "ignores (tmp_of path) I"
    and new: "\<And>d. P d \<Longrightarrow> I d \<Longrightarrow> \<not> repl \<Longrightarrow> al_get d path = None \<Longrightarrow> Q (al_insert path (Doc doc) (al_remove (tmp_of path) d)) \<and> I (al_insert path (Doc doc) (al_remove (tmp_of path) d))"
    and over: "\<And>d. P d \<Longrightarrow> I d \<Longrightarrow> repl \<Longrightarrow> Q (al_insert path (Doc doc) (al_remove (tmp_of path) d)) \<and> I (al_insert path (Doc doc) (al_remove (tmp_of path) d))"
    and pub: "\<And>w. w_disk (onp w) = w_disk w \<and> w_seen (onp w) = w_seen w \<and> w_stable (onp w) = w_stable w \<and> w_unsynced (onp w) = w_unsynced w"
  shows "holds (on_disk P I) (write_json_atomic_inner env path doc repl onp) (\<lambda>_. on_disk Q I) (\<lambda>e w. plain I e w \<and> (on_disk P I w \<or> on_disk Q I w))"
    (is "holds _ _ _ ?E")
proof -
  let ?tmp = "tmp_of path"
  note ig = ignoresD [OF ign(1)] ignoresD [OF ign(2)]
  have first: "holds (on_disk P I) (if repl then if folder_of path \<in> {Journals, Receipts} then rooted_remove_file_idempotent ?tmp else raise Forbidden else give ())
      (\<lambda>_. on_disk P I) ?E"
    by (intro holds_if holds_give holds_raise holds_weaken [OF holds_remove_idempotent [where P = P and Q = P and I = I]])
       (auto simp: ig plain_def operation_def on_disk_def)
  have create: "holds (on_disk P I) (rooted_create_private_file ?tmp) (\<lambda>_. on_disk P I) ?E"
    unfolding rooted_create_private_file_def
    by (rule holds_weaken, rule holds_attempt [where Q = P and P = P and I = I]) (auto simp: ig operation_def split: if_splits)
  have fill: "holds (on_disk P I) (fill_file ?tmp doc) (\<lambda>_. on_disk (\<lambda>d. P d \<and> al_get d ?tmp = Some (Doc doc)) I) ?E"
    unfolding fill_file_def
    by (rule holds_weaken, rule holds_attempt [where Q = "\<lambda>d. P d \<and> al_get d ?tmp = Some (Doc doc)" and P = P and I = I])
       (auto simp: ig operation_def on_disk_def)
  have flush: "holds (on_disk (\<lambda>d. P d \<and> al_get d ?tmp = Some (Doc doc)) I) flush_file (\<lambda>_. on_disk (\<lambda>d. P d \<and> al_get d ?tmp = Some (Doc doc)) I) ?E"
    unfolding flush_file_def holds_def
  proof (intro allI impI)
    fix w assume P: "on_disk (\<lambda>d. P d \<and> al_get d ?tmp = Some (Doc doc)) I w"
    obtain fate w1 where fate: "next_fate w = (fate, w1)" by (cases "next_fate w")
    from next_fate_frame [OF fate] P have P1: "on_disk (\<lambda>d. P d \<and> al_get d ?tmp = Some (Doc doc)) I w1" by (simp add: on_disk_def current_def)
    then show "case inspect ''failed to flush transaction journal'' (\<lambda>_. ()) w of
        (Inr x, w') \<Rightarrow> on_disk (\<lambda>d. P d \<and> al_get d ?tmp = Some (Doc doc)) I w' | (Inl e, w') \<Rightarrow> ?E e w'"
      by (auto simp: inspect_def fate plain_io_error) (simp add: on_disk_def)
  qed
  have ren: "holds (on_disk (\<lambda>d. P d \<and> al_get d ?tmp = Some (Doc doc)) I)
      (if repl then replace_internal_journal ?tmp path else rooted_rename_noreplace ?tmp path) (\<lambda>_. on_disk Q I) ?E"
  proof (rule holds_if)
    assume repl
    then have o: "P d \<and> al_get d ?tmp = Some (Doc doc) \<Longrightarrow> I d \<Longrightarrow> al_get d ?tmp = Some n \<Longrightarrow> Q (move ?tmp path n d) \<and> I (move ?tmp path n d)" for d n
      using over by (simp add: move_def)
    show "holds (on_disk (\<lambda>d. P d \<and> al_get d ?tmp = Some (Doc doc)) I) (replace_internal_journal ?tmp path) (\<lambda>_. on_disk Q I) ?E"
      unfolding replace_internal_journal_def
      by (intro holds_if holds_raise holds_weaken [OF holds_rename_over [where P = "\<lambda>d. P d \<and> al_get d (tmp_of path) = Some (Doc doc)" and Q = Q and I = I, OF o]]) (auto simp: plain_def operation_def on_disk_def)
  next
    assume "\<not> repl"
    then have o: "P d \<and> al_get d ?tmp = Some (Doc doc) \<Longrightarrow> I d \<Longrightarrow> al_get d ?tmp = Some n \<Longrightarrow> al_get d path = None \<Longrightarrow> Q (move ?tmp path n d) \<and> I (move ?tmp path n d)" for d n
      using new by (simp add: move_def)
    show "holds (on_disk (\<lambda>d. P d \<and> al_get d ?tmp = Some (Doc doc)) I) (rooted_rename_noreplace ?tmp path) (\<lambda>_. on_disk Q I) ?E"
      by (rule holds_weaken [OF holds_rename [where P = "\<lambda>d. P d \<and> al_get d (tmp_of path) = Some (Doc doc)" and Q = Q and I = I, OF o]]) (auto simp: on_disk_def)
  qed
  have pubs: "holds (on_disk Q I) (\<lambda>w. (Inr (), onp w)) (\<lambda>_. on_disk Q I) ?E"
    using pub by (simp add: holds_def on_disk_def current_def)
  have sync: "holds (on_disk Q I) (rooted_sync_parent path) (\<lambda>_. on_disk Q I) ?E"
    by (rule holds_weaken [OF holds_sync]) auto
  have big: "holds (on_disk P I) (raise (Conflict ''Transaction journal exceeds its size limit'')) (\<lambda>_. on_disk Q I) ?E"
    by (rule holds_raise) (auto simp: plain_def operation_def on_disk_def)
  show ?thesis
    unfolding write_json_atomic_inner_def Let_def
    by (intro holds_seq [OF first] holds_if big holds_seq [OF create] holds_seq [OF fill] holds_seq [OF flush] holds_seq [OF ren]
        holds_seq [OF pubs] sync)
qed

text \<open>Receipts.\<close>

lemma normalize_components_plain: "normalize_components cs acc = Inl e \<Longrightarrow> operation e = None"
  by (induction cs acc rule: normalize_components.induct) (auto simp: operation_def validate_name_def split: if_splits sum.splits)

lemma normalize_relative_plain: "normalize_relative s = Inl e \<Longrightarrow> operation e = None"
  using normalize_components_plain
  by (fastforce simp: normalize_relative_def rbind_def operation_def [of "BadRequest _"] split: if_splits sum.splits)

lemma decode_receipt_cases:
  "(\<exists>e. decode_receipt env i n = Inl e \<and> operation e = None) \<or>
   (\<exists>r. decode_receipt env i n = Inr r \<and> n = Doc (ReceiptDoc r) \<and> ur_version r = 1 \<and> ur_operation_id r = i)"
  by (auto simp: decode_receipt_def rbind_def operation_def with_source_def dest: normalize_relative_plain
      split: node.splits document.splits sum.splits)

definition receipt_read :: "str \<Rightarrow> upload_receipt option \<Rightarrow> disk \<Rightarrow> bool" where
  "receipt_read i r d \<longleftrightarrow>
     (case r of
        None \<Rightarrow> al_get d (ReceiptFile i) = None
      | Some x \<Rightarrow> al_get d (ReceiptFile i) = Some (Doc (ReceiptDoc x)) \<and> ur_version x = 1 \<and> ur_operation_id x = i)"

lemma holds_read_receipt:
  "holds (on_disk P I) (read_receipt env i) (\<lambda>r. on_disk (\<lambda>d. P d \<and> receipt_read i r d) I) (plain I)"
  unfolding read_receipt_def
proof (rule holds_seq)
  show "holds (on_disk P I) (from_result (receipt_path i)) (\<lambda>p w. p = ReceiptFile i \<and> on_disk P I w) (plain I)"
    by (rule holds_from_result) (auto simp: receipt_path_def plain_def on_disk_inv operation_def split: if_splits)
  show "holds (\<lambda>w. p = ReceiptFile i \<and> on_disk P I w)
      (seq (rooted_metadata p) (\<lambda>m. case m of None \<Rightarrow> give None
         | Some n \<Rightarrow> seq (from_result (decode_receipt env i n)) (\<lambda>r. give (Some r))))
      (\<lambda>r. on_disk (\<lambda>d. P d \<and> receipt_read i r d) I) (plain I)" for p
  proof (cases "p = ReceiptFile i")
    case True
    have "holds (on_disk (\<lambda>d. P d \<and> al_get d (ReceiptFile i) = m) I)
        (case m of None \<Rightarrow> give None | Some n \<Rightarrow> seq (from_result (decode_receipt env i n)) (\<lambda>r. give (Some r)))
        (\<lambda>r. on_disk (\<lambda>d. P d \<and> receipt_read i r d) I) (plain I)" for m
    proof (cases m)
      case None
      then show ?thesis by (auto intro!: holds_give elim: on_disk_mono simp: receipt_read_def)
    next
      case (Some n)
      have "holds (on_disk (\<lambda>d. P d \<and> al_get d (ReceiptFile i) = Some n) I) (from_result (decode_receipt env i n))
          (\<lambda>r. on_disk (\<lambda>d. P d \<and> receipt_read i (Some r) d) I) (plain I)"
        using decode_receipt_cases [of env i n]
        by (intro holds_from_result) (auto simp: plain_def receipt_read_def on_disk_def)
      with Some show ?thesis by (auto intro!: holds_seq holds_give)
    qed
    with True show ?thesis by (auto intro: holds_seq [OF holds_metadata])
  qed (simp add: holds_def)
qed

definition receipt_for :: "str \<Rightarrow> str \<Rightarrow> nat \<Rightarrow> commit_state \<Rightarrow> upload_receipt" where
  "receipt_for i destination len outcome =
     \<lparr>ur_version = 1, ur_operation_id = i, ur_destination = destination, ur_size = len,
      ur_confirmed = (outcome \<noteq> CommitUnknown), ur_rolled_back = (outcome = NotCommitted)\<rparr>"

text \<open>When an existing receipt may be replaced by one with the outcome.\<close>

definition supersedes :: "commit_state \<Rightarrow> upload_receipt option \<Rightarrow> bool" where
  "supersedes outcome r \<longleftrightarrow>
     (case r of None \<Rightarrow> True | Some x \<Rightarrow> ur_rolled_back x \<or> outcome \<noteq> NotCommitted \<and> \<not> ur_confirmed x)"

lemma holds_ensure_receipt:
  assumes ign: "ignores (ReceiptTmp i) P" "ignores (ReceiptTmp i) I"
    and same: "\<And>d. P d \<Longrightarrow> I d \<Longrightarrow> al_get d (ReceiptFile i) = Some (Doc (ReceiptDoc (receipt_for i destination len outcome))) \<Longrightarrow> Q d"
    and set: "\<And>d r. P d \<Longrightarrow> I d \<Longrightarrow> receipt_read i r d \<Longrightarrow> supersedes outcome r \<Longrightarrow>
      Q (al_insert (ReceiptFile i) (Doc (ReceiptDoc (receipt_for i destination len outcome))) (al_remove (ReceiptTmp i) d)) \<and>
      I (al_insert (ReceiptFile i) (Doc (ReceiptDoc (receipt_for i destination len outcome))) (al_remove (ReceiptTmp i) d))"
  shows "holds (on_disk P I) (ensure_receipt env i destination len outcome) (\<lambda>_. on_disk Q I) (plain I)"
proof -
  let ?rc = "receipt_for i destination len outcome"
  let ?onp = "\<lambda>existing w. if existing then w else w\<lparr>w_receipt_count := w_receipt_count w + 1\<rparr>"
  define store where "store existing = seq (from_result (receipt_path i)) (\<lambda>path.
      seq (if existing then give () else rooted_remove_file_idempotent (tmp_of path)) (\<lambda>_.
      write_json_atomic_inner env path (ReceiptDoc ?rc) existing (?onp existing)))" for existing
  have ignr: "ignores (ReceiptTmp i) (receipt_read i r)" for r
    by (simp add: ignores_def receipt_read_def split: option.split)
  have store: "holds (on_disk (\<lambda>d. P d \<and> receipt_read i r d) I) (store (r \<noteq> None)) (\<lambda>_. on_disk Q I) (plain I)"
    if sup: "supersedes outcome r" for r
  proof -
    let ?P = "\<lambda>d. P d \<and> receipt_read i r d"
    have ignP: "ignores (ReceiptTmp i) ?P"
      using ign(1) ignr [of r] by (simp add: ignores_def)
    note ig = ignoresD [OF ignP] ignoresD [OF ign(2)]
    have path: "holds (on_disk ?P I) (from_result (receipt_path i)) (\<lambda>p w. p = ReceiptFile i \<and> on_disk ?P I w) (plain I)"
      by (rule holds_from_result) (auto simp: receipt_path_def plain_def on_disk_inv operation_def split: if_splits)
    have rm: "holds (on_disk ?P I) (if r \<noteq> None then give () else rooted_remove_file_idempotent (ReceiptTmp i)) (\<lambda>_. on_disk ?P I) (plain I)"
      by (intro holds_if holds_give holds_weaken [OF holds_remove_idempotent [where P = ?P and Q = ?P and I = I]]) (use ig in auto)
    have wr: "holds (on_disk ?P I) (write_json_atomic_inner env (ReceiptFile i) (ReceiptDoc ?rc) (r \<noteq> None) (?onp (r \<noteq> None)))
        (\<lambda>_. on_disk Q I) (plain I)"
      by (rule holds_weaken [OF holds_write_json [where P = ?P and Q = Q and I = I]])
         (use ignP ign(2) set sup in auto)
    have "holds (\<lambda>w. p = ReceiptFile i \<and> on_disk ?P I w)
        (seq (if r \<noteq> None then give () else rooted_remove_file_idempotent (tmp_of p)) (\<lambda>_.
           write_json_atomic_inner env p (ReceiptDoc ?rc) (r \<noteq> None) (?onp (r \<noteq> None)))) (\<lambda>_. on_disk Q I) (plain I)" for p
    proof (cases "p = ReceiptFile i")
      case True
      show ?thesis unfolding True tmp_of.simps by (rule holds_pre [OF holds_seq [OF rm wr]]) simp
    qed (simp add: holds_false)
    then show ?thesis unfolding store_def by (rule holds_seq [OF path])
  qed
  have full: "holds (\<lambda>w. on_disk (\<lambda>d. P d \<and> receipt_read i None d) I w)
      (\<lambda>w. if MAX_UPLOAD_RECEIPTS \<le> w_receipt_count w then (Inl TooManyRequests, w) else store False w) (\<lambda>_. on_disk Q I) (plain I)"
    using store [of None] by (auto simp: holds_def supersedes_def plain_def on_disk_def operation_def)
  have collide: "on_disk P' I w \<Longrightarrow> plain I (Conflict m) w" for P' m w
    by (simp add: plain_def on_disk_inv operation_def on_disk_def)
  have eq: "ensure_receipt env i destination len outcome = seq (read_receipt env i) (\<lambda>r.
      case r of
        Some existing \<Rightarrow>
          if ur_destination existing \<noteq> destination \<or> ur_size existing \<noteq> len
          then raise (Conflict ''upload receipt identity collision'')
          else if ur_confirmed existing = (outcome \<noteq> CommitUnknown) \<and> ur_rolled_back existing = (outcome = NotCommitted) then give ()
          else if \<not> ur_rolled_back existing \<and> (outcome = NotCommitted \<or> ur_confirmed existing)
          then raise (Conflict ''upload receipt outcome collision'')
          else store True
      | None \<Rightarrow> (\<lambda>w. if MAX_UPLOAD_RECEIPTS \<le> w_receipt_count w then (Inl TooManyRequests, w) else store False w))"
    unfolding ensure_receipt_def Let_def store_def receipt_for_def by (rule refl)
  show ?thesis
    unfolding eq
  proof (rule holds_seq [OF holds_read_receipt])
    fix r
    show "holds (on_disk (\<lambda>d. P d \<and> receipt_read i r d) I)
      (case r of
        Some existing \<Rightarrow>
          if ur_destination existing \<noteq> destination \<or> ur_size existing \<noteq> len
          then raise (Conflict ''upload receipt identity collision'')
          else if ur_confirmed existing = (outcome \<noteq> CommitUnknown) \<and> ur_rolled_back existing = (outcome = NotCommitted) then give ()
          else if \<not> ur_rolled_back existing \<and> (outcome = NotCommitted \<or> ur_confirmed existing)
          then raise (Conflict ''upload receipt outcome collision'')
          else store True
      | None \<Rightarrow> (\<lambda>w. if MAX_UPLOAD_RECEIPTS \<le> w_receipt_count w then (Inl TooManyRequests, w) else store False w))
      (\<lambda>_. on_disk Q I) (plain I)"
    proof (cases r)
      case None
      with full show ?thesis by simp
    next
      case (Some x)
      have keep: "on_disk Q I w" if "on_disk (\<lambda>d. P d \<and> receipt_read i (Some x) d) I w" "ur_destination x = destination" "ur_size x = len"
        "ur_confirmed x = (outcome \<noteq> CommitUnknown)" "ur_rolled_back x = (outcome = NotCommitted)" for w
      proof -
        have "x = ?rc" if "ur_version x = 1" "ur_operation_id x = i"
          using that \<open>ur_destination x = destination\<close> \<open>ur_size x = len\<close> \<open>ur_confirmed x = _\<close> \<open>ur_rolled_back x = _\<close>
          by (simp add: receipt_for_def)
        with that(1) same show ?thesis by (auto simp: on_disk_def receipt_read_def)
      qed
      have "holds (on_disk (\<lambda>d. P d \<and> receipt_read i (Some x) d) I) (store True) (\<lambda>_. on_disk Q I) (plain I)"
        if "\<not> (\<not> ur_rolled_back x \<and> (outcome = NotCommitted \<or> ur_confirmed x))"
        using store [of "Some x"] that by (simp add: supersedes_def)
      with Some keep show ?thesis
        by (auto intro!: holds_raise holds_give collide)
    qed
  qed
qed

section \<open>What is not synchronised\<close>

text \<open>
  The names with a change that is not synchronised, among the names of interest. A change that is
  not synchronised may be lost by a power failure; a name without one keeps what is there.
\<close>

definition unsynced :: "world \<Rightarrow> loc set" where
  "unsynced w = fst ` set (w_unsynced w)"

definition clean :: "loc set \<Rightarrow> loc set \<Rightarrow> world \<Rightarrow> bool" where
  "clean T A w \<longleftrightarrow> unsynced w \<inter> T \<subseteq> A"

lemma crash_keeps_clean:
  assumes "current w" "clean T {} w" "d \<in> crash_states w" "l \<in> T"
  shows "al_get d l = al_get (w_disk w) l"
proof -
  obtain cs where cs: "cs \<in> set (subseqs (w_unsynced w))" "d = apply_changes cs (w_stable w)"
    using assms(3) by (auto simp: crash_states_def)
  then have "set cs \<subseteq> set (w_unsynced w)" using subseqs_powset [of "w_unsynced w"] by blast
  with assms(2,4) have "l \<notin> fst ` set cs" "l \<notin> fst ` set (w_unsynced w)" by (auto simp: clean_def unsynced_def)
  then show ?thesis
    using assms(1) cs(2) by (metis apply_changes_elsewhere current_def)
qed

lemma clean_survives:
  assumes "current w" "clean T {} w" "\<And>d. \<forall>l \<in> T. al_get d l = al_get (w_disk w) l \<Longrightarrow> P d"
  shows "survives P w"
  unfolding survives_def using crash_keeps_clean [OF assms(1,2)] assms(3) by blast

text \<open>Steps that change no other names than those of a set, and steps that end with a synchronised folder.\<close>

definition touches :: "loc set \<Rightarrow> 'a io \<Rightarrow> bool" where
  "touches L m \<longleftrightarrow> (\<forall>w r w'. m w = (r, w') \<longrightarrow> unsynced w' \<subseteq> unsynced w \<union> L)"

definition syncs :: "loc \<Rightarrow> 'a io \<Rightarrow> bool" where
  "syncs l m \<longleftrightarrow> (\<forall>w x w'. m w = (Inr x, w') \<longrightarrow> (\<forall>k \<in> unsynced w'. folder_of k \<noteq> folder_of l))"

named_theorems touches_rules

lemma touches_seq [touches_rules]: "touches L m \<Longrightarrow> (\<And>x. touches L (f x)) \<Longrightarrow> touches L (seq m f)"
  unfolding touches_def seq_def by (fastforce split: prod.splits sum.splits)

lemma touches_catch [touches_rules]: "touches L m \<Longrightarrow> (\<And>e. touches L (h e)) \<Longrightarrow> touches L (catch m h)"
  unfolding touches_def catch_def by (fastforce split: prod.splits sum.splits)

lemma touches_pure [touches_rules]: "touches L (give x)" "touches L (raise e)" "touches L (from_result r)" "touches L (inspect c g)"
  "touches L (notify n)" "touches L (set_pending q)" "touches L (set_ownership y)"
  by (auto simp: touches_def unsynced_def give_def raise_def from_result_def inspect_def notify_def set_pending_def set_ownership_def
      next_fate_def Let_def split: list.splits)

lemma touches_if [touches_rules]: "\<lbrakk>b \<Longrightarrow> touches L m; \<not> b \<Longrightarrow> touches L m'\<rbrakk> \<Longrightarrow> touches L (if b then m else m')"
  by simp

lemma touches_option [touches_rules]:
  "\<lbrakk>x = None \<Longrightarrow> touches L m; \<And>y. x = Some y \<Longrightarrow> touches L (f y)\<rbrakk> \<Longrightarrow> touches L (case x of None \<Rightarrow> m | Some y \<Rightarrow> f y)"
  by (cases x) simp_all

lemma touches_attempt:
  assumes "\<And>d cs. f d = Inr cs \<Longrightarrow> fst ` set cs \<subseteq> L"
  shows "touches L (attempt c f)"
  unfolding touches_def attempt_def commit_change_def next_fate_def unsynced_def Let_def
  using assms by (fastforce split: list.splits if_splits sum.splits prod.splits)

lemma touches_sync [touches_rules]: "touches L (rooted_sync_parent l)"
  by (auto simp: touches_def rooted_sync_parent_def sync_folder_def unsynced_def next_fate_def Let_def split: list.splits fate.splits)

lemma touches_metadata [touches_rules]: "touches L (rooted_metadata l)" "touches L (rooted_exists l)"
  unfolding rooted_exists_def rooted_metadata_def by (intro touches_rules)+

lemma touches_rename [touches_rules]: "a \<in> L \<Longrightarrow> b \<in> L \<Longrightarrow> touches L (rename_with_flags x a b)"
  unfolding rename_with_flags_def by (rule touches_attempt) (auto simp: moving_def split: option.splits if_splits)

lemma touches_rename_noreplace [touches_rules]: "a \<in> L \<Longrightarrow> b \<in> L \<Longrightarrow> touches L (rooted_rename_noreplace a b)"
  unfolding rooted_rename_noreplace_def by (rule touches_rename)

lemma touches_remove [touches_rules]: "l \<in> L \<Longrightarrow> touches L (rooted_remove_file l)"
  unfolding rooted_remove_file_def by (rule touches_attempt) (auto split: option.splits if_splits)

lemma touches_remove_idempotent [touches_rules]: "l \<in> L \<Longrightarrow> touches L (rooted_remove_file_idempotent l)"
  unfolding rooted_remove_file_idempotent_def by (intro touches_rules)

lemma touches_write_json [touches_rules]:
  assumes "path \<in> L" "tmp_of path \<in> L" "\<And>w. w_unsynced (g w) = w_unsynced w"
  shows "touches L (write_json_atomic_inner env path doc b g)"
proof -
  have "touches L (\<lambda>w. (Inr (), g w))" using assms(3) by (simp add: touches_def unsynced_def)
  then show ?thesis
    unfolding write_json_atomic_inner_def rooted_create_private_file_def fill_file_def flush_file_def replace_internal_journal_def Let_def
    using assms(1,2) by (intro touches_rules touches_attempt) (auto split: if_splits)
qed

lemma touches_read_receipt [touches_rules]: "touches L (read_receipt env i)"
  unfolding read_receipt_def by (intro touches_rules)

lemma touches_mono: "touches L m \<Longrightarrow> L \<subseteq> L' \<Longrightarrow> touches L' m"
  unfolding touches_def by blast

lemma syncs_last: "(\<And>x. syncs l (f x)) \<Longrightarrow> syncs l (seq m f)"
  by (auto simp: syncs_def seq_def split: prod.splits sum.splits)

lemma syncs_sync: "syncs l (rooted_sync_parent l)"
  by (auto simp: syncs_def rooted_sync_parent_def sync_folder_def unsynced_def next_fate_def Let_def split: list.splits fate.splits)

lemma syncs_write_json: "syncs path (write_json_atomic_inner env path doc b g)"
proof -
  have "syncs path (raise e)" for e :: app_error by (simp add: syncs_def raise_def)
  then show ?thesis
    unfolding write_json_atomic_inner_def Let_def by (intro syncs_last) (auto intro!: syncs_last syncs_sync)
qed

text \<open>A specification together with the names that are not synchronised before and after.\<close>

lemma holds_also:
  "\<lbrakk>holds P m Q E; holds P' m Q' (\<lambda>_ _. True)\<rbrakk> \<Longrightarrow> holds (\<lambda>w. P w \<and> P' w) m (\<lambda>x w. Q x w \<and> Q' x w) E"
  unfolding holds_def by (fastforce split: prod.splits sum.splits)

lemma holds_touches: "touches L m \<Longrightarrow> A \<union> L \<inter> T \<subseteq> B \<Longrightarrow> holds (clean T A) m (\<lambda>_. clean T B) (\<lambda>_ _. True)"
  by (rule holdsI) (auto simp: touches_def clean_def, blast)

lemma holds_syncs:
  "\<lbrakk>touches L m; syncs l m; {k \<in> A \<union> L \<inter> T. folder_of k \<noteq> folder_of l} \<subseteq> B\<rbrakk> \<Longrightarrow>
   holds (clean T A) m (\<lambda>_. clean T B) (\<lambda>_ _. True)"
  by (rule holdsI) (auto simp: touches_def syncs_def clean_def, blast)

lemmas holds_also_touches = holds_also [OF _ holds_touches]
lemmas holds_also_syncs = holds_also [OF _ holds_syncs]

end
