(* ===== verification/TransactionGuarantees.thy ===== *)
theory TransactionGuarantees
  imports TransactionLogic
begin

text \<open>
  What the replacement of a local file by an upload guarantees: which file is at the destination
  after every outcome, after a stop at any moment and after the recovery from it, and what the
  journal and the receipt of the upload say about it.
\<close>

section \<open>The states of a replacement\<close>

text \<open>
  A replacement is given by its journal, the file that was at the destination before (if any) and
  the file that was uploaded.
\<close>

definition upload_journal :: "replace_journal \<Rightarrow> bool" where
  "upload_journal j \<longleftrightarrow> \<not> rj_published j \<and> \<not> rj_staged_copy j \<and> rj_transfer_source j = None"

definition separate_files :: "node option \<Rightarrow> node \<Rightarrow> bool" where
  "separate_files old new \<longleftrightarrow>
     \<not> node_is_dir new \<and> (case old of None \<Rightarrow> True | Some n \<Rightarrow> \<not> node_is_dir n \<and> node_inode n \<noteq> node_inode new)"

abbreviation at_dest :: "replace_journal \<Rightarrow> disk \<Rightarrow> node option" where
  "at_dest j d \<equiv> al_get d (Dest (rj_destination j))"

abbreviation at_backup :: "replace_journal \<Rightarrow> disk \<Rightarrow> node option" where
  "at_backup j d \<equiv> al_get d (BackupOf (rj_id j))"

abbreviation at_upload :: "replace_journal \<Rightarrow> disk \<Rightarrow> node option" where
  "at_upload j d \<equiv> al_get d (UploadFile (rj_id j))"

abbreviation at_anchor :: "replace_journal \<Rightarrow> disk \<Rightarrow> node option" where
  "at_anchor j d \<equiv> al_get d (AnchorOf (rj_id j))"

abbreviation at_journal :: "replace_journal \<Rightarrow> disk \<Rightarrow> node option" where
  "at_journal j d \<equiv> al_get d (JournalFile (rj_id j))"

abbreviation listed_as :: "replace_journal \<Rightarrow> node option" where
  "listed_as j \<equiv> Some (Doc (ReplaceDoc j))"

text \<open>The receipt of the upload, where the upload is an operation.\<close>

definition at_receipt :: "replace_journal \<Rightarrow> disk \<Rightarrow> node option" where
  "at_receipt j d =
     (case (rj_operation_id j, rj_operation_size j) of (Some i, Some _) \<Rightarrow> al_get d (ReceiptFile i) | _ \<Rightarrow> None)"

definition claims :: "(upload_receipt \<Rightarrow> bool) \<Rightarrow> node option \<Rightarrow> bool" where
  "claims P n \<longleftrightarrow> (case n of None \<Rightarrow> True | Some (Doc (ReceiptDoc r)) \<Rightarrow> P r | _ \<Rightarrow> False)"

abbreviation claims_no_commit :: "node option \<Rightarrow> bool" where
  "claims_no_commit \<equiv> claims (\<lambda>r. ur_confirmed r \<longrightarrow> ur_rolled_back r)"

abbreviation claims_no_rollback :: "node option \<Rightarrow> bool" where
  "claims_no_rollback \<equiv> claims (\<lambda>r. \<not> ur_rolled_back r)"

definition anchor_ok :: "replace_journal \<Rightarrow> node \<Rightarrow> disk \<Rightarrow> bool" where
  "anchor_ok j new d \<longleftrightarrow> at_anchor j d = None \<or> at_anchor j d = Some new"

text \<open>The previous file is in place, it is set aside, or the new file is in place.\<close>

definition unchanged :: "replace_journal \<Rightarrow> node option \<Rightarrow> node \<Rightarrow> disk \<Rightarrow> bool" where
  "unchanged j old new d \<longleftrightarrow>
     at_dest j d = old \<and> at_backup j d = None \<and> at_upload j d \<in> {None, Some new} \<and>
     at_journal j d \<in> {None, listed_as j} \<and> claims_no_commit (at_receipt j d)"

definition set_aside :: "replace_journal \<Rightarrow> node option \<Rightarrow> node \<Rightarrow> disk \<Rightarrow> bool" where
  "set_aside j old new d \<longleftrightarrow>
     at_dest j d = None \<and> at_backup j d = old \<and> old \<noteq> None \<and> at_upload j d = Some new \<and>
     at_journal j d = listed_as j \<and> at_receipt j d = None"

definition replaced :: "replace_journal \<Rightarrow> node option \<Rightarrow> node \<Rightarrow> disk \<Rightarrow> bool" where
  "replaced j old new d \<longleftrightarrow>
     at_dest j d = Some new \<and> at_backup j d \<in> {None, old} \<and> at_upload j d = None \<and>
     at_journal j d \<in> {None, listed_as j, listed_as (j\<lparr>rj_published := True\<rparr>)} \<and> claims_no_rollback (at_receipt j d)"

definition data_safe :: "replace_journal \<Rightarrow> node option \<Rightarrow> node \<Rightarrow> disk \<Rightarrow> bool" where
  "data_safe j old new d \<longleftrightarrow>
     anchor_ok j new d \<and> (unchanged j old new d \<or> set_aside j old new d \<or> replaced j old new d)"

text \<open>The receipt says that the upload was committed.\<close>

definition confirmed :: "replace_journal \<Rightarrow> disk \<Rightarrow> bool" where
  "confirmed j d \<longleftrightarrow>
     (case (rj_operation_id j, rj_operation_size j) of
        (Some i, Some len) \<Rightarrow> al_get d (ReceiptFile i) = Some (Doc (ReceiptDoc (receipt_for i (rj_destination j) len Committed)))
      | _ \<Rightarrow> True)"

text \<open>
  A state that a publication leaves: as long as its journal does not say that it was published,
  the uploaded file is still there, or it is at the destination and the anchor proves it.
\<close>

definition has_anchor :: "replace_journal \<Rightarrow> node \<Rightarrow> disk \<Rightarrow> bool" where
  "has_anchor j new d \<longleftrightarrow> (rj_anchored j \<longrightarrow> at_anchor j d = Some new)"

definition resumable :: "replace_journal \<Rightarrow> node option \<Rightarrow> node \<Rightarrow> disk \<Rightarrow> bool" where
  "resumable j old new d \<longleftrightarrow>
     data_safe j old new d \<and>
     (at_journal j d = listed_as j \<longrightarrow>
        at_receipt j d = None \<and> (at_upload j d = Some new \<or> at_dest j d = Some new \<and> has_anchor j new d)) \<and>
     (at_journal j d = listed_as (j\<lparr>rj_published := True\<rparr>) \<longrightarrow> at_receipt j d = None \<or> confirmed j d)"

text \<open>The steps of a publication.\<close>

definition ready :: "replace_journal \<Rightarrow> node option \<Rightarrow> node \<Rightarrow> disk \<Rightarrow> bool" where
  "ready j old new d \<longleftrightarrow>
     anchor_ok j new d \<and> at_dest j d = old \<and> at_backup j d = None \<and> at_upload j d = Some new \<and> at_journal j d = None \<and>
     at_receipt j d = None"

definition listed :: "replace_journal \<Rightarrow> node option \<Rightarrow> node \<Rightarrow> disk \<Rightarrow> bool" where
  "listed j old new d \<longleftrightarrow>
     anchor_ok j new d \<and> at_dest j d = old \<and> at_backup j d = None \<and> at_upload j d = Some new \<and> at_journal j d = listed_as j \<and>
     at_receipt j d = None"

definition aside :: "replace_journal \<Rightarrow> node option \<Rightarrow> node \<Rightarrow> disk \<Rightarrow> bool" where
  "aside j old new d \<longleftrightarrow>
     anchor_ok j new d \<and> has_anchor j new d \<and> at_dest j d = None \<and> at_backup j d = old \<and> at_upload j d = Some new \<and> at_journal j d = listed_as j \<and>
     at_receipt j d = None"

definition placed :: "replace_journal \<Rightarrow> node option \<Rightarrow> node \<Rightarrow> disk \<Rightarrow> bool" where
  "placed j old new d \<longleftrightarrow>
     anchor_ok j new d \<and> has_anchor j new d \<and> at_dest j d = Some new \<and> at_backup j d = old \<and> at_upload j d = None \<and> at_journal j d = listed_as j \<and>
     at_receipt j d = None"

definition published :: "replace_journal \<Rightarrow> node option \<Rightarrow> node \<Rightarrow> disk \<Rightarrow> bool" where
  "published j old new d \<longleftrightarrow>
     \<not> rj_published j \<and> anchor_ok j new d \<and> at_dest j d = Some new \<and> at_backup j d \<in> {None, old} \<and> at_upload j d = None \<and>
     at_journal j d = listed_as (j\<lparr>rj_published := True\<rparr>) \<and> (at_receipt j d = None \<or> confirmed j d)"

lemmas phase_defs = data_safe_def unchanged_def set_aside_def replaced_def ready_def listed_def aside_def placed_def
  published_def anchor_ok_def has_anchor_def resumable_def

lemma al_get_move [simp]: "al_get (move a b n d) l = (if l = b then Some n else if l = a then None else al_get d l)"
  by (simp add: move_def)

lemma at_receipt_frame [simp]:
  "(\<And>i. l \<noteq> ReceiptFile i) \<Longrightarrow> at_receipt j (al_insert l n d) = at_receipt j d"
  "(\<And>i. l \<noteq> ReceiptFile i) \<Longrightarrow> at_receipt j (al_remove l d) = at_receipt j d"
  "(\<And>i. a \<noteq> ReceiptFile i) \<Longrightarrow> (\<And>i. b \<noteq> ReceiptFile i) \<Longrightarrow> at_receipt j (move a b n d) = at_receipt j d"
  by (auto simp: at_receipt_def move_def split: option.splits)

lemma confirmed_frame [simp]:
  "(\<And>i. l \<noteq> ReceiptFile i) \<Longrightarrow> confirmed j (al_remove l d) = confirmed j d"
  "(\<And>i. l \<noteq> ReceiptFile i) \<Longrightarrow> confirmed j (al_insert l n d) = confirmed j d"
  "(\<And>i. a \<noteq> ReceiptFile i) \<Longrightarrow> (\<And>i. b \<noteq> ReceiptFile i) \<Longrightarrow> confirmed j (move a b n d) = confirmed j d"
  by (auto simp: confirmed_def move_def split: option.splits)

lemma confirmed_claim: "confirmed j d \<Longrightarrow> claims_no_rollback (at_receipt j d)"
  by (auto simp: confirmed_def at_receipt_def claims_def receipt_for_def split: option.splits)

lemma published_differs [simp]: "\<not> rj_published j \<Longrightarrow> j\<lparr>rj_published := True\<rparr> \<noteq> j" "\<not> rj_published j \<Longrightarrow> j \<noteq> j\<lparr>rj_published := True\<rparr>"
  by (metis replace_journal.select_convs(4) replace_journal.surjective replace_journal.update_convs(4))+

lemma claims_None [simp]: "claims P None"
  by (simp add: claims_def)

lemma phases_safe:
  "ready j old new d \<Longrightarrow> resumable j old new d" "listed j old new d \<Longrightarrow> resumable j old new d"
  "aside j old new d \<Longrightarrow> old \<noteq> None \<Longrightarrow> resumable j old new d" "placed j old new d \<Longrightarrow> resumable j old new d"
  "published j old new d \<Longrightarrow> resumable j old new d"
  by (auto simp: phase_defs confirmed_claim)

lemma resumable_ignores: "ignores (JournalTmp x) (resumable j old new)" "ignores (ReceiptTmp x) (resumable j old new)"
  by (simp_all add: ignores_def phase_defs)

lemma phases_ignore:
  "ignores (JournalTmp x) (\<lambda>d. ready j old new d \<and> has_anchor j new d)" "ignores (JournalTmp x) (placed j old new)"
  "ignores (ReceiptTmp x) (published j old new)"
  by (simp_all add: ignores_def phase_defs)

section \<open>Publication\<close>

text \<open>The names that a replacement changes, apart from its anchor.\<close>

definition trace :: "replace_journal \<Rightarrow> loc set" where
  "trace j =
     {Dest (rj_destination j), UploadFile (rj_id j), BackupOf (rj_id j), JournalFile (rj_id j)} \<union>
     (case rj_operation_id j of None \<Rightarrow> {} | Some i \<Rightarrow> {ReceiptFile i})"

abbreviation moved :: "replace_journal \<Rightarrow> loc set" where
  "moved j \<equiv> {Dest (rj_destination j), UploadFile (rj_id j)}"

definition set_aside_names :: "replace_journal \<Rightarrow> node option \<Rightarrow> loc set" where
  "set_aside_names j old = (if old = None then {} else {BackupOf (rj_id j)})"

text \<open>
  An error leaves the data safe; one that reports an outcome reports that nothing was committed,
  and then the upload, the previous file and nothing else of the transaction are there, and the
  names of interest are synchronised.
\<close>

definition failed_safely :: "loc set \<Rightarrow> replace_journal \<Rightarrow> node option \<Rightarrow> node \<Rightarrow> app_error \<Rightarrow> world \<Rightarrow> bool" where
  "failed_safely T j old new e w \<longleftrightarrow>
     on_disk (resumable j old new) (resumable j old new) w \<and>
     (case operation e of None \<Rightarrow> True
      | Some oc \<Rightarrow> oo_commit oc = NotCommitted \<and> on_disk (ready j old new) (resumable j old new) w \<and> clean T {} w)"

lemma plain_failed_safely: "plain (resumable j old new) e w \<Longrightarrow> failed_safely T j old new e w"
  by (simp add: plain_def failed_safely_def)

lemma holds_plain: "holds P m Q (plain (resumable j old new)) \<Longrightarrow> holds P m Q (failed_safely T j old new)"
  by (erule holds_weaken) (auto simp: plain_failed_safely)

lemma holds_plain_and: "holds P m Q (\<lambda>e w. plain I e w \<and> R e w) \<Longrightarrow> holds P m Q (plain I)"
  by (erule holds_weaken) auto

lemma holds_write_journal:
  "holds (on_disk (\<lambda>d. ready j old new d \<and> has_anchor j new d) (resumable j old new))
     (write_json_atomic env (JournalFile (rj_id j)) (ReplaceDoc j))
     (\<lambda>_. on_disk (\<lambda>d. listed j old new d \<and> has_anchor j new d) (resumable j old new)) (plain (resumable j old new))"
  unfolding write_json_atomic_def
  by (rule holds_plain_and, rule holds_write_json) (auto simp: phases_ignore resumable_ignores, auto simp: phase_defs)

lemma holds_set_aside:
  assumes "old \<noteq> None"
  shows "holds (on_disk (\<lambda>d. listed j old new d \<and> has_anchor j new d) (resumable j old new))
     (rooted_rename_noreplace (Dest (rj_destination j)) (BackupOf (rj_id j)))
     (\<lambda>_. on_disk (aside j old new) (resumable j old new)) (plain (resumable j old new))"
  by (rule holds_plain_and, rule holds_rename) (use assms in \<open>auto simp: phase_defs\<close>)

lemma holds_place:
  "holds (on_disk (aside j old new) (resumable j old new)) (rooted_rename_noreplace (UploadFile (rj_id j)) (Dest (rj_destination j)))
     (\<lambda>_. on_disk (placed j old new) (resumable j old new))
     (\<lambda>e w. plain (resumable j old new) e w \<and>
        (on_disk (aside j old new) (resumable j old new) w \<or> on_disk (placed j old new) (resumable j old new) w))"
  by (rule holds_rename) (auto simp: phase_defs)

lemma listed_without_previous: "listed j None new d \<and> has_anchor j new d \<longleftrightarrow> aside j None new d"
  by (auto simp: fun_eq_iff phase_defs)

lemma holds_drop_anchor:
  assumes "\<And>d. P d \<Longrightarrow> I d \<Longrightarrow> P (al_remove (AnchorOf (rj_id j)) d) \<and> I (al_remove (AnchorOf (rj_id j)) d)"
  shows "holds (on_disk P I) (drop_anchor j) (\<lambda>_. on_disk P I) (plain I)"
  unfolding drop_anchor_def
proof (rule holds_if)
  have "holds (on_disk P I) (rooted_remove_file_idempotent (AnchorOf (rj_id j))) (\<lambda>_. on_disk P I) (plain I)"
    by (rule holds_plain_and, rule holds_remove_idempotent) (auto simp: assms)
  then show "holds (on_disk P I) (seq (rooted_remove_file_idempotent (AnchorOf (rj_id j))) (\<lambda>_. rooted_sync_parent (AnchorOf (rj_id j))))
      (\<lambda>_. on_disk P I) (plain I)"
    by (rule holds_seq) (rule holds_plain_and [OF holds_sync])
qed (rule holds_give)

lemma holds_notify: "holds (on_disk P I) (notify n) (\<lambda>_. on_disk P I) E"
  by (simp add: holds_def notify_def on_disk_def current_def)

lemma holds_either: "\<lbrakk>holds P m Q E; holds P' m Q E\<rbrakk> \<Longrightarrow> holds (\<lambda>w. P w \<or> P' w) m Q E"
  by (auto simp: holds_def)

lemma holds_restore_previous:
  fixes j old new
  defines "I \<equiv> resumable j old new"
  shows "holds (\<lambda>w. on_disk (aside j old new) I w \<or> on_disk (placed j old new) I w)
    (restore_previous j (Dest (rj_destination j)) (old \<noteq> None)) (\<lambda>b. on_disk (\<lambda>d. b \<longrightarrow> listed j old new d) I) (plain I)"
proof (rule holds_either)
  let ?post = "\<lambda>b. on_disk (\<lambda>d. b \<longrightarrow> listed j old new d) I"
  have undo: "holds (on_disk (aside j old new) I)
      (catch (seq (rooted_rename_noreplace (BackupOf (rj_id j)) (Dest (rj_destination j))) (\<lambda>_. give True)) (\<lambda>_. give False)) ?post (plain I)"
  proof (rule holds_catch [where R = "\<lambda>_. on_disk I I"])
    have "holds (on_disk (aside j old new) I) (rooted_rename_noreplace (BackupOf (rj_id j)) (Dest (rj_destination j)))
        (\<lambda>_. on_disk (listed j old new) I) (\<lambda>_. on_disk I I)"
      by (rule holds_weaken, rule holds_rename [where P = "aside j old new" and Q = "listed j old new" and I = I])
         (auto simp: I_def phase_defs plain_def)
    then show "holds (on_disk (aside j old new) I)
        (seq (rooted_rename_noreplace (BackupOf (rj_id j)) (Dest (rj_destination j))) (\<lambda>_. give True)) ?post (\<lambda>_. on_disk I I)"
      by (rule holds_seq) (auto intro!: holds_give elim: on_disk_mono)
  qed (auto intro!: holds_give elim: on_disk_mono)
  have absent: "holds (on_disk (aside j None new) I) (seq (rooted_exists (Dest (rj_destination j))) (\<lambda>present. give (\<not> present)))
      (\<lambda>b. on_disk (\<lambda>d. b \<longrightarrow> listed j None new d) I) (plain I)"
    by (rule holds_seq [OF holds_exists]) (auto intro!: holds_give elim!: on_disk_mono simp: phase_defs)
  show "holds (on_disk (aside j old new) I) (restore_previous j (Dest (rj_destination j)) (old \<noteq> None)) ?post (plain I)"
    unfolding restore_previous_def
  proof (rule holds_seq [OF holds_exists], intro holds_if)
    fix kept
    show "holds (on_disk (\<lambda>d. aside j old new d \<and> (at_backup j d \<noteq> None) = kept) I)
      (catch (seq (rooted_rename_noreplace (BackupOf (rj_id j)) (Dest (rj_destination j))) (\<lambda>_. give True)) (\<lambda>_. give False)) ?post (plain I)"
      by (rule holds_pre [OF undo]) (auto elim: on_disk_mono)
    show "holds (on_disk (\<lambda>d. aside j old new d \<and> (at_backup j d \<noteq> None) = kept) I) (give False) ?post (plain I)"
      by (auto intro!: holds_give elim: on_disk_mono)
    assume "\<not> old \<noteq> None"
    then show "holds (on_disk (\<lambda>d. aside j old new d \<and> (at_backup j d \<noteq> None) = kept) I)
        (seq (rooted_exists (Dest (rj_destination j))) (\<lambda>present. give (\<not> present))) ?post (plain I)"
      using absent by (auto elim!: holds_pre elim: on_disk_mono)
  qed
  have stuck: "holds (on_disk (placed j old new) I)
      (catch (seq (rooted_rename_noreplace (BackupOf (rj_id j)) (Dest (rj_destination j))) (\<lambda>_. give True)) (\<lambda>_. give False)) ?post (plain I)"
  proof (rule holds_catch [where R = "\<lambda>_. on_disk I I"])
    have "holds (on_disk (placed j old new) I) (rooted_rename_noreplace (BackupOf (rj_id j)) (Dest (rj_destination j)))
        (\<lambda>_. on_disk (\<lambda>_. False) I) (\<lambda>_. on_disk I I)"
      by (rule holds_weaken, rule holds_rename [where P = "placed j old new" and Q = "\<lambda>_. False" and I = I])
         (auto simp: I_def phase_defs plain_def)
    then show "holds (on_disk (placed j old new) I)
        (seq (rooted_rename_noreplace (BackupOf (rj_id j)) (Dest (rj_destination j))) (\<lambda>_. give True)) ?post (\<lambda>_. on_disk I I)"
      by (rule holds_seq) (auto intro!: holds_give simp: on_disk_def)
  qed (auto intro!: holds_give elim: on_disk_mono)
  show "holds (on_disk (placed j old new) I) (restore_previous j (Dest (rj_destination j)) (old \<noteq> None)) ?post (plain I)"
    unfolding restore_previous_def
  proof (rule holds_seq [OF holds_exists], intro holds_if)
    fix kept
    show "holds (on_disk (\<lambda>d. placed j old new d \<and> (at_backup j d \<noteq> None) = kept) I)
      (catch (seq (rooted_rename_noreplace (BackupOf (rj_id j)) (Dest (rj_destination j))) (\<lambda>_. give True)) (\<lambda>_. give False)) ?post (plain I)"
      by (rule holds_pre [OF stuck]) (auto elim: on_disk_mono)
    show "holds (on_disk (\<lambda>d. placed j old new d \<and> (at_backup j d \<noteq> None) = kept) I) (give False) ?post (plain I)"
      by (auto intro!: holds_give elim: on_disk_mono)
    show "holds (on_disk (\<lambda>d. placed j old new d \<and> (at_backup j d \<noteq> None) = kept) I)
        (seq (rooted_exists (Dest (rj_destination j))) (\<lambda>present. give (\<not> present))) ?post (plain I)"
      by (rule holds_seq [OF holds_exists]) (auto intro!: holds_give elim!: on_disk_mono simp: phase_defs)
  qed
qed

lemma holds_option:
  "\<lbrakk>holds P m Q E; \<And>y. holds P (f y) Q E\<rbrakk> \<Longrightarrow> holds P (case x of None \<Rightarrow> m | Some y \<Rightarrow> f y) Q E"
  by (cases x) simp_all

lemma seq_assoc: "seq m (\<lambda>x. seq (f x) g) = seq (seq m f) g"
  by (auto simp: fun_eq_iff seq_def split: prod.splits sum.splits)

lemma holds_retire:
  assumes "\<And>d n. P d \<Longrightarrow> resumable j old new d \<Longrightarrow> al_get d (JournalFile i) = Some n \<Longrightarrow>
      Q (al_remove (JournalFile i) d) \<and> resumable j old new (al_remove (JournalFile i) d)"
    and "holds (\<lambda>w. on_disk Q (resumable j old new) w \<and> clean T {} w) m R (failed_safely T j old new)"
  shows "holds (\<lambda>w. on_disk P (resumable j old new) w \<and> clean T {} w)
    (seq (rooted_remove_file (JournalFile i)) (\<lambda>_. seq (rooted_sync_parent (JournalFile i)) (\<lambda>_. m))) R (failed_safely T j old new)"
  unfolding seq_assoc
proof (rule holds_seq [OF holds_plain [OF holds_also_syncs [where L = "{JournalFile i}" and l = "JournalFile i" and B = "{}"]]])
  have rm: "holds (on_disk P (resumable j old new)) (rooted_remove_file (JournalFile i)) (\<lambda>_. on_disk Q (resumable j old new)) (plain (resumable j old new))"
    by (rule holds_weaken [OF holds_remove [where P = P and Q = Q and I = "resumable j old new"]]) (auto simp: assms(1))
  show "holds (on_disk P (resumable j old new)) (seq (rooted_remove_file (JournalFile i)) (\<lambda>_. rooted_sync_parent (JournalFile i)))
      (\<lambda>_. on_disk Q (resumable j old new)) (plain (resumable j old new))"
    by (rule holds_seq [OF rm], rule holds_plain_and [OF holds_sync])
  show "touches {JournalFile i} (seq (rooted_remove_file (JournalFile i)) (\<lambda>_. rooted_sync_parent (JournalFile i)))"
    by (intro touches_rules) simp
qed (auto intro: syncs_last syncs_sync assms(2))

lemma touches_drop_anchor [touches_rules]: "AnchorOf (rj_id j) \<in> L \<Longrightarrow> touches L (drop_anchor j)"
  unfolding drop_anchor_def by (intro touches_rules)

lemma touches_restore_previous:
  "touches {Dest (rj_destination j), BackupOf (rj_id j)} (restore_previous j (Dest (rj_destination j)) replacing)"
  unfolding restore_previous_def by (intro touches_rules) simp_all

lemma trace_apart: "T \<subseteq> trace j \<Longrightarrow> AnchorOf i \<notin> T \<and> JournalTmp i \<notin> T \<and> ReceiptTmp i \<notin> T"
  by (auto simp: trace_def split: option.splits)

lemma holds_sync_clean:
  "{k \<in> A. folder_of k \<noteq> folder_of l} \<subseteq> B \<Longrightarrow>
   holds (\<lambda>w. on_disk P (resumable j old new) w \<and> clean T A w) (rooted_sync_parent l)
     (\<lambda>_ w. on_disk P (resumable j old new) w \<and> clean T B w) (plain (resumable j old new))"
  by (rule holds_also_syncs [OF holds_plain_and [OF holds_sync] touches_sync [of "{}"] syncs_sync]) auto

lemma holds_roll_back:
  fixes j old new
  defines "I \<equiv> resumable j old new"
  assumes e: "operation e = None" and T: "T \<subseteq> trace j"
  shows "holds (\<lambda>w. (on_disk (aside j old new) I w \<or> on_disk (placed j old new) I w) \<and> clean T (moved j \<union> {BackupOf (rj_id j)}) w)
    (roll_back j (UploadFile (rj_id j)) (Dest (rj_destination j)) (old \<noteq> None) e) R (failed_safely T j old new)"
proof -
  let ?A = "moved j \<union> {BackupOf (rj_id j)}" and ?F = "failed_safely T j old new"
  let ?listed = "\<lambda>A w. on_disk (listed j old new) I w \<and> clean T A w"
  have restore: "holds (\<lambda>w. (on_disk (aside j old new) I w \<or> on_disk (placed j old new) I w) \<and> clean T ?A w)
      (restore_previous j (Dest (rj_destination j)) (old \<noteq> None)) (\<lambda>b w. on_disk (\<lambda>d. b \<longrightarrow> listed j old new d) I w \<and> clean T ?A w) ?F"
    unfolding I_def by (rule holds_plain, rule holds_also_touches [OF holds_restore_previous touches_restore_previous]) auto
  have complete: "holds (\<lambda>w. on_disk (\<lambda>d. b \<longrightarrow> listed j old new d) I w \<and> clean T ?A w) (if b then rooted_exists (UploadFile (rj_id j)) else give False)
      (\<lambda>c w. on_disk (\<lambda>d. c \<longrightarrow> listed j old new d) I w \<and> clean T ?A w) ?F" for b
  proof -
    have "holds (on_disk (\<lambda>d. b \<longrightarrow> listed j old new d) I) (if b then rooted_exists (UploadFile (rj_id j)) else give False)
        (\<lambda>c. on_disk (\<lambda>d. c \<longrightarrow> listed j old new d) I) (plain I)"
      by (cases b) (auto intro!: holds_give holds_weaken [OF holds_exists] elim: on_disk_mono)
    then show ?thesis
      unfolding I_def by (intro holds_plain holds_also_touches [where L = "{}"]) (auto intro: touches_rules)
  qed
  have sync: "holds (?listed A) (rooted_sync_parent l) (\<lambda>_. ?listed B) ?F" if "{k \<in> A. folder_of k \<noteq> folder_of l} \<subseteq> B" for l A B
    unfolding I_def by (rule holds_plain [OF holds_sync_clean [OF that]])
  have anchor: "holds (?listed {}) (drop_anchor j) (\<lambda>_. ?listed {}) ?F"
    unfolding I_def
    by (rule holds_plain, rule holds_also_touches [where L = "{AnchorOf (rj_id j)}"], rule holds_drop_anchor)
       (auto simp: phase_defs trace_apart [OF T] intro: touches_rules)
  have report: "holds (\<lambda>w. on_disk (ready j old new) I w \<and> clean T {} w)
      (seq (notify NoteRollbackCompleted) (\<lambda>_. raise (with_operation e NotCommitted CleanupPending))) R ?F"
  proof -
    have "operation (with_operation e NotCommitted CleanupPending) = Some (operation_outcome_new NotCommitted CleanupPending)"
      using e by (cases e) (auto simp: with_operation_def operation_def)
    then show ?thesis
      by (simp add: holds_def seq_def notify_def raise_def failed_safely_def I_def on_disk_def current_def clean_def unsynced_def
          operation_outcome_new_def phases_safe)
  qed
  have retire: "holds (?listed {})
      (seq (rooted_remove_file (JournalFile (rj_id j))) (\<lambda>_. seq (rooted_sync_parent (JournalFile (rj_id j))) (\<lambda>_.
        seq (notify NoteRollbackCompleted) (\<lambda>_. raise (with_operation e NotCommitted CleanupPending))))) R ?F"
    using report unfolding I_def by (rule holds_retire [rotated]) (auto simp: phase_defs)
  have finish: "holds (?listed ?A)
      (seq (rooted_sync_parent (Dest (rj_destination j))) (\<lambda>_.
            seq (rooted_sync_parent (BackupOf (rj_id j))) (\<lambda>_.
            seq (rooted_sync_parent (UploadFile (rj_id j))) (\<lambda>_.
            seq (drop_anchor j) (\<lambda>_.
            seq (rooted_remove_file (JournalFile (rj_id j))) (\<lambda>_.
            seq (rooted_sync_parent (JournalFile (rj_id j))) (\<lambda>_.
            seq (notify NoteRollbackCompleted) (\<lambda>_.
            raise (with_operation e NotCommitted CleanupPending))))))))) R ?F"
    by (rule holds_seq [OF sync [where B = "{UploadFile (rj_id j), BackupOf (rj_id j)}"]], force,
        rule holds_seq [OF sync [where B = "{UploadFile (rj_id j)}"]], force,
        rule holds_seq [OF sync [where B = "{}"]], force,
        intro holds_seq [OF anchor] retire)
  have give_up: "holds (\<lambda>w. on_disk (\<lambda>d. c \<longrightarrow> listed j old new d) I w \<and> clean T ?A w) (raise e) R ?F" for c
    by (rule holds_raise) (use e in \<open>auto simp: failed_safely_def I_def elim: on_disk_inv\<close>)
  show ?thesis
    unfolding roll_back_def
  proof (intro holds_seq [OF restore] holds_seq [OF complete] holds_if)
    fix b c :: bool assume c
    show "holds (\<lambda>w. on_disk (\<lambda>d. c \<longrightarrow> listed j old new d) I w \<and> clean T ?A w)
      (seq (rooted_sync_parent (Dest (rj_destination j))) (\<lambda>_.
            seq (rooted_sync_parent (BackupOf (rj_id j))) (\<lambda>_.
            seq (rooted_sync_parent (UploadFile (rj_id j))) (\<lambda>_.
            seq (drop_anchor j) (\<lambda>_.
            seq (rooted_remove_file (JournalFile (rj_id j))) (\<lambda>_.
            seq (rooted_sync_parent (JournalFile (rj_id j))) (\<lambda>_.
            seq (notify NoteRollbackCompleted) (\<lambda>_.
            raise (with_operation e NotCommitted CleanupPending))))))))) R ?F"
      by (rule holds_pre [OF finish]) (use \<open>c\<close> in simp)
  qed (rule give_up)
qed

text \<open>The previous file stays aside until the receipt is kept.\<close>

abbreviation published_aside :: "replace_journal \<Rightarrow> node option \<Rightarrow> node \<Rightarrow> disk \<Rightarrow> bool" where
  "published_aside j old new d \<equiv> published j old new d \<and> at_backup j d = old"

lemma published_aside_ignores: "ignores (ReceiptTmp x) (published_aside j old new)"
  by (simp add: ignores_def phase_defs)

lemma holds_settle:
  assumes "upload_journal j" and T: "T \<subseteq> trace j"
  shows "holds (\<lambda>w. on_disk (placed j old new) (resumable j old new) w \<and> clean T (moved j \<union> set_aside_names j old) w \<and> w_pending w = Some j)
    (settle_publication env)
    (\<lambda>_ w. on_disk (published_aside j old new) (resumable j old new) w \<and> clean T (set_aside_names j old) w) (plain (resumable j old new))"
proof -
  let ?I = "resumable j old new"  and ?B = "set_aside_names j old"
  let ?placed = "\<lambda>A w. on_disk (placed j old new) ?I w \<and> clean T A w"
  let ?done = "\<lambda>w. on_disk (published_aside j old new) ?I w \<and> clean T ?B w"
  let ?store = "write_json_atomic_inner env (JournalFile (rj_id j)) (ReplaceDoc (j\<lparr>rj_published := True\<rparr>)) True (\<lambda>w. w)"
  have source: "replacement_source j = UploadFile (rj_id j)" using assms by (simp add: replacement_source_def upload_journal_def)
  have sync: "holds (?placed A) (rooted_sync_parent l) (\<lambda>_. ?placed B) (plain ?I)" if "{k \<in> A. folder_of k \<noteq> folder_of l} \<subseteq> B" for l A B
    by (rule holds_sync_clean [OF that])
  have wr: "holds (?placed ?B) ?store (\<lambda>_. ?done) (plain ?I)"
  proof (rule holds_also_syncs [where L = "{JournalFile (rj_id j), JournalTmp (rj_id j)}" and l = "JournalFile (rj_id j)"])
    show "holds (on_disk (placed j old new) ?I) ?store (\<lambda>_. on_disk (published_aside j old new) ?I) (plain ?I)"
      using assms by (intro holds_plain_and [OF holds_write_json]) (auto simp: phases_ignore resumable_ignores, auto simp: phase_defs upload_journal_def)
  qed (auto simp: trace_apart [OF T] intro!: touches_rules syncs_write_json)
  have clear: "holds ?done (set_pending None) (\<lambda>_. ?done) (plain ?I)"
    by (simp add: holds_def set_pending_def on_disk_def current_def clean_def unsynced_def)
  have all: "holds (?placed (moved j \<union> ?B))
      (seq (rooted_sync_parent (Dest (rj_destination j))) (\<lambda>_. seq (rooted_sync_parent (replacement_source j)) (\<lambda>_.
       seq ?store (\<lambda>_. set_pending None)))) (\<lambda>_. ?done) (plain ?I)"
    unfolding source
    by (rule holds_seq [OF sync [where B = "{UploadFile (rj_id j)} \<union> ?B"]], force,
        rule holds_seq [OF sync [where B = ?B]], force, intro holds_seq [OF wr] clear)
  show ?thesis
    unfolding holds_def
  proof (intro allI impI)
    fix w assume w: "on_disk (placed j old new) ?I w \<and> clean T (moved j \<union> ?B) w \<and> w_pending w = Some j"
    with all show "case settle_publication env w of (Inr x, w') \<Rightarrow> ?done w' | (Inl e, w') \<Rightarrow> plain ?I e w'"
      by (simp add: settle_publication_def holds_def)
  qed
qed

text \<open>The receipt is kept: it is written and synchronised, or it was there before.\<close>

lemma ensure_receipt_clean:
  assumes "ReceiptFile i \<notin> A" "ReceiptTmp i \<notin> T"
  shows "holds (clean T A) (ensure_receipt env i destination len outcome) (\<lambda>_. clean T A) (\<lambda>_ _. True)"
proof -
  have store: "holds (clean T A) (seq (from_result (receipt_path i)) (\<lambda>path.
      seq (if b then give () else rooted_remove_file_idempotent (tmp_of path)) (\<lambda>_.
      write_json_atomic_inner env path (ReceiptDoc rc) b (\<lambda>w. if b then w else w\<lparr>w_receipt_count := w_receipt_count w + 1\<rparr>))))
      (\<lambda>_. clean T A) (\<lambda>_ _. True)" for b rc
  proof (cases "receipt_path i")
    case (Inl e)
    then show ?thesis by (simp add: holds_def seq_def from_result_def)
  next
    case (Inr path)
    then have path: "path = ReceiptFile i" by (auto simp: receipt_path_def split: if_splits)
    have "holds (clean T A) (seq (if b then give () else rooted_remove_file_idempotent (ReceiptTmp i)) (\<lambda>_.
        write_json_atomic_inner env (ReceiptFile i) (ReceiptDoc rc) b (\<lambda>w. if b then w else w\<lparr>w_receipt_count := w_receipt_count w + 1\<rparr>)))
        (\<lambda>_. clean T A) (\<lambda>_ _. True)"
      by (rule holds_syncs [where L = "{ReceiptFile i, ReceiptTmp i}" and l = "ReceiptFile i"])
         (use assms in \<open>auto intro!: touches_rules syncs_last syncs_write_json\<close>)
    moreover have "seq (from_result (Inr p)) f = f p" for p and f :: "loc \<Rightarrow> unit io"
      by (simp add: fun_eq_iff seq_def from_result_def)
    ultimately show ?thesis unfolding Inr path by (simp only: tmp_of.simps)
  qed
  have read: "holds (clean T A) (read_receipt env i) (\<lambda>_. clean T A) (\<lambda>_ _. True)"
    by (rule holds_touches [where L = "{}"]) (auto intro: touches_rules)
  have full: "holds (clean T A) (\<lambda>w. if MAX_UPLOAD_RECEIPTS \<le> w_receipt_count w then (Inl TooManyRequests, w) else m w) (\<lambda>_. clean T A) (\<lambda>_ _. True)"
    if "holds (clean T A) m (\<lambda>_. clean T A) (\<lambda>_ _. True)" for m :: "unit io"
    using that by (auto simp: holds_def)
  show ?thesis
    unfolding ensure_receipt_def Let_def
    by (rule holds_seq [OF read], rule holds_option, intro full store, (intro holds_if holds_raise holds_give store TrueI; assumption))
qed

lemma holds_committed_receipt:
  assumes T: "T \<subseteq> trace j"
  shows "holds (\<lambda>w. on_disk (published_aside j old new) (resumable j old new) w \<and> clean T (set_aside_names j old) w)
    (case (rj_operation_id j, rj_operation_size j) of
       (Some i, Some len) \<Rightarrow> ensure_receipt env i (rj_destination j) len Committed | _ \<Rightarrow> give ())
    (\<lambda>_ w. on_disk (\<lambda>d. published_aside j old new d \<and> confirmed j d) (resumable j old new) w \<and> clean T (set_aside_names j old) w)
    (plain (resumable j old new))"
proof (cases "\<exists>i len. rj_operation_id j = Some i \<and> rj_operation_size j = Some len")
  case True
  then obtain i len where op: "rj_operation_id j = Some i" "rj_operation_size j = Some len" by blast
  have "holds (\<lambda>w. on_disk (published_aside j old new) (resumable j old new) w \<and> clean T (set_aside_names j old) w)
    (ensure_receipt env i (rj_destination j) len Committed)
    (\<lambda>_ w. on_disk (\<lambda>d. published_aside j old new d \<and> confirmed j d) (resumable j old new) w \<and> clean T (set_aside_names j old) w)
    (plain (resumable j old new))"
  proof (rule holds_also [OF holds_ensure_receipt ensure_receipt_clean])
    show "ignores (ReceiptTmp i) (published_aside j old new)" "ignores (ReceiptTmp i) (resumable j old new)"
      by (simp_all only: published_aside_ignores resumable_ignores)
  qed (auto simp: confirmed_def op set_aside_names_def trace_apart [OF T], auto simp: phase_defs at_receipt_def op claims_def receipt_for_def confirmed_def)
  with op show ?thesis by simp
next
  case False
  then have "confirmed j d" for d by (auto simp: confirmed_def split: option.splits)
  with False show ?thesis
    by (auto intro!: holds_give elim: on_disk_mono split: option.splits)
qed

text \<open>The removal of the previous file is synchronised; without a previous file there is nothing to remove.\<close>

lemma discard_backup_clean:
  assumes "separate_files old new"
  shows "holds (\<lambda>w. al_get (w_disk w) b = old \<and> clean T (if old = None then {} else {b}) w) (cleanup_replacement_backup env clock new_id b bytes)
    (\<lambda>_. clean T {}) (\<lambda>_ _. True)"
  unfolding cleanup_replacement_backup_def
proof (rule holds_seq)
  show "holds (\<lambda>w. al_get (w_disk w) b = old \<and> clean T (if old = None then {} else {b}) w) (rooted_metadata b)
      (\<lambda>m w. m = old \<and> clean T (if old = None then {} else {b}) w) (\<lambda>_ _. True)"
    by (auto simp: holds_def rooted_metadata_def inspect_def next_fate_def clean_def unsynced_def split: list.splits)
  have "holds (clean T {b}) (seq (rooted_remove_file b) (\<lambda>_. rooted_sync_parent b)) (\<lambda>_. clean T {}) (\<lambda>_ _. True)"
    by (rule holds_syncs [where L = "{b}" and l = b]) (auto intro!: touches_rules syncs_last syncs_sync)
  then show "holds (\<lambda>w. m = old \<and> clean T (if old = None then {} else {b}) w)
      (case m of None \<Rightarrow> give ()
       | Some n \<Rightarrow> if node_is_dir n then seq (stage_delete env clock new_id b bytes) (\<lambda>_. give ())
                   else seq (rooted_remove_file b) (\<lambda>_. rooted_sync_parent b))
      (\<lambda>_. clean T {}) (\<lambda>_ _. True)" for m
    using assms by (cases "m = old"; cases m) (auto simp: separate_files_def holds_false intro: holds_give)
qed

lemma holds_discard_backup:
  assumes files: "separate_files old new"
    and P: "\<And>d. P d \<Longrightarrow> I d \<Longrightarrow> at_backup j d \<in> {None, old}"
    and Q: "\<And>d. P d \<Longrightarrow> I d \<Longrightarrow> at_backup j d = None \<Longrightarrow> Q d"
    and rm: "\<And>d. P d \<Longrightarrow> I d \<Longrightarrow> at_backup j d = old \<Longrightarrow> old \<noteq> None \<Longrightarrow>
      Q (al_remove (BackupOf (rj_id j)) d) \<and> I (al_remove (BackupOf (rj_id j)) d)"
  shows "holds (on_disk P I) (cleanup_replacement_backup env clock new_id (BackupOf (rj_id j)) bytes)
    (\<lambda>_. on_disk Q I) (plain I)"
  unfolding cleanup_replacement_backup_def
proof (rule holds_seq [OF holds_metadata])
  fix m
  show "holds (on_disk (\<lambda>d. P d \<and> at_backup j d = m) I)
    (case m of None \<Rightarrow> give ()
     | Some n \<Rightarrow> if node_is_dir n then seq (stage_delete env clock new_id (BackupOf (rj_id j)) bytes) (\<lambda>_. give ())
                 else seq (rooted_remove_file (BackupOf (rj_id j))) (\<lambda>_. rooted_sync_parent (BackupOf (rj_id j))))
    (\<lambda>_. on_disk Q I) (plain I)"
  proof (cases m)
    case None
    then show ?thesis using Q by (auto intro!: holds_give elim!: on_disk_mono)
  next
    case (Some n)
    show ?thesis
    proof (cases "old = Some n")
      case True
      then have regular: "\<not> node_is_dir n" using files by (simp add: separate_files_def)
      have "holds (on_disk (\<lambda>d. P d \<and> at_backup j d = Some n) I) (rooted_remove_file (BackupOf (rj_id j))) (\<lambda>_. on_disk Q I) (plain I)"
        by (rule holds_weaken [OF holds_remove [where P = "\<lambda>d. P d \<and> at_backup j d = Some n" and Q = Q and I = I]])
           (use rm True in auto)
      then have "holds (on_disk (\<lambda>d. P d \<and> at_backup j d = Some n) I)
          (seq (rooted_remove_file (BackupOf (rj_id j))) (\<lambda>_. rooted_sync_parent (BackupOf (rj_id j)))) (\<lambda>_. on_disk Q I) (plain I)"
        by (rule holds_seq) (rule holds_plain_and [OF holds_sync])
      with Some regular show ?thesis by simp
    next
      case False
      with P Some show ?thesis by (intro holds_false) (fastforce simp: on_disk_def)
    qed
  qed
qed

definition finished :: "replace_journal \<Rightarrow> node \<Rightarrow> disk \<Rightarrow> bool" where
  "finished j new d \<longleftrightarrow>
     at_dest j d = Some new \<and> at_backup j d = None \<and> at_upload j d = None \<and> at_journal j d = None \<and> confirmed j d"

lemma holds_conclude:
  assumes "upload_journal j" and files: "separate_files old new" and T: "T \<subseteq> trace j"
  shows "holds (\<lambda>w. on_disk (placed j old new) (resumable j old new) w \<and> clean T (moved j \<union> set_aside_names j old) w)
    (conclude_publication env clock new_id j previous_size)
    (\<lambda>_ w. on_disk (finished j new) (resumable j old new) w \<and> clean T {} w) (failed_safely T j old new)"
proof -
  let ?I = "resumable j old new"  and ?A = "moved j \<union> set_aside_names j old" and ?F = "failed_safely T j old new"
  let ?pub = "\<lambda>d. published_aside j old new d \<and> confirmed j d"
  let ?clean = "\<lambda>d. published j old new d \<and> confirmed j d \<and> at_backup j d = None"
  let ?placed = "\<lambda>w. on_disk (placed j old new) ?I w \<and> clean T ?A w"
  have note_published: "holds ?placed (notify n) (\<lambda>_. ?placed) ?F" for n
    by (simp add: holds_def notify_def on_disk_def current_def clean_def unsynced_def)
  have pending: "holds ?placed (set_pending (Some j))
      (\<lambda>_ w. on_disk (placed j old new) ?I w \<and> clean T ?A w \<and> w_pending w = Some j) ?F"
    by (simp add: holds_def set_pending_def on_disk_def current_def clean_def unsynced_def)
  have backup: "holds (\<lambda>w. on_disk ?pub ?I w \<and> clean T (set_aside_names j old) w)
      (cleanup_replacement_backup env clock new_id (BackupOf (rj_id j)) previous_size) (\<lambda>_ w. on_disk ?clean ?I w \<and> clean T {} w) ?F"
  proof (rule holds_plain, rule holds_pre [OF holds_also [OF _ discard_backup_clean [OF files]]])
    show "holds (on_disk ?pub ?I) (cleanup_replacement_backup env clock new_id (BackupOf (rj_id j)) previous_size) (\<lambda>_. on_disk ?clean ?I) (plain ?I)"
      by (rule holds_discard_backup [OF files]) (auto simp: phase_defs)
  qed (auto simp: on_disk_def set_aside_names_def)
  have anchor: "holds (\<lambda>w. on_disk ?clean ?I w \<and> clean T {} w) (drop_anchor j) (\<lambda>_ w. on_disk ?clean ?I w \<and> clean T {} w) ?F"
    by (rule holds_plain, rule holds_also_touches [where L = "{AnchorOf (rj_id j)}"], rule holds_drop_anchor)
       (auto simp: phase_defs trace_apart [OF T] intro: touches_rules)
  have end_ok: "holds (\<lambda>w. on_disk (finished j new) ?I w \<and> clean T {} w) (give previous_size)
      (\<lambda>_ w. on_disk (finished j new) ?I w \<and> clean T {} w) ?F"
    by (rule holds_give)
  have retire: "holds (\<lambda>w. on_disk ?clean ?I w \<and> clean T {} w)
      (seq (rooted_remove_file (JournalFile (rj_id j))) (\<lambda>_. seq (rooted_sync_parent (JournalFile (rj_id j))) (\<lambda>_. give previous_size)))
      (\<lambda>_ w. on_disk (finished j new) ?I w \<and> clean T {} w) ?F"
    using end_ok by (rule holds_retire [rotated]) (auto simp: phase_defs finished_def)
  show ?thesis
    unfolding conclude_publication_def
    by (intro holds_seq [OF note_published] holds_seq [OF pending] holds_seq [OF holds_plain [OF holds_settle [OF assms(1) T]]]
        holds_seq [OF holds_plain [OF holds_committed_receipt [OF T]]] holds_seq [OF backup] holds_seq [OF anchor] retire)
qed

lemma holds_publish_replacement:
  assumes "upload_journal j" and files: "separate_files old new" and T: "T \<subseteq> trace j"
  shows "holds (\<lambda>w. on_disk (\<lambda>d. ready j old new d \<and> has_anchor j new d) (resumable j old new) w \<and> clean T (moved j) w)
    (publish_replacement env clock new_id j (UploadFile (rj_id j)) (Dest (rj_destination j)) (old \<noteq> None) previous_size)
    (\<lambda>_ w. on_disk (finished j new) (resumable j old new) w \<and> clean T {} w) (failed_safely T j old new)"
proof -
  let ?I = "resumable j old new"  and ?A = "moved j \<union> set_aside_names j old" and ?F = "failed_safely T j old new"
  let ?goal = "\<lambda>_ w. on_disk (finished j new) ?I w \<and> clean T {} w"
  let ?listed = "\<lambda>d. listed j old new d \<and> has_anchor j new d"
  have journal: "holds (\<lambda>w. on_disk (\<lambda>d. ready j old new d \<and> has_anchor j new d) ?I w \<and> clean T (moved j) w)
      (write_json_atomic env (JournalFile (rj_id j)) (ReplaceDoc j)) (\<lambda>_ w. on_disk ?listed ?I w \<and> clean T (moved j) w) ?F"
    by (rule holds_plain, rule holds_also_syncs [OF holds_write_journal, where L = "{JournalFile (rj_id j), JournalTmp (rj_id j)}" and l = "JournalFile (rj_id j)"])
       (auto simp: write_json_atomic_def trace_apart [OF T] intro!: touches_rules syncs_write_json)
  have make_way: "holds (\<lambda>w. on_disk ?listed ?I w \<and> clean T (moved j) w)
      (if old \<noteq> None then rooted_rename_noreplace (Dest (rj_destination j)) (BackupOf (rj_id j)) else give ())
      (\<lambda>_ w. on_disk (aside j old new) ?I w \<and> clean T ?A w) ?F"
  proof (cases old)
    case None
    then show ?thesis by (auto simp: listed_without_previous set_aside_names_def intro!: holds_give)
  next
    case (Some n)
    have "holds (\<lambda>w. on_disk ?listed ?I w \<and> clean T (moved j) w) (rooted_rename_noreplace (Dest (rj_destination j)) (BackupOf (rj_id j)))
        (\<lambda>_ w. on_disk (aside j old new) ?I w \<and> clean T ?A w) (plain ?I)"
      by (rule holds_also_touches [OF holds_set_aside, where L = "{Dest (rj_destination j), BackupOf (rj_id j)}"])
         (auto simp: Some set_aside_names_def intro: touches_rules)
    with Some show ?thesis by (simp add: holds_plain)
  qed
  let ?put = "rooted_rename_noreplace (UploadFile (rj_id j)) (Dest (rj_destination j))"
  let ?place = "\<lambda>w. case ?put w of
      (Inl error, w) \<Rightarrow> roll_back j (UploadFile (rj_id j)) (Dest (rj_destination j)) (old \<noteq> None) error w
    | (Inr _, w) \<Rightarrow> conclude_publication env clock new_id j previous_size w"
  have place: "holds (\<lambda>w. on_disk (aside j old new) ?I w \<and> clean T ?A w) ?place ?goal ?F"
    unfolding holds_def
  proof (intro allI impI)
    fix w assume w: "on_disk (aside j old new) ?I w \<and> clean T ?A w"
    obtain r w1 where run: "?put w = (r, w1)" by fastforce
    have "touches (moved j) ?put" by (intro touches_rules) simp_all
    with w run have clean1: "clean T ?A w1" by (fastforce simp: touches_def clean_def)
    show "case ?place w of (Inr x, w') \<Rightarrow> ?goal x w' | (Inl e, w') \<Rightarrow> ?F e w'"
    proof (cases r)
      case (Inr x)
      with holds_okD [OF holds_place, of j old new w x w1] w run clean1 holds_conclude [OF assms] show ?thesis
        by (simp add: holds_def)
    next
      case (Inl e)
      have "clean T (moved j \<union> {BackupOf (rj_id j)}) w1"
        using clean1 by (auto simp: clean_def set_aside_names_def split: if_splits)
      with holds_errD [OF holds_place, of j old new w e w1] w run Inl holds_roll_back [of e T j old new ?goal] show ?thesis
        by (auto simp: holds_def plain_def T)
    qed
  qed
  show ?thesis
    unfolding publish_replacement_def
    by (intro holds_seq [OF journal] holds_seq [OF make_way] place)
qed

section \<open>The whole commit of an upload\<close>

definition prepared :: "replace_journal \<Rightarrow> node option \<Rightarrow> node \<Rightarrow> disk \<Rightarrow> bool" where
  "prepared j old new d \<longleftrightarrow>
     anchor_ok j new d \<and> at_dest j d = old \<and> at_backup j d = None \<and> at_upload j d = Some new \<and> at_journal j d = None \<and>
     claims ur_rolled_back (at_receipt j d)"

text \<open>The checks around the transaction do not report outcomes of their own.\<close>

definition plain_checks :: "tx_env \<Rightarrow> replacement_observer \<Rightarrow> bool" where
  "plain_checks env observer \<longleftrightarrow>
     (\<forall>p e. te_parents env p = Inl e \<longrightarrow> operation e = None) \<and>
     (\<forall>m e. ro_check_destination observer m = Inl e \<longrightarrow> operation e = None) \<and>
     (\<forall>n e. ro_prepare observer n = Inl e \<longrightarrow> operation e = None)"

lemma holds_check: "(\<And>e. r = Inl e \<Longrightarrow> operation e = None) \<Longrightarrow> holds (on_disk P I) (from_result r) (\<lambda>x w. r = Inr x \<and> on_disk P I w) (plain I)"
  by (rule holds_from_result) (auto simp: plain_def on_disk_inv)

lemma holds_known: "(\<And>y. r = Inr y \<Longrightarrow> holds P (f y) Q E) \<Longrightarrow> holds (\<lambda>w. r = Inr x \<and> P w) (f x) Q E"
  by (auto simp: holds_def)

lemma holds_refuse: "operation e = None \<Longrightarrow> holds (on_disk P I) (raise e) Q (plain I)"
  by (rule holds_raise) (simp add: plain_def on_disk_inv)

lemma holds_forget: "holds (on_disk P I) m Q E \<Longrightarrow> holds (on_disk (\<lambda>d. P d \<and> R d) I) m Q E"
  by (erule holds_pre) (auto elim: on_disk_mono)

lemma holds_validate_destination:
  assumes "plain_checks env observer"
  shows "holds (on_disk P I) (validate_destination env relative) (\<lambda>_. on_disk P I) (plain I)"
proof -
  have normal: "holds (on_disk P I) (from_result (normalize_relative relative)) (\<lambda>x w. normalize_relative relative = Inr x \<and> on_disk P I w) (plain I)"
    by (rule holds_check) (rule normalize_relative_plain)
  have parents: "holds (on_disk P I) (from_result (te_parents env relative)) (\<lambda>x w. te_parents env relative = Inr x \<and> on_disk P I w) (plain I)"
    by (rule holds_check) (use assms in \<open>auto simp: plain_checks_def\<close>)
  have last_check: "holds (on_disk (\<lambda>d. P d \<and> al_get d (Dest relative) = m) I)
      (case m of None \<Rightarrow> give () | Some n \<Rightarrow> if node_is_dir n \<and> \<not> False
         then raise (Conflict ''Unexpected transaction destination type; recovery stopped'') else give ()) (\<lambda>_. on_disk P I) (plain I)" for m
    by (cases m) (auto intro!: holds_give holds_refuse elim: on_disk_mono simp: operation_def)
  show ?thesis
    unfolding validate_destination_def validate_destination_kind_def
    by (intro holds_if holds_refuse holds_seq [OF normal] holds_known holds_seq [OF parents] holds_seq [OF holds_metadata] last_check)
       (simp_all add: invalid_destination_def operation_def)
qed

lemma rbind_plain:
  "\<lbrakk>rbind r f = Inl e; \<And>e. r = Inl e \<Longrightarrow> operation e = None; \<And>x e. f x = Inl e \<Longrightarrow> operation e = None\<rbrakk> \<Longrightarrow> operation e = None"
  by (cases r) (auto simp: rbind_def)

lemma validate_journal_plain: "validate_journal j = Inl e \<Longrightarrow> operation e = None"
  by (auto simp: validate_journal_def validate_transfer_source_def Let_def operation_def [of "Conflict _"] invalid_transfer_def
      invalid_destination_def normalize_relative_plain elim!: rbind_plain split: if_splits option.splits)

lemma replace_journal_new_cases:
  "(\<exists>e. replace_journal_new i destination = Inl e \<and> operation e = None) \<or>
   replace_journal_new i destination = Inr \<lparr>rj_version = 3, rj_id = i, rj_destination = destination, rj_published = False,
      rj_operation_id = None, rj_operation_size = None, rj_anchored = False, rj_transfer_source = None, rj_staged_copy = False,
      rj_replaced_bytes = 0\<rparr>"
  by (auto simp: replace_journal_new_def Let_def rbind_def dest: validate_journal_plain split: sum.splits)

lemma holds_check_receipt_capacity:
  assumes "rj_operation_id j = Some i" "rj_operation_size j = Some len"
  shows "holds (on_disk (prepared j old new) (resumable j old new)) (check_receipt_capacity env i)
    (\<lambda>_. on_disk (ready j old new) (resumable j old new)) (plain (resumable j old new))"
  unfolding check_receipt_capacity_def
proof (rule holds_seq [OF holds_read_receipt])
  let ?I = "resumable j old new"
  fix r
  let ?P = "\<lambda>d. prepared j old new d \<and> receipt_read i r d"
  show "holds (on_disk ?P ?I)
    (case r of None \<Rightarrow> (\<lambda>w. if MAX_UPLOAD_RECEIPTS \<le> w_receipt_count w then (Inl TooManyRequests, w) else (Inr (), w))
     | Some receipt \<Rightarrow> if ur_rolled_back receipt then seq (from_result (receipt_path i)) remove_receipt else give ())
    (\<lambda>_. on_disk (ready j old new) ?I) (plain ?I)"
  proof (cases r)
    case None
    then show ?thesis
      using assms by (auto simp: holds_def plain_def operation_def on_disk_def receipt_read_def prepared_def ready_def at_receipt_def)
  next
    case (Some x)
    have path: "holds (on_disk ?P ?I) (from_result (receipt_path i)) (\<lambda>p w. receipt_path i = Inr p \<and> on_disk ?P ?I w) (plain ?I)"
      by (rule holds_check) (auto simp: receipt_path_def operation_def split: if_splits)
    have rm: "holds (on_disk ?P ?I) (rooted_remove_file (ReceiptFile i)) (\<lambda>_. on_disk (ready j old new) ?I) (plain ?I)"
      by (rule holds_weaken [OF holds_remove [where P = ?P and Q = "ready j old new" and I = ?I]])
         (use assms in \<open>auto simp: phase_defs prepared_def at_receipt_def\<close>)
    have count: "holds (on_disk (ready j old new) ?I) (\<lambda>w. (Inr (), w\<lparr>w_receipt_count := w_receipt_count w - 1\<rparr>))
        (\<lambda>_. on_disk (ready j old new) ?I) (plain ?I)"
      by (simp add: holds_def on_disk_def current_def)
    have "holds (on_disk ?P ?I) (remove_receipt (ReceiptFile i)) (\<lambda>_. on_disk (ready j old new) ?I) (plain ?I)"
      unfolding remove_receipt_def
      by (intro holds_seq [OF rm] holds_seq [OF count] holds_plain_and [OF holds_sync])
    then have "holds (on_disk ?P ?I) (seq (from_result (receipt_path i)) remove_receipt) (\<lambda>_. on_disk (ready j old new) ?I) (plain ?I)"
      by (intro holds_seq [OF path] holds_known) (auto simp: receipt_path_def split: if_splits)
    moreover have "holds (on_disk ?P ?I) (give ()) (\<lambda>_. on_disk (ready j old new) ?I) (plain ?I)" if "\<not> ur_rolled_back x"
      using that Some assms by (intro holds_give) (auto simp: on_disk_def receipt_read_def prepared_def at_receipt_def claims_def)
    ultimately show ?thesis using Some by simp
  qed
qed

lemma touches_place_anchor [touches_rules]: "AnchorOf (rj_id j) \<in> L \<Longrightarrow> touches L (place_anchor env j l)"
  unfolding place_anchor_def hard_link_noreplace_def Let_def
  by (intro touches_rules touches_attempt) (auto split: option.splits if_splits)

text \<open>The receipt of an attempt that was rolled back is removed, and the removal is synchronised.\<close>

lemma receipt_capacity_clean: "holds (clean T (moved j)) (check_receipt_capacity env i) (\<lambda>_. clean T (moved j)) (\<lambda>_ _. True)"
proof -
  have read: "holds (clean T (moved j)) (read_receipt env i) (\<lambda>_. clean T (moved j)) (\<lambda>_ _. True)"
    by (rule holds_touches [where L = "{}"]) (auto intro: touches_rules)
  have count: "touches L (\<lambda>w. (Inr (), w\<lparr>w_receipt_count := f w\<rparr>))" for L f
    by (simp add: touches_def unsynced_def)
  have "holds (clean T (moved j)) (remove_receipt (ReceiptFile i)) (\<lambda>_. clean T (moved j)) (\<lambda>_ _. True)"
    unfolding remove_receipt_def
    by (rule holds_syncs [where L = "{ReceiptFile i}" and l = "ReceiptFile i"]) (auto intro!: touches_rules count syncs_last syncs_sync)
  then have remove: "holds (clean T (moved j)) (seq (from_result (receipt_path i)) remove_receipt) (\<lambda>_. clean T (moved j)) (\<lambda>_ _. True)"
    by (auto simp: holds_def seq_def from_result_def receipt_path_def)
  have full: "holds (clean T (moved j)) (\<lambda>w. if b w then (Inl e, w) else (Inr (), w)) (\<lambda>_. clean T (moved j)) (\<lambda>_ _. True)" for b e
    by (simp add: holds_def)
  show ?thesis
    unfolding check_receipt_capacity_def
    by (rule holds_seq [OF read], rule holds_option, rule full, (intro holds_if remove holds_give; assumption))
qed

lemma holds_place_anchor:
  "holds (on_disk (ready (j\<lparr>rj_anchored := te_hard_links env\<rparr>) old new) (resumable (j\<lparr>rj_anchored := te_hard_links env\<rparr>) old new))
    (place_anchor env j (UploadFile (rj_id j)))
    (\<lambda>k w. k = j\<lparr>rj_anchored := te_hard_links env\<rparr> \<and>
       on_disk (\<lambda>d. ready (j\<lparr>rj_anchored := te_hard_links env\<rparr>) old new d \<and> has_anchor (j\<lparr>rj_anchored := te_hard_links env\<rparr>) new d)
         (resumable (j\<lparr>rj_anchored := te_hard_links env\<rparr>) old new) w)
    (plain (resumable (j\<lparr>rj_anchored := te_hard_links env\<rparr>) old new))"
proof -
  let ?j = "j\<lparr>rj_anchored := te_hard_links env\<rparr>"
  let ?I = "resumable ?j old new" and ?R = "\<lambda>d. ready ?j old new d \<and> has_anchor ?j new d"
  have link: "holds (on_disk (ready ?j old new) ?I) (hard_link_noreplace env (UploadFile (rj_id j)) (AnchorOf (rj_id j)))
      (\<lambda>b w. b = te_hard_links env \<and> on_disk ?R ?I w) (plain ?I)"
    unfolding hard_link_noreplace_def
  proof (intro holds_if)
    assume "te_hard_links env"
    have "holds (on_disk (ready ?j old new) ?I) (attempt ''failed to anchor uploaded file''
        (\<lambda>d. case al_get d (UploadFile (rj_id j)) of None \<Rightarrow> Inl NotFound
          | Some n \<Rightarrow> if al_get d (AnchorOf (rj_id j)) \<noteq> None then Inl (Conflict ''Destination already exists'')
              else Inr [(AnchorOf (rj_id j), Some n)]))
        (\<lambda>_. on_disk ?R ?I) (plain ?I)"
      by (rule holds_weaken, rule holds_attempt [where P = "ready ?j old new" and Q = ?R and I = ?I])
         (auto simp: operation_def split: option.splits if_splits, auto simp: phase_defs at_receipt_def split: option.splits)
    with \<open>te_hard_links env\<close> show "holds (on_disk (ready ?j old new) ?I) (seq (attempt ''failed to anchor uploaded file''
        (\<lambda>d. case al_get d (UploadFile (rj_id j)) of None \<Rightarrow> Inl NotFound
          | Some n \<Rightarrow> if al_get d (AnchorOf (rj_id j)) \<noteq> None then Inl (Conflict ''Destination already exists'')
              else Inr [(AnchorOf (rj_id j), Some n)])) (\<lambda>_. give True))
        (\<lambda>b w. b = te_hard_links env \<and> on_disk ?R ?I w) (plain ?I)"
      by (auto intro: holds_seq holds_give)
  qed (auto intro!: holds_give elim!: on_disk_mono simp: has_anchor_def)
  have rest: "holds (\<lambda>w. b = te_hard_links env \<and> on_disk ?R ?I w)
      (seq (if b then rooted_sync_parent (AnchorOf (rj_id j)) else give ()) (\<lambda>_. give (j\<lparr>rj_anchored := b\<rparr>)))
      (\<lambda>k w. k = ?j \<and> on_disk ?R ?I w) (plain ?I)" for b
  proof (cases "b = te_hard_links env")
    case True
    have sync: "holds (\<lambda>w. b = te_hard_links env \<and> on_disk ?R ?I w) (if b then rooted_sync_parent (AnchorOf (rj_id j)) else give ())
        (\<lambda>_. on_disk ?R ?I) (plain ?I)"
      by (intro holds_if holds_pre [OF holds_plain_and [OF holds_sync]] holds_give) auto
    show ?thesis by (rule holds_seq [OF sync], rule holds_give) (simp add: True)
  qed (simp add: holds_false)
  show ?thesis
    unfolding place_anchor_def Let_def
    by (intro holds_seq [OF holds_exists] holds_if holds_refuse holds_forget holds_seq [OF link] rest) (simp add: operation_def)
qed

definition upload_record :: "tx_env \<Rightarrow> str \<Rightarrow> str \<Rightarrow> (str \<times> nat) option \<Rightarrow> replace_journal" where
  "upload_record env i relative op =
     \<lparr>rj_version = 3, rj_id = i, rj_destination = relative, rj_published = False, rj_operation_id = map_option fst op,
      rj_operation_size = map_option snd op, rj_anchored = (op \<noteq> None \<and> te_hard_links env), rj_transfer_source = None,
      rj_staged_copy = False, rj_replaced_bytes = 0\<rparr>"

lemma upload_record_simps [simp]:
  "rj_id (upload_record env i relative op) = i" "rj_destination (upload_record env i relative op) = relative"
  "upload_journal (upload_record env i relative op)"
  by (simp_all add: upload_record_def upload_journal_def)

lemma holds_weak: "holds P m Q (plain I) \<Longrightarrow> \<forall>e w. plain I e w \<longrightarrow> E e w \<Longrightarrow> holds P m Q E"
  by (erule holds_weaken) auto

lemma return_ownership_holds:
  assumes "holds P m Q (failed_safely T j old new)"
  shows "holds P (return_ownership m) Q
    (\<lambda>e w. failed_safely T j old new e w \<and> (operation e \<noteq> None \<longrightarrow> w_ownership w = WriterOwned))"
proof (rule holdsI)
  fix w x w' assume "P w" "return_ownership m w = (Inr x, w')"
  then show "Q x w'" using holds_okD [OF assms] by (auto simp: return_ownership_def split: prod.splits sum.splits)
next
  fix w e w' assume P: "P w" and run: "return_ownership m w = (Inl e, w')"
  from run obtain w1 where m: "m w = (Inl e, w1)"
    and w': "w' = (case operation e of Some outcome \<Rightarrow> if oo_commit outcome = NotCommitted then w1\<lparr>w_ownership := WriterOwned\<rparr> else w1 | None \<Rightarrow> w1)"
    by (auto simp: return_ownership_def split: prod.splits sum.splits)
  from holds_errD [OF assms P m] show "failed_safely T j old new e w' \<and> (operation e \<noteq> None \<longrightarrow> w_ownership w' = WriterOwned)"
    by (auto simp: w' failed_safely_def on_disk_def current_def clean_def unsynced_def split: option.splits)
qed

lemma holds_also_clean:
  assumes "holds (on_disk P I) m (\<lambda>x w. R x \<and> on_disk (Q x) I w) (plain I)" "holds (clean T A) m (\<lambda>_. clean T A) (\<lambda>_ _. True)"
    and "\<forall>e w. plain I e w \<longrightarrow> E e w"
  shows "holds (\<lambda>w. on_disk P I w \<and> clean T A w) m (\<lambda>x w. R x \<and> on_disk (Q x) I w \<and> clean T A w) E"
  by (rule holds_weaken [OF holds_weak [OF holds_also [OF assms(1,2)] assms(3)]]) auto

lemma holds_commit_file:
  fixes env i relative op old new T
  defines "j \<equiv> upload_record env i relative op"
  defines "I \<equiv> resumable j old new"
  defines "E \<equiv> \<lambda>e w. failed_safely T j old new e w \<and> (operation e \<noteq> None \<longrightarrow> w_ownership w = WriterOwned)"
  assumes checks: "plain_checks env observer" and files: "separate_files old new" and i: "transaction_id_try_from i"
    and T: "T \<subseteq> trace j"
  shows "holds (\<lambda>w. on_disk (prepared j old new) I w \<and> clean T (moved j) w \<and> w_pending w = None)
    (commit_file_with_operation env clock new_id relative (UploadFile i) (Dest relative) observer op)
    (\<lambda>_ w. on_disk (finished j new) I w \<and> clean T {} w) E"
proof -
  define od where "od P w \<longleftrightarrow> on_disk P I w \<and> clean T (moved j) w" for P w
  let ?post = "\<lambda>_ w. on_disk (finished j new) I w \<and> clean T {} w"
  let ?base = "\<lparr>rj_version = 3, rj_id = i, rj_destination = relative, rj_published = False, rj_operation_id = None,
      rj_operation_size = None, rj_anchored = False, rj_transfer_source = None, rj_staged_copy = False, rj_replaced_bytes = 0\<rparr>"
  have plainE: "\<forall>e w. plain I e w \<longrightarrow> E e w"
    by (simp add: E_def I_def plain_failed_safely) (simp add: plain_def)
  note weak = holds_weak [OF _ plainE]
  note also_clean = holds_also_clean [where T = T and A = "moved j" and I = I and E = E, OF _ _ plainE, folded od_def]
  have apart: "A \<union> {AnchorOf i} \<inter> T \<subseteq> A" for A by (simp add: trace_apart [OF T])
  note step = also_clean [OF _ holds_touches [where L = "{AnchorOf i}", OF _ apart]]
  note plain_step = also_clean [where R = "\<lambda>_. True" and Q = "\<lambda>_. Q" for Q, simplified, OF _ holds_touches [where L = "{AnchorOf i}", OF _ apart]]
  have jd: "rj_id j = i" "rj_destination j = relative" "upload_journal j" by (simp_all add: j_def)
  have publish: "holds (od (\<lambda>d. ready j old new d \<and> has_anchor j new d))
      (return_ownership (publish_replacement env clock new_id j (UploadFile i) (Dest relative) (old \<noteq> None) n)) ?post E" for n
    using return_ownership_holds [OF holds_publish_replacement [OF jd(3) files T]] unfolding E_def I_def od_def jd by blast
  have settle: "holds (\<lambda>w. on_disk (prepared j old new) I w \<and> clean T (moved j) w \<and> w_pending w = None) (settle_publication env) (\<lambda>_. od (prepared j old new)) E"
    by (simp add: holds_def settle_publication_def od_def)
  have valid: "holds (od (prepared j old new)) (validate_destination env relative) (\<lambda>_. od (prepared j old new)) E"
    by (rule plain_step [OF holds_validate_destination [OF checks]])
       (unfold validate_destination_def validate_destination_kind_def, intro touches_rules)
  have check: "holds (od P) (from_result r) (\<lambda>x w. r = Inr x \<and> od P w) E"
    if "\<And>e. r = Inl e \<Longrightarrow> operation e = None" for P and r :: "'b app_result"
    by (rule step [OF holds_check [OF that]]) (auto intro: touches_rules)
  have observed: "holds (od (prepared j old new)) (from_result (ro_check_destination observer m))
      (\<lambda>x w. ro_check_destination observer m = Inr x \<and> od (prepared j old new) w) E" for m
    by (rule check) (use checks in \<open>auto simp: plain_checks_def\<close>)
  have own: "holds (od (ready j old new)) (set_ownership RecoveryOwned) (\<lambda>_. od (ready j old new)) E"
    by (rule plain_step, simp add: holds_def set_ownership_def on_disk_def current_def, rule touches_rules)
  have told: "holds (od (ready j old new)) (notify n) (\<lambda>_. od (ready j old new)) E" for n
    by (rule plain_step [OF holds_notify]) (rule touches_rules)
  have prepare: "holds (od (ready j old new)) (from_result (ro_prepare observer n)) (\<lambda>x w. ro_prepare observer n = Inr x \<and> od (ready j old new) w) E" for n
    by (rule check) (use checks in \<open>auto simp: plain_checks_def\<close>)
  let ?listed = "?base\<lparr>rj_operation_id := map_option fst op, rj_operation_size := map_option snd op\<rparr>"
  have anchor: "holds (od (ready j old new)) (if op \<noteq> None then place_anchor env ?listed (UploadFile i) else give ?listed)
      (\<lambda>k w. k = j \<and> od (\<lambda>d. ready j old new d \<and> has_anchor j new d) w) E"
  proof (rule step)
    show "holds (on_disk (ready j old new) I) (if op \<noteq> None then place_anchor env ?listed (UploadFile i) else give ?listed)
      (\<lambda>k w. k = j \<and> on_disk (\<lambda>d. ready j old new d \<and> has_anchor j new d) I w) (plain I)"
    proof (cases op)
      case None
      then have "j = ?listed" by (simp add: j_def upload_record_def)
      with None show ?thesis by (auto intro!: holds_give elim!: on_disk_mono simp: has_anchor_def)
    next
      case (Some p)
      then have "j = ?listed\<lparr>rj_anchored := te_hard_links env\<rparr>" by (simp add: j_def upload_record_def)
      with Some holds_place_anchor [where j = ?listed and env = env and old = old and new = new] show ?thesis by (simp add: I_def)
    qed
  qed (auto intro!: touches_rules)
  have entry: "holds (od (prepared j old new))
      (case op of None \<Rightarrow> give ?base
       | Some (operation_id, len) \<Rightarrow>
           let journal = ?base\<lparr>rj_operation_id := Some operation_id, rj_operation_size := Some len\<rparr>
           in seq (from_result (validate_journal journal)) (\<lambda>_. seq (check_receipt_capacity env operation_id) (\<lambda>_. give journal)))
      (\<lambda>k w. k = ?listed \<and> od (ready j old new) w) E"
  proof (cases op)
    case None
    then have "prepared j old new d \<Longrightarrow> ready j old new d" for d
      by (simp add: prepared_def ready_def at_receipt_def j_def upload_record_def)
    with None show ?thesis by (auto intro!: holds_give simp: od_def on_disk_def)
  next
    case (Some p)
    obtain oid len where p: "p = (oid, len)" by (cases p)
    have c: "holds (od (prepared j old new)) (check_receipt_capacity env oid) (\<lambda>_. od (ready j old new)) E"
      using also_clean [where R = "\<lambda>_. True" and Q = "\<lambda>_. ready j old new" and P = "prepared j old new", simplified,
          OF _ receipt_capacity_clean, of env oid]
        holds_check_receipt_capacity [of j oid len old new env]
      by (simp add: j_def upload_record_def Some p I_def)
    have "holds (od (prepared j old new))
      (seq (from_result (validate_journal ?listed)) (\<lambda>_. seq (check_receipt_capacity env oid) (\<lambda>_. give ?listed)))
      (\<lambda>k w. k = ?listed \<and> od (ready j old new) w) E"
      by (intro holds_seq [OF check] holds_known holds_seq [OF c] holds_give validate_journal_plain) simp_all
    with Some p show ?thesis by (simp add: Let_def)
  qed
  have new: "holds (od (prepared j old new)) (from_result (replace_journal_new i relative)) (\<lambda>k w. k = ?base \<and> od (prepared j old new) w) E"
    using replace_journal_new_cases [of i relative]
    by (intro step holds_from_result) (auto simp: plain_def elim: on_disk_inv intro: touches_rules)
  have rid: "resource_id (UploadFile i) = Inr i" using i by (simp add: resource_id_def)
  have fix_value: "(\<And>k. k = c \<Longrightarrow> holds P (f k) Q E) \<Longrightarrow> holds (\<lambda>w. x = c \<and> P w) (f x) Q E"
    for x c :: replace_journal and P and f :: "replace_journal \<Rightarrow> nat io" and Q
    by (auto simp: holds_def)
  have look: "holds (od (prepared j old new)) (rooted_metadata (Dest relative)) (\<lambda>m. od (\<lambda>d. prepared j old new d \<and> al_get d (Dest relative) = m)) E"
    by (rule step [where R = "\<lambda>_. True", simplified, OF holds_metadata]) (rule touches_rules)
  have meta: "holds (od (\<lambda>d. prepared j old new d \<and> al_get d (Dest relative) = m)) (f m) Q E"
    if "holds (od (prepared j old new)) (f old) Q E" for m and f :: "node option \<Rightarrow> nat io" and Q
    by (cases "m = old") (use that jd in \<open>auto simp: holds_def od_def on_disk_def prepared_def\<close>)
  have known_id: "holds P (from_result (Inr i :: str app_result)) (\<lambda>x w. x = i \<and> P w) E" for P
    by (simp add: holds_def from_result_def)
  have fix_id: "holds P (f i) Q E \<Longrightarrow> holds (\<lambda>w. x = i \<and> P w) (f x) Q E" for x P and f :: "str \<Rightarrow> nat io" and Q
    by (auto simp: holds_def)
  have plain_raise: "operation e = None \<Longrightarrow> holds (od (prepared j old new)) (raise e) ?post E" for e
    by (rule holds_pre [OF weak [OF holds_refuse]]) (auto simp: od_def)
  have rest: "holds (od (ready j old new))
      (seq (from_result (ro_prepare observer n)) (\<lambda>_. seq (set_ownership RecoveryOwned) (\<lambda>_. seq (notify NoteRecoveryOwned) (\<lambda>_.
       seq (if op \<noteq> None then place_anchor env ?listed (UploadFile i) else give ?listed) (\<lambda>journal.
       return_ownership (publish_replacement env clock new_id journal (UploadFile i) (Dest relative) (old \<noteq> None) n)))))) ?post E" for n
    by (intro holds_seq [OF prepare] holds_known holds_seq [OF own] holds_seq [OF told]
        holds_seq [OF anchor] fix_value) (erule ssubst, rule publish)
  show ?thesis
    unfolding commit_file_with_operation_def rid Let_def
    apply (rule holds_seq [OF settle])
    apply (subst if_not_P)
     apply simp
    apply (rule holds_seq [OF valid])
    apply (rule holds_seq [OF look])
    apply (rule meta)
    apply (rule holds_seq [OF observed])
    apply (rule holds_known)
    apply (intro holds_if plain_raise)
      apply (simp_all add: operation_def)[2]
    apply (rule holds_seq [OF known_id])
    apply (rule fix_id)
    apply (subst if_not_P)
     apply simp
    apply (rule holds_seq [OF new])
    apply (rule fix_value)
    apply (simp only:)
    apply (rule holds_seq [OF entry [unfolded Let_def]])
    apply (rule fix_value)
    apply (simp only:)
    apply (rule rest)
    done
qed

text \<open>
  The world before an upload is committed: the uploaded file, no other trace of its transaction,
  and no receipt of its operation, except that of an attempt that was rolled back.
\<close>

definition upload_ready ::
  "tx_env \<Rightarrow> str \<Rightarrow> str \<Rightarrow> (str \<times> nat) option \<Rightarrow> node option \<Rightarrow> node \<Rightarrow> world \<Rightarrow> bool" where
  "upload_ready env i relative op old new w \<longleftrightarrow>
     transaction_id_try_from i \<and> separate_files old new \<and>
     al_get (w_disk w) (Dest relative) = old \<and> al_get (w_disk w) (UploadFile i) = Some new \<and>
     al_get (w_disk w) (BackupOf i) = None \<and> al_get (w_disk w) (JournalFile i) = None \<and> al_get (w_disk w) (AnchorOf i) = None \<and>
     claims ur_rolled_back (at_receipt (upload_record env i relative op) (w_disk w)) \<and>
     w_pending w = None \<and> w_seen w = [] \<and> current w"

lemma upload_ready_prepared:
  assumes "upload_ready env i relative op old new w"
  shows "on_disk (prepared (upload_record env i relative op) old new) (resumable (upload_record env i relative op) old new) w \<and> w_pending w = None"
proof -
  let ?j = "upload_record env i relative op"
  have prep: "prepared ?j old new (w_disk w)"
    using assms by (simp add: upload_ready_def prepared_def anchor_ok_def)
  then have "resumable ?j old new (w_disk w)"
    by (auto simp: prepared_def phase_defs claims_def split: option.splits node.splits document.splits)
  with prep assms show ?thesis by (simp add: on_disk_def upload_ready_def)
qed

text \<open>
  The uploaded file and the destination may have changes that are not synchronised yet, and so may
  every name of other transactions; the records of this transaction have none.
\<close>

definition records_synchronised :: "replace_journal \<Rightarrow> world \<Rightarrow> bool" where
  "records_synchronised j w \<longleftrightarrow> clean (trace j) (moved j) w"

text \<open>
  C13: What an upload reports about the file it replaces is true, whatever fails on the way. When it
  succeeds, the new file is at the destination, the backup, the upload and the journal are gone, the
  receipt says that the operation was committed, and all of this is still so after a power failure
  that loses any part of the changes that were not synchronised, directory by directory. When it
  fails with a stated outcome, the outcome is that nothing was committed: the previous file is at
  the destination (or nothing, if there was none), the uploaded file is kept, no journal remains,
  this too survives a power failure, and the writer owns the upload again. It never reports a commit
  that did not happen or that it is not sure of. At the start the backup, the journal and the receipt
  of the upload have no change that is not synchronised.
\<close>

theorem upload_outcome_is_true:
  assumes "plain_checks env observer" "upload_ready env i relative op old new w"
    and "records_synchronised (upload_record env i relative op) w"
    and run: "commit_file_with_operation env clock new_id relative (UploadFile i) (Dest relative) observer op w = (r, w')"
  shows "case r of
      Inr _ \<Rightarrow>
        (let committed = (\<lambda>d. al_get d (Dest relative) = Some new \<and> al_get d (UploadFile i) = None \<and> al_get d (BackupOf i) = None \<and>
               al_get d (JournalFile i) = None \<and> confirmed (upload_record env i relative op) d)
         in committed (w_disk w') \<and> survives committed w')
    | Inl e \<Rightarrow>
        (case operation e of
           None \<Rightarrow> True
         | Some outcome \<Rightarrow>
             (let undone = (\<lambda>d. al_get d (Dest relative) = old \<and> al_get d (UploadFile i) = Some new \<and> al_get d (BackupOf i) = None \<and>
                    al_get d (JournalFile i) = None)
              in oo_commit outcome = NotCommitted \<and> undone (w_disk w') \<and> survives undone w' \<and> w_ownership w' = WriterOwned))"
proof -
  let ?j = "upload_record env i relative op"
  have pre: "on_disk (prepared ?j old new) (resumable ?j old new) w \<and> clean (trace ?j) (moved ?j) w \<and> w_pending w = None"
    using upload_ready_prepared [OF assms(2)] assms(3) by (simp add: records_synchronised_def)
  have "transaction_id_try_from i" "separate_files old new" using assms(2) by (simp_all add: upload_ready_def)
  note spec = holds_commit_file [OF assms(1) this(2,1) subset_refl, where clock = clock and new_id = new_id and relative = relative and op = op]
  have names: "Dest relative \<in> trace ?j" "UploadFile i \<in> trace ?j" "BackupOf i \<in> trace ?j" "JournalFile i \<in> trace ?j"
    by (simp_all add: trace_def)
  have receipt: "confirmed ?j d = confirmed ?j d'" if "\<forall>l \<in> trace ?j. al_get d l = al_get d' l" for d d'
    using that by (auto simp: confirmed_def trace_def split: option.splits)
  show ?thesis
  proof (cases r)
    case (Inr n)
    from holds_okD [OF spec pre run [unfolded Inr]]
    have fin: "finished ?j new (w_disk w')" "current w'" "clean (trace ?j) {} w'" by (simp_all add: on_disk_def)
    have "survives (\<lambda>d. al_get d (Dest relative) = Some new \<and> al_get d (UploadFile i) = None \<and> al_get d (BackupOf i) = None \<and>
        al_get d (JournalFile i) = None \<and> confirmed ?j d) w'"
      using fin(1) names receipt by (intro clean_survives [OF fin(2,3)]) (auto simp: finished_def)
    with fin(1) Inr show ?thesis by (simp add: finished_def Let_def)
  next
    case (Inl e)
    note err = holds_errD [OF spec pre run [unfolded Inl]]
    show ?thesis
    proof (cases "operation e")
      case (Some outcome)
      with err have und: "oo_commit outcome = NotCommitted" "ready ?j old new (w_disk w')" "current w'" "clean (trace ?j) {} w'"
        "w_ownership w' = WriterOwned" by (simp_all add: failed_safely_def on_disk_def)
      have "survives (\<lambda>d. al_get d (Dest relative) = old \<and> al_get d (UploadFile i) = Some new \<and> al_get d (BackupOf i) = None \<and>
          al_get d (JournalFile i) = None) w'"
        using und(2) names by (intro clean_survives [OF und(3,4)]) (auto simp: ready_def)
      with und Inl Some show ?thesis by (simp add: ready_def Let_def)
    qed (simp add: Inl)
  qed
qed

definition sample_tx_env :: tx_env where
  "sample_tx_env = \<lparr>te_encoded_size = (\<lambda>_. 0), te_hard_links = True, te_parents = (\<lambda>_. Inr ())\<rparr>"

definition sample_observer :: replacement_observer where
  "sample_observer = \<lparr>ro_check_destination = (\<lambda>_. Inr ()), ro_must_create_new = False, ro_prepare = (\<lambda>_. Inr ())\<rparr>"

definition sample_tx_id :: str where
  "sample_tx_id = ''00000000-0000-4000-8000-000000000000''"

definition sample_op :: "(str \<times> nat) option" where
  "sample_op = Some (''00000000000000000000000000000000'', 3)"

definition sample_old :: node where
  "sample_old = Obj \<lparr>ob_inode = 1, ob_dir = False, ob_nodes = 1, ob_data = ''old''\<rparr>"

definition sample_new :: node where
  "sample_new = Obj \<lparr>ob_inode = 2, ob_dir = False, ob_nodes = 1, ob_data = ''new''\<rparr>"

definition sample_disk :: disk where
  "sample_disk = [(Dest ''a'', sample_old), (UploadFile sample_tx_id, sample_new)]"

definition sample_world :: "fate list \<Rightarrow> world" where
  "sample_world fates =
     \<lparr>w_disk = sample_disk, w_seen = [], w_stable = sample_disk, w_unsynced = [], w_fates = fates, w_pending = None,
      w_receipt_count = 0, w_ownership = WriterOwned, w_notes = []\<rparr>"

definition sample_commit :: "fate list \<Rightarrow> nat app_result \<times> world" where
  "sample_commit fates =
     commit_file_with_operation sample_tx_env (Some 0) sample_tx_id ''a'' (UploadFile sample_tx_id) (Dest ''a'') sample_observer
       sample_op (sample_world fates)"

lemma sample_checks: "plain_checks sample_tx_env sample_observer"
  by (simp add: plain_checks_def sample_tx_env_def sample_observer_def)

lemma sample_tx_id_valid: "transaction_id_try_from sample_tx_id"
  by code_simp

lemma sample_op_valid: "valid_operation_id ''00000000000000000000000000000000''"
  by code_simp

lemma sample_target: "normalize_relative ''a'' = Inr ''a''"
  by code_simp

lemma sample_upload_ready: "upload_ready sample_tx_env sample_tx_id ''a'' sample_op (Some sample_old) sample_new (sample_world fates)"
  by (simp add: upload_ready_def separate_files_def sample_world_def sample_disk_def sample_old_def sample_new_def at_receipt_def
      upload_record_def sample_op_def current_def al_get_def sample_tx_id_valid)

lemma sample_records: "records_synchronised j (sample_world fates)"
  by (simp add: records_synchronised_def clean_def unsynced_def sample_world_def)

lemmas transaction_steps = replacement_source_def commit_file_with_operation_def settle_publication_def validate_destination_def validate_destination_kind_def
  rooted_metadata_def rooted_exists_def inspect_def attempt_def next_fate_def seq_def give_def raise_def from_result_def resource_id_def
  map_error_def catch_def notify_def set_ownership_def set_pending_def return_ownership_def publish_replacement_def place_anchor_def
  replace_journal_new_def validate_journal_def hard_link_noreplace_def rooted_sync_parent_def write_json_atomic_def
  write_json_atomic_inner_def rooted_create_private_file_def fill_file_def flush_file_def replace_internal_journal_def
  rooted_rename_noreplace_def rename_with_flags_def conclude_publication_def cleanup_replacement_backup_def drop_anchor_def
  rooted_remove_file_def rooted_remove_file_idempotent_def ensure_receipt_def read_receipt_def receipt_path_def
  check_receipt_capacity_def commit_change_def sync_folder_def moving_def move_def al_insert_def al_remove_def al_get_def rbind_def Let_def

lemma sample_folder: "folder_of (Dest ''a'') = UserFolder []"
  by code_simp

lemmas sample_run = sample_folder sample_commit_def transaction_steps sample_world_def sample_disk_def sample_tx_env_def sample_observer_def
  sample_old_def sample_new_def sample_op_def sample_tx_id_valid sample_op_valid sample_target MAX_UPLOAD_RECEIPTS_def

lemma sample_commit_succeeds: "fst (sample_commit []) = Inr 3"
  by (simp add: sample_run)

theorem upload_outcome_is_true_witness:
  "al_get (w_disk (snd (sample_commit []))) (Dest ''a'') = Some sample_new \<and>
   confirmed (upload_record sample_tx_env sample_tx_id ''a'' sample_op) (w_disk (snd (sample_commit []))) \<and>
   survives (\<lambda>d. al_get d (Dest ''a'') = Some sample_new \<and> al_get d (UploadFile sample_tx_id) = None \<and>
     al_get d (BackupOf sample_tx_id) = None \<and> al_get d (JournalFile sample_tx_id) = None \<and>
     confirmed (upload_record sample_tx_env sample_tx_id ''a'' sample_op) d) (snd (sample_commit []))"
  using upload_outcome_is_true [OF sample_checks sample_upload_ready sample_records prod.collapse [symmetric], of "Some 0" sample_tx_id "[]"]
  unfolding sample_commit_def [symmetric] sample_commit_succeeds by (simp add: Let_def)

end
