(* ===== verification/TransactionRecovery.thy ===== *)
theory TransactionRecovery
  imports TransactionGuarantees
begin

text \<open>
  Recovery of interrupted uploads: it keeps the files safe under every failure and however often
  it is interrupted itself. Two concrete runs at the end show reports of the code that mislead.
\<close>

section \<open>Recovery keeps the files safe\<close>

lemma recovery_ignores:
  assumes "\<And>d n. P (al_insert (ReceiptTmp x) n d) = P d" "\<And>d. P (al_remove (ReceiptTmp x) d) = P d"
  shows "ignores (ReceiptTmp x) P"
  using assms by (simp add: ignores_def)

definition still :: "replace_journal \<Rightarrow> node option \<Rightarrow> node \<Rightarrow> disk \<Rightarrow> bool" where
  "still j old new d \<longleftrightarrow> anchor_ok j new d \<and> unchanged j old new d \<and> at_journal j d = listed_as j"

definition taken :: "replace_journal \<Rightarrow> node option \<Rightarrow> node \<Rightarrow> disk \<Rightarrow> bool" where
  "taken j old new d \<longleftrightarrow> anchor_ok j new d \<and> replaced j old new d \<and> at_journal j d = listed_as j"

definition parked :: "replace_journal \<Rightarrow> node option \<Rightarrow> node \<Rightarrow> disk \<Rightarrow> bool" where
  "parked j old new d \<longleftrightarrow> anchor_ok j new d \<and> set_aside j old new d"

definition marked :: "replace_journal \<Rightarrow> node option \<Rightarrow> node \<Rightarrow> disk \<Rightarrow> bool" where
  "marked j old new d \<longleftrightarrow>
     \<not> rj_published j \<and> anchor_ok j new d \<and> replaced j old new d \<and> at_journal j d = listed_as (j\<lparr>rj_published := True\<rparr>)"

lemmas recovery_defs = phase_defs still_def taken_def parked_def marked_def

text \<open>What the receipts of a state may become.\<close>

lemma holds_when_operation:
  assumes "\<And>i len. rj_operation_id j = Some i \<Longrightarrow> rj_operation_size j = Some len \<Longrightarrow> holds (on_disk P I) (f i len) (\<lambda>_. on_disk P I) (plain I)"
  shows "holds (on_disk P I) (when_operation j f) (\<lambda>_. on_disk P I) (plain I)"
  unfolding when_operation_def using assms by (auto intro!: holds_give split: option.splits)

lemma holds_update_receipt:
  assumes "rj_operation_id j = Some i" "rj_operation_size j = Some len"
    and "\<And>d n. P (al_insert (ReceiptTmp i) n d) = P d" "\<And>d. P (al_remove (ReceiptTmp i) d) = P d"
    and "\<And>d. P d \<Longrightarrow> I d" "\<And>d n. I (al_insert (ReceiptTmp i) n d) = I d" "\<And>d. I (al_remove (ReceiptTmp i) d) = I d"
    and "\<And>d. P d \<Longrightarrow> P (al_insert (ReceiptFile i) (Doc (ReceiptDoc (receipt_for i (rj_destination j) len outcome))) d)"
  shows "holds (on_disk P I) (ensure_receipt env i (rj_destination j) len outcome) (\<lambda>_. on_disk P I) (plain I)"
  by (rule holds_ensure_receipt) (use assms in \<open>auto simp: ignores_def\<close>)

lemma receipt_states:
  assumes "rj_operation_id j = Some i" "rj_operation_size j = Some len"
  shows "\<not> ur_confirmed r \<or> ur_rolled_back r \<Longrightarrow> still j old new d \<Longrightarrow> still j old new (al_insert (ReceiptFile i) (Doc (ReceiptDoc r)) d)"
    "\<not> ur_rolled_back r \<Longrightarrow> taken j old new d \<Longrightarrow> taken j old new (al_insert (ReceiptFile i) (Doc (ReceiptDoc r)) d)"
    "\<not> ur_rolled_back r \<Longrightarrow> marked j old new d \<Longrightarrow> marked j old new (al_insert (ReceiptFile i) (Doc (ReceiptDoc r)) d)"
  using assms by (auto simp: recovery_defs at_receipt_def claims_def)

lemma tmp_states [simp]:
  "still j old new (al_insert (ReceiptTmp x) n d) = still j old new d" "still j old new (al_remove (ReceiptTmp x) d) = still j old new d"
  "taken j old new (al_insert (ReceiptTmp x) n d) = taken j old new d" "taken j old new (al_remove (ReceiptTmp x) d) = taken j old new d"
  "marked j old new (al_insert (ReceiptTmp x) n d) = marked j old new d" "marked j old new (al_remove (ReceiptTmp x) d) = marked j old new d"
  "data_safe j old new (al_insert (ReceiptTmp x) n d) = data_safe j old new d" "data_safe j old new (al_remove (ReceiptTmp x) d) = data_safe j old new d"
  by (simp_all add: recovery_defs)

lemma states_safe:
  "still j old new d \<Longrightarrow> data_safe j old new d" "taken j old new d \<Longrightarrow> data_safe j old new d"
  "marked j old new d \<Longrightarrow> data_safe j old new d" "parked j old new d \<Longrightarrow> data_safe j old new d"
  by (auto simp: recovery_defs)

text \<open>The steps of a recovery, on the states in which they are taken.\<close>

lemma holds_retire_journal:
  assumes "\<And>d. P d \<Longrightarrow> I d \<Longrightarrow> Q (al_remove l d) \<and> I (al_remove l d)"
    and "\<And>d. P d \<Longrightarrow> I d \<Longrightarrow> al_get d l = None \<Longrightarrow> Q d"
  shows "holds (on_disk P I) (retire_journal l) (\<lambda>_. on_disk Q I) (plain I)"
  unfolding retire_journal_def
  by (rule holds_seq [OF holds_plain_and [OF holds_remove_idempotent [where P = P and Q = Q and I = I]]])
     (auto simp: assms intro: holds_plain_and [OF holds_sync])

lemma holds_discard_source:
  assumes "upload_journal j" and "k = j \<or> k = j\<lparr>rj_published := True\<rparr>"
    and "\<And>d. P d \<Longrightarrow> I d \<Longrightarrow> P (al_remove (UploadFile (rj_id j)) d) \<and> I (al_remove (UploadFile (rj_id j)) d)"
  shows "holds (on_disk P I) (discard_source k) (\<lambda>_. on_disk P I) (plain I)"
proof -
  have "discard_source k = seq (rooted_remove_file_idempotent (UploadFile (rj_id j))) (\<lambda>_. rooted_sync_parent (UploadFile (rj_id j)))"
    using assms(1,2) by (auto simp: discard_source_def replacement_source_def upload_journal_def Let_def)
  then show ?thesis
    using holds_retire_journal [of P I P "UploadFile (rj_id j)"] assms(3) by (simp add: retire_journal_def)
qed

lemma holds_version_check:
  "holds (on_disk P I)
     (if b then seq (rooted_exists l) (\<lambda>present. if \<not> present then raise (Conflict m) else give ()) else give ())
     (\<lambda>_. on_disk P I) (plain I)"
  by (intro holds_if holds_seq [OF holds_exists] holds_refuse holds_give) (auto simp: operation_def elim: on_disk_mono)

lemma holds_finish_recovery:
  assumes j: "upload_journal j" "k = j \<or> k = j\<lparr>rj_published := True\<rparr>"
    and safe: "\<And>d. Q d \<Longrightarrow> data_safe j old new d"
    and receipt: "\<And>i len. rj_operation_id j = Some i \<Longrightarrow> rj_operation_size j = Some len \<Longrightarrow> was_committed \<Longrightarrow>
      holds (on_disk P (data_safe j old new))
        (ensure_receipt env i (rj_destination j) len (if rj_published k \<or> verified then Committed else CommitUnknown))
        (\<lambda>_. on_disk P (data_safe j old new)) (plain (data_safe j old new))"
    and backup: "holds (on_disk P (data_safe j old new)) (restore_or_discard_backup env clock new_id k de be)
      (\<lambda>_. on_disk Q (data_safe j old new)) (plain (data_safe j old new))"
    and upload: "\<And>d. Q d \<Longrightarrow> Q (al_remove (UploadFile (rj_id j)) d)"
    and anchor: "\<And>d. Q d \<Longrightarrow> Q (al_remove (AnchorOf (rj_id j)) d)"
    and rollback: "\<And>i len. rj_operation_id j = Some i \<Longrightarrow> rj_operation_size j = Some len \<Longrightarrow> \<not> was_committed \<Longrightarrow>
      holds (on_disk Q (data_safe j old new)) (ensure_receipt env i (rj_destination j) len NotCommitted)
        (\<lambda>_. on_disk Q (data_safe j old new)) (plain (data_safe j old new))"
    and retire: "\<And>d. Q d \<Longrightarrow> data_safe j old new (al_remove (JournalFile (rj_id j)) d)"
  shows "holds (on_disk P (data_safe j old new))
    (finish_recovery env clock new_id (JournalFile (rj_id j)) k de be was_committed verified)
    (\<lambda>_. on_disk (data_safe j old new) (data_safe j old new)) (plain (data_safe j old new))"
proof -
  let ?I = "data_safe j old new"
  have k: "rj_operation_id k = rj_operation_id j" "rj_operation_size k = rj_operation_size j" "rj_destination k = rj_destination j"
    "rj_id k = rj_id j" using j(2) by auto
  have 1: "holds (on_disk P ?I)
      (if was_committed then when_operation k (\<lambda>i len. seq (rooted_sync_parent (Dest (rj_destination k))) (\<lambda>_.
         ensure_receipt env i (rj_destination k) len (if rj_published k \<or> verified then Committed else CommitUnknown))) else give ())
      (\<lambda>_. on_disk P ?I) (plain ?I)"
    by (intro holds_if holds_when_operation holds_give holds_seq [OF holds_plain_and [OF holds_sync]]) (auto simp: k receipt)
  have 2: "holds (on_disk Q ?I) (discard_source k) (\<lambda>_. on_disk Q ?I) (plain ?I)"
    by (rule holds_discard_source [OF j]) (auto simp: upload safe)
  have 3: "holds (on_disk Q ?I) (drop_anchor k) (\<lambda>_. on_disk Q ?I) (plain ?I)"
    by (rule holds_drop_anchor) (auto simp: k anchor safe)
  have 4: "holds (on_disk Q ?I) (if was_committed then give () else when_operation k (\<lambda>i len. ensure_receipt env i (rj_destination k) len NotCommitted))
      (\<lambda>_. on_disk Q ?I) (plain ?I)"
    by (intro holds_if holds_when_operation holds_give) (auto simp: k rollback)
  have 5: "holds (on_disk Q ?I) (retire_journal (JournalFile (rj_id j))) (\<lambda>_. on_disk ?I ?I) (plain ?I)"
    by (rule holds_retire_journal) (auto simp: retire)
  show ?thesis
    unfolding finish_recovery_def Let_def
    by (intro holds_seq [OF 1] holds_seq [OF holds_version_check] holds_seq [OF backup] holds_seq [OF 2] holds_seq [OF 3] holds_seq [OF 4] 5)
qed

lemma holds_discard_if_kept:
  assumes files: "separate_files old new" and k: "rj_id k = rj_id j" "rj_destination k = rj_destination j" and "de \<or> \<not> be \<or> rj_published k"
    and "\<And>d. P d \<Longrightarrow> at_backup j d \<in> {None, old}" "\<And>d. P d \<Longrightarrow> data_safe j old new d"
    and "\<And>d. P d \<Longrightarrow> at_backup j d = old \<Longrightarrow> old \<noteq> None \<Longrightarrow> P (al_remove (BackupOf (rj_id j)) d)"
  shows "holds (on_disk P (data_safe j old new)) (restore_or_discard_backup env clock new_id k de be)
    (\<lambda>_. on_disk P (data_safe j old new)) (plain (data_safe j old new))"
proof -
  have "holds (on_disk P (data_safe j old new)) (cleanup_replacement_backup env clock new_id (BackupOf (rj_id k)) (rj_replaced_bytes k))
    (\<lambda>_. on_disk P (data_safe j old new)) (plain (data_safe j old new))"
    unfolding k by (rule holds_discard_backup [OF files]) (use assms in auto)
  with assms(4) show ?thesis
    unfolding restore_or_discard_backup_def Let_def by (auto intro!: holds_give)
qed

lemma holds_restore_aside:
  fixes j old new
  defines "I \<equiv> data_safe j old new"
  assumes "\<not> rj_published j"
  shows "holds (on_disk (\<lambda>d. parked j old new d \<and> old \<noteq> None) I) (restore_or_discard_backup env clock new_id j False True)
    (\<lambda>_. on_disk (still j old new) I) (plain I)"
proof -
  have ren: "holds (on_disk (\<lambda>d. parked j old new d \<and> old \<noteq> None) I) (rooted_rename_noreplace (BackupOf (rj_id j)) (Dest (rj_destination j)))
      (\<lambda>_. on_disk (still j old new) I) (plain I)"
    by (rule holds_plain_and, rule holds_rename) (auto simp: I_def recovery_defs)
  have eq: "restore_or_discard_backup env clock new_id j False True = seq (notify NoteRestoring) (\<lambda>_.
      seq (rooted_rename_noreplace (BackupOf (rj_id j)) (Dest (rj_destination j))) (\<lambda>_.
      seq (rooted_sync_parent (Dest (rj_destination j))) (\<lambda>_. rooted_sync_parent (BackupOf (rj_id j)))))"
    using assms(2) by (simp add: restore_or_discard_backup_def Let_def)
  show ?thesis
    unfolding eq
    by (intro holds_seq [OF holds_notify] holds_seq [OF ren] holds_seq [OF holds_plain_and [OF holds_sync]] holds_plain_and [OF holds_sync])
qed

lemma holds_finish_published:
  assumes "upload_journal j" "separate_files old new"
  shows "holds (on_disk (marked j old new) (data_safe j old new))
    (finish_recovery env clock new_id (JournalFile (rj_id j)) (j\<lparr>rj_published := True\<rparr>) de be True verified)
    (\<lambda>_. on_disk (data_safe j old new) (data_safe j old new)) (plain (data_safe j old new))"
proof (rule holds_finish_recovery [where Q = "marked j old new", OF assms(1)])
  show "holds (on_disk (marked j old new) (data_safe j old new)) (restore_or_discard_backup env clock new_id (j\<lparr>rj_published := True\<rparr>) de be)
      (\<lambda>_. on_disk (marked j old new) (data_safe j old new)) (plain (data_safe j old new))"
    by (rule holds_discard_if_kept [OF assms(2)]) (auto simp: states_safe, auto simp: recovery_defs)
  show "holds (on_disk (marked j old new) (data_safe j old new))
      (ensure_receipt env i (rj_destination j) len (if rj_published (j\<lparr>rj_published := True\<rparr>) \<or> verified then Committed else CommitUnknown))
      (\<lambda>_. on_disk (marked j old new) (data_safe j old new)) (plain (data_safe j old new))"
    if "rj_operation_id j = Some i" "rj_operation_size j = Some len" for i len
    by (rule holds_update_receipt [OF that]) (use that in \<open>auto simp: states_safe receipt_for_def intro!: receipt_states(3)\<close>)
qed (auto simp: states_safe, auto simp: recovery_defs)

lemma holds_finish_committed:
  fixes verified
  assumes "upload_journal j" "separate_files old new"
  defines "P \<equiv> \<lambda>d. taken j old new d \<or> \<not> verified \<and> still j old new d"
  shows "holds (on_disk P (data_safe j old new))
    (finish_recovery env clock new_id (JournalFile (rj_id j)) j True be True verified)
    (\<lambda>_. on_disk (data_safe j old new) (data_safe j old new)) (plain (data_safe j old new))"
proof (rule holds_finish_recovery [where Q = P, OF assms(1)])
  have safe: "P d \<Longrightarrow> data_safe j old new d" for d by (auto simp: P_def states_safe)
  then show "P d \<Longrightarrow> data_safe j old new d" for d .
  show "holds (on_disk P (data_safe j old new)) (restore_or_discard_backup env clock new_id j True be)
      (\<lambda>_. on_disk P (data_safe j old new)) (plain (data_safe j old new))"
    by (rule holds_discard_if_kept [OF assms(2)]) (auto simp: safe, auto simp: P_def recovery_defs)
  show "holds (on_disk P (data_safe j old new))
      (ensure_receipt env i (rj_destination j) len (if rj_published j \<or> verified then Committed else CommitUnknown))
      (\<lambda>_. on_disk P (data_safe j old new)) (plain (data_safe j old new))"
    if "rj_operation_id j = Some i" "rj_operation_size j = Some len" for i len
    by (rule holds_update_receipt [OF that])
       (use that assms(1) in \<open>auto simp: safe, auto simp: P_def upload_journal_def receipt_for_def intro!: receipt_states(1,2)\<close>)
qed (auto simp: P_def recovery_defs)

lemma holds_finish_rollback:
  assumes j: "upload_journal j" and P: "\<And>d. P d \<Longrightarrow> data_safe j old new d"
    and backup: "holds (on_disk P (data_safe j old new)) (restore_or_discard_backup env clock new_id j de be)
      (\<lambda>_. on_disk (still j old new) (data_safe j old new)) (plain (data_safe j old new))"
  shows "holds (on_disk P (data_safe j old new))
    (finish_recovery env clock new_id (JournalFile (rj_id j)) j de be False verified)
    (\<lambda>_. on_disk (data_safe j old new) (data_safe j old new)) (plain (data_safe j old new))"
proof (rule holds_finish_recovery [where Q = "still j old new", OF j _ _ _ backup])
  show "holds (on_disk (still j old new) (data_safe j old new)) (ensure_receipt env i (rj_destination j) len NotCommitted)
      (\<lambda>_. on_disk (still j old new) (data_safe j old new)) (plain (data_safe j old new))"
    if "rj_operation_id j = Some i" "rj_operation_size j = Some len" for i len
    by (rule holds_update_receipt [OF that]) (use that in \<open>auto simp: states_safe receipt_for_def intro!: receipt_states(1)\<close>)
qed (auto simp: states_safe, auto simp: recovery_defs)

lemma holds_rollback_proven:
  assumes k: "rj_operation_id k = rj_operation_id j" "rj_operation_size k = rj_operation_size j" "rj_destination k = rj_destination j"
  shows "holds (on_disk P I) (rollback_proven env k)
    (\<lambda>b. on_disk (\<lambda>d. P d \<and> (b \<longrightarrow> (\<exists>r. at_receipt j d = Some (Doc (ReceiptDoc r)) \<and> ur_rolled_back r))) I) (plain I)"
proof (cases "\<exists>i len. rj_operation_id j = Some i \<and> rj_operation_size j = Some len")
  case False
  then have eq: "rollback_proven env k = give False" by (auto simp: rollback_proven_def k split: option.splits)
  show ?thesis unfolding eq by (rule holds_give) (auto elim: on_disk_mono)
next
  case True
  then obtain i len where op: "rj_operation_id j = Some i" "rj_operation_size j = Some len" by blast
  let ?Q = "\<lambda>oc d. P d \<and> (oc \<noteq> None \<and> oo_commit (the oc) = NotCommitted \<longrightarrow> (\<exists>r. at_receipt j d = Some (Doc (ReceiptDoc r)) \<and> ur_rolled_back r))"
  have "holds (on_disk P I) (receipt_outcome env (rj_destination j) len i) (\<lambda>oc. on_disk (?Q oc) I) (plain I)"
    unfolding receipt_outcome_def
  proof (rule holds_seq [OF holds_read_receipt])
    fix r
    show "holds (on_disk (\<lambda>d. P d \<and> receipt_read i r d) I)
      (case r of None \<Rightarrow> give None
       | Some receipt \<Rightarrow>
           if ur_destination receipt \<noteq> rj_destination j \<or> ur_size receipt \<noteq> len then give None
           else if \<not> ur_confirmed receipt then give (Some (operation_outcome_new CommitUnknown CleanupUnknown))
           else give (Some (operation_outcome_new (if ur_rolled_back receipt then NotCommitted else Committed) CleanupComplete)))
      (\<lambda>oc. on_disk (?Q oc) I) (plain I)"
      by (cases r) (auto intro!: holds_give elim!: on_disk_mono simp: receipt_read_def at_receipt_def op operation_outcome_new_def)
  qed
  then have "holds (on_disk P I)
      (seq (receipt_outcome env (rj_destination j) len i) (\<lambda>outcome. give (case outcome of None \<Rightarrow> False | Some oc \<Rightarrow> oo_commit oc = NotCommitted)))
      (\<lambda>b. on_disk (\<lambda>d. P d \<and> (b \<longrightarrow> (\<exists>r. at_receipt j d = Some (Doc (ReceiptDoc r)) \<and> ur_rolled_back r))) I) (plain I)"
    by (rule holds_seq) (auto intro!: holds_give elim!: on_disk_mono split: option.splits)
  then show ?thesis by (simp add: rollback_proven_def k op)
qed

lemma holds_anchored_publication:
  assumes k: "rj_id k = rj_id j" "rj_destination k = rj_destination j"
  shows "holds (on_disk P I) (anchored_publication k de ue)
    (\<lambda>v. on_disk (\<lambda>d. P d \<and> (v \<longrightarrow> de \<and> \<not> ue \<and> (\<exists>a b. at_anchor j d = Some a \<and> at_dest j d = Some b \<and> node_inode a = node_inode b))) I) (plain I)"
  unfolding anchored_publication_def k
proof (rule holds_seq [OF holds_exists], intro holds_if)
  let ?post = "\<lambda>v. on_disk (\<lambda>d. P d \<and> (v \<longrightarrow> de \<and> \<not> ue \<and> (\<exists>a b. at_anchor j d = Some a \<and> at_dest j d = Some b \<and> node_inode a = node_inode b))) I"
  fix x
  show "holds (on_disk (\<lambda>d. P d \<and> (at_anchor j d \<noteq> None) = x) I) (give False) ?post (plain I)"
    by (auto intro!: holds_give elim: on_disk_mono)
  assume c: "rj_anchored k \<and> \<not> rj_published k \<and> x \<and> de \<and> \<not> ue"
  have inner: "holds (on_disk (\<lambda>d. P d \<and> at_anchor j d = Some a) I)
      (seq (rooted_metadata (Dest (rj_destination j))) (\<lambda>destination. case destination of
         None \<Rightarrow> raise (Conflict ''Upload destination disappeared during recovery'') | Some b \<Rightarrow> give (node_inode a = node_inode b)))
      ?post (plain I)" for a
  proof (rule holds_seq [OF holds_metadata])
    fix m
    show "holds (on_disk (\<lambda>d. (P d \<and> at_anchor j d = Some a) \<and> at_dest j d = m) I)
      (case m of None \<Rightarrow> raise (Conflict ''Upload destination disappeared during recovery'') | Some b \<Rightarrow> give (node_inode a = node_inode b))
      ?post (plain I)"
      by (cases m) (use c in \<open>auto intro!: holds_refuse holds_give elim!: on_disk_mono simp: operation_def\<close>)
  qed
  show "holds (on_disk (\<lambda>d. P d \<and> (at_anchor j d \<noteq> None) = x) I)
    (seq (rooted_metadata (AnchorOf (rj_id j))) (\<lambda>anchored. case anchored of
       None \<Rightarrow> raise (Conflict ''Upload anchor disappeared during recovery'')
     | Some a \<Rightarrow> seq (rooted_metadata (Dest (rj_destination j))) (\<lambda>destination. case destination of
         None \<Rightarrow> raise (Conflict ''Upload destination disappeared during recovery'') | Some b \<Rightarrow> give (node_inode a = node_inode b))))
    ?post (plain I)"
  proof (rule holds_seq [OF holds_forget [OF holds_metadata]])
    fix m
    show "holds (on_disk (\<lambda>d. P d \<and> at_anchor j d = m) I)
      (case m of None \<Rightarrow> raise (Conflict ''Upload anchor disappeared during recovery'')
       | Some a \<Rightarrow> seq (rooted_metadata (Dest (rj_destination j))) (\<lambda>destination. case destination of
         None \<Rightarrow> raise (Conflict ''Upload destination disappeared during recovery'') | Some b \<Rightarrow> give (node_inode a = node_inode b)))
      ?post (plain I)"
      by (cases m) (use inner in \<open>auto intro!: holds_refuse simp: operation_def\<close>)
  qed
qed

text \<open>Every recovery of the journal, whatever fails, keeps the files safe.\<close>

lemma seq_give [simp]: "seq (give x) f = f x"
  by (simp add: fun_eq_iff seq_def give_def)

lemma holds_not: "holds P m Q E \<Longrightarrow> holds (\<lambda>w. \<not> b \<and> P w) (if b then m' else m) Q E"
  by (auto simp: holds_def)

lemma holds_recover_published:
  assumes j: "upload_journal j" and files: "separate_files old new"
  shows "holds (on_disk (marked j old new) (data_safe j old new))
    (recover_replacement env clock new_id (JournalFile (rj_id j)) (j\<lparr>rj_published := True\<rparr>))
    (\<lambda>_. on_disk (data_safe j old new) (data_safe j old new)) (plain (data_safe j old new))"
proof -
  let ?k = "j\<lparr>rj_published := True\<rparr>" and ?I = "data_safe j old new"
  have proven: "holds (on_disk (marked j old new) ?I) (rollback_proven env ?k) (\<lambda>b w. \<not> b \<and> on_disk (marked j old new) ?I w) (plain ?I)"
    by (rule holds_weaken [OF holds_rollback_proven [where k = ?k and j = j and P = "marked j old new" and I = ?I]]) (auto simp: on_disk_def marked_def replaced_def claims_def)
  have exist: "holds (on_disk (marked j old new) ?I) (rooted_exists l) (\<lambda>_. on_disk (marked j old new) ?I) (plain ?I)" for l
    by (rule holds_weaken [OF holds_exists [where P = "marked j old new" and I = ?I]]) (auto elim: on_disk_mono)
  have anch: "holds (on_disk (marked j old new) ?I) (anchored_publication ?k de ue) (\<lambda>_. on_disk (marked j old new) ?I) (plain ?I)" for de ue
    by (rule holds_weaken [OF holds_anchored_publication [where k = ?k and j = j and P = "marked j old new" and I = ?I]]) (auto elim: on_disk_mono)
  have eq: "recover_replacement env clock new_id (JournalFile (rj_id j)) ?k =
    seq (rollback_proven env ?k) (\<lambda>proven. if proven then retire_journal (JournalFile (rj_id j)) else
      seq (rooted_exists (BackupOf (rj_id j))) (\<lambda>be. seq (rooted_exists (replacement_source ?k)) (\<lambda>ue.
      seq (anchored_publication ?k False ue) (\<lambda>v. finish_recovery env clock new_id (JournalFile (rj_id j)) ?k False be True v))))"
    by (simp add: recover_replacement_def cong: if_cong)
  show ?thesis
    unfolding eq
    by (intro holds_seq [OF proven] holds_not holds_seq [OF exist] holds_seq [OF anch] holds_finish_published [OF assms])
qed

lemma unpublished_cases:
  "data_safe j old new d \<Longrightarrow> at_journal j d = listed_as j \<Longrightarrow> \<not> rj_published j \<Longrightarrow>
    still j old new d \<or> parked j old new d \<and> old \<noteq> None \<or> taken j old new d"
  by (auto simp: recovery_defs)

lemma holds_recover_unpublished:
  assumes j: "upload_journal j" and files: "separate_files old new"
  shows "holds (on_disk (\<lambda>d. at_journal j d = listed_as j) (data_safe j old new))
    (recover_replacement env clock new_id (JournalFile (rj_id j)) j)
    (\<lambda>_. on_disk (data_safe j old new) (data_safe j old new)) (plain (data_safe j old new))"
proof -
  let ?I = "data_safe j old new" and ?L = "\<lambda>d. at_journal j d = listed_as j"
  let ?post = "\<lambda>_. on_disk ?I ?I"
  have np: "\<not> rj_published j" and src: "replacement_source j = UploadFile (rj_id j)"
    using j by (simp_all add: upload_journal_def replacement_source_def)
  have retire: "holds (on_disk (\<lambda>d. ?L d \<and> (b \<longrightarrow> (\<exists>r. at_receipt j d = Some (Doc (ReceiptDoc r)) \<and> ur_rolled_back r))) ?I)
      (retire_journal (JournalFile (rj_id j))) ?post (plain ?I)" if b for b
  proof (rule holds_retire_journal)
    fix d assume "?L d \<and> (b \<longrightarrow> (\<exists>r. at_receipt j d = Some (Doc (ReceiptDoc r)) \<and> ur_rolled_back r))" "?I d"
    with that have "?L d" "\<exists>r. at_receipt j d = Some (Doc (ReceiptDoc r)) \<and> ur_rolled_back r" by auto
    with \<open>?I d\<close> have "still j old new d" by (auto simp: recovery_defs claims_def)
    then show "?I (al_remove (JournalFile (rj_id j)) d) \<and> ?I (al_remove (JournalFile (rj_id j)) d)" by (auto simp: recovery_defs)
  qed auto
  define K where "K de be ue d \<longleftrightarrow> ?L d \<and> (at_dest j d \<noteq> None) = de \<and> (at_backup j d \<noteq> None) = be \<and> (at_upload j d \<noteq> None) = ue" for de be ue d
  have finish: "holds (on_disk (\<lambda>d. K de be ue d \<and> (v \<longrightarrow> de \<and> \<not> ue \<and>
        (\<exists>a b. at_anchor j d = Some a \<and> at_dest j d = Some b \<and> node_inode a = node_inode b))) ?I)
      (finish_recovery env clock new_id (JournalFile (rj_id j)) j de be (rj_published j \<or> de \<and> \<not> ue) v) ?post (plain ?I)"
    for de be ue v
  proof -
    consider (committed) "de \<and> \<not> ue" | (restore) "\<not> de \<and> be" | (keep) "\<not> (de \<and> \<not> ue)" "\<not> (\<not> de \<and> be)" by blast
    then show ?thesis
    proof cases
      case committed
      have step: "taken j old new d \<or> \<not> v \<and> still j old new d"
        if d: "K de be ue d" "?I d" "v \<longrightarrow> (\<exists>a b. at_anchor j d = Some a \<and> at_dest j d = Some b \<and> node_inode a = node_inode b)" for d
      proof -
        have "still j old new d \<or> taken j old new d"
          using unpublished_cases [OF d(2) _ np] d(1) committed by (auto simp: K_def recovery_defs)
        moreover have "\<not> v" if "still j old new d"
        proof
          assume v
          with d(3) obtain a b where "at_anchor j d = Some a" "at_dest j d = Some b" "node_inode a = node_inode b" by blast
          with that have "old = Some b" "a = new" by (auto simp: still_def unchanged_def anchor_ok_def)
          with files \<open>node_inode a = node_inode b\<close> show False by (simp add: separate_files_def)
        qed
        ultimately show ?thesis by blast
      qed
      have "holds (on_disk (\<lambda>d. taken j old new d \<or> \<not> v \<and> still j old new d) ?I)
          (finish_recovery env clock new_id (JournalFile (rj_id j)) j True be True v) ?post (plain ?I)"
        by (rule holds_finish_committed [OF assms])
      then have "holds (on_disk (\<lambda>d. K de be ue d \<and> (v \<longrightarrow> de \<and> \<not> ue \<and>
          (\<exists>a b. at_anchor j d = Some a \<and> at_dest j d = Some b \<and> node_inode a = node_inode b))) ?I)
          (finish_recovery env clock new_id (JournalFile (rj_id j)) j True be True v) ?post (plain ?I)"
        by (rule holds_pre) (erule on_disk_mono, rule step, auto)
      with committed np show ?thesis by simp
    next
      case restore
      have step: "K de be ue d \<Longrightarrow> ?I d \<Longrightarrow> parked j old new d \<and> old \<noteq> None" for d
        using unpublished_cases [of j old new d] restore np by (auto simp: K_def recovery_defs)
      have "holds (on_disk (\<lambda>d. parked j old new d \<and> old \<noteq> None) ?I)
          (finish_recovery env clock new_id (JournalFile (rj_id j)) j False True False v) ?post (plain ?I)"
        by (rule holds_finish_rollback [OF j _ holds_restore_aside [OF np]]) (auto simp: states_safe)
      then have "holds (on_disk (\<lambda>d. K de be ue d \<and> (v \<longrightarrow> de \<and> \<not> ue \<and>
          (\<exists>a b. at_anchor j d = Some a \<and> at_dest j d = Some b \<and> node_inode a = node_inode b))) ?I)
          (finish_recovery env clock new_id (JournalFile (rj_id j)) j False True False v) ?post (plain ?I)"
        by (rule holds_pre) (erule on_disk_mono, rule step, auto)
      with restore np show ?thesis by simp
    next
      case keep
      have step: "K de be ue d \<Longrightarrow> ?I d \<Longrightarrow> still j old new d" for d
        using unpublished_cases [of j old new d] keep np by (auto simp: K_def recovery_defs)
      have "holds (on_disk (still j old new) ?I) (restore_or_discard_backup env clock new_id j de be)
          (\<lambda>_. on_disk (still j old new) ?I) (plain ?I)"
        by (rule holds_discard_if_kept [OF files]) (use keep in \<open>auto simp: states_safe, auto simp: recovery_defs\<close>)
      then have "holds (on_disk (still j old new) ?I) (finish_recovery env clock new_id (JournalFile (rj_id j)) j de be False v) ?post (plain ?I)"
        by (rule holds_finish_rollback [OF j, rotated]) (rule states_safe(1))
      then have "holds (on_disk (\<lambda>d. K de be ue d \<and> (v \<longrightarrow> de \<and> \<not> ue \<and>
          (\<exists>a b. at_anchor j d = Some a \<and> at_dest j d = Some b \<and> node_inode a = node_inode b))) ?I)
          (finish_recovery env clock new_id (JournalFile (rj_id j)) j de be False v) ?post (plain ?I)"
        by (rule holds_pre) (erule on_disk_mono, rule step, auto)
      moreover have "(rj_published j \<or> de \<and> \<not> ue) = False" using keep np by auto
      ultimately show ?thesis by (simp only:)
    qed
  qed
  have eq: "recover_replacement env clock new_id (JournalFile (rj_id j)) j =
    seq (rollback_proven env j) (\<lambda>proven. if proven then retire_journal (JournalFile (rj_id j)) else
      seq (rooted_exists (Dest (rj_destination j))) (\<lambda>de. seq (rooted_exists (BackupOf (rj_id j))) (\<lambda>be. seq (rooted_exists (UploadFile (rj_id j))) (\<lambda>ue.
      if \<not> rj_published j \<and> ue \<and> be \<and> de
      then raise (Conflict ''Unexpected destination during upload recovery; original backup retained'')
      else seq (anchored_publication j de ue) (\<lambda>v.
        if rj_anchored j \<and> \<not> rj_published j \<and> de \<and> \<not> ue \<and> \<not> v
        then raise (Conflict ''Upload publication identity cannot be verified; resources retained'')
        else finish_recovery env clock new_id (JournalFile (rj_id j)) j de be (rj_published j \<or> de \<and> \<not> ue) v)))))"
    unfolding recover_replacement_def src using np by simp
  have look: "holds (on_disk P ?I) (seq (rooted_exists l) f) ?post (plain ?I)"
    if "\<And>b. holds (on_disk (\<lambda>d. P d \<and> (al_get d l \<noteq> None) = b) ?I) (f b) ?post (plain ?I)" for P l f
    by (rule holds_seq [OF holds_exists that])
  have inner: "holds (on_disk (\<lambda>d. ((?L d \<and> (at_dest j d \<noteq> None) = de) \<and> (at_backup j d \<noteq> None) = be) \<and> (at_upload j d \<noteq> None) = ue) ?I)
      (if \<not> rj_published j \<and> ue \<and> be \<and> de
      then raise (Conflict ''Unexpected destination during upload recovery; original backup retained'')
      else seq (anchored_publication j de ue) (\<lambda>v.
        if rj_anchored j \<and> \<not> rj_published j \<and> de \<and> \<not> ue \<and> \<not> v
        then raise (Conflict ''Upload publication identity cannot be verified; resources retained'')
        else finish_recovery env clock new_id (JournalFile (rj_id j)) j de be (rj_published j \<or> de \<and> \<not> ue) v)) ?post (plain ?I)" for de be ue
    by (intro holds_if holds_refuse holds_seq [OF holds_anchored_publication [OF refl refl]] holds_pre [OF finish])
       (auto simp: operation_def K_def)
  have "holds (on_disk ?L ?I) (seq (rooted_exists (Dest (rj_destination j))) (\<lambda>de. seq (rooted_exists (BackupOf (rj_id j))) (\<lambda>be.
      seq (rooted_exists (UploadFile (rj_id j))) (\<lambda>ue.
      if \<not> rj_published j \<and> ue \<and> be \<and> de
      then raise (Conflict ''Unexpected destination during upload recovery; original backup retained'')
      else seq (anchored_publication j de ue) (\<lambda>v.
        if rj_anchored j \<and> \<not> rj_published j \<and> de \<and> \<not> ue \<and> \<not> v
        then raise (Conflict ''Upload publication identity cannot be verified; resources retained'')
        else finish_recovery env clock new_id (JournalFile (rj_id j)) j de be (rj_published j \<or> de \<and> \<not> ue) v))))) ?post (plain ?I)"
    by (intro look inner)
  then show ?thesis
    unfolding eq by (intro holds_seq [OF holds_rollback_proven [OF refl refl refl]] holds_if retire) (auto elim: holds_pre on_disk_mono)
qed

section \<open>Interrupted uploads\<close>

text \<open>
  The process may be stopped in every state that the commit of an upload passes through, and again
  in every state that the recovery after a restart passes through, any number of times.
\<close>

definition restarted :: "disk \<Rightarrow> world \<Rightarrow> bool" where
  "restarted d w \<longleftrightarrow> w_disk w = d \<and> w_seen w = [] \<and> w_pending w = None \<and> current w"

inductive interrupted ::
  "tx_env \<Rightarrow> str \<Rightarrow> str \<Rightarrow> (str \<times> nat) option \<Rightarrow> node option \<Rightarrow> node \<Rightarrow> disk \<Rightarrow> bool" for env i relative op old new where
  during_upload: "\<lbrakk>plain_checks env observer; upload_ready env i relative op old new w;
      commit_file_with_operation env clock new_id relative (UploadFile i) (Dest relative) observer op w = (r, w');
      d \<in> set (w_seen w')\<rbrakk> \<Longrightarrow> interrupted env i relative op old new d"
| during_recovery: "\<lbrakk>interrupted env i relative op old new d; al_get d (JournalFile i) = Some (Doc (ReplaceDoc k));
      restarted d w; recover_replacement env clock new_id (JournalFile i) k w = (r, w');
      d' \<in> set (w_seen w')\<rbrakk> \<Longrightarrow> interrupted env i relative op old new d'"

lemma resumable_seen:
  assumes "plain_checks env observer" "upload_ready env i relative op old new w"
    and "commit_file_with_operation env clock new_id relative (UploadFile i) (Dest relative) observer op w = (r, w')"
  shows "list_all (resumable (upload_record env i relative op) old new) (w_seen w')"
proof -
  have "transaction_id_try_from i" "separate_files old new" using assms(2) by (simp_all add: upload_ready_def)
  note spec = holds_commit_file [OF assms(1) this(2,1) empty_subsetI, where clock = clock and new_id = new_id and relative = relative and op = op]
  have pre: "on_disk (prepared (upload_record env i relative op) old new) (resumable (upload_record env i relative op) old new) w \<and>
      clean {} (moved (upload_record env i relative op)) w \<and> w_pending w = None"
    using upload_ready_prepared [OF assms(2)] by (simp add: clean_def)
  show ?thesis
    using holds_okD [OF spec pre] holds_errD [OF spec pre] assms(3)
    by (cases r) (auto simp: on_disk_def failed_safely_def)
qed

lemma interrupted_safe:
  assumes "interrupted env i relative op old new d"
  shows "separate_files old new \<and> data_safe (upload_record env i relative op) old new d"
  using assms
proof induction
  case (during_upload observer w clock new_id r w' d)
  then show ?case using resumable_seen [OF during_upload(1-3)]
    by (auto simp: list_all_iff resumable_def upload_ready_def)
next
  case (during_recovery d k w clock new_id r w' d')
  let ?j = "upload_record env i relative op"
  let ?I = "data_safe ?j old new"
  have files: "separate_files old new" and safe: "?I d" using during_recovery.IH by auto
  have np: "\<not> rj_published ?j" by (simp add: upload_record_def)
  have "k = ?j \<or> k = ?j\<lparr>rj_published := True\<rparr>"
    using safe during_recovery(2) by (auto simp: data_safe_def unchanged_def set_aside_def replaced_def)
  then have "on_disk ?I ?I w'"
  proof
    assume k: "k = ?j"
    have pre: "on_disk (\<lambda>d. at_journal ?j d = listed_as ?j) ?I w"
      using during_recovery(2,3) safe k by (simp add: on_disk_def restarted_def)
    show ?thesis
      using holds_okD [OF holds_recover_unpublished [OF upload_record_simps(3) files] pre]
        holds_errD [OF holds_recover_unpublished [OF upload_record_simps(3) files] pre] during_recovery(4) k
      by (cases r) (auto simp: plain_def)
  next
    assume k: "k = ?j\<lparr>rj_published := True\<rparr>"
    then have "marked ?j old new d"
      using safe during_recovery(2) np by (auto simp: data_safe_def unchanged_def set_aside_def replaced_def marked_def)
    then have pre: "on_disk (marked ?j old new) ?I w"
      using during_recovery(3) safe by (simp add: on_disk_def restarted_def)
    show ?thesis
      using holds_okD [OF holds_recover_published [OF upload_record_simps(3) files] pre]
        holds_errD [OF holds_recover_published [OF upload_record_simps(3) files] pre] during_recovery(4) k
      by (cases r) (auto simp: plain_def)
  qed
  with files during_recovery(5) show ?case by (auto simp: on_disk_def list_all_iff)
qed

text \<open>
  C14: An upload that replaces a file never loses either file, however often it is interrupted.
  Whatever system calls fail, and wherever the process is stopped while it commits the upload or
  recovers from an earlier stop, the destination holds the previous file (or nothing, if there was
  none) or the complete new one; or it is vacant for the moment, and then the previous file is in
  the backup, the new one in the upload directory and the journal that restores it in place. The
  receipt of the operation never claims a commit while the previous file is at the destination, nor
  a rollback while the new one is.
\<close>

theorem interrupted_upload_keeps_files:
  assumes "interrupted env i relative op old new d"
  shows "(al_get d (Dest relative) = old \<or> al_get d (Dest relative) = Some new \<or>
      al_get d (Dest relative) = None \<and> al_get d (BackupOf i) = old \<and> al_get d (UploadFile i) = Some new \<and>
      al_get d (JournalFile i) = Some (Doc (ReplaceDoc (upload_record env i relative op)))) \<and>
    (\<forall>receipt. at_receipt (upload_record env i relative op) d = Some (Doc (ReceiptDoc receipt)) \<longrightarrow>
      (ur_confirmed receipt \<and> \<not> ur_rolled_back receipt \<longrightarrow> al_get d (Dest relative) = Some new) \<and>
      (ur_rolled_back receipt \<longrightarrow> al_get d (Dest relative) = old))"
  using interrupted_safe [OF assms]
  by (auto simp: data_safe_def unchanged_def set_aside_def replaced_def claims_def)

text \<open>A commit that is stopped while the previous file is set aside.\<close>

definition sample_stop :: "fate list" where
  "sample_stop = [Done, Done, Done, Done, Done, Done, Done, Done, Done, Done, Done, Done, Refused, Refused]"

definition sample_aside :: disk where
  "sample_aside =
     [(BackupOf sample_tx_id, sample_old),
      (JournalFile sample_tx_id, Doc (ReplaceDoc (upload_record sample_tx_env sample_tx_id ''a'' sample_op))),
      (AnchorOf sample_tx_id, sample_new), (UploadFile sample_tx_id, sample_new)]"

lemma sample_aside_seen: "sample_aside \<in> set (w_seen (snd (sample_commit sample_stop)))"
  by (simp add: sample_aside_def sample_stop_def sample_run upload_record_def roll_back_def restore_previous_def io_error_def with_source_def operation_def)

lemma sample_aside_interrupted: "interrupted sample_tx_env sample_tx_id ''a'' sample_op (Some sample_old) sample_new sample_aside"
  by (rule during_upload [OF sample_checks sample_upload_ready [of sample_stop] _ sample_aside_seen [unfolded sample_commit_def]])
    (rule prod.collapse [symmetric])

theorem interrupted_upload_keeps_files_witness:
  "al_get sample_aside (Dest ''a'') = None \<and> al_get sample_aside (BackupOf sample_tx_id) = Some sample_old \<and>
   al_get sample_aside (UploadFile sample_tx_id) = Some sample_new"
proof -
  have "al_get sample_aside (Dest ''a'') = None" by (simp add: al_get_def sample_aside_def)
  with interrupted_upload_keeps_files [OF sample_aside_interrupted] show ?thesis by simp
qed

section \<open>Two reports that mislead\<close>

definition sample_restart :: "disk \<Rightarrow> fate list \<Rightarrow> world" where
  "sample_restart d fates = sample_world fates\<lparr>w_disk := d, w_stable := d\<rparr>"

definition sample_blocked :: disk where
  "sample_blocked =
     [(Dest ''a'', sample_old),
      (JournalFile sample_tx_id, Doc (ReplaceDoc (upload_record sample_tx_env sample_tx_id ''a'' sample_op))),
      (AnchorOf sample_tx_id, sample_new)]"

lemmas recovery_steps = recover_replacement_def rollback_proven_def receipt_outcome_def anchored_publication_def finish_recovery_def
  restore_or_discard_backup_def discard_source_def when_operation_def io_error_def with_source_def

lemma sample_blocked_seen:
  "sample_blocked \<in> set (w_seen (snd (recover_replacement sample_tx_env (Some 0) sample_tx_id (JournalFile sample_tx_id)
     (upload_record sample_tx_env sample_tx_id ''a'' sample_op)
     (sample_restart sample_aside [Done, Done, Done, Done, Done, Done, Done, Done, Done, Refused]))))"
  by (simp add: sample_restart_def sample_aside_def sample_blocked_def recovery_steps sample_run upload_record_def)

lemma sample_blocked_interrupted: "interrupted sample_tx_env sample_tx_id ''a'' sample_op (Some sample_old) sample_new sample_blocked"
  by (rule during_recovery [OF sample_aside_interrupted _ _ prod.collapse [symmetric] sample_blocked_seen])
    (simp_all add: sample_aside_def al_get_def sample_restart_def restarted_def sample_world_def current_def)

text \<open>
  A recovery that puts the previous file back removes the upload before it keeps the receipt of the
  rollback. When it is stopped in between, every later recovery refuses to go on, although the
  previous file is in place and nothing is in doubt.
\<close>

lemma stopped_rollback_blocks_recovery:
  "interrupted sample_tx_env sample_tx_id ''a'' sample_op (Some sample_old) sample_new sample_blocked \<and>
   al_get sample_blocked (JournalFile sample_tx_id) = Some (Doc (ReplaceDoc (upload_record sample_tx_env sample_tx_id ''a'' sample_op))) \<and>
   (\<forall>clock new_id w. restarted sample_blocked w \<longrightarrow> w_fates w = [] \<longrightarrow>
      fst (recover_replacement sample_tx_env clock new_id (JournalFile sample_tx_id) (upload_record sample_tx_env sample_tx_id ''a'' sample_op) w) =
        Inl (Conflict ''Upload publication identity cannot be verified; resources retained''))"
  by (simp add: sample_blocked_interrupted)
    (simp add: restarted_def sample_blocked_def recovery_steps sample_run upload_record_def)

definition sample_dir :: node where
  "sample_dir = Obj \<lparr>ob_inode = 1, ob_dir = True, ob_nodes = 5, ob_data = []\<rparr>"

definition sample_transfer :: "fate list \<Rightarrow> bool app_result \<times> world" where
  "sample_transfer fates =
     commit_transfer sample_tx_env (Some 0) sample_tx_id sample_tx_id (Dest ''b'') ''a'' True sample_observer 0
       (sample_restart [(Dest ''a'', sample_dir), (Dest ''b'', sample_new)] fates)"

text \<open>
  A transfer over a directory keeps the directory as trash. When the record of that deletion cannot
  be written, the error of the whole transfer says that nothing was committed, and the ownership
  goes back to the caller, although the new file is in place and the old name is gone.
\<close>

lemma transfer_denies_its_commit:
  "(case sample_transfer (replicate 19 Done @ [Refused]) of
      (Inl e, w) \<Rightarrow>
        map_option oo_commit (operation e) = Some NotCommitted \<and> w_ownership w = WriterOwned \<and>
        al_get (w_disk w) (Dest ''a'') = Some sample_new \<and> al_get (w_disk w) (Dest ''b'') = None
    | (Inr _, _) \<Rightarrow> False)"
proof -
  have fates: "replicate 19 Done @ [Refused] = [Done, Done, Done, Done, Done, Done, Done, Done, Done, Done, Done, Done, Done, Done,
    Done, Done, Done, Done, Done, Refused]" by (simp add: numeral_eq_Suc)
  have source: "normalize_relative ''b'' = Inr ''b''" by code_simp
  show ?thesis
    unfolding fates sample_transfer_def
    by (simp add: sample_restart_def sample_dir_def commit_transfer_def stage_delete_def deletion_journal_new_def with_operation_def
        validate_transfer_source_def source starts_with_def recovery_steps sample_run operation_def operation_outcome_new_def)
qed

end
