(* ===== verification/RecoveryInventory.thy ===== *)
theory RecoveryInventory
  imports TransactionRecovery
begin

text \<open>
  The recovery of a whole local storage (src/src/storage_transaction/recovery.rs) and the staged
  deletions that it leaves to a background worker (src/src/storage_transaction.rs). Recovery reads
  and validates every record first and changes the disk only after that. The tables that the code
  keeps as hash maps are association lists in the order of insertion.
\<close>

section \<open>The inventory\<close>

type_synonym deletion_records = "(str \<times> loc \<times> deletion_journal) list"

record recovery_inventory =
  ri_journals :: "(loc \<times> replace_journal) list"
  ri_pending_files :: "loc list"
  ri_uploads :: "loc list"
  ri_copies :: "loc list"
  ri_trash :: "loc list"
  ri_anchors :: "loc list"
  ri_deletion_records :: deletion_records
  ri_pending_deletion_records :: "loc list"

primrec read_journals ::
  "tx_env \<Rightarrow> loc list \<Rightarrow> (loc \<times> replace_journal) list \<Rightarrow> loc list \<Rightarrow> ((loc \<times> replace_journal) list \<times> loc list) io" where
  "read_journals env [] journals pending = give (journals, pending)"
| "read_journals env (path # rest) journals pending =
     (if is_tmp path then read_journals env rest journals (pending @ [path])
      else seq (read_journal env path) (\<lambda>journal.
           seq (if rj_published journal then give ()
                else validate_destination_kind env (rj_destination journal) (rj_version journal = 4)) (\<lambda>_.
           if list_ex (\<lambda>(_, j). rj_id j = rj_id journal) journals
              \<or> \<not> rj_published journal
                \<and> list_ex (\<lambda>(_, j). \<not> rj_published j \<and> rj_destination j = rj_destination journal) journals
           then raise (Conflict ''Ambiguous transaction journals; recovery stopped'')
           else read_journals env rest (journals @ [(path, journal)]) pending)))"

primrec read_deletion_records ::
  "tx_env \<Rightarrow> loc list \<Rightarrow> deletion_records \<Rightarrow> loc list \<Rightarrow> (deletion_records \<times> loc list) io" where
  "read_deletion_records env [] debts pending = give (debts, pending)"
| "read_deletion_records env (path # rest) debts pending =
     (if is_tmp path then read_deletion_records env rest debts (pending @ [path])
      else seq (read_deletion_journal env path) (\<lambda>debt.
           if al_get debts (dj_id debt) \<noteq> None
           then raise (Conflict ''Ambiguous deletion debt records; recovery stopped'')
           else read_deletion_records env rest (debts @ [(dj_id debt, path, debt)]) pending))"

definition journal_anchors :: "(loc \<times> replace_journal) list \<Rightarrow> (str \<times> bool) list" where
  "journal_anchors journals = map (\<lambda>(_, j). (rj_id j, rj_anchored j)) journals"

definition check_backups :: "(loc \<times> replace_journal) list \<Rightarrow> loc list \<Rightarrow> unit io" where
  "check_backups journals = for_each (\<lambda>path.
     seq (from_result (resource_id path)) (\<lambda>i.
       if al_get (journal_anchors journals) i = None
       then raise (Conflict ''Unclaimed replacement backup; recovery stopped'') else give ()))"

definition check_anchors :: "(loc \<times> replace_journal) list \<Rightarrow> loc list \<Rightarrow> unit io" where
  "check_anchors journals = for_each (\<lambda>path.
     seq (from_result (resource_id path)) (\<lambda>i.
       if al_get (journal_anchors journals) i = Some False
       then raise (Conflict ''Unclaimed upload anchor; recovery stopped'') else give ()))"

fun resource_ids :: "loc list \<Rightarrow> str list app_result" where
  "resource_ids [] = Inr []"
| "resource_ids (path # rest) = rbind (resource_id path) (\<lambda>i. rbind (resource_ids rest) (\<lambda>is. Inr (i # is)))"

definition check_copies :: "str list \<Rightarrow> deletion_records \<Rightarrow> str list \<Rightarrow> loc list \<Rightarrow> unit io" where
  "check_copies trash_ids debts incomplete = for_each (\<lambda>path.
     seq (from_result (resource_id path)) (\<lambda>i.
     seq (if i \<in> set trash_ids \<or> al_get debts i \<noteq> None \<or> i \<in> set incomplete then give True else rooted_exists (TrashOf i)) (\<lambda>taken.
       if taken then raise (Conflict ''Ambiguous copy cleanup ownership; recovery stopped'') else give ())))"

definition read_recovery_inventory :: "tx_env \<Rightarrow> recovery_inventory io" where
  "read_recovery_inventory env =
     seq (inventory Journals JournalKind) (\<lambda>journal_files.
     seq (inventory Uploads FileKind) (\<lambda>uploads.
     seq (inventory Copies TreeKind) (\<lambda>copies.
     seq (inventory_page TrashFolder TreeKind MAX_RECOVERY_ENTRIES) (\<lambda>(trash, _).
     seq (inventory Backups TreeKind) (\<lambda>backups.
     seq (inventory Anchors FileKind) (\<lambda>anchors.
     seq (inventory Deletions JournalKind) (\<lambda>deletion_files.
     seq (read_journals env journal_files [] []) (\<lambda>(journals, pending_files).
     seq (read_deletion_records env deletion_files [] []) (\<lambda>(debts, pending_debts).
     seq (check_backups journals backups) (\<lambda>_.
     seq (check_anchors journals anchors) (\<lambda>_.
     seq (from_result (resource_ids trash)) (\<lambda>trash_ids.
     seq (from_result (resource_ids pending_debts)) (\<lambda>incomplete.
     seq (check_copies trash_ids debts incomplete copies) (\<lambda>_.
     give \<lparr>ri_journals = journals, ri_pending_files = pending_files, ri_uploads = uploads, ri_copies = copies, ri_trash = trash,
           ri_anchors = anchors, ri_deletion_records = debts, ri_pending_deletion_records = pending_debts\<rparr>))))))))))))))"

section \<open>Recovery\<close>

primrec handoff_copies :: "loc list \<Rightarrow> loc list \<Rightarrow> loc list io" where
  "handoff_copies [] trash = give trash"
| "handoff_copies (path # rest) trash =
     seq (handoff_recovered_copy path) (\<lambda>staged.
       handoff_copies rest (case staged of None \<Rightarrow> trash | Some l \<Rightarrow> trash @ [l]))"

text \<open>One bounded pass over the trash: the debts it retains, and the records that it has not matched.\<close>

primrec clean_trash :: "loc list \<Rightarrow> nat \<Rightarrow> str list \<Rightarrow> deletion_records \<Rightarrow> (str list \<times> deletion_records) io" where
  "clean_trash [] remaining retained debts = give (retained, debts)"
| "clean_trash (path # rest) remaining retained debts =
     seq (from_result (resource_id path)) (\<lambda>i.
       if remaining = 0 then clean_trash rest remaining (i # retained) debts
       else seq (remove_bounded path remaining) (\<lambda>(removed, complete).
         if \<not> complete then clean_trash rest (remaining - removed) (i # retained) debts
         else seq (rooted_sync_parent path) (\<lambda>_.
           case al_get debts i of
             None \<Rightarrow> clean_trash rest (remaining - removed) retained debts
           | Some (record_path, _) \<Rightarrow>
               seq (retire_journal record_path) (\<lambda>_.
               clean_trash rest (remaining - removed) retained (al_remove i debts)))))"

definition retire_debt :: "str list \<Rightarrow> str \<Rightarrow> loc \<Rightarrow> unit io" where
  "retire_debt retained i record_path =
     (if i \<in> set retained then give ()
      else seq (rooted_exists (TrashOf i)) (\<lambda>present.
        if present then give ()
        else seq (rooted_sync_parent (TrashOf i)) (\<lambda>_. retire_journal record_path)))"

text \<open>The identifiers of new deletion records are given for each journal.\<close>

definition execute_recovery :: "tx_env \<Rightarrow> nat option \<Rightarrow> (loc \<Rightarrow> str) \<Rightarrow> recovery_inventory \<Rightarrow> unit io" where
  "execute_recovery env clock fresh resources =
     seq (for_each (\<lambda>(path, journal). recover_replacement env clock (fresh path) path journal) (ri_journals resources)) (\<lambda>_.
     seq (for_each retire_journal (ri_pending_files resources @ ri_uploads resources)) (\<lambda>_.
     seq (for_each (\<lambda>path. seq (rooted_exists path) (\<lambda>present.
            if \<not> present then give () else seq (rooted_remove_file path) (\<lambda>_. rooted_sync_parent path))) (ri_anchors resources)) (\<lambda>_.
     seq (handoff_copies (ri_copies resources) (ri_trash resources)) (\<lambda>trash.
     seq (clean_trash trash DELETION_NODES_PER_PASS [] (ri_deletion_records resources)) (\<lambda>(retained, debts).
     seq (for_each (\<lambda>(i, record_path, _). retire_debt retained i record_path) debts) (\<lambda>_.
     for_each (\<lambda>path. seq (from_result (resource_id path)) (\<lambda>i. retire_debt retained i path))
       (ri_pending_deletion_records resources)))))))"

definition recover :: "tx_env \<Rightarrow> nat option \<Rightarrow> (loc \<Rightarrow> str) \<Rightarrow> unit io" where
  "recover env clock fresh =
     seq (settle_publication env) (\<lambda>_. seq (read_recovery_inventory env) (execute_recovery env clock fresh))"

section \<open>Staged deletions\<close>

record staged_deletion =
  sd_path :: loc
  sd_bytes_upper_bound :: "nat option"
  sd_record :: "loc option"

primrec read_debts ::
  "tx_env \<Rightarrow> loc list \<Rightarrow> deletion_records \<Rightarrow> (str \<times> loc) list \<Rightarrow> (deletion_records \<times> (str \<times> loc) list) io" where
  "read_debts env [] debts incomplete = give (debts, incomplete)"
| "read_debts env (path # rest) debts incomplete =
     (if is_tmp path
      then seq (from_result (resource_id path)) (\<lambda>i. read_debts env rest debts (al_insert i path incomplete))
      else seq (read_deletion_journal env path) (\<lambda>debt.
           read_debts env rest (al_insert (dj_id debt) (path, debt) debts) incomplete))"

primrec pair_trash ::
  "loc list \<Rightarrow> deletion_records \<Rightarrow> (str \<times> loc) list \<Rightarrow> staged_deletion list
    \<Rightarrow> (staged_deletion list \<times> deletion_records \<times> (str \<times> loc) list) io" where
  "pair_trash [] debts incomplete found = give (found, debts, incomplete)"
| "pair_trash (path # rest) debts incomplete found =
     seq (from_result (resource_id path)) (\<lambda>i.
       case al_get debts i of
         Some (record_path, debt) \<Rightarrow>
           pair_trash rest (al_remove i debts) incomplete
             (found @ [\<lparr>sd_path = path, sd_bytes_upper_bound = Some (dj_bytes_upper_bound debt), sd_record = Some record_path\<rparr>])
       | None \<Rightarrow>
           pair_trash rest debts (al_remove i incomplete)
             (found @ [\<lparr>sd_path = path, sd_bytes_upper_bound = None, sd_record = al_get incomplete i\<rparr>]))"

definition staged_deletions :: "tx_env \<Rightarrow> (staged_deletion list \<times> bool) io" where
  "staged_deletions env =
     seq (inventory Deletions JournalKind) (\<lambda>record_files.
     seq (read_debts env record_files [] []) (\<lambda>(debts, incomplete).
     seq (inventory_page TrashFolder TreeKind 128) (\<lambda>(trash, trash_more).
     seq (pair_trash trash debts incomplete []) (\<lambda>(found, debts, incomplete).
       if trash_more then give (found, True)
       else let others = map (\<lambda>(_, record_path, debt). \<lparr>sd_path = TrashOf (dj_id debt),
                                 sd_bytes_upper_bound = Some (dj_bytes_upper_bound debt), sd_record = Some record_path\<rparr>) debts
                         @ map (\<lambda>(i, record_path). \<lparr>sd_path = TrashOf i, sd_bytes_upper_bound = None,
                                 sd_record = Some record_path\<rparr>) incomplete;
                room = 128 - length found
            in give (found @ take room others, room < length others)))))"

definition finish_staged_deletion :: "staged_deletion \<Rightarrow> unit io" where
  "finish_staged_deletion item = (case sd_record item of None \<Rightarrow> give () | Some record_path \<Rightarrow> retire_journal record_path)"


section \<open>Steps that only look\<close>

text \<open>
  \<open>reads P m Q\<close>: started on a disk with \<open>P\<close>, the step changes nothing that is remembered of it, and
  its result satisfies \<open>Q\<close>.
\<close>

definition reads :: "(disk \<Rightarrow> bool) \<Rightarrow> 'a io \<Rightarrow> (disk \<Rightarrow> 'a \<Rightarrow> bool) \<Rightarrow> bool" where
  "reads P m Q \<longleftrightarrow>
     (\<forall>w r w'. P (w_disk w) \<longrightarrow> m w = (r, w') \<longrightarrow>
        w_disk w' = w_disk w \<and> w_seen w' = w_seen w \<and> (\<forall>x. r = Inr x \<longrightarrow> Q (w_disk w) x))"

lemma reads_seq:
  assumes "reads P m R" "\<And>x. reads (\<lambda>d. P d \<and> R d x) (f x) Q"
  shows "reads P (seq m f) Q"
  unfolding reads_def
proof (intro allI impI)
  fix w r w' assume P: "P (w_disk w)" and run: "seq m f w = (r, w')"
  obtain r1 w1 where m: "m w = (r1, w1)" by fastforce
  with assms(1) P have same: "w_disk w1 = w_disk w" "w_seen w1 = w_seen w" "\<And>x. r1 = Inr x \<Longrightarrow> R (w_disk w) x"
    unfolding reads_def by blast+
  show "w_disk w' = w_disk w \<and> w_seen w' = w_seen w \<and> (\<forall>x. r = Inr x \<longrightarrow> Q (w_disk w) x)"
  proof (cases r1)
    case (Inl e)
    with run m same show ?thesis by (auto simp: seq_def)
  next
    case (Inr x)
    with run m have "f x w1 = (r, w')" by (simp add: seq_def)
    with assms(2) [of x] P same Inr show ?thesis unfolding reads_def by metis
  qed
qed

lemma reads_give: "(\<And>d. P d \<Longrightarrow> Q d x) \<Longrightarrow> reads P (give x) Q"
  by (auto simp: reads_def give_def)

lemma reads_raise: "reads P (raise e) Q"
  by (auto simp: reads_def raise_def)

lemma reads_from_result: "(\<And>d x. P d \<Longrightarrow> r = Inr x \<Longrightarrow> Q d x) \<Longrightarrow> reads P (from_result r) Q"
  by (auto simp: reads_def from_result_def)

lemma reads_inspect: "reads P (inspect c f) (\<lambda>d x. f d = x)"
  by (auto simp: reads_def inspect_def next_fate_def Let_def split: list.splits)

lemma reads_if: "\<lbrakk>b \<Longrightarrow> reads P m Q; \<not> b \<Longrightarrow> reads P m' Q\<rbrakk> \<Longrightarrow> reads P (if b then m else m') Q"
  by simp

lemma reads_weaken: "\<lbrakk>reads P m Q; \<And>d. P' d \<Longrightarrow> P d; \<And>d x. P' d \<Longrightarrow> Q d x \<Longrightarrow> Q' d x\<rbrakk> \<Longrightarrow> reads P' m Q'"
  unfolding reads_def by blast

lemma reads_exists: "reads P (rooted_exists l) (\<lambda>d b. b \<longleftrightarrow> al_get d l \<noteq> None)"
  unfolding rooted_exists_def rooted_metadata_def
  by (rule reads_seq [OF reads_inspect]) (rule reads_give, auto)

lemma reads_for_each:
  assumes "\<And>x. reads P (f x) (\<lambda>d _. S d x)"
  shows "reads P (for_each f xs) (\<lambda>d _. \<forall>x \<in> set xs. S d x)"
proof (induction xs)
  case Nil
  show ?case by (simp add: reads_give)
next
  case (Cons x xs)
  show ?case
    unfolding for_each.simps
    by (rule reads_seq [OF assms], rule reads_weaken [OF Cons.IH]) auto
qed

subsection \<open>Inventories are complete\<close>

lemma inventory_entries_complete:
  "inventory_entries kind limit es found = Inr (ls, left) \<Longrightarrow> set ls \<subseteq> set found \<union> fst ` set es \<and> (\<not> left \<longrightarrow> ls = found @ map fst es)"
proof (induction kind limit es found rule: inventory_entries.induct)
  case (2 kind limit l n rest found)
  show ?case
  proof (cases "limit \<le> length found")
    case False
    with 2(2) have "inventory_entries kind limit rest (found @ [l]) = Inr (ls, left)" by (auto simp: rbind_Inr_iff)
    moreover obtain u where "validate_inventory_entry kind l n = Inr u" using 2(2) False by (auto simp: rbind_Inr_iff)
    ultimately show ?thesis using 2(1) [OF False] by auto
  qed (use 2(2) in auto)
qed simp

lemma reads_inventory_page: "reads P (inventory_page g kind limit) (\<lambda>d (ls, left). \<forall>l \<in> set ls. folder_of l = g)"
  unfolding inventory_page_def
  by (rule reads_seq [OF reads_inspect], rule reads_from_result) (auto dest!: inventory_entries_complete)

lemma reads_inventory:
  "reads P (inventory g kind) (\<lambda>d ls. (\<forall>l \<in> set ls. folder_of l = g) \<and> (\<forall>l. folder_of l = g \<longrightarrow> al_get d l \<noteq> None \<longrightarrow> l \<in> set ls))"
proof -
  have page: "reads P (inventory_page g kind MAX_RECOVERY_ENTRIES)
      (\<lambda>d (ls, left). (\<forall>l \<in> set ls. folder_of l = g) \<and> (\<not> left \<longrightarrow> (\<forall>l. folder_of l = g \<longrightarrow> al_get d l \<noteq> None \<longrightarrow> l \<in> set ls)))"
    unfolding inventory_page_def
    by (rule reads_seq [OF reads_inspect], rule reads_from_result)
      (force dest!: inventory_entries_complete dest: map_of_SomeD simp: al_get_def)
  show ?thesis
    unfolding inventory_def
    by (rule reads_seq [OF page]) (auto intro!: reads_if reads_raise reads_give)
qed

subsection \<open>What a complete inventory establishes\<close>

lemma reads_read_journal: "reads P (read_journal env path) (\<lambda>d j. \<exists>n. al_get d path = Some n \<and> decode_replace_journal env path n = Inr j)"
  unfolding read_journal_def
  by (rule reads_seq [OF reads_inspect]) (auto split: option.split intro!: reads_raise reads_from_result)

lemma reads_read_deletion_journal:
  "reads P (read_deletion_journal env path) (\<lambda>d j. \<exists>n. al_get d path = Some n \<and> decode_deletion_journal env path n = Inr j)"
  unfolding read_deletion_journal_def
  by (rule reads_seq [OF reads_inspect]) (auto split: option.split intro!: reads_raise reads_from_result)

lemma reads_validate_destination_kind: "reads P (validate_destination_kind env relative b) (\<lambda>_ _. True)"
  unfolding validate_destination_kind_def rooted_metadata_def
  by (intro reads_if reads_raise reads_seq [OF reads_from_result, of _ _ "\<lambda>_ _. True"] reads_seq [OF reads_inspect])
    (auto split: option.split intro!: reads_raise reads_give reads_if)

definition journals_read :: "tx_env \<Rightarrow> disk \<Rightarrow> (loc \<times> replace_journal) list \<Rightarrow> bool" where
  "journals_read env d journals \<longleftrightarrow>
     (\<forall>(path, j) \<in> set journals. \<exists>n. al_get d path = Some n \<and> decode_replace_journal env path n = Inr j) \<and>
     (\<forall>(path, j) \<in> set journals. \<forall>(path', j') \<in> set journals.
        \<not> rj_published j \<longrightarrow> \<not> rj_published j' \<longrightarrow> rj_destination j = rj_destination j' \<longrightarrow> path = path')"

lemma reads_read_journals:
  "reads (\<lambda>d. P d \<and> journals_read env d journals) (read_journals env files journals pending)
     (\<lambda>d (found, pending'). journals_read env d found \<and> set journals \<subseteq> set found \<and>
        fst ` set found = fst ` set journals \<union> {l \<in> set files. \<not> is_tmp l} \<and> set pending' \<subseteq> set pending \<union> set files)"
proof (induction files arbitrary: P journals pending)
  case Nil
  show ?case by (auto intro: reads_give)
next
  case (Cons path rest)
  show ?case
  proof (cases "is_tmp path")
    case True
    then show ?thesis by simp (rule reads_weaken [OF Cons.IH [of P]], auto)
  next
    case False
    show ?thesis
      unfolding read_journals.simps if_not_P [OF False]
      apply (rule reads_seq [OF reads_read_journal])
      apply (rule reads_seq [where R = "\<lambda>_ _. True"])
       apply (auto intro!: reads_if reads_give reads_validate_destination_kind)[1]
      apply (intro reads_if reads_raise)
      subgoal for j u
        apply (rule reads_weaken [OF Cons.IH [of P]])
         apply (fastforce simp: journals_read_def list_ex_iff)
        using False by auto
      done
  qed
qed

text \<open>
  The records of a disk on which nothing is in doubt: all of them can be read, no two pending
  replacements have the same destination, each backup and each anchor is claimed by a journal, and
  no copy has the identifier of a deletion.
\<close>

definition unambiguous :: "tx_env \<Rightarrow> disk \<Rightarrow> bool" where
  "unambiguous env d \<longleftrightarrow>
     (\<forall>i n. al_get d (JournalFile i) = Some n \<longrightarrow> (\<exists>j. decode_replace_journal env (JournalFile i) n = Inr j)) \<and>
     (\<forall>i n. al_get d (DeletionFile i) = Some n \<longrightarrow> (\<exists>debt. decode_deletion_journal env (DeletionFile i) n = Inr debt)) \<and>
     (\<forall>i j i' j'. al_get d (JournalFile i) = Some (Doc (ReplaceDoc j)) \<longrightarrow> al_get d (JournalFile i') = Some (Doc (ReplaceDoc j')) \<longrightarrow>
        \<not> rj_published j \<longrightarrow> \<not> rj_published j' \<longrightarrow> rj_destination j = rj_destination j' \<longrightarrow> i = i') \<and>
     (\<forall>i. al_get d (BackupOf i) \<noteq> None \<longrightarrow> al_get d (JournalFile i) \<noteq> None) \<and>
     (\<forall>i j. al_get d (AnchorOf i) \<noteq> None \<longrightarrow> al_get d (JournalFile i) = Some (Doc (ReplaceDoc j)) \<longrightarrow> rj_anchored j) \<and>
     (\<forall>i. al_get d (CopyTree i) \<noteq> None \<longrightarrow> al_get d (TrashOf i) = None \<and> al_get d (DeletionFile i) = None \<and> al_get d (DeletionTmp i) = None)"

lemma decode_replace_journal_Inr:
  "decode_replace_journal env path n = Inr j \<Longrightarrow> n = Doc (ReplaceDoc j) \<and> rj_id j = resource_name path"
  by (auto simp: decode_replace_journal_def resource_id_def rbind_Inr_iff split: node.splits document.splits if_splits)

lemma decode_deletion_journal_Inr:
  "decode_deletion_journal env path n = Inr j \<Longrightarrow> n = Doc (DeletionDoc j) \<and> dj_id j = resource_name path"
  by (auto simp: decode_deletion_journal_def resource_id_def rbind_Inr_iff split: node.splits document.splits if_splits)

definition debts_read :: "tx_env \<Rightarrow> disk \<Rightarrow> deletion_records \<Rightarrow> bool" where
  "debts_read env d debts \<longleftrightarrow>
     (\<forall>(i, path, debt) \<in> set debts. i = dj_id debt \<and> (\<exists>n. al_get d path = Some n \<and> decode_deletion_journal env path n = Inr debt))"

lemma reads_read_deletion_records:
  "reads (\<lambda>d. P d \<and> debts_read env d debts) (read_deletion_records env files debts pending)
     (\<lambda>d (found, pending'). debts_read env d found \<and>
        (fst \<circ> snd) ` set found = (fst \<circ> snd) ` set debts \<union> {l \<in> set files. \<not> is_tmp l} \<and>
        set pending' = set pending \<union> {l \<in> set files. is_tmp l})"
proof (induction files arbitrary: P debts pending)
  case Nil
  show ?case by (auto intro: reads_give)
next
  case (Cons path rest)
  show ?case
  proof (cases "is_tmp path")
    case True
    then show ?thesis by simp (rule reads_weaken [OF Cons.IH [of P]], auto)
  next
    case False
    show ?thesis
      unfolding read_deletion_records.simps if_not_P [OF False]
      apply (rule reads_seq [OF reads_read_deletion_journal])
      apply (intro reads_if reads_raise)
      subgoal for debt
        apply (rule reads_weaken [OF Cons.IH [of P]])
         apply (fastforce simp: debts_read_def)
        subgoal for d r using False by (cases r) auto
        done
      done
  qed
qed

lemma debts_read_listed:
  assumes "debts_read env d debts" "l \<in> (fst \<circ> snd) ` set debts"
  shows "al_get debts (resource_name l) \<noteq> None"
proof -
  from assms(2) obtain i debt where "(i, l, debt) \<in> set debts" by auto
  with assms(1) have "i = resource_name l" by (auto simp: debts_read_def dest: decode_deletion_journal_Inr)
  with \<open>(i, l, debt) \<in> set debts\<close> show ?thesis by (metis al_get_def fst_conv image_eqI map_of_eq_None_iff)
qed

lemma resource_ids_Inr: "resource_ids ls = Inr is \<Longrightarrow> is = map resource_name ls"
  by (induction ls arbitrary: "is") (auto simp: rbind_Inr_iff resource_id_def split: if_splits)

lemma resource_id_Inr: "resource_id l = Inr i \<longleftrightarrow> i = resource_name l \<and> transaction_id_try_from i"
  by (auto simp: resource_id_def)

lemma reads_check_backups:
  "reads P (check_backups journals ls) (\<lambda>d _. \<forall>l \<in> set ls. al_get (journal_anchors journals) (resource_name l) \<noteq> None)"
  unfolding check_backups_def
  by (rule reads_for_each, rule reads_seq [OF reads_from_result [where Q = "\<lambda>d i. i = resource_name l" for l]])
    (auto simp: resource_id_Inr intro!: reads_if reads_raise reads_give)

lemma reads_check_anchors:
  "reads P (check_anchors journals ls) (\<lambda>d _. \<forall>l \<in> set ls. al_get (journal_anchors journals) (resource_name l) \<noteq> Some False)"
  unfolding check_anchors_def
  by (rule reads_for_each, rule reads_seq [OF reads_from_result [where Q = "\<lambda>d i. i = resource_name l" for l]])
    (auto simp: resource_id_Inr intro!: reads_if reads_raise reads_give)

lemma reads_check_copies:
  "reads P (check_copies ids debts incomplete ls)
     (\<lambda>d _. \<forall>l \<in> set ls. al_get d (TrashOf (resource_name l)) = None \<and> al_get debts (resource_name l) = None \<and> resource_name l \<notin> set incomplete)"
  unfolding check_copies_def
  apply (rule reads_for_each)
  subgoal for l
    apply (rule reads_seq [OF reads_from_result [where Q = "\<lambda>d i. i = resource_name l"]])
     apply (simp add: resource_id_Inr)
    subgoal for i
      apply (rule reads_seq [where R = "\<lambda>d b. b \<longleftrightarrow> i \<in> set ids \<or> al_get debts i \<noteq> None \<or> i \<in> set incomplete \<or> al_get d (TrashOf i) \<noteq> None"])
       apply (intro reads_if reads_give reads_weaken [OF reads_exists])
         apply auto[3]
      by (auto intro!: reads_if reads_raise reads_give) (metis option.exhaust surj_pair)
    done
  done

text \<open>The paths of an inventory, and the journals in it.\<close>

definition inventory_of :: "tx_env \<Rightarrow> disk \<Rightarrow> recovery_inventory \<Rightarrow> bool" where
  "inventory_of env d found_all \<longleftrightarrow>
     journals_read env d (ri_journals found_all) \<and> (\<forall>(path, j) \<in> set (ri_journals found_all). \<exists>i. path = JournalFile i) \<and>
     (\<forall>l \<in> set (ri_pending_files found_all). folder_of l = Journals) \<and> (\<forall>l \<in> set (ri_uploads found_all). folder_of l = Uploads) \<and>
     (\<forall>l \<in> set (ri_copies found_all). folder_of l = Copies) \<and> (\<forall>l \<in> set (ri_trash found_all). folder_of l = TrashFolder) \<and>
     (\<forall>l \<in> set (ri_anchors found_all). folder_of l = Anchors) \<and>
     (\<forall>(i, path, debt) \<in> set (ri_deletion_records found_all). folder_of path = Deletions) \<and>
     (\<forall>l \<in> set (ri_pending_deletion_records found_all). folder_of l = Deletions)"

lemma folder_of_cases [simp]:
  "folder_of l = Journals \<longleftrightarrow> (\<exists>i. l = JournalFile i \<or> l = JournalTmp i)" "folder_of l = Backups \<longleftrightarrow> (\<exists>i. l = BackupOf i)"
  "folder_of l = Anchors \<longleftrightarrow> (\<exists>i. l = AnchorOf i)" "folder_of l = Copies \<longleftrightarrow> (\<exists>i. l = CopyTree i)"
  "folder_of l = Uploads \<longleftrightarrow> (\<exists>i. l = UploadFile i)" "folder_of l = TrashFolder \<longleftrightarrow> (\<exists>i. l = TrashOf i)"
  "folder_of l = Deletions \<longleftrightarrow> (\<exists>i. l = DeletionFile i \<or> l = DeletionTmp i)"
  by (cases l; simp)+

definition all_listed :: "folder \<Rightarrow> disk \<Rightarrow> loc list \<Rightarrow> bool" where
  "all_listed g d ls \<longleftrightarrow> (\<forall>l \<in> set ls. folder_of l = g) \<and> (\<forall>l. folder_of l = g \<longrightarrow> al_get d l \<noteq> None \<longrightarrow> l \<in> set ls)"

lemma journals_unambiguous:
  assumes files: "all_listed Journals d files" and js: "journals_read env d js" "fst ` set js = {l \<in> set files. \<not> is_tmp l}"
  shows "al_get d (JournalFile i) = Some n \<Longrightarrow> \<exists>j. (JournalFile i, j) \<in> set js \<and> n = Doc (ReplaceDoc j) \<and> rj_id j = i \<and>
      decode_replace_journal env (JournalFile i) n = Inr j"
proof -
  assume n: "al_get d (JournalFile i) = Some n"
  then have "JournalFile i \<in> fst ` set js" using files js(2) by (auto simp: all_listed_def)
  then obtain j where j: "(JournalFile i, j) \<in> set js" by auto
  with js(1) n have "decode_replace_journal env (JournalFile i) n = Inr j" by (auto simp: journals_read_def)
  with j decode_replace_journal_Inr [OF this] show ?thesis by auto
qed

lemma anchors_of_journals:
  assumes "journals_read env d js" "\<forall>(path, j) \<in> set js. \<exists>i. path = JournalFile i"
  shows "al_get (journal_anchors js) i \<noteq> None \<Longrightarrow> al_get d (JournalFile i) \<noteq> None"
    and "(JournalFile i, j) \<in> set js \<Longrightarrow> al_get (journal_anchors js) i \<noteq> Some False \<Longrightarrow> rj_anchored j"
proof -
  have shape: "path = JournalFile (rj_id k) \<and> al_get d path = Some (Doc (ReplaceDoc k))" if "(path, k) \<in> set js" for path k
    using assms that by (fastforce simp: journals_read_def dest!: decode_replace_journal_Inr)
  show "al_get (journal_anchors js) i \<noteq> None \<Longrightarrow> al_get d (JournalFile i) \<noteq> None"
    using shape by (fastforce simp: al_get_def journal_anchors_def dest: map_of_SomeD)
  assume j: "(JournalFile i, j) \<in> set js" and a: "al_get (journal_anchors js) i \<noteq> Some False"
  from j shape have "rj_id j = i" by fastforce
  with j have "i \<in> fst ` set (journal_anchors js)" by (force simp: journal_anchors_def)
  then have "al_get (journal_anchors js) i \<noteq> None" by (simp add: al_get_def map_of_eq_None_iff)
  with a have "al_get (journal_anchors js) i = Some True" by (metis (full_types) not_None_eq)
  then obtain path k where "(path, k) \<in> set js" "rj_id k = i" "rj_anchored k"
    by (auto simp: al_get_def journal_anchors_def dest!: map_of_SomeD)
  with shape [OF this(1)] shape [OF j] show "rj_anchored j" by (metis document.inject(1) node.inject(2) option.inject)
qed

lemma complete_inventory_unambiguous:
  assumes js: "all_listed Journals d files" "journals_read env d js" "fst ` set js = {l \<in> set files. \<not> is_tmp l}"
    and debts: "all_listed Deletions d debt_files" "debts_read env d debts" "(fst \<circ> snd) ` set debts = {l \<in> set debt_files. \<not> is_tmp l}"
    and pending: "set pending = {l \<in> set debt_files. is_tmp l}" "incomplete = map resource_name pending"
    and backups: "all_listed Backups d bs" "\<forall>l \<in> set bs. al_get (journal_anchors js) (resource_name l) \<noteq> None"
    and anchors: "all_listed Anchors d as" "\<forall>l \<in> set as. al_get (journal_anchors js) (resource_name l) \<noteq> Some False"
    and copies: "all_listed Copies d cs" "\<forall>l \<in> set cs. al_get d (TrashOf (resource_name l)) = None \<and>
        al_get debts (resource_name l) = None \<and> resource_name l \<notin> set incomplete"
  shows "unambiguous env d"
proof -
  note journal = journals_unambiguous [OF js]
  have paths: "\<forall>(path, j) \<in> set js. \<exists>i. path = JournalFile i"
  proof clarify
    fix path j assume "(path, j) \<in> set js"
    then have "path \<in> fst ` set js" by force
    then have "path \<in> set files" "\<not> is_tmp path" using js(3) by auto
    with js(1) show "\<exists>i. path = JournalFile i" by (auto simp: all_listed_def)
  qed
  note anchor = anchors_of_journals [OF js(2) paths]
  have one: "i = i'" if "al_get d (JournalFile i) = Some (Doc (ReplaceDoc j))" "al_get d (JournalFile i') = Some (Doc (ReplaceDoc j'))"
      "\<not> rj_published j" "\<not> rj_published j'" "rj_destination j = rj_destination j'" for i i' j j'
    using journal [OF that(1)] journal [OF that(2)] js(2) that(3-) by (fastforce simp: journals_read_def)
  have debt: "\<exists>debt. decode_deletion_journal env (DeletionFile i) n = Inr debt" if "al_get d (DeletionFile i) = Some n" for i n
  proof -
    have "DeletionFile i \<in> (fst \<circ> snd) ` set debts" using debts(1,3) that by (auto simp: all_listed_def)
    with debts(2) that show ?thesis by (fastforce simp: debts_read_def)
  qed
  have copy: "al_get d (TrashOf i) = None \<and> al_get d (DeletionFile i) = None \<and> al_get d (DeletionTmp i) = None"
    if "al_get d (CopyTree i) \<noteq> None" for i
  proof -
    have "CopyTree i \<in> set cs" using copies(1) that by (auto simp: all_listed_def)
    with copies(2) have c: "al_get d (TrashOf i) = None" "al_get debts i = None" "i \<notin> set incomplete" by fastforce+
    have "DeletionFile i \<notin> set debt_files" using debts_read_listed [OF debts(2), of "DeletionFile i"] c(2) debts(3) by auto
    moreover have "DeletionTmp i \<notin> set debt_files" using pending c(3) by force
    ultimately show ?thesis using debts(1) c(1) by (auto simp: all_listed_def)
  qed
  have "al_get d (JournalFile i) \<noteq> None" if "al_get d (BackupOf i) \<noteq> None" for i
  proof (rule anchor(1))
    have "BackupOf i \<in> set bs" using backups(1) that by (auto simp: all_listed_def)
    with backups(2) have "al_get (journal_anchors js) (resource_name (BackupOf i)) \<noteq> None" by blast
    then show "al_get (journal_anchors js) i \<noteq> None" by simp
  qed
  moreover have "rj_anchored j" if "al_get d (AnchorOf i) \<noteq> None" "al_get d (JournalFile i) = Some (Doc (ReplaceDoc j))" for i j
  proof (rule anchor(2))
    show "(JournalFile i, j) \<in> set js" using journal [OF that(2)] by auto
    have "AnchorOf i \<in> set as" using anchors(1) that(1) by (auto simp: all_listed_def)
    with anchors(2) have "al_get (journal_anchors js) (resource_name (AnchorOf i)) \<noteq> Some False" by blast
    then show "al_get (journal_anchors js) i \<noteq> Some False" by simp
  qed
  ultimately show ?thesis
    unfolding unambiguous_def using one debt copy journal by blast
qed

lemma reads_seq_pair:
  "reads P m R \<Longrightarrow> (\<And>x y. reads (\<lambda>d. P d \<and> R d (x, y)) (f x y) Q) \<Longrightarrow> reads P (seq m (\<lambda>(x, y). f x y)) Q"
  by (rule reads_seq) auto

lemma reads_all_listed: "reads P (inventory g kind) (all_listed g)"
  by (rule reads_weaken [OF reads_inventory]) (auto simp: all_listed_def)

lemma reads_all_journals:
  "reads P (read_journals env files [] [])
     (\<lambda>d (js, pending). journals_read env d js \<and> fst ` set js = {l \<in> set files. \<not> is_tmp l} \<and> set pending \<subseteq> set files)"
  by (rule reads_weaken [OF reads_read_journals [of P]]) (auto simp: journals_read_def)

lemma reads_all_debts:
  "reads P (read_deletion_records env files [] [])
     (\<lambda>d (debts, pending). debts_read env d debts \<and> (fst \<circ> snd) ` set debts = {l \<in> set files. \<not> is_tmp l} \<and>
        set pending = {l \<in> set files. is_tmp l})"
  by (rule reads_weaken [OF reads_read_deletion_records [of P]]) (auto simp: debts_read_def)

lemma reads_resource_ids: "reads P (from_result (resource_ids ls)) (\<lambda>_ is. is = map resource_name ls)"
  by (rule reads_from_result) (rule resource_ids_Inr)

lemma inventory_paths:
  assumes "all_listed Journals d files" "journals_read env d js" "fst ` set js = {l \<in> set files. \<not> is_tmp l}" "set pending \<subseteq> set files"
    and "all_listed Uploads d us" "all_listed Copies d cs" "\<forall>l \<in> set ts. folder_of l = TrashFolder" "all_listed Anchors d as"
    and "all_listed Deletions d debt_files" "(fst \<circ> snd) ` set debts = {l \<in> set debt_files. \<not> is_tmp l}"
    and "set pending_debts = {l \<in> set debt_files. is_tmp l}"
  shows "inventory_of env d \<lparr>ri_journals = js, ri_pending_files = pending, ri_uploads = us, ri_copies = cs, ri_trash = ts, ri_anchors = as,
    ri_deletion_records = debts, ri_pending_deletion_records = pending_debts\<rparr>"
proof -
  have folder: "folder_of l = g" if "all_listed g d ls" "l \<in> set ls" for g ls l
    using that unfolding all_listed_def by blast
  have "\<forall>(path, j) \<in> set js. \<exists>i. path = JournalFile i"
  proof clarify
    fix path j assume "(path, j) \<in> set js"
    then have "path \<in> fst ` set js" by force
    then have "folder_of path = Journals" "\<not> is_tmp path" using folder [OF assms(1)] assms(3) by blast+
    then show "\<exists>i. path = JournalFile i" by auto
  qed
  moreover have "\<forall>(i, path, debt) \<in> set debts. folder_of path = Deletions"
  proof clarify
    fix i path debt assume "(i, path, debt) \<in> set debts"
    then have "path \<in> (fst \<circ> snd) ` set debts" by force
    then show "folder_of path = Deletions" using folder [OF assms(9)] assms(10) by blast
  qed
  moreover have "\<forall>l \<in> set pending_debts. folder_of l = Deletions" using folder [OF assms(9)] assms(11) by blast
  moreover have "\<forall>l \<in> set pending. folder_of l = Journals" using folder [OF assms(1)] assms(4) by blast
  moreover have "\<forall>l \<in> set us. folder_of l = Uploads" "\<forall>l \<in> set cs. folder_of l = Copies" "\<forall>l \<in> set as. folder_of l = Anchors"
    using folder assms(5,6,8) by blast+
  ultimately show ?thesis
    using assms(2,7) unfolding inventory_of_def recovery_inventory.simps by blast
qed

lemma reads_recovery_inventory:
  "reads (\<lambda>_. True) (read_recovery_inventory env) (\<lambda>d x. unambiguous env d \<and> inventory_of env d x)"
  unfolding read_recovery_inventory_def
  apply (intro reads_seq [OF reads_all_listed] reads_seq_pair [OF reads_inventory_page] reads_seq_pair [OF reads_all_journals]
      reads_seq_pair [OF reads_all_debts] reads_seq [OF reads_check_backups] reads_seq [OF reads_check_anchors]
      reads_seq [OF reads_resource_ids] reads_seq [OF reads_check_copies])
  apply (rule reads_give)
  apply (elim conjE)
  apply (simp only: prod.case)
  apply (intro conjI complete_inventory_unambiguous inventory_paths; (elim conjE)?; assumption?)
  apply (rule refl)
  done

section \<open>Steps that leave a file alone\<close>

definition keeps :: "str \<Rightarrow> 'a io \<Rightarrow> bool" where
  "keeps p m \<longleftrightarrow>
     (\<forall>w r w'. m w = (r, w') \<longrightarrow> al_get (w_disk w') (Dest p) = al_get (w_disk w) (Dest p) \<and>
        (\<forall>d \<in> set (w_seen w'). d \<in> set (w_seen w) \<or> al_get d (Dest p) = al_get (w_disk w) (Dest p)))"

named_theorems keeps_rules

lemma keeps_seq [keeps_rules]: "keeps p m \<Longrightarrow> (\<And>x. keeps p (f x)) \<Longrightarrow> keeps p (seq m f)"
  unfolding keeps_def seq_def by (fastforce split: prod.splits sum.splits)

lemma keeps_pure [keeps_rules]: "keeps p (give x)" "keeps p (raise e)" "keeps p (from_result r)" "keeps p (inspect c g)" "keeps p (notify n)"
  "keeps p (set_pending q)"
  by (auto simp: keeps_def give_def raise_def from_result_def inspect_def notify_def set_pending_def next_fate_def Let_def split: list.splits)

lemma keeps_if [keeps_rules]: "\<lbrakk>b \<Longrightarrow> keeps p m; \<not> b \<Longrightarrow> keeps p m'\<rbrakk> \<Longrightarrow> keeps p (if b then m else m')"
  by simp

lemma keeps_option [keeps_rules]: "\<lbrakk>x = None \<Longrightarrow> keeps p m; \<And>y. x = Some y \<Longrightarrow> keeps p (f y)\<rbrakk> \<Longrightarrow> keeps p (case x of None \<Rightarrow> m | Some y \<Rightarrow> f y)"
  by (cases x) simp_all

lemma keeps_pair [keeps_rules]: "(\<And>a b. x = (a, b) \<Longrightarrow> keeps p (f a b)) \<Longrightarrow> keeps p (case x of (a, b) \<Rightarrow> f a b)"
  by (cases x) simp

lemma keeps_node [keeps_rules]: "\<lbrakk>\<And>o'. keeps p (f o'); \<And>d. keeps p (g d)\<rbrakk> \<Longrightarrow> keeps p (case n of Obj o' \<Rightarrow> f o' | Doc d \<Rightarrow> g d)"
  by (cases n) simp_all

lemma keeps_map_error [keeps_rules]: "keeps p m \<Longrightarrow> keeps p (map_error f m)"
  unfolding keeps_def map_error_def by (fastforce split: prod.splits sum.splits)

lemma keeps_catch [keeps_rules]: "keeps p m \<Longrightarrow> (\<And>e. keeps p (h e)) \<Longrightarrow> keeps p (catch m h)"
  unfolding keeps_def catch_def by (fastforce split: prod.splits sum.splits)

lemma keeps_attempt:
  assumes "\<And>d cs. f d = Inr cs \<Longrightarrow> al_get (apply_changes cs d) (Dest p) = al_get d (Dest p)"
  shows "keeps p (attempt c f)"
  unfolding keeps_def attempt_def commit_change_def next_fate_def Let_def
  by (auto split: list.splits if_splits sum.splits prod.splits dest: assms)

lemma keeps_sync_parent [keeps_rules]: "keeps p (rooted_sync_parent l)"
  by (auto simp: keeps_def rooted_sync_parent_def sync_folder_def next_fate_def Let_def split: list.splits fate.splits)

lemma keeps_for_each [keeps_rules]: "(\<And>x. x \<in> set xs \<Longrightarrow> keeps p (f x)) \<Longrightarrow> keeps p (for_each f xs)"
  by (induction xs) (auto intro!: keeps_rules)

text \<open>The primitives, on locations other than the file.\<close>

lemma keeps_metadata [keeps_rules]: "keeps p (rooted_metadata l)" "keeps p (rooted_exists l)"
  unfolding rooted_exists_def rooted_metadata_def by (intro keeps_rules)+

lemma keeps_rename [keeps_rules]: "a \<noteq> Dest p \<Longrightarrow> b \<noteq> Dest p \<Longrightarrow> keeps p (rename_with_flags x a b)"
  unfolding rename_with_flags_def by (rule keeps_attempt) (auto split: option.splits if_splits)

lemma keeps_rename_noreplace [keeps_rules]: "a \<noteq> Dest p \<Longrightarrow> b \<noteq> Dest p \<Longrightarrow> keeps p (rooted_rename_noreplace a b)"
  unfolding rooted_rename_noreplace_def by (rule keeps_rename)

lemma keeps_remove [keeps_rules]: "l \<noteq> Dest p \<Longrightarrow> keeps p (rooted_remove_file l)"
  unfolding rooted_remove_file_def by (rule keeps_attempt) (auto split: option.splits if_splits)

lemma keeps_remove_idempotent [keeps_rules]: "l \<noteq> Dest p \<Longrightarrow> keeps p (rooted_remove_file_idempotent l)"
  unfolding rooted_remove_file_idempotent_def by (intro keeps_rules)

lemma keeps_retire [keeps_rules]: "l \<noteq> Dest p \<Longrightarrow> keeps p (retire_journal l)"
  unfolding retire_journal_def by (intro keeps_rules)

lemma keeps_remove_bounded [keeps_rules]: "l \<noteq> Dest p \<Longrightarrow> keeps p (remove_bounded l n)"
  unfolding remove_bounded_def by (intro keeps_rules keeps_attempt) auto

lemma keeps_write_json:
  assumes "path \<noteq> Dest p" "tmp_of path \<noteq> Dest p" "\<And>w. w_disk (g w) = w_disk w \<and> w_seen (g w) = w_seen w"
  shows "keeps p (write_json_atomic_inner env path doc b g)"
proof -
  have "keeps p (\<lambda>w. (Inr (), g w))" using assms(3) by (simp add: keeps_def)
  then show ?thesis
    unfolding write_json_atomic_inner_def rooted_create_private_file_def fill_file_def flush_file_def replace_internal_journal_def Let_def
    using assms(1,2) by (intro keeps_rules keeps_attempt) (auto split: if_splits)
qed

text \<open>The operations of a recovery.\<close>

lemma keeps_guard: "(\<And>w. keeps p (if b w then raise e else m)) \<Longrightarrow> keeps p m \<Longrightarrow> keeps p (\<lambda>w. if b w then (Inl e, w) else m w)"
  by (auto simp: keeps_def)

lemma keeps_read_receipt [keeps_rules]: "keeps p (read_receipt env i)"
  unfolding read_receipt_def by (intro keeps_rules)

lemma keeps_ensure_receipt [keeps_rules]: "keeps p (ensure_receipt env i destination len outcome)"
proof -
  have store: "keeps p (seq (from_result (receipt_path i)) (\<lambda>path.
      seq (if b then give () else rooted_remove_file_idempotent (tmp_of path)) (\<lambda>_.
      write_json_atomic_inner env path (ReceiptDoc rc) b (\<lambda>w. if b then w else w\<lparr>w_receipt_count := w_receipt_count w + 1\<rparr>))))" for b rc
  proof (cases "valid_operation_id i")
    case True
    then have "receipt_path i = Inr (ReceiptFile i)" by (simp add: receipt_path_def)
    then have "seq (from_result (receipt_path i)) f = f (ReceiptFile i)" for f :: "loc \<Rightarrow> unit io"
      by (rule_tac ext) (simp add: seq_def from_result_def)
    then show ?thesis by (simp only:) (intro keeps_rules keeps_write_json, auto)
  next
    case False
    then have "seq (from_result (receipt_path i)) f = raise (BadRequest ''invalid upload operation ID'')" for f :: "loc \<Rightarrow> unit io"
      by (rule_tac ext) (simp add: seq_def from_result_def receipt_path_def raise_def)
    then show ?thesis by (simp add: keeps_pure)
  qed
  show ?thesis
    unfolding ensure_receipt_def Let_def by (intro keeps_rules keeps_guard store)
qed

lemma keeps_settle [keeps_rules]: "keeps p (settle_publication env)"
proof -
  have "keeps p (seq (rooted_sync_parent a) (\<lambda>_. seq (rooted_sync_parent b) (\<lambda>_.
      seq (write_json_atomic_inner env (JournalFile i) doc True (\<lambda>w. w)) (\<lambda>_. set_pending None))))" for a b i doc
    by (intro keeps_rules keeps_write_json) auto
  then show ?thesis
    unfolding keeps_def settle_publication_def by (auto split: option.splits)
qed

lemma keeps_stage_delete [keeps_rules]: "l \<noteq> Dest p \<Longrightarrow> keeps p (stage_delete env clock new_id l bytes)"
  unfolding stage_delete_def write_json_atomic_def by (intro keeps_rules keeps_write_json) auto

lemma keeps_cleanup_backup [keeps_rules]: "l \<noteq> Dest p \<Longrightarrow> keeps p (cleanup_replacement_backup env clock new_id l bytes)"
  unfolding cleanup_replacement_backup_def by (intro keeps_rules)

lemma keeps_handoff [keeps_rules]: "l \<noteq> Dest p \<Longrightarrow> keeps p (handoff_recovered_copy l)"
  unfolding handoff_recovered_copy_def by (intro keeps_rules) auto

lemma keeps_discard_source [keeps_rules]: "\<not> rj_staged_copy j \<or> rj_transfer_source j = None \<Longrightarrow> keeps p (discard_source j)"
  unfolding discard_source_def replacement_source_def Let_def by (intro keeps_rules) (auto split: option.splits)

lemma keeps_restore [keeps_rules]:
  "rj_published j \<or> rj_destination j \<noteq> p \<Longrightarrow> keeps p (restore_or_discard_backup env clock new_id j de be)"
  unfolding restore_or_discard_backup_def Let_def by (intro keeps_rules) auto

lemma validated_source: "validate_journal j = Inr u \<Longrightarrow> \<not> rj_staged_copy j \<or> rj_transfer_source j = None"
  by (auto simp: validate_journal_def rbind_Inr_iff Let_def split: if_splits)

lemma keeps_recover_replacement [keeps_rules]:
  assumes "rj_published j \<or> rj_destination j \<noteq> p" "path \<noteq> Dest p" "\<not> rj_staged_copy j \<or> rj_transfer_source j = None"
  shows "keeps p (recover_replacement env clock new_id path j)"
  unfolding recover_replacement_def finish_recovery_def rollback_proven_def receipt_outcome_def anchored_publication_def drop_anchor_def
    when_operation_def Let_def
  by (intro keeps_rules assms) auto

lemma keeps_handoff_copies [keeps_rules]: "(\<And>l. l \<in> set ls \<Longrightarrow> l \<noteq> Dest p) \<Longrightarrow> keeps p (handoff_copies ls trash)"
  by (induction ls arbitrary: trash) (auto intro!: keeps_rules)

text \<open>What a step returns when it succeeds.\<close>

definition gives :: "'a io \<Rightarrow> ('a \<Rightarrow> bool) \<Rightarrow> bool" where
  "gives m Q \<longleftrightarrow> (\<forall>w x w'. m w = (Inr x, w') \<longrightarrow> Q x)"

lemma gives_rules:
  "Q x \<Longrightarrow> gives (give x) Q" "gives (raise e) Q"
  "(\<And>x. gives (f x) Q) \<Longrightarrow> gives (seq m0 f) Q"
  "\<lbrakk>b \<Longrightarrow> gives m Q; \<not> b \<Longrightarrow> gives m' Q\<rbrakk> \<Longrightarrow> gives (if b then m else m') Q"
  "\<lbrakk>y = None \<Longrightarrow> gives m Q; \<And>z. y = Some z \<Longrightarrow> gives (g z) Q\<rbrakk> \<Longrightarrow> gives (case y of None \<Rightarrow> m | Some z \<Rightarrow> g z) Q"
  "(\<And>a b. z = (a, b) \<Longrightarrow> gives (h a b) Q) \<Longrightarrow> gives (case z of (a, b) \<Rightarrow> h a b) Q"
proof -
  show "(\<And>x. gives (f x) Q) \<Longrightarrow> gives (seq m0 f) Q"
    unfolding gives_def seq_def by (fastforce split: prod.splits sum.splits)
qed (auto simp: gives_def give_def raise_def split: option.splits prod.splits)

lemma gives_seq: "gives m R \<Longrightarrow> (\<And>x. R x \<Longrightarrow> gives (f x) Q) \<Longrightarrow> gives (seq m f) Q"
  unfolding gives_def seq_def by (fastforce split: prod.splits sum.splits)

lemma keeps_seq_gives: "keeps p m \<Longrightarrow> gives m R \<Longrightarrow> (\<And>x. R x \<Longrightarrow> keeps p (f x)) \<Longrightarrow> keeps p (seq m f)"
  unfolding keeps_def gives_def seq_def by (fastforce split: prod.splits sum.splits)

lemma gives_handoff: "gives (handoff_recovered_copy l) (\<lambda>staged. \<forall>t. staged = Some t \<longrightarrow> folder_of t = TrashFolder)"
  unfolding handoff_recovered_copy_def by (intro gives_rules) auto

lemma gives_handoff_copies:
  "\<forall>l \<in> set trash. folder_of l = TrashFolder \<Longrightarrow> gives (handoff_copies ls trash) (\<lambda>found. \<forall>l \<in> set found. folder_of l = TrashFolder)"
proof (induction ls arbitrary: trash)
  case (Cons l ls)
  show ?case
    unfolding handoff_copies.simps
    by (rule gives_seq [OF gives_handoff], rule Cons.IH) (use Cons.prems in \<open>auto split: option.splits\<close>)
qed (simp add: gives_rules)

lemma gives_clean_trash: "gives (clean_trash ls n retained debts) (\<lambda>(_, left). set left \<subseteq> set debts)"
proof (induction ls arbitrary: n retained debts)
  case (Cons l ls)
  have less: "gives (clean_trash ls n retained (al_remove i debts)) (\<lambda>(_, left). set left \<subseteq> set debts)" for n retained i
    using Cons.IH [of n retained "al_remove i debts"] by (fastforce simp: gives_def al_remove_def)
  show ?case unfolding clean_trash.simps by (intro gives_rules Cons.IH less)
qed (simp add: gives_rules)

lemma keeps_clean_trash [keeps_rules]:
  "(\<And>l. l \<in> set ls \<Longrightarrow> l \<noteq> Dest p) \<Longrightarrow> (\<And>i l debt. (i, l, debt) \<in> set debts \<Longrightarrow> l \<noteq> Dest p) \<Longrightarrow> keeps p (clean_trash ls n retained debts)"
proof (induction ls arbitrary: n retained debts)
  case (Cons l ls)
  have known: "r \<noteq> Dest p" if "al_get debts i = Some (r, debt)" for i r debt
    using Cons.prems(2) map_of_SomeD [of debts i "(r, debt)"] that by (auto simp: al_get_def)
  have less: "keeps p (clean_trash ls n retained (al_remove i debts))" for n retained i
    by (rule Cons.IH) (use Cons.prems in \<open>auto simp: al_remove_def\<close>)
  show ?case
    unfolding clean_trash.simps
    by (intro keeps_rules Cons.IH less) (use Cons.prems known in auto)
qed (simp add: keeps_pure)

lemma keeps_retire_debt [keeps_rules]: "l \<noteq> Dest p \<Longrightarrow> keeps p (retire_debt retained i l)"
  unfolding retire_debt_def by (intro keeps_rules)

text \<open>
  C16: Recovery validates the whole inventory before it changes anything. If a recovery after a restart
  changes the disk at all, then every journal and every deletion record on it could be read and
  agrees with its file name, no two pending replacements have the same destination, every backup is
  claimed by a journal, every anchor that belongs to a journal is declared by it, and no copy shares
  its identifier with a deletion. Otherwise all resources are retained as they are.
\<close>

theorem recovery_validates_first:
  assumes "w_pending w = None" "recover env clock fresh w = (r, w')" "w_disk w' \<noteq> w_disk w \<or> w_seen w' \<noteq> w_seen w"
  shows "unambiguous env (w_disk w)"
proof -
  obtain q w1 where run: "read_recovery_inventory env w = (q, w1)" by fastforce
  with reads_recovery_inventory [of env]
  have same: "w_disk w1 = w_disk w" "w_seen w1 = w_seen w" "\<And>x. q = Inr x \<Longrightarrow> unambiguous env (w_disk w)"
    unfolding reads_def by blast+
  show ?thesis
  proof (cases q)
    case (Inl e)
    with assms(1,2) run have "w' = w1" by (simp add: recover_def seq_def settle_publication_def)
    with assms(3) same show ?thesis by simp
  next
    case (Inr x)
    then show ?thesis by (rule same(3))
  qed
qed

lemma sample_recovery_changes: "w_seen (snd (recover sample_tx_env (Some 0) (\<lambda>_. sample_tx_id) (sample_restart sample_aside []))) \<noteq> []"
  by (simp add: recover_def execute_recovery_def read_recovery_inventory_def inventory_def inventory_page_def
      validate_inventory_entry_def read_journal_def decode_replace_journal_def check_backups_def check_anchors_def check_copies_def
      journal_anchors_def MAX_RECOVERY_ENTRIES_def MAX_JOURNAL_BYTES_def sample_restart_def sample_aside_def recovery_steps sample_run
      upload_record_def retire_journal_def remove_bounded_def handoff_recovered_copy_def)

theorem recovery_validates_first_witness: "unambiguous sample_tx_env sample_aside"
  using recovery_validates_first [OF _ prod.collapse [symmetric], of "sample_restart sample_aside []" sample_tx_env "Some 0" "\<lambda>_. sample_tx_id"]
    sample_recovery_changes
  by (simp add: sample_restart_def sample_world_def)

lemma keeps_execute_recovery:
  assumes x: "inventory_of env d x"
    and free: "\<And>i j. al_get d (JournalFile i) = Some (Doc (ReplaceDoc j)) \<Longrightarrow> rj_published j \<or> rj_destination j \<noteq> p"
  shows "keeps p (execute_recovery env clock fresh x)"
proof -
  have journal: "keeps p (recover_replacement env clock (fresh path) path j)" if "(path, j) \<in> set (ri_journals x)" for path j
  proof -
    have "journals_read env d (ri_journals x)" and paths: "\<forall>(path, j) \<in> set (ri_journals x). \<exists>i. path = JournalFile i"
      using x unfolding inventory_of_def by blast+
    from this(1) have read: "\<forall>(path, j) \<in> set (ri_journals x). \<exists>n. al_get d path = Some n \<and> decode_replace_journal env path n = Inr j"
      unfolding journals_read_def by (rule conjunct1)
    from bspec [OF read that] bspec [OF paths that]
    have "\<exists>n. al_get d path = Some n \<and> decode_replace_journal env path n = Inr j" "\<exists>i. path = JournalFile i" by simp_all
    then obtain n i where n: "al_get d path = Some n" "decode_replace_journal env path n = Inr j" "path = JournalFile i" by blast
    from decode_replace_journal_Inr [OF n(2)] n(1,3) free have "rj_published j \<or> rj_destination j \<noteq> p" by simp
    moreover have "\<exists>u. validate_journal j = Inr u"
      using n(2) by (auto simp: decode_replace_journal_def rbind_Inr_iff split: node.splits document.splits if_splits)
    ultimately show ?thesis using validated_source n(3) by (intro keeps_rules) auto
  qed
  have internal: "l \<noteq> Dest p" if "folder_of l \<in> {Journals, Uploads, Copies, TrashFolder, Anchors, Deletions}" for l
    using that by auto
  have paths: "\<And>l. l \<in> set (ri_pending_files x @ ri_uploads x) \<Longrightarrow> l \<noteq> Dest p" "\<And>l. l \<in> set (ri_anchors x) \<Longrightarrow> l \<noteq> Dest p"
      "\<And>l. l \<in> set (ri_copies x) \<Longrightarrow> l \<noteq> Dest p" "\<And>i l debt. (i, l, debt) \<in> set (ri_deletion_records x) \<Longrightarrow> l \<noteq> Dest p"
      "\<And>l. l \<in> set (ri_pending_deletion_records x) \<Longrightarrow> l \<noteq> Dest p" and trash: "\<forall>l \<in> set (ri_trash x). folder_of l = TrashFolder"
    using x unfolding inventory_of_def by (auto simp del: folder_of_cases intro: internal)
  have debts: "keeps p (seq (for_each (\<lambda>(i, record_path, _). retire_debt retained i record_path) left) (\<lambda>_.
      for_each (\<lambda>path. seq (from_result (resource_id path)) (\<lambda>i. retire_debt retained i path)) (ri_pending_deletion_records x)))"
    if "set left \<subseteq> set (ri_deletion_records x)" for retained left
    by (intro keeps_rules) (use that paths(4,5) in fastforce)+
  have rest: "keeps p (seq (clean_trash trash DELETION_NODES_PER_PASS [] (ri_deletion_records x)) (\<lambda>(retained, left).
      seq (for_each (\<lambda>(i, record_path, _). retire_debt retained i record_path) left) (\<lambda>_.
      for_each (\<lambda>path. seq (from_result (resource_id path)) (\<lambda>i. retire_debt retained i path)) (ri_pending_deletion_records x))))"
    if "\<forall>l \<in> set trash. folder_of l = TrashFolder" for trash
    by (rule keeps_seq_gives [OF keeps_clean_trash gives_clean_trash]) (use that paths(4) debts in auto)
  show ?thesis
    unfolding execute_recovery_def
    by (intro keeps_seq keeps_for_each keeps_pair keeps_if keeps_metadata keeps_pure keeps_remove keeps_sync_parent keeps_retire
        keeps_seq_gives [OF keeps_handoff_copies gives_handoff_copies [OF trash] rest] paths journal) auto
qed

text \<open>
  C15: Recovery touches no file that it does not have to restore. A file of the user that is not the
  destination of a pending replacement keeps its contents through a whole recovery after a restart,
  in every state of the disk that the recovery passes through, whatever system calls fail and
  whatever it finds among the internal resources; so does the source of an interrupted move.
\<close>

theorem recovery_leaves_other_files:
  assumes "w_pending w = None" "recover env clock fresh w = (r, w')"
    and free: "\<And>i j. al_get (w_disk w) (JournalFile i) = Some (Doc (ReplaceDoc j)) \<Longrightarrow> rj_published j \<or> rj_destination j \<noteq> p"
  shows "al_get (w_disk w') (Dest p) = al_get (w_disk w) (Dest p) \<and>
    (\<forall>d \<in> set (w_seen w'). d \<in> set (w_seen w) \<or> al_get d (Dest p) = al_get (w_disk w) (Dest p))"
proof -
  obtain q w1 where run: "read_recovery_inventory env w = (q, w1)" by fastforce
  with reads_recovery_inventory [of env]
  have same: "w_disk w1 = w_disk w" "w_seen w1 = w_seen w" and known: "\<And>x. q = Inr x \<Longrightarrow> inventory_of env (w_disk w) x"
    unfolding reads_def by blast+
  show ?thesis
  proof (cases q)
    case (Inl e)
    with assms(1,2) run have "w' = w1" by (simp add: recover_def seq_def settle_publication_def)
    with same show ?thesis by simp
  next
    case (Inr x)
    note x = known [OF Inr]
    with assms(1,2) run Inr have "execute_recovery env clock fresh x w1 = (r, w')" by (simp add: recover_def seq_def settle_publication_def)
    moreover have "keeps p (execute_recovery env clock fresh x)"
      by (rule keeps_execute_recovery [OF x]) (rule free)
    ultimately show ?thesis using same unfolding keeps_def by metis
  qed
qed

theorem recovery_leaves_other_files_witness:
  "al_get (w_disk (snd (recover sample_tx_env (Some 0) (\<lambda>_. sample_tx_id) (sample_restart ((Dest ''b'', sample_new) # sample_aside) []))))
     (Dest ''b'') = Some sample_new"
proof -
  let ?w = "sample_restart ((Dest ''b'', sample_new) # sample_aside) []"
  have disk: "w_disk ?w = (Dest ''b'', sample_new) # sample_aside" "w_pending ?w = None"
    by (simp_all add: sample_restart_def sample_world_def)
  have free: "rj_published j \<or> rj_destination j \<noteq> ''b''" if "al_get (w_disk ?w) (JournalFile i) = Some (Doc (ReplaceDoc j))" for i j
    using that unfolding disk by (auto simp: al_get_def sample_aside_def upload_record_def split: if_splits)
  have "al_get (w_disk ?w) (Dest ''b'') = Some sample_new" unfolding disk by (simp add: al_get_def)
  with conjunct1 [OF recovery_leaves_other_files [OF disk(2) prod.collapse [symmetric] free]] show ?thesis by simp
qed

end
