(* ===== verification/Spec2Isabelle.thy ===== *)
theory Spec2Isabelle
  imports TrafficGuarantees UploadAdmission SessionGuarantees DirectorySnapshots RecoveryInventory
begin

text \<open>
  Verification of Ycloud, a self-hosted file server: browsers and WebDAV clients read and write
  files of several storages (directories of the server or buckets of an object store) through one
  process written in Rust. This development models the decisions that process makes about who may
  do what, where a request may write, what is on disk at each moment and what a restart finds
  there, and proves the properties the code relies on. The Rust sources are under src/src.

  \<^bold>\<open>The program and how its parts interact.\<close> A request passes the boundary checks of security.rs and
  domain_binding.rs (host, client address, origin), is attributed to a session (auth/session.rs;
  failed logins are counted by login_security.rs), and names a logical path. file_access.rs
  resolves the storage, checks the permission and the folder locks, and storage/path.rs turns the
  path into a normal form below the storage root. batch_operations.rs applies these guards to
  lists of paths, upload_batch.rs to uploads: a ticket reserves the targets of a batch, every
  target is recorded in an index on disk before its upload starts, and is settled when the
  outcome is known. Downloads are charged by traffic.rs: a single writer appends charges to a
  journal in groups, a snapshot replaces the journal from time to time, and a metered body sends
  no byte that has not been charged. config/commit.rs and config/persistence.rs publish
  configuration and state files by atomic replacement with a backup; state.rs and admin_api.rs edit
  the configuration in force. auth.rs issues sessions after a password and a one-time code (totp.rs).
  storage_transaction.rs and the files beside it move an uploaded file into place under a journal,
  keep the receipt of the upload and recover what an interruption left. directory_listing.rs and
  directory_snapshot.rs list directories in pages. error.rs is the error of all of these.

  \<^bold>\<open>Theories.\<close>
  \<^item> \<open>Prelude\<close>: strings as lists of UTF-8 bytes, splitting and trimming, decimal numbers with their
    range check, saturating arithmetic, \<open>Result\<close> as a sum with \<open>rbind\<close> for the question mark
    operator, association lists for hash maps, and the lemmas on them the components share.
  \<^item> \<open>AppError\<close>: error.rs. The enum \<open>app_error\<close> with its status, code and public message.
  \<^item> \<open>Paths\<close>: storage/path.rs and the entry points of storage/linux_root.rs. \<open>normalize_relative\<close>,
    \<open>validate_name\<close>, \<open>resolve_for_write\<close>. A normalised path has only plain components, is its own
    normal form (the locale \<open>path_normalizer\<close>, interpreted on \<open>normalize_relative\<close>), and resolves
    below the root.
  \<^item> \<open>Sessions\<close>: auth/session.rs. Two bounded stores of tokens; one session for each principal, the
    bounds, and what a logout revokes. The operations are also a step relation, and the
    invariants hold in every reachable store.
  \<^item> \<open>Conditions\<close>: storage/write_conditions.rs and storage/read_conditions.rs. Entity tags, conditional
    requests and byte ranges: tags read back, ranges lie in the file.
  \<^item> \<open>LoginSecurity\<close>: login_security.rs. Failure counters, blocks, the bounded table and the event
    log. A block outlives every other event until it expires or is lifted; the log reads back, and
    an append behind a line that was cut off makes it unreadable.
  \<^item> \<open>Traffic\<close>, \<open>TrafficRecovery\<close>, \<open>TrafficGuarantees\<close>: traffic.rs, traffic/commit.rs and
    traffic/stream.rs. \<open>Traffic\<close> is the model: the record \<open>ledger\<close>, \<open>ledger_apply\<close>, \<open>write_group\<close>
    and \<open>load_traffic\<close>. \<open>TrafficRecovery\<close> states the contract of a numbered log (the locale
    \<open>sequenced_log\<close>, interpreted on the ledger) and that journal and snapshot replay to the
    ledger in memory after every prefix of the writes. \<open>TrafficGuarantees\<close> has the properties. They
    are stated for clocks between the years 2000 and 2200 and a reset schedule that is kept; a charge
    made under another clock can make the next start fail (\<open>odd_clock_blocks_restart\<close>).
  \<^item> \<open>FileAccess\<close>: file_access.rs, the path relations of config.rs and config/model.rs, and
    batch_operations.rs. Permissions, folder locks and their two tests, and a batch of delete,
    move or copy that never reaches a locked folder.
  \<^item> \<open>UploadBatch\<close>, \<open>UploadPlanning\<close>, \<open>UploadDurability\<close>, \<open>UploadAdmission\<close>: upload_batch.rs,
    upload_batch/item.rs and upload_batch/persistence.rs. \<open>UploadBatch\<close> is the model: the record
    \<open>upload_store\<close> holds the registry of batches and the index on disk, with one function per
    operation. \<open>UploadPlanning\<close> shows that planned names are free and distinct, \<open>UploadDurability\<close>
    that uploads in flight are on disk in every reachable store and come back after a restart,
    \<open>UploadAdmission\<close> that tickets never share a target and stay within their limits. Names are free
    with respect to a backend whose listings show every ordinary name that its metadata answers for
    (\<open>lists_what_exists\<close>).
  \<^item> \<open>ConfigStore\<close>: config/commit.rs and config/persistence.rs over a directory of inodes. A
    publication is atomic under a crash after any system call, and start-up finds the old or the
    new configuration.
  \<^item> \<open>HttpBoundary\<close>: security.rs, domain_binding.rs and webdav_path.rs. Writes from another origin
    are refused; WebDAV paths survive their encoding.

  \<^item> \<open>Totp\<close>: totp.rs. Base 32 on 32-bit words, codes and their window, and the store of used steps.
  \<^item> \<open>Configuration\<close>: config/model.rs, config/validation.rs and config/runtime.rs. The record
    \<open>config_file\<close> and \<open>validate\<close> with the error of each rule; what a validated configuration
    guarantees, and that no WebDAV share reaches a locked folder.
  \<^item> \<open>AppState\<close>: state.rs, admin_api.rs and admin_api/users.rs. \<open>update_config\<close> and the requests of
    the administrator on it; the configuration in force is always the one that a restart loads.
  \<^item> \<open>Authentication\<close>, \<open>SessionGuarantees\<close>: auth.rs, auth/login.rs, auth/password.rs and
    admin_api/totp.rs. Rate limits, logins and the attribution of requests. A session is issued only
    on credentials in force, and in every interleaving (\<open>sys_steps\<close>) it ends with its account.
  \<^item> \<open>DirectoryListing\<close>, \<open>DirectorySnapshots\<close>: directory_listing.rs, directory_snapshot.rs and the
    part of storage_backend.rs that builds a page. The three ways to make a page agree with the sorted list
    of matching entries; a kept listing is served for its lifetime only, and is current whenever no
    writer is at work and nothing changed the files in the background since its build. The recovery
    of interrupted transactions does change them in the background, without an invalidation
    (\<open>background_change_served_stale\<close>).
  \<^item> \<open>TransactionStore\<close>, \<open>LocalTransactions\<close>: the record \<open>world\<close> is the disk below a storage root with
    every visible state of it and the changes that are not synchronised; a value of \<open>'a io\<close> is a step
    on it that may fail. A stop of the process leaves one of the visible states. A power failure may
    lose any part of the changes whose directory was not synchronised (\<open>crash_states\<close>). \<open>TransactionStore\<close> has the system calls, record files, inventories and receipts
    (metadata.rs, receipts.rs, linux_root.rs), \<open>LocalTransactions\<close> publication, rollback, staged
    deletion, transfers and the recovery of one replacement (storage_transaction.rs, transfer.rs,
    recovery.rs).
  \<^item> \<open>TransactionLogic\<close>, \<open>TransactionGuarantees\<close>, \<open>TransactionRecovery\<close>: proof rules (\<open>holds\<close>) for
    these steps under all failures, the phases of a replacement, what an upload reports, and what is
    on disk however often commit and recovery are interrupted. Two lemmas at the end
    (\<open>stopped_rollback_blocks_recovery\<close>, \<open>transfer_denies_its_commit\<close>) evaluate runs in which the
    code reports or refuses what it should not.
  \<^item> \<open>RecoveryInventory\<close>: recovery.rs as a whole and the staged deletions. Rules for steps that only
    look (\<open>reads\<close>) and for steps that leave a file alone (\<open>keeps\<close>): recovery validates everything
    before it changes anything, and touches no file that it need not restore.

  \<^bold>\<open>Conventions.\<close> A struct is a record, an enum a datatype, an early return a left value. Machine
  integers are natural numbers with the saturation or the range check of the source written out.
  A clock reading, a random token and the outcome of a system call are arguments. Locks that are
  held for a whole operation make it one function of the state; where an operation waits between
  two looks at the state, the argument \<open>env\<close> is what other requests do meanwhile; theorems assume
  of it (\<open>rely\<close>, \<open>rely_wait\<close>) that it keeps the invariant of the store and leaves alone a ticket
  whose transition gate is held. Other requests are thus taken one whole operation at a time; a
  request suspended between its index write and its second look at the registry is outside this
  assumption. Code outside the repository (the calendar of chrono, JSON codecs, HTTP header and
  address parsing, \<open>openat2\<close>, a storage backend) is a parameter; theorems name what they need of
  it (such as \<open>chrono_ok\<close> and \<open>collision_free\<close>), and their witnesses give a concrete instance.

  \<^bold>\<open>Loops.\<close> Loops over data are structural or have a measure. The eviction loop of the session stores
  and the month loop of the reset schedule are partial functions, where not returning is
  \<open>None\<close>; \<open>create_for_replaces\<close>, \<open>access_tokens_bounded\<close> and \<open>next_reset_first_boundary\<close> show that
  they return. No definition is cut off by a bound that the code does not have.

  \<open>browse\<close> follows pages with a bound on their number, and \<open>browsing_lists_everything\<close> shows that
  more requests than there are entries are enough.

  \<^bold>\<open>Not modelled.\<close> Routing, extraction and JSON answers of the handlers (app.rs, api.rs,
  bootstrap.rs) are glue around the modelled operations. The descriptor-level file operations
  (storage.rs, storage/copy.rs, storage/cleanup.rs), the set-up of the private directories, the
  background tasks of upload_recovery.rs, the registry of storages and its lifecycle, the storage
  edits of state.rs, archives and size scans, the WebDAV handlers and direct uploads are not
  modelled. Messages that the code has in Chinese are given in English. The S3 backend runs on a client
  library and enters as backend queries. The limits on bandwidth depend on floating-point time and
  on the scheduler of the runtime.
\<close>

end
